(* ===== verification/Prelude.thy ===== *)
theory Prelude
  imports Main "HOL-Library.Word" "HOL-Library.Monad_Syntax"
begin

text \<open>
  Shared vocabulary of the development: the machine integer types, the fact collections,
  the byte order conversions (\<open>htons\<close>, \<open>htonl\<close> and the \<open>memcpy\<close>s around them), the part of
  the C library's string functions that the sources call (\<open>snprintf\<close> with hexadecimal
  conversions, \<open>sscanf\<close> with \<open>%x\<close>, \<open>strtol\<close>, \<open>strcmp\<close>, \<open>tolower\<close>), and the GLib singly
  linked list operations. A C string is the list of its characters before the terminating
  NUL, so \<open>strlen\<close> is \<open>length\<close>.
\<close>

unbundle bit_operations_syntax

type_synonym u8 = "8 word"
type_synonym u16 = "16 word"
type_synonym u32 = "32 word"
type_synonym u64 = "64 word"
type_synonym i32 = "32 word"
type_synonym addr = nat
type_synonym ptr = "addr option"
type_synonym fid = nat

named_theorems byte_order "round trips of the byte order conversions"
named_theorems hex_simps "printing and reading hexadecimal digits"
named_theorems gslist "the GLib list operations"

section \<open>Byte order\<close>

definition be16 :: "u16 \<Rightarrow> u8 list" where
  "be16 w = [ucast (drop_bit 8 w), ucast w]"

definition be32 :: "u32 \<Rightarrow> u8 list" where
  "be32 w = [ucast (drop_bit 24 w), ucast (drop_bit 16 w), ucast (drop_bit 8 w), ucast w]"

definition le16 :: "u16 \<Rightarrow> u8 list" where
  "le16 w = rev (be16 w)"

definition le32 :: "u32 \<Rightarrow> u8 list" where
  "le32 w = rev (be32 w)"

text \<open>Reading an integer from the bytes at an offset, as \<open>memcpy\<close> and \<open>ntohs\<close> do.\<close>

definition get_be16 :: "u8 list \<Rightarrow> nat \<Rightarrow> u16" where
  "get_be16 bs i = push_bit 8 (ucast (bs ! i)) OR ucast (bs ! (i + 1))"

definition get_be32 :: "u8 list \<Rightarrow> nat \<Rightarrow> u32" where
  "get_be32 bs i = push_bit 24 (ucast (bs ! i)) OR push_bit 16 (ucast (bs ! (i + 1)))
     OR push_bit 8 (ucast (bs ! (i + 2))) OR ucast (bs ! (i + 3))"

definition get_le16 :: "u8 list \<Rightarrow> nat \<Rightarrow> u16" where
  "get_le16 bs i = ucast (bs ! i) OR push_bit 8 (ucast (bs ! (i + 1)))"

definition get_le32 :: "u8 list \<Rightarrow> nat \<Rightarrow> u32" where
  "get_le32 bs i = ucast (bs ! i) OR push_bit 8 (ucast (bs ! (i + 1)))
     OR push_bit 16 (ucast (bs ! (i + 2))) OR push_bit 24 (ucast (bs ! (i + 3)))"

lemma length_be16 [simp]: "length (be16 w) = 2"
  by (simp add: be16_def)

lemma length_be32 [simp]: "length (be32 w) = 4"
  by (simp add: be32_def)

lemma length_le16 [simp]: "length (le16 w) = 2"
  by (simp add: le16_def)

lemma length_le32 [simp]: "length (le32 w) = 4"
  by (simp add: le32_def)

lemma join16: "push_bit 8 (ucast (ucast (drop_bit 8 w) :: u8)) OR ucast (ucast w :: u8) = (w :: u16)"
  by (rule bit_word_eqI) (auto simp: bit_simps)

lemma join32:
  "push_bit 24 (ucast (ucast (drop_bit 24 w) :: u8)) OR push_bit 16 (ucast (ucast (drop_bit 16 w) :: u8))
     OR push_bit 8 (ucast (ucast (drop_bit 8 w) :: u8)) OR ucast (ucast w :: u8) = (w :: u32)"
proof (rule bit_word_eqI)
  fix n assume "n < LENGTH(32)"
  then consider "n < 8" | "8 \<le> n" "n < 16" | "16 \<le> n" "n < 24" | "24 \<le> n" "n < 32"
    by fastforce
  then show "bit (push_bit 24 (ucast (ucast (drop_bit 24 w) :: u8)) OR push_bit 16 (ucast (ucast (drop_bit 16 w) :: u8))
     OR push_bit 8 (ucast (ucast (drop_bit 8 w) :: u8)) OR ucast (ucast w :: u8) :: u32) n = bit w n"
    by cases (auto simp: bit_simps)
qed

lemma get_be16_be16 [byte_order]: "get_be16 (be16 w @ xs) 0 = w"
  by (simp add: get_be16_def be16_def join16)

lemma get_be32_be32 [byte_order]: "get_be32 (be32 w @ xs) 0 = w"
  by (simp add: get_be32_def be32_def join32 numeral_2_eq_2 numeral_3_eq_3)

lemma get_le16_le16 [byte_order]: "get_le16 (le16 w @ xs) 0 = w"
  using join16 [of w] by (simp add: get_le16_def le16_def be16_def or.commute)

lemma get_le32_le32 [byte_order]: "get_le32 (le32 w @ xs) 0 = w"
  using join32 [of w]
  by (simp add: get_le32_def le32_def be32_def numeral_2_eq_2 numeral_3_eq_3 or.commute or.left_commute)

lemma be16_parts:
  fixes a b :: u8
  shows "ucast (drop_bit 8 (push_bit 8 (ucast a) OR ucast b :: u16)) = a"
    and "ucast (push_bit 8 (ucast a) OR ucast b :: u16) = b"
  by (rule bit_word_eqI, auto simp: bit_simps dest: bit_imp_le_length)+

lemma be32_parts:
  fixes a b c d :: u8
  defines "w \<equiv> (push_bit 24 (ucast a) OR push_bit 16 (ucast b) OR push_bit 8 (ucast c) OR ucast d :: u32)"
  shows "ucast (drop_bit 24 w) = a" and "ucast (drop_bit 16 w) = b"
    and "ucast (drop_bit 8 w) = c" and "ucast w = d"
  unfolding w_def by (rule bit_word_eqI, auto simp: bit_simps dest: bit_imp_le_length)+

lemma take_drop_2: "i + 1 < length xs \<Longrightarrow> take 2 (drop i xs) = [xs ! i, xs ! (i + 1)]"
  by (simp add: numeral_2_eq_2 Cons_nth_drop_Suc [symmetric])

lemma take_drop_4:
  "i + 3 < length xs \<Longrightarrow> take 4 (drop i xs) = [xs ! i, xs ! (i + 1), xs ! (i + 2), xs ! (i + 3)]"
  by (simp add: eval_nat_numeral Cons_nth_drop_Suc [symmetric])

lemma be16_get_be16 [byte_order]: "i + 1 < length bs \<Longrightarrow> be16 (get_be16 bs i) = take 2 (drop i bs)"
  unfolding be16_def get_be16_def by (simp only: be16_parts take_drop_2)

lemma be32_get_be32 [byte_order]: "i + 3 < length bs \<Longrightarrow> be32 (get_be32 bs i) = take 4 (drop i bs)"
  unfolding be32_def get_be32_def by (simp only: be32_parts take_drop_4)

lemma be32_be16: "be32 (get_be32 bs i) = be16 (get_be16 bs i) @ be16 (get_be16 bs (i + 2))"
  unfolding be32_def get_be32_def be16_def get_be16_def by (simp only: be16_parts be32_parts) (simp add: eval_nat_numeral)

lemma take_drop_join: "take k (drop i xs) @ drop (i + k) xs = drop i xs"
  by (metis add.commute append_take_drop_id drop_drop)

lemma words16_of_bytes:
  assumes "length bs = 16"
  shows "be16 (get_be16 bs 0) @ be16 (get_be16 bs 2) @ be16 (get_be16 bs 4) @ be16 (get_be16 bs 6)
     @ be16 (get_be16 bs 8) @ be16 (get_be16 bs 10) @ be16 (get_be16 bs 12) @ be16 (get_be16 bs 14) = bs"
proof -
  have "be16 (get_be16 bs 14) = drop 14 bs" using assms by (simp add: be16_get_be16)
  then show ?thesis
    using assms take_drop_join [of 2 0 bs] take_drop_join [of 2 2 bs] take_drop_join [of 2 4 bs]
      take_drop_join [of 2 6 bs] take_drop_join [of 2 8 bs] take_drop_join [of 2 10 bs]
      take_drop_join [of 2 12 bs]
    by (simp add: be16_get_be16)
qed

text \<open>Running a destroy function over the entries of a queue that has been emptied.\<close>

primrec each :: "(addr \<Rightarrow> 's \<Rightarrow> 's option) \<Rightarrow> addr list \<Rightarrow> 's \<Rightarrow> 's option" where
  "each f [] s = Some s"
| "each f (a # as) s = do { s \<leftarrow> f a s; each f as s }"

section \<open>Runs of operations\<close>

text \<open>A data structure is used by a run of operations. The step \<open>None\<close> is undefined behaviour; the specification
  gives the answer and the next abstract state of every operation that keeps the contract \<open>lawful\<close>.\<close>

fun run_all :: "('o \<Rightarrow> 's \<Rightarrow> ('r \<times> 's) option) \<Rightarrow> 'o list \<Rightarrow> 's \<Rightarrow> ('r list \<times> 's) option" where
  "run_all step [] s = Some ([], s)"
| "run_all step (op # ops) s = do { (r, s) \<leftarrow> step op s; (rs, s) \<leftarrow> run_all step ops s; Some (r # rs, s) }"

fun spec_all :: "('o \<Rightarrow> 'a \<Rightarrow> 'r \<times> 'a) \<Rightarrow> 'o list \<Rightarrow> 'a \<Rightarrow> 'r list \<times> 'a" where
  "spec_all spec [] x = ([], x)"
| "spec_all spec (op # ops) x = (case spec op x of (r, x) \<Rightarrow> case spec_all spec ops x of (rs, x) \<Rightarrow> (r # rs, x))"

lemma list_all_True: "list_all (\<lambda>_. True) xs"
  by (simp add: list_all_iff)

locale operation_refinement =
  fixes step :: "'o \<Rightarrow> 's \<Rightarrow> ('r \<times> 's) option" and spec :: "'o \<Rightarrow> 'a \<Rightarrow> 'r \<times> 'a"
    and lawful :: "'o \<Rightarrow> bool" and rel :: "'s \<Rightarrow> 'a \<Rightarrow> bool"
  assumes refines: "rel s x \<Longrightarrow> lawful op \<Longrightarrow> \<exists>s'. step op s = Some (fst (spec op x), s') \<and> rel s' (snd (spec op x))"
begin

lemma run_refines:
  "rel s x \<Longrightarrow> list_all lawful ops
    \<Longrightarrow> \<exists>s'. run_all step ops s = Some (fst (spec_all spec ops x), s') \<and> rel s' (snd (spec_all spec ops x))"
proof (induction ops arbitrary: s x)
  case (Cons op ops)
  obtain s1 where s1: "step op s = Some (fst (spec op x), s1)" "rel s1 (snd (spec op x))"
    using refines [OF Cons.prems(1)] Cons.prems(2) by auto
  with Cons.IH [OF s1(2)] Cons.prems(2) show ?case by (auto split: prod.splits)
qed simp

end

end
