(* ===== verification/Cstring.thy ===== *)
theory Cstring
  imports Prelude "HOL-Library.Monad_Syntax"
begin

text \<open>
  The C library's string functions that the sources call, on C strings as character lists
  without the terminating NUL: \<open>isspace\<close>, \<open>tolower\<close> (in the C locale), \<open>strtol\<close> in base 16,
  the \<open>%x\<close> and \<open>%1[..]\<close> conversions of \<open>sscanf\<close>, the \<open>%.<p>x\<close> conversion of \<open>snprintf\<close> and
  its truncation to the buffer, \<open>strncpy\<close>, \<open>strncmp\<close> on a prefix, and \<open>memcmp\<close>.
  \<open>long\<close> has 64 bits.
\<close>

section \<open>Characters\<close>

definition isspace :: "char \<Rightarrow> bool" where
  "isspace c \<longleftrightarrow> (let n = (of_char c :: nat) in n = 32 \<or> (9 \<le> n \<and> n \<le> 13))"

definition tolower :: "char \<Rightarrow> char" where
  "tolower c = (let n = (of_char c :: nat) in if 65 \<le> n \<and> n \<le> 90 then char_of (n + 32) else c)"

definition hexval :: "char \<Rightarrow> nat option" where
  "hexval c = (let n = (of_char c :: nat) in
     if 48 \<le> n \<and> n \<le> 57 then Some (n - 48)
     else if 97 \<le> n \<and> n \<le> 102 then Some (n - 87)
     else if 65 \<le> n \<and> n \<le> 70 then Some (n - 55)
     else None)"

definition hexdigit :: "nat \<Rightarrow> char" where
  "hexdigit n = char_of (if n < 10 then n + 48 else n + 87)"

lemma of_char_hexdigit:
  "n < 16 \<Longrightarrow> (of_char (hexdigit n) :: nat) = (if n < 10 then n + 48 else n + 87)"
  by (simp add: hexdigit_def)

lemma hexval_hexdigit [hex_simps]: "n < 16 \<Longrightarrow> hexval (hexdigit n) = Some n"
  by (simp add: hexval_def Let_def of_char_hexdigit)

lemma hexdigit_not_space [hex_simps]: "n < 16 \<Longrightarrow> \<not> isspace (hexdigit n)"
  by (simp add: isspace_def Let_def of_char_hexdigit)

lemma hexdigit_not_sign [hex_simps]:
  assumes "n < 16"
  shows "hexdigit n \<noteq> CHR ''-''" and "hexdigit n \<noteq> CHR ''+''"
    and "hexdigit n \<noteq> CHR ''x''" and "hexdigit n \<noteq> CHR ''X''"
  using of_char_hexdigit [OF assms] assms by (auto split: if_splits)

lemma hexval_less: "hexval c = Some v \<Longrightarrow> v < 16"
  by (auto simp: hexval_def Let_def split: if_splits)

lemma tolower_idem [simp]: "tolower (tolower c) = tolower c"
proof (cases "65 \<le> (of_char c :: nat) \<and> (of_char c :: nat) \<le> 90")
  case True
  then show ?thesis by (simp add: tolower_def Let_def)
next
  case False
  then have "tolower c = c" by (auto simp: tolower_def Let_def)
  then show ?thesis by simp
qed

section \<open>Comparison\<close>

text \<open>
  \<open>strcasecmp\<close>: both \<open>g_ascii_strcasecmp\<close> of GLib and \<open>stricmp\<close> of the sources return 0
  exactly when the lower case strings agree; the sources only test the result against 0.
  \<open>memcmp\<close>: C fixes only the sign of its result, which is all the model keeps.
\<close>

definition strcaseeq :: "string \<Rightarrow> string \<Rightarrow> bool" where
  "strcaseeq a b \<longleftrightarrow> map tolower a = map tolower b"

lemma strcaseeq_refl [simp]: "strcaseeq a a"
  by (simp add: strcaseeq_def)

lemma strcaseeq_sym: "strcaseeq a b \<Longrightarrow> strcaseeq b a"
  by (simp add: strcaseeq_def)

lemma strcaseeq_trans: "strcaseeq a b \<Longrightarrow> strcaseeq b c \<Longrightarrow> strcaseeq a c"
  by (simp add: strcaseeq_def)

fun memcmp :: "u8 list \<Rightarrow> u8 list \<Rightarrow> int" where
  "memcmp (a # as) (b # bs) = (if a < b then -1 else if b < a then 1 else memcmp as bs)"
| "memcmp _ _ = 0"

lemma memcmp_eq_0: "length as = length bs \<Longrightarrow> memcmp as bs = 0 \<longleftrightarrow> as = bs"
  by (induction as bs rule: memcmp.induct) auto

lemma memcmp_refl [simp]: "memcmp as as = 0"
  by (induction as) auto

lemma memcmp_swap: "memcmp bs as = - memcmp as bs"
  by (induction as bs rule: memcmp.induct) auto

section \<open>Output\<close>

text \<open>
  \<open>%.<p>x\<close> prints a non-negative integer in lower case hexadecimal, with leading zeros up
  to \<open>p\<close> digits. \<open>snprintf str n\<close> stores at most \<open>n - 1\<close> characters and the NUL, and
  nothing at all when \<open>n\<close> is 0.
\<close>

fun hexmin :: "nat \<Rightarrow> string" where
  "hexmin n = (if n < 16 then [hexdigit n] else hexmin (n div 16) @ [hexdigit (n mod 16)])"

declare hexmin.simps [simp del]

definition fmt_hex :: "nat \<Rightarrow> nat \<Rightarrow> string" where
  "fmt_hex p n = replicate (p - length (hexmin n)) (hexdigit 0) @ hexmin n"

fun fmt_dec :: "nat \<Rightarrow> string" where
  "fmt_dec n = (if n < 10 then [char_of (n + 48)] else fmt_dec (n div 10) @ [char_of (n mod 10 + 48)])"

declare fmt_dec.simps [simp del]

definition snprintf :: "nat \<Rightarrow> string \<Rightarrow> string option" where
  "snprintf n s = (if n = 0 then None else Some (take (n - 1) s))"

fun hexn :: "nat \<Rightarrow> nat \<Rightarrow> string" where
  "hexn 0 n = []"
| "hexn (Suc k) n = hexn k (n div 16) @ [hexdigit (n mod 16)]"

lemma length_hexn [simp]: "length (hexn k n) = k"
  by (induction k arbitrary: n) auto

lemma hexn_0: "hexn k 0 = replicate k (hexdigit 0)"
  by (induction k) (auto simp: replicate_append_same)

lemma fmt_hex_hexn: "n < 16 ^ p \<Longrightarrow> 0 < p \<Longrightarrow> fmt_hex p n = hexn p n"
proof (induction p arbitrary: n)
  case 0
  then show ?case by simp
next
  case (Suc p)
  show ?case
  proof (cases "n < 16")
    case True
    then have "fmt_hex (Suc p) n = hexn p 0 @ [hexdigit n]"
      by (simp add: fmt_hex_def hexmin.simps [of n] hexn_0)
    with True show ?thesis by simp
  next
    case False
    with Suc.prems have p: "0 < p" and m: "n div 16 < 16 ^ p"
      by (cases p, auto)
    from False have "fmt_hex (Suc p) n = fmt_hex p (n div 16) @ [hexdigit (n mod 16)]"
      by (simp add: fmt_hex_def hexmin.simps [of n])
    with Suc.IH [OF m p] show ?thesis by simp
  qed
qed

lemma hexn_hexdigits: "c \<in> set (hexn k n) \<Longrightarrow> \<exists>d < 16. c = hexdigit d"
  by (induction k arbitrary: n) (auto intro: exI [of _ "n mod 16" for n])

section \<open>Input\<close>

text \<open>Hexadecimal digits, at most \<open>w\<close> of them: value so far, digits read, rest.\<close>

fun scan_digits :: "nat \<Rightarrow> nat \<Rightarrow> nat \<Rightarrow> string \<Rightarrow> nat \<times> nat \<times> string" where
  "scan_digits (Suc w) v k (c # s) =
     (case hexval c of None \<Rightarrow> (v, k, c # s) | Some d \<Rightarrow> scan_digits w (16 * v + d) (Suc k) s)"
| "scan_digits w v k s = (v, k, s)"

text \<open>A sign and a \<open>0x\<close> prefix, each counted against the width.\<close>

definition scan_sign :: "nat \<Rightarrow> string \<Rightarrow> bool \<times> nat \<times> string" where
  "scan_sign w s = (case s of c # s' \<Rightarrow>
       if 0 < w \<and> c = CHR ''-'' then (True, w - 1, s')
       else if 0 < w \<and> c = CHR ''+'' then (False, w - 1, s')
       else (False, w, s)
     | [] \<Rightarrow> (False, w, s))"

definition scan_0x :: "nat \<Rightarrow> string \<Rightarrow> bool \<times> nat \<times> string" where
  "scan_0x w s = (case s of z # x # s' \<Rightarrow>
       if 2 \<le> w \<and> z = CHR ''0'' \<and> (x = CHR ''x'' \<or> x = CHR ''X'') then (True, w - 2, s')
       else (False, w, s)
     | _ \<Rightarrow> (False, w, s))"

text \<open>
  \<open>%<w>x\<close> of \<open>sscanf\<close>: leading white space is skipped, then the longest prefix of at most
  \<open>w\<close> characters that begins a number is read; a \<open>0x\<close> with no digit after it is a matching
  failure. A sign is allowed, as in \<open>strtoul\<close>. The result is the integer before it is
  stored (and so truncated) in the argument.
\<close>

definition scan_x :: "nat \<Rightarrow> string \<Rightarrow> (int \<times> string) option" where
  "scan_x w s =
     (let s1 = dropWhile isspace s;
          (neg, w2, s2) = scan_sign w s1;
          (pre, w3, s3) = scan_0x w2 s2;
          (v, k, r) = scan_digits w3 0 0 s3
      in if k = 0 then None else Some (if neg then - int v else int v, r))"

definition scan_lit :: "string \<Rightarrow> string \<Rightarrow> string option" where
  "scan_lit p s = (if take (length p) s = p then Some (drop (length p) s) else None)"

definition scan_set1 :: "char set \<Rightarrow> string \<Rightarrow> string option" where
  "scan_set1 cs s = (case s of c # r \<Rightarrow> if c \<in> cs then Some r else None | [] \<Rightarrow> None)"

text \<open>
  \<open>strtol(s, &endptr, 16)\<close>: the value, clamped to \<open>long\<close>, and the rest that \<open>endptr\<close> points
  to, which is the whole string when no digit is found (after a bare \<open>0x\<close> it is the \<open>x\<close>).
\<close>

definition LONG_MAX :: int where "LONG_MAX = 2 ^ 63 - 1"
definition LONG_MIN :: int where "LONG_MIN = - (2 ^ 63)"

definition strtol16 :: "string \<Rightarrow> int \<times> string" where
  "strtol16 s =
     (let s1 = dropWhile isspace s;
          (neg, w2, s2) = scan_sign (length s1) s1;
          (pre, w3, s3) = scan_0x w2 s2;
          (v, k, r) = scan_digits (length s3) 0 0 s3;
          i = (if neg then - int v else int v)
      in if k = 0 then (0, if pre then tl s2 else s)
         else (max LONG_MIN (min LONG_MAX i), r))"

section \<open>Reading back what was printed\<close>

lemma hexn_append: "hexn (a + b) n = hexn a (n div 16 ^ b) @ hexn b (n mod 16 ^ b)"
proof (induction b arbitrary: n)
  case 0
  then show ?case by simp
next
  case (Suc b)
  have "n div 16 div 16 ^ b = n div 16 ^ Suc b"
    by (simp add: div_mult2_eq)
  moreover have "n div 16 mod 16 ^ b = n mod 16 ^ Suc b div 16"
    by (simp add: mod_mult2_eq)
  moreover have "n mod 16 = n mod 16 ^ Suc b mod 16"
    by (simp add: mod_mod_cancel)
  ultimately show ?case using Suc.IH [of "n div 16"] by simp
qed

lemma hexn_Cons: "hexn (Suc k) n = hexdigit (n div 16 ^ k mod 16) # hexn k (n mod 16 ^ k)"
  using hexn_append [of 1 k n] by simp

lemma scan_digits_hexn:
  "n < 16 ^ w \<Longrightarrow> scan_digits w v k (hexn w n @ r) = (16 ^ w * v + n, k + w, r)"
proof (induction w arbitrary: n v k)
  case 0
  then show ?case by (cases r) simp_all
next
  case (Suc w)
  have "n mod 16 ^ w < 16 ^ w" by simp
  moreover have "n div 16 ^ w < 16" using Suc.prems by (simp add: div_less_iff_less_mult mult.commute)
  moreover have "16 ^ w * (n div 16 ^ w) + n mod 16 ^ w = n" by simp
  ultimately show ?case using Suc.IH [of "n mod 16 ^ w" "16 * v + n div 16 ^ w" "Suc k"]
    by (simp only: hexn_Cons append_Cons scan_digits.simps)
      (simp add: hex_simps algebra_simps)
qed

lemma scan_x_hexn_Suc:
  assumes "n < 16 ^ Suc w"
  shows "scan_x (Suc w) (hexn (Suc w) n @ r) = Some (int n, r)"
proof -
  have sp: "dropWhile isspace (hexn (Suc w) n @ r) = hexn (Suc w) n @ r"
    by (simp add: hexn_Cons hex_simps del: hexn.simps)
  have sg: "scan_sign (Suc w) (hexn (Suc w) n @ r) = (False, Suc w, hexn (Suc w) n @ r)"
    by (simp add: hexn_Cons hex_simps scan_sign_def del: hexn.simps)
  have ox: "scan_0x (Suc w) (hexn (Suc w) n @ r) = (False, Suc w, hexn (Suc w) n @ r)"
    by (cases w) (auto simp add: hexn_Cons hex_simps scan_0x_def split: list.splits simp del: hexn.simps)
  show ?thesis
    using scan_digits_hexn [OF assms] by (simp add: scan_x_def sp sg ox Let_def del: hexn.simps)
qed

lemma scan_x_hexn: "n < 16 ^ w \<Longrightarrow> 0 < w \<Longrightarrow> scan_x w (hexn w n @ r) = Some (int n, r)"
  by (cases w) (auto simp: scan_x_hexn_Suc simp del: hexn.simps)

lemma hexdigit_inj: "hexdigit a = hexdigit b \<Longrightarrow> a < 16 \<Longrightarrow> b < 16 \<Longrightarrow> a = b"
  by (metis hexval_hexdigit option.inject)

lemma hexn_2: "hexn 2 n = [hexdigit (n div 16 mod 16), hexdigit (n mod 16)]"
  by (simp add: numeral_2_eq_2)

lemma hexn_be16: "hexn 4 (unat w) = concat (map (\<lambda>b. hexn 2 (unat b)) (be16 w))"
proof -
  have "unat (ucast (drop_bit 8 w) :: u8) = unat w div 256"
  proof -
    have "unat w < 2 ^ LENGTH(16)" by (rule unsigned_less)
    then have "unat w div 256 < 256" by simp
    then show ?thesis by (simp add: unsigned_ucast_eq unsigned_drop_bit_eq take_bit_eq_mod)
        (simp add: drop_bit_eq_div)
  qed
  moreover have "unat (ucast w :: u8) = unat w mod 256" by (simp add: unsigned_ucast_eq take_bit_eq_mod)
  ultimately show ?thesis using hexn_append [of 2 2 "unat w"] by (simp add: be16_def)
qed

lemma hexn_be32: "hexn 8 (unat w) = concat (map (\<lambda>b. hexn 2 (unat b)) (be32 w))"
proof -
  have "unat w < 2 ^ LENGTH(32)" by (rule unsigned_less)
  then have m: "unat w mod 4294967296 = unat w" and l: "unat w div 2 ^ 24 < 256" by simp_all
  have b: "unat (ucast (drop_bit k w) :: u8) = unat w div 2 ^ k mod 256" for k
    by (simp add: unsigned_ucast_eq unsigned_drop_bit_eq take_bit_eq_mod)
        (simp add: drop_bit_eq_div m)
  have "unat (ucast w :: u8) = unat w mod 256" by (simp add: unsigned_ucast_eq take_bit_eq_mod)
  moreover have "hexn 8 (unat w) = hexn 2 (unat w div 2 ^ 24) @ hexn 2 (unat w mod 2 ^ 24 div 2 ^ 16)
      @ hexn 2 (unat w mod 2 ^ 16 div 2 ^ 8) @ hexn 2 (unat w mod 2 ^ 8)"
    using hexn_append [of 2 6 "unat w"] hexn_append [of 2 4 "unat w mod 2 ^ 24"]
      hexn_append [of 2 2 "unat w mod 2 ^ 16"] by (simp add: mod_mod_cancel)
  moreover have "unat w div 2 ^ 24 = unat w div 2 ^ 24 mod 256"
    using l by simp
  moreover have "unat w mod 2 ^ 24 div 2 ^ 16 = unat w div 2 ^ 16 mod 256"
    using mod_mult2_eq [of "unat w" "2 ^ 16" "2 ^ 8"] by simp
  moreover have "unat w mod 2 ^ 16 div 2 ^ 8 = unat w div 2 ^ 8 mod 256"
    using mod_mult2_eq [of "unat w" "2 ^ 8" "2 ^ 8"] by simp
  ultimately show ?thesis by (simp add: be32_def b)
qed
lemma scan_digits_hexn_stop:
  assumes "n < 16 ^ w" and "w \<le> m" and "case r of [] \<Rightarrow> True | c # _ \<Rightarrow> hexval c = None"
  shows "scan_digits m v k (hexn w n @ r) = (16 ^ w * v + n, k + w, r)"
  using assms
proof (induction w arbitrary: m n v k)
  case 0
  then show ?case by (cases m; cases r) simp_all
next
  case (Suc w)
  then obtain m' where m: "m = Suc m'" "w \<le> m'" by (cases m) auto
  have "n mod 16 ^ w < 16 ^ w" by simp
  moreover have "n div 16 ^ w < 16" using Suc.prems by (simp add: div_less_iff_less_mult mult.commute)
  moreover have "16 ^ w * (n div 16 ^ w) + n mod 16 ^ w = n" by simp
  ultimately show ?case using Suc.IH [of "n mod 16 ^ w" m' "16 * v + n div 16 ^ w" "Suc k"] m Suc.prems
    by (simp only: hexn_Cons append_Cons scan_digits.simps)
      (simp add: hex_simps algebra_simps)
qed

lemma strtol16_hexn_Suc:
  assumes "n < 16 ^ Suc w" and "Suc w \<le> 15" and "case r of [] \<Rightarrow> True | c # _ \<Rightarrow> hexval c = None \<and> c \<notin> set ''xX''"
  shows "strtol16 (hexn (Suc w) n @ r) = (int n, r)"
proof -
  let ?s = "hexn (Suc w) n @ r"
  have sp: "dropWhile isspace ?s = ?s"
    by (simp add: hexn_Cons hex_simps del: hexn.simps)
  have sg: "scan_sign (length ?s) ?s = (False, length ?s, ?s)"
    by (simp add: hexn_Cons hex_simps scan_sign_def del: hexn.simps)
  have ox: "scan_0x (length ?s) ?s = (False, length ?s, ?s)"
    using assms(3)
    by (cases w; cases r) (auto simp add: hexn_Cons hex_simps scan_0x_def split: list.splits simp del: hexn.simps(2))
  have "(16 :: nat) ^ Suc w \<le> 16 ^ 15" by (rule power_increasing) (use assms(2) in auto)
  with assms(1) have "n < 16 ^ 15" by simp
  then have "int n \<le> LONG_MAX" "LONG_MIN \<le> int n" by (simp_all add: LONG_MAX_def LONG_MIN_def)
  moreover have "scan_digits (length ?s) 0 0 ?s = (16 ^ Suc w * 0 + n, 0 + Suc w, r)"
    by (rule scan_digits_hexn_stop) (use assms in \<open>auto split: list.splits\<close>)
  ultimately show ?thesis
    unfolding strtol16_def Let_def sp sg prod.case ox by (simp add: max_def min_def)
qed

lemma strtol16_hexn:
  assumes "n < 16 ^ w" and "0 < w" "w \<le> 15"
    and "case r of [] \<Rightarrow> True | c # _ \<Rightarrow> hexval c = None \<and> c \<notin> set ''xX''"
  shows "strtol16 (hexn w n @ r) = (int n, r)"
  using assms strtol16_hexn_Suc [of n "w - 1" r] by simp

definition hexstr :: "u8 list \<Rightarrow> string" where
  "hexstr bs = concat (map (\<lambda>b. hexn 2 (unat b)) bs)"

lemma length_hexstr [simp]: "length (hexstr bs) = 2 * length bs"
  by (induction bs) (auto simp: hexstr_def)

lemma hexn_unat32: "hexn 8 (unat (w :: u32)) = hexstr (be32 w)"
  by (simp add: hexstr_def hexn_be32)

lemma hexn_unat16: "hexn 4 (unat (w :: u16)) = hexstr (be16 w)"
  by (simp add: hexstr_def hexn_be16)

lemma unat16_less: "unat (w :: u16) < 16 ^ 4"
  using unsigned_less [of w, where ?'a = nat] by simp

lemma unat32_less: "unat (w :: u32) < 16 ^ 8"
  using unsigned_less [of w, where ?'a = nat] by simp

lemma fmt_u16: "fmt_hex 4 (unat (w :: u16)) = hexn 4 (unat w)"
  by (rule fmt_hex_hexn) (use unat16_less in auto)

lemma fmt_u32: "fmt_hex 8 (unat (w :: u32)) = hexn 8 (unat w)"
  by (rule fmt_hex_hexn) (use unat32_less in auto)

lemma scan_x_u16: "scan_x 4 (hexn 4 (unat (w :: u16)) @ r) = Some (int (unat w), r)"
  by (rule scan_x_hexn) (rule unat16_less, simp)

lemma scan_x_u32: "scan_x 8 (hexn 8 (unat (w :: u32)) @ r) = Some (int (unat w), r)"
  by (rule scan_x_hexn) (rule unat32_less, simp)

lemma scan_lit_append [simp]: "scan_lit p (p @ s) = Some s"
  by (simp add: scan_lit_def)

lemma scan_lit_Cons1 [simp]: "scan_lit [c] (c # s) = Some s"
  by (simp add: scan_lit_def)

lemma hexn_inj:
  "hexn k a = hexn k b \<Longrightarrow> a < 16 ^ k \<Longrightarrow> b < 16 ^ k \<Longrightarrow> a = b"
  using scan_digits_hexn [of a k 0 0 "[]"] scan_digits_hexn [of b k 0 0 "[]"] by simp

lemma scan_lit_Some: "scan_lit p s = Some r \<longleftrightarrow> s = p @ r"
proof
  assume "scan_lit p s = Some r"
  then have "take (length p) s = p \<and> drop (length p) s = r"
    unfolding scan_lit_def by (metis option.distinct(1) option.inject)
  then show "s = p @ r" by (metis append_take_drop_id)
next
  assume "s = p @ r"
  then show "scan_lit p s = Some r" by (simp add: scan_lit_def)
qed

lemma scan_lit_app: "scan_lit (p @ q) s = scan_lit p s \<bind> scan_lit q"
proof (cases "scan_lit p s")
  case None
  then have "scan_lit (p @ q) s \<noteq> Some r" for r
    by (metis append_assoc option.distinct(1) scan_lit_Some)
  with None show ?thesis by (cases "scan_lit (p @ q) s") auto
next
  case (Some r)
  then have "s = p @ r" by (simp add: scan_lit_Some)
  with Some show ?thesis by (simp add: scan_lit_def)
qed

lemma scan_lit_hexn:
  assumes "m < 16 ^ k" and "n < 16 ^ k"
  shows "scan_lit (hexn k m) (hexn k n @ r) = (if n = m then Some r else None)"
  using hexn_inj [of k n m] assms by (auto simp: scan_lit_def)

lemma hexdigit_eq_iff: "n < 16 \<Longrightarrow> hexval c = Some m \<Longrightarrow> hexdigit n = c \<Longrightarrow> n = m"
  by (metis hexval_hexdigit option.inject)

lemma hexn_4: "hexn 4 n = [hexdigit (n div 4096 mod 16), hexdigit (n div 256 mod 16),
    hexdigit (n div 16 mod 16), hexdigit (n mod 16)]"
  using hexn_append [of 2 2 n] by (simp add: hexn_2 mod_mult2_eq [of n 16 16, simplified] div_mult2_eq [symmetric])

lemma hexn4_lits:
  "''0000'' = hexn 4 0" "''1000'' = hexn 4 0x1000" "''8000'' = hexn 4 0x8000" "''0080'' = hexn 4 0x80"
  by (simp_all add: hexn_4 hexdigit_def char_of_def bit_0)


lemma hexstr_append: "hexstr (as @ bs) = hexstr as @ hexstr bs"
  by (simp add: hexstr_def)

lemma hexdigit_eq_char:
  "n < 16 \<Longrightarrow> hexdigit n = c \<longleftrightarrow> (if n < 10 then n + 48 else n + 87) = (of_char c :: nat)"
  by (metis of_char_hexdigit of_char_eq_iff)

lemma nibbles:
  fixes n :: nat
  assumes "n < 65536" and "a < 16" "b < 16" "c < 16" "d < 16"
  shows "n = d + 16 * (c + 16 * (b + 16 * a)) \<longleftrightarrow>
    n div 4096 mod 16 = a \<and> n div 256 mod 16 = b \<and> n div 16 mod 16 = c \<and> n mod 16 = d" (is "?l \<longleftrightarrow> ?r")
proof
  assume n: ?l
  have low: "(x + 16 * y) mod 16 = x \<and> (x + 16 * y) div 16 = y" if "x < 16" for x y :: nat
    using that by simp
  have "n mod 16 = d" and 1: "n div 16 = c + 16 * (b + 16 * a)"
    unfolding n using low [OF assms(5)] by blast+
  moreover have "n div 16 mod 16 = c" and 2: "n div 16 div 16 = b + 16 * a"
    unfolding 1 using low [OF assms(4)] by blast+
  moreover have "n div 16 div 16 mod 16 = b" and "n div 16 div 16 div 16 = a"
    unfolding 2 using low [OF assms(3)] by blast+
  moreover have "n div 256 = n div 16 div 16" "n div 4096 = n div 16 div 16 div 16"
    by (simp_all add: div_mult2_eq [symmetric])
  ultimately show ?r using assms(2) by (simp only: mod_less)
next
  assume ?r
  moreover have "n div 4096 mod 16 = n div 4096" using assms(1) by simp
  moreover have "n = 16 * (n div 16) + n mod 16" by simp
  moreover have "n div 16 = 16 * (n div 256) + n div 16 mod 16"
    using mult_div_mod_eq [of 16 "n div 16"] by (simp add: div_mult2_eq [symmetric])
  moreover have "n div 256 = 16 * (n div 4096) + n div 256 mod 16"
    using mult_div_mod_eq [of 16 "n div 256"] by (simp add: div_mult2_eq [symmetric])
  ultimately show ?l by (metis add.commute)
qed

lemma u16_less: "unat (w :: u16) < 65536"
  using unat16_less [of w] by simp

lemma u16_eq_iff: "w = v \<longleftrightarrow> unat w = unat (v :: u16)"
  by (simp add: word_unat_eq_iff)

lemma strtol16_0x_hexn_Suc:
  assumes "n < 16 ^ Suc w" and "Suc w \<le> 15"
  shows "strtol16 (''0x'' @ hexn (Suc w) n) = (int n, [])"
proof -
  let ?s = "''0x'' @ hexn (Suc w) n"
  have sp: "dropWhile isspace ?s = ?s"
    by (simp add: isspace_def)
  have sg: "scan_sign (length ?s) ?s = (False, length ?s, ?s)"
    by (simp add: scan_sign_def)
  have ox: "scan_0x (length ?s) ?s = (True, Suc w, hexn (Suc w) n)"
    by (simp add: scan_0x_def del: hexn.simps)
  have "(16 :: nat) ^ Suc w \<le> 16 ^ 15" by (rule power_increasing) (use assms(2) in auto)
  with assms(1) have "n < 16 ^ 15" by simp
  then have "int n \<le> LONG_MAX" "LONG_MIN \<le> int n" by (simp_all add: LONG_MAX_def LONG_MIN_def)
  moreover have "scan_digits (length (hexn (Suc w) n)) 0 0 (hexn (Suc w) n @ []) = (16 ^ Suc w * 0 + n, 0 + Suc w, [])"
    unfolding length_hexn by (rule scan_digits_hexn [OF assms(1)])
  ultimately show ?thesis
    unfolding strtol16_def Let_def sp sg prod.case ox by (simp add: max_def min_def)
qed

lemma strtol16_0x_hexn:
  assumes "n < 16 ^ w" and "0 < w" "w \<le> 15"
  shows "strtol16 (''0x'' @ hexn w n) = (int n, [])"
  using assms strtol16_0x_hexn_Suc [of n "w - 1"] by simp

lemma scan_lit_digit:
  "n < 16 \<Longrightarrow> m < 16 \<Longrightarrow> scan_lit [hexdigit m] (hexdigit n # r) = (if n = m then Some r else None)"
  using hexdigit_inj by (auto simp add: scan_lit_def)

lemma scan_set1_digit:
  "n < 16 \<Longrightarrow> m < 16 \<Longrightarrow> hexval c = None \<or> hexval c = Some m \<Longrightarrow>
    scan_set1 {hexdigit m, c} (hexdigit n # r) = (if n = m then Some r else None)"
  using hexdigit_inj hexval_hexdigit [of n] by (auto simp add: scan_set1_def)

lemma hexdigit_chars:
  "CHR ''3'' = hexdigit 3" "CHR ''4'' = hexdigit 4" "CHR ''5'' = hexdigit 5" "CHR ''9'' = hexdigit 9"
  "CHR ''b'' = hexdigit 11" "CHR ''f'' = hexdigit 15"
  by (simp_all add: hexdigit_def char_of_def bit_0)

lemma bind_if_Some: "(if P then m else None) \<bind> f = (if P then m \<bind> f else None)"
  by simp

end
