(* ===== verification/Bt_Uuid.thy ===== *)
theory Bt_Uuid
  imports Cstring
begin

text \<open>
  \<open>dbus/bluez5/lib/uuid.c\<close>: the BlueZ UUID type (a union tagged with its width), its
  conversions to the 128-bit form over the Bluetooth base UUID, comparison, printing and
  parsing, and the little endian wire form. 16 and 32 bit values are kept in host order,
  128 bit values as 16 big endian bytes, as the comments of the source say. An object that
  the code leaves uninitialised is \<open>None\<close>.
\<close>

datatype bt_uuid = BT_UUID_UNSPEC | BT_UUID16 u16 | BT_UUID32 u32 | BT_UUID128 "u8 list"

fun wf_bt_uuid :: "bt_uuid \<Rightarrow> bool" where
  "wf_bt_uuid (BT_UUID128 bs) = (length bs = 16)"
| "wf_bt_uuid _ = True"

definition EINVAL :: int where "EINVAL = 22"

definition bluetooth_base_uuid :: "u8 list" where
  "bluetooth_base_uuid = [0x00, 0x00, 0x00, 0x00, 0x00, 0x00, 0x10, 0x00,
                          0x80, 0x00, 0x00, 0x80, 0x5F, 0x9B, 0x34, 0xFB]"

definition BASE_UUID16_OFFSET :: nat where "BASE_UUID16_OFFSET = 2"
definition BASE_UUID32_OFFSET :: nat where "BASE_UUID32_OFFSET = 0"

text \<open>\<open>memcpy(&dst[off], src, sizeof src)\<close>\<close>

definition memcpy_at :: "nat \<Rightarrow> u8 list \<Rightarrow> u8 list \<Rightarrow> u8 list" where
  "memcpy_at off src dst = take off dst @ src @ drop (off + length src) dst"

definition bt_uuid16_to_uuid128 :: "u16 \<Rightarrow> bt_uuid" where
  "bt_uuid16_to_uuid128 v = BT_UUID128 (memcpy_at BASE_UUID16_OFFSET (be16 v) bluetooth_base_uuid)"

definition bt_uuid32_to_uuid128 :: "u32 \<Rightarrow> bt_uuid" where
  "bt_uuid32_to_uuid128 v = BT_UUID128 (memcpy_at BASE_UUID32_OFFSET (be32 v) bluetooth_base_uuid)"

fun bt_uuid_to_uuid128 :: "bt_uuid \<Rightarrow> bt_uuid option \<Rightarrow> bt_uuid option" where
  "bt_uuid_to_uuid128 (BT_UUID128 bs) dst = Some (BT_UUID128 bs)"
| "bt_uuid_to_uuid128 (BT_UUID32 v) dst = Some (bt_uuid32_to_uuid128 v)"
| "bt_uuid_to_uuid128 (BT_UUID16 v) dst = Some (bt_uuid16_to_uuid128 v)"
| "bt_uuid_to_uuid128 BT_UUID_UNSPEC dst = dst"

fun bt_uuid128_bytes :: "bt_uuid \<Rightarrow> u8 list" where
  "bt_uuid128_bytes (BT_UUID128 bs) = bs"
| "bt_uuid128_bytes _ = []"

definition bt_uuid128_cmp :: "bt_uuid \<Rightarrow> bt_uuid \<Rightarrow> int" where
  "bt_uuid128_cmp u1 u2 = memcmp (bt_uuid128_bytes u1) (bt_uuid128_bytes u2)"

definition bt_uuid16_create :: "u16 \<Rightarrow> bt_uuid" where "bt_uuid16_create v = BT_UUID16 v"
definition bt_uuid32_create :: "u32 \<Rightarrow> bt_uuid" where "bt_uuid32_create v = BT_UUID32 v"
definition bt_uuid128_create :: "u8 list \<Rightarrow> bt_uuid" where "bt_uuid128_create v = BT_UUID128 v"

text \<open>The types of declarations and descriptors in \<open>lib/uuid.h\<close>.\<close>

definition GATT_PRIM_SVC_UUID :: u16 where "GATT_PRIM_SVC_UUID = 0x2800"
definition GATT_SND_SVC_UUID :: u16 where "GATT_SND_SVC_UUID = 0x2801"
definition GATT_INCLUDE_UUID :: u16 where "GATT_INCLUDE_UUID = 0x2802"
definition GATT_CHARAC_UUID :: u16 where "GATT_CHARAC_UUID = 0x2803"
definition GATT_CHARAC_EXT_PROPER_UUID :: u16 where "GATT_CHARAC_EXT_PROPER_UUID = 0x2900"

text \<open>\<open>None\<close>: one of the two local copies is read uninitialised.\<close>

definition bt_uuid_cmp :: "bt_uuid \<Rightarrow> bt_uuid \<Rightarrow> int option" where
  "bt_uuid_cmp uuid1 uuid2 = do {
     u1 \<leftarrow> bt_uuid_to_uuid128 uuid1 None;
     u2 \<leftarrow> bt_uuid_to_uuid128 uuid2 None;
     Some (bt_uuid128_cmp u1 u2)
   }"

text \<open>The six fields \<open>%.8x-%.4x-%.4x-%.4x-%.8x%.4x\<close> of the 16 bytes.\<close>

definition uuid128_fields :: "u8 list \<Rightarrow> string" where
  "uuid128_fields data =
     fmt_hex 8 (unat (get_be32 data 0)) @ ''-'' @ fmt_hex 4 (unat (get_be16 data 4)) @ ''-''
     @ fmt_hex 4 (unat (get_be16 data 6)) @ ''-'' @ fmt_hex 4 (unat (get_be16 data 8)) @ ''-''
     @ fmt_hex 8 (unat (get_be32 data 10)) @ fmt_hex 4 (unat (get_be16 data 14))"

text \<open>The result is the return code and what is stored in the buffer of \<open>n\<close> bytes.\<close>

definition bt_uuid_to_string :: "bt_uuid option \<Rightarrow> nat \<Rightarrow> int \<times> string option" where
  "bt_uuid_to_string uuid n = (case uuid of
       None \<Rightarrow> (- EINVAL, snprintf n ''NULL'')
     | Some BT_UUID_UNSPEC \<Rightarrow> (- EINVAL, snprintf n ''NULL'')
     | Some u \<Rightarrow> (0, case bt_uuid_to_uuid128 u None of
                       Some tmp \<Rightarrow> snprintf n (uuid128_fields (bt_uuid128_bytes tmp))
                     | None \<Rightarrow> None))"

definition is_uuid128 :: "string \<Rightarrow> bool" where
  "is_uuid128 s \<longleftrightarrow> length s = 36 \<and> s ! 8 = CHR ''-'' \<and> s ! 13 = CHR ''-''
     \<and> s ! 18 = CHR ''-'' \<and> s ! 23 = CHR ''-''"

text \<open>
  \<open>sscanf(string, "0000%04hx-0000-1000-8000-00805%1[fF]9%1[bB]34%1[fF]%1[bB]", ..) == 5\<close>,
  its last 8 characters apart. The literal \<open>00805\<close> and the literal \<open>34\<close> are matched in two
  pieces each, which is the same.
\<close>

definition scan_base_tail :: "string \<Rightarrow> string option" where
  "scan_base_tail s3 = do {
     s3 \<leftarrow> scan_lit ''5'' s3;
     s4 \<leftarrow> scan_set1 {CHR ''f'', CHR ''F''} s3;
     s5 \<leftarrow> scan_lit ''9'' s4;
     s6 \<leftarrow> scan_set1 {CHR ''b'', CHR ''B''} s5;
     s7 \<leftarrow> scan_lit ''3'' s6;
     s7 \<leftarrow> scan_lit ''4'' s7;
     s8 \<leftarrow> scan_set1 {CHR ''f'', CHR ''F''} s7;
     scan_set1 {CHR ''b'', CHR ''B''} s8
   }"

definition scan_base_uuid :: "string \<Rightarrow> u16 option" where
  "scan_base_uuid s = do {
     s1 \<leftarrow> scan_lit ''0000'' s;
     (v, s2) \<leftarrow> scan_x 4 s1;
     s3 \<leftarrow> scan_lit ''-0000-1000-8000-0080'' s2;
     _ \<leftarrow> scan_base_tail s3;
     Some (word_of_int v)
   }"

definition is_base_uuid128 :: "string \<Rightarrow> bool" where
  "is_base_uuid128 s \<longleftrightarrow> is_uuid128 s \<and> scan_base_uuid s \<noteq> None"

definition is_uuid32 :: "string \<Rightarrow> bool" where
  "is_uuid32 s \<longleftrightarrow> length s = 8 \<or> length s = 10"

definition is_uuid16 :: "string \<Rightarrow> bool" where
  "is_uuid16 s \<longleftrightarrow> length s = 4 \<or> length s = 6"

definition bt_string_to_uuid16 :: "string \<Rightarrow> int + bt_uuid" where
  "bt_string_to_uuid16 s = (case strtol16 s of (v, endptr) \<Rightarrow>
     if endptr = [] \<or> hd endptr = CHR ''-'' then Inr (bt_uuid16_create (word_of_int v))
     else Inl (- EINVAL))"

definition bt_string_to_uuid32 :: "string \<Rightarrow> int + bt_uuid" where
  "bt_string_to_uuid32 s = (case strtol16 s of (v, endptr) \<Rightarrow>
     if endptr = [] then Inr (bt_uuid32_create (word_of_int v)) else Inl (- EINVAL))"

text \<open>\<open>sscanf(string, "%08x-%04hx-%04hx-%04hx-%08x%04hx", ..)\<close>\<close>

definition scan_uuid128 :: "string \<Rightarrow> (u32 \<times> u16 \<times> u16 \<times> u16 \<times> u32 \<times> u16) option" where
  "scan_uuid128 s = do {
     (d0, s) \<leftarrow> scan_x 8 s; s \<leftarrow> scan_lit ''-'' s;
     (d1, s) \<leftarrow> scan_x 4 s; s \<leftarrow> scan_lit ''-'' s;
     (d2, s) \<leftarrow> scan_x 4 s; s \<leftarrow> scan_lit ''-'' s;
     (d3, s) \<leftarrow> scan_x 4 s; s \<leftarrow> scan_lit ''-'' s;
     (d4, s) \<leftarrow> scan_x 8 s;
     (d5, s) \<leftarrow> scan_x 4 s;
     Some (word_of_int d0, word_of_int d1, word_of_int d2, word_of_int d3, word_of_int d4, word_of_int d5)
   }"

definition bt_string_to_uuid128 :: "string \<Rightarrow> int + bt_uuid" where
  "bt_string_to_uuid128 s = (case scan_uuid128 s of
       None \<Rightarrow> Inl (- EINVAL)
     | Some (d0, d1, d2, d3, d4, d5) \<Rightarrow>
         Inr (bt_uuid128_create (be32 d0 @ be16 d1 @ be16 d2 @ be16 d3 @ be32 d4 @ be16 d5)))"

definition bt_string_to_uuid :: "string \<Rightarrow> int + bt_uuid" where
  "bt_string_to_uuid s =
     (if is_base_uuid128 s then bt_string_to_uuid16 (drop 4 s)
      else if is_uuid128 s then bt_string_to_uuid128 s
      else if is_uuid32 s then bt_string_to_uuid32 s
      else if is_uuid16 s then bt_string_to_uuid16 s
      else Inl (- EINVAL))"

definition bt_uuid_strcmp :: "string \<Rightarrow> string \<Rightarrow> int option" where
  "bt_uuid_strcmp a b = (case bt_string_to_uuid a of
       Inl _ \<Rightarrow> Some (- EINVAL)
     | Inr u1 \<Rightarrow> (case bt_string_to_uuid b of
           Inl _ \<Rightarrow> Some (- EINVAL)
         | Inr u2 \<Rightarrow> bt_uuid_cmp u1 u2))"

fun bt_uuid_to_le :: "bt_uuid \<Rightarrow> int + u8 list" where
  "bt_uuid_to_le (BT_UUID16 v) = Inr (le16 v)"
| "bt_uuid_to_le (BT_UUID32 v) = Inr (rev (bt_uuid128_bytes (bt_uuid32_to_uuid128 v)))"
| "bt_uuid_to_le (BT_UUID128 bs) = Inr (rev bs)"
| "bt_uuid_to_le BT_UUID_UNSPEC = Inl (- EINVAL)"

fun bt_uuid_len :: "bt_uuid \<Rightarrow> nat" where
  "bt_uuid_len BT_UUID_UNSPEC = 0 div 8"
| "bt_uuid_len (BT_UUID16 _) = 16 div 8"
| "bt_uuid_len (BT_UUID32 _) = 32 div 8"
| "bt_uuid_len (BT_UUID128 _) = 128 div 8"

section \<open>Printing and parsing\<close>

lemma uuid128_fields_hexn:
  "uuid128_fields bs = hexn 8 (unat (get_be32 bs 0)) @ CHR ''-'' # hexn 4 (unat (get_be16 bs 4)) @ CHR ''-'' #
     hexn 4 (unat (get_be16 bs 6)) @ CHR ''-'' # hexn 4 (unat (get_be16 bs 8)) @ CHR ''-'' #
     hexn 8 (unat (get_be32 bs 10)) @ hexn 4 (unat (get_be16 bs 14))"
  by (simp add: uuid128_fields_def fmt_u16 fmt_u32)

lemma length_uuid128_fields [simp]: "length (uuid128_fields bs) = 36"
  by (simp add: uuid128_fields_hexn)

lemma is_uuid128_fields [simp]: "is_uuid128 (uuid128_fields bs)"
  unfolding is_uuid128_def by (simp add: uuid128_fields_hexn nth_append)

lemma bt_string_to_uuid128_fields:
  assumes "length bs = 16"
  shows "bt_string_to_uuid128 (uuid128_fields bs) = Inr (BT_UUID128 bs)"
proof -
  have "scan_uuid128 (uuid128_fields bs) = Some (get_be32 bs 0, get_be16 bs 4, get_be16 bs 6,
      get_be16 bs 8, get_be32 bs 10, get_be16 bs 14)"
    unfolding scan_uuid128_def uuid128_fields_hexn
    using scan_x_u16 [of _ "[]"] by (simp add: scan_x_u16 scan_x_u32)
  moreover have "be32 (get_be32 bs 0) @ be16 (get_be16 bs 4) @ be16 (get_be16 bs 6) @
      be16 (get_be16 bs 8) @ be32 (get_be32 bs 10) @ be16 (get_be16 bs 14) = bs"
    using words16_of_bytes [OF assms] by (simp add: be32_be16 numeral_2_eq_2)
  ultimately show ?thesis by (simp add: bt_string_to_uuid128_def bt_uuid128_create_def)
qed

text \<open>The sixteen bytes as eight 16-bit words.\<close>  

lemma uuid128_fields_words:
  "uuid128_fields bs = hexn 4 (unat (get_be16 bs 0)) @ hexn 4 (unat (get_be16 bs 2)) @ ''-'' @
     hexn 4 (unat (get_be16 bs 4)) @ ''-'' @ hexn 4 (unat (get_be16 bs 6)) @ ''-'' @
     hexn 4 (unat (get_be16 bs 8)) @ ''-'' @ hexn 4 (unat (get_be16 bs 10)) @
     hexn 4 (unat (get_be16 bs 12)) @ hexn 4 (unat (get_be16 bs 14))"
proof -
  have "hexn 8 (unat (get_be32 bs i)) = hexn 4 (unat (get_be16 bs i)) @ hexn 4 (unat (get_be16 bs (i + 2)))" for i
    by (simp add: hexn_unat32 hexn_unat16 be32_be16 hexstr_append)
  from this [of 0] this [of 10] show ?thesis by (simp add: uuid128_fields_hexn numeral_2_eq_2)
qed

lemma scan_base_tail_digits:
  assumes "a < 16" "b < 16" "c < 16" "d < 16" "e < 16" "f < 16" "g < 16" "h < 16"
  shows "scan_base_tail [hexdigit a, hexdigit b, hexdigit c, hexdigit d, hexdigit e, hexdigit f, hexdigit g, hexdigit h] =
    (if a = 5 \<and> b = 15 \<and> c = 9 \<and> d = 11 \<and> e = 3 \<and> f = 4 \<and> g = 15 \<and> h = 11 then Some [] else None)"
proof -
  have F: "hexval (CHR ''F'') = None \<or> hexval (CHR ''F'') = Some 15"
    and B: "hexval (CHR ''B'') = None \<or> hexval (CHR ''B'') = Some 11" by (simp_all add: hexval_def)
  show ?thesis unfolding scan_base_tail_def hexdigit_chars
    using assms by (simp add: scan_lit_digit scan_set1_digit [OF _ _ F] scan_set1_digit [OF _ _ B] bind_if_Some)
qed

lemma scan_base_tail_words:
  "scan_base_tail (hexn 4 (unat (x :: u16)) @ hexn 4 (unat (y :: u16))) =
     (if x = 0x5f9b \<and> y = 0x34fb then Some [] else None)"
proof -
  have x: "x = 0x5f9b \<longleftrightarrow> unat x div 4096 mod 16 = 5 \<and> unat x div 256 mod 16 = 15
      \<and> unat x div 16 mod 16 = 9 \<and> unat x mod 16 = 11"
    using nibbles [of "unat x" 5 15 9 11] u16_less by (simp add: u16_eq_iff)
  have y: "y = 0x34fb \<longleftrightarrow> unat y div 4096 mod 16 = 3 \<and> unat y div 256 mod 16 = 4
      \<and> unat y div 16 mod 16 = 15 \<and> unat y mod 16 = 11"
    using nibbles [of "unat y" 3 4 15 11] u16_less by (simp add: u16_eq_iff)
  show ?thesis unfolding x y hexn_4 append_Cons append_Nil
    by (subst scan_base_tail_digits) simp_all
qed

lemma scan_base_uuid_words:
  "scan_base_uuid (uuid128_fields bs) =
    (if get_be16 bs 0 = 0 \<and> get_be16 bs 4 = 0 \<and> get_be16 bs 6 = 0x1000 \<and> get_be16 bs 8 = 0x8000
        \<and> get_be16 bs 10 = 0x80 \<and> get_be16 bs 12 = 0x5f9b \<and> get_be16 bs 14 = 0x34fb
     then Some (get_be16 bs 2) else None)"
proof -
  have lit: "scan_lit (hexn 4 m) (hexn 4 (unat w) @ r) = (if w = word_of_nat m then Some r else None)"
    if "m < 65536" for m r and w :: u16
    using scan_lit_hexn [of m 4 "unat w" r] that u16_less [of w]
    by (auto simp: u16_eq_iff unsigned_of_nat take_bit_eq_mod)
  have split: "''-0000-1000-8000-0080'' = ''-'' @ hexn 4 0 @ ''-'' @ hexn 4 0x1000 @ ''-'' @ hexn 4 0x8000 @ ''-'' @ hexn 4 0x80"
    by (simp flip: hexn4_lits)
  have l0: "scan_lit ''0000'' s = scan_lit (hexn 4 0) s" for s
    by (simp flip: hexn4_lits)
  show ?thesis
    unfolding scan_base_uuid_def uuid128_fields_words split scan_lit_app l0
    by (simp only: lit scan_x_u16 scan_lit_append scan_base_tail_words bind_if_Some bind.bind_lunit prod.case
      append_assoc rel_simps word_of_int_uint of_nat_unat split del: if_split cong: if_cong) simp
qed

lemma base16_bytes:
  "bt_uuid128_bytes (bt_uuid16_to_uuid128 v) =
     be16 0 @ be16 v @ be16 0 @ be16 0x1000 @ be16 0x8000 @ be16 0x80 @ be16 0x5f9b @ be16 0x34fb"
  by (simp add: bt_uuid16_to_uuid128_def memcpy_at_def bluetooth_base_uuid_def BASE_UUID16_OFFSET_def be16_def)

lemma be16_inj: "be16 v = be16 w \<Longrightarrow> v = w"
  by (metis append_Nil2 get_be16_be16)

lemma get_be16_append: "2 \<le> i \<Longrightarrow> get_be16 (be16 w @ xs) i = get_be16 xs (i - 2)"
  by (auto simp: get_be16_def nth_append dest!: le_Suc_ex)

lemma scan_base_uuid_fields:
  assumes "length bs = 16"
  shows "scan_base_uuid (uuid128_fields bs) =
    (if bs = bt_uuid128_bytes (bt_uuid16_to_uuid128 (get_be16 bs 2)) then Some (get_be16 bs 2) else None)"
proof -
  have "bs = bt_uuid128_bytes (bt_uuid16_to_uuid128 (get_be16 bs 2)) \<longleftrightarrow>
    get_be16 bs 0 = 0 \<and> get_be16 bs 4 = 0 \<and> get_be16 bs 6 = 0x1000 \<and> get_be16 bs 8 = 0x8000
        \<and> get_be16 bs 10 = 0x80 \<and> get_be16 bs 12 = 0x5f9b \<and> get_be16 bs 14 = 0x34fb" (is "?l \<longleftrightarrow> ?r")
  proof
    assume ?r
    then show ?l using words16_of_bytes [OF assms] by (simp add: base16_bytes)
  next
    assume ?l
    then obtain w where bs: "bs = be16 0 @ be16 w @ be16 0 @ be16 0x1000 @ be16 0x8000 @ be16 0x80 @ be16 0x5f9b @ be16 0x34fb"
      unfolding base16_bytes by blast
    show ?r
      unfolding bs using get_be16_be16 [of "0x34fb" "[]"] by (simp add: get_be16_append get_be16_be16)
  qed
  then show ?thesis by (simp add: scan_base_uuid_words)
qed

lemma bt_string_to_uuid_fields:
  assumes "length bs = 16"
  shows "bt_string_to_uuid (uuid128_fields bs) =
    Inr (if bs = bt_uuid128_bytes (bt_uuid16_to_uuid128 (get_be16 bs 2))
         then BT_UUID16 (get_be16 bs 2) else BT_UUID128 bs)"
proof (cases "bs = bt_uuid128_bytes (bt_uuid16_to_uuid128 (get_be16 bs 2))")
  case True
  have d: "drop 4 (uuid128_fields bs) = hexn 4 (unat (get_be16 bs 2)) @ ''-'' @
     drop 9 (uuid128_fields bs)"
    by (simp add: uuid128_fields_words)
  have "strtol16 (drop 4 (uuid128_fields bs)) = (int (unat (get_be16 bs 2)), ''-'' @ drop 9 (uuid128_fields bs))"
    unfolding d
    by (rule strtol16_hexn) (use unat16_less in \<open>auto simp: hexval_def\<close>)
  then have "bt_string_to_uuid16 (drop 4 (uuid128_fields bs)) = Inr (BT_UUID16 (get_be16 bs 2))"
    by (simp add: bt_string_to_uuid16_def bt_uuid16_create_def)
  with True show ?thesis
    by (simp add: bt_string_to_uuid_def is_base_uuid128_def scan_base_uuid_fields assms)
next
  case False
  then show ?thesis
    by (simp add: bt_string_to_uuid_def is_base_uuid128_def scan_base_uuid_fields bt_string_to_uuid128_fields assms)
qed

end
