(* ===== verification/Gattlib_Uuid.thy ===== *)
theory Gattlib_Uuid
  imports Bt_Uuid
begin

text \<open>
  The UUID functions of \<open>common/gattlib_common.c\<close> on the \<open>uuid_t\<close> of the SDP library: a
  tag (\<open>SDP_UUID16\<close>, \<open>SDP_UUID32\<close>, \<open>SDP_UUID128\<close> or any other byte) and a union. The value
  under any other tag is never read, so the model drops it.
\<close>

datatype uuid = UUID16 u16 | UUID32 u32 | UUID128 "u8 list" | UUID_other u8

fun wf_uuid :: "uuid \<Rightarrow> bool" where
  "wf_uuid (UUID128 bs) = (length bs = 16)"
| "wf_uuid _ = True"

definition SDP_UUID_UNSPEC :: u8 where "SDP_UUID_UNSPEC = 0x18"

fun bt_uuid_to_uuid :: "bt_uuid \<Rightarrow> uuid" where
  "bt_uuid_to_uuid (BT_UUID16 v) = UUID16 v"
| "bt_uuid_to_uuid (BT_UUID32 v) = UUID32 v"
| "bt_uuid_to_uuid (BT_UUID128 bs) = UUID128 bs"
| "bt_uuid_to_uuid BT_UUID_UNSPEC = UUID_other SDP_UUID_UNSPEC"

text \<open>The return code, and what is stored in the buffer of \<open>n\<close> bytes.\<close>

fun gattlib_uuid_to_string :: "uuid \<Rightarrow> nat \<Rightarrow> int \<times> string option" where
  "gattlib_uuid_to_string (UUID16 v) n = (0, snprintf n (''0x'' @ fmt_hex 4 (unat v)))"
| "gattlib_uuid_to_string (UUID32 v) n = (0, snprintf n (''0x'' @ fmt_hex 8 (unat v)))"
| "gattlib_uuid_to_string (UUID128 bs) n = (0, snprintf n (uuid128_fields bs))"
| "gattlib_uuid_to_string (UUID_other t) n = (-1, snprintf n (''Unsupported type:'' @ fmt_dec (unat t)))"

definition gattlib_string_to_uuid :: "string \<Rightarrow> int + uuid" where
  "gattlib_string_to_uuid s = (case bt_string_to_uuid s of
       Inl e \<Rightarrow> Inl e
     | Inr bt_uuid \<Rightarrow> Inr (bt_uuid_to_uuid bt_uuid))"

text \<open>The constant bytes that \<open>gattlib_uuid_to_uuid128\<close> assigns one by one.\<close>

definition gattlib_base_uuid :: "u8 list" where
  "gattlib_base_uuid = [0xEF, 0x68, 0x00, 0x00, 0x9B, 0x35, 0x49, 0x33,
                        0x9B, 0x10, 0x52, 0xFF, 0xA9, 0x74, 0x00, 0x42]"

fun gattlib_uuid_to_uuid128 :: "uuid \<Rightarrow> uuid" where
  "gattlib_uuid_to_uuid128 (UUID128 bs) = UUID128 bs"
| "gattlib_uuid_to_uuid128 (UUID32 v) = UUID128 (gattlib_base_uuid
     [0 := ucast (drop_bit 24 v AND 0xFF), 1 := ucast (drop_bit 16 v AND 0xFF),
      2 := ucast (drop_bit 8 v AND 0xFF), 3 := ucast (v AND 0xFF)])"
| "gattlib_uuid_to_uuid128 (UUID16 v) = UUID128 (gattlib_base_uuid
     [2 := ucast (drop_bit 8 v), 3 := ucast (v AND 0xFF)])"
| "gattlib_uuid_to_uuid128 (UUID_other t) = UUID128 gattlib_base_uuid"

fun uuid128_data :: "uuid \<Rightarrow> u8 list" where
  "uuid128_data (UUID128 bs) = bs"
| "uuid128_data _ = []"

definition gattlib_uuid_cmp128 :: "uuid \<Rightarrow> uuid \<Rightarrow> int" where
  "gattlib_uuid_cmp128 u1 u2 =
     (if memcmp (uuid128_data (gattlib_uuid_to_uuid128 u1))
                (uuid128_data (gattlib_uuid_to_uuid128 u2)) = 0 then 0 else 2)"

fun gattlib_uuid_cmp :: "uuid \<Rightarrow> uuid \<Rightarrow> int" where
  "gattlib_uuid_cmp (UUID16 a) (UUID16 b) = (if a = b then 0 else 2)"
| "gattlib_uuid_cmp (UUID32 a) (UUID32 b) = (if a = b then 0 else 2)"
| "gattlib_uuid_cmp (UUID128 a) (UUID128 b) = (if memcmp a b = 0 then 0 else 2)"
| "gattlib_uuid_cmp (UUID_other s) (UUID_other t) =
     (if s = t then 3 else gattlib_uuid_cmp128 (UUID_other s) (UUID_other t))"
| "gattlib_uuid_cmp u1 u2 = gattlib_uuid_cmp128 u1 u2"

section \<open>Printing and parsing\<close>

lemma gattlib_string_uuid16:
  "gattlib_string_to_uuid (''0x'' @ fmt_hex 4 (unat v)) = Inr (UUID16 v)"
proof -
  let ?s = "''0x'' @ hexn 4 (unat v)"
  have len: "length ?s = 6" by simp
  have "strtol16 ?s = (int (unat v), [])"
    by (rule strtol16_0x_hexn) (use unat16_less in auto)
  then have "bt_string_to_uuid16 ?s = Inr (BT_UUID16 v)"
    unfolding bt_string_to_uuid16_def bt_uuid16_create_def by simp
  moreover have "bt_string_to_uuid ?s = bt_string_to_uuid16 ?s"
    unfolding bt_string_to_uuid_def is_base_uuid128_def is_uuid128_def is_uuid32_def is_uuid16_def len by simp
  ultimately show ?thesis by (simp only: fmt_u16 gattlib_string_to_uuid_def sum.case bt_uuid_to_uuid.simps)
qed

lemma gattlib_string_uuid32:
  "gattlib_string_to_uuid (''0x'' @ fmt_hex 8 (unat v)) = Inr (UUID32 v)"
proof -
  let ?s = "''0x'' @ hexn 8 (unat v)"
  have len: "length ?s = 10" by simp
  have "strtol16 ?s = (int (unat v), [])"
    by (rule strtol16_0x_hexn) (use unat32_less in auto)
  then have "bt_string_to_uuid32 ?s = Inr (BT_UUID32 v)"
    unfolding bt_string_to_uuid32_def bt_uuid32_create_def by simp
  moreover have "bt_string_to_uuid ?s = bt_string_to_uuid32 ?s"
    unfolding bt_string_to_uuid_def is_base_uuid128_def is_uuid128_def is_uuid32_def is_uuid16_def len by simp
  ultimately show ?thesis by (simp only: fmt_u32 gattlib_string_to_uuid_def sum.case bt_uuid_to_uuid.simps)
qed

text \<open>The form in which the parser returns a UUID: short when it is a 16-bit Bluetooth UUID.\<close>

fun uuid_canon :: "uuid \<Rightarrow> uuid" where
  "uuid_canon (UUID128 bs) =
     (if bs = bt_uuid128_bytes (bt_uuid16_to_uuid128 (get_be16 bs 2)) then UUID16 (get_be16 bs 2) else UUID128 bs)"
| "uuid_canon u = u"

fun known_uuid :: "uuid \<Rightarrow> bool" where
  "known_uuid (UUID_other t) = False"
| "known_uuid u = wf_uuid u"

lemma snprintf_fits: "length s < n \<Longrightarrow> snprintf n s = Some s"
  by (simp add: snprintf_def)

lemma length_fmt_u16 [simp]: "length (fmt_hex 4 (unat (v :: u16))) = 4"
  by (simp add: fmt_u16)

lemma length_fmt_u32 [simp]: "length (fmt_hex 8 (unat (v :: u32))) = 8"
  by (simp add: fmt_u32)

text \<open>A UUID of a supported type, printed into a buffer of at least 37 bytes
  (\<open>MAX_LEN_UUID_STR\<close>), is never truncated and parses back to the same UUID, the long
  form of a 16-bit Bluetooth UUID to its short form.\<close>

theorem uuid_string_roundtrip:
  assumes "known_uuid u" and "37 \<le> n"
  shows "\<exists>s. gattlib_uuid_to_string u n = (0, Some s) \<and> gattlib_string_to_uuid s = Inr (uuid_canon u)"
proof (cases u)
  case (UUID16 v)
  with assms(2) show ?thesis
    using gattlib_string_uuid16 [of v] by (simp add: snprintf_fits del: append_Cons append_Nil)
next
  case (UUID32 v)
  with assms(2) show ?thesis
    using gattlib_string_uuid32 [of v] by (simp add: snprintf_fits del: append_Cons append_Nil)
next
  case (UUID128 bs)
  with assms show ?thesis
    by (simp add: snprintf_fits gattlib_string_to_uuid_def bt_string_to_uuid_fields)
next
  case (UUID_other t)
  with assms show ?thesis by simp
qed

lemma uuid_string_roundtrip_witness:
  "\<exists>s. gattlib_uuid_to_string (UUID16 0x2A19) 37 = (0, Some s)
     \<and> gattlib_string_to_uuid s = Inr (uuid_canon (UUID16 0x2A19))"
  by (rule uuid_string_roundtrip) simp_all

lemma and_mask_u8: "8 \<le> n \<Longrightarrow> ucast (w AND mask n :: 'a::len word) = (ucast w :: u8)"
  by (rule bit_word_eqI) (auto simp: bit_simps dest: bit_imp_le_length)

lemma and_FF: "ucast (w AND 0xFF :: u32) = (ucast w :: u8)" "ucast (v AND 0xFF :: u16) = (ucast v :: u8)"
  using and_mask_u8 [of 8 w] and_mask_u8 [of 8 v] by (simp_all add: mask_eq_decr_exp)

text \<open>The long form that the comparison uses determines a 16 or 32 bit value.\<close>

lemma to_uuid128_inj16: "gattlib_uuid_to_uuid128 (UUID16 a) = gattlib_uuid_to_uuid128 (UUID16 b) \<longleftrightarrow> a = b"
  using be16_inj [of a b] by (auto simp: gattlib_base_uuid_def and_FF be16_def)

lemma to_uuid128_inj32: "gattlib_uuid_to_uuid128 (UUID32 a) = gattlib_uuid_to_uuid128 (UUID32 b) \<longleftrightarrow> a = b"
proof
  assume "gattlib_uuid_to_uuid128 (UUID32 a) = gattlib_uuid_to_uuid128 (UUID32 b)"
  then have "be32 a @ [] = be32 b @ []" by (simp add: gattlib_base_uuid_def and_FF be32_def)
  then show "a = b" by (metis get_be32_be32)
qed simp

lemma length_uuid128_data [simp]: "wf_uuid u \<Longrightarrow> length (uuid128_data (gattlib_uuid_to_uuid128 u)) = 16"
  by (cases u) (simp_all add: gattlib_base_uuid_def)

lemma uuid128_data_eq:
  "uuid128_data (gattlib_uuid_to_uuid128 u) = uuid128_data (gattlib_uuid_to_uuid128 v) \<longleftrightarrow>
    gattlib_uuid_to_uuid128 u = gattlib_uuid_to_uuid128 v"
  by (cases u; cases v) auto

lemma cmp128_0:
  "wf_uuid u \<Longrightarrow> wf_uuid v \<Longrightarrow>
    gattlib_uuid_cmp128 u v = 0 \<longleftrightarrow> gattlib_uuid_to_uuid128 u = gattlib_uuid_to_uuid128 v"
  by (simp add: gattlib_uuid_cmp128_def memcmp_eq_0 uuid128_data_eq)

lemma gattlib_uuid_cmp_known:
  assumes "known_uuid u" and "known_uuid v"
  shows "gattlib_uuid_cmp u v =
    (if gattlib_uuid_to_uuid128 u = gattlib_uuid_to_uuid128 v then 0 else 2)"
proof -
  have wf: "wf_uuid u" "wf_uuid v" using assms by (cases u; simp; fail | cases v; simp; fail)+
  note c = cmp128_0 [OF wf]
  show ?thesis
    using assms c
    by (cases u; cases v)
      (auto simp: to_uuid128_inj16 to_uuid128_inj32 memcmp_eq_0 gattlib_uuid_cmp128_def
        simp del: gattlib_uuid_to_uuid128.simps(2,3))
qed

lemma gattlib_uuid_cmp_0:
  "known_uuid u \<Longrightarrow> known_uuid v \<Longrightarrow>
    gattlib_uuid_cmp u v = 0 \<longleftrightarrow> gattlib_uuid_to_uuid128 u = gattlib_uuid_to_uuid128 v"
  by (simp add: gattlib_uuid_cmp_known)

text \<open>C40: On UUIDs of the supported types the comparison answers 0 exactly when the two
  long forms agree, and 2 otherwise; in particular it is an equivalence.\<close>

theorem gattlib_uuid_cmp_spec:
  assumes "known_uuid u" and "known_uuid v"
  shows "gattlib_uuid_cmp u v =
    (if gattlib_uuid_to_uuid128 u = gattlib_uuid_to_uuid128 v then 0 else 2)"
  using assms by (rule gattlib_uuid_cmp_known)

lemma gattlib_uuid_cmp_spec_witness:
  "gattlib_uuid_cmp (UUID16 0x2A19) (UUID32 0xEF682A19) = 0"
  using gattlib_uuid_cmp_spec [of "UUID16 0x2A19" "UUID32 0xEF682A19"]
  by (simp add: gattlib_base_uuid_def)

section \<open>Comparison as an interface\<close>

text \<open>
  What the clients (the characteristic lookup and the list of notified characteristics) rely
  on: "the same UUID" is an equivalence on the UUIDs they use, so the first match in a list
  does not depend on which of two equal UUIDs is looked for.
\<close>

locale uuid_comparison =
  fixes same :: "'u \<Rightarrow> 'u \<Rightarrow> bool" and ok :: "'u \<Rightarrow> bool"
  assumes same_refl: "ok u \<Longrightarrow> same u u"
    and same_sym: "ok u \<Longrightarrow> ok v \<Longrightarrow> same u v \<Longrightarrow> same v u"
    and same_trans: "ok u \<Longrightarrow> ok v \<Longrightarrow> ok w \<Longrightarrow> same u v \<Longrightarrow> same v w \<Longrightarrow> same u w"
begin

lemma same_cong:
  assumes "ok u" "ok v" "ok w" and "same u v"
  shows "same w u \<longleftrightarrow> same w v"
  using assms same_sym same_trans by blast

lemma find_same_cong:
  assumes "ok u" "ok v" "same u v" and "\<forall>x \<in> set xs. ok (key x)"
  shows "List.find (\<lambda>x. same (key x) u) xs = List.find (\<lambda>x. same (key x) v) xs"
  using assms(4) by (induction xs) (auto simp: same_cong [OF assms(1,2) _ assms(3)])

lemma find_absent:
  assumes "List.find (\<lambda>x. same (key x) u) xs = None" and "ok u" "ok v" "same u v"
    and "\<forall>x \<in> set xs. ok (key x)"
  shows "v \<notin> key ` set xs"
  using assms same_sym [of u v] by (auto simp: find_None_iff)

end

interpretation gattlib: uuid_comparison "\<lambda>u v. gattlib_uuid_cmp u v = 0" known_uuid
  by unfold_locales (auto simp: gattlib_uuid_cmp_0)

fun known_bt_uuid :: "bt_uuid \<Rightarrow> bool" where
  "known_bt_uuid BT_UUID_UNSPEC = False"
| "known_bt_uuid u = wf_bt_uuid u"

lemma bt_uuid_to_uuid128_known:
  "known_bt_uuid u \<Longrightarrow> \<exists>bs. bt_uuid_to_uuid128 u None = Some (BT_UUID128 bs) \<and> length bs = 16"
  by (cases u) (auto simp: bt_uuid16_to_uuid128_def bt_uuid32_to_uuid128_def memcpy_at_def
    bluetooth_base_uuid_def BASE_UUID16_OFFSET_def BASE_UUID32_OFFSET_def)

lemma bt_uuid_cmp_0:
  assumes "known_bt_uuid u" "known_bt_uuid v"
  shows "bt_uuid_cmp u v = Some 0 \<longleftrightarrow> bt_uuid_to_uuid128 u None = bt_uuid_to_uuid128 v None"
  using bt_uuid_to_uuid128_known [OF assms(1)] bt_uuid_to_uuid128_known [OF assms(2)]
  by (auto simp: bt_uuid_cmp_def bt_uuid128_cmp_def memcmp_eq_0)

interpretation bt: uuid_comparison "\<lambda>u v. bt_uuid_cmp u v = Some 0" known_bt_uuid
  by unfold_locales (auto simp: bt_uuid_cmp_0)

text \<open>The two comparisons of the library disagree on the short and the long form of
  every 16-bit Bluetooth UUID: BlueZ's \<open>bt_uuid_cmp\<close> says equal, \<open>gattlib_uuid_cmp\<close> says
  different, since it expands short UUIDs over another base UUID.\<close>

theorem gattlib_uuid_cmp_bluetooth_base:
  "bt_uuid_cmp (BT_UUID16 v) (bt_uuid16_to_uuid128 v) = Some 0
   \<and> gattlib_uuid_cmp (UUID16 v) (bt_uuid_to_uuid (bt_uuid16_to_uuid128 v)) = 2"
proof -
  have "bt_uuid_cmp (BT_UUID16 v) (bt_uuid16_to_uuid128 v) = Some 0"
    by (simp add: bt_uuid_cmp_def bt_uuid16_to_uuid128_def bt_uuid128_cmp_def)
  moreover have "memcmp (uuid128_data (gattlib_uuid_to_uuid128 (UUID16 v)))
      (bt_uuid128_bytes (bt_uuid16_to_uuid128 v)) \<noteq> 0"
    by (simp add: base16_bytes gattlib_base_uuid_def be16_def)
  ultimately show ?thesis
    by (simp add: bt_uuid16_to_uuid128_def gattlib_uuid_cmp128_def)
qed

end
