(* ===== verification/State.thy ===== *)
theory State
  imports Gattlib_Uuid
begin

text \<open>
  The data of the D-Bus back end: the structures of \<open>common/gattlib_internal.h\<close> and
  \<open>dbus/gattlib_backend.h\<close> as records, the heap that holds the adapters and the devices, the
  return codes of \<open>include/gattlib.h\<close>, and the record of the calls that leave the library.

  Adapters and devices are heap objects: \<open>adp_heap\<close> and \<open>dev_heap\<close> map an address to the
  object stored there, \<open>None\<close> once it is freed (or never allocated). An operation has type
  \<open>gstate \<Rightarrow> ('a \<times> gstate) option\<close>; \<open>None\<close> means that it dereferences a pointer that is not
  allocated (or calls a null function pointer), which is undefined behaviour in C. The
  connection is a member of the device, so a pointer to it is the device's address. The
  lists that \<open>g_dbus_object_manager_get_objects\<close> allocates are heap objects too
  (\<open>list_heap\<close>), since the code keeps a pointer to one beyond its life.

  Each operation runs under the recursive mutex \<open>m_gattlib_mutex\<close> and is one step; an
  operation that releases the mutex midway is one definition per critical section. What
  \<open>calloc\<close> returns is an argument: \<open>None\<close> when it fails, else an address not in use.
\<close>

section \<open>Return codes\<close>

definition GATTLIB_SUCCESS :: i32 where "GATTLIB_SUCCESS = 0"
definition GATTLIB_INVALID_PARAMETER :: i32 where "GATTLIB_INVALID_PARAMETER = 1"
definition GATTLIB_NOT_FOUND :: i32 where "GATTLIB_NOT_FOUND = 2"
definition GATTLIB_TIMEOUT :: i32 where "GATTLIB_TIMEOUT = 3"
definition GATTLIB_OUT_OF_MEMORY :: i32 where "GATTLIB_OUT_OF_MEMORY = 4"
definition GATTLIB_NOT_SUPPORTED :: i32 where "GATTLIB_NOT_SUPPORTED = 5"
definition GATTLIB_DEVICE_ERROR :: i32 where "GATTLIB_DEVICE_ERROR = 6"
definition GATTLIB_DEVICE_NOT_CONNECTED :: i32 where "GATTLIB_DEVICE_NOT_CONNECTED = 7"
definition GATTLIB_NO_ADAPTER :: i32 where "GATTLIB_NO_ADAPTER = 8"
definition GATTLIB_BUSY :: i32 where "GATTLIB_BUSY = 9"
definition GATTLIB_UNEXPECTED :: i32 where "GATTLIB_UNEXPECTED = 10"
definition GATTLIB_ADAPTER_CLOSE :: i32 where "GATTLIB_ADAPTER_CLOSE = 11"
definition GATTLIB_DEVICE_DISCONNECTED :: i32 where "GATTLIB_DEVICE_DISCONNECTED = 12"
definition GATTLIB_ERROR_DBUS :: i32 where "GATTLIB_ERROR_DBUS = 0x10000000"
definition GATTLIB_ERROR_UNIX :: i32 where "GATTLIB_ERROR_UNIX = 0x30000000"
definition GATTLIB_ERROR_INTERNAL :: i32 where "GATTLIB_ERROR_INTERNAL = 0x80000000"

lemmas ret_codes = GATTLIB_SUCCESS_def GATTLIB_INVALID_PARAMETER_def GATTLIB_NOT_FOUND_def
  GATTLIB_TIMEOUT_def GATTLIB_OUT_OF_MEMORY_def GATTLIB_NOT_SUPPORTED_def GATTLIB_DEVICE_ERROR_def
  GATTLIB_DEVICE_NOT_CONNECTED_def GATTLIB_NO_ADAPTER_def GATTLIB_BUSY_def GATTLIB_UNEXPECTED_def
  GATTLIB_ADAPTER_CLOSE_def GATTLIB_DEVICE_DISCONNECTED_def GATTLIB_ERROR_DBUS_def
  GATTLIB_ERROR_UNIX_def GATTLIB_ERROR_INTERNAL_def

text \<open>A \<open>GError\<close>, and the macro that packs one into a return code.\<close>

record gerror =
  domain :: u32
  code :: i32
  message :: string

definition GATTLIB_ERROR_DBUS_WITH_ERROR :: "gerror \<Rightarrow> i32" where
  "GATTLIB_ERROR_DBUS_WITH_ERROR e = (GATTLIB_ERROR_DBUS OR push_bit 8 (domain e)) OR code e"

definition GATTLIB_ERROR_UNIX_WITH_ERROR :: "i32 \<Rightarrow> i32" where
  "GATTLIB_ERROR_UNIX_WITH_ERROR e = GATTLIB_ERROR_UNIX OR e"

definition GATTLIB_SIGNAL_DEVICE_DISCONNECTION :: u32 where "GATTLIB_SIGNAL_DEVICE_DISCONNECTION = push_bit 0 1"
definition GATTLIB_SIGNAL_ADAPTER_STOP_SCANNING :: u32 where "GATTLIB_SIGNAL_ADAPTER_STOP_SCANNING = push_bit 1 1"

section \<open>The structures\<close>

datatype device_state = NOT_FOUND | CONNECTING | CONNECTED | DISCONNECTING | DISCONNECTED

text \<open>
  A function pointer, a thread pool, a D-Bus proxy object and a user data pointer are
  opaque numbers; \<open>None\<close> is the null pointer where the code tests for it.
\<close>

record handler =
  callback :: "nat option"
  user_data :: nat
  thread_pool :: "nat option"

definition handler_init :: handler where
  "handler_init = \<lparr>callback = None, user_data = 0, thread_pool = None\<rparr>"

text \<open>\<open>struct gattlib_notification_handle\<close>\<close>

record notification_handle =
  gatt :: nat
  signal_id :: u64
  nuuid :: uuid

record connection_backend =
  device_object_path :: "string option"
  bluez_device :: "nat option"
  connection_timeout_id :: u32
  on_handle_device_property_change_id :: u32
  dbus_objects :: "addr option"
  notified_characteristics :: "notification_handle list"

definition connection_backend_init :: connection_backend where
  "connection_backend_init = \<lparr>device_object_path = None, bluez_device = None, connection_timeout_id = 0,
     on_handle_device_property_change_id = 0, dbus_objects = None, notified_characteristics = []\<rparr>"

record connection =
  cdevice :: addr
  cbackend :: connection_backend
  on_connection :: handler
  notification :: handler
  indication :: handler
  on_disconnection :: handler

record device =
  dadapter :: addr
  device_id :: string
  dref :: u64
  dstate :: device_state
  dconnection :: connection

record ble_scan =
  added_signal_id :: u32
  changed_signal_id :: u32
  removed_signal_id :: u32
  ble_scan_timeout :: u64
  ble_scan_timeout_id :: u32
  scan_loop_thread :: "nat option"
  is_scanning :: bool
  enabled_filters :: u32

definition ble_scan_init :: ble_scan where
  "ble_scan_init = \<lparr>added_signal_id = 0, changed_signal_id = 0, removed_signal_id = 0, ble_scan_timeout = 0,
     ble_scan_timeout_id = 0, scan_loop_thread = None, is_scanning = False, enabled_filters = 0\<rparr>"

record adapter =
  device_manager :: "nat option"
  adapter_proxy :: "nat option"
  scan :: ble_scan
  aid :: string
  aname :: string
  aref :: u64
  devices :: "addr list"
  discovered_device_callback :: handler

section \<open>Calls that leave the library\<close>

text \<open>
  The work handed to another thread: the thread of the connection callback, of the discovery
  callback, of the scan loop, and an item pushed to the pool that delivers notifications.
\<close>

datatype thread =
    Th_connected addr
  | Th_discovered addr string "string option"
  | Th_scan_loop addr
  | Th_notification nat addr "uuid option" "u8 list option" u64

text \<open>Calls of the application's callbacks, and of GLib and BlueZ, that the properties speak of.\<close>

datatype event =
    Ev_discovered nat addr string "string option" nat
  | Ev_connected nat "addr option" "string option" "addr option" i32 nat
  | Ev_disconnected nat addr nat
  | Ev_notification nat "uuid option" "u8 list option" u64 nat
  | Ev_source_remove u32
  | Ev_signal_disconnect "nat option" u64
  | Ev_unref nat
  | Ev_pool_free nat
  | Ev_write nat "u8 list" bool
  | Ev_start_notify nat
  | Ev_stop_notify nat
  | Ev_set_powered nat
  | Ev_connect nat
  | Ev_disconnect "nat option"
  | Ev_set_discovery_filter nat "string list option" "16 word option"
  | Ev_start_discovery nat
  | Ev_stop_discovery nat
  | Ev_broadcast
  | Ev_thread thread

record gstate =
  m_adapter_list :: "addr list"
  adp_heap :: "addr \<Rightarrow> adapter option"
  dev_heap :: "addr \<Rightarrow> device option"
  list_heap :: "addr \<Rightarrow> string list option"
  signals :: u32
  events :: "event list"

definition gstate_init :: gstate where
  "gstate_init = \<lparr>m_adapter_list = [], adp_heap = (\<lambda>_. None), dev_heap = (\<lambda>_. None),
     list_heap = (\<lambda>_. None), signals = 0, events = []\<rparr>"

type_synonym 'a res = "('a \<times> gstate) option"

definition emit :: "event \<Rightarrow> gstate \<Rightarrow> gstate" where
  "emit e s = s\<lparr>events := events s @ [e]\<rparr>"

definition put_device :: "addr \<Rightarrow> device \<Rightarrow> gstate \<Rightarrow> gstate" where
  "put_device d x s = s\<lparr>dev_heap := (dev_heap s)(d := Some x)\<rparr>"

definition put_adapter :: "addr \<Rightarrow> adapter \<Rightarrow> gstate \<Rightarrow> gstate" where
  "put_adapter a x s = s\<lparr>adp_heap := (adp_heap s)(a := Some x)\<rparr>"

lemma put_device_sel [simp]:
  "m_adapter_list (put_device d x s) = m_adapter_list s"
  "adp_heap (put_device d x s) = adp_heap s"
  "dev_heap (put_device d x s) = (dev_heap s)(d := Some x)"
  "list_heap (put_device d x s) = list_heap s"
  "signals (put_device d x s) = signals s"
  "events (put_device d x s) = events s"
  by (simp_all add: put_device_def)

lemma put_adapter_sel [simp]:
  "m_adapter_list (put_adapter a y s) = m_adapter_list s"
  "adp_heap (put_adapter a y s) = (adp_heap s)(a := Some y)"
  "dev_heap (put_adapter a y s) = dev_heap s"
  "list_heap (put_adapter a y s) = list_heap s"
  "signals (put_adapter a y s) = signals s"
  "events (put_adapter a y s) = events s"
  by (simp_all add: put_adapter_def)

lemma emit_sel [simp]:
  "m_adapter_list (emit e s) = m_adapter_list s"
  "adp_heap (emit e s) = adp_heap s"
  "dev_heap (emit e s) = dev_heap s"
  "list_heap (emit e s) = list_heap s"
  "signals (emit e s) = signals s"
  "events (emit e s) = events s @ [e]"
  by (simp_all add: emit_def)

end
