(* ===== verification/Registry.thy ===== *)
theory Registry
  imports State
begin

text \<open>
  The adapter list, the devices of an adapter and their states, the reference counters and
  the validity checks that every public function starts with:
  \<open>common/gattlib_common_adapter.c\<close>, \<open>common/gattlib_device_state_management.c\<close> and
  \<open>gattlib_device_ref\<close>, \<open>gattlib_adapter_ref\<close>, \<open>gattlib_adapter_unref\<close>.
\<close>

section \<open>Looking up adapters and devices\<close>

text \<open>\<open>g_slist_find_custom(list, id, _is_adapter_id)\<close>: each element is dereferenced.\<close>

fun find_adapter_id :: "(addr \<Rightarrow> adapter option) \<Rightarrow> addr list \<Rightarrow> string \<Rightarrow> addr option option" where
  "find_adapter_id h [] key = Some None"
| "find_adapter_id h (a # as) key = (case h a of
       None \<Rightarrow> None
     | Some x \<Rightarrow> if strcaseeq (aid x) key then Some (Some a) else find_adapter_id h as key)"

definition gattlib_adapter_from_id :: "string \<Rightarrow> gstate \<Rightarrow> addr option option" where
  "gattlib_adapter_from_id adapter_id s = find_adapter_id (adp_heap s) (m_adapter_list s) adapter_id"

definition gattlib_adapter_is_valid :: "addr option \<Rightarrow> gstate \<Rightarrow> bool" where
  "gattlib_adapter_is_valid adapter s \<longleftrightarrow> (case adapter of None \<Rightarrow> False | Some a \<Rightarrow> a \<in> set (m_adapter_list s))"

definition gattlib_adapter_is_scanning :: "addr \<Rightarrow> gstate \<Rightarrow> bool option" where
  "gattlib_adapter_is_scanning adapter s =
     (if adapter \<notin> set (m_adapter_list s) then Some False
      else do { x \<leftarrow> adp_heap s adapter; Some (is_scanning (scan x)) })"

text \<open>\<open>g_slist_find_custom(adapter->devices, device_id, _compare_device_with_device_id)\<close>\<close>

fun find_device_with_device_id ::
    "(addr \<Rightarrow> device option) \<Rightarrow> addr list \<Rightarrow> string \<Rightarrow> addr option option" where
  "find_device_with_device_id h [] key = Some None"
| "find_device_with_device_id h (d # ds) key = (case h d of
       None \<Rightarrow> None
     | Some x \<Rightarrow> if strcaseeq (device_id x) key then Some (Some d) else find_device_with_device_id h ds key)"

definition gattlib_device_get_device :: "addr \<Rightarrow> string \<Rightarrow> gstate \<Rightarrow> addr option option" where
  "gattlib_device_get_device adapter key s = do {
     x \<leftarrow> adp_heap s adapter;
     find_device_with_device_id (dev_heap s) (devices x) key
   }"

definition gattlib_device_get_state :: "addr \<Rightarrow> string \<Rightarrow> gstate \<Rightarrow> device_state option" where
  "gattlib_device_get_state adapter key s = do {
     d \<leftarrow> gattlib_device_get_device adapter key s;
     case d of
       None \<Rightarrow> Some NOT_FOUND
     | Some d \<Rightarrow> do { x \<leftarrow> dev_heap s d; Some (dstate x) }
   }"

text \<open>
  The three checks walk the whole adapter list. The first two compare addresses only (a
  connection is found by the address of the device it is a member of); the third reads the
  state of the device it finds, and the last adapter that has it decides.
\<close>

fun device_is_valid_in :: "(addr \<Rightarrow> adapter option) \<Rightarrow> addr list \<Rightarrow> addr \<Rightarrow> bool \<Rightarrow> bool option" where
  "device_is_valid_in h [] d found = Some found"
| "device_is_valid_in h (a # as) d found = do {
     x \<leftarrow> h a;
     device_is_valid_in h as d (if d \<in> set (devices x) then True else found)
   }"

definition gattlib_device_is_valid :: "addr \<Rightarrow> gstate \<Rightarrow> bool option" where
  "gattlib_device_is_valid d s = device_is_valid_in (adp_heap s) (m_adapter_list s) d False"

definition gattlib_connection_is_valid :: "addr option \<Rightarrow> gstate \<Rightarrow> bool option" where
  "gattlib_connection_is_valid connection s = (case connection of
       None \<Rightarrow> do { _ \<leftarrow> device_is_valid_in (adp_heap s) (m_adapter_list s) 0 False; Some False }
     | Some c \<Rightarrow> device_is_valid_in (adp_heap s) (m_adapter_list s) c False)"

fun connection_is_connected_in :: "gstate \<Rightarrow> addr list \<Rightarrow> addr \<Rightarrow> bool \<Rightarrow> bool option" where
  "connection_is_connected_in s [] c connected = Some connected"
| "connection_is_connected_in s (a # as) c connected = do {
     x \<leftarrow> adp_heap s a;
     if c \<in> set (devices x) then do {
       dev \<leftarrow> dev_heap s c;
       connection_is_connected_in s as c (dstate dev = CONNECTED)
     } else connection_is_connected_in s as c connected
   }"

definition gattlib_connection_is_connected :: "addr option \<Rightarrow> gstate \<Rightarrow> bool option" where
  "gattlib_connection_is_connected connection s = (case connection of
       None \<Rightarrow> do { _ \<leftarrow> device_is_valid_in (adp_heap s) (m_adapter_list s) 0 False; Some False }
     | Some c \<Rightarrow> connection_is_connected_in s (m_adapter_list s) c False)"

section \<open>Reference counters\<close>

definition gattlib_device_ref :: "addr \<Rightarrow> gstate \<Rightarrow> i32 res" where
  "gattlib_device_ref d s = do {
     x \<leftarrow> dev_heap s d;
     Some (GATTLIB_SUCCESS, put_device d (x\<lparr>dref := dref x + 1\<rparr>) s)
   }"

definition gattlib_device_unref :: "addr \<Rightarrow> gstate \<Rightarrow> i32 res" where
  "gattlib_device_unref d s = do {
     x \<leftarrow> dev_heap s d;
     if 0 < dref x - 1 then Some (GATTLIB_SUCCESS, put_device d (x\<lparr>dref := dref x - 1\<rparr>) s)
     else Some (GATTLIB_SUCCESS, s\<lparr>dev_heap := (dev_heap s)(d := None)\<rparr>)
   }"

definition gattlib_adapter_ref :: "addr \<Rightarrow> gstate \<Rightarrow> i32 res" where
  "gattlib_adapter_ref a s = do {
     x \<leftarrow> adp_heap s a;
     Some (GATTLIB_SUCCESS, put_adapter a (x\<lparr>aref := aref x + 1\<rparr>) s)
   }"

text \<open>\<open>g_slist_free_full(adapter->devices, _gattlib_device_free)\<close>: a device that is not
  disconnected is left allocated.\<close>

fun gattlib_devices_free :: "addr list \<Rightarrow> gstate \<Rightarrow> gstate option" where
  "gattlib_devices_free [] s = Some s"
| "gattlib_devices_free (d # ds) s = do {
     x \<leftarrow> dev_heap s d;
     s \<leftarrow> (if dstate x = DISCONNECTED then do { (_, s) \<leftarrow> gattlib_device_unref d s; Some s } else Some s);
     gattlib_devices_free ds s
   }"

definition unref_opt :: "nat option \<Rightarrow> gstate \<Rightarrow> gstate" where
  "unref_opt p s = (case p of None \<Rightarrow> s | Some g \<Rightarrow> emit (Ev_unref g) s)"

definition gattlib_adapter_unref :: "addr \<Rightarrow> gstate \<Rightarrow> i32 res" where
  "gattlib_adapter_unref a s = do {
     x \<leftarrow> adp_heap s a;
     let x = x\<lparr>aref := aref x - 1\<rparr>;
     let s = put_adapter a x s;
     if 0 < aref x then Some (GATTLIB_SUCCESS, s)
     else do {
       let s = unref_opt (scan_loop_thread (scan x)) s;
       let s = unref_opt (device_manager x) s;
       let s = unref_opt (adapter_proxy x) s;
       s \<leftarrow> gattlib_devices_free (devices x) s;
       Some (GATTLIB_SUCCESS,
         s\<lparr>m_adapter_list := remove1 a (m_adapter_list s), adp_heap := (adp_heap s)(a := None)\<rparr>)
     }
   }"

section \<open>Device states\<close>

definition connection_init :: "addr \<Rightarrow> connection" where
  "connection_init d = \<lparr>cdevice = d, cbackend = connection_backend_init, on_connection = handler_init,
     notification = handler_init, indication = handler_init, on_disconnection = handler_init\<rparr>"

definition gattlib_device_set_state ::
    "addr option \<Rightarrow> addr option \<Rightarrow> string \<Rightarrow> device_state \<Rightarrow> gstate \<Rightarrow> i32 res" where
  "gattlib_device_set_state alloc adapter key new_state s =
     (case adapter of None \<Rightarrow> Some (GATTLIB_ADAPTER_CLOSE, s) | Some a \<Rightarrow>
      if \<not> gattlib_adapter_is_valid (Some a) s then Some (GATTLIB_ADAPTER_CLOSE, s)
      else do {
        old_state \<leftarrow> gattlib_device_get_state a key s;
        if old_state = NOT_FOUND then
          if new_state \<noteq> NOT_FOUND then
            (case alloc of
               None \<Rightarrow> Some (GATTLIB_OUT_OF_MEMORY, s)
             | Some d \<Rightarrow> do {
                 x \<leftarrow> adp_heap s a;
                 let s = put_device d \<lparr>dadapter = a, device_id = key, dref = 1, dstate = new_state,
                                       dconnection = connection_init d\<rparr> s;
                 Some (GATTLIB_SUCCESS, put_adapter a (x\<lparr>devices := devices x @ [d]\<rparr>) s)
               })
          else Some (GATTLIB_SUCCESS, s)
        else if new_state = NOT_FOUND then do {
          x \<leftarrow> adp_heap s a;
          item \<leftarrow> find_device_with_device_id (dev_heap s) (devices x) key;
          case item of
            None \<Rightarrow> Some (GATTLIB_UNEXPECTED, s)
          | Some d \<Rightarrow> do {
              dev \<leftarrow> dev_heap s d;
              case dstate dev of
                DISCONNECTED \<Rightarrow> do {
                  let s = put_adapter a (x\<lparr>devices := remove1 d (devices x)\<rparr>) s;
                  (_, s) \<leftarrow> gattlib_device_unref d s;
                  Some (GATTLIB_SUCCESS, s)
                }
              | CONNECTING \<Rightarrow> Some (GATTLIB_UNEXPECTED, s)
              | CONNECTED \<Rightarrow> Some (GATTLIB_UNEXPECTED, s)
              | DISCONNECTING \<Rightarrow> Some (GATTLIB_UNEXPECTED, s)
              | NOT_FOUND \<Rightarrow> Some (GATTLIB_UNEXPECTED, s)
            }
        }
        else do {
          item \<leftarrow> gattlib_device_get_device a key s;
          d \<leftarrow> item;
          dev \<leftarrow> dev_heap s d;
          Some (GATTLIB_SUCCESS, put_device d (dev\<lparr>dstate := new_state\<rparr>) s)
        }
      })"

fun all_disconnected :: "(addr \<Rightarrow> device option) \<Rightarrow> addr list \<Rightarrow> bool \<Rightarrow> bool option" where
  "all_disconnected h [] b = Some b"
| "all_disconnected h (d # ds) b = do {
     x \<leftarrow> h d;
     all_disconnected h ds (if dstate x \<noteq> DISCONNECTED then False else b)
   }"

definition gattlib_devices_are_disconnected :: "addr \<Rightarrow> gstate \<Rightarrow> bool option" where
  "gattlib_devices_are_disconnected a s = do {
     x \<leftarrow> adp_heap s a;
     all_disconnected (dev_heap s) (devices x) True
   }"

section \<open>Well-formed states\<close>

definition lower_id :: "(addr \<Rightarrow> device option) \<Rightarrow> addr \<Rightarrow> string" where
  "lower_id h d = map tolower (device_id (the (h d)))"

definition wf_device :: "addr \<Rightarrow> addr \<Rightarrow> device \<Rightarrow> bool" where
  "wf_device a d x \<longleftrightarrow> dadapter x = a \<and> cdevice (dconnection x) = d \<and> dstate x \<noteq> NOT_FOUND \<and> 0 < dref x"

definition wf_adapter :: "(addr \<Rightarrow> device option) \<Rightarrow> addr \<Rightarrow> adapter \<Rightarrow> bool" where
  "wf_adapter h a x \<longleftrightarrow> 0 < aref x \<and> (\<forall>d \<in> set (devices x). \<exists>y. h d = Some y \<and> wf_device a d y)
     \<and> distinct (map (lower_id h) (devices x))"

definition wf_gstate :: "gstate \<Rightarrow> bool" where
  "wf_gstate s \<longleftrightarrow> distinct (m_adapter_list s)
     \<and> (\<forall>a \<in> set (m_adapter_list s). \<exists>x. adp_heap s a = Some x \<and> wf_adapter (dev_heap s) a x)"

lemma wf_gstate_init: "wf_gstate gstate_init"
  by (simp add: wf_gstate_def gstate_init_def)

lemma wf_adapterE:
  assumes "wf_gstate s" and "a \<in> set (m_adapter_list s)"
  obtains x where "adp_heap s a = Some x" and "wf_adapter (dev_heap s) a x"
  using assms by (auto simp: wf_gstate_def)

lemma wf_deviceE:
  assumes "wf_adapter h a x" and "d \<in> set (devices x)"
  obtains y where "h d = Some y" and "wf_device a d y"
  using assms by (auto simp: wf_adapter_def)

lemma find_device_find:
  "\<forall>d \<in> set ds. h d \<noteq> None \<Longrightarrow>
    find_device_with_device_id h ds key = Some (List.find (\<lambda>d. lower_id h d = map tolower key) ds)"
  by (induction ds) (auto simp: strcaseeq_def lower_id_def)

lemma wf_adapter_allocated: "wf_adapter h a x \<Longrightarrow> \<forall>d \<in> set (devices x). h d \<noteq> None"
  by (fastforce simp: wf_adapter_def)

definition device_lookup :: "gstate \<Rightarrow> addr \<Rightarrow> string \<Rightarrow> addr option" where
  "device_lookup s a key = List.find (\<lambda>d. lower_id (dev_heap s) d = map tolower key) (devices (the (adp_heap s a)))"

definition state_of :: "gstate \<Rightarrow> addr \<Rightarrow> string \<Rightarrow> device_state" where
  "state_of s a key = (case device_lookup s a key of None \<Rightarrow> NOT_FOUND | Some d \<Rightarrow> dstate (the (dev_heap s d)))"

lemma get_device_lookup:
  assumes "wf_gstate s" and "a \<in> set (m_adapter_list s)"
  shows "gattlib_device_get_device a key s = Some (device_lookup s a key)"
  using assms
  by (elim wf_adapterE) (auto simp: gattlib_device_get_device_def device_lookup_def find_device_find wf_adapter_allocated)

lemma device_lookup_Some:
  assumes "wf_gstate s" and "a \<in> set (m_adapter_list s)" and "device_lookup s a key = Some d"
  obtains x y where "adp_heap s a = Some x" "wf_adapter (dev_heap s) a x" "d \<in> set (devices x)"
    "dev_heap s d = Some y" "wf_device a d y" "lower_id (dev_heap s) d = map tolower key"
proof -
  obtain x where x: "adp_heap s a = Some x" "wf_adapter (dev_heap s) a x"
    using assms by (elim wf_adapterE)
  with assms(3) have d: "d \<in> set (devices x)" "lower_id (dev_heap s) d = map tolower key"
    by (auto simp: device_lookup_def find_Some_iff)
  then obtain y where "dev_heap s d = Some y" "wf_device a d y" using x by (elim wf_deviceE)
  with x d that show thesis by blast
qed

lemma get_state_state_of:
  assumes "wf_gstate s" and "a \<in> set (m_adapter_list s)"
  shows "gattlib_device_get_state a key s = Some (state_of s a key)"
proof (cases "device_lookup s a key")
  case None
  then show ?thesis by (simp add: gattlib_device_get_state_def get_device_lookup [OF assms] state_of_def)
next
  case (Some d)
  then show ?thesis
    by (rule device_lookup_Some [OF assms])
      (simp add: gattlib_device_get_state_def get_device_lookup [OF assms] state_of_def Some)
qed

lemma state_of_NOT_FOUND:
  assumes "wf_gstate s" and "a \<in> set (m_adapter_list s)"
  shows "state_of s a key = NOT_FOUND \<longleftrightarrow> device_lookup s a key = None"
proof (cases "device_lookup s a key")
  case None
  then show ?thesis by (simp add: state_of_def)
next
  case (Some d)
  then show ?thesis
    by (rule device_lookup_Some [OF assms]) (simp add: state_of_def Some wf_device_def)
qed

section \<open>Updates that keep the state well-formed\<close>

lemma lower_id_upd: "lower_id (h(d := Some y)) e = (if e = d then map tolower (device_id y) else lower_id h e)"
  by (simp add: lower_id_def)

lemma wf_put_device:
  assumes wf: "wf_gstate s" and d: "dev_heap s d = Some y"
    and eq: "dadapter y' = dadapter y" "device_id y' = device_id y"
      "cdevice (dconnection y') = cdevice (dconnection y)" "dstate y' \<noteq> NOT_FOUND" "0 < dref y'"
  shows "wf_gstate (put_device d y' s)"
proof -
  have "lower_id ((dev_heap s)(d := Some y')) = lower_id (dev_heap s)"
    using d eq(2) by (auto simp: lower_id_upd fun_eq_iff) (simp add: lower_id_def)
  then have "wf_adapter ((dev_heap s)(d := Some y')) a x" if "wf_adapter (dev_heap s) a x" for a x
    using that d eq by (fastforce simp: wf_adapter_def wf_device_def)
  with wf show ?thesis by (fastforce simp: wf_gstate_def)
qed

lemma wf_put_adapter:
  assumes "wf_gstate s" and "adp_heap s a = Some x" and "devices x' = devices x" and "0 < aref x'"
  shows "wf_gstate (put_adapter a x' s)"
  using assms by (auto simp: wf_gstate_def wf_adapter_def)

lemma wf_heap_irrelevant:
  assumes "wf_adapter h a x" and "\<forall>d \<in> set (devices x). h' d = h d"
  shows "wf_adapter h' a x"
proof -
  have m: "map (lower_id h') (devices x) = map (lower_id h) (devices x)"
    using assms(2) by (simp add: lower_id_def)
  show ?thesis using assms unfolding wf_adapter_def m by simp
qed

lemma not_listed:
  assumes "wf_gstate s" "b \<in> set (m_adapter_list s)" "adp_heap s b = Some z" "dev_heap s d = Some y" "dadapter y \<noteq> b"
  shows "d \<notin> set (devices z)"
  using assms by (fastforce simp: wf_gstate_def wf_adapter_def wf_device_def)

lemma wf_add_device:
  assumes wf: "wf_gstate s" and a: "a \<in> set (m_adapter_list s)" "adp_heap s a = Some x"
    and fresh: "dev_heap s d = None" and y: "wf_device a d y"
    and new: "map tolower (device_id y) \<notin> lower_id (dev_heap s) ` set (devices x)"
  shows "wf_gstate (put_adapter a (x\<lparr>devices := devices x @ [d]\<rparr>) (put_device d y s))"
proof -
  have fr: "d \<notin> set (devices z)" if "b \<in> set (m_adapter_list s)" "adp_heap s b = Some z" for b z
    using wf fresh that by (fastforce simp: wf_gstate_def wf_adapter_def)
  have keep: "wf_adapter ((dev_heap s)(d := Some y)) b z" if "b \<in> set (m_adapter_list s)" "adp_heap s b = Some z" for b z
  proof (rule wf_heap_irrelevant)
    show "wf_adapter (dev_heap s) b z" using wf that by (auto simp: wf_gstate_def)
    show "\<forall>e \<in> set (devices z). ((dev_heap s)(d := Some y)) e = dev_heap s e" using fr [OF that] by auto
  qed
  have "wf_adapter ((dev_heap s)(d := Some y)) a (x\<lparr>devices := devices x @ [d]\<rparr>)"
  proof -
    have "lower_id ((dev_heap s)(d := Some y)) ` set (devices x) = lower_id (dev_heap s) ` set (devices x)"
      using fr [OF a] by (auto simp: lower_id_upd)
    moreover have "map tolower (device_id y) = lower_id ((dev_heap s)(d := Some y)) d"
      by (simp add: lower_id_upd)
    ultimately show ?thesis using keep [OF a] y new by (simp add: wf_adapter_def)
  qed
  with keep wf show ?thesis by (auto simp: wf_gstate_def)
qed

lemma wf_remove_device:
  assumes wf: "wf_gstate s" and a: "a \<in> set (m_adapter_list s)" "adp_heap s a = Some x"
    and d: "d \<in> set (devices x)"
    and h: "\<forall>e. e \<noteq> d \<longrightarrow> h' e = dev_heap s e"
  shows "wf_gstate (put_adapter a (x\<lparr>devices := remove1 d (devices x)\<rparr>) s\<lparr>dev_heap := h'\<rparr>)"
proof -
  have wa: "wf_adapter (dev_heap s) a x" using wf a by (auto simp: wf_gstate_def)
  have dist: "distinct (devices x)" using wa by (auto simp: wf_adapter_def distinct_map)
  have "wf_adapter (dev_heap s) a (x\<lparr>devices := remove1 d (devices x)\<rparr>)"
    using wa dist by (auto simp: wf_adapter_def distinct_map inj_on_def)
  then have "wf_adapter h' a (x\<lparr>devices := remove1 d (devices x)\<rparr>)"
    by (rule wf_heap_irrelevant) (use h dist in auto)
  moreover have "wf_adapter h' b z" if b: "b \<in> set (m_adapter_list s)" "adp_heap s b = Some z" "b \<noteq> a" for b z
  proof (rule wf_heap_irrelevant)
    show "wf_adapter (dev_heap s) b z" using wf b by (auto simp: wf_gstate_def)
    have "d \<notin> set (devices z)"
      using wf_deviceE [OF wa d] not_listed [OF wf b(1,2)] b(3) by (metis wf_device_def)
    then show "\<forall>e \<in> set (devices z). h' e = dev_heap s e" using h by metis
  qed
  ultimately show ?thesis using wf by (auto simp: wf_gstate_def)
qed

section \<open>The abstract view: a state per device identifier\<close>

text \<open>What \<open>gattlib_device_set_state\<close> promises: the return code and the new state.\<close>

definition device_transition :: "device_state \<Rightarrow> device_state \<Rightarrow> i32 \<times> device_state" where
  "device_transition old new =
     (if old \<noteq> NOT_FOUND \<and> new = NOT_FOUND \<and> old \<noteq> DISCONNECTED then (GATTLIB_UNEXPECTED, old)
      else (GATTLIB_SUCCESS, new))"

lemma device_lookup_unique:
  assumes "wf_gstate s" "a \<in> set (m_adapter_list s)" "b \<in> set (m_adapter_list s)" "device_lookup s a key = Some d"
  shows "device_lookup s b k = Some d \<longleftrightarrow> b = a \<and> map tolower k = map tolower key"
proof
  assume b: "device_lookup s b k = Some d"
  show "b = a \<and> map tolower k = map tolower key"
    using device_lookup_Some [OF assms(1,2,4)] device_lookup_Some [OF assms(1,3) b]
    by (metis option.inject wf_device_def)
next
  assume "b = a \<and> map tolower k = map tolower key"
  then show "device_lookup s b k = Some d" using assms(4) by (simp add: device_lookup_def)
qed

lemma device_lookup_put_device:
  assumes "dev_heap s d = Some y" "device_id y' = device_id y"
  shows "device_lookup (put_device d y' s) b k = device_lookup s b k"
proof -
  have "lower_id ((dev_heap s)(d := Some y')) = lower_id (dev_heap s)"
    using assms by (auto simp: lower_id_upd fun_eq_iff) (simp add: lower_id_def)
  then show ?thesis by (simp add: device_lookup_def)
qed

lemma state_of_put_device:
  assumes "dev_heap s d = Some y" "device_id y' = device_id y"
  shows "state_of (put_device d y' s) b k = (if device_lookup s b k = Some d then dstate y' else state_of s b k)"
  by (simp add: state_of_def device_lookup_put_device [OF assms] split: option.splits)

lemma find_append: "List.find P (xs @ ys) = (case List.find P xs of None \<Rightarrow> List.find P ys | Some x \<Rightarrow> Some x)"
  by (induction xs) auto

lemma find_remove1:
  "\<not> P d \<Longrightarrow> List.find P (remove1 d xs) = List.find P xs"
  by (induction xs) auto

lemma find_cong': "(\<And>x. x \<in> set xs \<Longrightarrow> P x = Q x) \<Longrightarrow> List.find P xs = List.find Q xs"
  by (induction xs) auto

lemma state_of_add_device:
  assumes wf: "wf_gstate s" and a: "a \<in> set (m_adapter_list s)" "adp_heap s a = Some x" and b: "b \<in> set (m_adapter_list s)"
    and fresh: "dev_heap s d = None" and new: "device_lookup s a (device_id y) = None"
  shows "state_of (put_adapter a (x\<lparr>devices := devices x @ [d]\<rparr>) (put_device d y s)) b k =
    (if b = a \<and> map tolower k = map tolower (device_id y) then dstate y else state_of s b k)" (is "state_of ?s b k = _")
proof -
  obtain z where z: "adp_heap s b = Some z" "wf_adapter (dev_heap s) b z" using wf b by (elim wf_adapterE)
  then have nd: "d \<notin> set (devices z)" using fresh by (fastforce simp: wf_adapter_def)
  have f: "List.find (\<lambda>e. lower_id ((dev_heap s)(d := Some y)) e = map tolower k) (devices z) = device_lookup s b k"
    unfolding device_lookup_def using nd z by (auto simp: lower_id_upd intro: find_cong')
  show ?thesis
  proof (cases "b = a")
    case True
    then have "z = x" using a z by simp
    then have l: "device_lookup ?s b k = (case device_lookup s b k of Some e \<Rightarrow> Some e
        | None \<Rightarrow> if map tolower (device_id y) = map tolower k then Some d else None)"
      using f True by (auto simp: device_lookup_def find_append lower_id_upd split: option.splits)
    have "map tolower k = map tolower (device_id y) \<Longrightarrow> device_lookup s b k = None"
      using new True by (simp add: device_lookup_def)
    moreover have "e \<noteq> d" if "device_lookup s b k = Some e" for e
      using that nd z by (auto simp: device_lookup_def find_Some_iff in_set_conv_nth)
    ultimately show ?thesis using l True by (auto simp: state_of_def split: option.splits)
  next
    case False
    then have l: "device_lookup ?s b k = device_lookup s b k" using f z by (simp add: device_lookup_def)
    moreover have "e \<noteq> d" if "device_lookup s b k = Some e" for e
      using that nd z by (auto simp: device_lookup_def find_Some_iff in_set_conv_nth)
    ultimately show ?thesis using False by (auto simp: state_of_def split: option.splits)
  qed
qed

lemma state_of_remove_device:
  assumes wf: "wf_gstate s" and a: "a \<in> set (m_adapter_list s)" "adp_heap s a = Some x" and b: "b \<in> set (m_adapter_list s)"
    and d: "device_lookup s a key = Some d" and h: "\<forall>e. e \<noteq> d \<longrightarrow> h' e = dev_heap s e"
  shows "state_of (put_adapter a (x\<lparr>devices := remove1 d (devices x)\<rparr>) s\<lparr>dev_heap := h'\<rparr>) b k =
    (if b = a \<and> map tolower k = map tolower key then NOT_FOUND else state_of s b k)" (is "state_of ?s b k = _")
proof -
  obtain z where z: "adp_heap s b = Some z" "wf_adapter (dev_heap s) b z" using wf b by (elim wf_adapterE)
  have wa: "wf_adapter (dev_heap s) a x" using wf a by (auto simp: wf_gstate_def)
  obtain y where y: "d \<in> set (devices x)" "dev_heap s d = Some y" "wf_device a d y" "lower_id (dev_heap s) d = map tolower key"
    using device_lookup_Some [OF wf a(1) d] a(2) by (metis option.inject)
  show ?thesis
  proof (cases "b = a")
    case True
    then have zx: "z = x" using a z by simp
    have dist: "distinct (map (lower_id (dev_heap s)) (devices x))" using wa by (simp add: wf_adapter_def)
    then have dist2: "distinct (devices x)" by (simp add: distinct_map)
    have f: "List.find (\<lambda>e. lower_id h' e = map tolower k) (remove1 d (devices x)) =
        List.find (\<lambda>e. lower_id (dev_heap s) e = map tolower k) (remove1 d (devices x))"
      using h dist2 by (intro find_cong') (auto simp: lower_id_def)
    show ?thesis
    proof (cases "map tolower k = map tolower key")
      case k: True
      have "List.find (\<lambda>e. lower_id (dev_heap s) e = map tolower k) (remove1 d (devices x)) = None"
        using dist dist2 y k by (auto simp: find_None_iff distinct_map inj_on_def)
      with f k True show ?thesis by (simp add: state_of_def device_lookup_def)
    next
      case k: False
      then have "device_lookup ?s b k = device_lookup s b k"
        using f y True a by (simp add: device_lookup_def find_remove1)
      moreover have "e \<noteq> d" if "device_lookup s b k = Some e" for e
        using device_lookup_unique [OF wf a(1) b d] k that by blast
      ultimately show ?thesis using k h by (auto simp: state_of_def split: option.splits)
    qed
  next
    case False
    have nd: "d \<notin> set (devices z)" using not_listed [OF wf b z(1) y(2)] y(3) False by (simp add: wf_device_def)
    have "List.find (\<lambda>e. lower_id h' e = map tolower k) (devices z) =
        List.find (\<lambda>e. lower_id (dev_heap s) e = map tolower k) (devices z)"
      using h nd by (intro find_cong') (auto simp: lower_id_def)
    then have "device_lookup ?s b k = device_lookup s b k" using z False by (simp add: device_lookup_def)
    moreover have "e \<noteq> d" if "device_lookup s b k = Some e" for e
      using device_lookup_unique [OF wf a(1) b d] False that by blast
    ultimately show ?thesis using False h by (auto simp: state_of_def split: option.splits)
  qed
qed

text \<open>What a change of device states leaves alone.\<close>

definition registry_frame :: "gstate \<Rightarrow> gstate \<Rightarrow> bool" where
  "registry_frame s t \<longleftrightarrow> m_adapter_list t = m_adapter_list s \<and> list_heap t = list_heap s
     \<and> signals t = signals s \<and> events t = events s
     \<and> (\<forall>a x. adp_heap s a = Some x \<longrightarrow> (\<exists>y. adp_heap t a = Some y \<and> y\<lparr>devices := []\<rparr> = x\<lparr>devices := []\<rparr>))"

lemma registry_frame_refl [simp]: "registry_frame s s"
  by (simp add: registry_frame_def)

lemma registry_frame_heap [simp]: "registry_frame s (s\<lparr>dev_heap := h\<rparr>)"
  using registry_frame_refl [of s] by (auto simp: registry_frame_def)

lemma registry_frame_put_device [simp]: "registry_frame s (put_device d y s)"
  by (simp add: put_device_def)

lemma unref_cases:
  assumes "dev_heap s d = Some y"
  obtains h where "gattlib_device_unref d s = Some (GATTLIB_SUCCESS, s\<lparr>dev_heap := h\<rparr>)"
    and "\<forall>e. e \<noteq> d \<longrightarrow> h e = dev_heap s e"
  using assms by (fastforce simp: gattlib_device_unref_def put_device_def split: if_splits)

lemma state_of_strcaseeq: "strcaseeq k key \<Longrightarrow> state_of s a k = state_of s a key"
  by (simp add: state_of_def device_lookup_def strcaseeq_def)

definition set_state_post :: "addr \<Rightarrow> string \<Rightarrow> device_state \<Rightarrow> gstate \<Rightarrow> i32 \<times> gstate \<Rightarrow> bool" where
  "set_state_post a key new s rt \<longleftrightarrow> (case rt of (r, t) \<Rightarrow>
     r = fst (device_transition (state_of s a key) new) \<and> wf_gstate t \<and> registry_frame s t
     \<and> (\<forall>b \<in> set (m_adapter_list s). \<forall>k. state_of t b k =
          (if b = a \<and> strcaseeq k key then snd (device_transition (state_of s a key) new) else state_of s b k)))"

lemma set_state_new:
  assumes wf: "wf_gstate s" and a: "a \<in> set (m_adapter_list s)" and fresh: "dev_heap s d = None"
    and st: "state_of s a key = NOT_FOUND"
  shows "\<exists>rt. gattlib_device_set_state (Some d) (Some a) key new s = Some rt \<and> set_state_post a key new s rt"
proof -
  obtain x where x: "adp_heap s a = Some x" "wf_adapter (dev_heap s) a x" using wf a by (elim wf_adapterE)
  have valid: "gattlib_adapter_is_valid (Some a) s" using a by (simp add: gattlib_adapter_is_valid_def)
  note unf = gattlib_device_set_state_def valid get_state_state_of [OF wf a] st
  show ?thesis
  proof (cases "new = NOT_FOUND")
    case True
    with wf st state_of_strcaseeq show ?thesis by (auto simp: unf device_transition_def set_state_post_def)
  next
    case False
    let ?y = "\<lparr>dadapter = a, device_id = key, dref = 1, dstate = new, dconnection = connection_init d\<rparr>"
    let ?t = "put_adapter a (x\<lparr>devices := devices x @ [d]\<rparr>) (put_device d ?y s)"
    have nl: "device_lookup s a key = None" using st state_of_NOT_FOUND [OF wf a] by simp
    then have "map tolower key \<notin> lower_id (dev_heap s) ` set (devices x)"
      using x by (force simp: device_lookup_def find_None_iff)
    then have "wf_gstate ?t"
      using wf a x fresh False by (intro wf_add_device) (auto simp: wf_device_def connection_init_def)
    moreover have "registry_frame s ?t"
      using registry_frame_refl [of s] x by (auto simp: registry_frame_def)
    moreover have "state_of ?t b k = (if b = a \<and> strcaseeq k key then new else state_of s b k)"
      if "b \<in> set (m_adapter_list s)" for b k
      using state_of_add_device [OF wf a x(1) that fresh, of ?y k] nl by (simp add: strcaseeq_def)
    moreover have "gattlib_device_set_state (Some d) (Some a) key new s = Some (GATTLIB_SUCCESS, ?t)"
      using False x by (simp add: unf)
    ultimately show ?thesis using st by (simp add: device_transition_def set_state_post_def)
  qed
qed

lemma set_state_change:
  assumes wf: "wf_gstate s" and a: "a \<in> set (m_adapter_list s)"
    and e: "device_lookup s a key = Some e" and new: "new \<noteq> NOT_FOUND"
  shows "\<exists>rt. gattlib_device_set_state al (Some a) key new s = Some rt \<and> set_state_post a key new s rt"
proof -
  obtain y where y: "dev_heap s e = Some y" "wf_device a e y"
    using device_lookup_Some [OF wf a e] by metis
  let ?t = "put_device e (y\<lparr>dstate := new\<rparr>) s"
  have nf: "state_of s a key \<noteq> NOT_FOUND" using e state_of_NOT_FOUND [OF wf a] by simp
  have "gattlib_device_set_state al (Some a) key new s = Some (GATTLIB_SUCCESS, ?t)"
    using nf new e y a
    by (simp add: gattlib_device_set_state_def gattlib_adapter_is_valid_def get_state_state_of [OF wf a] get_device_lookup [OF wf a])
  moreover have "wf_gstate ?t"
    using wf y new by (intro wf_put_device) (auto simp: wf_device_def)
  moreover have "state_of ?t b k = (if b = a \<and> strcaseeq k key then new else state_of s b k)"
    if "b \<in> set (m_adapter_list s)" for b k
    using state_of_put_device [OF y(1), of "y\<lparr>dstate := new\<rparr>"] device_lookup_unique [OF wf a that e]
    by (simp add: strcaseeq_def)
  ultimately show ?thesis using nf new by (simp add: device_transition_def set_state_post_def)
qed

lemma set_state_remove:
  assumes wf: "wf_gstate s" and a: "a \<in> set (m_adapter_list s)" and e: "device_lookup s a key = Some e"
  shows "\<exists>rt. gattlib_device_set_state al (Some a) key NOT_FOUND s = Some rt \<and> set_state_post a key NOT_FOUND s rt"
proof -
  obtain x y where x: "adp_heap s a = Some x" "wf_adapter (dev_heap s) a x"
    and y: "e \<in> set (devices x)" "dev_heap s e = Some y" "wf_device a e y"
    using device_lookup_Some [OF wf a e] by metis
  have st: "state_of s a key = dstate y" and nf: "dstate y \<noteq> NOT_FOUND"
    using e y by (simp_all add: state_of_def wf_device_def)
  have valid: "gattlib_adapter_is_valid (Some a) s" using a by (simp add: gattlib_adapter_is_valid_def)
  have find: "find_device_with_device_id (dev_heap s) (devices x) key = Some (Some e)"
    using e x by (simp add: find_device_find wf_adapter_allocated device_lookup_def)
  note unf = gattlib_device_set_state_def valid get_state_state_of [OF wf a] st find x(1) y(2)
  show ?thesis
  proof (cases "dstate y = DISCONNECTED")
    case True
    let ?u = "put_adapter a (x\<lparr>devices := remove1 e (devices x)\<rparr>) s"
    obtain h where h: "gattlib_device_unref e ?u = Some (GATTLIB_SUCCESS, ?u\<lparr>dev_heap := h\<rparr>)"
      "\<forall>c. c \<noteq> e \<longrightarrow> h c = dev_heap s c"
      using y(2) by (auto intro: unref_cases [of ?u e y])
    have "gattlib_device_set_state al (Some a) key NOT_FOUND s = Some (GATTLIB_SUCCESS, ?u\<lparr>dev_heap := h\<rparr>)"
      using True h(1) by (simp add: unf)
    moreover have "wf_gstate (?u\<lparr>dev_heap := h\<rparr>)" by (rule wf_remove_device [OF wf a x(1) y(1) h(2)])
    moreover have "registry_frame s (?u\<lparr>dev_heap := h\<rparr>)"
      using registry_frame_refl [of s] x by (auto simp: registry_frame_def)
    moreover have "state_of (?u\<lparr>dev_heap := h\<rparr>) b k = (if b = a \<and> strcaseeq k key then NOT_FOUND else state_of s b k)"
      if "b \<in> set (m_adapter_list s)" for b k
      using state_of_remove_device [OF wf a x(1) that e h(2)] by (simp add: strcaseeq_def)
    ultimately show ?thesis using True st by (simp add: device_transition_def set_state_post_def)
  next
    case False
    have "gattlib_device_set_state al (Some a) key NOT_FOUND s = Some (GATTLIB_UNEXPECTED, s)"
      using nf False by (cases "dstate y") (simp_all add: unf)
    with False st wf nf state_of_strcaseeq show ?thesis by (auto simp: device_transition_def set_state_post_def)
  qed
qed

lemma set_state_correct:
  assumes "wf_gstate s" and "a \<in> set (m_adapter_list s)" and "dev_heap s d = None"
  shows "\<exists>rt. gattlib_device_set_state (Some d) (Some a) key new s = Some rt \<and> set_state_post a key new s rt"
  using set_state_new [OF assms] set_state_change [OF assms(1,2)] set_state_remove [OF assms(1,2)]
    state_of_NOT_FOUND [OF assms(1,2)]
  by (metis option.exhaust)

section \<open>The validity checks on well-formed states\<close>

definition attached :: "gstate \<Rightarrow> addr \<Rightarrow> bool" where
  "attached s d \<longleftrightarrow> (\<exists>a \<in> set (m_adapter_list s). d \<in> set (devices (the (adp_heap s a))))"

lemma device_is_valid_in_eq:
  "\<forall>a \<in> set as. h a \<noteq> None \<Longrightarrow>
    device_is_valid_in h as d b = Some (b \<or> (\<exists>a \<in> set as. d \<in> set (devices (the (h a)))))"
  by (induction as arbitrary: b) auto

lemma wf_adapters_allocated: "wf_gstate s \<Longrightarrow> \<forall>a \<in> set (m_adapter_list s). adp_heap s a \<noteq> None"
  by (auto simp: wf_gstate_def)

lemma device_is_valid_wf: "wf_gstate s \<Longrightarrow> gattlib_device_is_valid d s = Some (attached s d)"
  by (simp add: gattlib_device_is_valid_def device_is_valid_in_eq wf_adapters_allocated attached_def)

lemma connection_is_valid_wf:
  "wf_gstate s \<Longrightarrow> gattlib_connection_is_valid (Some c) s = Some (attached s c)"
  "wf_gstate s \<Longrightarrow> gattlib_connection_is_valid None s = Some False"
  by (simp_all add: gattlib_connection_is_valid_def device_is_valid_in_eq wf_adapters_allocated attached_def)

lemma attachedE:
  assumes "wf_gstate s" "attached s d"
  obtains a x y where "a \<in> set (m_adapter_list s)" "adp_heap s a = Some x" "d \<in> set (devices x)"
    "wf_adapter (dev_heap s) a x" "dev_heap s d = Some y" "wf_device a d y"
proof -
  obtain a where a: "a \<in> set (m_adapter_list s)" "d \<in> set (devices (the (adp_heap s a)))"
    using assms by (auto simp: attached_def)
  obtain x where x: "adp_heap s a = Some x" "wf_adapter (dev_heap s) a x" using assms a by (elim wf_adapterE)
  with a obtain y where "dev_heap s d = Some y" "wf_device a d y" by (auto elim: wf_deviceE)
  with a x that show thesis by auto
qed

lemma attachedI: "a \<in> set (m_adapter_list s) \<Longrightarrow> adp_heap s a = Some x \<Longrightarrow> d \<in> set (devices x) \<Longrightarrow> attached s d"
  by (force simp: attached_def)

lemma connection_is_connected_in_eq:
  assumes "\<forall>a \<in> set as. adp_heap s a \<noteq> None"
    and "\<forall>a \<in> set as. c \<in> set (devices (the (adp_heap s a))) \<longrightarrow> dev_heap s c \<noteq> None"
  shows "connection_is_connected_in s as c b = Some (if \<exists>a \<in> set as. c \<in> set (devices (the (adp_heap s a)))
    then dstate (the (dev_heap s c)) = CONNECTED else b)"
  using assms by (induction as arbitrary: b) auto

definition connected :: "gstate \<Rightarrow> addr \<Rightarrow> bool" where
  "connected s c \<longleftrightarrow> attached s c \<and> dstate (the (dev_heap s c)) = CONNECTED"

lemma connection_is_connected_wf:
  assumes "wf_gstate s"
  shows "gattlib_connection_is_connected (Some c) s = Some (connected s c)"
    and "gattlib_connection_is_connected None s = Some False"
proof -
  have "\<forall>a \<in> set (m_adapter_list s). c \<in> set (devices (the (adp_heap s a))) \<longrightarrow> dev_heap s c \<noteq> None"
    using assms by (fastforce simp: wf_gstate_def wf_adapter_def)
  then show "gattlib_connection_is_connected (Some c) s = Some (connected s c)"
    using connection_is_connected_in_eq wf_adapters_allocated [OF assms]
    by (auto simp: gattlib_connection_is_connected_def connected_def attached_def)
  show "gattlib_connection_is_connected None s = Some False"
    by (simp add: gattlib_connection_is_connected_def device_is_valid_in_eq wf_adapters_allocated [OF assms])
qed

section \<open>Releasing an adapter\<close>

lemma devices_free_wf:
  assumes "distinct ds" and "\<forall>d \<in> set ds. dev_heap s d \<noteq> None"
  shows "\<exists>h. gattlib_devices_free ds s = Some (s\<lparr>dev_heap := h\<rparr>) \<and> (\<forall>e. e \<notin> set ds \<longrightarrow> h e = dev_heap s e)"
  using assms
proof (induction ds arbitrary: s)
  case Nil
  show ?case by (rule exI [of _ "dev_heap s"]) simp
next
  case (Cons d ds)
  then obtain y where y: "dev_heap s d = Some y" by auto
  obtain h where h: "gattlib_device_unref d s = Some (GATTLIB_SUCCESS, s\<lparr>dev_heap := h\<rparr>)" "\<forall>e. e \<noteq> d \<longrightarrow> h e = dev_heap s e"
    using unref_cases [OF y] by blast
  obtain k where k: "(if dstate y = DISCONNECTED then do { (_, s) \<leftarrow> gattlib_device_unref d s; Some s } else Some s)
      = Some (s\<lparr>dev_heap := k\<rparr>)" "\<forall>e. e \<noteq> d \<longrightarrow> k e = dev_heap s e"
  proof (cases "dstate y = DISCONNECTED")
    case True
    with h that show thesis by auto
  next
    case False
    with that [of "dev_heap s"] show thesis by simp
  qed
  have "\<forall>e \<in> set ds. dev_heap (s\<lparr>dev_heap := k\<rparr>) e \<noteq> None" "distinct ds" using Cons.prems k(2) by auto
  from Cons.IH [OF this(2,1)] obtain g where g: "gattlib_devices_free ds (s\<lparr>dev_heap := k\<rparr>) = Some (s\<lparr>dev_heap := g\<rparr>)"
    "\<forall>e. e \<notin> set ds \<longrightarrow> g e = k e" by auto
  then have "gattlib_devices_free (d # ds) s = Some (s\<lparr>dev_heap := g\<rparr>)"
    using y k(1) by simp
  then show ?case using g(2) k(2) by auto
qed

lemma unref_opt_sel [simp]:
  "m_adapter_list (unref_opt p s) = m_adapter_list s" "adp_heap (unref_opt p s) = adp_heap s"
  "dev_heap (unref_opt p s) = dev_heap s" "list_heap (unref_opt p s) = list_heap s" "signals (unref_opt p s) = signals s"
  by (auto simp: unref_opt_def split: option.splits)

lemma adapter_unref_wf:
  assumes wf: "wf_gstate s" and a: "a \<in> set (m_adapter_list s)"
  shows "\<exists>t. gattlib_adapter_unref a s = Some (GATTLIB_SUCCESS, t) \<and> wf_gstate t
    \<and> m_adapter_list t = (if aref (the (adp_heap s a)) = 1 then remove1 a (m_adapter_list s) else m_adapter_list s)
    \<and> (\<forall>b \<in> set (m_adapter_list s). b \<noteq> a \<longrightarrow> adp_heap t b = adp_heap s b \<and> (\<forall>k. state_of t b k = state_of s b k))"
proof -
  obtain x where x: "adp_heap s a = Some x" "wf_adapter (dev_heap s) a x" using wf a by (elim wf_adapterE)
  show ?thesis
  proof (cases "aref x = 1")
    case False
    then have pos: "0 < aref x - 1" by (simp add: word_neq_0_conv [symmetric])
    let ?t = "put_adapter a (x\<lparr>aref := aref x - 1\<rparr>) s"
    have "gattlib_adapter_unref a s = Some (GATTLIB_SUCCESS, ?t)"
      using x pos by (simp add: gattlib_adapter_unref_def Let_def)
    moreover have "wf_gstate ?t" using wf x pos by (intro wf_put_adapter) auto
    moreover have "state_of ?t b k = state_of s b k" if "b \<noteq> a" for b k
      using that by (simp add: state_of_def device_lookup_def cong: option.case_cong)
    ultimately show ?thesis using False x by simp
  next
    case True
    let ?x = "x\<lparr>aref := 0\<rparr>"
    let ?u = "unref_opt (adapter_proxy x) (unref_opt (device_manager x) (unref_opt (scan_loop_thread (scan x)) (put_adapter a ?x s)))"
    have dist: "distinct (devices x)" using x by (auto simp: wf_adapter_def distinct_map)
    have "\<forall>d \<in> set (devices x). dev_heap ?u d \<noteq> None" using x by (auto simp: wf_adapter_allocated)
    then obtain h where h: "gattlib_devices_free (devices x) ?u = Some (?u\<lparr>dev_heap := h\<rparr>)"
      "\<forall>e. e \<notin> set (devices x) \<longrightarrow> h e = dev_heap s e" using devices_free_wf [OF dist] by fastforce
    let ?t = "?u\<lparr>dev_heap := h, m_adapter_list := remove1 a (m_adapter_list s), adp_heap := (adp_heap ?u)(a := None)\<rparr>"
    have run: "gattlib_adapter_unref a s = Some (GATTLIB_SUCCESS, ?t)"
      using x True h(1) by (simp add: gattlib_adapter_unref_def Let_def)
    have other: "wf_adapter h b z \<and> (\<forall>d \<in> set (devices z). h d = dev_heap s d)"
      if b: "b \<in> set (m_adapter_list s)" "b \<noteq> a" "adp_heap s b = Some z" for b z
    proof -
      have "wf_adapter (dev_heap s) b z" using wf b by (auto simp: wf_gstate_def)
      moreover have "\<forall>d \<in> set (devices z). d \<notin> set (devices x)"
        using not_listed [OF wf b(1) b(3)] x(2) b(2) by (metis wf_deviceE wf_device_def)
      ultimately show ?thesis using h(2) wf_heap_irrelevant by metis
    qed
    then have "wf_gstate ?t" using wf by (fastforce simp: wf_gstate_def)
    moreover have "state_of ?t b k = state_of s b k" if b: "b \<in> set (m_adapter_list s)" "b \<noteq> a" for b k
    proof -
      obtain z where z: "adp_heap s b = Some z" using wf b by (auto simp: wf_gstate_def)
      have "List.find (\<lambda>d. lower_id h d = map tolower k) (devices z) = List.find (\<lambda>d. lower_id (dev_heap s) d = map tolower k) (devices z)"
        using other [OF b z] by (intro find_cong') (auto simp: lower_id_def)
      then have "device_lookup ?t b k = device_lookup s b k" using z b by (simp add: device_lookup_def)
      moreover have "h d = dev_heap s d" if "device_lookup s b k = Some d" for d
        using other [OF b z] that z by (auto simp: device_lookup_def find_Some_iff)
      ultimately show ?thesis by (auto simp: state_of_def split: option.splits)
    qed
    ultimately show ?thesis using run x True by auto
  qed
qed

section \<open>The registry as an interface\<close>

text \<open>
  The operations that the rest of the library calls on the registry of one adapter. The client
  sees a map from identifiers (up to letter case) to states; \<open>upd\<close> takes what \<open>calloc\<close> returned.
\<close>

definition device_update :: "addr option \<Rightarrow> device_state \<Rightarrow> device_state \<Rightarrow> i32 \<times> device_state" where
  "device_update al old new =
     (if al = None \<and> old = NOT_FOUND \<and> new \<noteq> NOT_FOUND then (GATTLIB_OUT_OF_MEMORY, old) else device_transition old new)"

fun run_updates :: "(addr option \<Rightarrow> string \<Rightarrow> device_state \<Rightarrow> 's \<Rightarrow> (i32 \<times> 's) option) \<Rightarrow>
    (addr option \<times> string \<times> device_state) list \<Rightarrow> 's \<Rightarrow> (i32 list \<times> 's) option" where
  "run_updates upd [] s = Some ([], s)"
| "run_updates upd ((al, key, new) # us) s = do {
     (r, s) \<leftarrow> upd al key new s;
     (rs, s) \<leftarrow> run_updates upd us s;
     Some (r # rs, s)
   }"

fun fresh_allocs :: "(addr option \<Rightarrow> string \<Rightarrow> device_state \<Rightarrow> 's \<Rightarrow> (i32 \<times> 's) option) \<Rightarrow> (addr \<Rightarrow> 's \<Rightarrow> bool) \<Rightarrow>
    (addr option \<times> string \<times> device_state) list \<Rightarrow> 's \<Rightarrow> bool" where
  "fresh_allocs upd fresh [] s \<longleftrightarrow> True"
| "fresh_allocs upd fresh ((al, key, new) # us) s \<longleftrightarrow>
     (case al of None \<Rightarrow> True | Some d \<Rightarrow> fresh d s) \<and>
     (case upd al key new s of None \<Rightarrow> True | Some (r, t) \<Rightarrow> fresh_allocs upd fresh us t)"

fun updates_spec :: "(addr option \<times> string \<times> device_state) list \<Rightarrow> string \<Rightarrow> device_state \<Rightarrow> device_state" where
  "updates_spec [] k st = st"
| "updates_spec ((al, key, new) # us) k st =
     updates_spec us k (if strcaseeq k key then snd (device_update al st new) else st)"

locale device_registry =
  fixes get :: "'s \<Rightarrow> string \<Rightarrow> device_state"
    and upd :: "addr option \<Rightarrow> string \<Rightarrow> device_state \<Rightarrow> 's \<Rightarrow> (i32 \<times> 's) option"
    and ok :: "'s \<Rightarrow> bool"
    and fresh :: "addr \<Rightarrow> 's \<Rightarrow> bool"
  assumes get_case: "strcaseeq k key \<Longrightarrow> get s k = get s key"
    and upd_law: "ok s \<Longrightarrow> (\<And>d. al = Some d \<Longrightarrow> fresh d s) \<Longrightarrow>
      \<exists>t. upd al key new s = Some (fst (device_update al (get s key) new), t) \<and> ok t \<and>
        (\<forall>k. get t k = (if strcaseeq k key then snd (device_update al (get s key) new) else get s k))"
begin

lemma run_law:
  "ok s \<Longrightarrow> fresh_allocs upd fresh us s \<Longrightarrow>
    \<exists>rs t. run_updates upd us s = Some (rs, t) \<and> length rs = length us \<and> ok t \<and> (\<forall>k. get t k = updates_spec us k (get s k))"
proof (induction us arbitrary: s)
  case Nil
  then show ?case by simp
next
  case (Cons u us)
  obtain al key new where u: "u = (al, key, new)" by (cases u)
  have "fresh d s" if "al = Some d" for d using Cons.prems(2) u that by simp
  then obtain t where t: "upd al key new s = Some (fst (device_update al (get s key) new), t)" "ok t"
    "\<And>k. get t k = (if strcaseeq k key then snd (device_update al (get s key) new) else get s k)"
    using upd_law [OF Cons.prems(1), of al key new] by blast
  moreover have "fresh_allocs upd fresh us t" using Cons.prems(2) u t(1) by simp
  ultimately obtain rs w where w: "run_updates upd us t = Some (rs, w)" "length rs = length us" "ok w"
    "\<And>k. get w k = updates_spec us k (get t k)" using Cons.IH by blast
  have "get w k = updates_spec (u # us) k (get s k)" for k
    using w(4) [of k] t(3) [of k] get_case [of k key s] by (simp add: u)
  with t(1) w u show ?case by simp
qed

lemma removal_law:
  assumes "ok s" and "get s key = DISCONNECTED"
  shows "\<exists>t. upd None key NOT_FOUND s = Some (GATTLIB_SUCCESS, t) \<and> get t key = NOT_FOUND"
  using upd_law [of s None key NOT_FOUND] assms by (auto simp: device_update_def device_transition_def strcaseeq_refl)

end

lemma set_state_oom:
  assumes wf: "wf_gstate s" and a: "a \<in> set (m_adapter_list s)" and st: "state_of s a key = NOT_FOUND"
  shows "gattlib_device_set_state None (Some a) key new s =
    Some (if new = NOT_FOUND then GATTLIB_SUCCESS else GATTLIB_OUT_OF_MEMORY, s)"
  using a by (simp add: gattlib_device_set_state_def gattlib_adapter_is_valid_def get_state_state_of [OF wf a] st)

lemma set_state_update:
  assumes wf: "wf_gstate s" and a: "a \<in> set (m_adapter_list s)"
    and al: "\<And>d. al = Some d \<Longrightarrow> dev_heap s d = None"
  shows "\<exists>t. gattlib_device_set_state al (Some a) key new s = Some (fst (device_update al (state_of s a key) new), t)
    \<and> wf_gstate t \<and> m_adapter_list t = m_adapter_list s
    \<and> (\<forall>k. state_of t a k = (if strcaseeq k key then snd (device_update al (state_of s a key) new) else state_of s a k))"
proof (cases al)
  case (Some d)
  with al have "dev_heap s d = None" by simp
  from set_state_correct [OF wf a this, of key new] show ?thesis
    using a by (auto simp: Some device_update_def set_state_post_def registry_frame_def)
next
  case None
  show ?thesis
  proof (cases "device_lookup s a key")
    case n: None
    then have st: "state_of s a key = NOT_FOUND" using state_of_NOT_FOUND [OF wf a] by simp
    with wf state_of_strcaseeq show ?thesis
      by (auto simp: None set_state_oom [OF wf a st] device_update_def device_transition_def)
  next
    case (Some e)
    then have nf: "state_of s a key \<noteq> NOT_FOUND" using state_of_NOT_FOUND [OF wf a] by simp
    have "\<exists>rt. gattlib_device_set_state al (Some a) key new s = Some rt \<and> set_state_post a key new s rt"
      using set_state_change [OF wf a Some] set_state_remove [OF wf a Some] by (cases "new = NOT_FOUND") auto
    then show ?thesis using a nf by (auto simp: None device_update_def set_state_post_def registry_frame_def)
  qed
qed

interpretation registry: device_registry "\<lambda>s. state_of s a" "\<lambda>al. gattlib_device_set_state al (Some a)"
    "\<lambda>s. wf_gstate s \<and> a \<in> set (m_adapter_list s)" "\<lambda>d s. dev_heap s d = None" for a
proof (unfold_locales, goal_cases)
  case (1 k key s)
  then show ?case by (rule state_of_strcaseeq)
next
  case (2 s al key new)
  then show ?case using set_state_update [of s a al key new] by auto
qed

section \<open>An example state\<close>

text \<open>One adapter (at 1) with one device (at 2), used by the concrete instances below.\<close>

definition ex_device :: "device_state \<Rightarrow> device" where
  "ex_device st = \<lparr>dadapter = 1, device_id = ''AA:01'', dref = 1, dstate = st, dconnection = connection_init 2\<rparr>"

definition ex_adapter :: "addr list \<Rightarrow> adapter" where
  "ex_adapter ds = \<lparr>device_manager = Some 1, adapter_proxy = Some 2, scan = ble_scan_init, aid = ''/org/bluez/hci0'',
     aname = ''hci0'', aref = 1, devices = ds, discovered_device_callback = handler_init\<rparr>"

definition ex_state :: "device_state \<Rightarrow> gstate" where
  "ex_state st = gstate_init\<lparr>m_adapter_list := [1], adp_heap := [1 \<mapsto> ex_adapter [2]], dev_heap := [2 \<mapsto> ex_device st]\<rparr>"

lemmas ex_defs = ex_device_def ex_adapter_def ex_state_def gstate_init_def connection_init_def

lemma ex_state_wf: "st \<noteq> NOT_FOUND \<Longrightarrow> wf_gstate (ex_state st)"
  by (simp add: ex_defs wf_gstate_def wf_adapter_def wf_device_def)

lemma ex_state_sel [simp]:
  "m_adapter_list (ex_state st) = [1]" "adp_heap (ex_state st) = [1 \<mapsto> ex_adapter [2]]"
  "dev_heap (ex_state st) = [2 \<mapsto> ex_device st]"
  by (simp_all add: ex_state_def)

lemmas ex_ids = strcaseeq_def tolower_def char_of_def bit_0

lemma fresh_allocs_None: "\<forall>u \<in> set us. fst u = None \<Longrightarrow> fresh_allocs upd fresh us s"
  by (induction us arbitrary: s) (auto split: option.splits)

section \<open>Properties\<close>

text \<open>C1: On a well-formed state, changing the state of a device returns the code and installs
  the state that the transition table gives, whatever the letter case of the identifier, and
  changes no other device of any adapter; a device that is still in use cannot be removed.\<close>

theorem device_set_state_refines:
  assumes "wf_gstate s" and "a \<in> set (m_adapter_list s)" and "dev_heap s d = None"
  shows "\<exists>t. gattlib_device_set_state (Some d) (Some a) key new s = Some (fst (device_transition (state_of s a key) new), t)
    \<and> wf_gstate t \<and> registry_frame s t
    \<and> (\<forall>b \<in> set (m_adapter_list s). \<forall>k. gattlib_device_get_state b k t =
        Some (if b = a \<and> strcaseeq k key then snd (device_transition (state_of s a key) new) else state_of s b k))"
proof -
  obtain r t where t: "gattlib_device_set_state (Some d) (Some a) key new s = Some (r, t)"
    and post: "set_state_post a key new s (r, t)"
    using set_state_correct [OF assms] by fastforce
  then have "gattlib_device_get_state b k t = Some (state_of t b k)" if "b \<in> set (m_adapter_list s)" for b k
    using that by (intro get_state_state_of) (auto simp: set_state_post_def registry_frame_def)
  with t post show ?thesis by (auto simp: set_state_post_def)
qed

lemma device_set_state_refines_witness:
  "\<exists>t. gattlib_device_set_state (Some 3) (Some 1) ''aa:01'' CONNECTED (ex_state CONNECTING) = Some (GATTLIB_SUCCESS, t)
    \<and> gattlib_device_get_state 1 ''AA:01'' t = Some CONNECTED"
proof -
  have "strcaseeq ''AA:01'' ''aa:01''" by (simp add: ex_ids)
  then show ?thesis
    using device_set_state_refines [OF ex_state_wf [of CONNECTING], of 1 3 "''aa:01''" CONNECTED]
    by (auto simp: device_transition_def)
qed

text \<open>Any run of state changes on an open adapter, with any outcome of \<open>calloc\<close> in each,
  ends with every device in the state that the transition table gives for the changes of its
  own identifier, in their order, and with the registry well formed.\<close>

theorem device_updates_run:
  assumes "wf_gstate s" and "a \<in> set (m_adapter_list s)"
    and "fresh_allocs (\<lambda>al. gattlib_device_set_state al (Some a)) (\<lambda>d s. dev_heap s d = None) us s"
  shows "\<exists>rs t. run_updates (\<lambda>al. gattlib_device_set_state al (Some a)) us s = Some (rs, t) \<and> length rs = length us
    \<and> wf_gstate t \<and> (\<forall>k. gattlib_device_get_state a k t = Some (updates_spec us k (state_of s a k)))"
  using registry.run_law [OF _ assms(3)] assms(1,2) get_state_state_of by fastforce

lemma device_updates_run_witness:
  "\<exists>rs t. run_updates (\<lambda>al. gattlib_device_set_state al (Some 1)) [(None, ''aa:01'', CONNECTED), (None, ''BB'', CONNECTING)]
      (ex_state CONNECTING) = Some (rs, t)
    \<and> gattlib_device_get_state 1 ''AA:01'' t = Some CONNECTED \<and> gattlib_device_get_state 1 ''BB'' t = Some NOT_FOUND"
proof -
  let ?us = "[(None, ''aa:01'', CONNECTED), (None, ''BB'', CONNECTING)] :: (addr option \<times> string \<times> device_state) list"
  have s: "state_of (ex_state CONNECTING) 1 ''AA:01'' = CONNECTING" "state_of (ex_state CONNECTING) 1 ''BB'' = NOT_FOUND"
    by (simp_all add: state_of_def device_lookup_def lower_id_def ex_adapter_def ex_device_def ex_ids)
  have u: "updates_spec ?us ''AA:01'' CONNECTING = CONNECTED" "updates_spec ?us ''BB'' NOT_FOUND = NOT_FOUND"
    by (simp_all add: ex_ids device_update_def device_transition_def)
  have f: "fresh_allocs (\<lambda>al. gattlib_device_set_state al (Some 1)) (\<lambda>d s. dev_heap s d = None) ?us (ex_state CONNECTING)"
    by (rule fresh_allocs_None) simp
  obtain rs t where t: "run_updates (\<lambda>al. gattlib_device_set_state al (Some 1)) ?us (ex_state CONNECTING) = Some (rs, t)"
    "\<And>k. gattlib_device_get_state 1 k t = Some (updates_spec ?us k (state_of (ex_state CONNECTING) 1 k))"
    using device_updates_run [OF ex_state_wf [of CONNECTING] _ f] by auto
  show ?thesis using t(1) t(2) [of "''AA:01''"] t(2) [of "''BB''"] unfolding s u by blast
qed

text \<open>C5: The validity checks, run by every public function before it touches a connection,
  never dereference a freed object and answer exactly whether the connection belongs to a
  device that is still attached to an open adapter, and whether that device is connected.\<close>

theorem connection_checks:
  assumes "wf_gstate s"
  shows "gattlib_connection_is_valid (Some c) s = Some (attached s c)
    \<and> gattlib_connection_is_connected (Some c) s = Some (connected s c)
    \<and> gattlib_device_is_valid c s = Some (attached s c)
    \<and> gattlib_connection_is_connected None s = Some False
    \<and> (attached s c \<longrightarrow> (\<exists>y. dev_heap s c = Some y \<and> 0 < dref y))"
proof -
  have "attached s c \<Longrightarrow> \<exists>y. dev_heap s c = Some y \<and> 0 < dref y"
    by (rule attachedE [OF assms]) (auto simp: wf_device_def)
  with assms show ?thesis by (simp add: connection_is_valid_wf connection_is_connected_wf device_is_valid_wf)
qed

lemma connection_checks_witness:
  "gattlib_connection_is_connected (Some 2) (ex_state CONNECTED) = Some True
   \<and> gattlib_connection_is_connected (Some 3) (ex_state CONNECTED) = Some False"
  using connection_checks [OF ex_state_wf [of CONNECTED], of 2] connection_checks [OF ex_state_wf [of CONNECTED], of 3]
  by (simp add: connected_def attached_def ex_adapter_def ex_device_def)

text \<open>Dropping a reference to an open adapter never faults, frees it and takes it off the
  adapter list exactly when the reference was the last, keeps the registry well formed and
  leaves every other adapter and all its devices as they were.\<close>

theorem adapter_unref_spec:
  assumes "wf_gstate s" and "a \<in> set (m_adapter_list s)"
  shows "\<exists>t. gattlib_adapter_unref a s = Some (GATTLIB_SUCCESS, t) \<and> wf_gstate t
    \<and> (a \<in> set (m_adapter_list t) \<longleftrightarrow> 1 < aref (the (adp_heap s a)))
    \<and> (\<forall>b. b \<noteq> a \<longrightarrow> (b \<in> set (m_adapter_list t) \<longleftrightarrow> b \<in> set (m_adapter_list s)))
    \<and> (\<forall>b \<in> set (m_adapter_list s). b \<noteq> a \<longrightarrow> adp_heap t b = adp_heap s b \<and>
        (\<forall>k. gattlib_device_get_state b k t = gattlib_device_get_state b k s))"
proof -
  obtain x where x: "adp_heap s a = Some x" "wf_adapter (dev_heap s) a x" using assms by (elim wf_adapterE)
  then have ref: "1 < aref x \<longleftrightarrow> aref x \<noteq> 1"
    by (auto simp: wf_adapter_def word_less_nat_alt word_unat_eq_iff)
  obtain t where t: "gattlib_adapter_unref a s = Some (GATTLIB_SUCCESS, t)" "wf_gstate t"
    "m_adapter_list t = (if aref x = 1 then remove1 a (m_adapter_list s) else m_adapter_list s)"
    "\<forall>b \<in> set (m_adapter_list s). b \<noteq> a \<longrightarrow> adp_heap t b = adp_heap s b \<and> (\<forall>k. state_of t b k = state_of s b k)"
    using adapter_unref_wf [OF assms] x by auto
  have "distinct (m_adapter_list s)" using assms by (simp add: wf_gstate_def)
  then have mem: "b \<in> set (m_adapter_list t) \<longleftrightarrow> b \<in> set (m_adapter_list s) \<and> (b = a \<longrightarrow> aref x \<noteq> 1)" for b
    using t(3) by simp
  have "gattlib_device_get_state b k t = gattlib_device_get_state b k s" if "b \<in> set (m_adapter_list s)" "b \<noteq> a" for b k
    using t that mem get_state_state_of assms(1) by metis
  with t x ref mem assms(2) show ?thesis by simp
qed

lemma adapter_unref_spec_witness:
  "\<exists>t. gattlib_adapter_unref 1 (ex_state DISCONNECTED) = Some (GATTLIB_SUCCESS, t) \<and> 1 \<notin> set (m_adapter_list t)"
  using adapter_unref_spec [OF ex_state_wf [of DISCONNECTED], of 1] by (auto simp: ex_adapter_def)

section \<open>Operations on an attached device\<close>

lemma wf_gstate_frame [simp]:
  "wf_gstate (emit e s) = wf_gstate s"
  "wf_gstate (s\<lparr>list_heap := l\<rparr>) = wf_gstate s"
  "wf_gstate (s\<lparr>signals := g\<rparr>) = wf_gstate s"
  "wf_gstate (s\<lparr>events := es\<rparr>) = wf_gstate s"
  by (simp_all add: wf_gstate_def)

lemma attached_frame [simp]:
  "attached (emit e s) c = attached s c"
  "attached (s\<lparr>list_heap := l\<rparr>) c = attached s c"
  "attached (s\<lparr>signals := g\<rparr>) c = attached s c"
  "attached (s\<lparr>events := es\<rparr>) c = attached s c"
  "attached (s\<lparr>dev_heap := h\<rparr>) c = attached s c"
  "attached (put_device d y s) c = attached s c"
  by (simp_all add: attached_def)

lemma state_of_frame [simp]:
  "state_of (emit e s) a k = state_of s a k"
  "state_of (s\<lparr>list_heap := l\<rparr>) a k = state_of s a k"
  "state_of (s\<lparr>signals := g\<rparr>) a k = state_of s a k"
  "state_of (s\<lparr>events := es\<rparr>) a k = state_of s a k"
  by (simp_all add: state_of_def device_lookup_def cong: option.case_cong)

lemma attached_put_adapter [simp]:
  assumes "adp_heap s a = Some x" and "devices x' = devices x"
  shows "attached (put_adapter a x' s) c = attached s c"
proof -
  have "devices (the (adp_heap (put_adapter a x' s) b)) = devices (the (adp_heap s b))" for b using assms by simp
  then show ?thesis by (simp add: attached_def)
qed

lemma find_distinct_map:
  "distinct (map f xs) \<Longrightarrow> c \<in> set xs \<Longrightarrow> List.find (\<lambda>d. f d = f c) xs = Some c"
  by (induction xs) force+

lemma state_of_put_adapter:
  assumes "adp_heap s a = Some x" and "devices x' = devices x"
  shows "state_of (put_adapter a x' s) b k = state_of s b k"
  using assms by (simp add: state_of_def device_lookup_def cong: option.case_cong)

text \<open>What well-formedness says of a device that is attached.\<close>

lemma attached_device:
  assumes "wf_gstate s" "attached s c"
  obtains y where "dev_heap s c = Some y" "dadapter y \<in> set (m_adapter_list s)" "cdevice (dconnection y) = c"
    "dstate y \<noteq> NOT_FOUND" "0 < dref y" "device_lookup s (dadapter y) (device_id y) = Some c"
proof -
  obtain a x y where a: "a \<in> set (m_adapter_list s)" "adp_heap s a = Some x" "c \<in> set (devices x)"
    and x: "wf_adapter (dev_heap s) a x" and y: "dev_heap s c = Some y" "wf_device a c y"
    using attachedE [OF assms] by metis
  have low: "lower_id (dev_heap s) c = map tolower (device_id y)" using y by (simp add: lower_id_def)
  have "distinct (map (lower_id (dev_heap s)) (devices x))" using x by (simp add: wf_adapter_def)
  then have "List.find (\<lambda>d. lower_id (dev_heap s) d = lower_id (dev_heap s) c) (devices x) = Some c"
    using a(3) by (rule find_distinct_map)
  then have "device_lookup s a (device_id y) = Some c" using a low by (simp add: device_lookup_def)
  with a y that show thesis by (auto simp: wf_device_def)
qed

lemma wf_update_device:
  assumes "wf_gstate s" "attached s c" "dev_heap s c = Some y" "dadapter y' = dadapter y" "device_id y' = device_id y"
    "cdevice (dconnection y') = c" "dstate y' \<noteq> NOT_FOUND" "0 < dref y'"
  shows "wf_gstate (put_device c y' s)"
  using attached_device [OF assms(1,2)] assms wf_put_device by (metis option.inject)

lemma set_state_self:
  assumes wf: "wf_gstate s" and c: "attached s c" and y: "dev_heap s c = Some y" and new: "new \<noteq> NOT_FOUND"
  shows "gattlib_device_set_state al (Some (dadapter y)) (device_id y) new s =
    Some (GATTLIB_SUCCESS, put_device c (y\<lparr>dstate := new\<rparr>) s)"
proof -
  have a: "dadapter y \<in> set (m_adapter_list s)" and l: "device_lookup s (dadapter y) (device_id y) = Some c"
    and st: "dstate y \<noteq> NOT_FOUND"
    using attached_device [OF wf c] y by auto
  then have "state_of s (dadapter y) (device_id y) \<noteq> NOT_FOUND" using y by (simp add: state_of_def)
  with a l y new show ?thesis
    by (simp add: gattlib_device_set_state_def gattlib_adapter_is_valid_def get_state_state_of [OF wf a] get_device_lookup [OF wf a])
qed

lemma state_of_update:
  assumes wf: "wf_gstate s" and c: "attached s c" and y: "dev_heap s c = Some y" and b: "b \<in> set (m_adapter_list s)"
    and id: "device_id y' = device_id y"
  shows "state_of (put_device c y' s) b k =
    (if b = dadapter y \<and> strcaseeq k (device_id y) then dstate y' else state_of s b k)"
proof -
  have a: "dadapter y \<in> set (m_adapter_list s)" and l: "device_lookup s (dadapter y) (device_id y) = Some c"
    using attached_device [OF wf c] y by auto
  show ?thesis
    using state_of_put_device [OF y id] device_lookup_unique [OF wf a b l] by (simp add: strcaseeq_def)
qed
end
