(* ===== verification/Callbacks.thy ===== *)
theory Callbacks
  imports Registry
begin

text \<open>
  The application's callbacks: their registration (\<open>common/gattlib_common.c\<close>) and the threads that
  call them (\<open>common/gattlib_callback_*.c\<close>). A thread that releases the mutex around the
  application's callback is three definitions: the critical section before the call, the call
  (which reads the handler again, without the mutex), and the critical section after it.
\<close>

section \<open>Registration\<close>

definition gattlib_has_valid_handler :: "handler \<Rightarrow> bool" where
  "gattlib_has_valid_handler h \<longleftrightarrow> callback h \<noteq> None"

text \<open>\<open>pool\<close> is what \<open>g_thread_pool_new\<close> returns and whether it sets the error.\<close>

definition gattlib_register_notification ::
    "addr option \<Rightarrow> nat option \<Rightarrow> nat \<Rightarrow> nat option \<times> bool \<Rightarrow> gstate \<Rightarrow> i32 res" where
  "gattlib_register_notification connection notification_handler data pool s =
     (case connection of
        None \<Rightarrow> Some (GATTLIB_INVALID_PARAMETER, s)
      | Some c \<Rightarrow> do {
          valid \<leftarrow> gattlib_connection_is_valid (Some c) s;
          if \<not> valid then Some (GATTLIB_DEVICE_DISCONNECTED, s)
          else do {
            x \<leftarrow> dev_heap s c;
            let conn = dconnection x;
            let s = put_device c (x\<lparr>dconnection := conn\<lparr>notification :=
              (notification conn)\<lparr>callback := notification_handler, user_data := data, thread_pool := fst pool\<rparr>\<rparr>\<rparr>) s;
            if snd pool then Some (GATTLIB_ERROR_INTERNAL, s)
            else if fst pool = None then None
            else Some (GATTLIB_SUCCESS, s)
          }
        })"

definition gattlib_register_indication ::
    "addr option \<Rightarrow> nat option \<Rightarrow> nat \<Rightarrow> nat option \<times> bool \<Rightarrow> gstate \<Rightarrow> i32 res" where
  "gattlib_register_indication connection indication_handler data pool s =
     (case connection of
        None \<Rightarrow> Some (GATTLIB_INVALID_PARAMETER, s)
      | Some c \<Rightarrow> do {
          valid \<leftarrow> gattlib_connection_is_valid (Some c) s;
          if \<not> valid then Some (GATTLIB_DEVICE_DISCONNECTED, s)
          else do {
            x \<leftarrow> dev_heap s c;
            let conn = dconnection x;
            let s = put_device c (x\<lparr>dconnection := conn\<lparr>indication :=
              (indication conn)\<lparr>callback := indication_handler, user_data := data, thread_pool := fst pool\<rparr>\<rparr>\<rparr>) s;
            Some (if snd pool then GATTLIB_ERROR_INTERNAL else GATTLIB_SUCCESS, s)
          }
        })"

definition gattlib_register_on_disconnect :: "addr option \<Rightarrow> nat option \<Rightarrow> nat \<Rightarrow> gstate \<Rightarrow> i32 res" where
  "gattlib_register_on_disconnect connection hnd data s =
     (case connection of
        None \<Rightarrow> Some (GATTLIB_INVALID_PARAMETER, s)
      | Some c \<Rightarrow> do {
          valid \<leftarrow> gattlib_connection_is_valid (Some c) s;
          if \<not> valid then Some (GATTLIB_DEVICE_DISCONNECTED, s)
          else do {
            x \<leftarrow> dev_heap s c;
            let conn = dconnection x;
            Some (GATTLIB_SUCCESS, put_device c (x\<lparr>dconnection := conn\<lparr>on_disconnection :=
              (on_disconnection conn)\<lparr>callback := hnd, user_data := data\<rparr>\<rparr>\<rparr>) s)
          }
        })"

text \<open>The handler after it is freed, and the state.\<close>

definition gattlib_handler_free :: "handler \<Rightarrow> gstate \<Rightarrow> handler \<times> gstate" where
  "gattlib_handler_free h s =
     (if \<not> gattlib_has_valid_handler h then (h, s)
      else let h = h\<lparr>callback := None\<rparr> in
        (case thread_pool h of
           None \<Rightarrow> (h, s)
         | Some p \<Rightarrow> (h\<lparr>thread_pool := None\<rparr>, emit (Ev_pool_free p) s)))"

section \<open>Dispatch to a thread\<close>

text \<open>\<open>args\<close> is what \<open>thread_args_allocator\<close> builds (\<open>None\<close> when it dereferences a null pointer) and
  \<open>ok\<close> whether \<open>g_thread_try_new\<close> returns a thread.\<close>

definition gattlib_handler_dispatch_to_thread :: "handler \<Rightarrow> thread option \<Rightarrow> bool \<Rightarrow> gstate \<Rightarrow> gstate option" where
  "gattlib_handler_dispatch_to_thread h args ok s =
     (if \<not> gattlib_has_valid_handler h then Some s
      else do { t \<leftarrow> args; Some (if ok then emit (Ev_thread t) s else s) })"

subsection \<open>Connected device\<close>

definition gattlib_on_connected_device :: "addr \<Rightarrow> bool \<Rightarrow> gstate \<Rightarrow> gstate option" where
  "gattlib_on_connected_device c ok s = do {
     valid \<leftarrow> gattlib_connection_is_valid (Some c) s;
     if \<not> valid then Some s
     else do {
       x \<leftarrow> dev_heap s c;
       gattlib_handler_dispatch_to_thread (on_connection (dconnection x)) (Some (Th_connected c)) ok s
     }
   }"

text \<open>The section up to the unlock; the answer is whether the callback is to be called.\<close>

definition gattlib_connected_device_thread_enter :: "addr \<Rightarrow> gstate \<Rightarrow> bool res" where
  "gattlib_connected_device_thread_enter c s = do {
     x \<leftarrow> dev_heap s c;
     connected \<leftarrow> gattlib_connection_is_connected (Some c) s;
     if \<not> connected then do { _ \<leftarrow> dev_heap s (cdevice (dconnection x)); Some (False, s) }
     else if \<not> gattlib_has_valid_handler (on_connection (dconnection x)) then Some (False, s)
     else do {
       (_, s) \<leftarrow> gattlib_device_ref (cdevice (dconnection x)) s;
       Some (True, s)
     }
   }"

definition gattlib_connected_device_thread_call :: "addr \<Rightarrow> string option \<Rightarrow> gstate \<Rightarrow> gstate option" where
  "gattlib_connected_device_thread_call c device_mac_address s = do {
     x \<leftarrow> dev_heap s c;
     let h = on_connection (dconnection x);
     dev \<leftarrow> dev_heap s (cdevice (dconnection x));
     f \<leftarrow> callback h;
     Some (emit (Ev_connected f (Some (dadapter dev)) device_mac_address (Some c) 0 (user_data h)) s)
   }"

definition gattlib_connected_device_thread_leave :: "addr \<Rightarrow> gstate \<Rightarrow> gstate option" where
  "gattlib_connected_device_thread_leave c s = do {
     x \<leftarrow> dev_heap s c;
     (_, s) \<leftarrow> gattlib_device_unref (cdevice (dconnection x)) s;
     Some s
   }"

subsection \<open>Discovered device\<close>

text \<open>The address and the name are those of the BlueZ device; \<open>strdup\<close> of a null address is
  undefined, as is the use of the arguments when \<open>calloc\<close> fails.\<close>

definition discovered_device_thread_args_allocator ::
    "addr \<Rightarrow> string option \<Rightarrow> string option \<Rightarrow> bool \<Rightarrow> thread option" where
  "discovered_device_thread_args_allocator a address device_name calloc_ok =
     (if \<not> calloc_ok then None else do { m \<leftarrow> address; Some (Th_discovered a m device_name) })"

definition gattlib_on_discovered_device ::
    "addr \<Rightarrow> string option \<Rightarrow> string option \<Rightarrow> bool \<Rightarrow> bool \<Rightarrow> gstate \<Rightarrow> gstate option" where
  "gattlib_on_discovered_device a address device_name calloc_ok ok s =
     (if \<not> gattlib_adapter_is_valid (Some a) s then Some s
      else do {
        x \<leftarrow> adp_heap s a;
        gattlib_handler_dispatch_to_thread (discovered_device_callback x)
          (discovered_device_thread_args_allocator a address device_name calloc_ok) ok s
      })"

definition gattlib_discovered_device_thread_enter :: "addr \<Rightarrow> gstate \<Rightarrow> bool res" where
  "gattlib_discovered_device_thread_enter a s =
     (if \<not> gattlib_adapter_is_valid (Some a) s then Some (False, s)
      else do {
        x \<leftarrow> adp_heap s a;
        if \<not> gattlib_has_valid_handler (discovered_device_callback x) then Some (False, s)
        else do { (_, s) \<leftarrow> gattlib_adapter_ref a s; Some (True, s) }
      })"

definition gattlib_discovered_device_thread_call :: "addr \<Rightarrow> string \<Rightarrow> string option \<Rightarrow> gstate \<Rightarrow> gstate option" where
  "gattlib_discovered_device_thread_call a mac_address name s = do {
     x \<leftarrow> adp_heap s a;
     f \<leftarrow> callback (discovered_device_callback x);
     Some (emit (Ev_discovered f a mac_address name (user_data (discovered_device_callback x))) s)
   }"

definition gattlib_discovered_device_thread_leave :: "addr \<Rightarrow> gstate \<Rightarrow> gstate option" where
  "gattlib_discovered_device_thread_leave a s = do {
     (_, s) \<leftarrow> gattlib_adapter_unref a s;
     Some s
   }"

subsection \<open>Notification\<close>

text \<open>The copies of the UUID and of the data are null when their allocation fails.\<close>

definition notification_device_thread_args_allocator ::
    "nat \<Rightarrow> addr \<Rightarrow> uuid \<Rightarrow> u8 list \<Rightarrow> u64 \<Rightarrow> bool \<Rightarrow> bool \<Rightarrow> thread" where
  "notification_device_thread_args_allocator pool c u data len uuid_ok data_ok =
     Th_notification pool c (if uuid_ok then Some u else None)
       (if data_ok then Some (take (unat len) data) else None) len"

definition gattlib_on_gatt_notification ::
    "addr \<Rightarrow> uuid \<Rightarrow> u8 list \<Rightarrow> u64 \<Rightarrow> bool \<Rightarrow> bool \<Rightarrow> gstate \<Rightarrow> gstate option" where
  "gattlib_on_gatt_notification c u data len uuid_ok data_ok s = do {
     x \<leftarrow> dev_heap s c;
     pool \<leftarrow> thread_pool (notification (dconnection x));
     Some (emit (Ev_thread (notification_device_thread_args_allocator pool c u data len uuid_ok data_ok)) s)
   }"

text \<open>\<open>sel\<close> is the handler of the connection that the pool was created with.\<close>

definition gattlib_notification_device_thread ::
    "(connection \<Rightarrow> handler) \<Rightarrow> addr \<Rightarrow> uuid option \<Rightarrow> u8 list option \<Rightarrow> u64 \<Rightarrow> gstate \<Rightarrow> gstate option" where
  "gattlib_notification_device_thread sel c u data len s = do {
     connected \<leftarrow> gattlib_connection_is_connected (Some c) s;
     if \<not> connected then Some s
     else do {
       x \<leftarrow> dev_heap s c;
       f \<leftarrow> callback (sel (dconnection x));
       Some (emit (Ev_notification f u data len (user_data (sel (dconnection x)))) s)
     }
   }"

section \<open>Lemmas\<close>

lemma register_notification_attached:
  assumes "wf_gstate s" and "attached s c" and "dev_heap s c = Some y"
  shows "gattlib_register_notification (Some c) f u (Some p, False) s =
    Some (GATTLIB_SUCCESS, put_device c (y\<lparr>dconnection := (dconnection y)\<lparr>notification :=
      (notification (dconnection y))\<lparr>callback := f, user_data := u, thread_pool := Some p\<rparr>\<rparr>\<rparr>) s)"
  using assms by (simp add: gattlib_register_notification_def connection_is_valid_wf Let_def)

lemma register_detached:
  assumes "wf_gstate s" and "\<not> attached s c"
  shows "gattlib_register_notification (Some c) f u pool s = Some (GATTLIB_DEVICE_DISCONNECTED, s)"
    and "gattlib_register_indication (Some c) f u pool s = Some (GATTLIB_DEVICE_DISCONNECTED, s)"
    and "gattlib_register_on_disconnect (Some c) f u s = Some (GATTLIB_DEVICE_DISCONNECTED, s)"
  using assms by (simp_all add: gattlib_register_notification_def gattlib_register_indication_def
    gattlib_register_on_disconnect_def connection_is_valid_wf)

lemma wf_put_handler:
  assumes "wf_gstate s" "attached s c" "dev_heap s c = Some y" "cdevice conn = cdevice (dconnection y)"
  shows "wf_gstate (put_device c (y\<lparr>dconnection := conn\<rparr>) s)"
  using attached_device [OF assms(1,2)] assms by (intro wf_update_device [OF assms(1,2,3)]) auto

section \<open>Properties\<close>



text \<open>The thread of the connection callback runs the callback only between taking and
  dropping a reference on the device: whatever another thread does to the registry in
  between, as long as the device object is not freed and keeps the reference, the callback is
  called with the device's adapter and the section after it drops exactly that reference.\<close>

theorem connected_thread_reference:
  assumes "wf_gstate s" and "attached s c" and "dev_heap s c = Some y" and "dref y + 1 \<noteq> 0"
    and "callback (on_connection (dconnection y)) = Some f"
  shows "gattlib_connected_device_thread_enter c s =
      Some (if dstate y = CONNECTED then (True, put_device c (y\<lparr>dref := dref y + 1\<rparr>) s) else (False, s))
    \<and> (\<forall>(w :: gstate) z. dev_heap w c = Some z \<and> on_connection (dconnection z) = on_connection (dconnection y)
         \<and> cdevice (dconnection z) = c \<and> 1 < dref z \<longrightarrow>
        gattlib_connected_device_thread_call c mac w =
          Some (emit (Ev_connected f (Some (dadapter z)) mac (Some c) 0 (user_data (on_connection (dconnection y)))) w)
        \<and> gattlib_connected_device_thread_leave c w = Some (put_device c (z\<lparr>dref := dref z - 1\<rparr>) w))"
proof (intro conjI allI impI)
  have "cdevice (dconnection y) = c" using attached_device [OF assms(1,2)] assms(3) by (metis option.inject)
  then show "gattlib_connected_device_thread_enter c s =
      Some (if dstate y = CONNECTED then (True, put_device c (y\<lparr>dref := dref y + 1\<rparr>) s) else (False, s))"
    using assms by (simp add: gattlib_connected_device_thread_enter_def connection_is_connected_wf connected_def
      gattlib_has_valid_handler_def gattlib_device_ref_def)
next
  fix w :: gstate and z
  assume z: "dev_heap w c = Some z \<and> on_connection (dconnection z) = on_connection (dconnection y)
         \<and> cdevice (dconnection z) = c \<and> 1 < dref z"
  then show "gattlib_connected_device_thread_call c mac w =
          Some (emit (Ev_connected f (Some (dadapter z)) mac (Some c) 0 (user_data (on_connection (dconnection y)))) w)"
    using assms(5) by (simp add: gattlib_connected_device_thread_call_def Let_def)
  have "0 < dref z - 1" using z by unat_arith
  with z show "gattlib_connected_device_thread_leave c w = Some (put_device c (z\<lparr>dref := dref z - 1\<rparr>) w)"
    by (simp add: gattlib_connected_device_thread_leave_def gattlib_device_unref_def)
qed

lemma connected_thread_reference_witness:
  "gattlib_connected_device_thread_enter 2 (put_device 2 ((ex_device CONNECTED)\<lparr>dconnection :=
      (connection_init 2)\<lparr>on_connection := handler_init\<lparr>callback := Some 7\<rparr>\<rparr>\<rparr>) (ex_state CONNECTED))
   = Some (True, put_device 2 ((ex_device CONNECTED)\<lparr>dref := 2, dconnection :=
      (connection_init 2)\<lparr>on_connection := handler_init\<lparr>callback := Some 7\<rparr>\<rparr>\<rparr>) (ex_state CONNECTED))"
proof -
  let ?y = "(ex_device CONNECTED)\<lparr>dconnection := (connection_init 2)\<lparr>on_connection := handler_init\<lparr>callback := Some 7\<rparr>\<rparr>\<rparr>"
  let ?s = "put_device 2 ?y (ex_state CONNECTED)"
  have at: "attached (ex_state CONNECTED) 2" by (simp add: attached_def ex_adapter_def)
  have "wf_gstate ?s"
    by (rule wf_put_handler [OF ex_state_wf at]) (simp_all add: ex_device_def connection_init_def)
  from connected_thread_reference [OF this, of 2 ?y 7 None] at show ?thesis
    by (simp add: ex_device_def put_device_def)
qed
end
