(* ===== verification/Adapter.thy ===== *)
theory Adapter
  imports Callbacks
begin

text \<open>
  The Bluetooth adapter: opening and closing, the BLE scan and the D-Bus signals it listens to
  (\<open>dbus/gattlib_adapter.c\<close>), and the Eddystone scan (\<open>common/gattlib_eddystone.c\<close>).
  Functions that release the mutex midway (open, close, the blocking scan, the scan loop thread)
  are one definition per critical section; between them the thread waits until
  \<open>gattlib_adapter_is_scanning\<close> answers false.
\<close>

section \<open>Open\<close>

definition GATTLIB_DEFAULT_ADAPTER :: string where "GATTLIB_DEFAULT_ADAPTER = ''hci0''"

definition adapter_name_or_default :: "string option \<Rightarrow> string" where
  "adapter_name_or_default adapter_name = (case adapter_name of None \<Rightarrow> GATTLIB_DEFAULT_ADAPTER | Some n \<Rightarrow> n)"

text \<open>The path is printed into a buffer of 20 bytes.\<close>

definition adapter_object_path :: "string option \<Rightarrow> string" where
  "adapter_object_path adapter_name = the (snprintf 20 (''/org/bluez/'' @ adapter_name_or_default adapter_name))"

text \<open>The first critical section: an adapter that is already open is referenced again.\<close>

definition gattlib_adapter_open_lookup :: "string option \<Rightarrow> gstate \<Rightarrow> (addr option) res" where
  "gattlib_adapter_open_lookup adapter_name s = do {
     found \<leftarrow> gattlib_adapter_from_id (adapter_object_path adapter_name) s;
     case found of
       None \<Rightarrow> Some (None, s)
     | Some a \<Rightarrow> do { (_, s) \<leftarrow> gattlib_adapter_ref a s; Some (Some a, s) }
   }"

text \<open>The rest: \<open>proxy\<close> is the result of \<open>org_bluez_adapter1_proxy_new_for_bus_sync\<close>.\<close>

definition gattlib_adapter_open_create ::
    "string option \<Rightarrow> gerror option + nat \<Rightarrow> addr option \<Rightarrow> gstate \<Rightarrow> i32 \<times> addr option \<times> gstate" where
  "gattlib_adapter_open_create adapter_name proxy alloc s = (case proxy of
       Inl None \<Rightarrow> (GATTLIB_ERROR_DBUS, None, s)
     | Inl (Some e) \<Rightarrow> (GATTLIB_ERROR_DBUS_WITH_ERROR e, None, s)
     | Inr p \<Rightarrow>
        (let s = emit (Ev_set_powered p) s in
         case alloc of
           None \<Rightarrow> (GATTLIB_OUT_OF_MEMORY, None, s)
         | Some a \<Rightarrow>
            (let s = put_adapter a \<lparr>device_manager = None, adapter_proxy = Some p, scan = ble_scan_init,
                       aid = adapter_object_path adapter_name, aname = adapter_name_or_default adapter_name,
                       aref = 1, devices = [], discovered_device_callback = handler_init\<rparr> s
             in (GATTLIB_SUCCESS, Some a, s\<lparr>m_adapter_list := m_adapter_list s @ [a]\<rparr>))))"

text \<open>The two sections with no step of another thread between them.\<close>

definition gattlib_adapter_open ::
    "string option \<Rightarrow> gerror option + nat \<Rightarrow> addr option \<Rightarrow> gstate \<Rightarrow> (i32 \<times> addr option) res" where
  "gattlib_adapter_open adapter_name proxy alloc s = do {
     (found, s) \<leftarrow> gattlib_adapter_open_lookup adapter_name s;
     case found of
       Some a \<Rightarrow> Some ((GATTLIB_SUCCESS, Some a), s)
     | None \<Rightarrow> (case gattlib_adapter_open_create adapter_name proxy alloc s of (r, a, s) \<Rightarrow> Some ((r, a), s))
   }"

definition gattlib_adapter_get_name :: "addr \<Rightarrow> gstate \<Rightarrow> string option" where
  "gattlib_adapter_get_name a s = do { x \<leftarrow> adp_heap s a; Some (aname x) }"

definition init_default_adapter :: "gerror option + nat \<Rightarrow> addr option \<Rightarrow> gstate \<Rightarrow> (addr option) res" where
  "init_default_adapter proxy alloc s = do {
     ((r, a), s) \<leftarrow> gattlib_adapter_open None proxy alloc s;
     Some (if r \<noteq> GATTLIB_SUCCESS then None else a, s)
   }"

text \<open>\<open>dm\<close> is the result of \<open>g_dbus_object_manager_client_new_for_bus_sync\<close>.\<close>

definition get_device_manager_from_adapter ::
    "addr \<Rightarrow> gerror option + nat \<Rightarrow> gstate \<Rightarrow> (gerror option + nat) res" where
  "get_device_manager_from_adapter a dm s = do {
     x \<leftarrow> adp_heap s a;
     case device_manager x of
       Some m \<Rightarrow> Some (Inr m, s)
     | None \<Rightarrow> (case dm of
           Inl e \<Rightarrow> Some (Inl e, s)
         | Inr m \<Rightarrow> Some (Inr m, put_adapter a (x\<lparr>device_manager := Some m\<rparr>) s))
   }"

section \<open>D-Bus signals\<close>

text \<open>What a signal handler meets outside the library: what \<open>calloc\<close> returns for the device,
  whether it serves the thread's arguments, and whether the thread starts.\<close>

record signal_env =
  device_alloc :: "addr option"
  args_calloc_ok :: bool
  thread_ok :: bool

text \<open>\<open>device1\<close> is the proxy of the BlueZ device: its address and its name, each null or a string.\<close>

definition discovered_device_new ::
    "addr \<Rightarrow> string \<Rightarrow> string option \<times> string option \<Rightarrow> signal_env \<Rightarrow> gstate \<Rightarrow> gstate option" where
  "discovered_device_new a path device1 env s = do {
     (ret, s) \<leftarrow> gattlib_device_set_state (device_alloc env) (Some a) path DISCONNECTED s;
     if ret = GATTLIB_SUCCESS
     then gattlib_on_discovered_device a (fst device1) (snd device1) (args_calloc_ok env) (thread_ok env) s
     else Some s
   }"

definition device_manager_on_added_device1_signal ::
    "string \<Rightarrow> addr \<Rightarrow> (string option \<times> string option) option \<Rightarrow> signal_env \<Rightarrow> gstate \<Rightarrow> gstate option" where
  "device_manager_on_added_device1_signal device1_path a device1 env s = (case device1 of
       None \<Rightarrow> Some s
     | Some dev \<Rightarrow>
         if fst dev = None then Some s
         else if \<not> gattlib_adapter_is_valid (Some a) s then Some s
         else discovered_device_new a device1_path dev env s)"

definition on_dbus_object_added ::
    "string \<Rightarrow> bool \<Rightarrow> addr \<Rightarrow> (string option \<times> string option) option \<Rightarrow> signal_env \<Rightarrow> gstate \<Rightarrow> gstate option" where
  "on_dbus_object_added object_path has_device1_interface a device1 env s =
     (if \<not> has_device1_interface then Some s
      else device_manager_on_added_device1_signal object_path a device1 env s)"

definition on_dbus_object_removed :: "string \<Rightarrow> addr \<Rightarrow> gstate \<Rightarrow> gstate option" where
  "on_dbus_object_removed object_path a s = do {
     (_, s) \<leftarrow> gattlib_device_set_state None (Some a) object_path NOT_FOUND s;
     Some s
   }"

text \<open>\<open>Inl\<close> when the proxy of the device cannot be made.\<close>

definition on_interface_proxy_properties_changed ::
    "string \<Rightarrow> string \<Rightarrow> bool \<Rightarrow> bool \<Rightarrow> addr \<Rightarrow> unit + string option \<times> string option \<Rightarrow> signal_env \<Rightarrow> gstate \<Rightarrow> gstate option" where
  "on_interface_proxy_properties_changed interface_name proxy_object_path has_rssi has_manufacturer_data a device1 env s =
     (if \<not> gattlib_adapter_is_valid (Some a) s then Some s
      else do {
        x \<leftarrow> adp_heap s a;
        if device_manager x = None then Some s
        else if interface_name \<noteq> ''org.bluez.Device1'' then Some s
        else (case device1 of
            Inl _ \<Rightarrow> Some s
          | Inr dev \<Rightarrow> do {
              old_device_state \<leftarrow> gattlib_device_get_state a proxy_object_path s;
              if old_device_state = NOT_FOUND \<and> (has_rssi \<or> has_manufacturer_data)
              then discovered_device_new a proxy_object_path dev env s
              else Some s
            })
      })"

section \<open>Scan\<close>

definition signal_stop_scanning :: "gstate \<Rightarrow> gstate" where
  "signal_stop_scanning s = emit Ev_broadcast (s\<lparr>signals := signals s OR GATTLIB_SIGNAL_ADAPTER_STOP_SCANNING\<rparr>)"

definition set_scan :: "addr \<Rightarrow> adapter \<Rightarrow> ble_scan \<Rightarrow> gstate \<Rightarrow> gstate" where
  "set_scan a x sc s = put_adapter a (x\<lparr>scan := sc\<rparr>) s"

definition stop_scan_on_timeout :: "addr \<Rightarrow> gstate \<Rightarrow> gstate option" where
  "stop_scan_on_timeout a s =
     (if \<not> gattlib_adapter_is_valid (Some a) s then Some s
      else do {
        x \<leftarrow> adp_heap s a;
        let s = (if is_scanning (scan x) then signal_stop_scanning s else s);
        Some (set_scan a x ((scan x)\<lparr>is_scanning := False, ble_scan_timeout_id := 0\<rparr>) s)
      })"

text \<open>\<open>discovering\<close> is the property of the BlueZ adapter, \<open>error\<close> the outcome of StopDiscovery.\<close>

definition gattlib_adapter_scan_disable :: "addr \<Rightarrow> bool \<Rightarrow> gerror option \<Rightarrow> gstate \<Rightarrow> i32 res" where
  "gattlib_adapter_scan_disable a discovering error s =
     (if \<not> gattlib_adapter_is_valid (Some a) s then Some (GATTLIB_ADAPTER_CLOSE, s)
      else do {
        x \<leftarrow> adp_heap s a;
        case adapter_proxy x of
          None \<Rightarrow> Some (GATTLIB_NO_ADAPTER, s)
        | Some p \<Rightarrow>
            if \<not> discovering then Some (GATTLIB_SUCCESS, s)
            else if \<not> is_scanning (scan x) then Some (GATTLIB_SUCCESS, s)
            else
              let s = emit (Ev_stop_discovery p) s in
              if (case error of None \<Rightarrow> False | Some e \<Rightarrow> (domain e = 238 \<or> domain e = 239) \<and> code e = 36)
              then Some (GATTLIB_SUCCESS, s)
              else
                let (h, s) = gattlib_handler_free (discovered_device_callback x) s;
                    sc = scan x;
                    s = (if is_scanning sc then signal_stop_scanning s else s);
                    s = (if ble_scan_timeout_id sc \<noteq> 0 then emit (Ev_source_remove (ble_scan_timeout_id sc)) s else s)
                in Some (GATTLIB_SUCCESS,
                     put_adapter a (x\<lparr>scan := sc\<lparr>is_scanning := False, ble_scan_timeout_id := 0\<rparr>,
                                      discovered_device_callback := h\<rparr>) s)
      })"

text \<open>The scan loop thread up to its wait; the answer is whether it waits.\<close>

definition ble_scan_loop_thread_enter :: "addr \<Rightarrow> u32 \<Rightarrow> gstate \<Rightarrow> bool res" where
  "ble_scan_loop_thread_enter a timeout_id s =
     (if \<not> gattlib_adapter_is_valid (Some a) s then Some (False, s)
      else do {
        x \<leftarrow> adp_heap s a;
        let sc = (scan x)\<lparr>is_scanning := True\<rparr>;
        let sc = (if 0 < ble_scan_timeout sc then sc\<lparr>ble_scan_timeout_id := timeout_id\<rparr> else sc);
        Some (True, set_scan a x sc s)
      })"

definition ble_scan_loop_thread_leave :: "addr \<Rightarrow> bool \<Rightarrow> gerror option \<Rightarrow> gstate \<Rightarrow> gstate option" where
  "ble_scan_loop_thread_leave a discovering error s =
     (if \<not> gattlib_adapter_is_valid (Some a) s then Some s
      else do {
        x \<leftarrow> adp_heap s a;
        let s = emit (Ev_signal_disconnect (device_manager x) (scast (added_signal_id (scan x)))) s;
        let s = emit (Ev_signal_disconnect (device_manager x) (scast (removed_signal_id (scan x)))) s;
        let s = emit (Ev_signal_disconnect (device_manager x) (scast (changed_signal_id (scan x)))) s;
        (_, s) \<leftarrow> gattlib_adapter_scan_disable a discovering error s;
        Some s
      })"

subsection \<open>Enable\<close>

definition GATTLIB_DISCOVER_FILTER_USE_NONE :: u32 where "GATTLIB_DISCOVER_FILTER_USE_NONE = 0"
definition GATTLIB_DISCOVER_FILTER_USE_UUID :: u32 where "GATTLIB_DISCOVER_FILTER_USE_UUID = push_bit 0 1"
definition GATTLIB_DISCOVER_FILTER_USE_RSSI :: u32 where "GATTLIB_DISCOVER_FILTER_USE_RSSI = push_bit 1 1"

text \<open>The strings of the UUID filter, each printed into a buffer of \<open>MAX_LEN_UUID_STR + 1\<close> bytes.\<close>

definition filter_uuid_strings :: "uuid list \<Rightarrow> string list" where
  "filter_uuid_strings uuid_list = map (\<lambda>u. the (snd (gattlib_uuid_to_string u 38))) uuid_list"

text \<open>The outcome of each D-Bus call of the set-up, and the three signal handler ids.\<close>

record scan_env =
  set_filter_error :: "gerror option"
  new_device_manager :: "gerror option + nat"
  signal_ids :: "u64 \<times> u64 \<times> u64"
  start_discovery_error :: "gerror option"
  scan_thread :: "nat option"

text \<open>The set-up from the device manager on, for the adapter \<open>a\<close> with the proxy \<open>p\<close>.\<close>

definition adapter_scan_begin ::
    "addr \<Rightarrow> nat \<Rightarrow> u32 \<Rightarrow> nat option \<Rightarrow> u64 \<Rightarrow> nat \<Rightarrow> scan_env \<Rightarrow> gstate \<Rightarrow> i32 res" where
  "adapter_scan_begin a p filters cb timeout data env s = do {
     (dm, s) \<leftarrow> get_device_manager_from_adapter a (new_device_manager env) s;
     case dm of
       Inl e \<Rightarrow> Some (case e of Some e \<Rightarrow> GATTLIB_ERROR_DBUS_WITH_ERROR e | None \<Rightarrow> GATTLIB_ERROR_DBUS, s)
     | Inr m \<Rightarrow> do {
         x \<leftarrow> adp_heap s a;
         let sc = ble_scan_init\<lparr>enabled_filters := filters, ble_scan_timeout := timeout,
              added_signal_id := ucast (fst (signal_ids env)),
              removed_signal_id := ucast (fst (snd (signal_ids env))),
              changed_signal_id := ucast (snd (snd (signal_ids env)))\<rparr>;
         let s = put_adapter a (x\<lparr>scan := sc, discovered_device_callback :=
              (discovered_device_callback x)\<lparr>callback := cb, user_data := data\<rparr>\<rparr>) s;
         let s = emit (Ev_start_discovery p) s;
         case start_discovery_error env of
           Some e \<Rightarrow> Some (GATTLIB_ERROR_DBUS_WITH_ERROR e, s)
         | None \<Rightarrow> Some (GATTLIB_SUCCESS, s)
       }
   }"

definition adapter_scan_setup ::
    "addr option \<Rightarrow> uuid list option \<Rightarrow> 16 word \<Rightarrow> u32 \<Rightarrow> nat option \<Rightarrow> u64 \<Rightarrow> nat \<Rightarrow> scan_env \<Rightarrow> gstate \<Rightarrow> i32 res" where
  "adapter_scan_setup adapter uuid_list rssi_threshold filters cb timeout data env s = (case adapter of
       None \<Rightarrow> Some (GATTLIB_NO_ADAPTER, s)
     | Some a \<Rightarrow> do {
         x \<leftarrow> adp_heap s a;
         case adapter_proxy x of
           None \<Rightarrow> Some (GATTLIB_NO_ADAPTER, s)
         | Some p \<Rightarrow>
             if filters AND GATTLIB_DISCOVER_FILTER_USE_UUID \<noteq> 0 \<and> uuid_list = None
             then Some (GATTLIB_INVALID_PARAMETER, s)
             else do {
               let uuids = (if filters AND GATTLIB_DISCOVER_FILTER_USE_UUID \<noteq> 0
                            then Some (filter_uuid_strings (the uuid_list)) else None);
               let s = emit (Ev_set_discovery_filter p uuids
                          (if filters AND GATTLIB_DISCOVER_FILTER_USE_RSSI \<noteq> 0 then Some rssi_threshold else None)) s;
               case set_filter_error env of
                 Some e \<Rightarrow> Some (GATTLIB_ERROR_DBUS_WITH_ERROR e, s)
               | None \<Rightarrow> adapter_scan_begin a p filters cb timeout data env s
             }
       })"

text \<open>Starting the scan loop thread; a thread that starts is unreferenced at once.\<close>

definition adapter_scan_start_thread :: "addr \<Rightarrow> scan_env \<Rightarrow> gstate \<Rightarrow> i32 res" where
  "adapter_scan_start_thread a env s = do {
     x \<leftarrow> adp_heap s a;
     let s = set_scan a x ((scan x)\<lparr>scan_loop_thread := None\<rparr>) s;
     case scan_thread env of
       None \<Rightarrow> Some (GATTLIB_ERROR_INTERNAL, s)
     | Some t \<Rightarrow> Some (GATTLIB_SUCCESS, emit (Ev_unref t) (emit (Ev_thread (Th_scan_loop a)) s))
   }"

text \<open>The blocking scan up to its wait (it waits when the answer is success), and after it.\<close>

definition gattlib_adapter_scan_enable_with_filter_enter ::
    "addr option \<Rightarrow> uuid list option \<Rightarrow> 16 word \<Rightarrow> u32 \<Rightarrow> nat option \<Rightarrow> u64 \<Rightarrow> nat \<Rightarrow> scan_env \<Rightarrow> gstate \<Rightarrow> i32 res" where
  "gattlib_adapter_scan_enable_with_filter_enter adapter uuid_list rssi_threshold filters cb timeout data env s =
     (if \<not> gattlib_adapter_is_valid adapter s then Some (GATTLIB_ADAPTER_CLOSE, s)
      else do {
        (ret, s) \<leftarrow> adapter_scan_setup adapter uuid_list rssi_threshold filters cb timeout data env s;
        if ret \<noteq> GATTLIB_SUCCESS then Some (ret, s)
        else do {
          a \<leftarrow> adapter;
          x \<leftarrow> adp_heap s a;
          adapter_scan_start_thread a env (set_scan a x ((scan x)\<lparr>is_scanning := True\<rparr>) s)
        }
      })"

definition gattlib_adapter_scan_enable_with_filter_leave :: "addr \<Rightarrow> gstate \<Rightarrow> i32 res" where
  "gattlib_adapter_scan_enable_with_filter_leave a s =
     (if \<not> gattlib_adapter_is_valid (Some a) s then Some (GATTLIB_ADAPTER_CLOSE, s)
      else do {
        x \<leftarrow> adp_heap s a;
        case scan_loop_thread (scan x) of
          None \<Rightarrow> Some (GATTLIB_SUCCESS, s)
        | Some t \<Rightarrow> Some (GATTLIB_SUCCESS, set_scan a x ((scan x)\<lparr>scan_loop_thread := None\<rparr>) (emit (Ev_unref t) s))
      })"

definition gattlib_adapter_scan_enable_with_filter_non_blocking ::
    "addr option \<Rightarrow> uuid list option \<Rightarrow> 16 word \<Rightarrow> u32 \<Rightarrow> nat option \<Rightarrow> u64 \<Rightarrow> nat \<Rightarrow> scan_env \<Rightarrow> gstate \<Rightarrow> i32 res" where
  "gattlib_adapter_scan_enable_with_filter_non_blocking adapter uuid_list rssi_threshold filters cb timeout data env s =
     (if \<not> gattlib_adapter_is_valid adapter s then Some (GATTLIB_ADAPTER_CLOSE, s)
      else do {
        (ret, s) \<leftarrow> adapter_scan_setup adapter uuid_list rssi_threshold filters cb timeout data env s;
        if ret \<noteq> GATTLIB_SUCCESS then Some (ret, s)
        else do { a \<leftarrow> adapter; adapter_scan_start_thread a env s }
      })"

definition gattlib_adapter_scan_enable_enter ::
    "addr option \<Rightarrow> nat option \<Rightarrow> u64 \<Rightarrow> nat \<Rightarrow> scan_env \<Rightarrow> gstate \<Rightarrow> i32 res" where
  "gattlib_adapter_scan_enable_enter adapter cb timeout data env s =
     gattlib_adapter_scan_enable_with_filter_enter adapter None 0 GATTLIB_DISCOVER_FILTER_USE_NONE cb timeout data env s"

definition gattlib_adapter_still_scanning :: "addr \<Rightarrow> gstate \<Rightarrow> bool option" where
  "gattlib_adapter_still_scanning a s = do { x \<leftarrow> adp_heap s a; Some (is_scanning (scan x)) }"

section \<open>Close\<close>

text \<open>
  Up to the wait for the scan loop: \<open>Inl ret\<close> when the function is done, \<open>Inr thread\<close> when it
  goes on to wait. \<open>g_thread_ref\<close> of a null thread is undefined.
\<close>

definition gattlib_adapter_close_enter :: "addr option \<Rightarrow> bool \<Rightarrow> gerror option \<Rightarrow> gstate \<Rightarrow> (i32 + nat) res" where
  "gattlib_adapter_close_enter adapter discovering error s =
     (case adapter of None \<Rightarrow> Some (Inl GATTLIB_ADAPTER_CLOSE, s) | Some a \<Rightarrow>
      if \<not> gattlib_adapter_is_valid adapter s then Some (Inl GATTLIB_ADAPTER_CLOSE, s)
      else do {
        are_devices_disconnected \<leftarrow> gattlib_devices_are_disconnected a s;
        if \<not> are_devices_disconnected then Some (Inl GATTLIB_BUSY, s)
        else do {
          x \<leftarrow> adp_heap s a;
          if is_scanning (scan x) then do {
            (_, s) \<leftarrow> gattlib_adapter_scan_disable a discovering error s;
            x \<leftarrow> adp_heap s a;
            t \<leftarrow> scan_loop_thread (scan x);
            Some (Inr t, s)
          } else do {
            (_, s) \<leftarrow> gattlib_adapter_unref a s;
            Some (Inl GATTLIB_SUCCESS, s)
          }
        }
      })"

definition gattlib_adapter_close_leave :: "addr \<Rightarrow> nat \<Rightarrow> gstate \<Rightarrow> i32 res" where
  "gattlib_adapter_close_leave a thread s = do {
     _ \<leftarrow> adp_heap s a;
     (_, s) \<leftarrow> gattlib_adapter_unref a (emit (Ev_unref thread) s);
     Some (GATTLIB_SUCCESS, s)
   }"

section \<open>Eddystone\<close>

definition EDDYSTONE_SERVICE_UUID :: string where
  "EDDYSTONE_SERVICE_UUID = ''0000FEAA-0000-1000-8000-00805F9B34FB''"

definition GATTLIB_EDDYSTONE_LIMIT_RSSI :: u32 where "GATTLIB_EDDYSTONE_LIMIT_RSSI = push_bit 4 1"

definition gattlib_adapter_scan_eddystone_enter ::
    "addr option \<Rightarrow> 16 word \<Rightarrow> u32 \<Rightarrow> nat \<Rightarrow> u64 \<Rightarrow> nat \<Rightarrow> scan_env \<Rightarrow> gstate \<Rightarrow> i32 res" where
  "gattlib_adapter_scan_eddystone_enter adapter rssi_threshold eddystone_types on_discovered timeout callback_data env s =
     (case gattlib_string_to_uuid EDDYSTONE_SERVICE_UUID of
        Inl _ \<Rightarrow> Some (GATTLIB_ERROR_INTERNAL, s)
      | Inr eddystone_uuid \<Rightarrow>
          gattlib_adapter_scan_enable_with_filter_enter adapter (Some [eddystone_uuid]) rssi_threshold
            (GATTLIB_DISCOVER_FILTER_USE_UUID OR
              (if eddystone_types AND GATTLIB_EDDYSTONE_LIMIT_RSSI \<noteq> 0 then GATTLIB_DISCOVER_FILTER_USE_RSSI else 0))
            (Some on_discovered) timeout callback_data env s)"

section \<open>Main loop\<close>

text \<open>\<open>common/mainloop/gattlib_glib_mainloop.c\<close>: the value of \<open>m_main_loop\<close>, the loop that
  \<open>g_main_loop_new\<close> returns, and whether the task's thread starts. The answer is the return code
  and the value of \<open>m_main_loop\<close> afterwards.\<close>

definition gattlib_mainloop :: "nat option \<Rightarrow> nat option \<Rightarrow> bool \<Rightarrow> i32 \<times> nat option" where
  "gattlib_mainloop m_main_loop new_loop thread_started =
     (if m_main_loop \<noteq> None then (GATTLIB_BUSY, m_main_loop)
      else if \<not> thread_started then (GATTLIB_UNEXPECTED, new_loop)
      else (GATTLIB_SUCCESS, None))"

section \<open>Lemmas\<close>

definition with_path :: "string \<Rightarrow> gstate \<Rightarrow> addr \<Rightarrow> bool" where
  "with_path p s a \<longleftrightarrow> a \<in> set (m_adapter_list s) \<and> strcaseeq (aid (the (adp_heap s a))) p"

lemma find_adapter_id_find:
  "\<forall>a \<in> set as. h a \<noteq> None \<Longrightarrow> find_adapter_id h as key = Some (List.find (\<lambda>a. strcaseeq (aid (the (h a))) key) as)"
  by (induction as) auto

lemma adapter_from_id_wf:
  assumes "wf_gstate s"
  obtains "gattlib_adapter_from_id key s = Some None" "\<forall>a. \<not> with_path key s a"
  | a where "gattlib_adapter_from_id key s = Some (Some a)" "with_path key s a"
proof -
  have e: "gattlib_adapter_from_id key s = Some (List.find (\<lambda>a. strcaseeq (aid (the (adp_heap s a))) key) (m_adapter_list s))"
    using wf_adapters_allocated [OF assms] by (simp add: gattlib_adapter_from_id_def find_adapter_id_find)
  show thesis
  proof (cases "List.find (\<lambda>a. strcaseeq (aid (the (adp_heap s a))) key) (m_adapter_list s)")
    case None
    with that(1) e show thesis by (auto simp: with_path_def find_None_iff)
  next
    case (Some a)
    with that(2) e show thesis by (auto simp: with_path_def find_Some_iff)
  qed
qed

lemma adapter_ref_wf:
  assumes "wf_gstate s" "a \<in> set (m_adapter_list s)" "aref (the (adp_heap s a)) + 1 \<noteq> 0"
  shows "\<exists>x. adp_heap s a = Some x \<and> wf_gstate (put_adapter a (x\<lparr>aref := aref x + 1\<rparr>) s)
    \<and> gattlib_adapter_ref a s = Some (GATTLIB_SUCCESS, put_adapter a (x\<lparr>aref := aref x + 1\<rparr>) s)"
proof -
  obtain x where x: "adp_heap s a = Some x" using assms by (elim wf_adapterE)
  with assms have "0 < aref x + 1" by (simp add: word_neq_0_conv [symmetric])
  with x assms show ?thesis by (auto simp: gattlib_adapter_ref_def intro!: wf_put_adapter)
qed

lemma wf_add_adapter:
  assumes wf: "wf_gstate s" and fresh: "a \<notin> set (m_adapter_list s)" and x: "devices x = []" "0 < aref x"
  shows "wf_gstate ((put_adapter a x s)\<lparr>m_adapter_list := m_adapter_list s @ [a]\<rparr>)"
  using assms by (fastforce simp: wf_gstate_def wf_adapter_def)

lemma open_create_Inr:
  "gattlib_adapter_open_create nm (Inr p) (Some a) s = (GATTLIB_SUCCESS, Some a,
    (put_adapter a \<lparr>device_manager = None, adapter_proxy = Some p, scan = ble_scan_init,
       aid = adapter_object_path nm, aname = adapter_name_or_default nm, aref = 1, devices = [],
       discovered_device_callback = handler_init\<rparr> (emit (Ev_set_powered p) s))
      \<lparr>m_adapter_list := m_adapter_list s @ [a]\<rparr>)"
  by (simp add: gattlib_adapter_open_create_def Let_def)

lemma handler_free_eq:
  assumes "gattlib_handler_free h s = (h', s')"
  shows "callback h' = None" "m_adapter_list s' = m_adapter_list s" "adp_heap s' = adp_heap s"
    "dev_heap s' = dev_heap s" "list_heap s' = list_heap s" "signals s' = signals s" "\<exists>es. events s' = events s @ es"
  using assms by (auto simp: gattlib_handler_free_def gattlib_has_valid_handler_def Let_def split: if_splits option.splits)

lemma signal_stop_sel [simp]:
  "m_adapter_list (signal_stop_scanning s) = m_adapter_list s" "adp_heap (signal_stop_scanning s) = adp_heap s"
  "dev_heap (signal_stop_scanning s) = dev_heap s" "list_heap (signal_stop_scanning s) = list_heap s"
  "signals (signal_stop_scanning s) = signals s OR GATTLIB_SIGNAL_ADAPTER_STOP_SCANNING"
  "events (signal_stop_scanning s) = events s @ [Ev_broadcast]"
  by (simp_all add: signal_stop_scanning_def)

definition no_scan_error :: "gerror option \<Rightarrow> bool" where
  "no_scan_error error \<longleftrightarrow> (case error of None \<Rightarrow> False | Some e \<Rightarrow> (domain e = 238 \<or> domain e = 239) \<and> code e = 36)"

lemma scan_disable_scanning:
  assumes "wf_gstate s" "a \<in> set (m_adapter_list s)" "adp_heap s a = Some x" "adapter_proxy x = Some p"
    "is_scanning (scan x)" "\<not> no_scan_error e"
  obtains h t where "gattlib_adapter_scan_disable a True e s = Some (GATTLIB_SUCCESS, t)"
    "adp_heap t = (adp_heap s)(a \<mapsto> x\<lparr>scan := (scan x)\<lparr>is_scanning := False, ble_scan_timeout_id := 0\<rparr>,
                                  discovered_device_callback := h\<rparr>)"
    "callback h = None" "m_adapter_list t = m_adapter_list s" "dev_heap t = dev_heap s" "list_heap t = list_heap s"
    "signals t = signals s OR GATTLIB_SIGNAL_ADAPTER_STOP_SCANNING"
    "\<exists>es. events t = events s @ Ev_stop_discovery p # es" "wf_gstate t"
proof -
  obtain h u where hu: "gattlib_handler_free (discovered_device_callback x) (emit (Ev_stop_discovery p) s) = (h, u)"
    by fastforce
  let ?v = "signal_stop_scanning u"
  let ?w = "if ble_scan_timeout_id (scan x) \<noteq> 0 then emit (Ev_source_remove (ble_scan_timeout_id (scan x))) ?v else ?v"
  let ?t = "put_adapter a (x\<lparr>scan := (scan x)\<lparr>is_scanning := False, ble_scan_timeout_id := 0\<rparr>,
                             discovered_device_callback := h\<rparr>) ?w"
  note u = handler_free_eq [OF hu]
  have run: "gattlib_adapter_scan_disable a True e s = Some (GATTLIB_SUCCESS, ?t)"
    using assms hu unfolding no_scan_error_def
    by (simp add: gattlib_adapter_scan_disable_def gattlib_adapter_is_valid_def Let_def)
  have ev: "\<exists>es. events ?t = events s @ Ev_stop_discovery p # es" using u(7) by auto
  have wf: "wf_gstate ?t"
    using assms(1-3) u(2-4) by (auto simp: wf_gstate_def wf_adapter_def)
  show thesis by (rule that [OF run _ u(1)]) (rule ev wf | simp add: u(2-6))+
qed

lemma start_thread_eq:
  assumes "adp_heap s a = Some x"
  shows "adapter_scan_start_thread a env s = Some (if scan_thread env = None then GATTLIB_ERROR_INTERNAL else GATTLIB_SUCCESS,
    (let t = set_scan a x ((scan x)\<lparr>scan_loop_thread := None\<rparr>) s in
     case scan_thread env of None \<Rightarrow> t | Some th \<Rightarrow> emit (Ev_unref th) (emit (Ev_thread (Th_scan_loop a)) t)))"
  using assms by (simp add: adapter_scan_start_thread_def Let_def split: option.splits)

lemma is_scanning_open:
  "a \<in> set (m_adapter_list s) \<Longrightarrow> adp_heap s a = Some x \<Longrightarrow> gattlib_adapter_is_scanning a s = Some (is_scanning (scan x))"
  by (simp add: gattlib_adapter_is_scanning_def)

lemma all_disconnected_eq:
  "\<forall>d \<in> set ds. h d \<noteq> None \<Longrightarrow> all_disconnected h ds b = Some (b \<and> (\<forall>d \<in> set ds. dstate (the (h d)) = DISCONNECTED))"
  by (induction ds arbitrary: b) auto

lemma devices_are_disconnected_wf:
  assumes "wf_gstate s" "a \<in> set (m_adapter_list s)" "adp_heap s a = Some x"
  shows "gattlib_devices_are_disconnected a s = Some (\<forall>d \<in> set (devices x). dstate (the (dev_heap s d)) = DISCONNECTED)"
proof -
  have "wf_adapter (dev_heap s) a x" using assms by (auto simp: wf_gstate_def)
  then show ?thesis
    using assms(3) by (simp add: gattlib_devices_are_disconnected_def all_disconnected_eq wf_adapter_allocated)
qed

section \<open>Properties\<close>

text \<open>Opening an adapter answers an open adapter with the path of the name: the one that is
  already open under that path, with one more reference, or else a new one with one
  reference, no device and the proxy of BlueZ; nothing else changes.\<close>

theorem adapter_open_spec:
  assumes "wf_gstate s" and "a \<notin> set (m_adapter_list s)" and "\<forall>b \<in> set (m_adapter_list s). aref (the (adp_heap s b)) + 1 \<noteq> 0"
  shows "\<exists>b t. gattlib_adapter_open nm (Inr p) (Some a) s = Some ((GATTLIB_SUCCESS, Some b), t) \<and> wf_gstate t
    \<and> with_path (adapter_object_path nm) t b
    \<and> set (m_adapter_list t) = insert b (set (m_adapter_list s))
    \<and> (if \<exists>c. with_path (adapter_object_path nm) s c
       then with_path (adapter_object_path nm) s b \<and> aref (the (adp_heap t b)) = aref (the (adp_heap s b)) + 1
       else b = a \<and> aref (the (adp_heap t b)) = 1 \<and> devices (the (adp_heap t b)) = [])
    \<and> (\<forall>c \<in> set (m_adapter_list s). \<forall>k. state_of t c k = state_of s c k)"
proof (cases rule: adapter_from_id_wf [OF assms(1), of "adapter_object_path nm"])
  case 1
  let ?t = "(put_adapter a \<lparr>device_manager = None, adapter_proxy = Some p, scan = ble_scan_init,
       aid = adapter_object_path nm, aname = adapter_name_or_default nm, aref = 1, devices = [],
       discovered_device_callback = handler_init\<rparr> (emit (Ev_set_powered p) s))
      \<lparr>m_adapter_list := m_adapter_list s @ [a]\<rparr>"
  have "wf_gstate ?t" using wf_add_adapter [of "emit (Ev_set_powered p) s" a] assms(1,2) by simp
  moreover have "state_of ?t c k = state_of s c k" if "c \<in> set (m_adapter_list s)" for c k
    using that assms(2) by (auto simp: state_of_def device_lookup_def split: option.splits)
  ultimately show ?thesis
    using 1 by (auto simp: gattlib_adapter_open_def gattlib_adapter_open_lookup_def open_create_Inr with_path_def strcaseeq_refl)
next
  case (2 b)
  then have b: "b \<in> set (m_adapter_list s)" by (simp add: with_path_def)
  then obtain x where x: "adp_heap s b = Some x" "wf_gstate (put_adapter b (x\<lparr>aref := aref x + 1\<rparr>) s)"
    "gattlib_adapter_ref b s = Some (GATTLIB_SUCCESS, put_adapter b (x\<lparr>aref := aref x + 1\<rparr>) s)"
    using adapter_ref_wf [OF assms(1) b] assms(3) by auto
  have "state_of (put_adapter b (x\<lparr>aref := aref x + 1\<rparr>) s) c k = state_of s c k" for c k
    using x(1) by (rule state_of_put_adapter) simp
  with 2 b x show ?thesis
    by (auto simp: gattlib_adapter_open_def gattlib_adapter_open_lookup_def with_path_def)
qed

lemma adapter_open_spec_witness:
  "\<exists>b t. gattlib_adapter_open None (Inr 9) (Some 5) gstate_init = Some ((GATTLIB_SUCCESS, Some b), t) \<and> wf_gstate t
    \<and> set (m_adapter_list t) = {5}"
  using adapter_open_spec [OF wf_gstate_init, of 5 None 9] by (auto simp: gstate_init_def with_path_def)

text \<open>The two critical sections of opening are not enough: when two threads look the same
  path up before either creates its adapter, both succeed and the list holds two adapters with
  the same path, of which later look-ups find one only.\<close>

theorem adapter_open_race:
  assumes "wf_gstate s" and "a \<noteq> b" and "a \<notin> set (m_adapter_list s)" and "b \<notin> set (m_adapter_list s)"
    and "\<forall>c. \<not> with_path (adapter_object_path nm) s c"
  shows "gattlib_adapter_open_lookup nm s = Some (None, s)
    \<and> (\<exists>t u. gattlib_adapter_open_create nm (Inr p) (Some a) s = (GATTLIB_SUCCESS, Some a, t)
        \<and> gattlib_adapter_open_create nm (Inr p) (Some b) t = (GATTLIB_SUCCESS, Some b, u)
        \<and> with_path (adapter_object_path nm) u a \<and> with_path (adapter_object_path nm) u b
        \<and> gattlib_adapter_from_id (adapter_object_path nm) u = Some (Some a))"
proof -
  have look: "gattlib_adapter_open_lookup nm s = Some (None, s)"
    by (cases rule: adapter_from_id_wf [OF assms(1), of "adapter_object_path nm"])
      (use assms(5) in \<open>auto simp: gattlib_adapter_open_lookup_def\<close>)
  define t where "t = snd (snd (gattlib_adapter_open_create nm (Inr p) (Some a) s))"
  define u where "u = snd (snd (gattlib_adapter_open_create nm (Inr p) (Some b) t))"
  have wf: "wf_gstate t" "wf_gstate u"
    using wf_add_adapter [of "emit (Ev_set_powered p) s" a] wf_add_adapter [of "emit (Ev_set_powered p) t" b] assms
    by (auto simp: t_def u_def open_create_Inr)
  have "find_adapter_id (adp_heap u) (m_adapter_list s) (adapter_object_path nm) = Some None"
    using assms wf_adapters_allocated [OF assms(1)]
    by (subst find_adapter_id_find) (auto simp: t_def u_def open_create_Inr with_path_def find_None_iff)
  then have "gattlib_adapter_from_id (adapter_object_path nm) u = Some (Some a)"
  proof -
    have app: "find_adapter_id h as key = Some None \<Longrightarrow> find_adapter_id h (as @ bs) key = find_adapter_id h bs key"
      for h as bs key by (induction as) (auto split: option.splits if_splits)
    assume "find_adapter_id (adp_heap u) (m_adapter_list s) (adapter_object_path nm) = Some None"
    then show ?thesis using assms(2)
      by (simp add: gattlib_adapter_from_id_def t_def u_def open_create_Inr app strcaseeq_refl)
  qed
  with look assms(2) show ?thesis
    by (simp add: t_def u_def open_create_Inr with_path_def strcaseeq_refl)
qed

lemma adapter_open_race_witness:
  "\<exists>t u. gattlib_adapter_open_create None (Inr 9) (Some 5) gstate_init = (GATTLIB_SUCCESS, Some 5, t)
    \<and> gattlib_adapter_open_create None (Inr 9) (Some 6) t = (GATTLIB_SUCCESS, Some 6, u)
    \<and> gattlib_adapter_from_id (adapter_object_path None) u = Some (Some 5)"
  using adapter_open_race [OF wf_gstate_init, of 5 6 None 9] by (auto simp: gstate_init_def with_path_def)


text \<open>An adapter that scans, with a discovery callback.\<close>

definition ex_scanning :: gstate where
  "ex_scanning = put_adapter 1 ((ex_adapter [2])\<lparr>scan := ble_scan_init\<lparr>is_scanning := True, ble_scan_timeout_id := 4\<rparr>,
     discovered_device_callback := handler_init\<lparr>callback := Some 7, user_data := 3\<rparr>\<rparr>) (ex_state DISCONNECTED)"

lemma ex_scanning_facts:
  "wf_gstate ex_scanning" "m_adapter_list ex_scanning = [1]" "dev_heap ex_scanning = [2 \<mapsto> ex_device DISCONNECTED]"
  "adp_heap ex_scanning 1 = Some ((ex_adapter [2])\<lparr>scan := ble_scan_init\<lparr>is_scanning := True, ble_scan_timeout_id := 4\<rparr>,
     discovered_device_callback := handler_init\<lparr>callback := Some 7, user_data := 3\<rparr>\<rparr>)"
proof -
  show "wf_gstate ex_scanning"
    unfolding ex_scanning_def by (rule wf_put_adapter [OF ex_state_wf, of _ _ "ex_adapter [2]"]) (simp_all add: ex_adapter_def)
qed (simp_all add: ex_scanning_def)


text \<open>A scan that ends by its time-out never stops BlueZ: the time-out marks the scan as
  ended before the scan loop asks for the stop, which is then skipped. Whatever BlueZ reports,
  the loop's last section makes no StopDiscovery call and leaves the callback installed.\<close>

theorem scan_timeout_keeps_discovery:
  assumes "wf_gstate s" and "a \<in> set (m_adapter_list s)" and "adp_heap s a = Some x" and "is_scanning (scan x)"
  shows "\<exists>t u. stop_scan_on_timeout a s = Some t \<and> gattlib_adapter_is_scanning a t = Some False
    \<and> ble_scan_loop_thread_leave a discovering e t = Some u
    \<and> (\<forall>p. Ev_stop_discovery p \<in> set (events u) \<longrightarrow> Ev_stop_discovery p \<in> set (events s))
    \<and> discovered_device_callback (the (adp_heap u a)) = discovered_device_callback x"
proof -
  let ?y = "x\<lparr>scan := (scan x)\<lparr>is_scanning := False, ble_scan_timeout_id := 0\<rparr>\<rparr>"
  let ?t = "put_adapter a ?y (signal_stop_scanning s)"
  have t: "stop_scan_on_timeout a s = Some ?t"
    using assms by (simp add: stop_scan_on_timeout_def gattlib_adapter_is_valid_def set_scan_def Let_def)
  let ?ev = "\<lambda>i. Ev_signal_disconnect (device_manager x) (scast i)"
  let ?u = "emit (?ev (changed_signal_id (scan x))) (emit (?ev (removed_signal_id (scan x))) (emit (?ev (added_signal_id (scan x))) ?t))"
  have u: "gattlib_adapter_scan_disable a discovering e ?u =
      Some (if adapter_proxy x = None then GATTLIB_NO_ADAPTER else GATTLIB_SUCCESS, ?u)"
    using assms(2) by (simp add: gattlib_adapter_scan_disable_def gattlib_adapter_is_valid_def split: option.splits)
  have "ble_scan_loop_thread_leave a discovering e ?t = Some ?u"
    using assms(2) u by (simp add: ble_scan_loop_thread_leave_def gattlib_adapter_is_valid_def Let_def)
  with t assms(2) show ?thesis by (auto simp: gattlib_adapter_is_scanning_def)
qed

lemma scan_timeout_keeps_discovery_witness:
  "\<exists>t u. stop_scan_on_timeout 1 ex_scanning = Some t \<and> ble_scan_loop_thread_leave 1 True None t = Some u
    \<and> callback (discovered_device_callback (the (adp_heap u 1))) = Some 7"
  using scan_timeout_keeps_discovery [OF ex_scanning_facts(1) _ ex_scanning_facts(4), of True None]
  by (auto simp: ex_scanning_facts)

text \<open>Closing an adapter that does not scan: refused, with nothing changed, while some device
  is not disconnected; else it drops one reference, and with the last one the adapter is
  freed and no longer valid for any other call.\<close>

theorem adapter_close_spec:
  assumes "wf_gstate s" and "a \<in> set (m_adapter_list s)" and "adp_heap s a = Some x" and "\<not> is_scanning (scan x)"
  shows "if \<exists>d \<in> set (devices x). dstate (the (dev_heap s d)) \<noteq> DISCONNECTED
    then gattlib_adapter_close_enter (Some a) discovering e s = Some (Inl GATTLIB_BUSY, s)
    else \<exists>t. gattlib_adapter_close_enter (Some a) discovering e s = Some (Inl GATTLIB_SUCCESS, t) \<and> wf_gstate t
      \<and> gattlib_adapter_is_valid (Some a) t = (1 < aref x)
      \<and> (aref x = 1 \<longrightarrow> (\<forall>d \<in> set (devices x). \<not> attached t d))"
proof (cases "\<exists>d \<in> set (devices x). dstate (the (dev_heap s d)) \<noteq> DISCONNECTED")
  case True
  with assms show ?thesis
    by (auto simp: gattlib_adapter_close_enter_def gattlib_adapter_is_valid_def devices_are_disconnected_wf)
next
  case False
  then have run: "gattlib_adapter_close_enter (Some a) discovering e s = do {
      (_, s) \<leftarrow> gattlib_adapter_unref a s; Some (Inl GATTLIB_SUCCESS, s) }"
    using assms by (simp add: gattlib_adapter_close_enter_def gattlib_adapter_is_valid_def devices_are_disconnected_wf)
  obtain t where t: "gattlib_adapter_unref a s = Some (GATTLIB_SUCCESS, t)" "wf_gstate t"
    "m_adapter_list t = (if aref x = 1 then remove1 a (m_adapter_list s) else m_adapter_list s)"
    "\<forall>b \<in> set (m_adapter_list s). b \<noteq> a \<longrightarrow> adp_heap t b = adp_heap s b"
    using adapter_unref_wf [OF assms(1,2)] assms(3) by auto
  have d: "distinct (m_adapter_list s)" and "wf_adapter (dev_heap s) a x" using assms by (auto simp: wf_gstate_def)
  then have "0 < aref x" by (simp add: wf_adapter_def)
  then have ref: "(1 < aref x) = (aref x \<noteq> 1)" by unat_arith
  have "\<not> attached t d" if asm: "aref x = 1" "d \<in> set (devices x)" for d
  proof
    assume "attached t d"
    then obtain b where b: "b \<in> set (m_adapter_list t)" "d \<in> set (devices (the (adp_heap t b)))"
      by (auto simp: attached_def)
    then have b: "b \<in> set (m_adapter_list s)" "b \<noteq> a" "d \<in> set (devices (the (adp_heap s b)))"
      using t(3,4) d asm(1) by auto
    then obtain z where z: "adp_heap s b = Some z" using assms(1) by (auto elim: wf_adapterE)
    obtain y where "dev_heap s d = Some y" "wf_device a d y"
      using \<open>wf_adapter (dev_heap s) a x\<close> asm(2) by (elim wf_deviceE)
    then show False using not_listed [OF assms(1) b(1) z] b z by (auto simp: wf_device_def)
  qed
  with False run t d ref assms(2) show ?thesis by (auto simp: gattlib_adapter_is_valid_def)
qed

lemma adapter_close_spec_witness:
  "gattlib_adapter_close_enter (Some 1) False None (ex_state CONNECTED) = Some (Inl GATTLIB_BUSY, ex_state CONNECTED)"
  using adapter_close_spec [OF ex_state_wf [of CONNECTED], of 1 "ex_adapter [2]" False None]
  by (simp add: ex_adapter_def ex_device_def ble_scan_init_def)

text \<open>What the start of a scan leaves alone: all but the scan, the callback and the device
  manager of the adapter.\<close>

definition adapter_frame :: "addr \<Rightarrow> gstate \<Rightarrow> gstate \<Rightarrow> bool" where
  "adapter_frame a s t \<longleftrightarrow> m_adapter_list t = m_adapter_list s \<and> dev_heap t = dev_heap s \<and> list_heap t = list_heap s
     \<and> (\<forall>b. b \<noteq> a \<longrightarrow> adp_heap t b = adp_heap s b)
     \<and> (\<forall>x. adp_heap s a = Some x \<longrightarrow> (\<exists>y. adp_heap t a = Some y \<and> devices y = devices x \<and> aref y = aref x
          \<and> aid y = aid x \<and> aname y = aname x \<and> adapter_proxy y = adapter_proxy x))"

lemma adapter_frame_emit [simp]: "adapter_frame a s (emit e t) = adapter_frame a s t"
  by (simp add: adapter_frame_def)

lemma adapter_frame_refl [simp]: "adapter_frame a s s"
  by (simp add: adapter_frame_def)

lemma adapter_frame_sets [simp]:
  assumes "adp_heap t a = Some x"
  shows "adapter_frame a s (put_adapter a (x\<lparr>scan := sc\<rparr>) t) = adapter_frame a s t"
    and "adapter_frame a s (put_adapter a (x\<lparr>scan := sc, discovered_device_callback := h\<rparr>) t) = adapter_frame a s t"
    and "adapter_frame a s (put_adapter a (x\<lparr>device_manager := m\<rparr>) t) = adapter_frame a s t"
  using assms by (auto simp: adapter_frame_def)

lemma adapter_frame_wf: "wf_gstate s \<Longrightarrow> adapter_frame a s t \<Longrightarrow> wf_gstate t"
  unfolding wf_gstate_def adapter_frame_def wf_adapter_def by (metis option.inject)

lemma device_manager_frame:
  assumes "get_device_manager_from_adapter a dm t = Some (r, u)" "adapter_frame a s t"
  shows "adapter_frame a s u"
  using assms by (auto simp: get_device_manager_from_adapter_def bind_eq_Some_conv
      split: option.splits sum.splits)

lemma scan_begin_frame:
  assumes "adapter_scan_begin a p filters cb timeout data env s = Some (r, t)" and "adapter_frame a s0 s"
  shows "adapter_frame a s0 t"
proof -
  obtain dm u where dm: "get_device_manager_from_adapter a (new_device_manager env) s = Some (dm, u)"
    using assms(1) by (auto simp: adapter_scan_begin_def bind_eq_Some_conv)
  have u: "adapter_frame a s0 u" by (rule device_manager_frame [OF dm assms(2)])
  with dm assms(1) show ?thesis
    by (cases dm) (auto simp: adapter_scan_begin_def bind_eq_Some_conv Let_def split: option.splits)
qed

lemma scan_setup_frame:
  assumes "adapter_scan_setup (Some a) us rssi filters cb timeout data env s = Some (r, t)"
  shows "adapter_frame a s t"
proof -
  obtain x where x: "adp_heap s a = Some x" using assms by (auto simp: adapter_scan_setup_def bind_eq_Some_conv)
  show ?thesis
  proof (cases "adapter_proxy x = None \<or> (filters AND GATTLIB_DISCOVER_FILTER_USE_UUID \<noteq> 0 \<and> us = None)")
    case True
    with assms x show ?thesis by (auto simp: adapter_scan_setup_def split: option.splits)
  next
    case False
    then obtain p where p: "adapter_proxy x = Some p" by auto
    with assms x p False show ?thesis
      by (auto simp: adapter_scan_setup_def Let_def split: option.splits elim!: scan_begin_frame simp del: not_None_eq)
  qed
qed

lemma put_adapter_twice [simp]: "put_adapter a y (put_adapter a x s) = put_adapter a y s"
  by (simp add: put_adapter_def)

lemma scan_enable_enter_cases:
  assumes "gattlib_adapter_scan_enable_with_filter_enter (Some a) us rssi filters cb timeout data env s = Some (r, t)"
  obtains (closed) "r = GATTLIB_ADAPTER_CLOSE" "t = s"
  | (failed) "r \<noteq> GATTLIB_SUCCESS" "adapter_scan_setup (Some a) us rssi filters cb timeout data env s = Some (r, t)"
  | (started) s1 x where "adapter_scan_setup (Some a) us rssi filters cb timeout data env s = Some (GATTLIB_SUCCESS, s1)"
      "adp_heap s1 a = Some x"
      "adapter_scan_start_thread a env (set_scan a x ((scan x)\<lparr>is_scanning := True\<rparr>) s1) = Some (r, t)"
proof (cases "gattlib_adapter_is_valid (Some a) s")
  case False
  with assms closed show thesis by (auto simp: gattlib_adapter_scan_enable_with_filter_enter_def)
next
  case True
  then obtain r1 s1 where s1: "adapter_scan_setup (Some a) us rssi filters cb timeout data env s = Some (r1, s1)"
    using assms by (auto simp: gattlib_adapter_scan_enable_with_filter_enter_def bind_eq_Some_conv)
  show thesis
  proof (cases "r1 = GATTLIB_SUCCESS")
    case False
    with assms True s1 failed show thesis by (auto simp: gattlib_adapter_scan_enable_with_filter_enter_def)
  next
    case ok: True
    with assms True s1 obtain x where "adp_heap s1 a = Some x"
      by (auto simp: gattlib_adapter_scan_enable_with_filter_enter_def bind_eq_Some_conv)
    with assms True s1 ok started show thesis by (auto simp: gattlib_adapter_scan_enable_with_filter_enter_def)
  qed
qed

lemma start_thread_frame:
  assumes "adapter_scan_start_thread a env (set_scan a x sc s) = Some (r, t)" "adp_heap s a = Some x" "adapter_frame a s0 s"
  shows "adapter_frame a s0 t" "\<exists>y. adp_heap t a = Some y \<and> scan y = sc\<lparr>scan_loop_thread := None\<rparr>"
  using assms by (auto simp: start_thread_eq set_scan_def Let_def split: option.splits)

lemma scan_enable_enter_frame:
  assumes "gattlib_adapter_scan_enable_with_filter_enter (Some a) us rssi filters cb timeout data env s = Some (r, t)"
  shows "adapter_frame a s t"
  using assms by (cases rule: scan_enable_enter_cases) (auto dest: scan_setup_frame intro: start_thread_frame)

lemma scan_enable_enter_success:
  assumes "gattlib_adapter_scan_enable_with_filter_enter (Some a) us rssi filters cb timeout data env s = Some (GATTLIB_SUCCESS, t)"
  obtains y where "adp_heap t a = Some y" "is_scanning (scan y)" "scan_loop_thread (scan y) = None"
  using assms
proof (cases rule: scan_enable_enter_cases)
  case (started s1 x)
  from start_thread_frame(2) [OF started(3,2) adapter_frame_refl] that show thesis by auto
qed (simp_all add: ret_codes)

text \<open>Once a blocking scan has been started on an adapter, closing it before the scan has ended
  is undefined: the code takes a reference on the scan thread through a pointer that the start
  of the scan has just reset to null.\<close>

theorem adapter_close_while_scanning:
  assumes "wf_gstate s" and "a \<in> set (m_adapter_list s)" and "adp_heap s a = Some x"
    and "\<forall>d \<in> set (devices x). dstate (the (dev_heap s d)) = DISCONNECTED"
    and "gattlib_adapter_scan_enable_with_filter_enter (Some a) us rssi filters cb timeout data env s = Some (GATTLIB_SUCCESS, t)"
  shows "gattlib_adapter_close_enter (Some a) discovering e t = None"
proof -
  have fr: "adapter_frame a s t" by (rule scan_enable_enter_frame [OF assms(5)])
  then have wf: "wf_gstate t" by (rule adapter_frame_wf [OF assms(1)])
  obtain y where y: "adp_heap t a = Some y" "is_scanning (scan y)" "scan_loop_thread (scan y) = None"
    by (rule scan_enable_enter_success [OF assms(5)])
  have a: "a \<in> set (m_adapter_list t)" and d: "devices y = devices x" "dev_heap t = dev_heap s"
    using fr y(1) assms(2,3) by (auto simp: adapter_frame_def)
  have dis: "gattlib_devices_are_disconnected a t = Some True"
    using devices_are_disconnected_wf [OF wf a y(1)] assms(4) d by simp
  have none: "scan_loop_thread (scan z) = None"
    if "gattlib_adapter_scan_disable a discovering e t = Some (r, u)" "adp_heap u a = Some z" for r u z
    using that y a
    by (auto simp: gattlib_adapter_scan_disable_def gattlib_adapter_is_valid_def Let_def
        split: option.splits if_splits prod.splits)
  show ?thesis
  proof (cases "gattlib_adapter_scan_disable a discovering e t")
    case None
    with a y dis show ?thesis by (simp add: gattlib_adapter_close_enter_def gattlib_adapter_is_valid_def)
  next
    case (Some ru)
    then obtain r u where "gattlib_adapter_scan_disable a discovering e t = Some (r, u)" by (cases ru) auto
    with a y dis none show ?thesis
      by (cases "adp_heap u a") (simp_all add: gattlib_adapter_close_enter_def gattlib_adapter_is_valid_def)
  qed
qed

definition ex_scan_env :: scan_env where
  "ex_scan_env = \<lparr>set_filter_error = None, new_device_manager = Inr 1, signal_ids = (11, 12, 13),
     start_discovery_error = None, scan_thread = Some 8\<rparr>"

lemma adapter_close_while_scanning_witness:
  "\<exists>t. gattlib_adapter_scan_enable_with_filter_enter (Some 1) None 0 0 (Some 7) 10 3 ex_scan_env (ex_state DISCONNECTED)
      = Some (GATTLIB_SUCCESS, t) \<and> gattlib_adapter_close_enter (Some 1) True None t = None"
proof -
  have "\<exists>t. gattlib_adapter_scan_enable_with_filter_enter (Some 1) None 0 0 (Some 7) 10 3 ex_scan_env (ex_state DISCONNECTED)
      = Some (GATTLIB_SUCCESS, t)"
    by (simp add: gattlib_adapter_scan_enable_with_filter_enter_def gattlib_adapter_is_valid_def adapter_scan_setup_def
        adapter_scan_begin_def get_device_manager_from_adapter_def ex_scan_env_def ex_adapter_def Let_def
        adapter_scan_start_thread_def set_scan_def)
  then show ?thesis
    using adapter_close_while_scanning [OF ex_state_wf [of DISCONNECTED], of 1 "ex_adapter [2]"]
    by (auto simp: ex_adapter_def ex_device_def)
qed


definition ex_signal_env :: signal_env where
  "ex_signal_env = \<lparr>device_alloc = Some 3, args_calloc_ok = True, thread_ok = True\<rparr>"


text \<open>A discovery thread reads the callback again after it has released the mutex: when the scan
  is disabled between its check and its call, it calls through a null pointer, although its
  reference keeps the adapter itself allocated.\<close>

theorem discovery_callback_race:
  assumes "wf_gstate s" and "a \<in> set (m_adapter_list s)" and "adp_heap s a = Some x" and "adapter_proxy x = Some p"
    and "is_scanning (scan x)" and "\<not> no_scan_error e" and "callback (discovered_device_callback x) \<noteq> None"
    and "aref x + 1 \<noteq> 0"
  shows "\<exists>t u. gattlib_discovered_device_thread_enter a s = Some (True, t)
    \<and> gattlib_discovered_device_thread_call a m nm t \<noteq> None
    \<and> gattlib_adapter_scan_disable a True e t = Some (GATTLIB_SUCCESS, u)
    \<and> adp_heap u a \<noteq> None
    \<and> gattlib_discovered_device_thread_call a m nm u = None"
proof -
  let ?t = "put_adapter a (x\<lparr>aref := aref x + 1\<rparr>) s"
  have wf: "wf_gstate ?t" using adapter_ref_wf [OF assms(1,2)] assms(3,8) by auto
  have enter: "gattlib_discovered_device_thread_enter a s = Some (True, ?t)"
    using assms by (auto simp: gattlib_discovered_device_thread_enter_def gattlib_adapter_is_valid_def
        gattlib_has_valid_handler_def gattlib_adapter_ref_def)
  have call: "gattlib_discovered_device_thread_call a m nm ?t \<noteq> None"
    using assms(7) by (auto simp: gattlib_discovered_device_thread_call_def)
  obtain h u where u: "gattlib_adapter_scan_disable a True e ?t = Some (GATTLIB_SUCCESS, u)" "callback h = None"
    "adp_heap u = (adp_heap ?t)(a \<mapsto> (x\<lparr>aref := aref x + 1\<rparr>)\<lparr>scan := (scan x)\<lparr>is_scanning := False, ble_scan_timeout_id := 0\<rparr>,
                                  discovered_device_callback := h\<rparr>)"
    by (rule scan_disable_scanning [OF wf, of a "x\<lparr>aref := aref x + 1\<rparr>" p e]) (use assms in auto)
  have "gattlib_discovered_device_thread_call a m nm u = None"
    using u(2,3) by (simp add: gattlib_discovered_device_thread_call_def)
  with enter call u show ?thesis by auto
qed

lemma discovery_callback_race_witness:
  "\<exists>t u. gattlib_discovered_device_thread_enter 1 ex_scanning = Some (True, t)
    \<and> gattlib_adapter_scan_disable 1 True None t = Some (GATTLIB_SUCCESS, u)
    \<and> gattlib_discovered_device_thread_call 1 ''m'' None u = None"
  using discovery_callback_race [OF ex_scanning_facts(1) _ ex_scanning_facts(4), of 2 None "''m''" None]
  by (auto simp: ex_scanning_facts ex_adapter_def no_scan_error_def)

text \<open>The path of an adapter is printed into 20 bytes: names of up to 8 characters give
  different paths, and any two names that agree in their first 8 characters give the same one.\<close>

theorem adapter_path_names:
  "(length n \<le> 8 \<longrightarrow> adapter_object_path (Some n) = ''/org/bluez/'' @ n)
   \<and> (take 8 n = take 8 m \<longrightarrow> adapter_object_path (Some n) = adapter_object_path (Some m))"
  by (auto simp: adapter_object_path_def snprintf_def adapter_name_or_default_def take_append)

lemma adapter_path_names_witness:
  "adapter_object_path (Some ''hci0'') = ''/org/bluez/hci0''
   \<and> adapter_object_path (Some ''bluetooth0'') = adapter_object_path (Some ''bluetooth1'')"
  using adapter_path_names [of "''hci0''"] adapter_path_names [of "''bluetooth0''" "''bluetooth1''"] by simp
end
