(* ===== verification/Connection.thy ===== *)
theory Connection
  imports Adapter
begin

text \<open>
  Connecting to and disconnecting from a device, and the BlueZ signals that report both:
  \<open>dbus/gattlib.c\<close> up to \<open>gattlib_disconnect\<close>, its last functions (the BlueZ device of a MAC
  address, the RSSI), \<open>common/gattlib_callback_disconnected_device.c\<close> and
  \<open>disconnect_all_notifications\<close> of \<open>dbus/gattlib_notification.c\<close>.
\<close>

section \<open>Device paths\<close>

text \<open>
  The MAC address with its colons replaced, in a buffer of 21 bytes of which \<open>strncpy\<close> fills
  20: without a terminator among those, \<open>strlen\<close> reads an uninitialised byte.
\<close>

definition device_address_str :: "string \<Rightarrow> string option" where
  "device_address_str mac_address =
     (if 20 \<le> length mac_address then None
      else Some (map (\<lambda>c. if c = CHR '':'' then CHR ''_'' else c) mac_address))"

definition get_device_path_from_mac_with_adapter :: "string \<Rightarrow> string \<Rightarrow> nat \<Rightarrow> string option" where
  "get_device_path_from_mac_with_adapter adapter_path mac_address object_path_len = do {
     dev \<leftarrow> device_address_str mac_address;
     snprintf object_path_len (adapter_path @ ''/dev_'' @ dev)
   }"

definition get_device_path_from_mac :: "string option \<Rightarrow> string \<Rightarrow> nat \<Rightarrow> string option" where
  "get_device_path_from_mac adapter_name mac_address object_path_len = do {
     let adapter = (case adapter_name of Some n \<Rightarrow> n | None \<Rightarrow> ''hci0'');
     dev \<leftarrow> device_address_str mac_address;
     snprintf object_path_len (''/org/bluez/'' @ adapter @ ''/dev_'' @ dev)
   }"

definition GATTLIB_DBUS_OBJECT_PATH_SIZE_MAX :: nat where "GATTLIB_DBUS_OBJECT_PATH_SIZE_MAX = 200"

section \<open>Releasing a connection\<close>

definition set_backend :: "addr \<Rightarrow> device \<Rightarrow> connection_backend \<Rightarrow> gstate \<Rightarrow> gstate" where
  "set_backend c x b s = put_device c (x\<lparr>dconnection := (dconnection x)\<lparr>cbackend := b\<rparr>\<rparr>) s"

fun end_notifications :: "notification_handle list \<Rightarrow> gstate \<Rightarrow> gstate" where
  "end_notifications [] s = s"
| "end_notifications (n # ns) s = end_notifications ns (emit (Ev_signal_disconnect (Some (gatt n)) (signal_id n)) s)"

definition disconnect_all_notifications :: "connection_backend \<Rightarrow> gstate \<Rightarrow> connection_backend \<times> gstate" where
  "disconnect_all_notifications b s = (b\<lparr>notified_characteristics := []\<rparr>, end_notifications (notified_characteristics b) s)"

text \<open>\<open>g_list_free_full\<close>: freeing a list that is not allocated is undefined.\<close>

definition free_dbus_objects :: "addr option \<Rightarrow> gstate \<Rightarrow> gstate option" where
  "free_dbus_objects l s = (case l of
       None \<Rightarrow> Some s
     | Some l \<Rightarrow> do { _ \<leftarrow> list_heap s l; Some (s\<lparr>list_heap := (list_heap s)(l := None)\<rparr>) })"

definition gattlib_connection_free :: "addr \<Rightarrow> gstate \<Rightarrow> gstate option" where
  "gattlib_connection_free c s = do {
     x \<leftarrow> dev_heap s c;
     dev \<leftarrow> dev_heap s (cdevice (dconnection x));
     let b = cbackend (dconnection x);
     let s = (if on_handle_device_property_change_id b \<noteq> 0
              then emit (Ev_signal_disconnect (bluez_device b) (ucast (on_handle_device_property_change_id b))) s else s);
     let s = (if connection_timeout_id b \<noteq> 0 then emit (Ev_source_remove (connection_timeout_id b)) s else s);
     let b = b\<lparr>on_handle_device_property_change_id := 0, connection_timeout_id := 0, device_object_path := None\<rparr>;
     s \<leftarrow> free_dbus_objects (dbus_objects b) s;
     let (b, s) = disconnect_all_notifications b s;
     let s = set_backend c x b s;
     (_, s) \<leftarrow> gattlib_device_set_state None (Some (dadapter dev)) (device_id dev) DISCONNECTED s;
     Some s
   }"

text \<open>The application's callback is called with the mutex held: \<open>app\<close> is what it does.\<close>

definition gattlib_on_disconnected_device :: "(event \<Rightarrow> gstate \<Rightarrow> gstate option) \<Rightarrow> addr \<Rightarrow> gstate \<Rightarrow> gstate option" where
  "gattlib_on_disconnected_device app c s = do {
     valid \<leftarrow> gattlib_connection_is_valid (Some c) s;
     if \<not> valid then Some s
     else do {
       x \<leftarrow> dev_heap s c;
       let h = on_disconnection (dconnection x);
       s \<leftarrow> (case callback h of
               None \<Rightarrow> Some s
             | Some f \<Rightarrow> app (Ev_disconnected f c (user_data h)) (emit (Ev_disconnected f c (user_data h)) s));
       s \<leftarrow> gattlib_connection_free c s;
       Some (emit Ev_broadcast (s\<lparr>signals := signals s OR GATTLIB_SIGNAL_DEVICE_DISCONNECTION\<rparr>))
     }
   }"

section \<open>Connection\<close>

text \<open>What \<open>_on_device_connect\<close> meets: the outcome of making the device manager, the list of the
  managed objects (null when empty) and whether the callback's thread starts.\<close>

record connected_env =
  c_device_manager :: "gerror option + nat"
  c_objects :: "(addr \<times> string list) option"
  c_thread_ok :: bool

definition remove_source :: "u32 \<Rightarrow> gstate \<Rightarrow> gstate" where
  "remove_source i s = (if i \<noteq> 0 then emit (Ev_source_remove i) s else s)"

definition alloc_objects :: "(addr \<times> string list) option \<Rightarrow> gstate \<Rightarrow> gstate" where
  "alloc_objects objs s = (case objs of None \<Rightarrow> s | Some (l, os) \<Rightarrow> s\<lparr>list_heap := (list_heap s)(l \<mapsto> os)\<rparr>)"

definition on_device_connect :: "connected_env \<Rightarrow> addr \<Rightarrow> gstate \<Rightarrow> gstate option" where
  "on_device_connect env c s = do {
     valid \<leftarrow> gattlib_connection_is_valid (Some c) s;
     if \<not> valid then Some s
     else do {
       x \<leftarrow> dev_heap s c;
       let b = cbackend (dconnection x);
       let s = remove_source (connection_timeout_id b) s;
       let b = b\<lparr>connection_timeout_id := 0\<rparr>;
       let s = set_backend c x b s;
       dev \<leftarrow> dev_heap s (cdevice (dconnection x));
       (dm, s) \<leftarrow> get_device_manager_from_adapter (dadapter dev) (c_device_manager env) s;
       case dm of
         Inl _ \<Rightarrow> Some s
       | Inr _ \<Rightarrow> do {
           let s = alloc_objects (c_objects env) s;
           let s = set_backend c x (b\<lparr>dbus_objects := map_option fst (c_objects env)\<rparr>) s;
           (_, s) \<leftarrow> gattlib_device_set_state None (Some (dadapter dev)) (device_id dev) CONNECTED s;
           gattlib_on_connected_device c (c_thread_ok env) s
         }
     }
   }"

text \<open>The changed properties as pairs of a key and its value read as a boolean.\<close>

fun on_handle_device_property_change ::
    "(event \<Rightarrow> gstate \<Rightarrow> gstate option) \<Rightarrow> connected_env \<Rightarrow> addr \<Rightarrow> (string \<times> bool) list \<Rightarrow> gstate \<Rightarrow> gstate option" where
  "on_handle_device_property_change app env c [] s = Some s"
| "on_handle_device_property_change app env c ((key, value) # props) s = do {
     s \<leftarrow> (if key = ''Connected'' then (if \<not> value then gattlib_on_disconnected_device app c s else Some s)
           else if key = ''ServicesResolved'' then (if value then on_device_connect env c s else Some s)
           else Some s);
     on_handle_device_property_change app env c props s
   }"

definition stop_connect_func :: "addr \<Rightarrow> gstate \<Rightarrow> gstate option" where
  "stop_connect_func c s = do {
     valid \<leftarrow> gattlib_connection_is_valid (Some c) s;
     if \<not> valid then Some s
     else do {
       x \<leftarrow> dev_heap s c;
       Some (set_backend c x ((cbackend (dconnection x))\<lparr>connection_timeout_id := 0\<rparr>) s)
     }
   }"

definition m_dbus_error_unknown_object :: string where
  "m_dbus_error_unknown_object = ''GDBus.Error:org.freedesktop.DBus.Error.UnknownObject''"

text \<open>The outcome of each call out of \<open>gattlib_connect\<close>.\<close>

record connect_env =
  default_proxy :: "gerror option + nat"
  default_alloc :: "addr option"
  device_proxy :: "gerror option + nat"
  property_handler_id :: u64
  call_connect_error :: "gerror option"
  timeout_source :: u32

text \<open>The return code of a failed Connect call.\<close>

definition connect_error_code :: "gerror \<Rightarrow> i32" where
  "connect_error_code e =
     (if take (length m_dbus_error_unknown_object) (message e) = m_dbus_error_unknown_object then GATTLIB_NOT_FOUND
      else if domain e = 238 \<and> code e = 60952 then GATTLIB_TIMEOUT
      else GATTLIB_ERROR_DBUS_WITH_ERROR e)"

text \<open>The label \<open>EXIT\<close>: a failure is reported to the callback.\<close>

definition connect_exit :: "nat \<Rightarrow> addr \<Rightarrow> string \<Rightarrow> nat \<Rightarrow> i32 \<Rightarrow> gstate \<Rightarrow> i32 res" where
  "connect_exit cb a dst data ret s =
     Some (ret, if ret \<noteq> GATTLIB_SUCCESS then emit (Ev_connected cb (Some a) (Some dst) None ret data) s else s)"

text \<open>From the adapter's validity check on, for the adapter \<open>a\<close> and the path of the device.\<close>

definition connect_device ::
    "connect_env \<Rightarrow> addr \<Rightarrow> string \<Rightarrow> string \<Rightarrow> nat \<Rightarrow> nat \<Rightarrow> gstate \<Rightarrow> i32 res" where
  "connect_device env a object_path dst cb data s =
     (if \<not> gattlib_adapter_is_valid (Some a) s then connect_exit cb a dst data GATTLIB_ADAPTER_CLOSE s
      else do {
        found \<leftarrow> gattlib_device_get_device a object_path s;
        case found of
          None \<Rightarrow> connect_exit cb a dst data GATTLIB_INVALID_PARAMETER s
        | Some d \<Rightarrow> do {
            x \<leftarrow> dev_heap s d;
            if dstate x \<noteq> DISCONNECTED then connect_exit cb a dst data GATTLIB_BUSY s
            else do {
              let s = put_device d (x\<lparr>dconnection := (dconnection x)\<lparr>on_connection :=
                 (on_connection (dconnection x))\<lparr>callback := Some cb, user_data := data\<rparr>\<rparr>\<rparr>) s;
              (_, s) \<leftarrow> gattlib_device_set_state None (Some (dadapter x)) (device_id x) CONNECTING s;
              x \<leftarrow> dev_heap s d;
              case device_proxy env of
                Inl e \<Rightarrow> connect_exit cb a dst data
                  (case e of None \<Rightarrow> GATTLIB_ERROR_DBUS | Some e \<Rightarrow> GATTLIB_ERROR_DBUS_WITH_ERROR e) s
              | Inr p \<Rightarrow> do {
                  let b = (cbackend (dconnection x))\<lparr>bluez_device := Some p, device_object_path := Some object_path,
                     on_handle_device_property_change_id := ucast (property_handler_id env)\<rparr>;
                  let s = emit (Ev_connect p) (set_backend d x b s);
                  case call_connect_error env of
                    Some e \<Rightarrow> do {
                      (_, s) \<leftarrow> gattlib_device_set_state None (Some a) (device_id x) DISCONNECTED s;
                      x \<leftarrow> dev_heap s d;
                      connect_exit cb a dst data (connect_error_code e)
                        (set_backend d x ((cbackend (dconnection x))\<lparr>device_object_path := None\<rparr>) s)
                    }
                  | None \<Rightarrow> Some (GATTLIB_SUCCESS, set_backend d x (b\<lparr>connection_timeout_id := timeout_source env\<rparr>) s)
                }
            }
          }
      })"

definition gattlib_connect ::
    "connect_env \<Rightarrow> addr option \<Rightarrow> string \<Rightarrow> nat option \<Rightarrow> nat \<Rightarrow> gstate \<Rightarrow> i32 res" where
  "gattlib_connect env adapter dst connect_cb data s = do {
     (a, adapter_name, s) \<leftarrow> (case adapter of
         None \<Rightarrow> do { (a, s) \<leftarrow> init_default_adapter (default_proxy env) (default_alloc env) s; Some (a, None, s) }
       | Some a \<Rightarrow> do { x \<leftarrow> adp_heap s a; Some (Some a, Some (aname x), s) });
     case a of
       None \<Rightarrow> Some (GATTLIB_NOT_FOUND, s)
     | Some a \<Rightarrow> (case connect_cb of
           None \<Rightarrow> Some (GATTLIB_INVALID_PARAMETER, s)
         | Some cb \<Rightarrow> do {
             object_path \<leftarrow> get_device_path_from_mac adapter_name dst GATTLIB_DBUS_OBJECT_PATH_SIZE_MAX;
             connect_device env a object_path dst cb data s
           })
   }"

section \<open>Disconnection\<close>

text \<open>Up to the release of the mutex. The Disconnect call's error is only logged.\<close>

definition gattlib_disconnect_enter :: "addr option \<Rightarrow> gstate \<Rightarrow> i32 res" where
  "gattlib_disconnect_enter connection s = (case connection of
       None \<Rightarrow> Some (GATTLIB_INVALID_PARAMETER, s)
     | Some c \<Rightarrow> do {
         connected \<leftarrow> gattlib_connection_is_connected (Some c) s;
         x \<leftarrow> dev_heap s c;
         dev \<leftarrow> dev_heap s (cdevice (dconnection x));
         if \<not> connected then Some (GATTLIB_BUSY, s)
         else do {
           let s = emit (Ev_disconnect (bluez_device (cbackend (dconnection x)))) s;
           (_, s) \<leftarrow> gattlib_device_set_state None (Some (dadapter dev)) (device_id dev) DISCONNECTING s;
           Some (GATTLIB_SUCCESS, s)
         }
       })"

text \<open>
  The wait, over the states seen at each wake-up of the condition variable; a wake-up with
  \<open>False\<close> is the time-out. \<open>Some None\<close>: still waiting when the list ends.
\<close>

fun gattlib_disconnect_wait :: "addr \<Rightarrow> gstate \<Rightarrow> (bool \<times> gstate) list \<Rightarrow> i32 option option" where
  "gattlib_disconnect_wait c s wakeups = do {
     connected \<leftarrow> gattlib_connection_is_connected (Some c) s;
     if \<not> connected then Some (Some GATTLIB_SUCCESS)
     else (case wakeups of
         [] \<Rightarrow> Some None
       | (signalled, t) # ws \<Rightarrow>
           if \<not> signalled then Some (Some GATTLIB_TIMEOUT) else gattlib_disconnect_wait c t ws)
   }"

section \<open>The BlueZ device of a MAC address, and the RSSI\<close>

text \<open>
  \<open>proxy_path\<close> is the object path of an adapter proxy; \<open>device_of\<close> makes the device's proxy. When
  that fails the code reads the error after it has freed it, which is undefined.
\<close>

definition get_bluez_device_from_mac ::
    "(nat \<Rightarrow> string) \<Rightarrow> (string \<Rightarrow> gerror + nat) \<Rightarrow> addr option \<Rightarrow> string \<Rightarrow> gstate \<Rightarrow> (i32 + nat) option" where
  "get_bluez_device_from_mac proxy_path device_of adapter mac_address s =
     (case adapter of None \<Rightarrow> Some (Inl GATTLIB_ADAPTER_CLOSE) | Some a \<Rightarrow>
      if \<not> gattlib_adapter_is_valid adapter s then Some (Inl GATTLIB_ADAPTER_CLOSE)
      else do {
        x \<leftarrow> adp_heap s a;
        case adapter_proxy x of
          None \<Rightarrow> Some (Inl GATTLIB_NO_ADAPTER)
        | Some p \<Rightarrow> do {
            object_path \<leftarrow> get_device_path_from_mac_with_adapter (proxy_path p) mac_address GATTLIB_DBUS_OBJECT_PATH_SIZE_MAX;
            case device_of object_path of
              Inl e \<Rightarrow> None
            | Inr d \<Rightarrow> Some (Inr d)
          }
      })"

text \<open>\<open>rssi_of\<close> is the RSSI property of a device's proxy (of the null proxy, 0).\<close>

definition gattlib_get_rssi :: "(nat option \<Rightarrow> 16 word) \<Rightarrow> addr option \<Rightarrow> bool \<Rightarrow> gstate \<Rightarrow> (i32 + 16 word) option" where
  "gattlib_get_rssi rssi_of connection rssi_null s =
     (if rssi_null then Some (Inl GATTLIB_INVALID_PARAMETER)
      else case connection of
        None \<Rightarrow> Some (Inl GATTLIB_INVALID_PARAMETER)
      | Some c \<Rightarrow> do {
          valid \<leftarrow> gattlib_connection_is_valid (Some c) s;
          if \<not> valid then Some (Inl GATTLIB_DEVICE_DISCONNECTED)
          else do { x \<leftarrow> dev_heap s c; Some (Inr (rssi_of (bluez_device (cbackend (dconnection x))))) }
        })"

definition gattlib_get_rssi_from_mac ::
    "(nat \<Rightarrow> string) \<Rightarrow> (string \<Rightarrow> gerror + nat) \<Rightarrow> (nat option \<Rightarrow> 16 word) \<Rightarrow> addr option \<Rightarrow> string option \<Rightarrow> bool \<Rightarrow>
     gstate \<Rightarrow> (i32 + 16 word) option" where
  "gattlib_get_rssi_from_mac proxy_path device_of rssi_of adapter mac_address rssi_null s =
     (case mac_address of None \<Rightarrow> Some (Inl GATTLIB_INVALID_PARAMETER) | Some mac \<Rightarrow>
      if rssi_null then Some (Inl GATTLIB_INVALID_PARAMETER)
      else do {
        ret \<leftarrow> get_bluez_device_from_mac proxy_path device_of adapter mac s;
        case ret of Inl r \<Rightarrow> Some (Inl r) | Inr d \<Rightarrow> Some (Inr (rssi_of (Some d)))
      })"

section \<open>Lemmas\<close>

lemma wf_set_backend:
  assumes "wf_gstate s" "attached s c" "dev_heap s c = Some y"
  shows "wf_gstate (set_backend c y b s)"
proof -
  have "cdevice (dconnection y) = c" "dstate y \<noteq> NOT_FOUND" "0 < dref y" using attached_device [OF assms(1,2)] assms(3) by auto
  then show ?thesis unfolding set_backend_def by (intro wf_update_device [OF assms]) auto
qed

lemma set_backend_sel [simp]:
  "m_adapter_list (set_backend c y b s) = m_adapter_list s" "adp_heap (set_backend c y b s) = adp_heap s"
  "dev_heap (set_backend c y b s) = (dev_heap s)(c := Some (y\<lparr>dconnection := (dconnection y)\<lparr>cbackend := b\<rparr>\<rparr>))"
  "list_heap (set_backend c y b s) = list_heap s" "signals (set_backend c y b s) = signals s"
  "events (set_backend c y b s) = events s" "attached (set_backend c y b s) d = attached s d"
  by (simp_all add: set_backend_def)

lemma put_device_twice [simp]: "put_device c y (put_device c x s) = put_device c y s"
  by (simp add: put_device_def)

lemma put_device_emit [simp]: "put_device c y (emit e s) = emit e (put_device c y s)"
  by (simp add: put_device_def emit_def)

lemma end_notifications_eq:
  "end_notifications ns s = s\<lparr>events := events s @ map (\<lambda>n. Ev_signal_disconnect (Some (gatt n)) (signal_id n)) ns\<rparr>"
  by (induction ns arbitrary: s) (simp_all add: emit_def)

text \<open>The backend after a disconnection: every id and list is reset but the object list.\<close>

definition released :: "connection_backend \<Rightarrow> connection_backend" where
  "released b = b\<lparr>on_handle_device_property_change_id := 0, connection_timeout_id := 0,
     device_object_path := None, notified_characteristics := []\<rparr>"

definition release_events :: "connection_backend \<Rightarrow> event list" where
  "release_events b =
     (if on_handle_device_property_change_id b \<noteq> 0
      then [Ev_signal_disconnect (bluez_device b) (ucast (on_handle_device_property_change_id b))] else [])
     @ (if connection_timeout_id b \<noteq> 0 then [Ev_source_remove (connection_timeout_id b)] else [])
     @ map (\<lambda>n. Ev_signal_disconnect (Some (gatt n)) (signal_id n)) (notified_characteristics b)"

lemma connection_free_attached:
  assumes wf: "wf_gstate s" and c: "attached s c" and y: "dev_heap s c = Some y"
    and l: "\<And>l. dbus_objects (cbackend (dconnection y)) = Some l \<Longrightarrow> list_heap s l \<noteq> None"
  obtains t where "gattlib_connection_free c s = Some t" "wf_gstate t" "attached t c" "m_adapter_list t = m_adapter_list s"
    "adp_heap t = adp_heap s"
    "dev_heap t = (dev_heap s)(c \<mapsto> y\<lparr>dconnection := (dconnection y)\<lparr>cbackend := released (cbackend (dconnection y))\<rparr>, dstate := DISCONNECTED\<rparr>)"
    "list_heap t = (case dbus_objects (cbackend (dconnection y)) of None \<Rightarrow> list_heap s | Some l \<Rightarrow> (list_heap s)(l := None))"
    "signals t = signals s" "events t = events s @ release_events (cbackend (dconnection y))"
    "\<forall>b \<in> set (m_adapter_list s). \<forall>k. state_of t b k =
        (if b = dadapter y \<and> strcaseeq k (device_id y) then DISCONNECTED else state_of s b k)"
proof -
  have cd: "cdevice (dconnection y) = c" "dstate y \<noteq> NOT_FOUND" "0 < dref y" using attached_device [OF wf c] y by auto
  let ?b = "cbackend (dconnection y)"
  let ?s = "s\<lparr>list_heap := (case dbus_objects ?b of None \<Rightarrow> list_heap s | Some l \<Rightarrow> (list_heap s)(l := None)),
              events := events s @ release_events ?b\<rparr>"
  let ?y = "y\<lparr>dconnection := (dconnection y)\<lparr>cbackend := released ?b\<rparr>\<rparr>"
  let ?u = "put_device c ?y ?s"
  have wfu: "wf_gstate ?u" using wf c y cd by (intro wf_update_device) auto
  have set: "gattlib_device_set_state None (Some (dadapter y)) (device_id y) DISCONNECTED ?u =
      Some (GATTLIB_SUCCESS, put_device c (?y\<lparr>dstate := DISCONNECTED\<rparr>) ?u)"
    using set_state_self [OF wfu, of c ?y DISCONNECTED None] c by simp
  let ?t = "put_device c (?y\<lparr>dstate := DISCONNECTED\<rparr>) ?u"
  have run: "gattlib_connection_free c s = Some ?t"
    using y cd l set
    by (cases "dbus_objects ?b")
      (auto simp: gattlib_connection_free_def free_dbus_objects_def disconnect_all_notifications_def Let_def
        end_notifications_eq released_def release_events_def set_backend_def emit_def put_device_def split: if_splits)
  have wft: "wf_gstate ?t" using wfu c cd by (intro wf_update_device [OF wfu, of c ?y]) auto
  have st: "state_of ?t b k = (if b = dadapter y \<and> strcaseeq k (device_id y) then DISCONNECTED else state_of s b k)"
    if "b \<in> set (m_adapter_list s)" for b k
  proof -
    have "wf_gstate ?s" "attached ?s c" "dev_heap ?s c = Some y" using wf c y by simp_all
    then show ?thesis using state_of_update [of ?s c y b "?y\<lparr>dstate := DISCONNECTED\<rparr>" k] that by simp
  qed
  show thesis
    by (rule that [OF run wft]) (use c st in \<open>simp_all add: put_device_def\<close>)
qed

text \<open>An application callback that leaves the connection and the object lists alone.\<close>

definition benign :: "(event \<Rightarrow> gstate \<Rightarrow> gstate option) \<Rightarrow> addr \<Rightarrow> bool" where
  "benign app c \<longleftrightarrow> (\<forall>e s. wf_gstate s \<and> attached s c \<longrightarrow> (\<exists>t. app e s = Some t \<and> wf_gstate t \<and> attached t c
     \<and> dev_heap t c = dev_heap s c \<and> list_heap t = list_heap s \<and> m_adapter_list t = m_adapter_list s
     \<and> (\<exists>es. events t = events s @ es)
     \<and> (\<forall>b \<in> set (m_adapter_list s). \<forall>k. state_of t b k = state_of s b k)))"

lemma benign_id: "benign (\<lambda>e. Some) c"
  by (simp add: benign_def)

lemma dbus_error_nonzero: "GATTLIB_ERROR_DBUS_WITH_ERROR e \<noteq> GATTLIB_SUCCESS"
proof
  assume "GATTLIB_ERROR_DBUS_WITH_ERROR e = GATTLIB_SUCCESS"
  then have "bit (GATTLIB_ERROR_DBUS_WITH_ERROR e) 28 = bit (0 :: i32) 28" by (simp add: ret_codes)
  then show False by (simp add: GATTLIB_ERROR_DBUS_WITH_ERROR_def ret_codes bit_or_iff)
qed

lemma connect_error_nonzero: "connect_error_code e \<noteq> GATTLIB_SUCCESS"
  using dbus_error_nonzero by (simp add: connect_error_code_def ret_codes)

text \<open>The return code of a connection attempt and the state it leaves, from the state before.\<close>

definition connect_outcome :: "connect_env \<Rightarrow> device_state \<Rightarrow> i32 \<times> device_state" where
  "connect_outcome env old =
     (if old = NOT_FOUND then (GATTLIB_INVALID_PARAMETER, old)
      else if old \<noteq> DISCONNECTED then (GATTLIB_BUSY, old)
      else case device_proxy env of
        Inl None \<Rightarrow> (GATTLIB_ERROR_DBUS, CONNECTING)
      | Inl (Some e) \<Rightarrow> (GATTLIB_ERROR_DBUS_WITH_ERROR e, CONNECTING)
      | Inr p \<Rightarrow> (case call_connect_error env of
            Some e \<Rightarrow> (connect_error_code e, DISCONNECTED)
          | None \<Rightarrow> (GATTLIB_SUCCESS, CONNECTING)))"

definition connect_calls :: "connect_env \<Rightarrow> device_state \<Rightarrow> event list" where
  "connect_calls env old = (if old = DISCONNECTED then (case device_proxy env of Inr p \<Rightarrow> [Ev_connect p] | Inl _ \<Rightarrow> []) else [])"

lemma connect_outcome_reported:
  "fst (connect_outcome env old) = GATTLIB_SUCCESS \<longleftrightarrow>
     old = DISCONNECTED \<and> (\<exists>p. device_proxy env = Inr p) \<and> call_connect_error env = None"
  using dbus_error_nonzero connect_error_nonzero
  by (auto simp: connect_outcome_def ret_codes split: sum.splits option.splits)

lemma connect_device_spec:
  assumes wf: "wf_gstate s" and a: "a \<in> set (m_adapter_list s)"
  shows "\<exists>t. connect_device env a path dst cb data s = Some (fst (connect_outcome env (state_of s a path)), t)
    \<and> wf_gstate t \<and> m_adapter_list t = m_adapter_list s
    \<and> events t = events s @ connect_calls env (state_of s a path)
         @ (if fst (connect_outcome env (state_of s a path)) = GATTLIB_SUCCESS then []
            else [Ev_connected cb (Some a) (Some dst) None (fst (connect_outcome env (state_of s a path))) data])
    \<and> (\<forall>b \<in> set (m_adapter_list s). \<forall>k. state_of t b k =
         (if b = a \<and> strcaseeq k path then snd (connect_outcome env (state_of s a path)) else state_of s b k))"
proof -
  have valid: "gattlib_adapter_is_valid (Some a) s" using a by (simp add: gattlib_adapter_is_valid_def)
  note look = get_device_lookup [OF wf a, of path]
  show ?thesis
  proof (cases "state_of s a path = DISCONNECTED")
    case False
    have "connect_device env a path dst cb data s =
        connect_exit cb a dst data (fst (connect_outcome env (state_of s a path))) s"
    proof (cases "device_lookup s a path")
      case None
      with valid look state_of_NOT_FOUND [OF wf a] show ?thesis
        by (simp add: connect_device_def connect_outcome_def)
    next
      case (Some d)
      then obtain y where "dev_heap s d = Some y" using device_lookup_Some [OF wf a Some] by metis
      with Some valid look False state_of_NOT_FOUND [OF wf a, of path] show ?thesis
        by (simp add: connect_device_def connect_outcome_def state_of_def)
    qed
    moreover have "snd (connect_outcome env (state_of s a path)) = state_of s a path"
      "fst (connect_outcome env (state_of s a path)) \<noteq> GATTLIB_SUCCESS"
      using False by (simp_all add: connect_outcome_def ret_codes)
    ultimately show ?thesis
      using False wf by (auto simp: connect_exit_def connect_calls_def intro: state_of_strcaseeq)
  next
    case True
    then obtain d where d: "device_lookup s a path = Some d" by (auto simp: state_of_def split: option.splits)
    then obtain x y where y: "adp_heap s a = Some x" "d \<in> set (devices x)" "dev_heap s d = Some y" "wf_device a d y"
      "lower_id (dev_heap s) d = map tolower path" using device_lookup_Some [OF wf a d] by metis
    have at: "attached s d" by (rule attachedI [OF a y(1,2)])
    have id: "strcaseeq k (device_id y) = strcaseeq k path" for k using y(3,5) by (simp add: strcaseeq_def lower_id_def)
    have yd: "dstate y = DISCONNECTED" "dadapter y = a" "cdevice (dconnection y) = d" "0 < dref y"
      using True d y by (simp_all add: state_of_def wf_device_def)
    let ?y1 = "y\<lparr>dconnection := (dconnection y)\<lparr>on_connection := (on_connection (dconnection y))\<lparr>callback := Some cb, user_data := data\<rparr>\<rparr>\<rparr>"
    let ?y2 = "?y1\<lparr>dstate := CONNECTING\<rparr>"
    have wf1: "wf_gstate (put_device d ?y1 s)" using wf at y yd by (intro wf_update_device) auto
    have set1: "gattlib_device_set_state None (Some a) (device_id y) CONNECTING (put_device d ?y1 s) =
        Some (GATTLIB_SUCCESS, put_device d ?y2 s)"
      using set_state_self [OF wf1, of d ?y1 CONNECTING None] at yd by simp
    have st: "state_of (put_device d z s) b k = (if b = a \<and> strcaseeq k path then dstate z else state_of s b k)"
      if "device_id z = device_id y" "b \<in> set (m_adapter_list s)" for z b k
      using state_of_update [OF wf at y(3) that(2,1)] yd id by simp
    have wfz: "wf_gstate (put_device d z s)"
      if "device_id z = device_id y" "dadapter z = a" "cdevice (dconnection z) = d" "dstate z \<noteq> NOT_FOUND" "0 < dref z" for z
      using that yd by (intro wf_update_device [OF wf at y(3)]) auto
    show ?thesis
    proof (cases "device_proxy env")
      case (Inl e)
      have "connect_device env a path dst cb data s = connect_exit cb a dst data
          (case e of None \<Rightarrow> GATTLIB_ERROR_DBUS | Some e \<Rightarrow> GATTLIB_ERROR_DBUS_WITH_ERROR e) (put_device d ?y2 s)"
        using valid look d y yd set1 Inl by (simp add: connect_device_def Let_def)
      with True Inl st [of ?y2] wfz [of ?y2] yd dbus_error_nonzero show ?thesis
        by (auto simp: connect_exit_def connect_calls_def connect_outcome_def ret_codes split: option.splits)
    next
      case (Inr p)
      let ?b = "(cbackend (dconnection ?y2))\<lparr>bluez_device := Some p, device_object_path := Some path,
                   on_handle_device_property_change_id := ucast (property_handler_id env)\<rparr>"
      show ?thesis
      proof (cases "call_connect_error env")
        case None
        let ?y3 = "?y2\<lparr>dconnection := (dconnection ?y2)\<lparr>cbackend := ?b\<lparr>connection_timeout_id := timeout_source env\<rparr>\<rparr>\<rparr>"
        have "connect_device env a path dst cb data s = Some (GATTLIB_SUCCESS, emit (Ev_connect p) (put_device d ?y3 s))"
          using valid look d y yd set1 Inr None
          by (simp add: connect_device_def Let_def set_backend_def)
        with True Inr None st [of ?y3] wfz [of ?y3] yd show ?thesis
          by (simp add: connect_calls_def connect_outcome_def)
      next
        case (Some e)
        let ?y3 = "?y2\<lparr>dconnection := (dconnection ?y2)\<lparr>cbackend := ?b\<rparr>\<rparr>"
        let ?y4 = "?y3\<lparr>dstate := DISCONNECTED\<rparr>"
        let ?y5 = "?y4\<lparr>dconnection := (dconnection ?y4)\<lparr>cbackend := ?b\<lparr>device_object_path := None\<rparr>\<rparr>\<rparr>"
        let ?s3 = "emit (Ev_connect p) (put_device d ?y3 s)"
        have "wf_gstate ?s3" using wfz [of ?y3] yd by simp
        then have set2: "gattlib_device_set_state None (Some a) (device_id y) DISCONNECTED ?s3 =
            Some (GATTLIB_SUCCESS, put_device d ?y4 ?s3)"
          using set_state_self [of ?s3 d ?y3 DISCONNECTED None] at yd by simp
        have "connect_device env a path dst cb data s =
            connect_exit cb a dst data (connect_error_code e) (emit (Ev_connect p) (put_device d ?y5 s))"
          using valid look d y yd set1 set2 Inr Some
          by (cases y) (simp add: connect_device_def Let_def set_backend_def)
        with True Inr Some st [of ?y5] wfz [of ?y5] yd connect_error_nonzero [of e] show ?thesis
          by (simp add: connect_exit_def connect_calls_def connect_outcome_def)
      qed
    qed
  qed
qed

lemma on_disconnected_attached:
  assumes wf: "wf_gstate s" and c: "attached s c" and y: "dev_heap s c = Some y" and app: "benign app c"
    and l: "\<And>l. dbus_objects (cbackend (dconnection y)) = Some l \<Longrightarrow> list_heap s l \<noteq> None"
  obtains t es where "gattlib_on_disconnected_device app c s = Some t" "wf_gstate t" "attached t c"
    "m_adapter_list t = m_adapter_list s"
    "dev_heap t c = Some (y\<lparr>dconnection := (dconnection y)\<lparr>cbackend := released (cbackend (dconnection y))\<rparr>, dstate := DISCONNECTED\<rparr>)"
    "list_heap t = (case dbus_objects (cbackend (dconnection y)) of None \<Rightarrow> list_heap s | Some l \<Rightarrow> (list_heap s)(l := None))"
    "\<forall>b \<in> set (m_adapter_list s). \<forall>k. state_of t b k =
        (if b = dadapter y \<and> strcaseeq k (device_id y) then DISCONNECTED else state_of s b k)"
    "events t = events s @ (case callback (on_disconnection (dconnection y)) of None \<Rightarrow> []
        | Some f \<Rightarrow> [Ev_disconnected f c (user_data (on_disconnection (dconnection y)))])
      @ es @ release_events (cbackend (dconnection y)) @ [Ev_broadcast]"
proof -
  let ?h = "on_disconnection (dconnection y)"
  obtain u es where u: "(case callback ?h of None \<Rightarrow> Some s
      | Some f \<Rightarrow> app (Ev_disconnected f c (user_data ?h)) (emit (Ev_disconnected f c (user_data ?h)) s)) = Some u"
    "wf_gstate u" "attached u c" "dev_heap u c = Some y" "list_heap u = list_heap s" "m_adapter_list u = m_adapter_list s"
    "\<forall>b \<in> set (m_adapter_list s). \<forall>k. state_of u b k = state_of s b k"
    "events u = events s @ (case callback ?h of None \<Rightarrow> [] | Some f \<Rightarrow> [Ev_disconnected f c (user_data ?h)]) @ es"
  proof (cases "callback ?h")
    case None
    with that [of s "[]"] wf c y show thesis by simp
  next
    case (Some f)
    let ?e = "Ev_disconnected f c (user_data ?h)"
    have "wf_gstate (emit ?e s) \<and> attached (emit ?e s) c" using wf c by simp
    then obtain u where "app ?e (emit ?e s) = Some u" "wf_gstate u" "attached u c" "dev_heap u c = dev_heap (emit ?e s) c"
      "list_heap u = list_heap (emit ?e s)" "m_adapter_list u = m_adapter_list (emit ?e s)"
      "\<exists>es. events u = events (emit ?e s) @ es"
      "\<forall>b \<in> set (m_adapter_list (emit ?e s)). \<forall>k. state_of u b k = state_of (emit ?e s) b k"
      using app unfolding benign_def by blast
    with that Some y show thesis by auto
  qed
  obtain t where t: "gattlib_connection_free c u = Some t" "wf_gstate t" "attached t c" "m_adapter_list t = m_adapter_list u"
    "dev_heap t = (dev_heap u)(c \<mapsto> y\<lparr>dconnection := (dconnection y)\<lparr>cbackend := released (cbackend (dconnection y))\<rparr>, dstate := DISCONNECTED\<rparr>)"
    "list_heap t = (case dbus_objects (cbackend (dconnection y)) of None \<Rightarrow> list_heap u | Some l \<Rightarrow> (list_heap u)(l := None))"
    "events t = events u @ release_events (cbackend (dconnection y))"
    "\<forall>b \<in> set (m_adapter_list u). \<forall>k. state_of t b k =
        (if b = dadapter y \<and> strcaseeq k (device_id y) then DISCONNECTED else state_of u b k)"
    by (rule connection_free_attached [OF u(2,3,4)]) (use l u(5) in auto)
  let ?t = "emit Ev_broadcast (t\<lparr>signals := signals t OR GATTLIB_SIGNAL_DEVICE_DISCONNECTION\<rparr>)"
  have run: "gattlib_on_disconnected_device app c s = Some ?t"
    using wf c y u(1) t(1) by (simp add: gattlib_on_disconnected_device_def connection_is_valid_wf Let_def)
  show thesis
    by (rule that [OF run, of es]) (use t u in \<open>auto split: option.splits\<close>)
qed

section \<open>Properties\<close>


definition ex_connect_env :: connect_env where
  "ex_connect_env = \<lparr>default_proxy = Inl None, default_alloc = None, device_proxy = Inr 21, property_handler_id = 31,
     call_connect_error = None, timeout_source = 41\<rparr>"

text \<open>The example's device, under the path of a MAC address.\<close>

definition ex_mac :: string where "ex_mac = ''DA:94''"

definition ex_known :: "device_state \<Rightarrow> gstate" where
  "ex_known st = put_device 2 ((ex_device st)\<lparr>device_id := ''/org/bluez/hci0/dev_DA_94''\<rparr>) (ex_state st)"

lemma ex_known_wf: "st \<noteq> NOT_FOUND \<Longrightarrow> wf_gstate (ex_known st)"
  by (simp add: ex_known_def ex_defs wf_gstate_def wf_adapter_def wf_device_def)

lemma ex_known_sel [simp]: "m_adapter_list (ex_known st) = [1]" "adp_heap (ex_known st) = [1 \<mapsto> ex_adapter [2]]"
  "dev_heap (ex_known st) = [2 \<mapsto> (ex_device st)\<lparr>device_id := ''/org/bluez/hci0/dev_DA_94''\<rparr>]"
  by (simp_all add: ex_known_def)

lemma ex_known_state: "state_of (ex_known st) 1 ''/org/bluez/hci0/dev_DA_94'' = st"
  by (simp add: state_of_def device_lookup_def lower_id_def ex_adapter_def ex_device_def del: One_nat_def)

lemma ex_mac_path:
  "get_device_path_from_mac (Some ''hci0'') ex_mac GATTLIB_DBUS_OBJECT_PATH_SIZE_MAX = Some ''/org/bluez/hci0/dev_DA_94''"
  by (simp add: get_device_path_from_mac_def device_address_str_def snprintf_def GATTLIB_DBUS_OBJECT_PATH_SIZE_MAX_def ex_mac_def)


text \<open>When the proxy of the device cannot be made, the attempt fails but leaves the device marked
  as connecting; from then on every attempt to connect to it is refused as busy, whatever BlueZ
  would answer.\<close>

theorem connect_proxy_failure_sticks:
  assumes "wf_gstate s" and "a \<in> set (m_adapter_list s)" and "state_of s a path = DISCONNECTED" and "device_proxy env = Inl e"
  shows "\<exists>r t. connect_device env a path dst cb data s = Some (r, t) \<and> r \<noteq> GATTLIB_SUCCESS
    \<and> gattlib_device_get_state a path t = Some CONNECTING
    \<and> (\<forall>env2 dst2 cb2 data2. \<exists>u. connect_device env2 a path dst2 cb2 data2 t = Some (GATTLIB_BUSY, u)
         \<and> gattlib_device_get_state a path u = Some CONNECTING)"
proof -
  have busy: "connect_outcome env2 CONNECTING = (GATTLIB_BUSY, CONNECTING)" for env2 by (simp add: connect_outcome_def)
  have out: "snd (connect_outcome env DISCONNECTED) = CONNECTING" "fst (connect_outcome env DISCONNECTED) \<noteq> GATTLIB_SUCCESS"
    using assms(4) connect_outcome_reported [of env DISCONNECTED] by (auto simp: connect_outcome_def split: option.splits)
  obtain t where t: "connect_device env a path dst cb data s = Some (fst (connect_outcome env DISCONNECTED), t)" "wf_gstate t"
    "m_adapter_list t = m_adapter_list s" "state_of t a path = CONNECTING"
    using connect_device_spec [OF assms(1,2), of env path dst cb data] assms(2) out by (auto simp: assms(3) strcaseeq_refl)
  have a: "a \<in> set (m_adapter_list t)" using assms(2) t(3) by simp
  have "\<exists>u. connect_device env2 a path dst2 cb2 data2 t = Some (GATTLIB_BUSY, u) \<and> gattlib_device_get_state a path u = Some CONNECTING"
    for env2 dst2 cb2 data2
  proof -
    obtain u where u: "connect_device env2 a path dst2 cb2 data2 t = Some (GATTLIB_BUSY, u)" "wf_gstate u"
      "m_adapter_list u = m_adapter_list t" "state_of u a path = CONNECTING"
      using connect_device_spec [OF t(2) a, of env2 path dst2 cb2 data2] a by (auto simp: t(4) busy strcaseeq_refl)
    then show ?thesis using get_state_state_of [of u a path] a by simp
  qed
  with t(1) out(2) get_state_state_of [OF t(2) a, of path] t(4) show ?thesis by auto
qed

lemma connect_proxy_failure_sticks_witness:
  "\<exists>r t. connect_device (ex_connect_env\<lparr>device_proxy := Inl None\<rparr>) 1 ''/org/bluez/hci0/dev_DA_94'' ex_mac 7 3 (ex_known DISCONNECTED)
      = Some (r, t) \<and> gattlib_device_get_state 1 ''/org/bluez/hci0/dev_DA_94'' t = Some CONNECTING"
  using connect_proxy_failure_sticks [OF ex_known_wf [of DISCONNECTED], of 1 "''/org/bluez/hci0/dev_DA_94''"
      "ex_connect_env\<lparr>device_proxy := Inl None\<rparr>" None ex_mac 7 3]
  by (auto simp: ex_known_state simp del: One_nat_def)

lemma wf_put_adapter_manager:
  "wf_gstate s \<Longrightarrow> adp_heap s a = Some x \<Longrightarrow> a \<in> set (m_adapter_list s) \<Longrightarrow> wf_gstate (put_adapter a (x\<lparr>device_manager := m\<rparr>) s)"
  by (rule adapter_frame_wf [of s a]) (auto simp: adapter_frame_def)

lemma get_device_manager_wf:
  assumes "wf_gstate s" "a \<in> set (m_adapter_list s)" "dm = Inr m"
  obtains t m where "get_device_manager_from_adapter a dm s = Some (Inr m, t)" "wf_gstate t"
    "m_adapter_list t = m_adapter_list s" "dev_heap t = dev_heap s" "list_heap t = list_heap s" "events t = events s"
    "\<forall>c. attached t c = attached s c" "\<forall>b k. state_of t b k = state_of s b k"
proof -
  obtain x where x: "adp_heap s a = Some x" using assms by (elim wf_adapterE)
  show thesis
  proof (cases "device_manager x")
    case (Some m)
    show thesis by (rule that [of m s]) (use assms x Some in \<open>simp_all add: get_device_manager_from_adapter_def\<close>)
  next
    case None
    let ?t = "put_adapter a (x\<lparr>device_manager := Some m\<rparr>) s"
    have "wf_gstate ?t" using assms x by (intro wf_put_adapter_manager)
    moreover have "attached ?t c = attached s c" for c by (rule attached_put_adapter [OF x]) simp
    moreover have "state_of ?t b k = state_of s b k" for b k by (rule state_of_put_adapter [OF x]) simp
    ultimately show thesis
      by (intro that [of m ?t]) (use assms x None in \<open>simp_all add: get_device_manager_from_adapter_def\<close>)
  qed
qed

lemma remove_source_sel [simp]:
  "m_adapter_list (remove_source i s) = m_adapter_list s" "adp_heap (remove_source i s) = adp_heap s"
  "dev_heap (remove_source i s) = dev_heap s" "list_heap (remove_source i s) = list_heap s"
  "wf_gstate (remove_source i s) = wf_gstate s" "attached (remove_source i s) c = attached s c"
  "events (remove_source i s) = events s @ (if i \<noteq> 0 then [Ev_source_remove i] else [])"
  by (simp_all add: remove_source_def)

lemma alloc_objects_sel [simp]:
  "m_adapter_list (alloc_objects p s) = m_adapter_list s" "adp_heap (alloc_objects p s) = adp_heap s"
  "dev_heap (alloc_objects p s) = dev_heap s" "events (alloc_objects p s) = events s"
  "wf_gstate (alloc_objects p s) = wf_gstate s" "attached (alloc_objects p s) c = attached s c"
  "list_heap (alloc_objects p s) = (case p of None \<Rightarrow> list_heap s | Some (l, os) \<Rightarrow> (list_heap s)(l \<mapsto> os))"
  by (simp_all add: alloc_objects_def split: option.splits)

text \<open>The device after its services are resolved.\<close>

definition resolved :: "connected_env \<Rightarrow> device \<Rightarrow> device" where
  "resolved env y = y\<lparr>dconnection := (dconnection y)\<lparr>cbackend := (cbackend (dconnection y))
     \<lparr>connection_timeout_id := 0, dbus_objects := map_option fst (c_objects env)\<rparr>\<rparr>, dstate := CONNECTED\<rparr>"

lemma on_device_connect_attached:
  assumes wf: "wf_gstate s" and c: "attached s c" and y: "dev_heap s c = Some y" and dm: "c_device_manager env = Inr m"
  obtains t where "on_device_connect env c s = Some t" "wf_gstate t" "attached t c" "m_adapter_list t = m_adapter_list s"
    "dev_heap t = (dev_heap s)(c \<mapsto> resolved env y)"
    "list_heap t = (case c_objects env of None \<Rightarrow> list_heap s | Some (l, os) \<Rightarrow> (list_heap s)(l \<mapsto> os))"
    "events t = events s @ (if connection_timeout_id (cbackend (dconnection y)) \<noteq> 0
        then [Ev_source_remove (connection_timeout_id (cbackend (dconnection y)))] else [])
      @ (if callback (on_connection (dconnection y)) \<noteq> None \<and> c_thread_ok env then [Ev_thread (Th_connected c)] else [])"
proof -
  have yd: "dadapter y \<in> set (m_adapter_list s)" "cdevice (dconnection y) = c" "dstate y \<noteq> NOT_FOUND" "0 < dref y"
    using attached_device [OF wf c] y by auto
  let ?b = "(cbackend (dconnection y))\<lparr>connection_timeout_id := 0\<rparr>"
  let ?y1 = "y\<lparr>dconnection := (dconnection y)\<lparr>cbackend := ?b\<rparr>\<rparr>"
  let ?e = "remove_source (connection_timeout_id (cbackend (dconnection y))) s"
  let ?s1 = "put_device c ?y1 ?e"
  have wf1: "wf_gstate ?s1" using wf c y yd by (intro wf_update_device) auto
  obtain u m where u: "get_device_manager_from_adapter (dadapter y) (c_device_manager env) ?s1 = Some (Inr m, u)"
    "wf_gstate u" "m_adapter_list u = m_adapter_list ?s1" "dev_heap u = dev_heap ?s1" "list_heap u = list_heap ?s1"
    "events u = events ?s1" "\<forall>c. attached u c = attached ?s1 c"
    by (rule get_device_manager_wf [OF wf1 _ dm, of "dadapter y"]) (use yd in auto)
  let ?l = "alloc_objects (c_objects env) u"
  have l: "wf_gstate ?l" "attached ?l c" "dev_heap ?l c = Some ?y1" "m_adapter_list ?l = m_adapter_list s"
    "dev_heap ?l = (dev_heap s)(c \<mapsto> ?y1)" "events ?l = events ?e" "adp_heap ?l = adp_heap u"
    "list_heap ?l = (case c_objects env of None \<Rightarrow> list_heap s | Some (l, os) \<Rightarrow> (list_heap s)(l \<mapsto> os))"
    using u c by (simp_all split: option.splits)
  let ?y2 = "?y1\<lparr>dconnection := (dconnection ?y1)\<lparr>cbackend := ?b\<lparr>dbus_objects := map_option fst (c_objects env)\<rparr>\<rparr>\<rparr>"
  let ?s2 = "put_device c ?y2 ?l"
  have wf2: "wf_gstate ?s2" using yd by (intro wf_update_device [OF l(1-3)]) auto
  have r: "?y2\<lparr>dstate := CONNECTED\<rparr> = resolved env y" by (simp add: resolved_def)
  have set: "gattlib_device_set_state None (Some (dadapter y)) (device_id y) CONNECTED ?s2 =
      Some (GATTLIB_SUCCESS, put_device c (resolved env y) ?l)"
    using set_state_self [OF wf2, of c ?y2 CONNECTED None] l(2) r by simp
  let ?s3 = "put_device c (resolved env y) ?l"
  have wf3: "wf_gstate ?s3"
    using yd by (intro wf_update_device [OF l(1-3)]) (auto simp: resolved_def)
  let ?t = "if callback (on_connection (dconnection y)) \<noteq> None \<and> c_thread_ok env then emit (Ev_thread (Th_connected c)) ?s3 else ?s3"
  have last: "gattlib_on_connected_device c (c_thread_ok env) ?s3 = Some ?t"
    using wf3 l(2) by (auto simp: gattlib_on_connected_device_def connection_is_valid_wf resolved_def
        gattlib_handler_dispatch_to_thread_def gattlib_has_valid_handler_def)
  have sb: "set_backend c y ?b ?e = ?s1"
    "set_backend c y (?b\<lparr>dbus_objects := map_option fst (c_objects env)\<rparr>) ?l = ?s2"
    by (simp_all add: set_backend_def)
  have dev: "dev_heap ?s1 c = Some ?y1" "cdevice (dconnection ?y1) = c" "dadapter ?y1 = dadapter y" "device_id ?y1 = device_id y"
    using yd by simp_all
  have run: "on_device_connect env c s = Some ?t"
    using wf c y u(1) set last yd sb
    by (simp add: on_device_connect_def connection_is_valid_wf Let_def set_backend_def)
  have "wf_gstate ?t" "attached ?t c" using wf3 l(2) by simp_all
  then show thesis
    by (intro that [OF run]) (use l in \<open>auto split: if_splits\<close>)
qed

lemma disconnect_enter_connected:
  assumes wf: "wf_gstate s" and c: "attached s c" and y: "dev_heap s c = Some y" "dstate y = CONNECTED"
  defines "t \<equiv> emit (Ev_disconnect (bluez_device (cbackend (dconnection y)))) (put_device c (y\<lparr>dstate := DISCONNECTING\<rparr>) s)"
  shows "gattlib_disconnect_enter (Some c) s = Some (GATTLIB_SUCCESS, t)" "wf_gstate t" "attached t c"
proof -
  have yd: "cdevice (dconnection y) = c" "0 < dref y" using attached_device [OF wf c] y by auto
  let ?e = "emit (Ev_disconnect (bluez_device (cbackend (dconnection y)))) s"
  have "gattlib_device_set_state None (Some (dadapter y)) (device_id y) DISCONNECTING ?e =
      Some (GATTLIB_SUCCESS, put_device c (y\<lparr>dstate := DISCONNECTING\<rparr>) ?e)"
    using set_state_self [of ?e c y DISCONNECTING None] wf c y by simp
  then show "gattlib_disconnect_enter (Some c) s = Some (GATTLIB_SUCCESS, t)"
    using wf c y yd by (simp add: gattlib_disconnect_enter_def connection_is_connected_wf connected_def t_def)
  show "wf_gstate t" unfolding t_def using yd wf_update_device [OF wf c y(1)] by simp
  show "attached t c" using c by (simp add: t_def)
qed


definition ex_connecting :: gstate where
  "ex_connecting = put_device 2 ((ex_device CONNECTING)\<lparr>dconnection := (connection_init 2)\<lparr>
     on_connection := handler_init\<lparr>callback := Some 7\<rparr>, on_disconnection := handler_init\<lparr>callback := Some 8\<rparr>\<rparr>\<rparr>) (ex_state CONNECTING)"

definition ex_connected_env :: connected_env where
  "ex_connected_env = \<lparr>c_device_manager = Inr 1, c_objects = Some (50, [''/org/bluez/hci0'']), c_thread_ok = True\<rparr>"

lemma ex_connecting_facts:
  "wf_gstate ex_connecting" "attached ex_connecting 2"
  "dev_heap ex_connecting 2 = Some ((ex_device CONNECTING)\<lparr>dconnection := (connection_init 2)\<lparr>
     on_connection := handler_init\<lparr>callback := Some 7\<rparr>, on_disconnection := handler_init\<lparr>callback := Some 8\<rparr>\<rparr>\<rparr>)"
proof -
  have at: "attached (ex_state CONNECTING) 2" by (simp add: attached_def ex_adapter_def)
  show "wf_gstate ex_connecting" unfolding ex_connecting_def
    by (rule wf_put_handler [OF ex_state_wf at]) (simp_all add: ex_device_def connection_init_def)
  show "attached ex_connecting 2" using at by (simp add: ex_connecting_def)
qed (simp add: ex_connecting_def)


text \<open>C39: Waiting for the disconnection never waits: the device has just been marked disconnecting, so
  the first test of the wait already finds it not connected, before BlueZ has reported the
  disconnection.\<close>

theorem disconnect_never_waits:
  assumes "wf_gstate s" and "gattlib_disconnect_enter (Some c) s = Some (GATTLIB_SUCCESS, t)"
  shows "gattlib_disconnect_wait c t wakeups = Some (Some GATTLIB_SUCCESS)
    \<and> dstate (the (dev_heap t c)) = DISCONNECTING"
proof -
  have "connected s c"
    using assms by (auto simp: gattlib_disconnect_enter_def connection_is_connected_wf bind_eq_Some_conv ret_codes split: if_splits)
  then have c: "attached s c" "dstate (the (dev_heap s c)) = CONNECTED" by (simp_all add: connected_def)
  then obtain y where y: "dev_heap s c = Some y" "dstate y = CONNECTED" using attached_device [OF assms(1)] by (metis option.sel)
  note d = disconnect_enter_connected [OF assms(1) c(1) y]
  from d(1) assms(2) have t: "t = emit (Ev_disconnect (bluez_device (cbackend (dconnection y)))) (put_device c (y\<lparr>dstate := DISCONNECTING\<rparr>) s)"
    by simp
  then have "gattlib_connection_is_connected (Some c) t = Some False"
    using d(2) by (simp add: connection_is_connected_wf connected_def)
  then show ?thesis by (cases wakeups) (simp_all add: t)
qed

lemma disconnect_never_waits_witness:
  "\<exists>t. gattlib_disconnect_enter (Some 2) (ex_state CONNECTED) = Some (GATTLIB_SUCCESS, t)
    \<and> gattlib_disconnect_wait 2 t [] = Some (Some GATTLIB_SUCCESS)"
proof -
  have "attached (ex_state CONNECTED) 2" by (simp add: attached_def ex_adapter_def)
  then obtain t where t: "gattlib_disconnect_enter (Some 2) (ex_state CONNECTED) = Some (GATTLIB_SUCCESS, t)"
    using disconnect_enter_connected(1) [OF ex_state_wf [of CONNECTED], of 2 "ex_device CONNECTED"] by (auto simp: ex_device_def)
  then show ?thesis using disconnect_never_waits [OF ex_state_wf [of CONNECTED] t, of "[]"] by auto
qed

text \<open>The object list is freed but its pointer stays in the connection. Releasing the connection
  again before a new list is recorded, as happens when a reconnection is lost before its services
  are resolved, frees the same list a second time, which is undefined.\<close>

theorem connection_free_twice:
  assumes "wf_gstate s" and "attached s c" and "dev_heap s c = Some y"
    and "dbus_objects (cbackend (dconnection y)) = Some l" and "list_heap s l \<noteq> None"
  shows "\<exists>t. gattlib_connection_free c s = Some t \<and> wf_gstate t \<and> list_heap t l = None
    \<and> (\<forall>(u :: gstate) z. dev_heap u c = Some z \<and> cdevice (dconnection z) = c \<and> list_heap u l = None
         \<and> dbus_objects (cbackend (dconnection z)) = dbus_objects (cbackend (dconnection (the (dev_heap t c))))
         \<longrightarrow> gattlib_connection_free c u = None)"
proof -
  obtain t where t: "gattlib_connection_free c s = Some t" "wf_gstate t"
    "dev_heap t = (dev_heap s)(c \<mapsto> y\<lparr>dconnection := (dconnection y)\<lparr>cbackend := released (cbackend (dconnection y))\<rparr>, dstate := DISCONNECTED\<rparr>)"
    "list_heap t = (case dbus_objects (cbackend (dconnection y)) of None \<Rightarrow> list_heap s | Some l \<Rightarrow> (list_heap s)(l := None))"
    by (rule connection_free_attached [OF assms(1-3)]) (use assms in auto)
  have "dbus_objects (cbackend (dconnection (the (dev_heap t c)))) = Some l" "list_heap t l = None"
    using t assms(4) by (simp_all add: released_def)
  with t(1,2) show ?thesis
    by (auto simp: gattlib_connection_free_def free_dbus_objects_def Let_def)
qed

lemma connection_free_twice_witness:
  "\<exists>s t. gattlib_connection_free 2 s = Some t \<and> gattlib_connection_free 2 t = None"
proof -
  let ?y = "(ex_device CONNECTED)\<lparr>dconnection := (connection_init 2)\<lparr>cbackend := connection_backend_init\<lparr>dbus_objects := Some 50\<rparr>\<rparr>\<rparr>"
  let ?s = "(put_device 2 ?y (ex_state CONNECTED))\<lparr>list_heap := [50 \<mapsto> []]\<rparr>"
  have at: "attached (ex_state CONNECTED) 2" by (simp add: attached_def ex_adapter_def)
  have wf: "wf_gstate ?s"
    using wf_put_handler [OF ex_state_wf at, of "ex_device CONNECTED"] by (simp add: ex_device_def connection_init_def)
  obtain t where t: "gattlib_connection_free 2 ?s = Some t" "wf_gstate t" "list_heap t 50 = None"
    "\<forall>(u :: gstate) z. dev_heap u 2 = Some z \<and> cdevice (dconnection z) = 2 \<and> list_heap u 50 = None
         \<and> dbus_objects (cbackend (dconnection z)) = dbus_objects (cbackend (dconnection (the (dev_heap t 2))))
         \<longrightarrow> gattlib_connection_free 2 u = None"
    using connection_free_twice [OF wf, of 2 ?y 50] at by auto
  obtain z where "dev_heap t 2 = Some z" "cdevice (dconnection z) = 2"
    by (rule connection_free_attached [OF wf, of 2 ?y]) (use at t(1) in \<open>auto simp: connection_init_def released_def\<close>)
  with t(1,3,4) have "gattlib_connection_free 2 t = None" by simp
  with t(1) show ?thesis by blast
qed
end
