(* ===== verification/Discover.thy ===== *)
theory Discover
  imports Connection
begin

text \<open>
  Discovery of the primary services and of the characteristics of a device
  (\<open>dbus/gattlib.c\<close>, the functions for BlueZ 5.38 and later). BlueZ's object tree is a parameter: a
  snapshot of which interfaces each object path has and of the properties of their proxies.
  The loops over the connection's object list are recursion over that list; \<open>None\<close> is
  undefined behaviour: a null string compared, an uninitialised handle used, a write past the
  end of the array of results.
\<close>

section \<open>The object tree\<close>

text \<open>A string property is \<open>None\<close> when its getter returns null.\<close>

record gatt_service =
  sv_device :: "string option"
  sv_primary :: bool
  sv_uuid :: "string option"

record gatt_char =
  ch_proxy :: nat
  ch_service :: "string option"
  ch_uuid :: "string option"
  ch_flags :: "string list"

text \<open>A proxy that cannot be made is \<open>None\<close>.\<close>

record bus =
  has_gatt_service :: "string \<Rightarrow> bool"
  has_gatt_char :: "string \<Rightarrow> bool"
  has_battery :: "string \<Rightarrow> bool"
  service_proxy :: "string \<Rightarrow> gatt_service option"
  char_proxy :: "string \<Rightarrow> gatt_char option"
  battery_proxy :: "string \<Rightarrow> nat option"
  device_uuids :: "nat option \<Rightarrow> string list option"

record primary_service =
  attr_handle_start :: u16
  attr_handle_end :: u16
  ps_uuid :: uuid

record characteristic =
  char_handle :: u16
  char_properties :: u8
  char_value_handle :: u16
  char_uuid :: uuid

text \<open>The handle in the last four characters of a path: \<open>sscanf(path + strlen(path) - 4, "%x", &h)\<close>.
  The outer \<open>None\<close> is a pointer before the string, the inner one a matching failure.\<close>

definition path_handle :: "string \<Rightarrow> u32 option option" where
  "path_handle path =
     (if length path < 4 then None
      else Some (map_option (\<lambda>(v, _). word_of_int v) (scan_x 4 (drop (length path - 4) path))))"

text \<open>The UUID stored in a zeroed entry of the array of results.\<close>

definition uuid_in_entry :: "string option \<Rightarrow> uuid option" where
  "uuid_in_entry str = do {
     t \<leftarrow> str;
     Some (case gattlib_string_to_uuid t of Inr u \<Rightarrow> u | Inl _ \<Rightarrow> UUID_other 0)
   }"

section \<open>Primary services\<close>

text \<open>The last handle of a service: the largest handle of the characteristics below its path.\<close>

fun service_end_handle :: "bus \<Rightarrow> string \<Rightarrow> string list \<Rightarrow> u16 \<Rightarrow> u16 option" where
  "service_end_handle bus object_path [] e = Some e"
| "service_end_handle bus object_path (characteristic_path # objs) e =
     (if \<not> has_gatt_char bus characteristic_path then service_end_handle bus object_path objs e
      else if take (length object_path) characteristic_path \<noteq> object_path
      then service_end_handle bus object_path objs e
      else do {
        scanned \<leftarrow> path_handle characteristic_path;
        let handle = (case scanned of None \<Rightarrow> ucast e | Some h \<Rightarrow> h);
        service_end_handle bus object_path objs (ucast (max (ucast e :: u32) handle))
      })"

definition GATTLIB_INVALID_HANDLE :: u32 where "GATTLIB_INVALID_HANDLE = 0xFFFF"

text \<open>The entry for one object; the answer is \<open>Some None\<close> when the object is skipped.\<close>

definition primary_service_of :: "bus \<Rightarrow> string option \<Rightarrow> string list \<Rightarrow> string \<Rightarrow> primary_service option option" where
  "primary_service_of bus dev_path all_objs object_path =
     (if \<not> has_gatt_service bus object_path then Some None
      else case service_proxy bus object_path of
        None \<Rightarrow> Some None
      | Some sv \<Rightarrow> (case sv_device sv of
            None \<Rightarrow> Some None
          | Some service_property \<Rightarrow> do {
              p \<leftarrow> dev_path;
              if p \<noteq> service_property then Some None
              else if \<not> sv_primary sv then Some None
              else do {
                scanned \<leftarrow> path_handle object_path;
                let h = ucast (case scanned of None \<Rightarrow> GATTLIB_INVALID_HANDLE | Some h \<Rightarrow> h);
                e \<leftarrow> service_end_handle bus object_path all_objs h;
                u \<leftarrow> uuid_in_entry (sv_uuid sv);
                Some (Some \<lparr>attr_handle_start = h, attr_handle_end = e, ps_uuid = u\<rparr>)
              }
            }))"

text \<open>The array holds \<open>count_max\<close> entries; the loop writes the next one without a check.\<close>

fun discover_services :: "bus \<Rightarrow> string option \<Rightarrow> string list \<Rightarrow> nat \<Rightarrow> string list \<Rightarrow> primary_service list \<Rightarrow>
    primary_service list option" where
  "discover_services bus dev_path all_objs count_max [] acc = Some acc"
| "discover_services bus dev_path all_objs count_max (object_path # objs) acc = do {
     entry \<leftarrow> primary_service_of bus dev_path all_objs object_path;
     case entry of
       None \<Rightarrow> discover_services bus dev_path all_objs count_max objs acc
     | Some e \<Rightarrow>
         if count_max \<le> length acc then None
         else discover_services bus dev_path all_objs count_max objs (acc @ [e])
   }"

text \<open>The objects that the connection lists; reading a freed list is undefined.\<close>

definition connection_objects :: "connection_backend \<Rightarrow> gstate \<Rightarrow> string list option" where
  "connection_objects b s = (case dbus_objects b of None \<Rightarrow> Some [] | Some l \<Rightarrow> list_heap s l)"

text \<open>\<open>calloc\<close> of the array may fail. The answer is the code and, on success, the services (\<open>None\<close>:
  the null array of a device without UUIDs).\<close>

definition gattlib_discover_primary ::
    "bus \<Rightarrow> gerror option + nat \<Rightarrow> bool \<Rightarrow> addr option \<Rightarrow> gstate \<Rightarrow> (i32 \<times> primary_service list option) res" where
  "gattlib_discover_primary bus dm calloc_ok connection s = (case connection of
       None \<Rightarrow> Some ((GATTLIB_INVALID_PARAMETER, None), s)
     | Some c \<Rightarrow> do {
         valid \<leftarrow> gattlib_connection_is_valid (Some c) s;
         if \<not> valid then Some ((GATTLIB_DEVICE_DISCONNECTED, None), s)
         else do {
           x \<leftarrow> dev_heap s c;
           dev \<leftarrow> dev_heap s (cdevice (dconnection x));
           (m, s) \<leftarrow> get_device_manager_from_adapter (dadapter dev) dm s;
           let b = cbackend (dconnection x);
           case m of
             Inl (Some e) \<Rightarrow> Some ((GATTLIB_ERROR_DBUS_WITH_ERROR e, None), s)
           | Inl None \<Rightarrow> Some ((GATTLIB_ERROR_DBUS, None), s)
           | Inr _ \<Rightarrow> (case device_uuids bus (bluez_device b) of
                 None \<Rightarrow> Some ((GATTLIB_SUCCESS, None), s)
               | Some service_strs \<Rightarrow>
                   if \<not> calloc_ok then Some ((GATTLIB_OUT_OF_MEMORY, None), s)
                   else do {
                     objs \<leftarrow> connection_objects b s;
                     services \<leftarrow> discover_services bus (device_object_path b) objs (length service_strs) objs [];
                     Some ((GATTLIB_SUCCESS, Some services), s)
                   })
         }
       })"

section \<open>Characteristics\<close>

definition GATTLIB_CHARACTERISTIC_BROADCAST :: u8 where "GATTLIB_CHARACTERISTIC_BROADCAST = 0x01"
definition GATTLIB_CHARACTERISTIC_READ :: u8 where "GATTLIB_CHARACTERISTIC_READ = 0x02"
definition GATTLIB_CHARACTERISTIC_WRITE_WITHOUT_RESP :: u8 where "GATTLIB_CHARACTERISTIC_WRITE_WITHOUT_RESP = 0x04"
definition GATTLIB_CHARACTERISTIC_WRITE :: u8 where "GATTLIB_CHARACTERISTIC_WRITE = 0x08"
definition GATTLIB_CHARACTERISTIC_NOTIFY :: u8 where "GATTLIB_CHARACTERISTIC_NOTIFY = 0x10"
definition GATTLIB_CHARACTERISTIC_INDICATE :: u8 where "GATTLIB_CHARACTERISTIC_INDICATE = 0x20"

definition flag_bit :: "string \<Rightarrow> u8" where
  "flag_bit flag =
     (if flag = ''broadcast'' then GATTLIB_CHARACTERISTIC_BROADCAST
      else if flag = ''read'' then GATTLIB_CHARACTERISTIC_READ
      else if flag = ''write'' then GATTLIB_CHARACTERISTIC_WRITE
      else if flag = ''write-without-response'' then GATTLIB_CHARACTERISTIC_WRITE_WITHOUT_RESP
      else if flag = ''notify'' then GATTLIB_CHARACTERISTIC_NOTIFY
      else if flag = ''indicate'' then GATTLIB_CHARACTERISTIC_INDICATE
      else 0)"

fun flags_properties :: "string list \<Rightarrow> u8 \<Rightarrow> u8" where
  "flags_properties [] p = p"
| "flags_properties (flag # flags) p = flags_properties flags (p OR flag_bit flag)"

text \<open>
  \<open>stale\<close>: the error of an earlier iteration has been freed but its pointer is still set, so that
  logging or freeing it again is undefined.
\<close>

fun add_characteristics_from_service :: "bus \<Rightarrow> string \<Rightarrow> u32 \<Rightarrow> u32 \<Rightarrow> nat \<Rightarrow> (string \<Rightarrow> bool) \<Rightarrow> bool \<Rightarrow>
    string list \<Rightarrow> characteristic list \<Rightarrow> characteristic list option" where
  "add_characteristics_from_service bus service_path start_handle end_handle count_max sets_error stale [] acc = Some acc"
| "add_characteristics_from_service bus service_path start_handle end_handle count_max sets_error stale (object_path # objs) acc =
     (let next = (\<lambda>stale acc. add_characteristics_from_service bus service_path start_handle end_handle count_max sets_error
                    stale objs acc) in
      if \<not> has_gatt_char bus object_path then next stale acc
      else case char_proxy bus object_path of
        None \<Rightarrow> if stale then None else next (sets_error object_path) acc
      | Some ch \<Rightarrow> (case ch_service ch of
            None \<Rightarrow> if stale then None else next stale acc
          | Some property_value \<Rightarrow>
              if property_value \<noteq> service_path then next stale acc
              else do {
                scanned \<leftarrow> path_handle object_path;
                handle \<leftarrow> scanned;
                if handle < start_handle \<or> end_handle < handle then next stale acc
                else if count_max \<le> length acc then next stale acc
                else do {
                  u \<leftarrow> uuid_in_entry (ch_uuid ch);
                  next stale (acc @ [\<lparr>char_handle = ucast handle,
                    char_properties = flags_properties (ch_flags ch) 0,
                    char_value_handle = ucast handle, char_uuid = u\<rparr>])
                }
              }))"

fun count_characteristics :: "bus \<Rightarrow> string list \<Rightarrow> nat" where
  "count_characteristics bus [] = 0"
| "count_characteristics bus (object_path # objs) =
     (if has_gatt_char bus object_path \<or> has_battery bus object_path then 1 else 0) + count_characteristics bus objs"

definition battery_characteristic :: "characteristic option" where
  "battery_characteristic = do {
     u \<leftarrow> uuid_in_entry (Some ''00002a19-0000-1000-8000-00805f9b34fb'');
     Some \<lparr>char_handle = 0, char_properties = GATTLIB_CHARACTERISTIC_READ OR GATTLIB_CHARACTERISTIC_NOTIFY,
       char_value_handle = 0, char_uuid = u\<rparr>
   }"

fun discover_characteristics :: "bus \<Rightarrow> string option \<Rightarrow> string list \<Rightarrow> u32 \<Rightarrow> u32 \<Rightarrow> nat \<Rightarrow> (string \<Rightarrow> bool) \<Rightarrow>
    string list \<Rightarrow> characteristic list \<Rightarrow> characteristic list option" where
  "discover_characteristics bus dev_path all_objs start_handle end_handle count_max sets_error [] acc = Some acc"
| "discover_characteristics bus dev_path all_objs start_handle end_handle count_max sets_error (object_path # objs) acc =
     (let next = (\<lambda>acc. discover_characteristics bus dev_path all_objs start_handle end_handle count_max sets_error objs acc) in
      if \<not> has_gatt_service bus object_path then
        (if has_battery bus object_path then
           (if count_max \<le> length acc then next acc
            else do { ch \<leftarrow> battery_characteristic; next (acc @ [ch]) })
         else next acc)
      else case service_proxy bus object_path of
        None \<Rightarrow> next acc
      | Some sv \<Rightarrow> do {
          service_device \<leftarrow> sv_device sv;
          p \<leftarrow> dev_path;
          if p \<noteq> service_device then next acc
          else do {
            acc \<leftarrow> add_characteristics_from_service bus object_path start_handle end_handle count_max sets_error False all_objs acc;
            next acc
          }
        })"

definition gattlib_discover_char_range ::
    "bus \<Rightarrow> (string \<Rightarrow> bool) \<Rightarrow> gerror option + nat \<Rightarrow> bool \<Rightarrow> addr option \<Rightarrow> u16 \<Rightarrow> u16 \<Rightarrow> gstate \<Rightarrow>
     (i32 \<times> characteristic list option) res" where
  "gattlib_discover_char_range bus sets_error dm calloc_ok connection start_handle end_handle s = do {
     valid \<leftarrow> gattlib_connection_is_valid connection s;
     if \<not> valid then Some ((GATTLIB_DEVICE_DISCONNECTED, None), s)
     else do {
       c \<leftarrow> connection;
       x \<leftarrow> dev_heap s c;
       dev \<leftarrow> dev_heap s (cdevice (dconnection x));
       (m, s) \<leftarrow> get_device_manager_from_adapter (dadapter dev) dm s;
       let b = cbackend (dconnection x);
       case m of
         Inl (Some e) \<Rightarrow> Some ((GATTLIB_ERROR_DBUS_WITH_ERROR e, None), s)
       | Inl None \<Rightarrow> Some ((GATTLIB_ERROR_DBUS, None), s)
       | Inr _ \<Rightarrow> do {
           objs \<leftarrow> connection_objects b s;
           if \<not> calloc_ok then Some ((GATTLIB_OUT_OF_MEMORY, None), s)
           else do {
             chars \<leftarrow> discover_characteristics bus (device_object_path b) objs (ucast start_handle) (ucast end_handle)
                        (count_characteristics bus objs) sets_error objs [];
             Some ((GATTLIB_SUCCESS, Some chars), s)
           }
         }
     }
   }"

definition gattlib_discover_char ::
    "bus \<Rightarrow> (string \<Rightarrow> bool) \<Rightarrow> gerror option + nat \<Rightarrow> bool \<Rightarrow> addr option \<Rightarrow> gstate \<Rightarrow>
     (i32 \<times> characteristic list option) res" where
  "gattlib_discover_char bus sets_error dm calloc_ok connection s =
     gattlib_discover_char_range bus sets_error dm calloc_ok connection 0x00 0xFF s"

definition gattlib_discover_desc_range :: i32 where
  "gattlib_discover_desc_range = GATTLIB_NOT_SUPPORTED"

definition gattlib_discover_desc :: i32 where
  "gattlib_discover_desc = GATTLIB_NOT_SUPPORTED"

section \<open>Lemmas\<close>

lemma path_handle_hex:
  "path_handle (p @ hexn 4 (unat (h :: u16))) = Some (Some (ucast h))"
proof -
  have "scan_x 4 (hexn 4 (unat h)) = Some (int (unat h), [])" using scan_x_u16 [of h "[]"] by simp
  moreover have "word_of_int (int (unat h)) = (ucast h :: u32)" by (simp add: word_eq_iff_unsigned unsigned_ucast_eq)
  ultimately show ?thesis by (simp add: path_handle_def del: hexn.simps)
qed

definition entries_of :: "bus \<Rightarrow> string option \<Rightarrow> string list \<Rightarrow> string list \<Rightarrow> primary_service list" where
  "entries_of bus dev_path all_objs objs =
     List.map_filter (\<lambda>p. the (primary_service_of bus dev_path all_objs p)) objs"

lemma discover_services_eq:
  assumes "\<forall>p \<in> set objs. primary_service_of bus dev_path all_objs p \<noteq> None"
  shows "discover_services bus dev_path all_objs n objs acc =
    (if length acc \<le> n \<or> entries_of bus dev_path all_objs objs = [] then
       (if length (acc @ entries_of bus dev_path all_objs objs) \<le> n \<or> entries_of bus dev_path all_objs objs = []
        then Some (acc @ entries_of bus dev_path all_objs objs) else None) else None)"
  using assms
proof (induction objs arbitrary: acc)
  case Nil
  then show ?case by (simp add: entries_of_def List.map_filter_simps)
next
  case (Cons p objs)
  then obtain e where e: "primary_service_of bus dev_path all_objs p = Some e" by auto
  show ?case
  proof (cases e)
    case None
    with Cons e show ?thesis by (simp add: entries_of_def List.map_filter_simps)
  next
    case (Some sv)
    have ent: "entries_of bus dev_path all_objs (p # objs) = sv # entries_of bus dev_path all_objs objs"
      using e Some by (simp add: entries_of_def List.map_filter_simps)
    show ?thesis using Cons e Some by (auto simp: ent)
  qed
qed

lemma unat_ucast_16_32 [simp]: "unat (ucast (a :: u16) :: u32) = unat a"
proof -
  have "unat a < 65536" using unsigned_less [of a, where 'a = nat] by simp
  then show ?thesis by (simp add: unsigned_ucast_eq take_bit_eq_mod)
qed

lemma ucast_16_32_16 [simp]: "ucast (ucast (a :: u16) :: u32) = a"
  by (rule bit_word_eqI) (auto simp: bit_simps)

lemma service_end_handle_max:
  assumes "\<forall>p \<in> set objs. has_gatt_char bus p \<and> take (length path) p = path \<longrightarrow> path_handle p = Some (Some (ucast (h p :: u16)))"
  shows "service_end_handle bus path objs e =
    Some (fold (\<lambda>p. max (h p)) (filter (\<lambda>p. has_gatt_char bus p \<and> take (length path) p = path) objs) e)"
  using assms
proof (induction objs arbitrary: e)
  case Nil
  show ?case by simp
next
  case (Cons p objs)
  have m: "ucast (max (ucast e :: u32) (ucast (h p))) = max (h p) e"
    by (auto simp: max_def word_le_nat_alt word_unat_eq_iff)
  from Cons show ?case by (auto simp: Let_def m)
qed

lemma flags_properties_bit:
  "bit (flags_properties flags p) n \<longleftrightarrow> bit p n \<or> (\<exists>f \<in> set flags. bit (flag_bit f) n)"
  by (induction flags arbitrary: p) (auto simp: bit_or_iff)

lemmas char_flags = GATTLIB_CHARACTERISTIC_BROADCAST_def GATTLIB_CHARACTERISTIC_READ_def GATTLIB_CHARACTERISTIC_WRITE_def
  GATTLIB_CHARACTERISTIC_WRITE_WITHOUT_RESP_def GATTLIB_CHARACTERISTIC_NOTIFY_def GATTLIB_CHARACTERISTIC_INDICATE_def

text \<open>The number of the bit of a flag.\<close>

definition flag_index :: "string \<Rightarrow> nat option" where
  "flag_index = [''broadcast'' \<mapsto> 0, ''read'' \<mapsto> 1, ''write-without-response'' \<mapsto> 2, ''write'' \<mapsto> 3,
     ''notify'' \<mapsto> 4, ''indicate'' \<mapsto> 5]"

lemma bit_exp_u8: "bit ((2 :: u8) ^ k) n \<longleftrightarrow> k < 8 \<and> n = k"
  by (subst bit_exp_iff) auto

lemma flag_bit_index: "bit (flag_bit f) n \<longleftrightarrow> flag_index f = Some n"
proof -
  note b = bit_exp_u8 [of 0 n] bit_exp_u8 [of 1 n] bit_exp_u8 [of 2 n] bit_exp_u8 [of 3 n] bit_exp_u8 [of 4 n] bit_exp_u8 [of 5 n]
  consider "f = ''broadcast''" | "f = ''read''" | "f = ''write''" | "f = ''write-without-response''" | "f = ''notify''"
    | "f = ''indicate''" | "f \<noteq> ''broadcast''" "f \<noteq> ''read''" "f \<noteq> ''write''" "f \<noteq> ''write-without-response''"
      "f \<noteq> ''notify''" "f \<noteq> ''indicate''" by blast
  then show ?thesis using b by cases (auto simp: flag_bit_def flag_index_def char_flags)
qed

lemma add_characteristics_bounds:
  assumes "add_characteristics_from_service bus path lo hi n se stale objs acc = Some res"
    and "\<forall>ch \<in> set acc. P ch" and "length acc \<le> n"
    and P: "\<And>h u p. lo \<le> h \<Longrightarrow> h \<le> hi \<Longrightarrow> P \<lparr>char_handle = ucast (h :: u32), char_properties = p, char_value_handle = ucast h, char_uuid = u\<rparr>"
  shows "(\<forall>ch \<in> set res. P ch) \<and> length res \<le> n"
  using assms(1-3)
proof (induction objs arbitrary: acc stale)
  case Nil
  then show ?case by simp
next
  case (Cons p objs)
  note IH = Cons.IH and prems = Cons.prems
  show ?case
  proof (cases "has_gatt_char bus p")
    case False
    then show ?thesis using prems IH [OF _ prems(2,3)] by (simp add: Let_def)
  next
    case g: True
    show ?thesis
    proof (cases "char_proxy bus p")
      case None
      then show ?thesis using g prems IH [OF _ prems(2,3)] by (simp add: Let_def split: if_splits)
    next
      case (Some ch)
      show ?thesis
      proof (cases "ch_service ch = Some path")
        case False
        then show ?thesis using g Some prems IH [OF _ prems(2,3)]
          by (simp add: Let_def split: if_splits option.splits)
      next
        case True
        then obtain h where h: "path_handle p = Some (Some h)"
          using g Some prems(1) by (auto simp: Let_def bind_eq_Some_conv)
        show ?thesis
        proof (cases "h < lo \<or> hi < h \<or> n \<le> length acc")
          case True
          then show ?thesis using g Some \<open>ch_service ch = Some path\<close> h prems IH [OF _ prems(2,3)]
            by (simp add: Let_def split: if_splits)
        next
          case False
          then obtain u where u: "uuid_in_entry (ch_uuid ch) = Some u"
            using g Some True h prems(1) by (auto simp: Let_def bind_eq_Some_conv)
          let ?c = "\<lparr>char_handle = ucast h, char_properties = flags_properties (ch_flags ch) 0,
                     char_value_handle = ucast h, char_uuid = u\<rparr>"
          have "\<forall>c \<in> set (acc @ [?c]). P c" "length (acc @ [?c]) \<le> n" using prems(2,3) P [of h] False by auto
          from IH [OF _ this] show ?thesis using g Some True h u False prems(1) by (simp add: Let_def)
        qed
      qed
    qed
  qed
qed

lemma discover_characteristics_bounds:
  assumes "discover_characteristics bus dev_path all_objs lo hi n se objs acc = Some res"
    and "\<forall>ch \<in> set acc. P ch" and "length acc \<le> n"
    and P: "\<And>h u p. lo \<le> h \<Longrightarrow> h \<le> hi \<Longrightarrow> P \<lparr>char_handle = ucast (h :: u32), char_properties = p, char_value_handle = ucast h, char_uuid = u\<rparr>"
    and B: "\<And>b. battery_characteristic = Some b \<Longrightarrow> P b"
  shows "(\<forall>ch \<in> set res. P ch) \<and> length res \<le> n"
  using assms(1-3)
proof (induction objs arbitrary: acc)
  case Nil
  then show ?case by simp
next
  case (Cons p objs)
  note IH = Cons.IH and prems = Cons.prems
  show ?case
  proof (cases "has_gatt_service bus p")
    case False
    show ?thesis
    proof (cases "has_battery bus p \<and> length acc < n")
      case True
      then obtain b where b: "battery_characteristic = Some b"
        using False prems(1) by (auto simp: Let_def bind_eq_Some_conv)
      have "\<forall>c \<in> set (acc @ [b]). P c" "length (acc @ [b]) \<le> n" using prems(2,3) B [OF b] True by auto
      from IH [OF _ this] show ?thesis using False True prems(1) by (simp add: Let_def b)
    next
      case nb: False
      with False show ?thesis using prems IH [OF _ prems(2,3)] by (auto simp: Let_def not_less split: if_splits)
    qed
  next
    case s: True
    show ?thesis
    proof (cases "service_proxy bus p")
      case None
      then show ?thesis using s prems IH [OF _ prems(2,3)] by (simp add: Let_def)
    next
      case (Some sv)
      then obtain d q where dq: "sv_device sv = Some d" "dev_path = Some q"
        using s prems(1) by (auto simp: Let_def bind_eq_Some_conv)
      show ?thesis
      proof (cases "q = d")
        case False
        then show ?thesis using s Some dq prems IH [OF _ prems(2,3)] by (simp add: Let_def)
      next
        case True
        then obtain acc2 where a: "add_characteristics_from_service bus p lo hi n se False all_objs acc = Some acc2"
          using s Some dq prems(1) by (auto simp: Let_def bind_eq_Some_conv)
        note this2 = add_characteristics_bounds [OF a prems(2,3) P]
        from IH [OF _ conjunct1 [OF this2] conjunct2 [OF this2]] show ?thesis
          using s Some dq True a prems(1) by (simp add: Let_def)
      qed
    qed
  qed
qed

lemma fold_max_bounds:
  fixes e :: u16
  shows "e \<le> fold (\<lambda>p. max (h p)) ps e \<and> (\<forall>p \<in> set ps. h p \<le> fold (\<lambda>p. max (h p)) ps e)
    \<and> (fold (\<lambda>p. max (h p)) ps e = e \<or> (\<exists>p \<in> set ps. fold (\<lambda>p. max (h p)) ps e = h p))"
proof (induction ps arbitrary: e)
  case Nil
  then show ?case by simp
next
  case (Cons p ps)
  from Cons [of "max (h p) e"] show ?case by (auto simp: max_def split: if_splits)
qed

lemma connection_objects_cong: "list_heap t = list_heap s \<Longrightarrow> connection_objects b t = connection_objects b s"
  by (cases "dbus_objects b") (simp_all add: connection_objects_def)

lemma char_range_bounds:
  assumes "gattlib_discover_char_range bus se dm True (Some c) lo hi s = Some ((GATTLIB_SUCCESS, Some chars), t)"
    and "dev_heap s c = Some y" and "connection_objects (cbackend (dconnection y)) s = Some objs"
  shows "length chars \<le> count_characteristics bus objs
    \<and> (\<forall>ch \<in> set chars. (lo \<le> char_handle ch \<and> char_handle ch \<le> hi) \<or> Some ch = battery_characteristic)"
proof -
  have valid: "gattlib_connection_is_valid (Some c) s = Some True"
    using assms(1) by (auto simp: gattlib_discover_char_range_def bind_eq_Some_conv ret_codes split: if_splits)
  obtain dev where dev: "dev_heap s (cdevice (dconnection y)) = Some dev"
    using assms(1,2) valid by (auto simp: gattlib_discover_char_range_def bind_eq_Some_conv)
  obtain mr u where u': "get_device_manager_from_adapter (dadapter dev) dm s = Some (mr, u)"
    using assms(1,2) valid dev by (auto simp: gattlib_discover_char_range_def bind_eq_Some_conv)
  obtain m where m: "mr = Inr m"
    using assms(1,2) valid dev u' by (cases mr) (auto simp: gattlib_discover_char_range_def split: option.splits)
  have u: "get_device_manager_from_adapter (dadapter dev) dm s = Some (Inr m, u)" using u' m by simp
  have r: "do { objs \<leftarrow> connection_objects (cbackend (dconnection y)) u;
           chars \<leftarrow> discover_characteristics bus (device_object_path (cbackend (dconnection y))) objs (ucast lo) (ucast hi)
                        (count_characteristics bus objs) se objs [];
           Some ((GATTLIB_SUCCESS, Some chars), u) } = Some ((GATTLIB_SUCCESS, Some chars), t)"
    using assms(1,2) valid dev u by (simp add: gattlib_discover_char_range_def Let_def)
  have "list_heap u = list_heap s"
    using device_manager_frame [OF u adapter_frame_refl] by (simp add: adapter_frame_def)
  then have "connection_objects (cbackend (dconnection y)) u = Some objs" using assms(3) connection_objects_cong by metis
  with r have d: "discover_characteristics bus (device_object_path (cbackend (dconnection y))) objs (ucast lo) (ucast hi)
      (count_characteristics bus objs) se objs [] = Some chars" by (auto simp: bind_eq_Some_conv)
  let ?P = "\<lambda>ch. (lo \<le> char_handle ch \<and> char_handle ch \<le> hi) \<or> Some ch = battery_characteristic"
  have P: "?P \<lparr>char_handle = ucast (h :: u32), char_properties = p, char_value_handle = ucast h, char_uuid = v\<rparr>"
    if "ucast lo \<le> h" "h \<le> ucast hi" for h v p
  proof -
    have "unat h < 65536" using that(2) unsigned_less [of hi, where 'a = nat] by (simp add: word_le_nat_alt)
    then have "unat (ucast h :: u16) = unat h" by (simp add: unsigned_ucast_eq take_bit_eq_mod)
    then show ?thesis using that by (simp add: word_le_nat_alt)
  qed
  have "(\<forall>ch \<in> set chars. ?P ch) \<and> length chars \<le> count_characteristics bus objs"
    by (rule discover_characteristics_bounds [OF d, where P = ?P]) (simp, simp, erule (1) P, simp)
  then show ?thesis by simp
qed

section \<open>Properties\<close>


text \<open>The handles of a service enclose those of its characteristics: for paths as BlueZ makes them,
  ending in four hexadecimal digits, the last handle of the entry is the largest among the
  service's own and those of the characteristics below its path.\<close>

theorem service_handles_spec:
  assumes "\<forall>p \<in> set objs. has_gatt_char bus p \<and> take (length path) p = path \<longrightarrow> (\<exists>q. p = q @ hexn 4 (unat (hnd p :: u16)))"
  shows "\<exists>e. service_end_handle bus path objs h = Some e \<and> h \<le> e
    \<and> (\<forall>p \<in> set objs. has_gatt_char bus p \<and> take (length path) p = path \<longrightarrow> hnd p \<le> e)
    \<and> (e = h \<or> (\<exists>p \<in> set objs. has_gatt_char bus p \<and> take (length path) p = path \<and> e = hnd p))"
proof -
  have "path_handle p = Some (Some (ucast (hnd p)))"
    if p: "p \<in> set objs" "has_gatt_char bus p \<and> take (length path) p = path" for p
  proof -
    obtain q where "p = q @ hexn 4 (unat (hnd p))" using assms p by blast
    then show ?thesis using path_handle_hex [of q "hnd p"] by metis
  qed
  then have "service_end_handle bus path objs h =
      Some (fold (\<lambda>p. max (hnd p)) (filter (\<lambda>p. has_gatt_char bus p \<and> take (length path) p = path) objs) h)"
    by (intro service_end_handle_max) blast
  then show ?thesis
    using fold_max_bounds [of h hnd "filter (\<lambda>p. has_gatt_char bus p \<and> take (length path) p = path) objs"] by auto
qed

text \<open>The discovery of a range of characteristics stays inside its array and its range: it never
  returns more entries than it has counted objects, and each entry has a handle between the
  bounds of the caller or is the entry made for the battery service.\<close>

theorem discover_char_range_bounds:
  assumes "gattlib_discover_char_range bus se dm True (Some c) lo hi s = Some ((GATTLIB_SUCCESS, Some chars), t)"
    and "dev_heap s c = Some y" and "connection_objects (cbackend (dconnection y)) s = Some objs"
  shows "length chars \<le> count_characteristics bus objs
    \<and> (\<forall>ch \<in> set chars. (lo \<le> char_handle ch \<and> char_handle ch \<le> hi) \<or> Some ch = battery_characteristic)"
  using assms by (rule char_range_bounds)

text \<open>The properties of a characteristic are exactly its flags: each of the six known flags sets
  its own bit whatever the order and the repetitions, and nothing else sets a bit.\<close>

theorem characteristic_flags:
  "bit (flags_properties flags 0) n \<longleftrightarrow> (\<exists>f \<in> set flags. flag_index f = Some n)"
  by (simp add: flags_properties_bit flag_bit_index)

text \<open>The discovery of all characteristics searches the handles 0 to 255 only: no characteristic
  that a device has beyond them is ever returned.\<close>

theorem discover_char_misses_high_handles:
  assumes "gattlib_discover_char bus se dm True (Some c) s = Some ((GATTLIB_SUCCESS, Some chars), t)"
    and "dev_heap s c = Some y" and "connection_objects (cbackend (dconnection y)) s = Some objs"
  shows "\<forall>ch \<in> set chars. char_handle ch \<le> 0xFF"
proof -
  have "\<forall>ch \<in> set chars. (0x00 \<le> char_handle ch \<and> char_handle ch \<le> 0xFF) \<or> Some ch = battery_characteristic"
    using char_range_bounds [OF assms(1) [unfolded gattlib_discover_char_def] assms(2,3)] by blast
  moreover have "char_handle ch = 0" if "Some ch = battery_characteristic" for ch
    using that [symmetric] by (auto simp: battery_characteristic_def bind_eq_Some_conv)
  ultimately show ?thesis by fastforce
qed

definition ex_objects :: "string list" where
  "ex_objects = [''/s0010'', ''/s0010/c0012'', ''/s0020'']"

definition ex_bus :: bus where
  "ex_bus = \<lparr>has_gatt_service = \<lambda>p. p = ''/s0010'' \<or> p = ''/s0020'', has_gatt_char = \<lambda>p. p = ''/s0010/c0012'',
     has_battery = \<lambda>p. False,
     service_proxy = \<lambda>p. Some \<lparr>sv_device = Some ''/d'', sv_primary = True, sv_uuid = Some ''0x180f''\<rparr>,
     char_proxy = \<lambda>p. Some \<lparr>ch_proxy = 77, ch_service = Some ''/s0010'', ch_uuid = Some ''0x2a00'', ch_flags = [''read'', ''notify'']\<rparr>,
     battery_proxy = \<lambda>p. None, device_uuids = \<lambda>d. Some [''0x180f'']\<rparr>"

definition ex_gatt :: gstate where
  "ex_gatt = (put_device 2 ((ex_device CONNECTED)\<lparr>dconnection := (connection_init 2)\<lparr>cbackend := connection_backend_init
     \<lparr>device_object_path := Some ''/d'', bluez_device := Some 21, dbus_objects := Some 50\<rparr>\<rparr>\<rparr>) (ex_state CONNECTED))
     \<lparr>list_heap := [50 \<mapsto> ex_objects]\<rparr>"

abbreviation ex_gatt_device :: device where
  "ex_gatt_device \<equiv> (ex_device CONNECTED)\<lparr>dconnection := (connection_init 2)\<lparr>cbackend := connection_backend_init
     \<lparr>device_object_path := Some ''/d'', bluez_device := Some 21, dbus_objects := Some 50\<rparr>\<rparr>\<rparr>"

lemma ex_gatt_facts:
  "wf_gstate ex_gatt" "attached ex_gatt 2" "dev_heap ex_gatt 2 = Some ex_gatt_device"
  "connection_objects (cbackend (dconnection ex_gatt_device)) ex_gatt = Some ex_objects"
  "connected ex_gatt 2"
proof -
  have at: "attached (ex_state CONNECTED) 2" by (simp add: attached_def ex_adapter_def)
  show "wf_gstate ex_gatt"
    using wf_put_handler [OF ex_state_wf at, of "ex_device CONNECTED"] by (simp add: ex_gatt_def ex_device_def connection_init_def)
  show "attached ex_gatt 2" using at by (simp add: ex_gatt_def)
  then show "connected ex_gatt 2" by (simp add: ex_gatt_def connected_def ex_device_def)
  show "connection_objects (cbackend (dconnection ex_gatt_device)) ex_gatt = Some ex_objects"
    by (simp add: ex_gatt_def connection_objects_def)
qed (simp add: ex_gatt_def)

lemma ex_services:
  "primary_service_of ex_bus (Some ''/d'') ex_objects ''/s0010'' = Some (Some \<lparr>attr_handle_start = 0x10, attr_handle_end = 0x12, ps_uuid = UUID16 0x180f\<rparr>)"
  "primary_service_of ex_bus (Some ''/d'') ex_objects ''/s0020'' = Some (Some \<lparr>attr_handle_start = 0x20, attr_handle_end = 0x20, ps_uuid = UUID16 0x180f\<rparr>)"
  "primary_service_of ex_bus (Some ''/d'') ex_objects ''/s0010/c0012'' = Some None"
  by code_simp+


lemma service_handles_spec_witness:
  "\<exists>e. service_end_handle ex_bus ''/s0010'' ex_objects 0x10 = Some e \<and> 0x12 \<le> e"
proof -
  have "''/s0010/c0012'' = ''/s0010/c'' @ hexn 4 (unat (0x12 :: u16))" by code_simp
  then have "\<forall>p \<in> set ex_objects. has_gatt_char ex_bus p \<and> take (length ''/s0010'') p = ''/s0010'' \<longrightarrow>
      (\<exists>q. p = q @ hexn 4 (unat (0x12 :: u16)))"
    by (auto simp: ex_bus_def simp del: hexn.simps)
  from service_handles_spec [where hnd = "\<lambda>_. 0x12" and h = "0x10", OF this]
  obtain e where "service_end_handle ex_bus ''/s0010'' ex_objects 0x10 = Some e"
    "\<forall>p \<in> set ex_objects. has_gatt_char ex_bus p \<and> take (length ''/s0010'') p = ''/s0010'' \<longrightarrow> 0x12 \<le> e" by blast
  moreover have "''/s0010/c0012'' \<in> set ex_objects" "has_gatt_char ex_bus ''/s0010/c0012''"
    by (simp_all add: ex_objects_def ex_bus_def)
  ultimately show ?thesis by force
qed

lemma ex_handle: "path_handle ''/s0010/c0012'' = Some (Some 0x12)"
  by code_simp

lemma ex_uuid: "uuid_in_entry (Some ''0x2a00'') = Some (UUID16 0x2a00)"
  by code_simp

lemma ex_characteristics:
  "discover_characteristics ex_bus (Some ''/d'') ex_objects 0 255 (count_characteristics ex_bus ex_objects) (\<lambda>_. False) ex_objects []
   = Some [\<lparr>char_handle = 0x12, char_properties = 0x12, char_value_handle = 0x12, char_uuid = UUID16 0x2a00\<rparr>]"
proof -
  have fl: "flags_properties [''read'', ''notify''] 0 = 0x12" by (simp add: flag_bit_def char_flags)
  have g: "has_gatt_char ex_bus ''/s0010/c0012''" "\<not> has_gatt_char ex_bus ''/s0010''" "\<not> has_gatt_char ex_bus ''/s0020''"
    "has_gatt_service ex_bus ''/s0010''" "has_gatt_service ex_bus ''/s0020''" "\<not> has_gatt_service ex_bus ''/s0010/c0012''"
    "\<not> has_battery ex_bus p"
    "service_proxy ex_bus p = Some \<lparr>sv_device = Some ''/d'', sv_primary = True, sv_uuid = Some ''0x180f''\<rparr>"
    "char_proxy ex_bus p = Some \<lparr>ch_proxy = 77, ch_service = Some ''/s0010'', ch_uuid = Some ''0x2a00'', ch_flags = [''read'', ''notify'']\<rparr>" for p
    by (simp_all add: ex_bus_def)
  have n: "count_characteristics ex_bus ex_objects = 1" by (simp add: ex_objects_def g)
  show ?thesis
    unfolding n unfolding ex_objects_def
    by (simp add: g ex_handle ex_uuid fl Let_def del: flags_properties.simps)
qed

lemma ex_discover_char:
  "\<exists>t. gattlib_discover_char_range ex_bus (\<lambda>_. False) (Inr 1) True (Some 2) 0 255 ex_gatt
    = Some ((GATTLIB_SUCCESS, Some [\<lparr>char_handle = 0x12, char_properties = 0x12, char_value_handle = 0x12, char_uuid = UUID16 0x2a00\<rparr>]), t)"
proof -
  obtain t m where t: "get_device_manager_from_adapter (dadapter ex_gatt_device) (Inr 1) ex_gatt = Some (Inr m, t)" "list_heap t = list_heap ex_gatt"
    by (rule get_device_manager_wf [OF ex_gatt_facts(1), of "dadapter ex_gatt_device" "Inr 1" 1])
       (auto simp: ex_gatt_def ex_device_def)
  have "connection_objects (cbackend (dconnection ex_gatt_device)) t = Some ex_objects"
    using ex_gatt_facts(4) connection_objects_cong [OF t(2)] by simp
  moreover have "device_object_path (cbackend (dconnection ex_gatt_device)) = Some ''/d''" "cdevice (dconnection ex_gatt_device) = 2"
    by (simp_all add: connection_init_def)
  ultimately show ?thesis
    using ex_gatt_facts(2,3) connection_is_valid_wf(1) [OF ex_gatt_facts(1)] t(1) ex_characteristics
    by (simp add: gattlib_discover_char_range_def Let_def)
qed

lemma discover_char_range_bounds_witness:
  "\<exists>chars t. gattlib_discover_char_range ex_bus (\<lambda>_. False) (Inr 1) True (Some 2) 0 255 ex_gatt = Some ((GATTLIB_SUCCESS, Some chars), t)
    \<and> length chars \<le> count_characteristics ex_bus ex_objects"
  using ex_discover_char discover_char_range_bounds [OF _ ex_gatt_facts(3,4)] by blast

lemma discover_char_misses_high_handles_witness:
  "\<exists>chars t. gattlib_discover_char ex_bus (\<lambda>_. False) (Inr 1) True (Some 2) ex_gatt = Some ((GATTLIB_SUCCESS, Some chars), t)
    \<and> (\<forall>ch \<in> set chars. char_handle ch \<le> 0xFF)"
proof -
  obtain chars t where r: "gattlib_discover_char ex_bus (\<lambda>_. False) (Inr 1) True (Some 2) ex_gatt = Some ((GATTLIB_SUCCESS, Some chars), t)"
    using ex_discover_char by (auto simp: gattlib_discover_char_def)
  with discover_char_misses_high_handles [OF r ex_gatt_facts(3,4)] show ?thesis by blast
qed
end
