(* ===== verification/Advertisement.thy ===== *)
theory Advertisement
  imports Discover
begin

text \<open>
  Advertisement data (\<open>dbus/gattlib_advertisement.c\<close>, BlueZ 5.40 and later) and the Eddystone
  callback that reads it (\<open>common/gattlib_eddystone.c\<close>). The three properties of the BlueZ device
  and the outcome of each allocation are parameters.
\<close>

record advertisement =
  adv_uuid :: uuid
  adv_data :: "u8 list"

record manufacturer =
  manufacturer_id :: u16
  manufacturer_data :: "u8 list"

record adv_properties =
  p_manufacturer_data :: "(u16 \<times> u8 list) list option"
  p_service_data :: "(string \<times> u8 list) list option"
  p_uuids :: "string list option"

record adv_allocs =
  m_array_ok :: bool
  m_data_ok :: "nat \<Rightarrow> bool"
  a_array_ok :: bool
  a_data_ok :: "nat \<Rightarrow> bool"

text \<open>
  The loop hands \<open>g_variant_get\<close> the byte stored so far where it expects the address of a byte. A
  null address makes \<open>g_variant_get\<close> skip the value; any other is not an address of the program.
\<close>

fun copy_manufacturer_data :: "u8 list \<Rightarrow> nat \<Rightarrow> u8 list \<Rightarrow> u8 list option" where
  "copy_manufacturer_data [] index data = Some data"
| "copy_manufacturer_data (v # vs) index data =
     (if data ! index = 0 then copy_manufacturer_data vs (Suc index) data else None)"

text \<open>Up to the entry whose allocation fails; the flag is whether all were stored.\<close>

fun manufacturer_entries :: "(nat \<Rightarrow> bool) \<Rightarrow> nat \<Rightarrow> (u16 \<times> u8 list) list \<Rightarrow> (bool \<times> manufacturer list) option" where
  "manufacturer_entries ok i [] = Some (True, [])"
| "manufacturer_entries ok i ((m, values) # ms) =
     (if \<not> ok i then Some (False, [])
      else do {
        data \<leftarrow> copy_manufacturer_data values 0 (replicate (length values) 0);
        (done, rest) \<leftarrow> manufacturer_entries ok (Suc i) ms;
        Some (done, \<lparr>manufacturer_id = m, manufacturer_data = data\<rparr> # rest)
      })"

fun advertisement_entries :: "(nat \<Rightarrow> bool) \<Rightarrow> nat \<Rightarrow> (string \<times> u8 list) list \<Rightarrow> advertisement list option" where
  "advertisement_entries ok i [] = Some []"
| "advertisement_entries ok i ((key, data) # es) =
     (let u = (case gattlib_string_to_uuid key of Inr u \<Rightarrow> u | Inl _ \<Rightarrow> UUID_other 0) in
      if data \<noteq> [] \<and> \<not> ok i then None
      else do {
        rest \<leftarrow> advertisement_entries ok (Suc i) es;
        Some (\<lparr>adv_uuid = u, adv_data = data\<rparr> # rest)
      })"

text \<open>The advertisement part: \<open>Inl\<close> the out-of-memory code, or the entries.\<close>

definition service_advertisements :: "adv_properties \<Rightarrow> adv_allocs \<Rightarrow> i32 + advertisement list" where
  "service_advertisements props allocs = (case p_service_data props of
       Some entries \<Rightarrow>
         if \<not> a_array_ok allocs then Inl GATTLIB_OUT_OF_MEMORY
         else (case advertisement_entries (a_data_ok allocs) 0 entries of
             None \<Rightarrow> Inl GATTLIB_OUT_OF_MEMORY
           | Some es \<Rightarrow> Inr es)
     | None \<Rightarrow> (case p_uuids props of
           Some (str # _) \<Rightarrow>
             if str = [] then Inr []
             else (case gattlib_string_to_uuid str of
                 Inl _ \<Rightarrow> Inr []
               | Inr u \<Rightarrow> if \<not> a_array_ok allocs then Inl GATTLIB_OUT_OF_MEMORY
                          else Inr [\<lparr>adv_uuid = u, adv_data = []\<rparr>])
         | _ \<Rightarrow> Inr []))"

text \<open>The code, the manufacturer entries stored, and the advertisement entries when stored.\<close>

definition get_advertisement_data_from_device ::
    "adv_properties \<Rightarrow> adv_allocs \<Rightarrow> bool \<Rightarrow> (i32 \<times> manufacturer list \<times> advertisement list option) option" where
  "get_advertisement_data_from_device props allocs advertisement_data_null =
     (if advertisement_data_null then Some (GATTLIB_INVALID_PARAMETER, [], None)
      else do {
        (done, ms) \<leftarrow> (case p_manufacturer_data props of
            None \<Rightarrow> Some (True, [])
          | Some entries \<Rightarrow>
              if \<not> m_array_ok allocs then Some (False, [])
              else manufacturer_entries (m_data_ok allocs) 0 entries);
        if \<not> done then Some (GATTLIB_OUT_OF_MEMORY, ms, None)
        else Some (case service_advertisements props allocs of
            Inl r \<Rightarrow> (r, ms, None)
          | Inr es \<Rightarrow> (GATTLIB_SUCCESS, ms, Some es))
      })"

definition gattlib_get_advertisement_data ::
    "(nat option \<Rightarrow> adv_properties) \<Rightarrow> adv_allocs \<Rightarrow> bool \<Rightarrow> addr option \<Rightarrow> gstate \<Rightarrow>
     (i32 \<times> manufacturer list \<times> advertisement list option) option" where
  "gattlib_get_advertisement_data props allocs advertisement_data_null connection s = (case connection of
       None \<Rightarrow> Some (GATTLIB_INVALID_PARAMETER, [], None)
     | Some c \<Rightarrow> do {
         valid \<leftarrow> gattlib_connection_is_valid (Some c) s;
         if \<not> valid then Some (GATTLIB_DEVICE_DISCONNECTED, [], None)
         else do {
           x \<leftarrow> dev_heap s c;
           get_advertisement_data_from_device (props (bluez_device (cbackend (dconnection x)))) allocs advertisement_data_null
         }
       })"

definition gattlib_get_advertisement_data_from_mac ::
    "(nat \<Rightarrow> string) \<Rightarrow> (string \<Rightarrow> gerror + nat) \<Rightarrow> (nat option \<Rightarrow> adv_properties) \<Rightarrow> adv_allocs \<Rightarrow> bool \<Rightarrow>
     addr option \<Rightarrow> string \<Rightarrow> gstate \<Rightarrow> (i32 \<times> manufacturer list \<times> advertisement list option) option" where
  "gattlib_get_advertisement_data_from_mac proxy_path device_of props allocs advertisement_data_null adapter mac_address s = do {
     ret \<leftarrow> get_bluez_device_from_mac proxy_path device_of adapter mac_address s;
     case ret of
       Inl r \<Rightarrow> Some (r, [], None)
     | Inr d \<Rightarrow> get_advertisement_data_from_device (props (Some d)) allocs advertisement_data_null
   }"

text \<open>What the Eddystone callback passes on to the application's: \<open>None\<close> when it does not call it.\<close>

definition on_eddystone_discovered_device ::
    "(nat \<Rightarrow> string) \<Rightarrow> (string \<Rightarrow> gerror + nat) \<Rightarrow> (nat option \<Rightarrow> adv_properties) \<Rightarrow> adv_allocs \<Rightarrow>
     addr option \<Rightarrow> string \<Rightarrow> gstate \<Rightarrow> (manufacturer list \<times> advertisement list) option option" where
  "on_eddystone_discovered_device proxy_path device_of props allocs adapter mac s = do {
     (ret, ms, es) \<leftarrow> gattlib_get_advertisement_data_from_mac proxy_path device_of props allocs False adapter mac s;
     if ret \<noteq> 0 then Some None
     else Some (Some (ms, case es of None \<Rightarrow> [] | Some es \<Rightarrow> es))
   }"

section \<open>Lemmas\<close>

lemma copy_zeros: "index + length vs \<le> n \<Longrightarrow> copy_manufacturer_data vs index (replicate n 0) = Some (replicate n 0)"
  by (induction vs arbitrary: index) auto

lemma manufacturer_entries_ok:
  "\<forall>i. ok i \<Longrightarrow> manufacturer_entries ok i ms =
    Some (True, map (\<lambda>(m, values). \<lparr>manufacturer_id = m, manufacturer_data = replicate (length values) 0\<rparr>) ms)"
  by (induction ms arbitrary: i) (auto simp: copy_zeros)

lemma advertisement_entries_ok:
  "\<forall>i. ok i \<Longrightarrow> advertisement_entries ok i es =
    Some (map (\<lambda>(key, data). \<lparr>adv_uuid = (case gattlib_string_to_uuid key of Inr u \<Rightarrow> u | Inl _ \<Rightarrow> UUID_other 0), adv_data = data\<rparr>) es)"
  by (induction es arbitrary: i) (auto simp: Let_def)

section \<open>Properties\<close>

text \<open>When memory does not run out, the service data of an advertisement is returned as BlueZ has
  it, one entry per service in the same order, with its bytes; but of the manufacturer data only
  the identifiers and the lengths are: every byte that is returned is zero, whatever BlueZ has.\<close>

theorem advertisement_data_spec:
  assumes "p_manufacturer_data props = Some ms" and "p_service_data props = Some es"
    and "m_array_ok allocs" and "\<forall>i. m_data_ok allocs i" and "a_array_ok allocs" and "\<forall>i. a_data_ok allocs i"
  shows "\<exists>mds ads. get_advertisement_data_from_device props allocs False = Some (GATTLIB_SUCCESS, mds, Some ads)
    \<and> map adv_data ads = map snd es \<and> length mds = length ms
    \<and> (\<forall>i < length ms. manufacturer_id (mds ! i) = fst (ms ! i)
         \<and> manufacturer_data (mds ! i) = replicate (length (snd (ms ! i))) 0)"
  using assms
  by (auto simp: get_advertisement_data_from_device_def service_advertisements_def manufacturer_entries_ok
      advertisement_entries_ok case_prod_beta comp_def)

lemma advertisement_data_spec_witness:
  "\<exists>mds ads. get_advertisement_data_from_device
      \<lparr>p_manufacturer_data = Some [(0x4C, [1, 2])], p_service_data = Some [(''0xfeaa'', [0x10])], p_uuids = None\<rparr>
      \<lparr>m_array_ok = True, m_data_ok = \<lambda>_. True, a_array_ok = True, a_data_ok = \<lambda>_. True\<rparr> False
    = Some (GATTLIB_SUCCESS, mds, Some ads) \<and> map adv_data ads = [[0x10]] \<and> manufacturer_data (mds ! 0) = [0, 0]"
  using advertisement_data_spec [of "\<lparr>p_manufacturer_data = Some [(0x4C, [1, 2])], p_service_data = Some [(''0xfeaa'', [0x10])], p_uuids = None\<rparr>"
      "[(0x4C, [1, 2])]" "[(''0xfeaa'', [0x10])]" "\<lparr>m_array_ok = True, m_data_ok = \<lambda>_. True, a_array_ok = True, a_data_ok = \<lambda>_. True\<rparr>"]
  by (auto simp: numeral_2_eq_2)

end
