(* ===== verification/Gatt_Char.thy ===== *)
theory Gatt_Char
  imports Discover
begin

text \<open>
  Reading and writing characteristics (\<open>dbus/gattlib_char.c\<close>, BlueZ later than 5.40), the write
  stream (\<open>dbus/gattlib_stream.c\<close>, BlueZ 5.48 and later) and notifications
  (\<open>dbus/gattlib_notification.c\<close>). A proxy is a number; the D-Bus calls on it are parameters.
\<close>

section \<open>Finding a characteristic\<close>

datatype dbus_characteristic = TYPE_NONE | TYPE_GATT nat | TYPE_BATTERY_LEVEL nat

definition m_battery_level_uuid :: uuid where "m_battery_level_uuid = UUID16 0x2A19"
definition m_ccc_uuid :: uuid where "m_ccc_uuid = UUID16 0x2902"

text \<open>
  \<open>uuid\<close> is null when the characteristic is looked up by handle. A UUID string that does not parse
  leaves \<open>characteristic_uuid\<close> uninitialised.
\<close>

definition handle_dbus_gattcharacteristic_from_path ::
    "bus \<Rightarrow> string option \<Rightarrow> uuid option \<Rightarrow> string \<Rightarrow> nat option option" where
  "handle_dbus_gattcharacteristic_from_path bus dev_path uuid object_path =
     (case char_proxy bus object_path of
        None \<Rightarrow> Some None
      | Some ch \<Rightarrow> do {
          same \<leftarrow> (case uuid of
              None \<Rightarrow> Some True
            | Some u \<Rightarrow> (case ch_uuid ch of
                  None \<Rightarrow> Some False
                | Some str \<Rightarrow> (case gattlib_string_to_uuid str of
                      Inl _ \<Rightarrow> None
                    | Inr v \<Rightarrow> Some (gattlib_uuid_cmp u v = 0))));
          if \<not> same then Some None
          else (case Option.bind (ch_service ch) (service_proxy bus) of
              None \<Rightarrow> Some None
            | Some sv \<Rightarrow> do {
                p \<leftarrow> dev_path;
                d \<leftarrow> sv_device sv;
                Some (if p = d then Some (ch_proxy ch) else None)
              })
        })"

definition handle_dbus_battery_from_uuid :: "bus \<Rightarrow> string \<Rightarrow> dbus_characteristic \<Rightarrow> dbus_characteristic \<times> bool" where
  "handle_dbus_battery_from_uuid bus object_path dbus_characteristic =
     (case battery_proxy bus object_path of
        Some p \<Rightarrow> (TYPE_BATTERY_LEVEL p, False)
      | None \<Rightarrow> (dbus_characteristic, False))"

fun find_characteristic :: "bus \<Rightarrow> string option \<Rightarrow> uuid \<Rightarrow> bool \<Rightarrow> string list \<Rightarrow> dbus_characteristic \<Rightarrow>
    dbus_characteristic option" where
  "find_characteristic bus dev_path uuid is_battery [] acc = Some acc"
| "find_characteristic bus dev_path uuid is_battery (object_path # objs) acc = do {
     found \<leftarrow> (if has_gatt_char bus object_path
               then handle_dbus_gattcharacteristic_from_path bus dev_path (Some uuid) object_path else Some None);
     case found of
       Some p \<Rightarrow> Some (TYPE_GATT p)
     | None \<Rightarrow>
         if is_battery \<and> has_battery bus object_path then
           (case handle_dbus_battery_from_uuid bus object_path acc of
              (acc, found) \<Rightarrow> if found then Some acc else find_characteristic bus dev_path uuid is_battery objs acc)
         else find_characteristic bus dev_path uuid is_battery objs acc
   }"

definition get_characteristic_from_uuid ::
    "bus \<Rightarrow> gerror option + nat \<Rightarrow> addr option \<Rightarrow> uuid \<Rightarrow> gstate \<Rightarrow> dbus_characteristic res" where
  "get_characteristic_from_uuid bus dm connection uuid s = do {
     connected \<leftarrow> gattlib_connection_is_connected connection s;
     if \<not> connected then Some (TYPE_NONE, s)
     else do {
       c \<leftarrow> connection;
       x \<leftarrow> dev_heap s c;
       dev \<leftarrow> dev_heap s (cdevice (dconnection x));
       (m, s) \<leftarrow> get_device_manager_from_adapter (dadapter dev) dm s;
       case m of
         Inl _ \<Rightarrow> Some (TYPE_NONE, s)
       | Inr _ \<Rightarrow>
           let is_battery = (gattlib_uuid_cmp uuid m_battery_level_uuid = 0) in
           if \<not> is_battery \<and> gattlib_uuid_cmp uuid m_ccc_uuid = 0 then Some (TYPE_NONE, s)
           else do {
             objs \<leftarrow> connection_objects (cbackend (dconnection x)) s;
             r \<leftarrow> find_characteristic bus (device_object_path (cbackend (dconnection x))) uuid is_battery objs TYPE_NONE;
             Some (r, s)
           }
     }
   }"

text \<open>\<open>prev\<close> is the value of \<open>char_handle\<close>, which a path without a handle leaves as it was.\<close>

fun find_characteristic_handle :: "bus \<Rightarrow> string option \<Rightarrow> u32 \<Rightarrow> u32 option \<Rightarrow> string list \<Rightarrow> dbus_characteristic option" where
  "find_characteristic_handle bus dev_path handle prev [] = Some TYPE_NONE"
| "find_characteristic_handle bus dev_path handle prev (object_path # objs) =
     (if \<not> has_gatt_char bus object_path then find_characteristic_handle bus dev_path handle prev objs
      else do {
        scanned \<leftarrow> path_handle object_path;
        h \<leftarrow> (case scanned of None \<Rightarrow> prev | Some h \<Rightarrow> Some h);
        if h \<noteq> handle then find_characteristic_handle bus dev_path handle (Some h) objs
        else do {
          found \<leftarrow> handle_dbus_gattcharacteristic_from_path bus dev_path None object_path;
          case found of
            Some p \<Rightarrow> Some (TYPE_GATT p)
          | None \<Rightarrow> find_characteristic_handle bus dev_path handle (Some h) objs
        }
      })"

definition get_characteristic_from_handle ::
    "bus \<Rightarrow> gerror option + nat \<Rightarrow> addr option \<Rightarrow> u32 \<Rightarrow> gstate \<Rightarrow> dbus_characteristic res" where
  "get_characteristic_from_handle bus dm connection handle s = do {
     connected \<leftarrow> gattlib_connection_is_connected connection s;
     if \<not> connected then Some (TYPE_NONE, s)
     else do {
       c \<leftarrow> connection;
       x \<leftarrow> dev_heap s c;
       dev \<leftarrow> dev_heap s (cdevice (dconnection x));
       (m, s) \<leftarrow> get_device_manager_from_adapter (dadapter dev) dm s;
       case m of
         Inl _ \<Rightarrow> Some (TYPE_NONE, s)
       | Inr _ \<Rightarrow> do {
           objs \<leftarrow> connection_objects (cbackend (dconnection x)) s;
           r \<leftarrow> find_characteristic_handle bus (device_object_path (cbackend (dconnection x))) handle None objs;
           Some (r, s)
         }
     }
   }"

section \<open>Reading\<close>

text \<open>The outcome of the calls of a read: ReadValue, the battery percentage, and \<open>malloc\<close>.\<close>

record read_env =
  read_value :: "nat \<Rightarrow> gerror + u8 list"
  percentage :: "nat \<Rightarrow> u8"
  malloc_ok :: bool

text \<open>The code, and what is stored in \<open>*buffer\<close> and \<open>*buffer_len\<close> when they are written; an empty
  value leaves the buffer pointer as it was.\<close>

definition read_gatt_characteristic :: "read_env \<Rightarrow> nat \<Rightarrow> i32 \<times> u8 list option \<times> nat option" where
  "read_gatt_characteristic env proxy = (case read_value env proxy of
       Inl e \<Rightarrow> (GATTLIB_ERROR_DBUS_WITH_ERROR e, None, None)
     | Inr bytes \<Rightarrow>
         if bytes = [] then (GATTLIB_SUCCESS, None, Some 0)
         else if \<not> malloc_ok env then (GATTLIB_OUT_OF_MEMORY, None, None)
         else (GATTLIB_SUCCESS, Some bytes, Some (length bytes)))"

text \<open>The check after \<open>malloc\<close> tests the wrong pointer, so a failure is written through.\<close>

definition read_battery_level :: "read_env \<Rightarrow> nat \<Rightarrow> (i32 \<times> u8 list option \<times> nat option) option" where
  "read_battery_level env proxy =
     (if \<not> malloc_ok env then None else Some (GATTLIB_SUCCESS, Some [percentage env proxy], Some 1))"

definition gattlib_read_char_by_uuid ::
    "bus \<Rightarrow> gerror option + nat \<Rightarrow> read_env \<Rightarrow> addr option \<Rightarrow> uuid \<Rightarrow> gstate \<Rightarrow> (i32 \<times> u8 list option \<times> nat option) res" where
  "gattlib_read_char_by_uuid bus dm env connection uuid s = do {
     (ch, s) \<leftarrow> get_characteristic_from_uuid bus dm connection uuid s;
     case ch of
       TYPE_NONE \<Rightarrow> Some ((GATTLIB_NOT_FOUND, None, None), s)
     | TYPE_BATTERY_LEVEL p \<Rightarrow> do { r \<leftarrow> read_battery_level env p; Some (r, emit (Ev_unref p) s) }
     | TYPE_GATT p \<Rightarrow> Some (read_gatt_characteristic env p, emit (Ev_unref p) s)
   }"

text \<open>The code, and the bytes that the callback is called with, if it is called.\<close>

definition gattlib_read_char_by_uuid_async ::
    "bus \<Rightarrow> gerror option + nat \<Rightarrow> read_env \<Rightarrow> addr option \<Rightarrow> uuid \<Rightarrow> gstate \<Rightarrow> (i32 \<times> u8 list option) res" where
  "gattlib_read_char_by_uuid_async bus dm env connection uuid s = do {
     (ch, s) \<leftarrow> get_characteristic_from_uuid bus dm connection uuid s;
     case ch of
       TYPE_NONE \<Rightarrow> Some ((GATTLIB_NOT_FOUND, None), s)
     | TYPE_BATTERY_LEVEL p \<Rightarrow> Some ((GATTLIB_SUCCESS, Some [percentage env p]), s)
     | TYPE_GATT p \<Rightarrow> (case read_value env p of
           Inl e \<Rightarrow> Some ((GATTLIB_ERROR_DBUS_WITH_ERROR e, None), s)
         | Inr bytes \<Rightarrow> Some ((GATTLIB_SUCCESS, if bytes = [] then None else Some bytes), emit (Ev_unref p) s))
   }"

section \<open>Writing\<close>

definition BLUEZ_GATT_WRITE_VALUE_TYPE_MASK :: u32 where "BLUEZ_GATT_WRITE_VALUE_TYPE_MASK = 0x7"
definition BLUEZ_GATT_WRITE_VALUE_TYPE_WRITE_WITH_RESPONSE :: u32 where
  "BLUEZ_GATT_WRITE_VALUE_TYPE_WRITE_WITH_RESPONSE = push_bit 0 1"
definition BLUEZ_GATT_WRITE_VALUE_TYPE_WRITE_WITHOUT_RESPONSE :: u32 where
  "BLUEZ_GATT_WRITE_VALUE_TYPE_WRITE_WITHOUT_RESPONSE = push_bit 1 1"

text \<open>\<open>write_value proxy bytes command\<close> is the outcome of WriteValue; \<open>command\<close> when the option
  \<open>type\<close> is sent.\<close>

definition write_char :: "(nat \<Rightarrow> u8 list \<Rightarrow> bool \<Rightarrow> gerror option) \<Rightarrow> nat \<Rightarrow> u8 list \<Rightarrow> u32 \<Rightarrow> gstate \<Rightarrow> i32 \<times> gstate" where
  "write_char write_value proxy buffer options s =
     (let command = (options AND BLUEZ_GATT_WRITE_VALUE_TYPE_MASK = BLUEZ_GATT_WRITE_VALUE_TYPE_WRITE_WITHOUT_RESPONSE);
          s = emit (Ev_write proxy buffer command) s
      in case write_value proxy buffer command of
           None \<Rightarrow> (GATTLIB_SUCCESS, s)
         | Some e \<Rightarrow>
             (if domain e = 238 \<and> code e = 36 then GATTLIB_DEVICE_NOT_CONNECTED else GATTLIB_ERROR_DBUS_WITH_ERROR e, s))"

text \<open>The two functions by UUID and the two by handle differ in the options only.\<close>

definition write_char_by_uuid ::
    "u32 \<Rightarrow> bus \<Rightarrow> gerror option + nat \<Rightarrow> (nat \<Rightarrow> u8 list \<Rightarrow> bool \<Rightarrow> gerror option) \<Rightarrow> addr option \<Rightarrow> uuid \<Rightarrow> u8 list \<Rightarrow> gstate \<Rightarrow> i32 res" where
  "write_char_by_uuid options bus dm write_value connection uuid buffer s = do {
     (ch, s) \<leftarrow> get_characteristic_from_uuid bus dm connection uuid s;
     case ch of
       TYPE_NONE \<Rightarrow> Some (GATTLIB_NOT_FOUND, s)
     | TYPE_BATTERY_LEVEL p \<Rightarrow> Some (GATTLIB_NOT_SUPPORTED, s)
     | TYPE_GATT p \<Rightarrow> (case write_char write_value p buffer options s of (r, s) \<Rightarrow> Some (r, emit (Ev_unref p) s))
   }"

definition gattlib_write_char_by_uuid ::
    "bus \<Rightarrow> gerror option + nat \<Rightarrow> (nat \<Rightarrow> u8 list \<Rightarrow> bool \<Rightarrow> gerror option) \<Rightarrow> addr option \<Rightarrow> uuid \<Rightarrow> u8 list \<Rightarrow> gstate \<Rightarrow> i32 res" where
  "gattlib_write_char_by_uuid = write_char_by_uuid BLUEZ_GATT_WRITE_VALUE_TYPE_WRITE_WITH_RESPONSE"

definition gattlib_write_without_response_char_by_uuid ::
    "bus \<Rightarrow> gerror option + nat \<Rightarrow> (nat \<Rightarrow> u8 list \<Rightarrow> bool \<Rightarrow> gerror option) \<Rightarrow> addr option \<Rightarrow> uuid \<Rightarrow> u8 list \<Rightarrow> gstate \<Rightarrow> i32 res" where
  "gattlib_write_without_response_char_by_uuid = write_char_by_uuid BLUEZ_GATT_WRITE_VALUE_TYPE_WRITE_WITHOUT_RESPONSE"

definition write_char_by_handle ::
    "u32 \<Rightarrow> bus \<Rightarrow> gerror option + nat \<Rightarrow> (nat \<Rightarrow> u8 list \<Rightarrow> bool \<Rightarrow> gerror option) \<Rightarrow> addr option \<Rightarrow> u16 \<Rightarrow> u8 list \<Rightarrow> gstate \<Rightarrow> i32 res" where
  "write_char_by_handle options bus dm write_value connection handle buffer s = do {
     (ch, s) \<leftarrow> get_characteristic_from_handle bus dm connection (ucast handle) s;
     case ch of
       TYPE_NONE \<Rightarrow> Some (GATTLIB_NOT_FOUND, s)
     | TYPE_BATTERY_LEVEL p \<Rightarrow> (case write_char write_value p buffer options s of (r, s) \<Rightarrow> Some (r, emit (Ev_unref p) s))
     | TYPE_GATT p \<Rightarrow> (case write_char write_value p buffer options s of (r, s) \<Rightarrow> Some (r, emit (Ev_unref p) s))
   }"

definition gattlib_write_char_by_handle ::
    "bus \<Rightarrow> gerror option + nat \<Rightarrow> (nat \<Rightarrow> u8 list \<Rightarrow> bool \<Rightarrow> gerror option) \<Rightarrow> addr option \<Rightarrow> u16 \<Rightarrow> u8 list \<Rightarrow> gstate \<Rightarrow> i32 res" where
  "gattlib_write_char_by_handle = write_char_by_handle BLUEZ_GATT_WRITE_VALUE_TYPE_WRITE_WITH_RESPONSE"

definition gattlib_write_without_response_char_by_handle ::
    "bus \<Rightarrow> gerror option + nat \<Rightarrow> (nat \<Rightarrow> u8 list \<Rightarrow> bool \<Rightarrow> gerror option) \<Rightarrow> addr option \<Rightarrow> u16 \<Rightarrow> u8 list \<Rightarrow> gstate \<Rightarrow> i32 res" where
  "gattlib_write_without_response_char_by_handle = write_char_by_handle BLUEZ_GATT_WRITE_VALUE_TYPE_WRITE_WITHOUT_RESPONSE"

section \<open>Write stream\<close>

text \<open>
  \<open>acquire_write\<close> is AcquireWrite on a proxy (the null proxy included): an error or the handle and
  the MTU; \<open>fd_of\<close> gets the file descriptor of a handle. The lookup is not checked: for a
  battery, the union is read as a GATT proxy. The answer's stream is the descriptor.
\<close>

definition gattlib_write_char_by_uuid_stream_open ::
    "bus \<Rightarrow> gerror option + nat \<Rightarrow> (nat option \<Rightarrow> gerror + nat \<times> u16) \<Rightarrow> (nat \<Rightarrow> gerror + i32) \<Rightarrow> addr option \<Rightarrow> uuid \<Rightarrow> gstate \<Rightarrow>
     (i32 \<times> (u64 \<times> u16) option) res" where
  "gattlib_write_char_by_uuid_stream_open bus dm acquire_write fd_of connection uuid s = do {
     (ch, s) \<leftarrow> get_characteristic_from_uuid bus dm connection uuid s;
     let proxy = (case ch of TYPE_NONE \<Rightarrow> None | TYPE_GATT p \<Rightarrow> Some p | TYPE_BATTERY_LEVEL p \<Rightarrow> Some p);
     case acquire_write proxy of
       Inl e \<Rightarrow> Some ((GATTLIB_ERROR_DBUS_WITH_ERROR e, None), s)
     | Inr (out_fd, mtu) \<Rightarrow> (case fd_of out_fd of
           Inl e \<Rightarrow> Some ((GATTLIB_ERROR_DBUS_WITH_ERROR e, None), s)
         | Inr fd \<Rightarrow> Some ((GATTLIB_SUCCESS, Some (scast fd, mtu)), s))
   }"

text \<open>\<open>written\<close> is what \<open>write\<close> returns and the \<open>errno\<close> it leaves.\<close>

definition gattlib_write_char_stream_write :: "int \<times> i32 \<Rightarrow> i32" where
  "gattlib_write_char_stream_write written =
     (if fst written < 0 then GATTLIB_ERROR_UNIX_WITH_ERROR (snd written) else GATTLIB_SUCCESS)"

definition gattlib_write_char_stream_close :: i32 where
  "gattlib_write_char_stream_close = GATTLIB_SUCCESS"

section \<open>Notifications\<close>

text \<open>The value of a changed property: an array of bytes, or a byte, by its key.\<close>

datatype gvalue = Bytes "u8 list" | Byte u8

fun first_key :: "string \<Rightarrow> (string \<times> gvalue) list \<Rightarrow> gvalue option" where
  "first_key key [] = None"
| "first_key key ((k, v) # props) = (if k = key then Some v else first_key key props)"

text \<open>The three signal handlers. \<open>copies\<close> says whether the allocations of the copies succeed. Each
  answers what it returns to GLib.\<close>

definition on_handle_battery_level_property_change ::
    "addr \<Rightarrow> (string \<times> gvalue) list \<Rightarrow> bool \<times> bool \<Rightarrow> gstate \<Rightarrow> bool res" where
  "on_handle_battery_level_property_change c changed copies s = do {
     connected \<leftarrow> gattlib_connection_is_connected (Some c) s;
     if \<not> connected then Some (False, s)
     else do {
       x \<leftarrow> dev_heap s c;
       if \<not> gattlib_has_valid_handler (notification (dconnection x)) then Some (True, s)
       else (case first_key ''Percentage'' changed of
           Some (Byte p) \<Rightarrow> do {
             s \<leftarrow> gattlib_on_gatt_notification c m_battery_level_uuid [p] 1 (fst copies) (snd copies) s;
             Some (True, s)
           }
         | Some (Bytes _) \<Rightarrow> None
         | None \<Rightarrow> Some (True, s))
     }
   }"

text \<open>The UUID of the characteristic's proxy; one that does not parse leaves it uninitialised.\<close>

definition characteristic_uuid_of :: "string option \<Rightarrow> uuid option" where
  "characteristic_uuid_of str = do {
     t \<leftarrow> str;
     case gattlib_string_to_uuid t of Inl _ \<Rightarrow> None | Inr u \<Rightarrow> Some u
   }"

definition on_handle_characteristic_property_change ::
    "addr \<Rightarrow> string option \<Rightarrow> (string \<times> gvalue) list \<Rightarrow> bool \<times> bool \<Rightarrow> gstate \<Rightarrow> bool res" where
  "on_handle_characteristic_property_change c uuid_str changed copies s = do {
     connected \<leftarrow> gattlib_connection_is_connected (Some c) s;
     if \<not> connected then Some (False, s)
     else do {
       x \<leftarrow> dev_heap s c;
       if \<not> gattlib_has_valid_handler (notification (dconnection x)) then Some (True, s)
       else (case first_key ''Value'' changed of
           Some (Bytes data) \<Rightarrow> do {
             u \<leftarrow> characteristic_uuid_of uuid_str;
             s \<leftarrow> gattlib_on_gatt_notification c u data (of_nat (length data)) (fst copies) (snd copies) s;
             Some (True, s)
           }
         | Some (Byte _) \<Rightarrow> None
         | None \<Rightarrow> Some (True, s))
     }
   }"

text \<open>This one takes no mutex and checks nothing.\<close>

definition on_handle_characteristic_indication ::
    "addr \<Rightarrow> string option \<Rightarrow> (string \<times> gvalue) list \<Rightarrow> bool \<times> bool \<Rightarrow> gstate \<Rightarrow> bool res" where
  "on_handle_characteristic_indication c uuid_str changed copies s = do {
     x \<leftarrow> dev_heap s c;
     if \<not> gattlib_has_valid_handler (indication (dconnection x)) then Some (True, s)
     else (case first_key ''Value'' changed of
         Some (Bytes data) \<Rightarrow> do {
           u \<leftarrow> characteristic_uuid_of uuid_str;
           s \<leftarrow> gattlib_on_gatt_notification c u data (of_nat (length data)) (fst copies) (snd copies) s;
           Some (True, s)
         }
       | Some (Byte _) \<Rightarrow> None
       | None \<Rightarrow> Some (True, s))
   }"

text \<open>The outcome of the calls of a start: the id of the signal handler (0 when it fails),
  \<open>calloc\<close>, and StartNotify.\<close>

record notify_env =
  n_signal_id :: u64
  n_calloc_ok :: bool
  start_notify_error :: "gerror option"

definition connect_signal_to_characteristic_uuid ::
    "bus \<Rightarrow> gerror option + nat \<Rightarrow> notify_env \<Rightarrow> addr option \<Rightarrow> uuid \<Rightarrow> gstate \<Rightarrow> i32 res" where
  "connect_signal_to_characteristic_uuid bus dm env connection uuid s = do {
     connected \<leftarrow> gattlib_connection_is_connected connection s;
     if \<not> connected then Some (GATTLIB_INVALID_PARAMETER, s)
     else do {
       (ch, s) \<leftarrow> get_characteristic_from_uuid bus dm connection uuid s;
       case ch of
         TYPE_NONE \<Rightarrow> Some (GATTLIB_NOT_FOUND, s)
       | TYPE_BATTERY_LEVEL p \<Rightarrow> Some (GATTLIB_SUCCESS, s)
       | TYPE_GATT p \<Rightarrow>
           if n_signal_id env = 0 then Some (GATTLIB_ERROR_DBUS, s)
           else if \<not> n_calloc_ok env then Some (GATTLIB_OUT_OF_MEMORY, s)
           else do {
             c \<leftarrow> connection;
             x \<leftarrow> dev_heap s c;
             let b = cbackend (dconnection x);
             let s = set_backend c x (b\<lparr>notified_characteristics := notified_characteristics b @
                [\<lparr>gatt = p, signal_id = n_signal_id env, nuuid = uuid\<rparr>]\<rparr>) s;
             let s = emit (Ev_start_notify p) s;
             case start_notify_error env of
               Some e \<Rightarrow> Some (GATTLIB_ERROR_DBUS_WITH_ERROR e, s)
             | None \<Rightarrow> Some (GATTLIB_SUCCESS, s)
           }
     }
   }"

text \<open>The first handle with the UUID is taken off the list.\<close>

fun take_notification :: "uuid \<Rightarrow> notification_handle list \<Rightarrow> (notification_handle \<times> notification_handle list) option" where
  "take_notification uuid [] = None"
| "take_notification uuid (n # ns) =
     (if gattlib_uuid_cmp (nuuid n) uuid = 0 then Some (n, ns)
      else map_option (\<lambda>(m, ns). (m, n # ns)) (take_notification uuid ns))"

definition disconnect_signal_to_characteristic_uuid ::
    "gerror option \<Rightarrow> addr option \<Rightarrow> uuid \<Rightarrow> gstate \<Rightarrow> i32 res" where
  "disconnect_signal_to_characteristic_uuid stop_notify_error connection uuid s = do {
     connected \<leftarrow> gattlib_connection_is_connected connection s;
     if \<not> connected then Some (GATTLIB_INVALID_PARAMETER, s)
     else do {
       c \<leftarrow> connection;
       x \<leftarrow> dev_heap s c;
       let b = cbackend (dconnection x);
       case take_notification uuid (notified_characteristics b) of
         None \<Rightarrow> Some (GATTLIB_NOT_FOUND, s)
       | Some (n, ns) \<Rightarrow>
           let s = set_backend c x (b\<lparr>notified_characteristics := ns\<rparr>) s;
               s = emit (Ev_stop_notify (gatt n)) (emit (Ev_signal_disconnect (Some (gatt n)) (signal_id n)) s)
           in Some (if stop_notify_error = None then GATTLIB_SUCCESS else GATTLIB_NOT_FOUND, s)
     }
   }"

definition gattlib_notification_start ::
    "bus \<Rightarrow> gerror option + nat \<Rightarrow> notify_env \<Rightarrow> addr option \<Rightarrow> uuid \<Rightarrow> gstate \<Rightarrow> i32 res" where
  "gattlib_notification_start = connect_signal_to_characteristic_uuid"

definition gattlib_notification_stop :: "gerror option \<Rightarrow> addr option \<Rightarrow> uuid \<Rightarrow> gstate \<Rightarrow> i32 res" where
  "gattlib_notification_stop = disconnect_signal_to_characteristic_uuid"

definition gattlib_indication_start ::
    "bus \<Rightarrow> gerror option + nat \<Rightarrow> notify_env \<Rightarrow> addr option \<Rightarrow> uuid \<Rightarrow> gstate \<Rightarrow> i32 res" where
  "gattlib_indication_start = connect_signal_to_characteristic_uuid"

definition gattlib_indication_stop :: "gerror option \<Rightarrow> addr option \<Rightarrow> uuid \<Rightarrow> gstate \<Rightarrow> i32 res" where
  "gattlib_indication_stop = disconnect_signal_to_characteristic_uuid"

section \<open>Lemmas\<close>

lemma adapter_frame_attached:
  assumes "wf_gstate s" "adapter_frame a s t"
  shows "attached t c = attached s c"
proof -
  have "devices (the (adp_heap t b)) = devices (the (adp_heap s b))" if b: "b \<in> set (m_adapter_list s)" for b
  proof (cases "b = a")
    case True
    obtain x where "adp_heap s b = Some x" using assms(1) b by (elim wf_adapterE)
    with True assms(2) show ?thesis by (auto simp: adapter_frame_def)
  next
    case False
    with assms(2) show ?thesis by (simp add: adapter_frame_def)
  qed
  with assms(2) show ?thesis by (simp add: attached_def adapter_frame_def)
qed

text \<open>What a look-up leaves alone: all but the device manager of an adapter.\<close>

definition lookup_frame :: "gstate \<Rightarrow> gstate \<Rightarrow> bool" where
  "lookup_frame s t \<longleftrightarrow> wf_gstate t \<and> dev_heap t = dev_heap s \<and> list_heap t = list_heap s \<and> m_adapter_list t = m_adapter_list s
     \<and> events t = events s \<and> (\<forall>c. attached t c = attached s c) \<and> (\<forall>c. connected t c = connected s c)"

lemma lookup_frame_refl: "wf_gstate s \<Longrightarrow> lookup_frame s s"
  by (simp add: lookup_frame_def)

lemma device_manager_lookup_frame:
  assumes "wf_gstate s" "get_device_manager_from_adapter a dm s = Some (m, t)"
  shows "lookup_frame s t"
proof -
  have fr: "adapter_frame a s t" by (rule device_manager_frame [OF assms(2)]) simp
  have "events t = events s"
    using assms(2) by (auto simp: get_device_manager_from_adapter_def bind_eq_Some_conv split: option.splits sum.splits)
  with fr adapter_frame_wf [OF assms(1) fr] adapter_frame_attached [OF assms(1) fr] show ?thesis
    by (simp add: lookup_frame_def adapter_frame_def connected_def)
qed

lemma get_characteristic_frame:
  assumes "wf_gstate s" "get_characteristic_from_uuid bus dm c uuid s = Some (r, t)"
  shows "lookup_frame s t"
proof (cases "gattlib_connection_is_connected c s = Some True")
  case False
  with assms show ?thesis
    by (auto simp: get_characteristic_from_uuid_def bind_eq_Some_conv lookup_frame_refl split: if_splits)
next
  case True
  with assms(2) obtain a x dev m u where st: "c = Some a" "dev_heap s a = Some x"
      "dev_heap s (cdevice (dconnection x)) = Some dev"
    and dm: "get_device_manager_from_adapter (dadapter dev) dm s = Some (m, u)"
    by (auto simp: get_characteristic_from_uuid_def bind_eq_Some_conv)
  have "t = u"
    using assms(2) True st dm
    by (cases m) (auto simp: get_characteristic_from_uuid_def bind_eq_Some_conv Let_def split: if_splits)
  with device_manager_lookup_frame [OF assms(1) dm] show ?thesis by simp
qed

lemma get_characteristic_handle_frame:
  assumes "wf_gstate s" "get_characteristic_from_handle bus dm c h s = Some (r, t)"
  shows "lookup_frame s t"
proof (cases "gattlib_connection_is_connected c s = Some True")
  case False
  with assms show ?thesis
    by (auto simp: get_characteristic_from_handle_def bind_eq_Some_conv lookup_frame_refl split: if_splits)
next
  case True
  with assms(2) obtain a x dev m u where st: "c = Some a" "dev_heap s a = Some x"
      "dev_heap s (cdevice (dconnection x)) = Some dev"
    and dm: "get_device_manager_from_adapter (dadapter dev) dm s = Some (m, u)"
    by (auto simp: get_characteristic_from_handle_def bind_eq_Some_conv)
  have "t = u"
    using assms(2) True st dm
    by (cases m) (auto simp: get_characteristic_from_handle_def bind_eq_Some_conv split: if_splits)
  with device_manager_lookup_frame [OF assms(1) dm] show ?thesis by simp
qed

lemma get_characteristic_connected:
  assumes "wf_gstate s" "get_characteristic_from_uuid bus dm (Some c) uuid s = Some (r, t)" "r \<noteq> TYPE_NONE"
  shows "connected s c"
  using assms by (auto simp: get_characteristic_from_uuid_def connection_is_connected_wf split: if_splits)

text \<open>The characteristic of an object: of the device of the connection, with the given UUID.\<close>

definition characteristic_at :: "bus \<Rightarrow> string option \<Rightarrow> uuid option \<Rightarrow> string \<Rightarrow> nat option" where
  "characteristic_at bus dev_path uuid p =
     (if has_gatt_char bus p then the (handle_dbus_gattcharacteristic_from_path bus dev_path uuid p) else None)"

text \<open>The characteristic that a look-up by UUID answers: the first object in the order of the tree.\<close>

fun characteristic_for :: "bus \<Rightarrow> string option \<Rightarrow> uuid \<Rightarrow> string list \<Rightarrow> nat option" where
  "characteristic_for bus dev_path uuid [] = None"
| "characteristic_for bus dev_path uuid (p # objs) = (case characteristic_at bus dev_path (Some uuid) p of
       Some ch \<Rightarrow> Some ch | None \<Rightarrow> characteristic_for bus dev_path uuid objs)"

lemma find_characteristic_for:
  assumes "\<forall>p \<in> set objs. has_gatt_char bus p \<longrightarrow> handle_dbus_gattcharacteristic_from_path bus dev_path (Some uuid) p \<noteq> None"
  shows "find_characteristic bus dev_path uuid False objs acc =
    Some (case characteristic_for bus dev_path uuid objs of None \<Rightarrow> acc | Some p \<Rightarrow> TYPE_GATT p)"
  using assms
proof (induction objs)
  case (Cons p objs)
  then show ?case by (cases "has_gatt_char bus p") (auto simp: characteristic_at_def split: option.splits)
qed simp

text \<open>A look-up that BlueZ can answer: the connection is connected, its objects are listed, the UUID is
  not one that the library treats apart, and no object has a UUID that does not parse.\<close>

definition lookup_ready :: "bus \<Rightarrow> addr \<Rightarrow> uuid \<Rightarrow> device \<Rightarrow> string list \<Rightarrow> gstate \<Rightarrow> bool" where
  "lookup_ready bus c uuid x objs s \<longleftrightarrow> wf_gstate s \<and> connected s c \<and> dev_heap s c = Some x
     \<and> connection_objects (cbackend (dconnection x)) s = Some objs
     \<and> gattlib_uuid_cmp uuid m_battery_level_uuid \<noteq> 0 \<and> gattlib_uuid_cmp uuid m_ccc_uuid \<noteq> 0
     \<and> (\<forall>p \<in> set objs. has_gatt_char bus p \<longrightarrow>
          handle_dbus_gattcharacteristic_from_path bus (device_object_path (cbackend (dconnection x))) (Some uuid) p \<noteq> None)"

lemma get_characteristic_ready:
  assumes "lookup_ready bus c uuid x objs s"
  obtains t where "get_characteristic_from_uuid bus (Inr m) (Some c) uuid s =
      Some (case characteristic_for bus (device_object_path (cbackend (dconnection x))) uuid objs of
              None \<Rightarrow> TYPE_NONE | Some p \<Rightarrow> TYPE_GATT p, t)"
    and "lookup_frame s t"
proof -
  let ?path = "device_object_path (cbackend (dconnection x))"
  have wf: "wf_gstate s" and con: "connected s c" and x: "dev_heap s c = Some x"
    and objs: "connection_objects (cbackend (dconnection x)) s = Some objs"
    and uuid: "gattlib_uuid_cmp uuid m_battery_level_uuid \<noteq> 0" "gattlib_uuid_cmp uuid m_ccc_uuid \<noteq> 0"
    and parse: "\<forall>p \<in> set objs. has_gatt_char bus p \<longrightarrow> handle_dbus_gattcharacteristic_from_path bus ?path (Some uuid) p \<noteq> None"
    using assms by (auto simp: lookup_ready_def)
  have a: "dadapter x \<in> set (m_adapter_list s)" "cdevice (dconnection x) = c"
    using con x by (auto simp: connected_def elim: attached_device [OF wf])
  obtain t m' where t: "get_device_manager_from_adapter (dadapter x) (Inr m) s = Some (Inr m', t)" "list_heap t = list_heap s"
    by (rule get_device_manager_wf [OF wf a(1) refl])
  have "connection_objects (cbackend (dconnection x)) t = Some objs"
    using objs connection_objects_cong [OF t(2)] by simp
  then have "get_characteristic_from_uuid bus (Inr m) (Some c) uuid s =
      Some (case characteristic_for bus ?path uuid objs of None \<Rightarrow> TYPE_NONE | Some p \<Rightarrow> TYPE_GATT p, t)"
    using wf con x a t(1) uuid find_characteristic_for [OF parse]
    by (simp add: get_characteristic_from_uuid_def connection_is_connected_wf Let_def)
  with get_characteristic_frame [OF wf this] that show thesis by blast
qed

lemma lookup_frame_emit: "lookup_frame s t \<Longrightarrow> dev_heap (emit e t) = dev_heap s \<and> events (emit e t) = events s @ [e]"
  by (simp add: lookup_frame_def)

definition write_result :: "gerror option \<Rightarrow> i32" where
  "write_result e = (case e of None \<Rightarrow> GATTLIB_SUCCESS
     | Some e \<Rightarrow> if domain e = 238 \<and> code e = 36 then GATTLIB_DEVICE_NOT_CONNECTED else GATTLIB_ERROR_DBUS_WITH_ERROR e)"

lemma write_char_eq:
  "write_char wv p buffer BLUEZ_GATT_WRITE_VALUE_TYPE_WRITE_WITH_RESPONSE s = (write_result (wv p buffer False), emit (Ev_write p buffer False) s)"
  "write_char wv p buffer BLUEZ_GATT_WRITE_VALUE_TYPE_WRITE_WITHOUT_RESPONSE s = (write_result (wv p buffer True), emit (Ev_write p buffer True) s)"
  by (simp_all add: write_char_def write_result_def BLUEZ_GATT_WRITE_VALUE_TYPE_MASK_def Let_def
      BLUEZ_GATT_WRITE_VALUE_TYPE_WRITE_WITH_RESPONSE_def BLUEZ_GATT_WRITE_VALUE_TYPE_WRITE_WITHOUT_RESPONSE_def
      split: option.splits)

section \<open>Properties\<close>



text \<open>On a connection that is not connected, whatever the registry holds of it, no read, write,
  notification or indication request makes a D-Bus call, calls back or changes the state: each answers
  its error code.\<close>

theorem not_connected_no_effect:
  assumes "wf_gstate s" and "\<not> connected s c"
  shows "gattlib_read_char_by_uuid bus dm env (Some c) uuid s = Some ((GATTLIB_NOT_FOUND, None, None), s)
    \<and> gattlib_read_char_by_uuid_async bus dm env (Some c) uuid s = Some ((GATTLIB_NOT_FOUND, None), s)
    \<and> gattlib_write_char_by_uuid bus dm wv (Some c) uuid buffer s = Some (GATTLIB_NOT_FOUND, s)
    \<and> gattlib_write_without_response_char_by_uuid bus dm wv (Some c) uuid buffer s = Some (GATTLIB_NOT_FOUND, s)
    \<and> gattlib_write_char_by_handle bus dm wv (Some c) hnd buffer s = Some (GATTLIB_NOT_FOUND, s)
    \<and> gattlib_write_without_response_char_by_handle bus dm wv (Some c) hnd buffer s = Some (GATTLIB_NOT_FOUND, s)
    \<and> gattlib_notification_start bus dm nenv (Some c) uuid s = Some (GATTLIB_INVALID_PARAMETER, s)
    \<and> gattlib_indication_start bus dm nenv (Some c) uuid s = Some (GATTLIB_INVALID_PARAMETER, s)
    \<and> gattlib_notification_stop e (Some c) uuid s = Some (GATTLIB_INVALID_PARAMETER, s)
    \<and> gattlib_indication_stop e (Some c) uuid s = Some (GATTLIB_INVALID_PARAMETER, s)"
  using assms
  by (simp add: connection_is_connected_wf get_characteristic_from_uuid_def get_characteristic_from_handle_def
      gattlib_read_char_by_uuid_def gattlib_read_char_by_uuid_async_def gattlib_write_char_by_uuid_def
      gattlib_write_without_response_char_by_uuid_def write_char_by_uuid_def gattlib_write_char_by_handle_def
      gattlib_write_without_response_char_by_handle_def write_char_by_handle_def gattlib_notification_start_def
      gattlib_indication_start_def connect_signal_to_characteristic_uuid_def gattlib_notification_stop_def
      gattlib_indication_stop_def disconnect_signal_to_characteristic_uuid_def)

lemma take_notification_snoc:
  assumes "\<forall>n \<in> set ns. gattlib_uuid_cmp (nuuid n) u \<noteq> 0"
  shows "take_notification u ns = None"
    and "gattlib_uuid_cmp (nuuid h) u = 0 \<Longrightarrow> take_notification u (ns @ [h]) = Some (h, ns)"
  using assms by (induction ns) auto

lemma stop_notification:
  assumes "wf_gstate s" "connected s c" "dev_heap s c = Some x"
    and "notified_characteristics (cbackend (dconnection x)) = ns"
  shows "take_notification u ns = None \<Longrightarrow> gattlib_notification_stop e (Some c) u s = Some (GATTLIB_NOT_FOUND, s)"
    and "take_notification u ns = Some (n, ns') \<Longrightarrow> gattlib_notification_stop e (Some c) u s =
      Some (if e = None then GATTLIB_SUCCESS else GATTLIB_NOT_FOUND,
        emit (Ev_stop_notify (gatt n)) (emit (Ev_signal_disconnect (Some (gatt n)) (signal_id n))
          (set_backend c x ((cbackend (dconnection x))\<lparr>notified_characteristics := ns'\<rparr>) s)))"
  using assms
  by (simp_all add: gattlib_notification_stop_def disconnect_signal_to_characteristic_uuid_def connection_is_connected_wf Let_def)

lemma set_backend_connected:
  assumes "wf_gstate s" "connected s c" "dev_heap s c = Some x"
  shows "wf_gstate (set_backend c x b s)" "connected (set_backend c x b s) c"
    "dev_heap (set_backend c x b s) = (dev_heap s)(c \<mapsto> x\<lparr>dconnection := (dconnection x)\<lparr>cbackend := b\<rparr>\<rparr>)"
    "events (set_backend c x b s) = events s"
proof -
  have "attached s c" using assms(2) by (simp add: connected_def)
  from wf_put_handler [OF assms(1) this assms(3)] show "wf_gstate (set_backend c x b s)" by (simp add: set_backend_def)
qed (use assms in \<open>simp_all add: set_backend_def connected_def attached_def\<close>)

lemma emit_connected [simp]:
  "wf_gstate (emit e s) = wf_gstate s" "connected (emit e s) c = connected s c"
  by (simp_all add: wf_gstate_def connected_def attached_def)


text \<open>An indication that arrives on a connection whose application has registered a callback for
  indications only is undefined: the handler passes it to the pool of the notification callback, which
  has never been created.\<close>

theorem indication_needs_notification_pool:
  assumes "wf_gstate s" "attached s c" "dev_heap s c = Some x" "thread_pool (notification (dconnection x)) = None"
    and "first_key ''Value'' changed = Some (Bytes data)" "characteristic_uuid_of uuid_str = Some u"
  shows "\<exists>t. gattlib_register_indication (Some c) (Some f) dat (Some pool, False) s = Some (GATTLIB_SUCCESS, t)
    \<and> gattlib_connection_is_valid (Some c) t = Some True
    \<and> on_handle_characteristic_indication c uuid_str changed copies t = None"
proof -
  let ?conn = "(dconnection x)\<lparr>indication := (indication (dconnection x))\<lparr>callback := Some f, user_data := dat, thread_pool := Some pool\<rparr>\<rparr>"
  let ?t = "put_device c (x\<lparr>dconnection := ?conn\<rparr>) s"
  have wf: "wf_gstate ?t" using wf_put_handler [OF assms(1-3)] by simp
  have at: "attached ?t c" using assms(2) by (simp add: attached_def)
  have "gattlib_register_indication (Some c) (Some f) dat (Some pool, False) s = Some (GATTLIB_SUCCESS, ?t)"
    using assms(1-3) by (simp add: gattlib_register_indication_def connection_is_valid_wf Let_def)
  moreover have "on_handle_characteristic_indication c uuid_str changed copies ?t = None"
    using assms(4-6) by (simp add: on_handle_characteristic_indication_def gattlib_has_valid_handler_def gattlib_on_gatt_notification_def)
  ultimately show ?thesis using connection_is_valid_wf(1) [OF wf, of c] at by simp
qed

section \<open>Witnesses\<close>

lemma ex_lookup:
  "handle_dbus_gattcharacteristic_from_path ex_bus (Some ''/d'') (Some (UUID16 0x2a00)) ''/s0010/c0012'' = Some (Some 77)"
  "gattlib_uuid_cmp (UUID16 0x2a00) m_battery_level_uuid \<noteq> 0" "gattlib_uuid_cmp (UUID16 0x2a00) m_ccc_uuid \<noteq> 0"
  by code_simp+

lemma ex_lookup_ready: "lookup_ready ex_bus 2 (UUID16 0x2a00) ex_gatt_device ex_objects ex_gatt"
proof -
  have "\<forall>p \<in> set ex_objects. has_gatt_char ex_bus p \<longrightarrow>
      handle_dbus_gattcharacteristic_from_path ex_bus (Some ''/d'') (Some (UUID16 0x2a00)) p \<noteq> None"
    using ex_lookup(1) by (auto simp: ex_bus_def)
  then show ?thesis
    using ex_gatt_facts ex_lookup(2,3) by (simp add: lookup_ready_def)
qed

lemma ex_characteristic_for: "characteristic_for ex_bus (Some ''/d'') (UUID16 0x2a00) ex_objects = Some 77"
proof -
  have "has_gatt_char ex_bus ''/s0010/c0012''" "\<not> has_gatt_char ex_bus ''/s0010''" "\<not> has_gatt_char ex_bus ''/s0020''"
    by (simp_all add: ex_bus_def)
  then show ?thesis by (simp add: ex_objects_def characteristic_at_def ex_lookup(1))
qed



lemma ex_not_connected: "wf_gstate (ex_state DISCONNECTED)" "\<not> connected (ex_state DISCONNECTED) 2"
  using ex_state_wf by (simp_all add: connected_def ex_device_def)

lemma not_connected_no_effect_witness:
  "gattlib_write_char_by_handle ex_bus (Inr 1) (\<lambda>_ _ _. None) (Some 2) 0x12 [1] (ex_state DISCONNECTED)
     = Some (GATTLIB_NOT_FOUND, ex_state DISCONNECTED)"
  using not_connected_no_effect [OF ex_not_connected, of ex_bus "Inr 1" _ _ "\<lambda>_ _ _. None" "[1]" "0x12"] by blast


lemma indication_needs_notification_pool_witness:
  "\<exists>t. gattlib_register_indication (Some 2) (Some 9) 0 (Some 4, False) ex_gatt = Some (GATTLIB_SUCCESS, t)
    \<and> on_handle_characteristic_indication 2 (Some ''0x2a00'') [(''Value'', Bytes [1])] (True, True) t = None"
proof -
  have "characteristic_uuid_of (Some ''0x2a00'') = Some (UUID16 0x2a00)" by code_simp
  moreover have "thread_pool (notification (dconnection ex_gatt_device)) = None" by (simp add: connection_init_def handler_init_def)
  ultimately show ?thesis
    using indication_needs_notification_pool [OF ex_gatt_facts(1-3), of "[(''Value'', Bytes [1])]" "[1]" "Some ''0x2a00''" _ 9 0 4 "(True, True)"] by auto
qed
end
