(* ===== verification/Protocol.thy ===== *)
theory Protocol
  imports Adapter "HOL-Library.Multiset"
begin

text \<open>
  The life of the adapters, over all the threads: a step relation whose steps are the critical sections of
  the operations on adapters (opening, closing, scanning, the scan loop, the discovery signals of BlueZ and
  the threads that call the application back), each the definition of \<open>Registry\<close>, \<open>Callbacks\<close> or
  \<open>Adapter\<close>. The invariant counts the references; it bounds what can fault.
\<close>

section \<open>Operations that take and drop no reference\<close>

definition same_refs :: "gstate \<Rightarrow> gstate \<Rightarrow> bool" where
  "same_refs s t \<longleftrightarrow> m_adapter_list t = m_adapter_list s \<and> (\<forall>a x. adp_heap s a = Some x \<longrightarrow>
     (\<exists>y. adp_heap t a = Some y \<and> aref y = aref x \<and> (scan_loop_thread (scan x) = None \<longrightarrow> scan_loop_thread (scan y) = None)))"

lemma same_refs_refl [simp]: "same_refs s s"
  by (simp add: same_refs_def)

lemma same_refs_emit [simp]: "same_refs s (emit e t) = same_refs s t"
  by (simp add: same_refs_def)

lemma same_refs_trans: "same_refs s t \<Longrightarrow> same_refs t u \<Longrightarrow> same_refs s u"
  unfolding same_refs_def by metis

lemma same_refs_frame:
  assumes "adapter_frame a s t" "adp_heap s a = Some x" "adp_heap t a = Some y"
    and "scan_loop_thread (scan x) = None \<Longrightarrow> scan_loop_thread (scan y) = None"
  shows "same_refs s t"
  using assms unfolding same_refs_def adapter_frame_def by (metis option.inject)

lemma update_devices_eq:
  assumes "y\<lparr>devices := []\<rparr> = x\<lparr>devices := []\<rparr>"
  shows "aref y = aref x" "scan y = scan x"
  using arg_cong [OF assms, of aref] arg_cong [OF assms, of scan] by simp_all

lemma same_refs_registry: "registry_frame s t \<Longrightarrow> same_refs s t"
  unfolding same_refs_def registry_frame_def using update_devices_eq by metis

lemma same_refs_put [simp]:
  assumes "adp_heap t a = Some x" "aref y = aref x" "scan_loop_thread (scan x) = None \<longrightarrow> scan_loop_thread (scan y) = None"
  shows "same_refs s t \<Longrightarrow> same_refs s (put_adapter a y t)"
  using assms unfolding same_refs_def by fastforce

lemma wf_put_same:
  assumes "wf_gstate s" "a \<in> set (m_adapter_list s)" "adp_heap s a = Some x" "aref y = aref x" "devices y = devices x"
  shows "wf_gstate (put_adapter a y s)"
  using assms by (intro wf_put_adapter) (auto simp: wf_gstate_def wf_adapter_def)

lemma valid_iff [simp]: "gattlib_adapter_is_valid (Some a) s \<longleftrightarrow> a \<in> set (m_adapter_list s)"
  by (simp add: gattlib_adapter_is_valid_def)

subsection \<open>Scanning\<close>

lemma scan_disable_refs:
  assumes "wf_gstate s"
  shows "\<exists>r t. gattlib_adapter_scan_disable a discovering e s = Some (r, t) \<and> wf_gstate t \<and> same_refs s t"
proof (cases "a \<in> set (m_adapter_list s)")
  case False
  with assms show ?thesis by (simp add: gattlib_adapter_scan_disable_def)
next
  case True
  then obtain x where x: "adp_heap s a = Some x" using assms by (elim wf_adapterE)
  obtain r t where t: "gattlib_adapter_scan_disable a discovering e s = Some (r, t)"
    using True x by (fastforce simp: gattlib_adapter_scan_disable_def Let_def split: option.splits prod.splits if_splits)
  have fr: "adapter_frame a s t" and th: "\<exists>y. adp_heap t a = Some y \<and> scan_loop_thread (scan y) = scan_loop_thread (scan x)"
    using t x True by (auto simp: gattlib_adapter_scan_disable_def Let_def signal_stop_scanning_def adapter_frame_def
        split: option.splits prod.splits if_splits dest: handler_free_eq)
  show ?thesis using t adapter_frame_wf [OF assms fr] th x same_refs_frame [OF fr x] by (metis (no_types))
qed

lemma timeout_refs:
  assumes "wf_gstate s"
  shows "\<exists>t. stop_scan_on_timeout a s = Some t \<and> wf_gstate t \<and> same_refs s t"
proof (cases "a \<in> set (m_adapter_list s)")
  case True
  then obtain x where x: "adp_heap s a = Some x" using assms by (elim wf_adapterE)
  let ?u = "if is_scanning (scan x) then signal_stop_scanning s else s"
  have "wf_gstate ?u" "same_refs s ?u" using assms by (simp_all add: signal_stop_scanning_def same_refs_def wf_gstate_def)
  with True x show ?thesis
    by (simp add: stop_scan_on_timeout_def set_scan_def Let_def same_refs_put wf_put_same)
qed (use assms in \<open>simp add: stop_scan_on_timeout_def\<close>)

lemma loop_enter_refs:
  assumes "wf_gstate s"
  shows "\<exists>r t. ble_scan_loop_thread_enter a i s = Some (r, t) \<and> wf_gstate t \<and> same_refs s t"
proof (cases "a \<in> set (m_adapter_list s)")
  case True
  then obtain x where x: "adp_heap s a = Some x" using assms by (elim wf_adapterE)
  with True assms show ?thesis
    by (auto simp: ble_scan_loop_thread_enter_def set_scan_def Let_def same_refs_put wf_put_same)
qed (use assms in \<open>auto simp: ble_scan_loop_thread_enter_def\<close>)

lemma loop_leave_refs:
  assumes "wf_gstate s"
  shows "\<exists>t. ble_scan_loop_thread_leave a discovering e s = Some t \<and> wf_gstate t \<and> same_refs s t"
proof (cases "a \<in> set (m_adapter_list s)")
  case True
  then obtain x where x: "adp_heap s a = Some x" using assms by (elim wf_adapterE)
  let ?ev = "\<lambda>i. Ev_signal_disconnect (device_manager x) (scast (i (scan x)))"
  let ?u = "emit (?ev changed_signal_id) (emit (?ev removed_signal_id) (emit (?ev added_signal_id) s))"
  have "wf_gstate ?u" using assms by (simp add: wf_gstate_def)
  from scan_disable_refs [OF this, of a discovering e] obtain r t where
    "gattlib_adapter_scan_disable a discovering e ?u = Some (r, t)" "wf_gstate t" "same_refs ?u t" by blast
  moreover have "same_refs s ?u" by simp
  ultimately show ?thesis
    using True x same_refs_trans by (fastforce simp: ble_scan_loop_thread_leave_def)
qed (use assms in \<open>simp add: ble_scan_loop_thread_leave_def\<close>)

lemma device_manager_refs:
  assumes "wf_gstate s" "a \<in> set (m_adapter_list s)"
  obtains r t where "get_device_manager_from_adapter a dm s = Some (r, t)" "wf_gstate t" "same_refs s t"
proof -
  obtain x where x: "adp_heap s a = Some x" using assms by (elim wf_adapterE)
  show thesis
    by (rule that [of "case device_manager x of Some m \<Rightarrow> Inr m | None \<Rightarrow> dm"
          "case device_manager x of Some m \<Rightarrow> s | None \<Rightarrow> (case dm of Inl _ \<Rightarrow> s | Inr m \<Rightarrow> put_adapter a (x\<lparr>device_manager := Some m\<rparr>) s)"])
      (use assms x in \<open>auto simp: get_device_manager_from_adapter_def wf_put_same same_refs_put split: option.splits sum.splits\<close>)
qed

lemma scan_begin_refs:
  assumes "wf_gstate s" "a \<in> set (m_adapter_list s)"
  shows "\<exists>r t. adapter_scan_begin a p filters cb timeout data env s = Some (r, t) \<and> wf_gstate t \<and> same_refs s t"
proof -
  obtain r t where t: "get_device_manager_from_adapter a (new_device_manager env) s = Some (r, t)" "wf_gstate t" "same_refs s t"
    by (rule device_manager_refs [OF assms])
  have a: "a \<in> set (m_adapter_list t)" using assms(2) t(3) by (simp add: same_refs_def)
  then obtain x where x: "adp_heap t a = Some x" using t(2) by (elim wf_adapterE)
  show ?thesis
  proof (cases r)
    case (Inl e)
    with t show ?thesis by (simp add: adapter_scan_begin_def)
  next
    case (Inr m)
    let ?sc = "ble_scan_init\<lparr>enabled_filters := filters, ble_scan_timeout := timeout,
        added_signal_id := ucast (fst (signal_ids env)), removed_signal_id := ucast (fst (snd (signal_ids env))),
        changed_signal_id := ucast (snd (snd (signal_ids env)))\<rparr>"
    let ?u = "emit (Ev_start_discovery p) (put_adapter a (x\<lparr>scan := ?sc, discovered_device_callback :=
        (discovered_device_callback x)\<lparr>callback := cb, user_data := data\<rparr>\<rparr>) t)"
    have "wf_gstate (put_adapter a (x\<lparr>scan := ?sc, discovered_device_callback :=
        (discovered_device_callback x)\<lparr>callback := cb, user_data := data\<rparr>\<rparr>) t)"
      by (rule wf_put_same [OF t(2) a x]) simp_all
    then have "wf_gstate ?u" by (simp add: wf_gstate_def)
    moreover have "same_refs s ?u" using t(3) x by (simp add: same_refs_put ble_scan_init_def)
    ultimately show ?thesis
      using t(1) Inr x by (cases "start_discovery_error env") (simp_all add: adapter_scan_begin_def Let_def)
  qed
qed

lemma scan_setup_refs:
  assumes "wf_gstate s" "a \<in> set (m_adapter_list s)"
  shows "\<exists>r t. adapter_scan_setup (Some a) us rssi filters cb timeout data env s = Some (r, t) \<and> wf_gstate t \<and> same_refs s t"
proof -
  obtain x where x: "adp_heap s a = Some x" using assms by (elim wf_adapterE)
  have emit: "wf_gstate (emit e s)" for e using assms(1) by (simp add: wf_gstate_def)
  have begin_refs: "\<exists>r t. adapter_scan_begin a p filters cb timeout data env (emit e s) = Some (r, t) \<and> wf_gstate t \<and> same_refs s t" for p e
    using scan_begin_refs [OF emit, of a e p filters cb timeout data env] assms(2)
    by (simp add: same_refs_def)
  show ?thesis
    using x emit begin_refs assms(1)
    by (cases "adapter_proxy x"; cases "set_filter_error env") (auto simp: adapter_scan_setup_def Let_def)
qed

lemma scan_enable_refs:
  assumes "wf_gstate s"
  shows "\<exists>r t. gattlib_adapter_scan_enable_with_filter_enter (Some a) us rssi filters cb timeout data env s = Some (r, t)
    \<and> wf_gstate t \<and> same_refs s t"
proof (cases "a \<in> set (m_adapter_list s)")
  case True
  obtain r t where t: "adapter_scan_setup (Some a) us rssi filters cb timeout data env s = Some (r, t)" "wf_gstate t" "same_refs s t"
    using scan_setup_refs [OF assms True, of us rssi filters cb timeout data env] by blast
  have a: "a \<in> set (m_adapter_list t)" using True t(3) by (simp add: same_refs_def)
  then obtain x where x: "adp_heap t a = Some x" using t(2) by (elim wf_adapterE)
  let ?u = "put_adapter a (x\<lparr>scan := (scan x)\<lparr>is_scanning := True, scan_loop_thread := None\<rparr>\<rparr>) t"
  have "wf_gstate ?u" by (rule wf_put_same [OF t(2) a x]) simp_all
  moreover have "same_refs s ?u" using t(3) x by (simp add: same_refs_put)
  ultimately show ?thesis
    using t True x
    by (cases "r = GATTLIB_SUCCESS"; cases "scan_thread env")
      (auto simp: gattlib_adapter_scan_enable_with_filter_enter_def adapter_scan_start_thread_def set_scan_def Let_def wf_gstate_def)
qed (use assms in \<open>simp add: gattlib_adapter_scan_enable_with_filter_enter_def\<close>)

subsection \<open>Devices\<close>

lemma set_state_refs:
  assumes "wf_gstate s" "\<And>d. al = Some d \<Longrightarrow> dev_heap s d = None"
  shows "\<exists>r t. gattlib_device_set_state al (Some a) key new s = Some (r, t) \<and> wf_gstate t \<and> same_refs s t"
proof (cases "a \<in> set (m_adapter_list s)")
  case True
  show ?thesis
  proof (cases "al = None \<and> device_lookup s a key = None")
    case oom: True
    then have "state_of s a key = NOT_FOUND" using state_of_NOT_FOUND [OF assms(1) True] by simp
    with oom assms(1) show ?thesis by (simp add: set_state_oom [OF assms(1) True])
  next
    case False
    have "\<exists>rt. gattlib_device_set_state al (Some a) key new s = Some rt \<and> set_state_post a key new s rt"
    proof (cases al)
      case (Some d)
      with set_state_correct [OF assms(1) True] assms(2) show ?thesis by simp
    next
      case None
      with False obtain d where d: "device_lookup s a key = Some d" by auto
      show ?thesis using set_state_change [OF assms(1) True d] set_state_remove [OF assms(1) True d] by (cases "new = NOT_FOUND") auto
    qed
    then show ?thesis by (auto simp: set_state_post_def intro: same_refs_registry)
  qed
qed (use assms in \<open>simp add: gattlib_device_set_state_def\<close>)

lemma device_added_refs:
  assumes "wf_gstate s" "\<And>d. device_alloc env = Some d \<Longrightarrow> dev_heap s d = None" "args_calloc_ok env"
  shows "\<exists>t. on_dbus_object_added path ifc a dev env s = Some t \<and> wf_gstate t \<and> same_refs s t"
proof (cases "ifc \<and> dev \<noteq> None \<and> fst (the dev) \<noteq> None \<and> a \<in> set (m_adapter_list s)")
  case False
  with assms(1) show ?thesis by (cases dev) (auto simp: on_dbus_object_added_def device_manager_on_added_device1_signal_def)
next
  case True
  then obtain adr nm where dev: "dev = Some (Some adr, nm)" by (cases dev) auto
  obtain r t where t: "gattlib_device_set_state (device_alloc env) (Some a) path DISCONNECTED s = Some (r, t)" "wf_gstate t" "same_refs s t"
    using set_state_refs [OF assms(1,2)] by blast
  have a: "a \<in> set (m_adapter_list t)" using True t(3) by (simp add: same_refs_def)
  then obtain x where x: "adp_heap t a = Some x" using t(2) by (elim wf_adapterE)
  have emit: "wf_gstate (emit e t)" for e using t(2) by (simp add: wf_gstate_def)
  show ?thesis
    using True dev t a x emit assms(3)
    by (auto simp: on_dbus_object_added_def device_manager_on_added_device1_signal_def discovered_device_new_def
        gattlib_on_discovered_device_def gattlib_handler_dispatch_to_thread_def discovered_device_thread_args_allocator_def)
qed

subsection \<open>Reference counters\<close>

lemma unref_refs:
  assumes "wf_gstate s" "a \<in> set (m_adapter_list s)" "adp_heap s a = Some x"
  obtains t where "gattlib_adapter_unref a s = Some (GATTLIB_SUCCESS, t)" "wf_gstate t"
    "m_adapter_list t = (if aref x = 1 then remove1 a (m_adapter_list s) else m_adapter_list s)"
    "aref x \<noteq> 1 \<longrightarrow> (\<exists>y. adp_heap t a = Some y \<and> aref y = aref x - 1 \<and> scan y = scan x)"
    "\<forall>b \<in> set (m_adapter_list s). b \<noteq> a \<longrightarrow> adp_heap t b = adp_heap s b"
proof -
  obtain t where t: "gattlib_adapter_unref a s = Some (GATTLIB_SUCCESS, t)" "wf_gstate t"
    "m_adapter_list t = (if aref x = 1 then remove1 a (m_adapter_list s) else m_adapter_list s)"
    "\<forall>b \<in> set (m_adapter_list s). b \<noteq> a \<longrightarrow> adp_heap t b = adp_heap s b"
    using adapter_unref_wf [OF assms(1,2)] assms(3) by auto
  have "\<exists>y. adp_heap t a = Some y \<and> aref y = aref x - 1 \<and> scan y = scan x" if "aref x \<noteq> 1"
  proof -
    have "0 < aref x - 1" using that by (simp add: word_neq_0_conv [symmetric])
    with t(1) assms(3) show ?thesis by (auto simp: gattlib_adapter_unref_def Let_def)
  qed
  with t that show thesis by blast
qed

lemma unat_minus_one: "0 < (x :: u64) \<Longrightarrow> unat (x - 1) = unat x - 1"
  by unat_arith

lemma unat_plus_one: "unat (x :: u64) + 1 < 2 ^ 64 \<Longrightarrow> unat (x + 1) = unat x + 1"
  by (simp add: unat_word_ariths)

section \<open>The system\<close>

text \<open>The registry, the references that the application holds on each adapter, and the discovery threads
  that are between their two critical sections, by adapter.\<close>

record sys =
  reg :: gstate
  opens :: "addr \<Rightarrow> nat"
  running :: "addr multiset"

datatype action =
    Act_open_lookup "string option"
  | Act_open_create "string option" "gerror option + nat" "addr option"
  | Act_close addr bool "gerror option"
  | Act_scan addr "uuid list option" "16 word" u32 "nat option" u64 nat scan_env
  | Act_scan_disable addr bool "gerror option"
  | Act_timeout addr
  | Act_loop_enter addr u32
  | Act_loop_leave addr bool "gerror option"
  | Act_device_added string bool addr "(string option \<times> string option) option" signal_env
  | Act_device_removed string addr
  | Act_thread_enter addr
  | Act_thread_call addr string "string option"
  | Act_thread_leave addr

fun run_action :: "action \<Rightarrow> sys \<Rightarrow> sys option" where
  "run_action (Act_open_lookup nm) s = do {
     (found, g) \<leftarrow> gattlib_adapter_open_lookup nm (reg s);
     Some (s\<lparr>reg := g, opens := (case found of None \<Rightarrow> opens s | Some a \<Rightarrow> (opens s)(a := opens s a + 1))\<rparr>)
   }"
| "run_action (Act_open_create nm proxy alloc) s =
     (case gattlib_adapter_open_create nm proxy alloc (reg s) of (_, made, g) \<Rightarrow>
        Some (s\<lparr>reg := g, opens := (case made of None \<Rightarrow> opens s | Some a \<Rightarrow> (opens s)(a := opens s a + 1))\<rparr>))"
| "run_action (Act_close a discovering e) s = do {
     (r, g) \<leftarrow> gattlib_adapter_close_enter (Some a) discovering e (reg s);
     Some (s\<lparr>reg := g, opens := (if r = Inl GATTLIB_SUCCESS then (opens s)(a := opens s a - 1) else opens s)\<rparr>)
   }"
| "run_action (Act_scan a us rssi filters cb timeout data env) s = do {
     (_, g) \<leftarrow> gattlib_adapter_scan_enable_with_filter_enter (Some a) us rssi filters cb timeout data env (reg s);
     Some (s\<lparr>reg := g\<rparr>)
   }"
| "run_action (Act_scan_disable a discovering e) s = do {
     (_, g) \<leftarrow> gattlib_adapter_scan_disable a discovering e (reg s);
     Some (s\<lparr>reg := g\<rparr>)
   }"
| "run_action (Act_timeout a) s = do { g \<leftarrow> stop_scan_on_timeout a (reg s); Some (s\<lparr>reg := g\<rparr>) }"
| "run_action (Act_loop_enter a i) s = do { (_, g) \<leftarrow> ble_scan_loop_thread_enter a i (reg s); Some (s\<lparr>reg := g\<rparr>) }"
| "run_action (Act_loop_leave a discovering e) s = do {
     g \<leftarrow> ble_scan_loop_thread_leave a discovering e (reg s); Some (s\<lparr>reg := g\<rparr>) }"
| "run_action (Act_device_added path ifc a dev env) s = do {
     g \<leftarrow> on_dbus_object_added path ifc a dev env (reg s); Some (s\<lparr>reg := g\<rparr>) }"
| "run_action (Act_device_removed path a) s = do { g \<leftarrow> on_dbus_object_removed path a (reg s); Some (s\<lparr>reg := g\<rparr>) }"
| "run_action (Act_thread_enter a) s = do {
     (entered, g) \<leftarrow> gattlib_discovered_device_thread_enter a (reg s);
     Some (s\<lparr>reg := g, running := (if entered then add_mset a (running s) else running s)\<rparr>)
   }"
| "run_action (Act_thread_call a mac nm) s = do {
     g \<leftarrow> gattlib_discovered_device_thread_call a mac nm (reg s); Some (s\<lparr>reg := g\<rparr>) }"
| "run_action (Act_thread_leave a) s = do {
     g \<leftarrow> gattlib_discovered_device_thread_leave a (reg s);
     Some (s\<lparr>reg := g, running := running s - {#a#}\<rparr>) }"

text \<open>What the environment respects: \<open>calloc\<close> answers memory that is not in use, the counters are never
  near 2 to the 64, the application closes what it has opened, and a thread runs its sections in order.\<close>

definition refs :: "sys \<Rightarrow> addr \<Rightarrow> nat" where
  "refs s a = opens s a + count (running s) a"

fun enabled :: "action \<Rightarrow> sys \<Rightarrow> bool" where
  "enabled (Act_open_lookup _) s \<longleftrightarrow> (\<forall>a \<in> set (m_adapter_list (reg s)). refs s a + 1 < 2 ^ 64)"
| "enabled (Act_open_create _ _ alloc) s \<longleftrightarrow> (case alloc of None \<Rightarrow> True | Some a \<Rightarrow> a \<notin> set (m_adapter_list (reg s)))"
| "enabled (Act_close a _ _) s \<longleftrightarrow> 0 < opens s a"
| "enabled (Act_device_added _ _ _ _ env) s \<longleftrightarrow>
     (case device_alloc env of None \<Rightarrow> True | Some d \<Rightarrow> dev_heap (reg s) d = None) \<and> args_calloc_ok env"
| "enabled (Act_thread_enter a) s \<longleftrightarrow> refs s a + 1 < 2 ^ 64"
| "enabled (Act_thread_call a _ _) s \<longleftrightarrow> a \<in># running s"
| "enabled (Act_thread_leave a) s \<longleftrightarrow> a \<in># running s"
| "enabled _ s \<longleftrightarrow> True"

inductive reachable :: "sys \<Rightarrow> bool" where
  init: "reachable \<lparr>reg = gstate_init, opens = (\<lambda>_. 0), running = {#}\<rparr>"
| step: "reachable s \<Longrightarrow> enabled act s \<Longrightarrow> run_action act s = Some t \<Longrightarrow> reachable t"

text \<open>The invariant: the counter of an open adapter is the number of those who hold a reference.\<close>

definition sys_inv :: "sys \<Rightarrow> bool" where
  "sys_inv s \<longleftrightarrow> wf_gstate (reg s)
     \<and> (\<forall>a x. a \<in> set (m_adapter_list (reg s)) \<longrightarrow> adp_heap (reg s) a = Some x \<longrightarrow>
          unat (aref x) = refs s a \<and> scan_loop_thread (scan x) = None)
     \<and> (\<forall>a. a \<notin> set (m_adapter_list (reg s)) \<longrightarrow> refs s a = 0)"

lemma refs_moves:
  "refs (s\<lparr>reg := g\<rparr>) = refs s"
  "refs (s\<lparr>reg := g, opens := (opens s)(a := opens s a + 1)\<rparr>) = (refs s)(a := refs s a + 1)"
  "0 < opens s a \<Longrightarrow> refs (s\<lparr>reg := g, opens := (opens s)(a := opens s a - 1)\<rparr>) = (refs s)(a := refs s a - 1)"
  "refs (s\<lparr>reg := g, running := add_mset a (running s)\<rparr>) = (refs s)(a := refs s a + 1)"
  "a \<in># running s \<Longrightarrow> refs (s\<lparr>reg := g, running := running s - {#a#}\<rparr>) = (refs s)(a := refs s a - 1)"
  by (auto simp: refs_def fun_eq_iff)

lemma inv_init: "sys_inv \<lparr>reg = gstate_init, opens = (\<lambda>_. 0), running = {#}\<rparr>"
  using wf_gstate_init by (simp add: sys_inv_def refs_def gstate_init_def)

lemma inv_same_refs:
  assumes "sys_inv s" "wf_gstate g" "same_refs (reg s) g"
  shows "sys_inv (s\<lparr>reg := g\<rparr>)"
proof -
  have "unat (aref y) = refs s a \<and> scan_loop_thread (scan y) = None"
    if a: "a \<in> set (m_adapter_list (reg s))" and y: "adp_heap g a = Some y" for a y
  proof -
    obtain x where x: "adp_heap (reg s) a = Some x" using assms(1) a by (auto simp: sys_inv_def elim: wf_adapterE)
    then show ?thesis using assms(1,3) a y by (fastforce simp: sys_inv_def same_refs_def)
  qed
  moreover have "m_adapter_list g = m_adapter_list (reg s)" using assms(3) by (simp add: same_refs_def)
  ultimately show ?thesis using assms(1,2) by (simp add: sys_inv_def refs_def)
qed

lemma inv_held:
  assumes "sys_inv s" "0 < refs s a"
  obtains x where "a \<in> set (m_adapter_list (reg s))" "adp_heap (reg s) a = Some x" "unat (aref x) = refs s a"
    "scan_loop_thread (scan x) = None"
proof -
  have a: "a \<in> set (m_adapter_list (reg s))" using assms by (auto simp: sys_inv_def)
  then obtain x where "adp_heap (reg s) a = Some x" using assms(1) by (auto simp: sys_inv_def elim: wf_adapterE)
  with assms(1) a that show thesis by (auto simp: sys_inv_def)
qed

lemma inv_ref:
  assumes inv: "sys_inv s" and a: "a \<in> set (m_adapter_list (reg s))" and n: "refs s a + 1 < 2 ^ 64"
  obtains g where "gattlib_adapter_ref a (reg s) = Some (GATTLIB_SUCCESS, g)"
    "\<forall>t. reg t = g \<longrightarrow> refs t = (refs s)(a := refs s a + 1) \<longrightarrow> sys_inv t"
proof -
  obtain x where x: "adp_heap (reg s) a = Some x" using inv a by (auto simp: sys_inv_def elim: wf_adapterE)
  have u: "unat (aref x) = refs s a" "scan_loop_thread (scan x) = None" using inv a x by (auto simp: sys_inv_def)
  then have p: "unat (aref x + 1) = refs s a + 1" using n unat_plus_one [of "aref x"] by simp
  then have "aref x + 1 \<noteq> 0" by (metis unat_0 add_is_0 one_neq_zero)
  with adapter_ref_wf [of "reg s" a] inv a x have
    r: "gattlib_adapter_ref a (reg s) = Some (GATTLIB_SUCCESS, put_adapter a (x\<lparr>aref := aref x + 1\<rparr>) (reg s))"
    and wf: "wf_gstate (put_adapter a (x\<lparr>aref := aref x + 1\<rparr>) (reg s))" by (auto simp: sys_inv_def)
  from wf inv a x u p have "sys_inv t" if "reg t = put_adapter a (x\<lparr>aref := aref x + 1\<rparr>) (reg s)"
    "refs t = (refs s)(a := refs s a + 1)" for t
    using that by (auto simp: sys_inv_def)
  with r that show thesis by blast
qed

lemma inv_unref:
  assumes inv: "sys_inv s" and held: "0 < refs s a"
  obtains g where "gattlib_adapter_unref a (reg s) = Some (GATTLIB_SUCCESS, g)"
    "\<forall>t. reg t = g \<longrightarrow> refs t = (refs s)(a := refs s a - 1) \<longrightarrow> sys_inv t"
proof -
  obtain x where a: "a \<in> set (m_adapter_list (reg s))" and x: "adp_heap (reg s) a = Some x"
    and u: "unat (aref x) = refs s a" "scan_loop_thread (scan x) = None"
    by (rule inv_held [OF inv held])
  have wf: "wf_gstate (reg s)" and d: "distinct (m_adapter_list (reg s))" using inv by (auto simp: sys_inv_def wf_gstate_def)
  obtain g where g: "gattlib_adapter_unref a (reg s) = Some (GATTLIB_SUCCESS, g)" "wf_gstate g"
    "m_adapter_list g = (if aref x = 1 then remove1 a (m_adapter_list (reg s)) else m_adapter_list (reg s))"
    "aref x \<noteq> 1 \<longrightarrow> (\<exists>y. adp_heap g a = Some y \<and> aref y = aref x - 1 \<and> scan y = scan x)"
    "\<forall>b \<in> set (m_adapter_list (reg s)). b \<noteq> a \<longrightarrow> adp_heap g b = adp_heap (reg s) b"
    by (rule unref_refs [OF wf a x])
  have "aref x \<noteq> 0" using u held by auto
  then have m: "unat (aref x - 1) = refs s a - 1"
    using u unat_minus_one [of "aref x"] by (simp add: word_greater_zero_iff)
  have "sys_inv t" if "reg t = g" "refs t = (refs s)(a := refs s a - 1)" for t
  proof (cases "aref x = 1")
    case True
    then have "refs s a = 1" using u by simp
    with True that inv g d show ?thesis by (auto simp: sys_inv_def)
  next
    case False
    then obtain y where "adp_heap g a = Some y" "aref y = aref x - 1" "scan y = scan x" using g(4) by blast
    with False that inv g m u a show ?thesis by (auto simp: sys_inv_def)
  qed
  with g(1) that show thesis by blast
qed

lemma inv_open_lookup:
  assumes inv: "sys_inv s" and e: "enabled (Act_open_lookup nm) s"
  shows "\<exists>t. run_action (Act_open_lookup nm) s = Some t \<and> sys_inv t"
proof -
  have "wf_gstate (reg s)" using inv by (simp add: sys_inv_def)
  then show ?thesis
  proof (rule adapter_from_id_wf)
    assume "gattlib_adapter_from_id (adapter_object_path nm) (reg s) = Some None"
    with inv show ?thesis by (simp add: gattlib_adapter_open_lookup_def)
  next
    fix a assume found: "gattlib_adapter_from_id (adapter_object_path nm) (reg s) = Some (Some a)"
      "with_path (adapter_object_path nm) (reg s) a"
    then have a: "a \<in> set (m_adapter_list (reg s))" by (simp add: with_path_def)
    then have n: "refs s a + 1 < 2 ^ 64" using e by simp
    obtain g where g: "gattlib_adapter_ref a (reg s) = Some (GATTLIB_SUCCESS, g)"
      "\<forall>t. reg t = g \<longrightarrow> refs t = (refs s)(a := refs s a + 1) \<longrightarrow> sys_inv t"
      by (rule inv_ref [OF inv a n])
    then have "sys_inv (s\<lparr>reg := g, opens := (opens s)(a := opens s a + 1)\<rparr>)" using refs_moves(2) by simp
    with found(1) g(1) show ?thesis by (simp add: gattlib_adapter_open_lookup_def)
  qed
qed

lemma inv_open_create:
  assumes inv: "sys_inv s" and e: "enabled (Act_open_create nm proxy alloc) s"
  shows "\<exists>t. run_action (Act_open_create nm proxy alloc) s = Some t \<and> sys_inv t"
proof (cases "\<exists>p a. proxy = Inr p \<and> alloc = Some a")
  case True
  then obtain p a where pa: "proxy = Inr p" "alloc = Some a" by blast
  have a: "a \<notin> set (m_adapter_list (reg s))" using e pa by simp
  have wf: "wf_gstate (emit (Ev_set_powered p) (reg s))" using inv by (simp add: sys_inv_def)
  have "sys_inv (s\<lparr>reg := g, opens := (opens s)(a := opens s a + 1)\<rparr>)"
    if "gattlib_adapter_open_create nm proxy alloc (reg s) = (r, ao, g)" for r ao g
    using that inv a wf_add_adapter [OF wf, of a] unfolding pa open_create_Inr
    by (auto simp: sys_inv_def refs_def ble_scan_init_def)
  with pa show ?thesis by (simp add: open_create_Inr)
next
  case False
  have "same_refs (reg s) (emit e (reg s))" "wf_gstate (emit e (reg s))" for e
    using inv by (simp_all add: sys_inv_def)
  from inv_same_refs [OF inv this(2,1)] inv False show ?thesis
    by (auto simp: gattlib_adapter_open_create_def Let_def split: sum.splits option.splits)
qed

lemma busy_not_success: "GATTLIB_BUSY \<noteq> GATTLIB_SUCCESS"
  by code_simp

lemma inv_close:
  assumes inv: "sys_inv s" and e: "0 < opens s a"
    and t: "run_action (Act_close a discovering err) s = Some t"
  shows "sys_inv t"
proof -
  obtain r g where r: "gattlib_adapter_close_enter (Some a) discovering err (reg s) = Some (r, g)"
    and t: "t = s\<lparr>reg := g, opens := (if r = Inl GATTLIB_SUCCESS then (opens s)(a := opens s a - 1) else opens s)\<rparr>"
    using t by (auto simp: bind_eq_Some_conv)
  have held: "0 < refs s a" using e by (simp add: refs_def)
  obtain x where a: "a \<in> set (m_adapter_list (reg s))" and x: "adp_heap (reg s) a = Some x"
    and u: "unat (aref x) = refs s a" "scan_loop_thread (scan x) = None"
    by (rule inv_held [OF inv held])
  have wf: "wf_gstate (reg s)" using inv by (simp add: sys_inv_def)
  show ?thesis
  proof (cases "is_scanning (scan x)")
    case True
    from scan_disable_refs [OF wf, of a discovering err] obtain v k where
      k: "gattlib_adapter_scan_disable a discovering err (reg s) = Some (v, k)" "same_refs (reg s) k" by blast
    then obtain y where "adp_heap k a = Some y" "scan_loop_thread (scan y) = None"
      using x u by (auto simp: same_refs_def)
    with True k r a x t inv show ?thesis
      by (auto simp: gattlib_adapter_close_enter_def busy_not_success bind_eq_Some_conv split: if_splits)
  next
    case False
    obtain h where h: "gattlib_adapter_unref a (reg s) = Some (GATTLIB_SUCCESS, h)"
      "\<forall>t. reg t = h \<longrightarrow> refs t = (refs s)(a := refs s a - 1) \<longrightarrow> sys_inv t"
      by (rule inv_unref [OF inv held])
    then have "sys_inv (s\<lparr>reg := h, opens := (opens s)(a := opens s a - 1)\<rparr>)" using refs_moves(3) [OF e] by simp
    moreover have "sys_inv (s\<lparr>reg := reg s, opens := opens s\<rparr>)" using inv by simp
    ultimately show ?thesis using False r a x h t inv
      by (auto simp: gattlib_adapter_close_enter_def busy_not_success bind_eq_Some_conv split: if_splits)
  qed
qed

lemma inv_thread:
  assumes inv: "sys_inv s"
  shows "refs s a + 1 < 2 ^ 64 \<Longrightarrow> \<exists>t. run_action (Act_thread_enter a) s = Some t \<and> sys_inv t"
    and "a \<in># running s \<Longrightarrow> \<exists>t. run_action (Act_thread_leave a) s = Some t \<and> sys_inv t"
proof -
  assume n: "refs s a + 1 < 2 ^ 64"
  show "\<exists>t. run_action (Act_thread_enter a) s = Some t \<and> sys_inv t"
  proof (cases "a \<in> set (m_adapter_list (reg s))")
    case True
    obtain g where g: "gattlib_adapter_ref a (reg s) = Some (GATTLIB_SUCCESS, g)"
      "\<forall>t. reg t = g \<longrightarrow> refs t = (refs s)(a := refs s a + 1) \<longrightarrow> sys_inv t"
      by (rule inv_ref [OF inv True n])
    then have "sys_inv (s\<lparr>reg := g, running := add_mset a (running s)\<rparr>)" using refs_moves(4) by simp
    moreover obtain x where "adp_heap (reg s) a = Some x" using inv True by (auto simp: sys_inv_def elim: wf_adapterE)
    ultimately show ?thesis using True g(1) inv
      by (cases "gattlib_has_valid_handler (discovered_device_callback x)")
        (simp_all add: gattlib_discovered_device_thread_enter_def)
  qed (use inv in \<open>simp add: gattlib_discovered_device_thread_enter_def\<close>)
next
  assume e: "a \<in># running s"
  then have held: "0 < refs s a" by (simp add: refs_def)
  obtain g where g: "gattlib_adapter_unref a (reg s) = Some (GATTLIB_SUCCESS, g)"
    "\<forall>t. reg t = g \<longrightarrow> refs t = (refs s)(a := refs s a - 1) \<longrightarrow> sys_inv t"
    by (rule inv_unref [OF inv held])
  then have "sys_inv (s\<lparr>reg := g, running := running s - {#a#}\<rparr>)" using refs_moves(5) [OF e] by simp
  with g(1) show "\<exists>t. run_action (Act_thread_leave a) s = Some t \<and> sys_inv t"
    by (simp add: gattlib_discovered_device_thread_leave_def)
qed

text \<open>But for two of them, the actions cannot fault; all keep the invariant.\<close>

fun may_fault :: "action \<Rightarrow> bool" where
  "may_fault (Act_close _ _ _) = True"
| "may_fault (Act_thread_call _ _ _) = True"
| "may_fault _ = False"

lemma inv_total:
  assumes inv: "sys_inv s" and e: "enabled act s" and f: "\<not> may_fault act"
  shows "\<exists>t. run_action act s = Some t \<and> sys_inv t"
proof -
  have wf: "wf_gstate (reg s)" using inv by (simp add: sys_inv_def)
  have keep: "\<And>g. wf_gstate g \<and> same_refs (reg s) g \<Longrightarrow> sys_inv (s\<lparr>reg := g\<rparr>)" using inv_same_refs [OF inv] by blast
  show ?thesis
  proof (cases act)
    case (Act_open_lookup nm)
    with inv_open_lookup [OF inv] e show ?thesis by (simp only:)
  next
    case (Act_open_create nm proxy alloc)
    with inv_open_create [OF inv] e show ?thesis by (simp only:)
  next
    case (Act_thread_enter a)
    with inv_thread(1) [OF inv] e show ?thesis by (simp only: enabled.simps)
  next
    case (Act_thread_leave a)
    with inv_thread(2) [OF inv] e show ?thesis by (simp only: enabled.simps)
  next
    case (Act_scan a us rssi filters cb timeout data env)
    from scan_enable_refs [OF wf, of a us rssi filters cb timeout data env] keep Act_scan show ?thesis by auto
  next
    case (Act_scan_disable a discovering err)
    from scan_disable_refs [OF wf, of a discovering err] keep Act_scan_disable show ?thesis by auto
  next
    case (Act_timeout a)
    from timeout_refs [OF wf, of a] keep Act_timeout show ?thesis by auto
  next
    case (Act_loop_enter a i)
    from loop_enter_refs [OF wf, of a i] keep Act_loop_enter show ?thesis by auto
  next
    case (Act_loop_leave a discovering err)
    from loop_leave_refs [OF wf, of a discovering err] keep Act_loop_leave show ?thesis by auto
  next
    case (Act_device_added path ifc a dev env)
    from device_added_refs [OF wf, of env path ifc a dev] e keep Act_device_added show ?thesis by (auto split: option.splits)
  next
    case (Act_device_removed path a)
    from set_state_refs [OF wf, of None a path NOT_FOUND] keep Act_device_removed show ?thesis
      by (auto simp: on_dbus_object_removed_def)
  qed (use f in simp_all)
qed

lemma inv_call:
  assumes inv: "sys_inv s" and t: "run_action (Act_thread_call a mac nm) s = Some t"
  shows "sys_inv t"
proof -
  obtain e where "t = s\<lparr>reg := emit e (reg s)\<rparr>"
    using t by (auto simp: gattlib_discovered_device_thread_call_def bind_eq_Some_conv)
  moreover have "wf_gstate (emit e (reg s))" using inv by (simp add: sys_inv_def)
  ultimately show ?thesis using inv_same_refs [OF inv] by simp
qed

lemma inv_step:
  assumes inv: "sys_inv s" and e: "enabled act s" and t: "run_action act s = Some t"
  shows "sys_inv t"
proof (cases "may_fault act")
  case True
  then consider (close) a d err where "act = Act_close a d err" | (call) a mac nm where "act = Act_thread_call a mac nm"
    by (cases act) simp_all
  then show ?thesis
  proof cases
    case close
    with inv_close [OF inv] e t show ?thesis by (simp only: enabled.simps)
  next
    case call
    with inv_call [OF inv] t show ?thesis by (simp only:)
  qed
next
  case False
  from inv_total [OF inv e this] t show ?thesis by auto
qed

lemma reachable_inv: "reachable s \<Longrightarrow> sys_inv s"
  by (induction rule: reachable.induct) (use inv_init inv_step in blast)+

lemma close_idle_runs:
  assumes "sys_inv s" and "adp_heap (reg s) a = Some x" and "0 < opens s a" and "\<not> is_scanning (scan x)"
  shows "run_action (Act_close a discovering err) s \<noteq> None"
proof -
  have held: "0 < refs s a" using assms(3) by (simp add: refs_def)
  obtain h where "gattlib_adapter_unref a (reg s) = Some (GATTLIB_SUCCESS, h)"
    by (rule inv_unref [OF assms(1) held])
  moreover have a: "a \<in> set (m_adapter_list (reg s))" using inv_held [OF assms(1) held] by blast
  moreover have "wf_gstate (reg s)" using assms(1) by (simp add: sys_inv_def)
  ultimately show ?thesis
    using assms(2,4) devices_are_disconnected_wf by (simp add: gattlib_adapter_close_enter_def)
qed

section \<open>An example run\<close>

text \<open>An application opens \<open>hci0\<close> and starts a scan; a discovery thread enters.\<close>

definition ex_init :: sys where "ex_init = \<lparr>reg = gstate_init, opens = (\<lambda>_. 0), running = {#}\<rparr>"
definition ex_opened :: sys where "ex_opened = the (run_action (Act_open_create (Some ''hci0'') (Inr 5) (Some 1)) ex_init)"
definition ex_scan_on :: sys where "ex_scan_on = the (run_action (Act_scan 1 None 0 0 (Some 7) 10 3 ex_scan_env) ex_opened)"
definition ex_calling :: sys where "ex_calling = the (run_action (Act_thread_enter 1) ex_scan_on)"

lemma ex_opened_run: "run_action (Act_open_create (Some ''hci0'') (Inr 5) (Some 1)) ex_init = Some ex_opened"
  by (simp add: ex_opened_def ex_init_def open_create_Inr)

lemmas ex_scan_defs = ex_scan_on_def ex_opened_def ex_init_def open_create_Inr ex_scan_env_def Let_def
  gattlib_adapter_scan_enable_with_filter_enter_def adapter_scan_setup_def adapter_scan_begin_def
  get_device_manager_from_adapter_def adapter_scan_start_thread_def set_scan_def gstate_init_def

lemma ex_scan_on_run: "run_action (Act_scan 1 None 0 0 (Some 7) 10 3 ex_scan_env) ex_opened = Some ex_scan_on"
  by (simp add: ex_scan_defs)

lemma ex_scan_on_eq:
  "m_adapter_list (reg ex_scan_on) = [1]"
  "\<exists>x. adp_heap (reg ex_scan_on) 1 = Some x \<and> is_scanning (scan x) \<and> scan_loop_thread (scan x) = None
    \<and> devices x = [] \<and> aref x = 1 \<and> callback (discovered_device_callback x) = Some 7"
  "opens ex_scan_on = (\<lambda>_. 0)(1 := 1)" "running ex_scan_on = {#}"
  by (simp_all add: ex_scan_defs)

lemma ex_scan_on_reachable: "reachable ex_scan_on"
proof -
  have "reachable ex_init" unfolding ex_init_def by (rule reachable.init)
  then have "reachable ex_opened" by (rule reachable.step [OF _ _ ex_opened_run]) (simp add: ex_init_def gstate_init_def)
  then show ?thesis by (rule reachable.step [OF _ _ ex_scan_on_run]) simp
qed

lemma ex_calling_run: "run_action (Act_thread_enter 1) ex_scan_on = Some ex_calling" "running ex_calling = {#1#}"
  using ex_scan_on_eq by (auto simp: ex_calling_def gattlib_discovered_device_thread_enter_def gattlib_adapter_ref_def
      gattlib_has_valid_handler_def)

lemma ex_calling_reachable: "reachable ex_calling"
  by (rule reachable.step [OF ex_scan_on_reachable _ ex_calling_run(1)])
    (simp add: refs_def ex_scan_on_eq)

section \<open>Properties\<close>




end
