(* ===== verification/Att.thy ===== *)
theory Att
  imports Bt_Uuid
begin

text \<open>
  \<open>bluez/bluez5/attrib/att.c\<close>: the encoders and decoders of the Attribute Protocol's PDUs, which
  the socket back end sends and receives.

  A PDU buffer of \<open>len\<close> bytes is a list of that length. An encoder answers its return code and the
  buffer after its writes, a decoder its return code and what it stores in its results, if it accepts.
  \<open>None\<close> means that the code reads or writes outside a buffer. The result pointers of the decoders,
  and the PDU pointer, are not null, and the buffer for a decoded value holds the value.
\<close>

section \<open>Buffers\<close>

definition put_bytes :: "nat \<Rightarrow> u8 list \<Rightarrow> u8 list \<Rightarrow> u8 list option" where
  "put_bytes off bs buf =
     (if off + length bs \<le> length buf then Some (take off buf @ bs @ drop (off + length bs) buf) else None)"

definition put_8 :: "nat \<Rightarrow> u8 \<Rightarrow> u8 list \<Rightarrow> u8 list option" where
  "put_8 off b buf = put_bytes off [b] buf"

definition put_le16 :: "nat \<Rightarrow> u16 \<Rightarrow> u8 list \<Rightarrow> u8 list option" where
  "put_le16 off v buf = put_bytes off (le16 v) buf"

definition rd_8 :: "nat \<Rightarrow> u8 list \<Rightarrow> u8 option" where
  "rd_8 off pdu = (if off < length pdu then Some (pdu ! off) else None)"

definition rd_le16 :: "nat \<Rightarrow> u8 list \<Rightarrow> u16 option" where
  "rd_le16 off pdu = (if off + 1 < length pdu then Some (get_le16 pdu off) else None)"

definition rd_bytes :: "nat \<Rightarrow> nat \<Rightarrow> u8 list \<Rightarrow> u8 list option" where
  "rd_bytes off n pdu = (if off + n \<le> length pdu then Some (take n (drop off pdu)) else None)"

text \<open>The difference of two \<open>size_t\<close>, which wraps below zero.\<close>

definition size_sub :: "nat \<Rightarrow> nat \<Rightarrow> nat" where
  "size_sub a b = (if b \<le> a then a - b else 2 ^ 64 + a - b)"

type_synonym enc_result = "(u16 \<times> u8 list) option"
type_synonym 'a dec_result = "(u16 \<times> 'a option) option"

section \<open>Opcodes\<close>

definition ATT_SIGNATURE_LEN :: nat where "ATT_SIGNATURE_LEN = 12"
definition ATT_OP_ERROR :: u8 where "ATT_OP_ERROR = 0x01"
definition ATT_OP_MTU_REQ :: u8 where "ATT_OP_MTU_REQ = 0x02"
definition ATT_OP_MTU_RESP :: u8 where "ATT_OP_MTU_RESP = 0x03"
definition ATT_OP_FIND_INFO_REQ :: u8 where "ATT_OP_FIND_INFO_REQ = 0x04"
definition ATT_OP_FIND_INFO_RESP :: u8 where "ATT_OP_FIND_INFO_RESP = 0x05"
definition ATT_OP_FIND_BY_TYPE_REQ :: u8 where "ATT_OP_FIND_BY_TYPE_REQ = 0x06"
definition ATT_OP_FIND_BY_TYPE_RESP :: u8 where "ATT_OP_FIND_BY_TYPE_RESP = 0x07"
definition ATT_OP_READ_BY_TYPE_REQ :: u8 where "ATT_OP_READ_BY_TYPE_REQ = 0x08"
definition ATT_OP_READ_BY_TYPE_RESP :: u8 where "ATT_OP_READ_BY_TYPE_RESP = 0x09"
definition ATT_OP_READ_REQ :: u8 where "ATT_OP_READ_REQ = 0x0A"
definition ATT_OP_READ_RESP :: u8 where "ATT_OP_READ_RESP = 0x0B"
definition ATT_OP_READ_BLOB_REQ :: u8 where "ATT_OP_READ_BLOB_REQ = 0x0C"
definition ATT_OP_READ_BLOB_RESP :: u8 where "ATT_OP_READ_BLOB_RESP = 0x0D"
definition ATT_OP_READ_BY_GROUP_REQ :: u8 where "ATT_OP_READ_BY_GROUP_REQ = 0x10"
definition ATT_OP_READ_BY_GROUP_RESP :: u8 where "ATT_OP_READ_BY_GROUP_RESP = 0x11"
definition ATT_OP_WRITE_REQ :: u8 where "ATT_OP_WRITE_REQ = 0x12"
definition ATT_OP_WRITE_RESP :: u8 where "ATT_OP_WRITE_RESP = 0x13"
definition ATT_OP_WRITE_CMD :: u8 where "ATT_OP_WRITE_CMD = 0x52"
definition ATT_OP_PREP_WRITE_REQ :: u8 where "ATT_OP_PREP_WRITE_REQ = 0x16"
definition ATT_OP_PREP_WRITE_RESP :: u8 where "ATT_OP_PREP_WRITE_RESP = 0x17"
definition ATT_OP_EXEC_WRITE_REQ :: u8 where "ATT_OP_EXEC_WRITE_REQ = 0x18"
definition ATT_OP_EXEC_WRITE_RESP :: u8 where "ATT_OP_EXEC_WRITE_RESP = 0x19"
definition ATT_OP_HANDLE_NOTIFY :: u8 where "ATT_OP_HANDLE_NOTIFY = 0x1B"
definition ATT_OP_HANDLE_IND :: u8 where "ATT_OP_HANDLE_IND = 0x1D"
definition ATT_OP_HANDLE_CNF :: u8 where "ATT_OP_HANDLE_CNF = 0x1E"
definition ATT_OP_SIGNED_WRITE_CMD :: u8 where "ATT_OP_SIGNED_WRITE_CMD = 0xD2"

lemmas att_ops = ATT_OP_ERROR_def ATT_OP_MTU_REQ_def ATT_OP_MTU_RESP_def ATT_OP_FIND_INFO_REQ_def
  ATT_OP_FIND_INFO_RESP_def ATT_OP_FIND_BY_TYPE_REQ_def ATT_OP_FIND_BY_TYPE_RESP_def
  ATT_OP_READ_BY_TYPE_REQ_def ATT_OP_READ_BY_TYPE_RESP_def ATT_OP_READ_REQ_def ATT_OP_READ_RESP_def
  ATT_OP_READ_BLOB_REQ_def ATT_OP_READ_BLOB_RESP_def ATT_OP_READ_BY_GROUP_REQ_def
  ATT_OP_READ_BY_GROUP_RESP_def ATT_OP_WRITE_REQ_def ATT_OP_WRITE_RESP_def ATT_OP_WRITE_CMD_def
  ATT_OP_PREP_WRITE_REQ_def ATT_OP_PREP_WRITE_RESP_def ATT_OP_EXEC_WRITE_REQ_def
  ATT_OP_EXEC_WRITE_RESP_def ATT_OP_HANDLE_NOTIFY_def ATT_OP_HANDLE_IND_def ATT_OP_HANDLE_CNF_def
  ATT_OP_SIGNED_WRITE_CMD_def

text \<open>The text of a status, by the codes of \<open>att.h\<close>.\<close>

definition att_ecode2str :: "u8 \<Rightarrow> string" where
  "att_ecode2str status =
     (if status = 0x01 then ''Invalid handle''
      else if status = 0x02 then ''Attribute can'' @ [CHR 0x27] @ ''t be read''
      else if status = 0x03 then ''Attribute can'' @ [CHR 0x27] @ ''t be written''
      else if status = 0x04 then ''Attribute PDU was invalid''
      else if status = 0x05 then ''Attribute requires authentication before read/write''
      else if status = 0x06 then ''Server doesn'' @ [CHR 0x27] @ ''t support the request received''
      else if status = 0x07 then ''Offset past the end of the attribute''
      else if status = 0x08 then ''Attribute requires authorization before read/write''
      else if status = 0x09 then ''Too many prepare writes have been queued''
      else if status = 0x0A then ''No attribute found within the given range''
      else if status = 0x0B then ''Attribute can'' @ [CHR 0x27] @ ''t be read/written using Read Blob Req''
      else if status = 0x0C then ''Encryption Key Size is insufficient''
      else if status = 0x0D then ''Attribute value length is invalid''
      else if status = 0x0E then ''Request attribute has encountered an unlikely error''
      else if status = 0x0F then ''Encryption required before read/write''
      else if status = 0x10 then ''Attribute type is not a supported grouping attribute''
      else if status = 0x11 then ''Insufficient Resources to complete the request''
      else if status = 0x80 then ''Internal application error: I/O''
      else if status = 0x81 then ''A timeout occured''
      else if status = 0x82 then ''The operation was aborted''
      else ''Unexpected error code'')"

section \<open>Lists of attribute data\<close>

text \<open>\<open>num\<close> is the length of the data.\<close>

record att_data_list =
  dl_len :: u16
  dl_data :: "u8 list list"

record att_range =
  range_start :: u16
  range_end :: u16

definition att_data_list_alloc :: "u16 \<Rightarrow> u16 \<Rightarrow> att_data_list option" where
  "att_data_list_alloc num elen =
     (if 255 < elen then None
      else Some \<lparr>dl_len = elen, dl_data = replicate (unat num) (replicate (unat elen) 0)\<rparr>)"

text \<open>The loop that copies the entries into a response: \<open>l\<close> bytes of each, while they fit. \<open>conv\<close>
  is the conversion of the byte count to the type that the code gives it.\<close>

fun put_entries :: "(nat \<Rightarrow> nat) \<Rightarrow> nat \<Rightarrow> nat \<Rightarrow> nat \<Rightarrow> u8 list list \<Rightarrow> u8 list \<Rightarrow> (nat \<times> u8 list) option" where
  "put_entries conv l w ptr [] buf = Some (w, buf)"
| "put_entries conv l w ptr (d # ds) buf =
     (if w + l \<le> length buf then do {
        bs \<leftarrow> rd_bytes 0 l d;
        buf \<leftarrow> put_bytes ptr bs buf;
        put_entries conv l (conv (w + l)) (ptr + l) ds buf
      } else Some (w, buf))"

definition conv_u16 :: "nat \<Rightarrow> nat" where "conv_u16 n = n mod 65536"

text \<open>The loop that copies the entries out of one.\<close>

fun get_entries :: "nat \<Rightarrow> nat \<Rightarrow> nat \<Rightarrow> u8 list \<Rightarrow> u8 list list option" where
  "get_entries ptr l 0 pdu = Some []"
| "get_entries ptr l (Suc n) pdu = do {
     d \<leftarrow> rd_bytes ptr l pdu;
     ds \<leftarrow> get_entries (ptr + l) l n pdu;
     Some (d # ds)
   }"

definition get_data_list :: "nat \<Rightarrow> nat \<Rightarrow> u8 list \<Rightarrow> att_data_list option option" where
  "get_data_list num elen pdu = (case att_data_list_alloc (of_nat num) (of_nat elen) of
       None \<Rightarrow> Some None
     | Some list \<Rightarrow> do {
         ds \<leftarrow> get_entries 2 (unat (dl_len list)) (unat (of_nat num :: u16)) pdu;
         Some (Some (list\<lparr>dl_data := ds\<rparr>))
       })"

section \<open>UUIDs\<close>

text \<open>A 32-bit UUID has no 128-bit value to convert.\<close>

fun put_uuid_le :: "bt_uuid \<Rightarrow> nat \<Rightarrow> u8 list \<Rightarrow> u8 list option" where
  "put_uuid_le (BT_UUID16 v) off buf = put_le16 off v buf"
| "put_uuid_le (BT_UUID128 bs) off buf = put_bytes off (rev bs) buf"
| "put_uuid_le _ off buf = None"

fun att_uuid_len :: "bt_uuid \<Rightarrow> nat option" where
  "att_uuid_len (BT_UUID16 _) = Some 2"
| "att_uuid_len (BT_UUID128 _) = Some 16"
| "att_uuid_len _ = None"

definition get_uuid :: "bool \<Rightarrow> nat \<Rightarrow> u8 list \<Rightarrow> bt_uuid option" where
  "get_uuid short off pdu =
     (if short then map_option bt_uuid16_create (rd_le16 off pdu)
      else map_option (\<lambda>bs. bt_uuid128_create (rev bs)) (rd_bytes off 16 pdu))"

section \<open>Read by group type, find by type, read by type\<close>

text \<open>\<open>enc_read_by_grp_req\<close> and \<open>enc_read_by_type_req\<close> after the opcode, and the decoders' results.\<close>

definition enc_range_uuid :: "u8 \<Rightarrow> u16 \<Rightarrow> u16 \<Rightarrow> bt_uuid option \<Rightarrow> u8 list \<Rightarrow> enc_result" where
  "enc_range_uuid opcode start stop uuid pdu = (case uuid of
       None \<Rightarrow> Some (0, pdu)
     | Some u \<Rightarrow> (case att_uuid_len u of
           None \<Rightarrow> Some (0, pdu)
         | Some uuid_len \<Rightarrow> do {
             pdu \<leftarrow> put_8 0 opcode pdu;
             pdu \<leftarrow> put_le16 1 start pdu;
             pdu \<leftarrow> put_le16 3 stop pdu;
             pdu \<leftarrow> put_uuid_le u 5 pdu;
             Some (of_nat (5 + uuid_len), pdu)
           }))"

definition dec_range_uuid :: "bool \<Rightarrow> u8 list \<Rightarrow> (u16 \<times> u16 \<times> bt_uuid) dec_result" where
  "dec_range_uuid short pdu = do {
     start \<leftarrow> rd_le16 1 pdu;
     stop \<leftarrow> rd_le16 3 pdu;
     u \<leftarrow> get_uuid short 5 pdu;
     Some (of_nat (length pdu), Some (start, stop, u))
   }"

definition enc_read_by_grp_req :: "u16 \<Rightarrow> u16 \<Rightarrow> bt_uuid option \<Rightarrow> u8 list \<Rightarrow> enc_result" where
  "enc_read_by_grp_req = enc_range_uuid ATT_OP_READ_BY_GROUP_REQ"

definition dec_read_by_grp_req :: "u8 list \<Rightarrow> (u16 \<times> u16 \<times> bt_uuid) dec_result" where
  "dec_read_by_grp_req pdu = do {
     opcode \<leftarrow> rd_8 0 pdu;
     if opcode \<noteq> ATT_OP_READ_BY_GROUP_REQ then Some (0, None)
     else if length pdu = 5 + 2 then dec_range_uuid True pdu
     else if length pdu = 5 + 16 then dec_range_uuid False pdu
     else Some (0, None)
   }"

definition enc_read_by_grp_resp :: "att_data_list option \<Rightarrow> u8 list \<Rightarrow> enc_result" where
  "enc_read_by_grp_resp list pdu = (case list of
       None \<Rightarrow> Some (0, pdu)
     | Some list \<Rightarrow>
         if length pdu < unat (dl_len list) + 2 then Some (0, pdu)
         else do {
           pdu \<leftarrow> put_8 0 ATT_OP_READ_BY_GROUP_RESP pdu;
           pdu \<leftarrow> put_8 1 (ucast (dl_len list)) pdu;
           (w, pdu) \<leftarrow> put_entries conv_u16 (unat (dl_len list)) 2 2 (dl_data list) pdu;
           Some (of_nat w, pdu)
         })"

definition dec_read_by_grp_resp :: "u8 list \<Rightarrow> att_data_list option option" where
  "dec_read_by_grp_resp pdu = do {
     opcode \<leftarrow> rd_8 0 pdu;
     if opcode \<noteq> ATT_OP_READ_BY_GROUP_RESP then Some None
     else if length pdu < 7 then Some None
     else do {
       elen \<leftarrow> rd_8 1 pdu;
       if elen < 5 then Some None
       else if (length pdu - 2) mod unat elen \<noteq> 0 then Some None
       else get_data_list ((length pdu - 2) div unat elen) (unat elen) pdu
     }
   }"

definition enc_find_by_type_req :: "u16 \<Rightarrow> u16 \<Rightarrow> bt_uuid option \<Rightarrow> u8 list \<Rightarrow> u8 list \<Rightarrow> enc_result" where
  "enc_find_by_type_req start stop uuid val pdu = (case uuid of
       Some (BT_UUID16 v) \<Rightarrow> do {
         let vlen = min (length val) (size_sub (length pdu) 7);
         pdu \<leftarrow> put_8 0 ATT_OP_FIND_BY_TYPE_REQ pdu;
         pdu \<leftarrow> put_le16 1 start pdu;
         pdu \<leftarrow> put_le16 3 stop pdu;
         pdu \<leftarrow> put_le16 5 v pdu;
         if 0 < vlen then do {
           pdu \<leftarrow> put_bytes 7 (take vlen val) pdu;
           Some (of_nat (7 + vlen), pdu)
         } else Some (7, pdu)
       }
     | _ \<Rightarrow> Some (0, pdu))"

definition dec_find_by_type_req :: "u8 list \<Rightarrow> (u16 \<times> u16 \<times> bt_uuid \<times> u8 list) dec_result" where
  "dec_find_by_type_req pdu =
     (if length pdu < 7 then Some (0, None)
      else do {
        opcode \<leftarrow> rd_8 0 pdu;
        if opcode \<noteq> ATT_OP_FIND_BY_TYPE_REQ then Some (0, None)
        else do {
          start \<leftarrow> rd_le16 1 pdu;
          stop \<leftarrow> rd_le16 3 pdu;
          v \<leftarrow> rd_le16 5 pdu;
          val \<leftarrow> rd_bytes 7 (length pdu - 7) pdu;
          Some (of_nat (length pdu), Some (start, stop, bt_uuid16_create v, val))
        }
      })"

fun put_ranges :: "u16 \<Rightarrow> att_range list \<Rightarrow> u8 list \<Rightarrow> (u16 \<times> u8 list) option" where
  "put_ranges offset [] buf = Some (offset, buf)"
| "put_ranges offset (r # rs) buf =
     (if unat offset + 4 \<le> length buf then do {
        buf \<leftarrow> put_le16 (unat offset) (range_start r) buf;
        buf \<leftarrow> put_le16 (unat offset + 2) (range_end r) buf;
        put_ranges (offset + 4) rs buf
      } else Some (offset, buf))"

definition enc_find_by_type_resp :: "att_range list \<Rightarrow> u8 list \<Rightarrow> enc_result" where
  "enc_find_by_type_resp matches pdu = do {
     pdu \<leftarrow> put_8 0 ATT_OP_FIND_BY_TYPE_RESP pdu;
     put_ranges 1 matches pdu
   }"

function get_ranges :: "nat \<Rightarrow> u8 list \<Rightarrow> att_range list option" where
  "get_ranges offset pdu =
     (if offset + 4 \<le> length pdu then do {
        s \<leftarrow> rd_le16 offset pdu;
        e \<leftarrow> rd_le16 (offset + 2) pdu;
        rs \<leftarrow> get_ranges (offset + 4) pdu;
        Some (\<lparr>range_start = s, range_end = e\<rparr> # rs)
      } else Some [])"
  by pat_completeness auto
termination by (relation "measure (\<lambda>(offset, pdu). length pdu - offset)") auto

declare get_ranges.simps [simp del]

text \<open>The null list is the empty one.\<close>

definition dec_find_by_type_resp :: "u8 list \<Rightarrow> att_range list option" where
  "dec_find_by_type_resp pdu =
     (if length pdu < 5 then Some []
      else do {
        opcode \<leftarrow> rd_8 0 pdu;
        if opcode \<noteq> ATT_OP_FIND_BY_TYPE_RESP then Some []
        else if (length pdu - 1) mod 4 \<noteq> 0 then Some []
        else get_ranges 1 pdu
      })"

definition enc_read_by_type_req :: "u16 \<Rightarrow> u16 \<Rightarrow> bt_uuid option \<Rightarrow> u8 list \<Rightarrow> enc_result" where
  "enc_read_by_type_req = enc_range_uuid ATT_OP_READ_BY_TYPE_REQ"

definition dec_read_by_type_req :: "u8 list \<Rightarrow> (u16 \<times> u16 \<times> bt_uuid) dec_result" where
  "dec_read_by_type_req pdu =
     (if length pdu \<noteq> 5 + 2 \<and> length pdu \<noteq> 5 + 16 then Some (0, None)
      else do {
        opcode \<leftarrow> rd_8 0 pdu;
        if opcode \<noteq> ATT_OP_READ_BY_TYPE_REQ then Some (0, None)
        else dec_range_uuid (length pdu = 5 + 2) pdu
      })"

definition enc_read_by_type_resp :: "att_data_list option \<Rightarrow> u8 list \<Rightarrow> enc_result" where
  "enc_read_by_type_resp list pdu = (case list of
       None \<Rightarrow> Some (0, pdu)
     | Some list \<Rightarrow> do {
         let l = min (size_sub (length pdu) 2) (unat (dl_len list));
         pdu \<leftarrow> put_8 0 ATT_OP_READ_BY_TYPE_RESP pdu;
         pdu \<leftarrow> put_8 1 (of_nat l) pdu;
         (w, pdu) \<leftarrow> put_entries id l 2 2 (dl_data list) pdu;
         Some (of_nat w, pdu)
       })"

definition dec_read_by_type_resp :: "u8 list \<Rightarrow> att_data_list option option" where
  "dec_read_by_type_resp pdu = do {
     opcode \<leftarrow> rd_8 0 pdu;
     if opcode \<noteq> ATT_OP_READ_BY_TYPE_RESP then Some None
     else if length pdu < 5 then Some None
     else do {
       elen \<leftarrow> rd_8 1 pdu;
       if elen < 3 then Some None
       else if (length pdu - 2) mod unat elen \<noteq> 0 then Some None
       else get_data_list ((length pdu - 2) div unat elen) (unat elen) pdu
     }
   }"

section \<open>Write\<close>

text \<open>The body that \<open>enc_write_cmd\<close> and \<open>enc_write_req\<close> share.\<close>

definition enc_handle_value :: "u8 \<Rightarrow> u16 \<Rightarrow> u8 list \<Rightarrow> u8 list \<Rightarrow> enc_result" where
  "enc_handle_value opcode handle val pdu = do {
     let vlen = min (length val) (size_sub (length pdu) 3);
     pdu \<leftarrow> put_8 0 opcode pdu;
     pdu \<leftarrow> put_le16 1 handle pdu;
     if 0 < vlen then do {
       pdu \<leftarrow> put_bytes 3 (take vlen val) pdu;
       Some (of_nat (3 + vlen), pdu)
     } else Some (3, pdu)
   }"

definition dec_handle_value :: "u8 \<Rightarrow> u8 list \<Rightarrow> (u16 \<times> u8 list) dec_result" where
  "dec_handle_value opcode pdu =
     (if length pdu < 3 then Some (0, None)
      else do {
        opc \<leftarrow> rd_8 0 pdu;
        if opc \<noteq> opcode then Some (0, None)
        else do {
          handle \<leftarrow> rd_le16 1 pdu;
          val \<leftarrow> rd_bytes 3 (length pdu - 3) pdu;
          Some (of_nat (length pdu), Some (handle, val))
        }
      })"

definition enc_write_cmd :: "u16 \<Rightarrow> u8 list \<Rightarrow> u8 list \<Rightarrow> enc_result" where
  "enc_write_cmd = enc_handle_value ATT_OP_WRITE_CMD"

definition dec_write_cmd :: "u8 list \<Rightarrow> (u16 \<times> u8 list) dec_result" where
  "dec_write_cmd = dec_handle_value ATT_OP_WRITE_CMD"

text \<open>\<open>sign\<close> is \<open>bt_crypto_sign_att\<close> on the bytes to sign: the 12 bytes of the signature, or failure.\<close>

definition enc_signed_write_cmd ::
    "(u8 list \<Rightarrow> u8 list option) \<Rightarrow> u16 \<Rightarrow> u8 list \<Rightarrow> u8 list \<Rightarrow> enc_result" where
  "enc_signed_write_cmd sign handle val pdu = do {
     let min_len = 3 + ATT_SIGNATURE_LEN;
     let vlen = min (length val) (size_sub (length pdu) min_len);
     pdu \<leftarrow> put_8 0 ATT_OP_SIGNED_WRITE_CMD pdu;
     pdu \<leftarrow> put_le16 1 handle pdu;
     pdu \<leftarrow> (if 0 < vlen then put_bytes 3 (take vlen val) pdu else Some pdu);
     case sign (take (3 + vlen) pdu) of
       None \<Rightarrow> Some (0, pdu)
     | Some signature \<Rightarrow> do {
         pdu \<leftarrow> put_bytes (3 + vlen) signature pdu;
         Some (of_nat (min_len + vlen), pdu)
       }
   }"

definition dec_signed_write_cmd :: "u8 list \<Rightarrow> (u16 \<times> u8 list \<times> u8 list) dec_result" where
  "dec_signed_write_cmd pdu =
     (let min_len = 3 + ATT_SIGNATURE_LEN in
      if length pdu < min_len then Some (0, None)
      else do {
        opcode \<leftarrow> rd_8 0 pdu;
        if opcode \<noteq> ATT_OP_SIGNED_WRITE_CMD then Some (0, None)
        else do {
          let vlen = length pdu - min_len;
          handle \<leftarrow> rd_le16 1 pdu;
          val \<leftarrow> rd_bytes 3 vlen pdu;
          signature \<leftarrow> rd_bytes (3 + vlen) ATT_SIGNATURE_LEN pdu;
          Some (of_nat (length pdu), Some (handle, val, signature))
        }
      })"

definition enc_write_req :: "u16 \<Rightarrow> u8 list \<Rightarrow> u8 list \<Rightarrow> enc_result" where
  "enc_write_req = enc_handle_value ATT_OP_WRITE_REQ"

definition dec_write_req :: "u8 list \<Rightarrow> (u16 \<times> u8 list) dec_result" where
  "dec_write_req = dec_handle_value ATT_OP_WRITE_REQ"

definition enc_write_resp :: "u8 list \<Rightarrow> enc_result" where
  "enc_write_resp pdu = do { pdu \<leftarrow> put_8 0 ATT_OP_WRITE_RESP pdu; Some (1, pdu) }"

definition dec_write_resp :: "u8 list \<Rightarrow> unit dec_result" where
  "dec_write_resp pdu = do {
     opcode \<leftarrow> rd_8 0 pdu;
     if opcode \<noteq> ATT_OP_WRITE_RESP then Some (0, None) else Some (of_nat (length pdu), Some ())
   }"

section \<open>Read\<close>

text \<open>An opcode and one 16-bit field, as in four of the PDUs.\<close>

definition enc_one_u16 :: "u8 \<Rightarrow> u16 \<Rightarrow> u8 list \<Rightarrow> enc_result" where
  "enc_one_u16 opcode v pdu = do {
     pdu \<leftarrow> put_8 0 opcode pdu;
     pdu \<leftarrow> put_le16 1 v pdu;
     Some (3, pdu)
   }"

definition dec_one_u16 :: "u8 \<Rightarrow> u8 list \<Rightarrow> u16 dec_result" where
  "dec_one_u16 opcode pdu =
     (if length pdu < 3 then Some (0, None)
      else do {
        opc \<leftarrow> rd_8 0 pdu;
        if opc \<noteq> opcode then Some (0, None)
        else do { v \<leftarrow> rd_le16 1 pdu; Some (3, Some v) }
      })"

text \<open>An opcode and two.\<close>

definition enc_two_u16 :: "u8 \<Rightarrow> u16 \<Rightarrow> u16 \<Rightarrow> u8 list \<Rightarrow> enc_result" where
  "enc_two_u16 opcode v w pdu = do {
     pdu \<leftarrow> put_8 0 opcode pdu;
     pdu \<leftarrow> put_le16 1 v pdu;
     pdu \<leftarrow> put_le16 3 w pdu;
     Some (5, pdu)
   }"

definition dec_two_u16 :: "u8 \<Rightarrow> u8 list \<Rightarrow> (u16 \<times> u16) dec_result" where
  "dec_two_u16 opcode pdu =
     (if length pdu < 5 then Some (0, None)
      else do {
        opc \<leftarrow> rd_8 0 pdu;
        if opc \<noteq> opcode then Some (0, None)
        else do { v \<leftarrow> rd_le16 1 pdu; w \<leftarrow> rd_le16 3 pdu; Some (5, Some (v, w)) }
      })"

definition enc_read_req :: "u16 \<Rightarrow> u8 list \<Rightarrow> enc_result" where
  "enc_read_req = enc_one_u16 ATT_OP_READ_REQ"

definition dec_read_req :: "u8 list \<Rightarrow> u16 dec_result" where
  "dec_read_req = dec_one_u16 ATT_OP_READ_REQ"

definition enc_read_blob_req :: "u16 \<Rightarrow> u16 \<Rightarrow> u8 list \<Rightarrow> enc_result" where
  "enc_read_blob_req = enc_two_u16 ATT_OP_READ_BLOB_REQ"

definition dec_read_blob_req :: "u8 list \<Rightarrow> (u16 \<times> u16) dec_result" where
  "dec_read_blob_req = dec_two_u16 ATT_OP_READ_BLOB_REQ"

definition enc_read_resp :: "u8 list \<Rightarrow> u8 list \<Rightarrow> enc_result" where
  "enc_read_resp val pdu = do {
     let vlen = min (length val) (size_sub (length pdu) 1);
     pdu \<leftarrow> put_8 0 ATT_OP_READ_RESP pdu;
     pdu \<leftarrow> put_bytes 1 (take vlen val) pdu;
     Some (of_nat (vlen + 1), pdu)
   }"

definition enc_read_blob_resp :: "u8 list \<Rightarrow> u16 \<Rightarrow> u8 list \<Rightarrow> enc_result" where
  "enc_read_blob_resp val offset pdu = do {
     let vlen = min (size_sub (length val) (unat offset)) (size_sub (length pdu) 1);
     pdu \<leftarrow> put_8 0 ATT_OP_READ_BLOB_RESP pdu;
     bs \<leftarrow> rd_bytes (unat offset) vlen val;
     pdu \<leftarrow> put_bytes 1 bs pdu;
     Some (of_nat (vlen + 1), pdu)
   }"

definition ENOBUFS :: int where "ENOBUFS = 105"

text \<open>\<open>vlen\<close> is \<open>None\<close> when the result pointer is null.\<close>

definition dec_read_resp :: "u8 list \<Rightarrow> nat option \<Rightarrow> (int \<times> u8 list option) option" where
  "dec_read_resp pdu vlen = do {
     opcode \<leftarrow> rd_8 0 pdu;
     if opcode \<noteq> ATT_OP_READ_RESP then Some (- EINVAL, None)
     else (case vlen of
         None \<Rightarrow> Some (int (length pdu) - 1, None)
       | Some vlen \<Rightarrow>
           if vlen < length pdu - 1 then Some (- ENOBUFS, None)
           else do {
             val \<leftarrow> rd_bytes 1 (length pdu - 1) pdu;
             Some (int (length pdu) - 1, Some val)
           })
   }"

section \<open>Errors, find information\<close>

definition enc_error_resp :: "u8 \<Rightarrow> u16 \<Rightarrow> u8 \<Rightarrow> u8 list \<Rightarrow> enc_result" where
  "enc_error_resp opcode handle status pdu = do {
     pdu \<leftarrow> put_8 0 ATT_OP_ERROR pdu;
     pdu \<leftarrow> put_8 1 opcode pdu;
     pdu \<leftarrow> put_le16 2 handle pdu;
     pdu \<leftarrow> put_8 4 status pdu;
     Some (5, pdu)
   }"

definition enc_find_info_req :: "u16 \<Rightarrow> u16 \<Rightarrow> u8 list \<Rightarrow> enc_result" where
  "enc_find_info_req = enc_two_u16 ATT_OP_FIND_INFO_REQ"

definition dec_find_info_req :: "u8 list \<Rightarrow> (u16 \<times> u16) dec_result" where
  "dec_find_info_req = dec_two_u16 ATT_OP_FIND_INFO_REQ"

definition enc_find_info_resp :: "u8 \<Rightarrow> att_data_list option \<Rightarrow> u8 list \<Rightarrow> enc_result" where
  "enc_find_info_resp format list pdu = (case list of
       None \<Rightarrow> Some (0, pdu)
     | Some list \<Rightarrow>
         if length pdu < unat (dl_len list) + 2 then Some (0, pdu)
         else do {
           pdu \<leftarrow> put_8 0 ATT_OP_FIND_INFO_RESP pdu;
           pdu \<leftarrow> put_8 1 format pdu;
           (w, pdu) \<leftarrow> put_entries id (unat (dl_len list)) 2 2 (dl_data list) pdu;
           Some (of_nat w, pdu)
         })"

text \<open>The result is the format and the list. The list's length is not checked against the PDU.\<close>

definition dec_find_info_resp :: "u8 list \<Rightarrow> (u8 \<times> att_data_list option) option option" where
  "dec_find_info_resp pdu = do {
     opcode \<leftarrow> rd_8 0 pdu;
     if opcode \<noteq> ATT_OP_FIND_INFO_RESP then Some None
     else do {
       format \<leftarrow> rd_8 1 pdu;
       let elen = (if format = 0x01 then 2 + 2 else if format = 0x02 then 2 + 16 else 2);
       list \<leftarrow> get_data_list ((length pdu - 2) div elen) elen pdu;
       Some (Some (format, list))
     }
   }"

section \<open>Notifications, indications, MTU\<close>

definition enc_report :: "u8 \<Rightarrow> u16 \<Rightarrow> u8 list \<Rightarrow> u8 list \<Rightarrow> enc_result" where
  "enc_report opcode handle val pdu =
     (if length pdu < length val + 3 then Some (0, pdu)
      else do {
        pdu \<leftarrow> put_8 0 opcode pdu;
        pdu \<leftarrow> put_le16 1 handle pdu;
        pdu \<leftarrow> put_bytes 3 val pdu;
        Some (of_nat (length val + 3), pdu)
      })"

definition enc_notification :: "u16 \<Rightarrow> u8 list \<Rightarrow> u8 list \<Rightarrow> enc_result" where
  "enc_notification = enc_report ATT_OP_HANDLE_NOTIFY"

definition enc_indication :: "u16 \<Rightarrow> u8 list \<Rightarrow> u8 list \<Rightarrow> enc_result" where
  "enc_indication = enc_report ATT_OP_HANDLE_IND"

text \<open>The decoder stores at most \<open>vlen\<close> bytes; its return code is the number of them.\<close>

definition dec_indication :: "u8 list \<Rightarrow> nat \<Rightarrow> (u16 \<times> u8 list) dec_result" where
  "dec_indication pdu vlen = do {
     opcode \<leftarrow> rd_8 0 pdu;
     if opcode \<noteq> ATT_OP_HANDLE_IND then Some (0, None)
     else if length pdu < 3 then Some (0, None)
     else do {
       let dlen = (of_nat (min (length pdu - 3) vlen) :: u16);
       handle \<leftarrow> rd_le16 1 pdu;
       val \<leftarrow> rd_bytes 3 (unat dlen) pdu;
       Some (dlen, Some (handle, val))
     }
   }"

definition enc_confirmation :: "u8 list \<Rightarrow> enc_result" where
  "enc_confirmation pdu = do { pdu \<leftarrow> put_8 0 ATT_OP_HANDLE_CNF pdu; Some (1, pdu) }"

definition enc_mtu_req :: "u16 \<Rightarrow> u8 list \<Rightarrow> enc_result" where
  "enc_mtu_req = enc_one_u16 ATT_OP_MTU_REQ"

definition dec_mtu_req :: "u8 list \<Rightarrow> u16 dec_result" where
  "dec_mtu_req = dec_one_u16 ATT_OP_MTU_REQ"

definition enc_mtu_resp :: "u16 \<Rightarrow> u8 list \<Rightarrow> enc_result" where
  "enc_mtu_resp = enc_one_u16 ATT_OP_MTU_RESP"

definition dec_mtu_resp :: "u8 list \<Rightarrow> u16 dec_result" where
  "dec_mtu_resp = dec_one_u16 ATT_OP_MTU_RESP"

section \<open>Prepare and execute write\<close>

definition enc_prep_write :: "u8 \<Rightarrow> u16 \<Rightarrow> u16 \<Rightarrow> u8 list \<Rightarrow> u8 list \<Rightarrow> enc_result" where
  "enc_prep_write opcode handle offset val pdu = do {
     let vlen = min (length val) (size_sub (length pdu) 5);
     pdu \<leftarrow> put_8 0 opcode pdu;
     pdu \<leftarrow> put_le16 1 handle pdu;
     pdu \<leftarrow> put_le16 3 offset pdu;
     if 0 < vlen then do {
       pdu \<leftarrow> put_bytes 5 (take vlen val) pdu;
       Some (of_nat (5 + vlen), pdu)
     } else Some (5, pdu)
   }"

definition dec_prep_write :: "u8 list \<Rightarrow> (u16 \<times> u16 \<times> u8 list) dec_result" where
  "dec_prep_write pdu =
     (if length pdu < 5 then Some (0, None)
      else do {
        opcode \<leftarrow> rd_8 0 pdu;
        if opcode \<noteq> ATT_OP_PREP_WRITE_REQ then Some (0, None)
        else do {
          handle \<leftarrow> rd_le16 1 pdu;
          offset \<leftarrow> rd_le16 3 pdu;
          val \<leftarrow> rd_bytes 5 (length pdu - 5) pdu;
          Some (of_nat (length pdu), Some (handle, offset, val))
        }
      })"

definition enc_prep_write_req :: "u16 \<Rightarrow> u16 \<Rightarrow> u8 list \<Rightarrow> u8 list \<Rightarrow> enc_result" where
  "enc_prep_write_req = enc_prep_write ATT_OP_PREP_WRITE_REQ"

definition dec_prep_write_req :: "u8 list \<Rightarrow> (u16 \<times> u16 \<times> u8 list) dec_result" where
  "dec_prep_write_req = dec_prep_write"

definition enc_prep_write_resp :: "u16 \<Rightarrow> u16 \<Rightarrow> u8 list \<Rightarrow> u8 list \<Rightarrow> enc_result" where
  "enc_prep_write_resp = enc_prep_write ATT_OP_PREP_WRITE_RESP"

text \<open>The decoder of the response tests for the opcode of the request, as that of the request does.\<close>

definition dec_prep_write_resp :: "u8 list \<Rightarrow> (u16 \<times> u16 \<times> u8 list) dec_result" where
  "dec_prep_write_resp = dec_prep_write"

definition enc_exec_write_req :: "u8 \<Rightarrow> u8 list \<Rightarrow> enc_result" where
  "enc_exec_write_req flags pdu =
     (if 1 < flags then Some (0, pdu)
      else do {
        pdu \<leftarrow> put_8 0 ATT_OP_EXEC_WRITE_REQ pdu;
        pdu \<leftarrow> put_8 1 flags pdu;
        Some (2, pdu)
      })"

definition dec_exec_write_req :: "u8 list \<Rightarrow> u8 dec_result" where
  "dec_exec_write_req pdu =
     (if length pdu < 2 then Some (0, None)
      else do {
        opcode \<leftarrow> rd_8 0 pdu;
        if opcode \<noteq> ATT_OP_EXEC_WRITE_REQ then Some (0, None)
        else do { flags \<leftarrow> rd_8 1 pdu; Some (2, Some flags) }
      })"

definition enc_exec_write_resp :: "u8 list \<Rightarrow> enc_result" where
  "enc_exec_write_resp pdu = do { pdu \<leftarrow> put_8 0 ATT_OP_EXEC_WRITE_RESP pdu; Some (1, pdu) }"

definition dec_exec_write_resp :: "u8 list \<Rightarrow> unit dec_result" where
  "dec_exec_write_resp pdu =
     (if length pdu < 1 then Some (0, None)
      else do {
        opcode \<leftarrow> rd_8 0 pdu;
        if opcode \<noteq> ATT_OP_EXEC_WRITE_RESP then Some (0, None) else Some (of_nat (length pdu), Some ())
      })"

section \<open>Lemmas\<close>

text \<open>A buffer whose first bytes have been written.\<close>

definition filled :: "u8 list \<Rightarrow> u8 list \<Rightarrow> u8 list" where
  "filled pre buf = pre @ drop (length pre) buf"

lemma length_filled [simp]: "length pre \<le> length buf \<Longrightarrow> length (filled pre buf) = length buf"
  by (simp add: filled_def)

lemma take_filled [simp]: "n = length pre \<Longrightarrow> take n (filled pre buf) = pre"
  by (simp add: filled_def)

lemma put_bytes_filled [simp]:
  "n = length pre \<Longrightarrow> length pre \<le> length buf \<Longrightarrow> put_bytes n bs (filled pre buf) =
    (if n + length bs \<le> length buf then Some (filled (pre @ bs) buf) else None)"
  by (auto simp: put_bytes_def filled_def add.commute)

lemma put_8_filled [simp]:
  "n = length pre \<Longrightarrow> length pre \<le> length buf \<Longrightarrow> put_8 n b (filled pre buf) =
    (if n + 1 \<le> length buf then Some (filled (pre @ [b]) buf) else None)"
  by (simp add: put_8_def)

lemma put_le16_filled [simp]:
  "n = length pre \<Longrightarrow> length pre \<le> length buf \<Longrightarrow> put_le16 n v (filled pre buf) =
    (if n + 2 \<le> length buf then Some (filled (pre @ le16 v) buf) else None)"
  by (simp add: put_le16_def)

lemma put_8_first: "put_8 0 b buf = (if 1 \<le> length buf then Some (filled [b] buf) else None)"
  by (simp add: put_8_def put_bytes_def filled_def)

lemma rd_8_0 [simp]: "rd_8 0 (b # bs) = Some b"
  by (simp add: rd_8_def)

lemma rd_8_1 [simp]: "rd_8 (Suc 0) (a # b # bs) = Some b"
  by (simp add: rd_8_def)

lemma le16_bytes: "le16 v = [ucast v, ucast (drop_bit 8 v)]"
  by (simp add: le16_def be16_def)

lemma get_le16_append: "i = length xs \<Longrightarrow> get_le16 (xs @ le16 v @ ys) i = v"
  using get_le16_le16 [of v ys] by (simp add: get_le16_def le16_bytes nth_append)

lemma rd_le16_append: "i = length xs \<Longrightarrow> rd_le16 i (xs @ le16 v @ ys) = Some v"
  by (simp add: rd_le16_def get_le16_append)

lemma rd_le16_1 [simp]: "rd_le16 (Suc 0) (a # le16 v @ ys) = Some v"
  using rd_le16_append [of "Suc 0" "[a]" v ys] by simp

lemma rd_le16_1' [simp]: "rd_le16 (Suc 0) (a # le16 v) = Some v"
  using rd_le16_append [of "Suc 0" "[a]" v "[]"] by simp

lemma rd_le16_3 [simp]: "rd_le16 3 (a # le16 v @ le16 w @ ys) = Some w" "rd_le16 3 (a # le16 v @ le16 w) = Some w"
  using rd_le16_append [of 3 "a # le16 v" w ys] rd_le16_append [of 3 "a # le16 v" w "[]"] by simp_all

lemma rd_le16_5 [simp]: "rd_le16 5 (a # le16 v @ le16 w @ le16 u @ ys) = Some u" "rd_le16 5 (a # le16 v @ le16 w @ le16 u) = Some u"
  using rd_le16_append [of 5 "a # le16 v @ le16 w" u ys] rd_le16_append [of 5 "a # le16 v @ le16 w" u "[]"] by simp_all

lemma rd_bytes_append: "i = length xs \<Longrightarrow> n = length bs \<Longrightarrow> rd_bytes i n (xs @ bs @ ys) = Some bs"
  by (simp add: rd_bytes_def)

lemma rd_bytes_3 [simp]: "n = length bs \<Longrightarrow> rd_bytes 3 n (a # le16 v @ bs) = Some bs"
  using rd_bytes_append [of 3 "a # le16 v" n bs "[]"] by simp

lemma rd_bytes_5 [simp]: "n = length bs \<Longrightarrow> rd_bytes 5 n (a # le16 v @ le16 w @ bs) = Some bs"
  using rd_bytes_append [of 5 "a # le16 v @ le16 w" n bs "[]"] by simp

lemma rd_bytes_7 [simp]: "n = length bs \<Longrightarrow> rd_bytes 7 n (a # le16 v @ le16 w @ le16 u @ bs) = Some bs"
  using rd_bytes_append [of 7 "a # le16 v @ le16 w @ le16 u" n bs "[]"] by simp

lemma size_sub_le [simp]: "k \<le> n \<Longrightarrow> size_sub n k = n - k"
  by (simp add: size_sub_def)

lemma take_min [simp]: "take (min (length xs) n) xs = take n xs"
  by (simp add: min_def)

text \<open>What each encoder writes: its header, and as much of the value as fits.\<close>

lemma enc_one_u16_eq:
  "enc_one_u16 opcode v buf = (if 3 \<le> length buf then Some (3, filled (opcode # le16 v) buf) else None)"
  by (simp add: enc_one_u16_def put_8_first)

lemma enc_two_u16_eq:
  "enc_two_u16 opcode v w buf = (if 5 \<le> length buf then Some (5, filled (opcode # le16 v @ le16 w) buf) else None)"
  by (simp add: enc_two_u16_def put_8_first)

lemma enc_handle_value_eq:
  assumes "3 \<le> length buf"
  shows "enc_handle_value opcode h val buf =
    Some (of_nat (3 + min (length val) (length buf - 3)), filled (opcode # le16 h @ take (length buf - 3) val) buf)"
  using assms by (cases "val = [] \<or> length buf = 3") (auto simp: enc_handle_value_def put_8_first Let_def)

lemma enc_prep_write_eq:
  assumes "5 \<le> length buf"
  shows "enc_prep_write opcode h off val buf =
    Some (of_nat (5 + min (length val) (length buf - 5)), filled (opcode # le16 h @ le16 off @ take (length buf - 5) val) buf)"
  using assms by (cases "val = [] \<or> length buf = 5") (auto simp: enc_prep_write_def put_8_first Let_def)

lemma enc_find_by_type_req_eq:
  assumes "7 \<le> length buf"
  shows "enc_find_by_type_req start stop (Some (BT_UUID16 v)) val buf =
    Some (of_nat (7 + min (length val) (length buf - 7)),
      filled (ATT_OP_FIND_BY_TYPE_REQ # le16 start @ le16 stop @ le16 v @ take (length buf - 7) val) buf)"
  using assms by (cases "val = [] \<or> length buf = 7") (auto simp: enc_find_by_type_req_def put_8_first Let_def)

lemma enc_read_resp_eq:
  assumes "1 \<le> length buf"
  shows "enc_read_resp val buf =
    Some (of_nat (min (length val) (length buf - 1) + 1), filled (ATT_OP_READ_RESP # take (length buf - 1) val) buf)"
  using assms by (auto simp: enc_read_resp_def put_8_first Let_def)

lemma enc_report_eq:
  assumes "length val + 3 \<le> length buf"
  shows "enc_report opcode h val buf = Some (of_nat (length val + 3), filled (opcode # le16 h @ val) buf)"
  using assms by (simp add: enc_report_def put_8_first)

lemma enc_range_uuid_eq:
  "7 \<le> length buf \<Longrightarrow> enc_range_uuid opcode start stop (Some (BT_UUID16 v)) buf =
     Some (7, filled (opcode # le16 start @ le16 stop @ le16 v) buf)"
  "21 \<le> length buf \<Longrightarrow> length bs = 16 \<Longrightarrow> enc_range_uuid opcode start stop (Some (BT_UUID128 bs)) buf =
     Some (21, filled (opcode # le16 start @ le16 stop @ rev bs) buf)"
  by (simp_all add: enc_range_uuid_def put_8_first)

text \<open>The bytes that are sent after an encoding.\<close>

definition sent :: "enc_result \<Rightarrow> u8 list" where
  "sent r = (case r of None \<Rightarrow> [] | Some (n, pdu) \<Rightarrow> take (unat n) pdu)"

lemma sent_filled [simp]:
  "unat n = length pdu \<Longrightarrow> sent (Some (n, filled pdu buf)) = pdu"
  by (simp add: sent_def)

lemma unat_small: "n < 65536 \<Longrightarrow> unat (of_nat n :: u16) = n"
  by (simp add: unat_of_nat)

section \<open>A PDU as an interface\<close>

text \<open>
  What a client of an encoder and its decoder relies on: what fits the buffer is sent, and the decoder
  accepts the bytes sent and answers what was encoded.
\<close>

locale pdu_codec =
  fixes enc :: "'a \<Rightarrow> u8 list \<Rightarrow> enc_result" and dec :: "u8 list \<Rightarrow> 'a dec_result"
    and fits :: "'a \<Rightarrow> nat \<Rightarrow> bool"
  assumes enc_dec: "fits x (length buf) \<Longrightarrow> \<exists>n pdu. enc x buf = Some (n, filled pdu buf) \<and> unat n = length pdu
      \<and> length pdu \<le> length buf \<and> dec pdu = Some (n, Some x)"
begin

lemma roundtrip:
  assumes "fits x (length buf)"
  shows "dec (sent (enc x buf)) = Some (of_nat (length (sent (enc x buf))), Some x)"
proof -
  obtain n pdu where e: "enc x buf = Some (n, filled pdu buf)" "unat n = length pdu" "dec pdu = Some (n, Some x)"
    using enc_dec [OF assms] by blast
  have "n = of_nat (length pdu)" unfolding e(2) [symmetric] by simp
  with e show ?thesis by simp
qed

lemma sent_inj:
  assumes "fits x (length buf)" "fits y (length buf')" and "sent (enc x buf) = sent (enc y buf')"
  shows "x = y"
  using roundtrip [OF assms(1)] roundtrip [OF assms(2)] assms(3) by simp

lemma length_kept:
  assumes "fits x (length buf)"
  shows "\<exists>n buf'. enc x buf = Some (n, buf') \<and> length buf' = length buf \<and> unat n \<le> length buf"
  using enc_dec [OF assms] by (metis length_filled)

end

fun uuid_fits :: "bt_uuid \<Rightarrow> nat \<Rightarrow> bool" where
  "uuid_fits (BT_UUID16 v) n = (7 \<le> n)"
| "uuid_fits (BT_UUID128 bs) n = (length bs = 16 \<and> 21 \<le> n)"
| "uuid_fits _ n = False"

definition value_fits :: "nat \<Rightarrow> u8 list \<Rightarrow> nat \<Rightarrow> bool" where
  "value_fits header val n \<longleftrightarrow> header + length val \<le> n \<and> n < 65536"

lemma dec_one_u16_eq: "dec_one_u16 opcode (opcode # le16 v) = Some (3, Some v)"
  by (simp add: dec_one_u16_def)

lemma dec_two_u16_eq: "dec_two_u16 opcode (opcode # le16 v @ le16 w) = Some (5, Some (v, w))"
  by (simp add: dec_two_u16_def)

lemma dec_handle_value_eq:
  "dec_handle_value opcode (opcode # le16 h @ val) = Some (of_nat (3 + length val), Some (h, val))"
  by (simp add: dec_handle_value_def)

lemma dec_prep_write_eq:
  "dec_prep_write (ATT_OP_PREP_WRITE_REQ # le16 h @ le16 off @ val) = Some (of_nat (5 + length val), Some (h, off, val))"
  by (simp add: dec_prep_write_def)

lemma dec_find_by_type_req_eq:
  "dec_find_by_type_req (ATT_OP_FIND_BY_TYPE_REQ # le16 start @ le16 stop @ le16 v @ val) =
     Some (of_nat (7 + length val), Some (start, stop, BT_UUID16 v, val))"
  by (simp add: dec_find_by_type_req_def bt_uuid16_create_def)

lemma dec_range_uuid_eq:
  "dec_range_uuid True (opcode # le16 start @ le16 stop @ le16 v) = Some (7, Some (start, stop, BT_UUID16 v))"
  "length bs = 16 \<Longrightarrow> dec_range_uuid False (opcode # le16 start @ le16 stop @ rev bs) = Some (21, Some (start, stop, BT_UUID128 bs))"
  by (simp_all add: dec_range_uuid_def get_uuid_def bt_uuid16_create_def bt_uuid128_create_def)

lemma codec_law:
  assumes "enc = Some (n, filled pdu buf)" "unat (n :: u16) = length pdu" "length pdu \<le> length buf" "dec pdu = Some (n, Some x)"
  shows "\<exists>n pdu. enc = Some (n, filled pdu buf) \<and> unat n = length pdu \<and> length pdu \<le> length buf \<and> dec pdu = Some (n, Some x)"
  using assms by blast

lemma unat_value_length: "value_fits k val n \<Longrightarrow> unat (of_nat (k + length val) :: u16) = k + length val"
  by (simp add: value_fits_def unat_of_nat del: of_nat_add)

lemma value_fits_min:
  assumes "value_fits k val n"
  shows "k \<le> n" "min (length val) (n - k) = length val" "take (n - k) val = val" "k + length val \<le> n"
  using assms by (auto simp: value_fits_def)

lemma one_u16_law:
  "3 \<le> length buf \<Longrightarrow> \<exists>n pdu. enc_one_u16 opcode v buf = Some (n, filled pdu buf) \<and> unat n = length pdu
    \<and> length pdu \<le> length buf \<and> dec_one_u16 opcode pdu = Some (n, Some v)"
  by (rule codec_law [of _ 3 "opcode # le16 v"]) (simp_all add: enc_one_u16_eq dec_one_u16_eq)

lemma two_u16_law:
  "5 \<le> length buf \<Longrightarrow> \<exists>n pdu. enc_two_u16 opcode v w buf = Some (n, filled pdu buf) \<and> unat n = length pdu
    \<and> length pdu \<le> length buf \<and> dec_two_u16 opcode pdu = Some (n, Some (v, w))"
  by (rule codec_law [of _ 5 "opcode # le16 v @ le16 w"]) (simp_all add: enc_two_u16_eq dec_two_u16_eq)

lemma handle_value_law:
  assumes "value_fits 3 val (length buf)"
  shows "\<exists>n pdu. enc_handle_value opcode h val buf = Some (n, filled pdu buf) \<and> unat n = length pdu
    \<and> length pdu \<le> length buf \<and> dec_handle_value opcode pdu = Some (n, Some (h, val))"
  by (rule codec_law [of _ "of_nat (3 + length val)" "opcode # le16 h @ val"])
    (use unat_value_length [OF assms] value_fits_min [OF assms] in \<open>simp_all add: enc_handle_value_eq dec_handle_value_eq\<close>)

lemma range_uuid_law:
  assumes "uuid_fits u (length buf)"
  shows "\<exists>n pdu. enc_range_uuid opcode start stop (Some u) buf = Some (n, filled pdu buf) \<and> unat n = length pdu
    \<and> length pdu \<le> length buf \<and> (length pdu = 7 \<or> length pdu = 21) \<and> rd_8 0 pdu = Some opcode
    \<and> dec_range_uuid (length pdu = 7) pdu = Some (n, Some (start, stop, u))"
proof (cases u)
  case (BT_UUID16 v)
  with assms show ?thesis
    by (intro exI [of _ 7] exI [of _ "opcode # le16 start @ le16 stop @ le16 v"])
      (simp add: enc_range_uuid_eq dec_range_uuid_eq)
next
  case (BT_UUID128 bs)
  with assms show ?thesis
    by (intro exI [of _ 21] exI [of _ "opcode # le16 start @ le16 stop @ rev bs"])
      (simp add: enc_range_uuid_eq dec_range_uuid_eq)
qed (use assms in simp_all)

interpretation mtu_req: pdu_codec enc_mtu_req dec_mtu_req "\<lambda>_ n. 3 \<le> n"
  by unfold_locales (simp only: enc_mtu_req_def dec_mtu_req_def one_u16_law)

interpretation mtu_resp: pdu_codec enc_mtu_resp dec_mtu_resp "\<lambda>_ n. 3 \<le> n"
  by unfold_locales (simp only: enc_mtu_resp_def dec_mtu_resp_def one_u16_law)

interpretation read_req: pdu_codec enc_read_req dec_read_req "\<lambda>_ n. 3 \<le> n"
  by unfold_locales (simp only: enc_read_req_def dec_read_req_def one_u16_law)

interpretation read_blob_req: pdu_codec "\<lambda>(h, off). enc_read_blob_req h off" dec_read_blob_req "\<lambda>_ n. 5 \<le> n"
  by unfold_locales (simp only: split_paired_all prod.case enc_read_blob_req_def dec_read_blob_req_def two_u16_law)

interpretation find_info_req: pdu_codec "\<lambda>(start, stop). enc_find_info_req start stop" dec_find_info_req "\<lambda>_ n. 5 \<le> n"
  by unfold_locales (simp only: split_paired_all prod.case enc_find_info_req_def dec_find_info_req_def two_u16_law)

interpretation write_cmd: pdu_codec "\<lambda>(h, val). enc_write_cmd h val" dec_write_cmd "\<lambda>(h, val). value_fits 3 val"
  by unfold_locales (simp only: split_paired_all prod.case enc_write_cmd_def dec_write_cmd_def handle_value_law)

interpretation write_req: pdu_codec "\<lambda>(h, val). enc_write_req h val" dec_write_req "\<lambda>(h, val). value_fits 3 val"
  by unfold_locales (simp only: split_paired_all prod.case enc_write_req_def dec_write_req_def handle_value_law)

lemma prep_write_law:
  assumes "value_fits 5 val (length buf)"
  shows "\<exists>n pdu. enc_prep_write_req h off val buf = Some (n, filled pdu buf) \<and> unat n = length pdu
    \<and> length pdu \<le> length buf \<and> dec_prep_write_req pdu = Some (n, Some (h, off, val))"
  by (rule codec_law [of _ "of_nat (5 + length val)" "ATT_OP_PREP_WRITE_REQ # le16 h @ le16 off @ val"])
    (use unat_value_length [OF assms] value_fits_min [OF assms] in
      \<open>simp_all add: enc_prep_write_req_def dec_prep_write_req_def enc_prep_write_eq dec_prep_write_eq\<close>)

interpretation prep_write_req: pdu_codec "\<lambda>(h, off, val). enc_prep_write_req h off val" dec_prep_write_req "\<lambda>(h, off, val). value_fits 5 val"
  by unfold_locales (simp only: split_paired_all prod.case prep_write_law)

lemma find_by_type_law:
  assumes "value_fits 7 val (length buf)"
  shows "\<exists>n pdu. enc_find_by_type_req start stop (Some (BT_UUID16 v)) val buf = Some (n, filled pdu buf) \<and> unat n = length pdu
    \<and> length pdu \<le> length buf \<and> dec_find_by_type_req pdu = Some (n, Some (start, stop, BT_UUID16 v, val))"
  by (rule codec_law [of _ "of_nat (7 + length val)" "ATT_OP_FIND_BY_TYPE_REQ # le16 start @ le16 stop @ le16 v @ val"])
    (use unat_value_length [OF assms] value_fits_min [OF assms] in
      \<open>simp_all add: enc_find_by_type_req_eq dec_find_by_type_req_eq\<close>)

lemma read_by_grp_law:
  assumes "uuid_fits u (length buf)"
  shows "\<exists>n pdu. enc_read_by_grp_req start stop (Some u) buf = Some (n, filled pdu buf) \<and> unat n = length pdu
    \<and> length pdu \<le> length buf \<and> dec_read_by_grp_req pdu = Some (n, Some (start, stop, u))"
proof -
  obtain n pdu where "enc_range_uuid ATT_OP_READ_BY_GROUP_REQ start stop (Some u) buf = Some (n, filled pdu buf)"
      "unat n = length pdu" "length pdu \<le> length buf" "length pdu = 7 \<or> length pdu = 21"
      "rd_8 0 pdu = Some ATT_OP_READ_BY_GROUP_REQ" "dec_range_uuid (length pdu = 7) pdu = Some (n, Some (start, stop, u))"
    using range_uuid_law [OF assms, of ATT_OP_READ_BY_GROUP_REQ start stop] by blast
  then show ?thesis
    by (intro exI [of _ n] exI [of _ pdu]) (auto simp: enc_read_by_grp_req_def dec_read_by_grp_req_def)
qed

lemma read_by_type_law:
  assumes "uuid_fits u (length buf)"
  shows "\<exists>n pdu. enc_read_by_type_req start stop (Some u) buf = Some (n, filled pdu buf) \<and> unat n = length pdu
    \<and> length pdu \<le> length buf \<and> dec_read_by_type_req pdu = Some (n, Some (start, stop, u))"
proof -
  obtain n pdu where "enc_range_uuid ATT_OP_READ_BY_TYPE_REQ start stop (Some u) buf = Some (n, filled pdu buf)"
      "unat n = length pdu" "length pdu \<le> length buf" "length pdu = 7 \<or> length pdu = 21"
      "rd_8 0 pdu = Some ATT_OP_READ_BY_TYPE_REQ" "dec_range_uuid (length pdu = 7) pdu = Some (n, Some (start, stop, u))"
    using range_uuid_law [OF assms, of ATT_OP_READ_BY_TYPE_REQ start stop] by blast
  then show ?thesis
    by (intro exI [of _ n] exI [of _ pdu]) (auto simp: enc_read_by_type_req_def dec_read_by_type_req_def)
qed

interpretation read_by_grp_req: pdu_codec "\<lambda>(start, stop, u). enc_read_by_grp_req start stop (Some u)" dec_read_by_grp_req
    "\<lambda>(start, stop, u). uuid_fits u"
  by unfold_locales (simp only: split_paired_all prod.case read_by_grp_law)

interpretation read_by_type_req: pdu_codec "\<lambda>(start, stop, u). enc_read_by_type_req start stop (Some u)" dec_read_by_type_req
    "\<lambda>(start, stop, u). uuid_fits u"
  by unfold_locales (simp only: split_paired_all prod.case read_by_type_law)

lemma exec_write_law:
  "flags \<le> 1 \<and> 2 \<le> length buf \<Longrightarrow> \<exists>n pdu. enc_exec_write_req flags buf = Some (n, filled pdu buf) \<and> unat n = length pdu
    \<and> length pdu \<le> length buf \<and> dec_exec_write_req pdu = Some (n, Some flags)"
  by (rule codec_law [of _ 2 "[ATT_OP_EXEC_WRITE_REQ, flags]"])
    (auto simp: enc_exec_write_req_def dec_exec_write_req_def put_8_first)

interpretation exec_write_req: pdu_codec enc_exec_write_req dec_exec_write_req "\<lambda>flags n. flags \<le> 1 \<and> 2 \<le> n"
  by unfold_locales (simp only: exec_write_law)

section \<open>Lists\<close>

lemma put_entries_eq:
  assumes "\<forall>d \<in> set ds. length d = l" "0 < l" "\<forall>n \<le> length buf. conv n = n" "length pre \<le> length buf"
  shows "put_entries conv l (length pre) (length pre) ds (filled pre buf) =
    Some (length pre + l * min (length ds) ((length buf - length pre) div l),
      filled (pre @ concat (take ((length buf - length pre) div l) ds)) buf)"
  using assms
proof (induction ds arbitrary: pre)
  case Nil
  then show ?case by simp
next
  case (Cons d ds)
  show ?case
  proof (cases "length pre + l \<le> length buf")
    case True
    then have "(length buf - length pre) div l = Suc ((length buf - (length pre + l)) div l)"
      using Cons.prems(2) by (subst le_div_geq) auto
    with True Cons show ?thesis using Cons.IH [of "pre @ d"] by (simp add: rd_bytes_def)
  next
    case False
    then have "length buf - length pre < l" using Cons.prems(2) by linarith
    then have "(length buf - length pre) div l = 0" by (rule div_less)
    with False Cons.prems show ?thesis by simp
  qed
qed

lemma get_entries_concat:
  assumes "\<forall>d \<in> set ds. length d = l"
  shows "get_entries (length pre) l (length ds) (pre @ concat ds) = Some ds"
  using assms
proof (induction ds arbitrary: pre)
  case (Cons d ds)
  then show ?case using Cons.IH [of "pre @ d"] by (simp add: rd_bytes_append)
qed simp

lemma length_concat_entries: "\<forall>d \<in> set ds. length d = l \<Longrightarrow> length (concat ds) = l * length ds"
  by (induction ds) auto

lemma get_data_list_concat:
  assumes "\<forall>d \<in> set ds. length d = l" "l \<le> 255" "length ds < 65536" "length pre = 2"
  shows "get_data_list (length ds) l (pre @ concat ds) = Some (Some \<lparr>dl_len = of_nat l, dl_data = ds\<rparr>)"
proof -
  have "unat (of_nat l :: u16) = l" "unat (of_nat (length ds) :: u16) = length ds"
    using assms by (simp_all add: unat_small)
  then show ?thesis
    using assms(2) get_entries_concat [OF assms(1), of pre] assms(4)
    by (simp add: get_data_list_def att_data_list_alloc_def word_less_nat_alt)
qed

definition range_bytes :: "att_range \<Rightarrow> u8 list" where
  "range_bytes r = le16 (range_start r) @ le16 (range_end r)"

lemma length_range_bytes [simp]: "length (range_bytes r) = 4"
  by (simp add: range_bytes_def)

lemma put_ranges_eq:
  assumes "length pre \<le> length buf" "length buf < 65536"
  shows "put_ranges (of_nat (length pre)) rs (filled pre buf) =
    Some (of_nat (length pre + 4 * min (length rs) ((length buf - length pre) div 4)),
      filled (pre @ concat (map range_bytes (take ((length buf - length pre) div 4) rs))) buf)"
  using assms
proof (induction rs arbitrary: pre)
  case (Cons r rs)
  have rb: "range_bytes r = le16 (range_start r) @ le16 (range_end r)" by (rule range_bytes_def)
  have u: "unat (of_nat (length pre) :: u16) = length pre" using Cons.prems by (intro unat_small) simp
  show ?case
  proof (cases "length pre + 4 \<le> length buf")
    case True
    then have "(length buf - length pre) div 4 = Suc ((length buf - (length pre + 4)) div 4)"
      by (subst le_div_geq) auto
    with True u Cons.prems show ?thesis using Cons.IH [of "pre @ range_bytes r"] by (simp add: rb add.commute)
  next
    case False
    then have "(length buf - length pre) div 4 = 0" by simp
    with False u Cons.prems(1) show ?thesis by simp
  qed
qed simp

lemma get_ranges_concat:
  "get_ranges (length pre) (pre @ concat (map range_bytes rs)) = Some rs"
proof (induction rs arbitrary: pre)
  case Nil
  then show ?case by (subst get_ranges.simps) simp
next
  case (Cons r rs)
  have rb: "range_bytes r = le16 (range_start r) @ le16 (range_end r)" by (rule range_bytes_def)
  show ?case
    using Cons.IH [of "pre @ range_bytes r"]
      rd_le16_append [of "length pre" pre "range_start r" "le16 (range_end r) @ concat (map range_bytes rs)"]
      rd_le16_append [of "length pre + 2" "pre @ le16 (range_start r)" "range_end r" "concat (map range_bytes rs)"]
    by (subst get_ranges.simps) (simp add: rb add.commute)
qed

text \<open>The decoders of lists read no further than the PDU.\<close>

lemma get_entries_in_bounds: "ptr + l * n \<le> length pdu \<Longrightarrow> get_entries ptr l n pdu \<noteq> None"
proof (induction n arbitrary: ptr)
  case (Suc n)
  then have "get_entries (ptr + l) l n pdu \<noteq> None" by simp
  with Suc.prems show ?case by (auto simp: rd_bytes_def)
qed simp

lemma get_data_list_in_bounds:
  assumes "2 \<le> length pdu" "l \<le> 255"
  shows "get_data_list ((length pdu - 2) div l) l pdu \<noteq> None"
proof -
  let ?n = "(length pdu - 2) div l"
  have "unat (of_nat ?n :: u16) \<le> ?n" by (simp add: unat_of_nat)
  then have "l * unat (of_nat ?n :: u16) \<le> l * ?n" by (rule mult_le_mono2)
  also have "\<dots> \<le> length pdu - 2" by (metis mult.commute times_div_less_eq_dividend)
  finally have "2 + l * unat (of_nat ?n :: u16) \<le> length pdu" using assms(1) by linarith
  moreover have "unat (of_nat l :: u16) = l" using assms(2) by (simp add: unat_small)
  ultimately show ?thesis
    using get_entries_in_bounds [of 2 l "unat (of_nat ?n :: u16)" pdu]
    by (auto simp: get_data_list_def att_data_list_alloc_def)
qed

lemma get_ranges_in_bounds: "get_ranges offset pdu \<noteq> None"
proof (induction offset pdu rule: get_ranges.induct)
  case (1 offset pdu)
  show ?case
  proof (cases "offset + 4 \<le> length pdu")
    case True
    then have "get_ranges (offset + 4) pdu \<noteq> None" using 1 by (auto simp: rd_le16_def)
    with True show ?thesis by (subst get_ranges.simps) (auto simp: rd_le16_def)
  next
    case False
    then show ?thesis by (subst get_ranges.simps) simp
  qed
qed

lemma unat_u8_le: "unat (x :: u8) \<le> 255"
  using unsigned_less [of x, where ?'a = nat] by simp

text \<open>A list in a response: the entries that fit, after an opcode and one more byte.\<close>

lemma put_entries_response:
  assumes "\<forall>d \<in> set ds. length d = l" "0 < l" "2 \<le> length buf" "length buf < 65536" "conv = id \<or> conv = conv_u16"
  shows "put_entries conv l 2 2 ds (filled [a, b] buf) =
    Some (2 + l * min (length ds) ((length buf - 2) div l), filled ([a, b] @ concat (take ((length buf - 2) div l) ds)) buf)"
proof -
  have "\<forall>n \<le> length buf. conv n = n" using assms(4,5) by (auto simp: conv_u16_def)
  moreover have "length [a, b] = 2" by simp
  ultimately show ?thesis using put_entries_eq [OF assms(1,2), of buf conv "[a, b]"] assms(3) by (simp only:)
qed

lemma entries_sent:
  assumes "\<forall>d \<in> set ds. length d = l" "2 \<le> length buf" "length buf < 65536"
  shows "unat (of_nat (2 + l * min (length ds) ((length buf - 2) div l)) :: u16) = length ([a, b] @ concat (take ((length buf - 2) div l) ds))"
proof -
  let ?k = "(length buf - 2) div l"
  have "l * min (length ds) ?k \<le> l * ?k" by simp
  also have "\<dots> \<le> length buf - 2" by (metis mult.commute times_div_less_eq_dividend)
  finally have "2 + l * min (length ds) ?k < 65536" using assms(2,3) by linarith
  moreover have "\<forall>d \<in> set (take ?k ds). length d = l" using assms(1) by (meson in_set_takeD)
  ultimately show ?thesis by (simp only: unat_small length_append length_concat_entries) (simp add: min.commute)
qed

lemma data_list_received:
  assumes "\<forall>d \<in> set ds. length d = l" "0 < l" "l \<le> 255" "length ds < 65536"
  shows "(length ([a, b] @ concat ds) - 2) mod l = 0"
    and "get_data_list ((length ([a, b] @ concat ds) - 2) div l) l ([a, b] @ concat ds) = Some (Some \<lparr>dl_len = of_nat l, dl_data = ds\<rparr>)"
proof -
  have n: "length ([a, b] @ concat ds) - 2 = l * length ds" using length_concat_entries [OF assms(1)] by simp
  show "(length ([a, b] @ concat ds) - 2) mod l = 0" unfolding n by simp
  have d: "(length ([a, b] @ concat ds) - 2) div l = length ds" unfolding n using assms(2) by simp
  show "get_data_list ((length ([a, b] @ concat ds) - 2) div l) l ([a, b] @ concat ds) = Some (Some \<lparr>dl_len = of_nat l, dl_data = ds\<rparr>)"
    unfolding d by (rule get_data_list_concat) (use assms in simp_all)
qed

lemma unat_len: "l \<le> 255 \<Longrightarrow> unat (of_nat l :: u8) = l" "l \<le> 255 \<Longrightarrow> unat (ucast (of_nat l :: u16) :: u8) = l"
  by (simp_all add: unat_of_nat unsigned_ucast_eq take_bit_eq_mod)

text \<open>A list of entries of one length, of which at least one fits.\<close>

definition entries_fit :: "nat \<Rightarrow> u8 list list \<Rightarrow> u8 list \<Rightarrow> bool" where
  "entries_fit l ds buf \<longleftrightarrow> (\<forall>d \<in> set ds. length d = l) \<and> ds \<noteq> [] \<and> length ds < 65536 \<and> l \<le> 255 \<and> 3 \<le> l
     \<and> l + 2 \<le> length buf \<and> length buf < 65536"

lemma entries_fitD:
  assumes "entries_fit l ds buf"
  defines "es \<equiv> take ((length buf - 2) div l) ds"
  shows "\<forall>d \<in> set ds. length d = l" "\<forall>d \<in> set es. length d = l" "length es < 65536" "0 < l" "2 \<le> length buf"
    "length buf < 65536" "l \<le> length (concat es)" "unat (of_nat l :: u16) = l" "l \<le> 255"
proof -
  have a: "\<forall>d \<in> set ds. length d = l" "ds \<noteq> []" "length ds < 65536" "3 \<le> l" "l + 2 \<le> length buf" "length buf < 65536" "l \<le> 255"
    using assms(1) by (auto simp: entries_fit_def)
  then show "\<forall>d \<in> set ds. length d = l" "0 < l" "2 \<le> length buf" "length buf < 65536" "unat (of_nat l :: u16) = l" "l \<le> 255"
    by (simp_all add: unat_small)
  show es: "\<forall>d \<in> set es. length d = l" "length es < 65536" using a by (auto simp: es_def dest: in_set_takeD)
  have "1 \<le> (length buf - 2) div l" using a(4,5) by (simp add: div_greater_zero_iff Suc_le_eq)
  then have "es \<noteq> []" using a(2) by (simp add: es_def)
  then show "l \<le> length (concat es)" using length_concat_entries [OF es(1)] by (cases es) auto
qed

lemma grp_list_roundtrip:
  assumes "entries_fit l ds buf" "5 \<le> l"
  shows "dec_read_by_grp_resp (sent (enc_read_by_grp_resp (Some \<lparr>dl_len = of_nat l, dl_data = ds\<rparr>) buf))
    = Some (Some \<lparr>dl_len = of_nat l, dl_data = take ((length buf - 2) div l) ds\<rparr>)"
proof -
  let ?es = "take ((length buf - 2) div l) ds" and ?b = "ucast (of_nat l :: u16) :: u8"
  note f = entries_fitD [OF assms(1)]
  have fit: "l + 2 \<le> length buf" using assms(1) by (simp add: entries_fit_def)
  have enc: "sent (enc_read_by_grp_resp (Some \<lparr>dl_len = of_nat l, dl_data = ds\<rparr>) buf) = [ATT_OP_READ_BY_GROUP_RESP, ?b] @ concat ?es"
    using f(5,8) fit put_entries_response [OF f(1,4-6), of conv_u16 ATT_OP_READ_BY_GROUP_RESP ?b]
      entries_sent [OF f(1,5,6), of ATT_OP_READ_BY_GROUP_RESP ?b]
    by (simp add: enc_read_by_grp_resp_def put_8_first del: of_nat_add)
  have b: "unat ?b = l" using f(9) by (simp add: unat_len)
  then have "\<not> ?b < 5" using assms(2) by (simp add: word_less_nat_alt)
  then show ?thesis
    unfolding enc using b assms(2) f(7) data_list_received [OF f(2,4,9,3), of ATT_OP_READ_BY_GROUP_RESP ?b]
    by (simp add: dec_read_by_grp_resp_def)
qed

lemma type_list_roundtrip:
  assumes "entries_fit l ds buf"
  shows "dec_read_by_type_resp (sent (enc_read_by_type_resp (Some \<lparr>dl_len = of_nat l, dl_data = ds\<rparr>) buf))
    = Some (Some \<lparr>dl_len = of_nat l, dl_data = take ((length buf - 2) div l) ds\<rparr>)"
proof -
  let ?es = "take ((length buf - 2) div l) ds" and ?b = "of_nat l :: u8"
  note f = entries_fitD [OF assms(1)]
  have fit: "l + 2 \<le> length buf" "3 \<le> l" using assms(1) by (simp_all add: entries_fit_def)
  then have m: "min (length buf - 2) l = l" by simp
  have enc: "sent (enc_read_by_type_resp (Some \<lparr>dl_len = of_nat l, dl_data = ds\<rparr>) buf) = [ATT_OP_READ_BY_TYPE_RESP, ?b] @ concat ?es"
    using f(5,8) m put_entries_response [OF f(1,4-6), of id ATT_OP_READ_BY_TYPE_RESP ?b]
      entries_sent [OF f(1,5,6), of ATT_OP_READ_BY_TYPE_RESP ?b]
    by (simp add: enc_read_by_type_resp_def put_8_first Let_def del: of_nat_add)
  have b: "unat ?b = l" using f(9) by (simp add: unat_len)
  then have "\<not> ?b < 3" using fit(2) by (simp add: word_less_nat_alt)
  then show ?thesis
    unfolding enc using b fit(2) f(7) data_list_received [OF f(2,4,9,3), of ATT_OP_READ_BY_TYPE_RESP ?b]
    by (simp add: dec_read_by_type_resp_def)
qed

lemma info_list_roundtrip:
  assumes "entries_fit l ds buf" "format = 1 \<and> l = 4 \<or> format = 2 \<and> l = 18"
  shows "dec_find_info_resp (sent (enc_find_info_resp format (Some \<lparr>dl_len = of_nat l, dl_data = ds\<rparr>) buf))
    = Some (Some (format, Some \<lparr>dl_len = of_nat l, dl_data = take ((length buf - 2) div l) ds\<rparr>))"
proof -
  let ?es = "take ((length buf - 2) div l) ds"
  note f = entries_fitD [OF assms(1)]
  have fit: "l + 2 \<le> length buf" using assms(1) by (simp add: entries_fit_def)
  have enc: "sent (enc_find_info_resp format (Some \<lparr>dl_len = of_nat l, dl_data = ds\<rparr>) buf) = [ATT_OP_FIND_INFO_RESP, format] @ concat ?es"
    using f(5,8) fit put_entries_response [OF f(1,4-6), of id ATT_OP_FIND_INFO_RESP format]
      entries_sent [OF f(1,5,6), of ATT_OP_FIND_INFO_RESP format]
    by (simp add: enc_find_info_resp_def put_8_first del: of_nat_add)
  have "(if format = 0x01 then 2 + 2 else if format = 0x02 then 2 + 16 else 2) = l" using assms(2) by auto
  then show ?thesis
    unfolding enc using data_list_received(2) [OF f(2,4,9,3), of ATT_OP_FIND_INFO_RESP format]
    by (simp add: dec_find_info_resp_def Let_def)
qed

lemma length_concat_ranges: "length (concat (map range_bytes rs)) = 4 * length rs"
  by (induction rs) auto

lemma range_list_roundtrip:
  assumes "rs \<noteq> []" "5 \<le> length buf" "length buf < 65536"
  shows "dec_find_by_type_resp (sent (enc_find_by_type_resp rs buf)) = Some (take ((length buf - 1) div 4) rs)"
proof -
  let ?k = "(length buf - 1) div 4"
  let ?rs = "take ?k rs"
  have "4 * min (length rs) ?k \<le> 4 * ?k" by simp
  also have "\<dots> \<le> length buf - 1" by simp
  finally have "1 + 4 * min (length rs) ?k < 65536" using assms(3) by linarith
  then have u: "unat (of_nat (1 + 4 * min (length rs) ?k) :: u16) = 1 + 4 * min (length rs) ?k" by (rule unat_small)
  have enc: "sent (enc_find_by_type_resp rs buf) = [ATT_OP_FIND_BY_TYPE_RESP] @ concat (map range_bytes ?rs)"
    using assms(2) put_ranges_eq [of "[ATT_OP_FIND_BY_TYPE_RESP]" buf rs] assms(3) u
    by (simp add: enc_find_by_type_resp_def put_8_first length_concat_ranges min.commute del: of_nat_add)
  have "1 \<le> ?k" using assms(2) by simp
  then have "1 \<le> length ?rs" using assms(1) by (cases rs) auto
  have n: "length ([ATT_OP_FIND_BY_TYPE_RESP] @ concat (map range_bytes ?rs)) = 1 + 4 * length ?rs"
    unfolding length_append length_concat_ranges by simp
  have "\<not> length ([ATT_OP_FIND_BY_TYPE_RESP] @ concat (map range_bytes ?rs)) < 5"
    unfolding n using \<open>1 \<le> length ?rs\<close> by linarith
  moreover have "(length ([ATT_OP_FIND_BY_TYPE_RESP] @ concat (map range_bytes ?rs)) - 1) mod 4 = 0"
    unfolding n by simp
  moreover have "get_ranges 1 ([ATT_OP_FIND_BY_TYPE_RESP] @ concat (map range_bytes ?rs)) = Some ?rs"
    using get_ranges_concat [of "[ATT_OP_FIND_BY_TYPE_RESP]" ?rs] by simp
  moreover have "rd_8 0 ([ATT_OP_FIND_BY_TYPE_RESP] @ concat (map range_bytes ?rs)) = Some ATT_OP_FIND_BY_TYPE_RESP" by simp
  ultimately show ?thesis
    unfolding enc dec_find_by_type_resp_def by (simp only: if_False if_True bind.bind_lunit simp_thms)
qed

section \<open>Properties\<close>



text \<open>A value that is longer than the room in the PDU is cut to it, never written past the buffer:
  the receiver of a write, of a prepared write or of a read response gets the longest prefix that fits.
  A notification or indication that does not fit is refused instead. With a buffer smaller than the header
  of a write the encoders write outside it.\<close>

theorem att_values_bounded:
  assumes "length buf < 65536"
  shows "(3 \<le> length buf \<longrightarrow> map_option snd (dec_write_req (sent (enc_write_req h val buf))) = Some (Some (h, take (length buf - 3) val)))
    \<and> (5 \<le> length buf \<longrightarrow> map_option snd (dec_prep_write_req (sent (enc_prep_write_req h off val buf))) = Some (Some (h, off, take (length buf - 5) val)))
    \<and> (1 \<le> length buf \<longrightarrow> map_option snd (dec_read_resp (sent (enc_read_resp val buf)) (Some (length buf))) = Some (Some (take (length buf - 1) val)))
    \<and> (length val + 3 \<le> length buf \<longrightarrow>
         dec_indication (sent (enc_indication h val buf)) (length buf) = Some (of_nat (length val), Some (h, val)))
    \<and> (length buf < length val + 3 \<longrightarrow> enc_indication h val buf = Some (0, buf) \<and> enc_notification h val buf = Some (0, buf))
    \<and> (length buf < 3 \<longrightarrow> enc_write_req h val buf = None \<and> enc_write_cmd h val buf = None)"
proof (intro conjI impI)
  let ?n = "length buf"
  assume "3 \<le> ?n"
  moreover have "unat (of_nat (3 + min (length val) (?n - 3)) :: u16) = length (ATT_OP_WRITE_REQ # le16 h @ take (?n - 3) val)"
    using assms \<open>3 \<le> ?n\<close> by (subst unat_small) (auto simp: min_def)
  ultimately show "map_option snd (dec_write_req (sent (enc_write_req h val buf))) = Some (Some (h, take (?n - 3) val))"
    by (simp add: enc_write_req_def dec_write_req_def enc_handle_value_eq dec_handle_value_eq del: of_nat_add)
next
  let ?n = "length buf"
  assume "5 \<le> ?n"
  moreover have "unat (of_nat (5 + min (length val) (?n - 5)) :: u16) = length (ATT_OP_PREP_WRITE_REQ # le16 h @ le16 off @ take (?n - 5) val)"
    using assms \<open>5 \<le> ?n\<close> by (subst unat_small) (auto simp: min_def)
  ultimately show "map_option snd (dec_prep_write_req (sent (enc_prep_write_req h off val buf))) = Some (Some (h, off, take (?n - 5) val))"
    by (simp add: enc_prep_write_req_def dec_prep_write_req_def enc_prep_write_eq dec_prep_write_eq del: of_nat_add)
next
  let ?n = "length buf"
  assume "1 \<le> ?n"
  moreover have "unat (of_nat (min (length val) (?n - 1) + 1) :: u16) = length (ATT_OP_READ_RESP # take (?n - 1) val)"
    using assms \<open>1 \<le> ?n\<close> by (subst unat_small) (auto simp: min_def)
  ultimately show "map_option snd (dec_read_resp (sent (enc_read_resp val buf)) (Some ?n)) = Some (Some (take (?n - 1) val))"
    by (auto simp: enc_read_resp_eq dec_read_resp_def rd_bytes_def simp del: of_nat_add)
next
  assume f: "length val + 3 \<le> length buf"
  then have "unat (of_nat (length val + 3) :: u16) = length (ATT_OP_HANDLE_IND # le16 h @ val)" "unat (of_nat (length val) :: u16) = length val"
    using assms by (simp_all add: unat_small del: of_nat_add)
  with f show "dec_indication (sent (enc_indication h val buf)) (length buf) = Some (of_nat (length val), Some (h, val))"
    by (simp add: enc_indication_def enc_report_eq dec_indication_def Let_def min_def del: of_nat_add)
qed (simp_all add: enc_indication_def enc_notification_def enc_report_def enc_write_req_def enc_write_cmd_def enc_handle_value_def
    put_8_first Let_def)

lemma att_values_bounded_witness:
  "map_option snd (dec_write_req (sent (enc_write_req 1 [1, 2, 3] (replicate 5 0)))) = Some (Some (1, [1, 2]))"
  using att_values_bounded [of "replicate 5 0" 1 "[1, 2, 3]" 0] by simp

text \<open>C35: A list in a response arrives entry for entry, in order, cut to the entries that fit the PDU: the
  lists of attribute groups, of attributes by type, of handles with UUIDs (in both formats) and of handle
  ranges.\<close>

theorem att_lists_roundtrip:
  assumes "entries_fit l ds buf" and "rs \<noteq> []"
  defines "es \<equiv> \<lparr>dl_len = of_nat l, dl_data = take ((length buf - 2) div l) ds\<rparr>"
  shows "(5 \<le> l \<longrightarrow> dec_read_by_grp_resp (sent (enc_read_by_grp_resp (Some \<lparr>dl_len = of_nat l, dl_data = ds\<rparr>) buf)) = Some (Some es))
    \<and> dec_read_by_type_resp (sent (enc_read_by_type_resp (Some \<lparr>dl_len = of_nat l, dl_data = ds\<rparr>) buf)) = Some (Some es)
    \<and> (format = 1 \<and> l = 4 \<or> format = 2 \<and> l = 18 \<longrightarrow>
        dec_find_info_resp (sent (enc_find_info_resp format (Some \<lparr>dl_len = of_nat l, dl_data = ds\<rparr>) buf)) = Some (Some (format, Some es)))
    \<and> dec_find_by_type_resp (sent (enc_find_by_type_resp rs buf)) = Some (take ((length buf - 1) div 4) rs)"
proof -
  have "5 \<le> length buf" "length buf < 65536" using assms(1) by (auto simp: entries_fit_def)
  then show ?thesis
    unfolding es_def
    using grp_list_roundtrip [OF assms(1)] type_list_roundtrip [OF assms(1)] info_list_roundtrip [OF assms(1)]
      range_list_roundtrip [OF assms(2)] by blast
qed

lemma att_lists_roundtrip_witness:
  "dec_read_by_grp_resp (sent (enc_read_by_grp_resp (Some \<lparr>dl_len = 6, dl_data = [[1, 0, 5, 0, 0, 24], [6, 0, 9, 0, 1, 24]]\<rparr>) (replicate 23 0)))
    = Some (Some \<lparr>dl_len = 6, dl_data = [[1, 0, 5, 0, 0, 24], [6, 0, 9, 0, 1, 24]]\<rparr>)"
  using att_lists_roundtrip [of 6 "[[1, 0, 5, 0, 0, 24], [6, 0, 9, 0, 1, 24]]" "replicate 23 0" "[\<lparr>range_start = 1, range_end = 2\<rparr>]"]
  by (simp add: entries_fit_def)

text \<open>C36: No decoder reads outside the PDU, whatever bytes a peer sends, as long as the PDU is not empty
  (and has its second byte, for the Find Information response).\<close>

theorem att_decoders_in_bounds:
  assumes "pdu \<noteq> []"
  shows "dec_read_by_grp_req pdu \<noteq> None \<and> dec_read_by_grp_resp pdu \<noteq> None \<and> dec_find_by_type_req pdu \<noteq> None
    \<and> dec_find_by_type_resp pdu \<noteq> None \<and> dec_read_by_type_req pdu \<noteq> None \<and> dec_read_by_type_resp pdu \<noteq> None
    \<and> dec_write_cmd pdu \<noteq> None \<and> dec_signed_write_cmd pdu \<noteq> None \<and> dec_write_req pdu \<noteq> None \<and> dec_write_resp pdu \<noteq> None
    \<and> dec_read_req pdu \<noteq> None \<and> dec_read_blob_req pdu \<noteq> None \<and> dec_read_resp pdu vlen \<noteq> None
    \<and> dec_find_info_req pdu \<noteq> None \<and> (2 \<le> length pdu \<longrightarrow> dec_find_info_resp pdu \<noteq> None)
    \<and> dec_indication pdu n \<noteq> None \<and> dec_mtu_req pdu \<noteq> None \<and> dec_mtu_resp pdu \<noteq> None
    \<and> dec_prep_write_req pdu \<noteq> None \<and> dec_prep_write_resp pdu \<noteq> None
    \<and> dec_exec_write_req pdu \<noteq> None \<and> dec_exec_write_resp pdu \<noteq> None"
proof (intro conjI impI)
  have len: "1 \<le> length pdu" using assms by (cases pdu) auto
  have list: "get_data_list ((length pdu - 2) div unat e) (unat e) pdu \<noteq> None" if "2 \<le> length pdu" for e :: u8
    using get_data_list_in_bounds [OF that unat_u8_le] .
  show "dec_read_by_grp_resp pdu \<noteq> None"
    using assms len list [of "pdu ! 1"] by (simp add: dec_read_by_grp_resp_def rd_8_def)
  show "dec_read_by_type_resp pdu \<noteq> None"
    using assms len list [of "pdu ! 1"] by (simp add: dec_read_by_type_resp_def rd_8_def)
  show "dec_find_by_type_resp pdu \<noteq> None"
    using assms len get_ranges_in_bounds by (simp add: dec_find_by_type_resp_def rd_8_def)
  have "unat (of_nat (min (length pdu - 3) n) :: u16) \<le> length pdu - 3"
    by (simp add: unat_of_nat)
  then show "dec_indication pdu n \<noteq> None"
    using len by (auto simp: dec_indication_def rd_8_def rd_le16_def rd_bytes_def Let_def)
next
  assume "2 \<le> length pdu"
  then show "dec_find_info_resp pdu \<noteq> None"
    using get_data_list_in_bounds [of pdu 4] get_data_list_in_bounds [of pdu 18] get_data_list_in_bounds [of pdu 2]
    by (auto simp: dec_find_info_resp_def rd_8_def Let_def)
next
  have len: "1 \<le> length pdu" using assms by (cases pdu) auto
  show "dec_read_by_grp_req pdu \<noteq> None"
    using len by (auto simp: dec_read_by_grp_req_def dec_range_uuid_def get_uuid_def rd_8_def rd_le16_def rd_bytes_def)
  show "dec_read_by_type_req pdu \<noteq> None"
    using len by (auto simp: dec_read_by_type_req_def dec_range_uuid_def get_uuid_def rd_8_def rd_le16_def rd_bytes_def)
qed (auto simp: dec_find_by_type_req_def dec_write_cmd_def dec_write_req_def dec_handle_value_def dec_signed_write_cmd_def
    dec_write_resp_def dec_read_req_def dec_one_u16_def dec_read_blob_req_def dec_two_u16_def dec_read_resp_def
    dec_find_info_req_def dec_mtu_req_def dec_mtu_resp_def dec_prep_write_req_def dec_prep_write_resp_def dec_prep_write_def
    dec_exec_write_req_def dec_exec_write_resp_def rd_8_def rd_le16_def rd_bytes_def Let_def ATT_SIGNATURE_LEN_def assms
    split: option.splits)

lemma att_decoders_in_bounds_witness: "dec_read_by_grp_resp [0x11, 6, 1, 0, 5, 0, 0] \<noteq> None"
  using att_decoders_in_bounds [of "[0x11, 6, 1, 0, 5, 0, 0]"] by blast

text \<open>The response to a prepared write is never understood: the decoder tests for the opcode of the
  request, so it refuses every response that the encoder makes.\<close>

theorem prep_write_resp_refused:
  assumes "5 \<le> length buf" and "length buf < 65536"
  shows "dec_prep_write_resp (sent (enc_prep_write_resp h off val buf)) = Some (0, None)"
proof -
  have "unat (of_nat (5 + min (length val) (length buf - 5)) :: u16) = length (ATT_OP_PREP_WRITE_RESP # le16 h @ le16 off @ take (length buf - 5) val)"
    using assms by (subst unat_small) (auto simp: min_def)
  then show ?thesis
    using assms(1) by (simp add: enc_prep_write_resp_def dec_prep_write_resp_def enc_prep_write_eq dec_prep_write_def
      ATT_OP_PREP_WRITE_RESP_def ATT_OP_PREP_WRITE_REQ_def del: of_nat_add)
qed

lemma prep_write_resp_refused_witness:
  "dec_prep_write_resp (sent (enc_prep_write_resp 0x2A 0 [1, 2] (replicate 23 0))) = Some (0, None)"
  using prep_write_resp_refused [of "replicate 23 0"] by simp
end
