(* ===== verification/Gatt.thy ===== *)
theory Gatt
  imports Att
begin

text \<open>
  \<open>bluez/bluez5/attrib/gatt.c\<close>: the GATT procedures of the socket back end, with the callback of
  \<open>attrib/gattrib.c\<close> that hands them the answers. A procedure is a state and a callback, which is called with
  each answer of the server and sends the next request or reports; \<open>converse\<close> runs it against a server.
  As in \<open>Att\<close>, \<open>None\<close> of a callback is an access outside an array. A PDU is shorter than 65536 bytes.
\<close>

section \<open>Requests and answers\<close>

text \<open>An answer of the server reaches a procedure through \<open>attrib_callback_result\<close>, as a status and the whole
  PDU. \<open>None\<close>: the copy of the PDU cannot be allocated and nothing is called.\<close>

definition BT_ATT_OP_ERROR_RSP :: u8 where "BT_ATT_OP_ERROR_RSP = 0x01"
definition BT_ATT_ERROR_UNLIKELY :: u8 where "BT_ATT_ERROR_UNLIKELY = 0x0E"

definition construct_full_pdu :: "bool \<Rightarrow> u8 \<Rightarrow> u8 list \<Rightarrow> u8 list option" where
  "construct_full_pdu calloc_ok opcode pdu = (if calloc_ok then Some (opcode # pdu) else None)"

definition attrib_callback_result :: "bool \<Rightarrow> u8 \<Rightarrow> u8 list \<Rightarrow> (u8 \<times> u8 list) option" where
  "attrib_callback_result calloc_ok opcode pdu = do {
     buf \<leftarrow> construct_full_pdu calloc_ok opcode pdu;
     Some (if opcode = BT_ATT_OP_ERROR_RSP
           then (if length pdu < 4 then BT_ATT_ERROR_UNLIKELY else pdu ! 3)
           else 0, buf)
   }"

text \<open>What a callback does: it sends the next request, or it reports a status and a result to its caller, or
  neither.\<close>

datatype ('d, 'r) outcome = Request "u8 list" 'd | Report u8 'r | Silent

text \<open>What a callback finds: the buffer of \<open>g_attrib_get_buffer\<close>, which of its allocations succeed (by the number
  of the entry), and whether \<open>g_attrib_send\<close> accepts its request; before that,
  whether the copy of the answer could be allocated.\<close>

record att_env =
  buffer :: "u8 list"
  alloc_ok :: "nat \<Rightarrow> bool"
  send_ok :: bool
  copy_ok :: bool

text \<open>\<open>g_attrib_send\<close> as a callback uses it: a request of no bytes is not sent.\<close>

definition send_request :: "u16 \<times> u8 list \<Rightarrow> 'd \<Rightarrow> ('d, 'r) outcome" where
  "send_request encoded d = (case encoded of (plen, buf) \<Rightarrow>
     if plen = 0 then Silent else Request (take (unat plen) buf) d)"

text \<open>A procedure against a server: each request is answered by the server, in a state of its own; \<open>None\<close>
  when it is not. The procedure ends with a report, without one, or with a fault (\<open>None\<close> of the callback);
  it may also go on for ever, which is \<open>None\<close> here.\<close>

datatype 'r reply = Reported u8 'r | Unanswered | Fault

partial_function (option) converse ::
    "('d \<Rightarrow> u8 \<Rightarrow> u8 list \<Rightarrow> att_env \<Rightarrow> ('d, 'r) outcome option) \<Rightarrow>
     ('s \<Rightarrow> u8 list \<Rightarrow> 's \<times> (u8 \<times> u8 list \<times> att_env) option) \<Rightarrow> 's \<Rightarrow> ('d, 'r) outcome option \<Rightarrow> ('r reply \<times> 's) option" where
  "converse callback server s out = (case out of
       None \<Rightarrow> Some (Fault, s)
     | Some (Report status r) \<Rightarrow> Some (Reported status r, s)
     | Some Silent \<Rightarrow> Some (Unanswered, s)
     | Some (Request pdu d) \<Rightarrow> (case server s pdu of
           (s, None) \<Rightarrow> Some (Unanswered, s)
         | (s, Some (opcode, rsp, env)) \<Rightarrow> (case attrib_callback_result (copy_ok env) opcode rsp of
               None \<Rightarrow> Some (Unanswered, s)
             | Some (status, pdu) \<Rightarrow> converse callback server s (callback d status pdu env))))"

section \<open>UUIDs in PDUs\<close>

definition ATT_ECODE_INVALID_PDU :: u8 where "ATT_ECODE_INVALID_PDU = 0x04"
definition ATT_ECODE_ATTR_NOT_FOUND :: u8 where "ATT_ECODE_ATTR_NOT_FOUND = 0x0A"
definition ATT_ECODE_UNLIKELY :: u8 where "ATT_ECODE_UNLIKELY = 0x0E"
definition ATT_ECODE_INSUFF_RESOURCES :: u8 where "ATT_ECODE_INSUFF_RESOURCES = 0x11"
definition ATT_ECODE_IO :: u8 where "ATT_ECODE_IO = 0x80"
definition MAX_LEN_UUID_STR :: nat where "MAX_LEN_UUID_STR = 37"

lemmas att_ecodes = ATT_ECODE_INVALID_PDU_def ATT_ECODE_ATTR_NOT_FOUND_def ATT_ECODE_UNLIKELY_def
  ATT_ECODE_INSUFF_RESOURCES_def ATT_ECODE_IO_def

text \<open>A UUID of 32 bits has not written the bytes that the swap reads.\<close>

fun prim_put_uuid_le :: "bt_uuid \<Rightarrow> u8 list option" where
  "prim_put_uuid_le (BT_UUID16 v) = Some (le16 v)"
| "prim_put_uuid_le (BT_UUID128 bs) = Some (rev bs)"
| "prim_put_uuid_le _ = None"

definition get_uuid128 :: "bool \<Rightarrow> nat \<Rightarrow> u8 list \<Rightarrow> bt_uuid option" where
  "get_uuid128 short off val =
     (if short then do { v \<leftarrow> rd_le16 off val; bt_uuid_to_uuid128 (bt_uuid16_create v) None }
      else do { bs \<leftarrow> rd_bytes off 16 val; Some (bt_uuid128_create (rev bs)) })"

definition uuid_string :: "bt_uuid \<Rightarrow> string option" where
  "uuid_string u = snd (bt_uuid_to_string (Some u) (MAX_LEN_UUID_STR + 1))"

section \<open>Discovery of the primary services\<close>

text \<open>The flag \<open>changed\<close> of the C structure is not used by the procedures.\<close>

record gatt_primary =
  prim_uuid :: string
  prim_range :: att_range

text \<open>The list of the C structure holds services in one of the two procedures, ranges in the other.\<close>

record discover_primary =
  dp_uuid :: "bt_uuid option"
  dp_start :: u16
  primaries :: "gatt_primary list"
  ranges :: "att_range list"

definition encode_discover_primary :: "u16 \<Rightarrow> u16 \<Rightarrow> bt_uuid option \<Rightarrow> u8 list \<Rightarrow> enc_result" where
  "encode_discover_primary start stop uuid pdu =
     (let prim = bt_uuid16_create GATT_PRIM_SVC_UUID in
      case uuid of
        None \<Rightarrow> enc_read_by_grp_req start stop (Some prim) pdu
      | Some u \<Rightarrow> do { val \<leftarrow> prim_put_uuid_le u; enc_find_by_type_req start stop (Some prim) val pdu })"

definition primary_by_uuid_cb ::
    "discover_primary \<Rightarrow> u8 \<Rightarrow> u8 list \<Rightarrow> att_env \<Rightarrow> (discover_primary, att_range list) outcome option" where
  "primary_by_uuid_cb dp status ipdu env =
     (if status \<noteq> 0 then Some (Report (if status = ATT_ECODE_ATTR_NOT_FOUND then 0 else status) (ranges dp))
      else do {
        rs \<leftarrow> dec_find_by_type_resp ipdu;
        if rs = [] then Some (Report 0 (ranges dp))
        else do {
          let dp = dp\<lparr>ranges := ranges dp @ rs\<rparr>;
          let range = last rs;
          if range_end range = 0xffff then Some (Report 0 (ranges dp))
          else if range_end range < dp_start dp then Some (Report ATT_ECODE_UNLIKELY (ranges dp))
          else do {
            let dp = dp\<lparr>dp_start := range_end range + 1\<rparr>;
            (oplen, buf) \<leftarrow> encode_discover_primary (dp_start dp) 0xffff (dp_uuid dp) (buffer env);
            if oplen = 0 then Some (Report 0 (ranges dp))
            else Some (send_request (oplen, buf) dp)
          }
        }
      })"

text \<open>The loop of \<open>primary_all_cb\<close>: the last end handle, or the error, and the list so far.\<close>

fun primary_entries ::
    "bool \<Rightarrow> (nat \<Rightarrow> bool) \<Rightarrow> nat \<Rightarrow> u8 list list \<Rightarrow> u16 \<Rightarrow> gatt_primary list \<Rightarrow> ((u8 + u16) \<times> gatt_primary list) option" where
  "primary_entries short ok i [] stop ps = Some (Inr stop, ps)"
| "primary_entries short ok i (d # ds) stop ps = do {
     s \<leftarrow> rd_le16 0 d;
     e \<leftarrow> rd_le16 2 d;
     u \<leftarrow> get_uuid128 short 4 d;
     if \<not> ok i then Some (Inl ATT_ECODE_INSUFF_RESOURCES, ps)
     else do {
       str \<leftarrow> uuid_string u;
       primary_entries short ok (i + 1) ds e
         (ps @ [\<lparr>prim_uuid = str, prim_range = \<lparr>range_start = s, range_end = e\<rparr>\<rparr>])
     }
   }"

definition primary_all_cb ::
    "discover_primary \<Rightarrow> u8 \<Rightarrow> u8 list \<Rightarrow> att_env \<Rightarrow> (discover_primary, gatt_primary list) outcome option" where
  "primary_all_cb dp status ipdu env =
     (if status \<noteq> 0 then Some (Report (if status = ATT_ECODE_ATTR_NOT_FOUND then 0 else status) (primaries dp))
      else do {
        list \<leftarrow> dec_read_by_grp_resp ipdu;
        case list of
          None \<Rightarrow> Some (Report ATT_ECODE_IO (primaries dp))
        | Some list \<Rightarrow>
            if dl_len list \<noteq> 6 \<and> dl_len list \<noteq> 20 then Some (Report ATT_ECODE_INVALID_PDU (primaries dp))
            else do {
              (r, ps) \<leftarrow> primary_entries (dl_len list = 6) (alloc_ok env) 0 (dl_data list) 0 (primaries dp);
              case r of
                Inl e \<Rightarrow> Some (Report e ps)
              | Inr stop \<Rightarrow>
                  if stop < dp_start dp then Some (Report ATT_ECODE_UNLIKELY ps)
                  else do {
                    let dp = dp\<lparr>primaries := ps, dp_start := stop + 1\<rparr>;
                    if stop \<noteq> 0xffff then do {
                      encoded \<leftarrow> encode_discover_primary (dp_start dp) 0xffff None (buffer env);
                      Some (send_request encoded dp)
                    } else Some (Report 0 ps)
                  }
            }
      })"

text \<open>The two callbacks of \<open>gatt_discover_primary\<close>; the result is \<open>Inl\<close> for all services, \<open>Inr\<close> for one UUID.\<close>

definition gatt_discover_primary ::
    "bt_uuid option \<Rightarrow> att_env \<Rightarrow> (discover_primary, 'r) outcome option" where
  "gatt_discover_primary uuid env = do {
     (plen, buf) \<leftarrow> encode_discover_primary 1 0xffff uuid (buffer env);
     if plen = 0 \<or> \<not> alloc_ok env 0 \<or> \<not> send_ok env then Some Silent
     else Some (send_request (plen, buf) \<lparr>dp_uuid = uuid, dp_start = 1, primaries = [], ranges = []\<rparr>)
   }"

section \<open>Discovery of the characteristics\<close>

record gatt_char =
  char_uuid :: string
  char_handle :: u16
  char_properties :: u8
  char_value_handle :: u16

record discover_char =
  dc_uuid :: "bt_uuid option"
  dc_start :: u16
  dc_end :: u16
  characteristics :: "gatt_char list"

text \<open>\<open>Some True\<close>: the procedure looks for another UUID.\<close>

definition other_uuid :: "bt_uuid option \<Rightarrow> bt_uuid \<Rightarrow> bool option" where
  "other_uuid wanted u = (case wanted of
       None \<Rightarrow> Some False
     | Some w \<Rightarrow> do { c \<leftarrow> bt_uuid_cmp w u; Some (c \<noteq> 0) })"

fun char_entries ::
    "bt_uuid option \<Rightarrow> bool \<Rightarrow> (nat \<Rightarrow> bool) \<Rightarrow> nat \<Rightarrow> u8 list list \<Rightarrow> u16 \<Rightarrow> gatt_char list \<Rightarrow> ((u8 + u16) \<times> gatt_char list) option" where
  "char_entries uuid short ok i [] latest cs = Some (Inr latest, cs)"
| "char_entries uuid short ok i (d # ds) latest cs = do {
     latest \<leftarrow> rd_le16 0 d;
     u \<leftarrow> get_uuid128 short 5 d;
     other \<leftarrow> other_uuid uuid u;
     if other then char_entries uuid short ok (i + 1) ds latest cs
     else if \<not> ok i then Some (Inl ATT_ECODE_INSUFF_RESOURCES, cs)
     else do {
       p \<leftarrow> rd_8 2 d;
       v \<leftarrow> rd_le16 3 d;
       str \<leftarrow> uuid_string u;
       char_entries uuid short ok (i + 1) ds latest
         (cs @ [\<lparr>char_uuid = str, char_handle = latest, char_properties = p, char_value_handle = v\<rparr>])
     }
   }"

definition char_discovered_cb ::
    "discover_char \<Rightarrow> u8 \<Rightarrow> u8 list \<Rightarrow> att_env \<Rightarrow> (discover_char, gatt_char list) outcome option" where
  "char_discovered_cb dc status ipdu env =
     (if status = ATT_ECODE_ATTR_NOT_FOUND
      then Some (Report (if characteristics dc \<noteq> [] then 0 else status) (characteristics dc))
      else if status \<noteq> 0 then Some (Report status (characteristics dc))
      else do {
        list \<leftarrow> dec_read_by_type_resp ipdu;
        case list of
          None \<Rightarrow> Some (Report ATT_ECODE_IO (characteristics dc))
        | Some list \<Rightarrow> do {
            (r, cs) \<leftarrow> char_entries (dc_uuid dc) (dl_len list = 7) (alloc_ok env) 0 (dl_data list) 0 (characteristics dc);
            case r of
              Inl e \<Rightarrow> Some (Report e cs)
            | Inr latest \<Rightarrow>
                if latest < dc_start dc then Some (Report ATT_ECODE_UNLIKELY cs)
                else do {
                  let dc = dc\<lparr>characteristics := cs, dc_start := latest + 1\<rparr>;
                  if latest \<noteq> 0 \<and> dc_start dc < dc_end dc then do {
                    encoded \<leftarrow> enc_read_by_type_req (dc_start dc) (dc_end dc) (Some (bt_uuid16_create GATT_CHARAC_UUID)) (buffer env);
                    Some (send_request encoded dc)
                  } else Some (Report 0 cs)
                }
          }
      })"

definition gatt_discover_char ::
    "u16 \<Rightarrow> u16 \<Rightarrow> bt_uuid option \<Rightarrow> att_env \<Rightarrow> (discover_char, gatt_char list) outcome option" where
  "gatt_discover_char start stop uuid env = do {
     (plen, buf) \<leftarrow> enc_read_by_type_req start stop (Some (bt_uuid16_create GATT_CHARAC_UUID)) (buffer env);
     if plen = 0 \<or> \<not> alloc_ok env 0 \<or> \<not> send_ok env then Some Silent
     else Some (send_request (plen, buf) \<lparr>dc_uuid = uuid, dc_start = start, dc_end = stop, characteristics = []\<rparr>)
   }"

section \<open>Included services\<close>

record gatt_included =
  incl_uuid :: string
  incl_handle :: u16
  incl_range :: att_range

record included_discovery =
  isd_refs :: nat
  isd_err :: u8
  start_handle :: u16
  end_handle :: u16
  included :: "gatt_included list"

text \<open>A reference of the procedure is held by each request, which waits in the queue of the transport: one
  request is on the air at a time. A request that cannot be sent keeps its reference.\<close>

datatype isd_request = Find | Resolve gatt_included

type_synonym isd_state = "included_discovery \<times> (u8 list \<times> isd_request) list"

definition isd_send :: "u16 \<times> u8 list \<Rightarrow> isd_request \<Rightarrow> isd_state \<Rightarrow> isd_state" where
  "isd_send encoded r s = (case encoded of (plen, buf) \<Rightarrow> case s of (isd, q) \<Rightarrow>
     (isd\<lparr>isd_refs := isd_refs isd + 1\<rparr>, if plen = 0 then q else q @ [(take (unat plen) buf, r)]))"

definition resolve_included_uuid :: "gatt_included \<Rightarrow> att_env \<Rightarrow> isd_state \<Rightarrow> isd_state option" where
  "resolve_included_uuid incl env s = do {
     encoded \<leftarrow> enc_read_req (range_start (incl_range incl)) (buffer env);
     Some (isd_send encoded (Resolve incl) s)
   }"

definition find_included :: "u16 \<Rightarrow> att_env \<Rightarrow> isd_state \<Rightarrow> isd_state option" where
  "find_included start env s = do {
     encoded \<leftarrow> enc_read_by_type_req start (end_handle (fst s)) (Some (bt_uuid16_create GATT_INCLUDE_UUID)) (buffer env);
     Some (isd_send encoded Find s)
   }"

definition included_from_buf :: "u8 list \<Rightarrow> nat \<Rightarrow> gatt_included option" where
  "included_from_buf buf len = do {
     h \<leftarrow> rd_le16 0 buf;
     s \<leftarrow> rd_le16 2 buf;
     e \<leftarrow> rd_le16 4 buf;
     str \<leftarrow> (if len = 8 then do { u \<leftarrow> get_uuid128 True 6 buf; uuid_string u } else Some []);
     Some \<lparr>incl_uuid = str, incl_handle = h, incl_range = \<lparr>range_start = s, range_end = e\<rparr>\<rparr>
   }"

definition isd_error :: "u8 \<Rightarrow> included_discovery \<Rightarrow> included_discovery" where
  "isd_error err isd = (if isd_err isd = 0 then isd\<lparr>isd_err := err\<rparr> else isd)"

definition resolve_included_uuid_cb ::
    "gatt_included \<Rightarrow> u8 \<Rightarrow> u8 list \<Rightarrow> att_env \<Rightarrow> included_discovery \<Rightarrow> included_discovery option" where
  "resolve_included_uuid_cb incl status pdu env isd =
     (if status \<noteq> 0 then Some (isd_error status isd)
      else do {
        (n, val) \<leftarrow> dec_read_resp pdu (Some (length (buffer env)));
        if n \<noteq> 16 then Some (isd_error ATT_ECODE_IO isd)
        else do {
          val \<leftarrow> val;
          u \<leftarrow> get_uuid128 False 0 val;
          str \<leftarrow> uuid_string u;
          Some (isd_error 0 (isd\<lparr>included := included isd @ [incl\<lparr>incl_uuid := str\<rparr>]\<rparr>))
        }
      })"

text \<open>The loop of \<open>find_included_cb\<close>: the last handle.\<close>

fun included_entries :: "nat \<Rightarrow> u8 list list \<Rightarrow> u16 \<Rightarrow> att_env \<Rightarrow> isd_state \<Rightarrow> (u16 \<times> isd_state) option" where
  "included_entries len [] latest env s = Some (latest, s)"
| "included_entries len (d # ds) latest env s = do {
     incl \<leftarrow> included_from_buf d len;
     s \<leftarrow> (if len = 6 then resolve_included_uuid incl env s
          else Some (case s of (isd, q) \<Rightarrow> (isd\<lparr>included := included isd @ [incl]\<rparr>, q)));
     included_entries len ds (incl_handle incl) env s
   }"

definition find_included_cb :: "u8 \<Rightarrow> u8 list \<Rightarrow> att_env \<Rightarrow> isd_state \<Rightarrow> isd_state option" where
  "find_included_cb status pdu env s =
     (if status \<noteq> 0 then Some (apfst (isd_error (if status = ATT_ECODE_ATTR_NOT_FOUND then 0 else status)) s)
      else do {
        list \<leftarrow> dec_read_by_type_resp pdu;
        case list of
          None \<Rightarrow> Some (apfst (isd_error ATT_ECODE_IO) s)
        | Some list \<Rightarrow>
            if dl_len list \<noteq> 6 \<and> dl_len list \<noteq> 8 then Some (apfst (isd_error ATT_ECODE_IO) s)
            else do {
              (latest, s) \<leftarrow> included_entries (unat (dl_len list)) (dl_data list) (end_handle (fst s)) env s;
              if latest < start_handle (fst s) then Some (apfst (\<lambda>isd. isd\<lparr>isd_err := ATT_ECODE_UNLIKELY\<rparr>) s)
              else do {
                let s = apfst (\<lambda>isd. isd\<lparr>start_handle := latest + 1\<rparr>) s;
                s \<leftarrow> (if latest < end_handle (fst s) then find_included (start_handle (fst s)) env s else Some s);
                Some (apfst (isd_error 0) s)
              }
            }
      })"

text \<open>\<open>isd_unref\<close> after a callback: the last reference reports.\<close>

definition isd_unref :: "isd_state \<Rightarrow> (isd_state \<times> isd_request, gatt_included list) outcome" where
  "isd_unref s = (case s of (isd, q) \<Rightarrow>
     let isd = isd\<lparr>isd_refs := isd_refs isd - 1\<rparr> in
     if isd_refs isd = 0 then Report (isd_err isd) (if isd_err isd \<noteq> 0 then [] else included isd)
     else (case q of [] \<Rightarrow> Silent | (pdu, r) # q \<Rightarrow> Request pdu ((isd, q), r)))"

definition included_cb ::
    "isd_state \<times> isd_request \<Rightarrow> u8 \<Rightarrow> u8 list \<Rightarrow> att_env \<Rightarrow> (isd_state \<times> isd_request, gatt_included list) outcome option" where
  "included_cb d status pdu env = (case d of (s, r) \<Rightarrow> do {
     s \<leftarrow> (case r of
         Find \<Rightarrow> find_included_cb status pdu env s
       | Resolve incl \<Rightarrow> do { isd \<leftarrow> resolve_included_uuid_cb incl status pdu env (fst s); Some (isd, snd s) });
     Some (isd_unref s)
   })"

definition gatt_find_included ::
    "u16 \<Rightarrow> u16 \<Rightarrow> att_env \<Rightarrow> (isd_state \<times> isd_request, gatt_included list) outcome option" where
  "gatt_find_included start stop env = do {
     (isd, q) \<leftarrow> find_included start env
       (\<lparr>isd_refs = 0, isd_err = 0, start_handle = start, end_handle = stop, included = []\<rparr>, []);
     Some (case q of [] \<Rightarrow> Silent | (pdu, r) # q \<Rightarrow> if send_ok env then Request pdu ((isd, q), r) else Silent)
   }"

section \<open>Discovery of the descriptors\<close>

record gatt_desc =
  desc_uuid :: string
  desc_handle :: u16
  desc_uuid16 :: u16

record discover_desc =
  dd_uuid :: "bt_uuid option"
  dd_start :: u16
  dd_end :: u16
  descriptors :: "gatt_desc list"

definition ATT_FIND_INFO_RESP_FMT_16BIT :: u8 where "ATT_FIND_INFO_RESP_FMT_16BIT = 0x01"

text \<open>The loop of \<open>desc_discovered_cb\<close>: the last handle and whether the UUID has been found.\<close>

fun desc_entries ::
    "bt_uuid option \<Rightarrow> bool \<Rightarrow> (nat \<Rightarrow> bool) \<Rightarrow> nat \<Rightarrow> u8 list list \<Rightarrow> u16 \<Rightarrow> gatt_desc list
      \<Rightarrow> ((u8 + u16 \<times> bool) \<times> gatt_desc list) option" where
  "desc_entries uuid short ok i [] latest cs = Some (Inr (latest, False), cs)"
| "desc_entries uuid short ok i (d # ds) latest cs = do {
     latest \<leftarrow> rd_le16 0 d;
     u \<leftarrow> get_uuid128 short 2 d;
     other \<leftarrow> other_uuid uuid u;
     if other then desc_entries uuid short ok (i + 1) ds latest cs
     else if \<not> ok i then Some (Inl ATT_ECODE_INSUFF_RESOURCES, cs)
     else do {
       str \<leftarrow> uuid_string u;
       u16 \<leftarrow> (if short then rd_le16 2 d else Some 0);
       let cs = cs @ [\<lparr>desc_uuid = str, desc_handle = latest, desc_uuid16 = u16\<rparr>];
       if uuid \<noteq> None then Some (Inr (latest, True), cs)
       else desc_entries uuid short ok (i + 1) ds latest cs
     }
   }"

definition desc_discovered_cb ::
    "discover_desc \<Rightarrow> u8 \<Rightarrow> u8 list \<Rightarrow> att_env \<Rightarrow> (discover_desc, gatt_desc list) outcome option" where
  "desc_discovered_cb dd status ipdu env =
     (if status = ATT_ECODE_ATTR_NOT_FOUND
      then Some (Report (if descriptors dd \<noteq> [] then 0 else status) (descriptors dd))
      else if status \<noteq> 0 then Some (Report status (descriptors dd))
      else do {
        info \<leftarrow> dec_find_info_resp ipdu;
        case info of
          None \<Rightarrow> Some (Report ATT_ECODE_IO (descriptors dd))
        | Some (format, None) \<Rightarrow> Some (Report ATT_ECODE_IO (descriptors dd))
        | Some (format, Some list) \<Rightarrow> do {
            (r, cs) \<leftarrow> desc_entries (dd_uuid dd) (format = ATT_FIND_INFO_RESP_FMT_16BIT) (alloc_ok env) 0
              (dl_data list) 0xffff (descriptors dd);
            case r of
              Inl e \<Rightarrow> Some (Report e cs)
            | Inr (latest, uuid_found) \<Rightarrow>
                if latest < dd_start dd then Some (Report ATT_ECODE_UNLIKELY cs)
                else do {
                  let dd = dd\<lparr>descriptors := cs, dd_start := latest + 1\<rparr>;
                  if latest < dd_end dd \<and> \<not> uuid_found then do {
                    encoded \<leftarrow> enc_find_info_req (dd_start dd) (dd_end dd) (buffer env);
                    Some (send_request encoded dd)
                  } else Some (Report 0 cs)
                }
          }
      })"

definition gatt_discover_desc ::
    "u16 \<Rightarrow> u16 \<Rightarrow> bt_uuid option \<Rightarrow> att_env \<Rightarrow> (discover_desc, gatt_desc list) outcome option" where
  "gatt_discover_desc start stop uuid env = do {
     (plen, buf) \<leftarrow> enc_find_info_req start stop (buffer env);
     if plen = 0 \<or> \<not> alloc_ok env 0 \<or> \<not> send_ok env then Some Silent
     else Some (send_request (plen, buf) \<lparr>dd_uuid = uuid, dd_start = start, dd_end = stop, descriptors = []\<rparr>)
   }"

section \<open>Reading a value\<close>

record read_long_data =
  rl_handle :: u16
  rl_buffer :: "u8 list"
  rl_size :: u16

text \<open>The first answer is handled by \<open>read_char_helper\<close>, the others by \<open>read_blob_helper\<close>.\<close>

datatype read_state = Reading read_long_data | Reading_blob read_long_data

text \<open>\<open>g_try_realloc\<close> to \<open>size + rlen - 1\<close> bytes, then \<open>memcpy\<close> of \<open>rlen - 1\<close> bytes from \<open>rpdu[1]\<close> to \<open>size\<close>.\<close>

definition append_blob :: "read_long_data \<Rightarrow> u8 list \<Rightarrow> read_long_data option" where
  "append_blob rl rpdu = do {
     bs \<leftarrow> (if rpdu = [] then None else rd_bytes 1 (length rpdu - 1) rpdu);
     kept \<leftarrow> rd_bytes 0 (unat (rl_size rl)) (rl_buffer rl);
     Some (rl\<lparr>rl_buffer := kept @ bs, rl_size := rl_size rl + of_nat (length rpdu - 1)\<rparr>)
   }"

definition reported_value :: "read_long_data \<Rightarrow> u8 list" where
  "reported_value rl = take (unat (rl_size rl)) (rl_buffer rl)"

definition read_blob_helper ::
    "read_long_data \<Rightarrow> u8 \<Rightarrow> u8 list \<Rightarrow> att_env \<Rightarrow> (read_state, u8 list) outcome option" where
  "read_blob_helper rl status rpdu env =
     (if status \<noteq> 0 \<or> length rpdu = 1 then Some (Report 0 (reported_value rl))
      else if \<not> alloc_ok env 0 then Some (Report ATT_ECODE_INSUFF_RESOURCES (reported_value rl))
      else do {
        rl \<leftarrow> append_blob rl rpdu;
        if length rpdu < length (buffer env) then Some (Report status (reported_value rl))
        else do {
          encoded \<leftarrow> enc_read_blob_req (rl_handle rl) (rl_size rl - 1) (buffer env);
          if \<not> send_ok env then Some (Report ATT_ECODE_IO (reported_value rl))
          else Some (send_request encoded (Reading_blob rl))
        }
      })"

definition read_char_helper ::
    "read_long_data \<Rightarrow> u8 \<Rightarrow> u8 list \<Rightarrow> att_env \<Rightarrow> (read_state, u8 list) outcome option" where
  "read_char_helper rl status rpdu env =
     (if status \<noteq> 0 \<or> length rpdu < length (buffer env) then Some (Report status rpdu)
      else do {
        let rl = rl\<lparr>rl_buffer := rpdu, rl_size := of_nat (length rpdu)\<rparr>;
        encoded \<leftarrow> enc_read_blob_req (rl_handle rl) (of_nat (length rpdu) - 1) (buffer env);
        if \<not> send_ok env then Some (Report ATT_ECODE_IO rpdu)
        else Some (send_request encoded (Reading_blob rl))
      })"

fun read_cb :: "read_state \<Rightarrow> u8 \<Rightarrow> u8 list \<Rightarrow> att_env \<Rightarrow> (read_state, u8 list) outcome option" where
  "read_cb (Reading rl) = read_char_helper rl"
| "read_cb (Reading_blob rl) = read_blob_helper rl"

definition gatt_read_char :: "u16 \<Rightarrow> att_env \<Rightarrow> (read_state, u8 list) outcome option" where
  "gatt_read_char handle env =
     (if \<not> alloc_ok env 0 then Some Silent
      else do {
        encoded \<leftarrow> enc_read_req handle (buffer env);
        if \<not> send_ok env then Some Silent
        else Some (send_request encoded (Reading \<lparr>rl_handle = handle, rl_buffer = [], rl_size = 0\<rparr>))
      })"

section \<open>Writing a value\<close>

record write_long_data =
  wl_handle :: u16
  wl_offset :: u16
  wl_value :: "u8 list"

text \<open>The answer to the last request goes to the caller as it is.\<close>

datatype write_state = Preparing write_long_data | Final

definition ATT_WRITE_ALL_PREP_WRITES :: u8 where "ATT_WRITE_ALL_PREP_WRITES = 0x01"

definition execute_write :: "u8 \<Rightarrow> att_env \<Rightarrow> (write_state, u8 list) outcome option" where
  "execute_write flags env = do {
     encoded \<leftarrow> enc_exec_write_req flags (buffer env);
     Some (send_request encoded Final)
   }"

text \<open>Past the end of the value the pointer is out of its array, and the length wraps.\<close>

definition prepare_write :: "write_long_data \<Rightarrow> att_env \<Rightarrow> (write_state, u8 list) outcome option" where
  "prepare_write wl env =
     (if length (wl_value wl) < unat (wl_offset wl) then None
      else do {
        encoded \<leftarrow> enc_prep_write_req (wl_handle wl) (wl_offset wl) (drop (unat (wl_offset wl)) (wl_value wl)) (buffer env);
        Some (send_request encoded (Preparing wl))
      })"

definition prepare_write_cb ::
    "write_long_data \<Rightarrow> u8 \<Rightarrow> u8 list \<Rightarrow> att_env \<Rightarrow> (write_state, u8 list) outcome option" where
  "prepare_write_cb wl status rpdu env =
     (if status \<noteq> 0 then Some (Report status rpdu)
      else do {
        let wl = wl\<lparr>wl_offset := wl_offset wl + (of_nat (length rpdu) - 5)\<rparr>;
        if unat (wl_offset wl) = length (wl_value wl) then execute_write ATT_WRITE_ALL_PREP_WRITES env
        else prepare_write wl env
      })"

fun write_cb :: "write_state \<Rightarrow> u8 \<Rightarrow> u8 list \<Rightarrow> att_env \<Rightarrow> (write_state, u8 list) outcome option" where
  "write_cb (Preparing wl) = prepare_write_cb wl"
| "write_cb Final = (\<lambda>status rpdu env. Some (Report status rpdu))"

definition gatt_write_char :: "u16 \<Rightarrow> u8 list \<Rightarrow> att_env \<Rightarrow> (write_state, u8 list) outcome option" where
  "gatt_write_char handle val env =
     (if length val \<le> size_sub (length (buffer env)) 3 then do {
        (plen, buf) \<leftarrow> enc_write_req handle val (buffer env);
        if plen = 0 \<or> \<not> send_ok env then Some Silent
        else Some (send_request (plen, buf) Final)
      }
      else if \<not> alloc_ok env 0 then Some Silent
      else do {
        out \<leftarrow> prepare_write \<lparr>wl_handle = handle, wl_offset = 0, wl_value = val\<rparr> env;
        Some (if send_ok env then out else Silent)
      })"

definition gatt_execute_write :: "u8 \<Rightarrow> att_env \<Rightarrow> (write_state, u8 list) outcome option" where
  "gatt_execute_write = execute_write"

section \<open>Single requests\<close>

text \<open>The bytes that are sent, and \<open>None\<close> inside when nothing is.\<close>

definition single_request :: "enc_result \<Rightarrow> u8 list option option" where
  "single_request encoded = map_option (\<lambda>(plen, buf). if plen = 0 then None else Some (take (unat plen) buf)) encoded"

definition gatt_read_char_by_uuid :: "u16 \<Rightarrow> u16 \<Rightarrow> bt_uuid option \<Rightarrow> u8 list \<Rightarrow> u8 list option option" where
  "gatt_read_char_by_uuid start stop uuid buf = single_request (enc_read_by_type_req start stop uuid buf)"

definition gatt_reliable_write_char :: "u16 \<Rightarrow> u8 list \<Rightarrow> u8 list \<Rightarrow> u8 list option option" where
  "gatt_reliable_write_char handle val buf = single_request (enc_prep_write_req handle 0 val buf)"

definition gatt_exchange_mtu :: "u16 \<Rightarrow> u8 list \<Rightarrow> u8 list option option" where
  "gatt_exchange_mtu mtu buf = single_request (enc_mtu_req mtu buf)"

definition gatt_write_cmd :: "u16 \<Rightarrow> u8 list \<Rightarrow> u8 list \<Rightarrow> u8 list option option" where
  "gatt_write_cmd handle val buf = single_request (enc_write_cmd handle val buf)"

definition gatt_signed_write_cmd ::
    "(u8 list \<Rightarrow> u8 list option) \<Rightarrow> u16 \<Rightarrow> u8 list \<Rightarrow> u8 list \<Rightarrow> u8 list option option" where
  "gatt_signed_write_cmd sign handle val buf = single_request (enc_signed_write_cmd sign handle val buf)"

section \<open>Procedures that come to an end\<close>

text \<open>What makes a conversation end with any server: each answer that leads to another request shrinks what is
  left to explore. And what keeps it inside its arrays: a buffer that holds the requests.\<close>

lemmas converse_step = converse.simps [of _ _ _ "Some (Request _ _)"]

lemma converse_stop [simp]:
  "converse callback server s None = Some (Fault, s)"
  "converse callback server s (Some (Report status r)) = Some (Reported status r, s)"
  "converse callback server s (Some Silent) = Some (Unanswered, s)"
  by (simp_all add: converse.simps)

definition serves :: "nat \<Rightarrow> ('s \<Rightarrow> u8 list \<Rightarrow> 's \<times> (u8 \<times> u8 list \<times> att_env) option) \<Rightarrow> bool" where
  "serves n server \<longleftrightarrow> (\<forall>s pdu s' opcode rsp env. server s pdu = (s', Some (opcode, rsp, env)) \<longrightarrow> n \<le> length (buffer env))"

locale advancing =
  fixes callback :: "'d \<Rightarrow> u8 \<Rightarrow> u8 list \<Rightarrow> att_env \<Rightarrow> ('d, 'r) outcome option"
    and left :: "'d \<Rightarrow> nat"
  assumes advances: "callback d status rsp env = Some (Request pdu d') \<Longrightarrow> left d' < left d"
begin

lemma ends: "\<exists>r. converse callback server s (Some (Request pdu d)) = Some r"
proof (induction "left d" arbitrary: d pdu s rule: less_induct)
  case less
  show ?case
  proof (cases "server s pdu")
    case (Pair s' a)
    show ?thesis
    proof (cases "\<exists>opcode rsp env status full. a = Some (opcode, rsp, env)
        \<and> attrib_callback_result (copy_ok env) opcode rsp = Some (status, full)")
      case True
      then obtain opcode rsp env status full where a: "a = Some (opcode, rsp, env)"
        and full: "attrib_callback_result (copy_ok env) opcode rsp = Some (status, full)" by blast
      have "\<exists>r. converse callback server s' (callback d status full env) = Some r"
      proof (cases "callback d status full env")
        case (Some out)
        then show ?thesis
          using less [OF advances] by (cases out) auto
      qed simp
      with Pair a full show ?thesis by (simp add: converse_step)
    next
      case False
      then show ?thesis using Pair by (subst converse_step) (auto split: option.splits prod.splits)
    qed
  qed
qed

end

locale bounded_procedure = advancing +
  fixes ok :: "'a \<Rightarrow> bool" and mtu :: nat
  assumes keeps: "ok d \<Longrightarrow> callback d status rsp env = Some (Request pdu d') \<Longrightarrow> ok d'"
    and in_bounds: "ok d \<Longrightarrow> mtu \<le> length (buffer env) \<Longrightarrow> callback d status (opcode # rsp) env \<noteq> None"
begin

lemma no_fault:
  assumes "serves mtu server" and "ok d" and "converse callback server s (Some (Request pdu d)) = Some (r, t)"
  shows "r \<noteq> Fault"
  using assms(2,3)
proof (induction "left d" arbitrary: d pdu s rule: less_induct)
  case less
  show ?case
  proof (cases "server s pdu")
    case (Pair s' a)
    show ?thesis
    proof (cases "\<exists>opcode rsp env status full. a = Some (opcode, rsp, env)
        \<and> attrib_callback_result (copy_ok env) opcode rsp = Some (status, full)")
      case True
      then obtain opcode rsp env status full where a: "a = Some (opcode, rsp, env)"
        and full: "attrib_callback_result (copy_ok env) opcode rsp = Some (status, full)" by blast
      have "\<exists>o' ps. full = o' # ps" using full
        by (auto simp: attrib_callback_result_def construct_full_pdu_def bind_eq_Some_conv split: if_splits)
      moreover have "mtu \<le> length (buffer env)" using assms(1) Pair a by (simp add: serves_def)
      ultimately obtain out where out: "callback d status full env = Some out" using in_bounds [OF less.prems(1)] by blast
      have run: "converse callback server s' (Some out) = Some (r, t)"
        using less.prems(2) Pair a full out by (simp add: converse_step)
      show ?thesis
      proof (cases out)
        case (Request pdu' d')
        with out have c: "callback d status full env = Some (Request pdu' d')" by simp
        show ?thesis by (rule less.hyps [OF advances [OF c] keeps [OF less.prems(1) c]]) (use run Request in simp)
      qed (use run in auto)
    next
      case False
      then show ?thesis using less.prems(2) Pair by (subst (asm) converse_step) (auto split: option.splits prod.splits)
    qed
  qed
qed

end

section \<open>Discovery of primary services: lemmas\<close>

lemma send_filled:
  "unat n = length pdu \<Longrightarrow> length pdu \<le> length buf \<Longrightarrow> n \<noteq> 0 \<Longrightarrow> send_request (n, filled pdu buf) d = Request pdu d"
  by (simp add: send_request_def)

lemma encode_primary_all:
  "7 \<le> length buf \<Longrightarrow> encode_discover_primary start stop None buf =
    Some (7, filled (ATT_OP_READ_BY_GROUP_REQ # le16 start @ le16 stop @ le16 GATT_PRIM_SVC_UUID) buf)"
  by (simp add: encode_discover_primary_def bt_uuid16_create_def enc_read_by_grp_req_def enc_range_uuid_eq Let_def)

lemma uuid_string_128 [simp]: "length bs = 16 \<Longrightarrow> uuid_string (BT_UUID128 bs) = Some (uuid128_fields bs)"
  by (simp add: uuid_string_def bt_uuid_to_string_def snprintf_def MAX_LEN_UUID_STR_def length_uuid128_fields)

definition uuid128_of :: "bool \<Rightarrow> nat \<Rightarrow> u8 list \<Rightarrow> u8 list" where
  "uuid128_of short off val = (if short then bt_uuid128_bytes (bt_uuid16_to_uuid128 (get_le16 val off)) else rev (take 16 (drop off val)))"

lemma get_uuid128_eq:
  "get_uuid128 short off val = (if off + (if short then 2 else 16) \<le> length val then Some (BT_UUID128 (uuid128_of short off val)) else None)"
  by (auto simp: get_uuid128_def uuid128_of_def rd_le16_def rd_bytes_def bt_uuid16_create_def bt_uuid16_to_uuid128_def bt_uuid128_create_def)

lemma length_uuid128_of [simp]:
  "off + (if short then 2 else 16) \<le> length val \<Longrightarrow> length (uuid128_of short off val) = 16"
  by (auto simp: uuid128_of_def bt_uuid16_to_uuid128_def memcpy_at_def bluetooth_base_uuid_def BASE_UUID16_OFFSET_def)

lemma unat_succ16:
  assumes "x \<noteq> 0xffff"
  shows "unat (x + 1 :: u16) = unat x + 1"
proof -
  have "unat x < 65536" using unsigned_less [of x, where ?'a = nat] by simp
  moreover have "unat x \<noteq> unat (0xffff :: u16)" using assms by (metis word_unat_eq_iff)
  ultimately show ?thesis by (simp add: unat_word_ariths)
qed

lemma left_shrinks:
  assumes "start \<le> latest" "latest \<noteq> 0xffff"
  shows "65536 - unat (latest + 1 :: u16) < 65536 - unat start"
  using assms unat_succ16 [of latest] unsigned_less [of latest, where ?'a = nat] by (simp add: word_le_nat_alt)

lemma primary_entries_in_bounds:
  assumes "\<forall>d \<in> set ds. length d = (if short then 6 else 20)"
  shows "primary_entries short ok i ds stop ps \<noteq> None"
  using assms
proof (induction ds arbitrary: i stop ps)
  case (Cons d ds)
  then show ?case by (auto simp: get_uuid128_eq rd_le16_def bind_eq_None_conv split: if_splits)
qed simp

lemma get_entries_length: "get_entries ptr l n pdu = Some ds \<Longrightarrow> \<forall>d \<in> set ds. length d = l"
  by (induction n arbitrary: ptr ds) (auto simp: bind_eq_Some_conv rd_bytes_def split: if_splits)

lemma get_data_list_entries: "get_data_list n l pdu = Some (Some list) \<Longrightarrow> \<forall>d \<in> set (dl_data list). length d = unat (dl_len list)"
  by (auto simp: get_data_list_def att_data_list_alloc_def bind_eq_Some_conv dest: get_entries_length split: if_splits option.splits)

lemma list_resp_entries:
  "dec_read_by_grp_resp pdu = Some (Some list) \<Longrightarrow> \<forall>d \<in> set (dl_data list). length d = unat (dl_len list)"
  "dec_read_by_type_resp pdu = Some (Some list) \<Longrightarrow> \<forall>d \<in> set (dl_data list). length d = unat (dl_len list)"
  "dec_find_info_resp pdu = Some (Some (format, Some list)) \<Longrightarrow> \<forall>d \<in> set (dl_data list). length d = unat (dl_len list)"
  by (auto simp: dec_read_by_grp_resp_def dec_read_by_type_resp_def dec_find_info_resp_def Let_def bind_eq_Some_conv
      dest: get_data_list_entries split: if_splits)

lemma list_resp_in_bounds:
  "dec_read_by_grp_resp (opcode # rsp) \<noteq> None"
  "dec_read_by_type_resp (opcode # rsp) \<noteq> None"
  using get_data_list_in_bounds [OF _ unat_u8_le, of "opcode # rsp"]
  by (auto simp: dec_read_by_grp_resp_def dec_read_by_type_resp_def rd_8_def bind_eq_None_conv split: if_splits)

lemma dec_find_by_type_resp_in_bounds: "dec_find_by_type_resp (opcode # rsp) \<noteq> None"
  using get_ranges_in_bounds by (auto simp: dec_find_by_type_resp_def rd_8_def split: if_splits)

lemma primary_all_request:
  assumes "primary_all_cb dp status rsp env = Some (Request pdu dp')"
  obtains list stop ps where "status = 0" "dec_read_by_grp_resp rsp = Some (Some list)" "dl_len list = 6 \<or> dl_len list = 20"
    "primary_entries (dl_len list = 6) (alloc_ok env) 0 (dl_data list) 0 (primaries dp) = Some (Inr stop, ps)"
    "dp_start dp \<le> stop" "stop \<noteq> 0xffff" "dp' = dp\<lparr>primaries := ps, dp_start := stop + 1\<rparr>"
proof -
  from assms obtain l where l: "status = 0" "dec_read_by_grp_resp rsp = Some l"
    by (auto simp: primary_all_cb_def bind_eq_Some_conv split: if_splits)
  with assms obtain list where list: "l = Some list" "dl_len list = 6 \<or> dl_len list = 20"
    by (cases l) (auto simp: primary_all_cb_def split: if_splits)
  with assms l obtain r ps where r: "primary_entries (dl_len list = 6) (alloc_ok env) 0 (dl_data list) 0 (primaries dp) = Some (r, ps)"
    by (auto simp: primary_all_cb_def bind_eq_Some_conv)
  with assms l list that show thesis
    by (cases r) (auto simp: primary_all_cb_def Let_def bind_eq_Some_conv send_request_def not_less split: if_splits)
qed

lemma primary_all_in_bounds:
  assumes "7 \<le> length (buffer env)"
  shows "primary_all_cb dp status (opcode # rsp) env \<noteq> None"
proof (cases "status = 0")
  case True
  obtain l where l: "dec_read_by_grp_resp (opcode # rsp) = Some l" using list_resp_in_bounds(1) by blast
  show ?thesis
  proof (cases l)
    case (Some list)
    note len = list_resp_entries(1) [OF l [unfolded Some]]
    show ?thesis
    proof (cases "dl_len list = 6 \<or> dl_len list = 20")
      case sized: True
      then have "\<forall>d \<in> set (dl_data list). length d = (if dl_len list = 6 then 6 else 20)" using len by auto
      from primary_entries_in_bounds [OF this] obtain r ps
        where "primary_entries (dl_len list = 6) (alloc_ok env) 0 (dl_data list) 0 (primaries dp) = Some (r, ps)" by fast
      with True l Some sized assms show ?thesis
        by (cases r) (auto simp: primary_all_cb_def Let_def encode_primary_all)
    qed (use True l Some in \<open>simp add: primary_all_cb_def\<close>)
  qed (use True l in \<open>simp add: primary_all_cb_def\<close>)
qed (simp add: primary_all_cb_def)

interpretation all_primaries: bounded_procedure primary_all_cb "\<lambda>dp. 65536 - unat (dp_start dp)" "\<lambda>_. True" 7
  by unfold_locales (auto elim!: primary_all_request intro: left_shrinks simp: primary_all_in_bounds)

text \<open>The UUIDs that a request by UUID can carry.\<close>

fun sendable :: "bt_uuid option \<Rightarrow> bool" where
  "sendable (Some (BT_UUID16 _)) = True"
| "sendable (Some (BT_UUID128 bs)) = (length bs = 16)"
| "sendable _ = False"

lemma encode_primary_uuid:
  assumes "sendable uuid" "7 \<le> length buf"
  shows "encode_discover_primary start stop uuid buf \<noteq> None"
  using assms by (cases uuid rule: sendable.cases)
    (auto simp: encode_discover_primary_def Let_def bt_uuid16_create_def enc_find_by_type_req_eq)

lemma by_uuid_request:
  assumes "primary_by_uuid_cb dp status rsp env = Some (Request pdu dp')"
  obtains rs where "status = 0" "dec_find_by_type_resp rsp = Some rs" "rs \<noteq> []" "dp_start dp \<le> range_end (last rs)"
    "range_end (last rs) \<noteq> 0xffff" "dp' = dp\<lparr>ranges := ranges dp @ rs, dp_start := range_end (last rs) + 1\<rparr>"
  using assms that
  by (auto simp: primary_by_uuid_cb_def Let_def bind_eq_Some_conv send_request_def not_less split: if_splits)

lemma by_uuid_in_bounds:
  assumes "sendable (dp_uuid dp)" "7 \<le> length (buffer env)"
  shows "primary_by_uuid_cb dp status (opcode # rsp) env \<noteq> None"
proof -
  obtain rs where rs: "dec_find_by_type_resp (opcode # rsp) = Some rs" using dec_find_by_type_resp_in_bounds by blast
  obtain n buf where "encode_discover_primary (range_end (last rs) + 1) 0xffff (dp_uuid dp) (buffer env) = Some (n, buf)"
    using encode_primary_uuid [OF assms] by fast
  with rs show ?thesis by (auto simp: primary_by_uuid_cb_def Let_def)
qed

interpretation by_uuid: bounded_procedure primary_by_uuid_cb "\<lambda>dp. 65536 - unat (dp_start dp)" "\<lambda>dp. sendable (dp_uuid dp)" 7
  by unfold_locales (auto elim!: by_uuid_request intro: left_shrinks simp: by_uuid_in_bounds)

lemma desc_request:
  assumes "desc_discovered_cb dd status rsp env = Some (Request pdu dd')"
  obtains format list latest cs where "status = 0" "dec_find_info_resp rsp = Some (Some (format, Some list))"
    "desc_entries (dd_uuid dd) (format = ATT_FIND_INFO_RESP_FMT_16BIT) (alloc_ok env) 0 (dl_data list) 0xffff (descriptors dd)
       = Some (Inr (latest, False), cs)"
    "dd_start dd \<le> latest" "latest < dd_end dd" "dd' = dd\<lparr>descriptors := cs, dd_start := latest + 1\<rparr>"
proof -
  from assms obtain info where i: "status = 0" "dec_find_info_resp rsp = Some info"
    by (auto simp: desc_discovered_cb_def bind_eq_Some_conv split: if_splits)
  with assms obtain format list where l: "info = Some (format, Some list)"
    by (auto simp: desc_discovered_cb_def att_ecodes split: option.splits if_splits)
  with assms i obtain r cs where r: "desc_entries (dd_uuid dd) (format = ATT_FIND_INFO_RESP_FMT_16BIT) (alloc_ok env) 0
      (dl_data list) 0xffff (descriptors dd) = Some (r, cs)"
    by (auto simp: desc_discovered_cb_def att_ecodes bind_eq_Some_conv)
  with assms i l that show thesis
    by (cases r) (auto simp: desc_discovered_cb_def att_ecodes Let_def bind_eq_Some_conv send_request_def not_less split: if_splits)
qed

lemma less_not_max: "x < y \<Longrightarrow> x \<noteq> (0xffff :: u16)"
  using unsigned_less [of y, where ?'a = nat] by (auto simp: word_less_nat_alt)

interpretation descriptors: advancing desc_discovered_cb "\<lambda>dd. 65536 - unat (dd_start dd)"
  by unfold_locales (auto elim!: desc_request intro: left_shrinks [OF _ less_not_max])

section \<open>Discovering a table\<close>

text \<open>A server with a table answers a request for what lies from a handle on with some of the first rows
  from there, as many as it likes, or with the error that there are none.\<close>

definition plenty :: "att_env \<Rightarrow> bool" where
  "plenty env \<longleftrightarrow> (\<forall>i. alloc_ok env i) \<and> send_ok env \<and> copy_ok env \<and> 23 \<le> length (buffer env) \<and> length (buffer env) < 65536"

definition answers_from ::
    "('v list \<Rightarrow> bool) \<Rightarrow> ('v list \<Rightarrow> u8 \<times> u8 list) \<Rightarrow> 'v list \<Rightarrow> u8 \<Rightarrow> u8 list \<Rightarrow> bool" where
  "answers_from batch reply rest opcode rsp \<longleftrightarrow>
     (if rest = [] then opcode = BT_ATT_OP_ERROR_RSP \<and> 4 \<le> length rsp \<and> rsp ! 3 = ATT_ECODE_ATTR_NOT_FOUND
      else \<exists>k > 0. batch (take k rest) \<and> (opcode, rsp) = reply (take k rest))"

definition holds_table ::
    "(u16 \<Rightarrow> u8 list) \<Rightarrow> ('v \<Rightarrow> u16) \<Rightarrow> ('v list \<Rightarrow> bool) \<Rightarrow> ('v list \<Rightarrow> u8 \<times> u8 list) \<Rightarrow> 'v list
      \<Rightarrow> ('s \<Rightarrow> u8 list \<Rightarrow> 's \<times> (u8 \<times> u8 list \<times> att_env) option) \<Rightarrow> bool" where
  "holds_table request first batch reply table server \<longleftrightarrow> (\<forall>s lo. \<exists>t env opcode rsp.
     server s (request lo) = (t, Some (opcode, rsp, env)) \<and> plenty env
       \<and> answers_from batch reply (filter (\<lambda>v. lo \<le> first v) table) opcode rsp)"

text \<open>A table in the order of its handles, from \<open>lo\<close> on; no row follows one that ends at the limit.\<close>

fun table_ok :: "('v \<Rightarrow> u16) \<Rightarrow> ('v \<Rightarrow> u16) \<Rightarrow> u16 \<Rightarrow> u16 \<Rightarrow> 'v list \<Rightarrow> bool" where
  "table_ok first final limit lo [] = True"
| "table_ok first final limit lo (v # vs) \<longleftrightarrow> lo \<le> first v \<and> first v \<le> final v
     \<and> (vs = [] \<or> final v < limit \<and> table_ok first final limit (final v + 1) vs)"

lemma less_succ16: "x < y \<Longrightarrow> x < (x + 1 :: u16)" "x < y \<Longrightarrow> x + 1 \<le> (y :: u16)"
  using unat_succ16 [OF less_not_max [of x y]] by (simp_all add: word_less_nat_alt word_le_nat_alt)

lemma table_ok_from: "table_ok first final limit lo vs \<Longrightarrow> v \<in> set vs \<Longrightarrow> lo \<le> first v"
proof (induction vs arbitrary: lo)
  case (Cons w vs)
  then have w: "lo \<le> final w" by auto
  show ?case
  proof (cases "v = w")
    case False
    then have "final w + 1 \<le> first v" "final w < limit" using Cons by auto
    with w less_succ16(1) [of "final w" limit] show ?thesis by (meson less_imp_le order_trans)
  qed (use Cons in simp)
qed simp

lemma table_ok_split:
  assumes "table_ok first final limit lo (vs @ ws)" "vs \<noteq> []"
  shows "lo \<le> final (last vs)" and "\<forall>v \<in> set vs. first v \<le> final (last vs)"
    and "ws \<noteq> [] \<Longrightarrow> final (last vs) < limit \<and> table_ok first final limit (final (last vs) + 1) ws"
  using assms
proof (induction vs arbitrary: lo)
  case (Cons v vs)
  {
    case 1
    show ?case
    proof (cases "vs = []")
      case False
      then have "final v + 1 \<le> final (last vs)" "final v < limit" "lo \<le> final v" using Cons.IH(1) 1 by auto
      with False less_succ16(1) [of "final v" limit] show ?thesis by (metis last_ConsR less_imp_le order_trans)
    qed (use 1 in auto)
  next
    case 2
    show ?case
    proof (cases "vs = []")
      case False
      then have "final v + 1 \<le> final (last vs)" "final v < limit" "first v \<le> final v" "\<forall>w \<in> set vs. first w \<le> final (last vs)"
        using Cons.IH(1,2) 2 by auto
      moreover from this have "first v \<le> final (last vs)"
        using less_succ16(1) [of "final v" limit] by (meson less_imp_le order_trans)
      ultimately show ?thesis using False by simp
    qed (use 2 in auto)
  next
    case 3
    then show ?case using Cons.IH(3) by (cases "vs = []") auto
  }
qed simp_all

locale table_discovery =
  fixes callback :: "'d \<Rightarrow> u8 \<Rightarrow> u8 list \<Rightarrow> att_env \<Rightarrow> ('d, 'x list) outcome option"
    and request :: "u16 \<Rightarrow> u8 list" and state :: "u16 \<Rightarrow> 'x list \<Rightarrow> 'd"
    and first final :: "'v \<Rightarrow> u16" and limit :: u16
    and batch :: "'v list \<Rightarrow> bool" and reply :: "'v list \<Rightarrow> u8 \<times> u8 list"
    and row :: "'v \<Rightarrow> 'x" and none_found :: "'x list \<Rightarrow> u8"
  assumes opcode: "fst (reply vs) \<noteq> BT_ATT_OP_ERROR_RSP"
    and not_found: "callback (state lo xs) ATT_ECODE_ATTR_NOT_FOUND rsp env = Some (Report (none_found xs) xs)"
    and found: "vs \<noteq> [] \<Longrightarrow> batch vs \<Longrightarrow> plenty env \<Longrightarrow> lo \<le> final (last vs) \<Longrightarrow>
      callback (state lo xs) 0 (fst (reply vs) # snd (reply vs)) env = Some (
        if final (last vs) < limit
        then Request (request (final (last vs) + 1)) (state (final (last vs) + 1) (xs @ map row vs))
        else Report 0 (xs @ map row vs))"
    and some_found: "xs \<noteq> [] \<Longrightarrow> none_found xs = 0"
begin

lemma discovers_from:
  assumes "holds_table request first batch reply table server" and "table = before @ vs"
    and "\<forall>v \<in> set before. first v < lo" and "table_ok first final limit lo vs"
  shows "\<exists>t. converse callback server s (Some (Request (request lo) (state lo xs))) =
    Some (Reported (if xs @ map row vs = [] then none_found [] else 0) (xs @ map row vs), t)"
  using assms(2-)
proof (induction "length vs" arbitrary: before lo vs xs s rule: less_induct)
  case less
  have rest: "filter (\<lambda>v. lo \<le> first v) table = vs"
    using less.prems table_ok_from [OF less.prems(3)] by (force simp: filter_empty_conv)
  obtain t env opcode rsp where srv: "server s (request lo) = (t, Some (opcode, rsp, env))" "plenty env"
    "answers_from batch reply vs opcode rsp"
    using assms(1) unfolding holds_table_def rest [symmetric] by blast
  have copy: "copy_ok env" using srv(2) by (simp add: plenty_def)
  show ?case
  proof (cases "vs = []")
    case True
    then have "attrib_callback_result (copy_ok env) opcode rsp = Some (ATT_ECODE_ATTR_NOT_FOUND, opcode # rsp)"
      using srv(3) copy by (auto simp: answers_from_def attrib_callback_result_def construct_full_pdu_def)
    with srv(1) True some_found show ?thesis by (simp add: converse_step not_found)
  next
    case False
    then obtain k where k: "0 < k" "batch (take k vs)" "(opcode, rsp) = reply (take k vs)"
      using srv(3) by (auto simp: answers_from_def)
    let ?c = "take k vs" and ?w = "drop k vs"
    have c: "?c \<noteq> []" using k(1) False by simp
    have "opcode \<noteq> BT_ATT_OP_ERROR_RSP" using opcode [of ?c] k(3) by (metis fst_conv)
    then have st: "attrib_callback_result (copy_ok env) opcode rsp = Some (0, fst (reply ?c) # snd (reply ?c))"
      using copy by (simp add: attrib_callback_result_def construct_full_pdu_def flip: k(3))
    have ok: "table_ok first final limit lo (?c @ ?w)" using less.prems(3) by simp
    note sp = table_ok_split [OF ok c]
    note cb = found [OF c k(2) srv(2) sp(1), of xs]
    show ?thesis
    proof (cases "final (last ?c) < limit")
      case True
      let ?lo = "final (last ?c) + 1"
      have "\<exists>t'. converse callback server t (Some (Request (request ?lo) (state ?lo (xs @ map row ?c)))) =
        Some (Reported (if (xs @ map row ?c) @ map row ?w = [] then none_found [] else 0) ((xs @ map row ?c) @ map row ?w), t')"
      proof (rule less.hyps)
        show "length ?w < length vs" using k(1) False by simp
        show "table = (before @ ?c) @ ?w" using less.prems(1) by simp
        have "lo < ?lo" using sp(1) less_succ16(1) [OF True] by (rule le_less_trans)
        moreover have "first v < ?lo" if "v \<in> set ?c" for v
          using sp(2) that less_succ16(1) [OF True] le_less_trans by blast
        ultimately show "\<forall>v \<in> set (before @ ?c). first v < ?lo" using less.prems(2) by (auto intro: less_trans)
        show "table_ok first final limit ?lo ?w" using sp(3) by (cases "?w = []") auto
      qed
      moreover have "map row ?c @ map row ?w = map row vs" by (simp flip: map_append)
      ultimately show ?thesis using srv(1) st cb True by (simp add: converse_step)
    next
      case False
      then have "?w = []" using sp(3) by blast
      then have "?c = vs" by simp
      with False srv(1) st cb \<open>vs \<noteq> []\<close> show ?thesis by (simp add: converse_step)
    qed
  qed
qed

lemma discovers:
  assumes "holds_table request first batch reply table server" and "table_ok first final limit lo table"
  shows "\<exists>t. converse callback server s (Some (Request (request lo) (state lo []))) =
    Some (Reported (if table = [] then none_found [] else 0) (map row table), t)"
  using discovers_from [OF assms(1) _ _ assms(2), of "[]" s "[]"] by simp

end

section \<open>Tables of attributes\<close>

text \<open>UUIDs in the answers: of 16 or of 128 bits, all of one kind in one answer.\<close>

fun uuid_kind :: "bool \<Rightarrow> bt_uuid \<Rightarrow> bool" where
  "uuid_kind short (BT_UUID16 _) = short"
| "uuid_kind short (BT_UUID128 bs) = (\<not> short \<and> length bs = 16)"
| "uuid_kind short _ = False"

definition is_short :: "bt_uuid \<Rightarrow> bool" where
  "is_short u \<longleftrightarrow> (case u of BT_UUID16 _ \<Rightarrow> True | _ \<Rightarrow> False)"

definition uuid_bytes :: "bt_uuid \<Rightarrow> u8 list" where
  "uuid_bytes u = the (prim_put_uuid_le u)"

definition uuid_name :: "bt_uuid \<Rightarrow> string" where
  "uuid_name u = the (uuid_string (the (bt_uuid_to_uuid128 u None)))"

definition one_kind :: "('v \<Rightarrow> bt_uuid) \<Rightarrow> 'v list \<Rightarrow> bool" where
  "one_kind uuid vs \<longleftrightarrow> (\<forall>v \<in> set vs. uuid_kind (is_short (uuid (hd vs))) (uuid v)) \<and> length vs < 3000"

lemma uuid_kind_length: "uuid_kind short u \<Longrightarrow> length (uuid_bytes u) = (if short then 2 else 16)"
  by (cases "(short, u)" rule: uuid_kind.cases) (auto simp: uuid_bytes_def)

lemma length_uuid16_to_uuid128: "bt_uuid16_to_uuid128 v = BT_UUID128 (uuid128_of True 0 (le16 v))" "length (uuid128_of True 0 (le16 v)) = 16"
  using get_le16_le16 [of v "[]"]
  by (simp_all add: uuid128_of_def bt_uuid16_to_uuid128_def memcpy_at_def bluetooth_base_uuid_def BASE_UUID16_OFFSET_def)

lemma get_uuid128_bytes:
  assumes "uuid_kind short u" "off = length pre"
  shows "\<exists>u'. get_uuid128 short off (pre @ uuid_bytes u) = Some u' \<and> uuid_string u' = Some (uuid_name u)"
proof (cases u)
  case (BT_UUID16 v)
  then have short using assms by simp
  with BT_UUID16 assms(2) rd_le16_append [of off pre v "[]"] show ?thesis
    by (simp add: get_uuid128_def uuid_bytes_def bt_uuid16_create_def uuid_name_def length_uuid16_to_uuid128)
next
  case (BT_UUID128 bs)
  then have "\<not> short" "length bs = 16" using assms by auto
  with BT_UUID128 assms(2) rd_bytes_append [of off pre 16 "rev bs" "[]"] show ?thesis
    by (simp add: get_uuid128_def uuid_bytes_def bt_uuid128_create_def uuid_name_def)
qed (use assms in simp_all)

lemma hd_one_kind: "vs \<noteq> [] \<Longrightarrow> one_kind uuid vs \<Longrightarrow> \<forall>v \<in> set vs. uuid_kind (is_short (uuid (hd vs))) (uuid v)"
  by (simp add: one_kind_def)

lemma concat_received:
  assumes "\<forall>d \<in> set ds. length d = l" "3 \<le> l" "l \<le> 255" "length ds < 3000" "ds \<noteq> []"
  shows "5 \<le> l \<Longrightarrow> dec_read_by_grp_resp (ATT_OP_READ_BY_GROUP_RESP # of_nat l # concat ds) = Some (Some \<lparr>dl_len = of_nat l, dl_data = ds\<rparr>)"
    and "dec_read_by_type_resp (ATT_OP_READ_BY_TYPE_RESP # of_nat l # concat ds) = Some (Some \<lparr>dl_len = of_nat l, dl_data = ds\<rparr>)"
    and "format = 1 \<and> l = 4 \<or> format = 2 \<and> l = 18 \<Longrightarrow>
      dec_find_info_resp (ATT_OP_FIND_INFO_RESP # format # concat ds) = Some (Some (format, Some \<lparr>dl_len = of_nat l, dl_data = ds\<rparr>))"
proof -
  have u: "unat (of_nat l :: u8) = l" using assms(3) by (simp add: unat_len)
  have pos: "0 < l" "length ds < 65536" using assms(2,4) by simp_all
  have n: "length (concat ds) = l * length ds" by (rule length_concat_entries [OF assms(1)])
  have "l \<le> length (concat ds)" unfolding n using assms(5) by (cases ds) auto
  note r = this data_list_received [OF assms(1) pos(1) assms(3) pos(2)]
  show "dec_read_by_grp_resp (ATT_OP_READ_BY_GROUP_RESP # of_nat l # concat ds) = Some (Some \<lparr>dl_len = of_nat l, dl_data = ds\<rparr>)"
    if "5 \<le> l"
    using that r(1) r(2,3) [of ATT_OP_READ_BY_GROUP_RESP "of_nat l"] u by (simp add: dec_read_by_grp_resp_def word_less_nat_alt)
  show "dec_read_by_type_resp (ATT_OP_READ_BY_TYPE_RESP # of_nat l # concat ds) = Some (Some \<lparr>dl_len = of_nat l, dl_data = ds\<rparr>)"
    using assms(2) r(1) r(2,3) [of ATT_OP_READ_BY_TYPE_RESP "of_nat l"] u by (simp add: dec_read_by_type_resp_def word_less_nat_alt)
  show "dec_find_info_resp (ATT_OP_FIND_INFO_RESP # format # concat ds) = Some (Some (format, Some \<lparr>dl_len = of_nat l, dl_data = ds\<rparr>))"
    if "format = 1 \<and> l = 4 \<or> format = 2 \<and> l = 18"
    using that r(3) [of ATT_OP_FIND_INFO_RESP format] by (auto simp: dec_find_info_resp_def)
qed

lemma less_max16: "x < 0xffff \<longleftrightarrow> x \<noteq> (0xffff :: u16)"
proof
  show "x < 0xffff" if "x \<noteq> 0xffff"
  proof -
    have "unat x \<noteq> unat (0xffff :: u16)" using that by (metis word_unat_eq_iff)
    with unsigned_less [of x, where ?'a = nat] show ?thesis by (simp add: word_less_nat_alt)
  qed
qed auto

subsection \<open>Primary services\<close>

definition service_entry :: "att_range \<times> bt_uuid \<Rightarrow> u8 list" where
  "service_entry v = range_bytes (fst v) @ uuid_bytes (snd v)"

definition service_row :: "att_range \<times> bt_uuid \<Rightarrow> gatt_primary" where
  "service_row v = \<lparr>prim_uuid = uuid_name (snd v), prim_range = fst v\<rparr>"

definition services_request :: "u16 \<Rightarrow> u8 list" where
  "services_request lo = ATT_OP_READ_BY_GROUP_REQ # le16 lo @ le16 0xffff @ le16 GATT_PRIM_SVC_UUID"

definition services_reply :: "(att_range \<times> bt_uuid) list \<Rightarrow> u8 \<times> u8 list" where
  "services_reply vs = (ATT_OP_READ_BY_GROUP_RESP, (if is_short (snd (hd vs)) then 6 else 20) # concat (map service_entry vs))"

lemma service_entry_read:
  assumes "uuid_kind short (snd v)"
  shows "length (service_entry v) = (if short then 6 else 20)"
    "rd_le16 0 (service_entry v) = Some (range_start (fst v))" "rd_le16 2 (service_entry v) = Some (range_end (fst v))"
    "\<exists>u. get_uuid128 short 4 (service_entry v) = Some u \<and> uuid_string u = Some (uuid_name (snd v))"
  using uuid_kind_length [OF assms] get_uuid128_bytes [OF assms, of 4 "range_bytes (fst v)"]
    rd_le16_append [of 0 "[]" "range_start (fst v)" "le16 (range_end (fst v)) @ uuid_bytes (snd v)"]
    rd_le16_append [of 2 "le16 (range_start (fst v))" "range_end (fst v)" "uuid_bytes (snd v)"]
  by (simp_all add: service_entry_def range_bytes_def)

lemma primary_entries_table:
  assumes "\<forall>v \<in> set vs. uuid_kind short (snd v)" "\<forall>i. ok i"
  shows "primary_entries short ok i (map service_entry vs) stop ps =
    Some (Inr (if vs = [] then stop else range_end (fst (last vs))), ps @ map service_row vs)"
  using assms(1)
proof (induction vs arbitrary: i stop ps)
  case (Cons v vs)
  have k: "uuid_kind short (snd v)" using Cons.prems by simp
  obtain u where u: "get_uuid128 short 4 (service_entry v) = Some u" "uuid_string u = Some (uuid_name (snd v))"
    using service_entry_read(4) [OF k] by blast
  have "\<lparr>range_start = range_start (fst v), range_end = range_end (fst v)\<rparr> = fst v" by simp
  with Cons u service_entry_read(2,3) [OF k] assms(2) show ?case by (simp add: service_row_def)
qed simp

interpretation services: table_discovery primary_all_cb services_request
    "\<lambda>lo xs. \<lparr>dp_uuid = None, dp_start = lo, primaries = xs, ranges = []\<rparr>"
    "\<lambda>v. range_start (fst v)" "\<lambda>v. range_end (fst v)" "0xffff" "one_kind snd" services_reply service_row "\<lambda>_. 0"
proof (unfold_locales, goal_cases)
  case (1 vs)
  then show ?case by (simp add: services_reply_def att_ops BT_ATT_OP_ERROR_RSP_def)
next
  case (2 lo xs rsp env)
  then show ?case by (simp add: primary_all_cb_def att_ecodes)
next
  case (3 vs env lo xs)
  let ?s = "is_short (snd (hd vs))"
  have k: "\<forall>v \<in> set vs. uuid_kind ?s (snd v)" "length vs < 3000" using 3 by (simp_all add: one_kind_def)
  have len: "\<forall>d \<in> set (map service_entry vs). length d = (if ?s then 6 else 20)" using service_entry_read(1) k(1) by auto
  have d: "dec_read_by_grp_resp (fst (services_reply vs) # snd (services_reply vs)) =
      Some (Some \<lparr>dl_len = if ?s then 6 else 20, dl_data = map service_entry vs\<rparr>)"
    using concat_received(1) [OF len] k(2) 3(1) by (auto simp: services_reply_def)
  have b: "7 \<le> length (buffer env)" "\<forall>i. alloc_ok env i" using 3(3) by (auto simp: plenty_def)
  have "primary_entries ?s (alloc_ok env) 0 (map service_entry vs) 0 xs =
      Some (Inr (range_end (fst (last vs))), xs @ map service_row vs)"
    using primary_entries_table [OF k(1) b(2), of 0 0 xs] 3(1) by simp
  with d 3(4) b(1) show ?case
    by (cases ?s) (auto simp: primary_all_cb_def Let_def encode_primary_all send_filled services_request_def less_max16)
qed simp

definition ranges_request :: "bt_uuid \<Rightarrow> u16 \<Rightarrow> u8 list" where
  "ranges_request u lo = ATT_OP_FIND_BY_TYPE_REQ # le16 lo @ le16 0xffff @ le16 GATT_PRIM_SVC_UUID @ uuid_bytes u"

definition ranges_reply :: "att_range list \<Rightarrow> u8 \<times> u8 list" where
  "ranges_reply rs = (ATT_OP_FIND_BY_TYPE_RESP, concat (map range_bytes rs))"

lemma sendable_bytes:
  assumes "sendable (Some u)"
  shows "prim_put_uuid_le u = Some (uuid_bytes u)" "length (uuid_bytes u) \<le> 16"
  using assms by (cases "Some u" rule: sendable.cases; auto simp: uuid_bytes_def)+

lemma encode_ranges_request:
  assumes "sendable (Some u)" "23 \<le> length buf"
  obtains n where "encode_discover_primary lo 0xffff (Some u) buf = Some (n, filled (ranges_request u lo) buf)"
    "n \<noteq> 0" "unat n = length (ranges_request u lo)" "length (ranges_request u lo) \<le> length buf"
proof -
  let ?n = "of_nat (7 + length (uuid_bytes u)) :: u16"
  note b = sendable_bytes [OF assms(1)]
  have n: "unat ?n = 7 + length (uuid_bytes u)" using b(2) by (intro unat_small) simp
  then have "?n \<noteq> 0" by (metis unat_0 add_is_0 zero_neq_numeral)
  moreover have "encode_discover_primary lo 0xffff (Some u) buf = Some (?n, filled (ranges_request u lo) buf)"
    using b assms(2) by (simp add: encode_discover_primary_def Let_def bt_uuid16_create_def enc_find_by_type_req_eq ranges_request_def)
  moreover have "length (ranges_request u lo) = 7 + length (uuid_bytes u)" by (simp add: ranges_request_def)
  ultimately show thesis by (intro that [of ?n]) (use n assms(2) b(2) in \<open>simp_all only:, simp\<close>)
qed

lemma ranges_received:
  assumes "rs \<noteq> []"
  shows "dec_find_by_type_resp (ATT_OP_FIND_BY_TYPE_RESP # concat (map range_bytes rs)) = Some rs"
proof -
  have "5 \<le> length (ATT_OP_FIND_BY_TYPE_RESP # concat (map range_bytes rs))" using assms by (cases rs) auto
  then show ?thesis
    using get_ranges_concat [of "[ATT_OP_FIND_BY_TYPE_RESP]" rs] length_concat_ranges [of rs]
    by (simp add: dec_find_by_type_resp_def)
qed

interpretation service_ranges: table_discovery primary_by_uuid_cb "ranges_request u"
    "\<lambda>lo xs. \<lparr>dp_uuid = Some u, dp_start = lo, primaries = [], ranges = xs\<rparr>"
    range_start range_end "0xffff" "\<lambda>_. sendable (Some u)" ranges_reply "\<lambda>r. r" "\<lambda>_. 0" for u
proof (unfold_locales, goal_cases)
  case (1 vs)
  then show ?case by (simp add: ranges_reply_def att_ops BT_ATT_OP_ERROR_RSP_def)
next
  case (2 lo xs rsp env)
  then show ?case by (simp add: primary_by_uuid_cb_def att_ecodes)
next
  case (3 vs env lo xs)
  let ?lo = "range_end (last vs) + 1"
  have "23 \<le> length (buffer env)" using 3(3) by (auto simp: plenty_def)
  then obtain n where "encode_discover_primary ?lo 0xffff (Some u) (buffer env) = Some (n, filled (ranges_request u ?lo) (buffer env))"
    "n \<noteq> 0" "unat n = length (ranges_request u ?lo)" "length (ranges_request u ?lo) \<le> length (buffer env)"
    using encode_ranges_request [OF 3(2)] by blast
  with ranges_received [OF 3(1)] 3(1,4) show ?case
    by (auto simp: primary_by_uuid_cb_def Let_def ranges_reply_def less_max16 send_filled)
qed simp

subsection \<open>Characteristics\<close>

record att_char =
  decl_handle :: u16
  decl_properties :: u8
  decl_value :: u16
  decl_uuid :: bt_uuid

definition char_entry :: "att_char \<Rightarrow> u8 list" where
  "char_entry c = le16 (decl_handle c) @ [decl_properties c] @ le16 (decl_value c) @ uuid_bytes (decl_uuid c)"

definition char_row :: "att_char \<Rightarrow> gatt_char" where
  "char_row c = \<lparr>char_uuid = uuid_name (decl_uuid c), char_handle = decl_handle c,
     char_properties = decl_properties c, char_value_handle = decl_value c\<rparr>"

definition chars_request :: "u16 \<Rightarrow> u16 \<Rightarrow> u8 list" where
  "chars_request stop lo = ATT_OP_READ_BY_TYPE_REQ # le16 lo @ le16 stop @ le16 GATT_CHARAC_UUID"

definition chars_reply :: "att_char list \<Rightarrow> u8 \<times> u8 list" where
  "chars_reply cs = (ATT_OP_READ_BY_TYPE_RESP, (if is_short (decl_uuid (hd cs)) then 7 else 21) # concat (map char_entry cs))"

text \<open>A declaration that is not the last attribute of all.\<close>

definition chars_batch :: "att_char list \<Rightarrow> bool" where
  "chars_batch cs \<longleftrightarrow> one_kind decl_uuid cs \<and> (\<forall>c \<in> set cs. decl_handle c \<noteq> 0 \<and> decl_handle c \<noteq> 0xffff)"

lemma char_entry_read:
  assumes "uuid_kind short (decl_uuid c)"
  shows "length (char_entry c) = (if short then 7 else 21)"
    "rd_le16 0 (char_entry c) = Some (decl_handle c)" "rd_8 2 (char_entry c) = Some (decl_properties c)"
    "rd_le16 3 (char_entry c) = Some (decl_value c)"
    "\<exists>u. get_uuid128 short 5 (char_entry c) = Some u \<and> uuid_string u = Some (uuid_name (decl_uuid c))"
  using uuid_kind_length [OF assms] get_uuid128_bytes [OF assms, of 5 "le16 (decl_handle c) @ [decl_properties c] @ le16 (decl_value c)"]
    rd_le16_append [of 0 "[]" "decl_handle c" "[decl_properties c] @ le16 (decl_value c) @ uuid_bytes (decl_uuid c)"]
    rd_le16_append [of 3 "le16 (decl_handle c) @ [decl_properties c]" "decl_value c" "uuid_bytes (decl_uuid c)"]
  by (simp_all add: char_entry_def rd_8_def nth_append)

lemma char_entries_table:
  assumes "\<forall>c \<in> set cs. uuid_kind short (decl_uuid c)" "\<forall>i. ok i"
  shows "char_entries None short ok i (map char_entry cs) latest xs =
    Some (Inr (if cs = [] then latest else decl_handle (last cs)), xs @ map char_row cs)"
  using assms(1)
proof (induction cs arbitrary: i latest xs)
  case (Cons c cs)
  have k: "uuid_kind short (decl_uuid c)" using Cons.prems by simp
  obtain u where "get_uuid128 short 5 (char_entry c) = Some u" "uuid_string u = Some (uuid_name (decl_uuid c))"
    using char_entry_read(5) [OF k] by blast
  with Cons char_entry_read(2-4) [OF k] assms(2) show ?case by (simp add: char_row_def other_uuid_def)
qed simp

lemma encode_chars_request:
  "7 \<le> length buf \<Longrightarrow> enc_read_by_type_req lo stop (Some (bt_uuid16_create GATT_CHARAC_UUID)) buf = Some (7, filled (chars_request stop lo) buf)"
  "length (chars_request stop lo) = 7"
  by (simp_all add: enc_read_by_type_req_def bt_uuid16_create_def enc_range_uuid_eq chars_request_def)

lemma unat_minus_one16: "x \<noteq> 0 \<Longrightarrow> unat (x - 1 :: u16) = unat x - 1"
  by (simp add: unat_minus_one)

lemma succ_less16: "x \<noteq> 0xffff \<Longrightarrow> x + 1 < (stop :: u16) \<longleftrightarrow> x < (if stop = 0 then 0 else stop - 1)"
  using unat_succ16 [of x] unat_minus_one16 [of stop] by (auto simp: word_less_nat_alt)

interpretation chars: table_discovery char_discovered_cb "chars_request stop"
    "\<lambda>lo xs. \<lparr>dc_uuid = None, dc_start = lo, dc_end = stop, characteristics = xs\<rparr>"
    decl_handle decl_handle "if stop = 0 then 0 else stop - 1" chars_batch chars_reply char_row
    "\<lambda>xs. if xs = [] then ATT_ECODE_ATTR_NOT_FOUND else 0" for stop
proof (unfold_locales, goal_cases)
  case (1 cs)
  then show ?case by (simp add: chars_reply_def att_ops BT_ATT_OP_ERROR_RSP_def)
next
  case (2 lo xs rsp env)
  then show ?case by (simp add: char_discovered_cb_def)
next
  case (3 cs env lo xs)
  let ?s = "is_short (decl_uuid (hd cs))"
  have k: "\<forall>c \<in> set cs. uuid_kind ?s (decl_uuid c)" "length cs < 3000" using 3 by (simp_all add: chars_batch_def one_kind_def)
  have len: "\<forall>d \<in> set (map char_entry cs). length d = (if ?s then 7 else 21)" using char_entry_read(1) k(1) by auto
  have d: "dec_read_by_type_resp (fst (chars_reply cs) # snd (chars_reply cs)) =
      Some (Some \<lparr>dl_len = if ?s then 7 else 21, dl_data = map char_entry cs\<rparr>)"
    using concat_received(2) [OF len] k(2) 3(1) by (auto simp: chars_reply_def)
  have b: "7 \<le> length (buffer env)" "\<forall>i. alloc_ok env i" using 3(3) by (auto simp: plenty_def)
  have "char_entries None ?s (alloc_ok env) 0 (map char_entry cs) 0 xs = Some (Inr (decl_handle (last cs)), xs @ map char_row cs)"
    using char_entries_table [OF k(1) b(2), of 0 0 xs] 3(1) by simp
  moreover have "decl_handle (last cs) \<noteq> 0" "decl_handle (last cs) \<noteq> 0xffff" using 3(1,2) by (auto simp: chars_batch_def)
  ultimately show ?case using d 3(4) b(1) succ_less16 [of "decl_handle (last cs)" stop]
    by (cases ?s) (auto simp: char_discovered_cb_def ATT_ECODE_ATTR_NOT_FOUND_def Let_def encode_chars_request send_filled)
qed simp

subsection \<open>Descriptors\<close>

definition desc_entry :: "u16 \<times> bt_uuid \<Rightarrow> u8 list" where
  "desc_entry v = le16 (fst v) @ uuid_bytes (snd v)"

definition desc_row :: "u16 \<times> bt_uuid \<Rightarrow> gatt_desc" where
  "desc_row v = \<lparr>desc_uuid = uuid_name (snd v), desc_handle = fst v,
     desc_uuid16 = (case snd v of BT_UUID16 w \<Rightarrow> w | _ \<Rightarrow> 0)\<rparr>"

definition descs_request :: "u16 \<Rightarrow> u16 \<Rightarrow> u8 list" where
  "descs_request stop lo = ATT_OP_FIND_INFO_REQ # le16 lo @ le16 stop"

definition descs_reply :: "(u16 \<times> bt_uuid) list \<Rightarrow> u8 \<times> u8 list" where
  "descs_reply vs = (ATT_OP_FIND_INFO_RESP, (if is_short (snd (hd vs)) then 1 else 2) # concat (map desc_entry vs))"

lemma desc_entry_read:
  assumes "uuid_kind short (snd v)"
  shows "length (desc_entry v) = (if short then 4 else 18)"
    "rd_le16 0 (desc_entry v) = Some (fst v)"
    "\<exists>u. get_uuid128 short 2 (desc_entry v) = Some u \<and> uuid_string u = Some (uuid_name (snd v))"
    "short \<Longrightarrow> rd_le16 2 (desc_entry v) = Some (desc_uuid16 (desc_row v))"
    "\<not> short \<Longrightarrow> desc_uuid16 (desc_row v) = 0"
  using uuid_kind_length [OF assms] get_uuid128_bytes [OF assms, of 2 "le16 (fst v)"]
    rd_le16_append [of 0 "[]" "fst v" "uuid_bytes (snd v)"] assms
    rd_le16_append [of 2 "le16 (fst v)" "desc_uuid16 (desc_row v)" "[]"]
  by (cases "snd v"; simp add: desc_entry_def desc_row_def uuid_bytes_def)+

lemma desc_entries_table:
  assumes "\<forall>v \<in> set vs. uuid_kind short (snd v)" "\<forall>i. ok i"
  shows "desc_entries None short ok i (map desc_entry vs) latest xs =
    Some (Inr (if vs = [] then latest else fst (last vs), False), xs @ map desc_row vs)"
  using assms(1)
proof (induction vs arbitrary: i latest xs)
  case (Cons v vs)
  have k: "uuid_kind short (snd v)" using Cons.prems by simp
  obtain u where u: "get_uuid128 short 2 (desc_entry v) = Some u" "uuid_string u = Some (uuid_name (snd v))"
    using desc_entry_read(3) [OF k] by blast
  have "(if short then rd_le16 2 (desc_entry v) else Some 0) = Some (desc_uuid16 (desc_row v))"
    using desc_entry_read(4,5) [OF k] by simp
  moreover have "\<lparr>desc_uuid = uuid_name (snd v), desc_handle = fst v, desc_uuid16 = desc_uuid16 (desc_row v)\<rparr> = desc_row v"
    by (simp add: desc_row_def)
  ultimately show ?case using Cons u desc_entry_read(2) [OF k] assms(2) by (simp add: other_uuid_def Let_def)
qed simp

lemma encode_descs_request:
  "5 \<le> length buf \<Longrightarrow> enc_find_info_req lo stop buf = Some (5, filled (descs_request stop lo) buf)"
  "length (descs_request stop lo) = 5"
  by (simp_all add: enc_find_info_req_def enc_two_u16_eq descs_request_def)

interpretation descs: table_discovery desc_discovered_cb "descs_request stop"
    "\<lambda>lo xs. \<lparr>dd_uuid = None, dd_start = lo, dd_end = stop, descriptors = xs\<rparr>"
    fst fst stop "one_kind snd" descs_reply desc_row "\<lambda>xs. if xs = [] then ATT_ECODE_ATTR_NOT_FOUND else 0" for stop
proof (unfold_locales, goal_cases)
  case (1 vs)
  then show ?case by (simp add: descs_reply_def att_ops BT_ATT_OP_ERROR_RSP_def)
next
  case (2 lo xs rsp env)
  then show ?case by (simp add: desc_discovered_cb_def)
next
  case (3 vs env lo xs)
  let ?s = "is_short (snd (hd vs))"
  have k: "\<forall>v \<in> set vs. uuid_kind ?s (snd v)" "length vs < 3000" using 3 by (simp_all add: one_kind_def)
  have len: "\<forall>d \<in> set (map desc_entry vs). length d = (if ?s then 4 else 18)" using desc_entry_read(1) k(1) by auto
  have d: "dec_find_info_resp (fst (descs_reply vs) # snd (descs_reply vs)) =
      Some (Some (if ?s then 1 else 2, Some \<lparr>dl_len = if ?s then 4 else 18, dl_data = map desc_entry vs\<rparr>))"
    using concat_received(3) [OF len, of "if ?s then 1 else 2"] k(2) 3(1) by (auto simp: descs_reply_def)
  have b: "5 \<le> length (buffer env)" "\<forall>i. alloc_ok env i" using 3(3) by (auto simp: plenty_def)
  have "desc_entries None ?s (alloc_ok env) 0 (map desc_entry vs) 0xffff xs = Some (Inr (fst (last vs), False), xs @ map desc_row vs)"
    using desc_entries_table [OF k(1) b(2), of 0 "0xffff" xs] 3(1) by simp
  with d 3(4) b(1) show ?case
    by (cases ?s) (auto simp: desc_discovered_cb_def ATT_ECODE_ATTR_NOT_FOUND_def ATT_FIND_INFO_RESP_FMT_16BIT_def
        Let_def encode_descs_request send_filled)
qed simp

section \<open>Properties of the discoveries\<close>

context bounded_procedure begin

lemma runs_well:
  assumes "serves mtu server" and "out = Some Silent \<or> (\<exists>pdu d. out = Some (Request pdu d) \<and> ok d)"
  shows "\<exists>r t. converse callback server s out = Some (r, t) \<and> r \<noteq> Fault"
  using assms(2)
proof
  assume "\<exists>pdu d. out = Some (Request pdu d) \<and> ok d"
  then obtain pdu d where d: "out = Some (Request pdu d)" "ok d" by blast
  obtain r t where "converse callback server s (Some (Request pdu d)) = Some (r, t)" using ends [of server s pdu d] by auto
  with d no_fault [OF assms(1) d(2)] show ?thesis by blast
qed simp

end

lemma primary_starts:
  assumes "uuid = None \<or> sendable uuid" "7 \<le> length (buffer env)"
  shows "gatt_discover_primary uuid env = Some Silent
    \<or> (\<exists>pdu. gatt_discover_primary uuid env = Some (Request pdu \<lparr>dp_uuid = uuid, dp_start = 1, primaries = [], ranges = []\<rparr>))"
proof -
  obtain n buf where "encode_discover_primary 1 0xffff uuid (buffer env) = Some (n, buf)"
    using assms encode_primary_uuid [of uuid "buffer env" 1 "0xffff"] by (cases uuid) (auto simp: encode_primary_all)
  then show ?thesis by (auto simp: gatt_discover_primary_def send_request_def)
qed

text \<open>C28: The discovery of primary services ends, whatever the server answers: each further request starts
  after the last handle of the answer, so there are at most 65535. Neither the procedure for all services
  nor that for one UUID (of 16 or 128 bits) reads or writes outside an array, with any buffer that holds the first request.\<close>

theorem primary_discovery_ends:
  assumes "serves 7 server" and "7 \<le> length (buffer env)"
  shows "(\<exists>r t. converse primary_all_cb server s (gatt_discover_primary None env) = Some (r, t) \<and> r \<noteq> Fault)
    \<and> (sendable uuid \<longrightarrow>
      (\<exists>r t. converse primary_by_uuid_cb server s (gatt_discover_primary uuid env) = Some (r, t) \<and> r \<noteq> Fault))"
proof (intro conjI impI)
  show "\<exists>r t. converse primary_all_cb server s (gatt_discover_primary None env) = Some (r, t) \<and> r \<noteq> Fault"
    by (rule all_primaries.runs_well [OF assms(1)]) (use primary_starts [of None env] assms(2) in blast)
  show "\<exists>r t. converse primary_by_uuid_cb server s (gatt_discover_primary uuid env) = Some (r, t) \<and> r \<noteq> Fault" if "sendable uuid"
    by (rule by_uuid.runs_well [OF assms(1)]) (use primary_starts [of uuid env] that assms(2) in fastforce)
qed

lemma primary_request:
  assumes "plenty env"
  shows "gatt_discover_primary None env = Some (Request (services_request 1) \<lparr>dp_uuid = None, dp_start = 1, primaries = [], ranges = []\<rparr>)"
    and "sendable (Some u) \<Longrightarrow> gatt_discover_primary (Some u) env =
      Some (Request (ranges_request u 1) \<lparr>dp_uuid = Some u, dp_start = 1, primaries = [], ranges = []\<rparr>)"
proof -
  have env: "7 \<le> length (buffer env)" "23 \<le> length (buffer env)" "alloc_ok env 0" "send_ok env"
    using assms by (auto simp: plenty_def)
  show "gatt_discover_primary None env = Some (Request (services_request 1) \<lparr>dp_uuid = None, dp_start = 1, primaries = [], ranges = []\<rparr>)"
    using env by (simp add: gatt_discover_primary_def encode_primary_all send_filled services_request_def)
  show "gatt_discover_primary (Some u) env = Some (Request (ranges_request u 1) \<lparr>dp_uuid = Some u, dp_start = 1, primaries = [], ranges = []\<rparr>)"
    if s: "sendable (Some u)"
    using env by (auto simp: gatt_discover_primary_def send_filled intro: encode_ranges_request [OF s, of "buffer env" 1])
qed

text \<open>C26: Against a server that holds a table of services and answers with as many of them as it likes at a
  time, the discovery of primary services reports exactly the table: the ranges and the printed UUIDs of all
  services, or the ranges of the services of the UUID asked for, in the order of their handles.\<close>

theorem primary_discovery_complete:
  assumes "plenty env"
    and "holds_table services_request (range_start \<circ> fst) (one_kind snd) services_reply table server"
    and "table_ok (range_start \<circ> fst) (range_end \<circ> fst) 0xffff 1 table"
    and "sendable (Some u)" and "holds_table (ranges_request u) range_start (\<lambda>_. True) ranges_reply found server'"
    and "table_ok range_start range_end 0xffff 1 found"
  shows "(\<exists>t. converse primary_all_cb server s (gatt_discover_primary None env) = Some (Reported 0 (map service_row table), t))
    \<and> (\<exists>t. converse primary_by_uuid_cb server' s' (gatt_discover_primary (Some u) env) = Some (Reported 0 found, t))"
proof
  show "\<exists>t. converse primary_all_cb server s (gatt_discover_primary None env) = Some (Reported 0 (map service_row table), t)"
    using services.discovers [of table server 1 s] assms(2,3) by (simp add: primary_request [OF assms(1)] comp_def)
  have "holds_table (ranges_request u) range_start (\<lambda>_. sendable (Some u)) ranges_reply found server'"
    using assms(4,5) by (simp add: holds_table_def)
  then show "\<exists>t. converse primary_by_uuid_cb server' s' (gatt_discover_primary (Some u) env) = Some (Reported 0 found, t)"
    using service_ranges.discovers [of u found server' 1 s'] assms(4,6) by (simp add: primary_request [OF assms(1)])
qed

lemma never_ends:
  assumes step: "\<And>out t. bad out \<Longrightarrow> \<exists>pdu d t' opcode rsp env status full. out = Some (Request pdu d)
      \<and> server t pdu = (t', Some (opcode, rsp, env)) \<and> attrib_callback_result (copy_ok env) opcode rsp = Some (status, full)
      \<and> bad (callback d status full env)"
    and "bad out"
  shows "converse callback server s out = None"
proof -
  have "cb = callback \<longrightarrow> srv = server \<longrightarrow> bad out \<longrightarrow> False" if c: "converse cb srv t out = Some y" for cb srv t out y
  proof (rule converse.raw_induct [OF _ c, of "\<lambda>cb srv t out y. cb = callback \<longrightarrow> srv = server \<longrightarrow> bad out \<longrightarrow> False"],
      goal_cases)
    case (1 run cb srv t out y)
    show ?case
    proof (intro impI)
      assume a: "cb = callback" "srv = server" "bad out"
      obtain pdu d t' opcode rsp env status full where o: "out = Some (Request pdu d)"
        "server t pdu = (t', Some (opcode, rsp, env))" "attrib_callback_result (copy_ok env) opcode rsp = Some (status, full)"
        "bad (callback d status full env)" using step [OF a(3), of t] by blast
      with 1(2) a have "run cb srv t' (callback d status full env) = Some y" by simp
      with 1(1) a o(4) show False by blast
    qed
  qed
  with assms(2) show ?thesis by (cases "converse callback server s out") auto
qed

lemma wrap16: "(65536 :: u16) = 0"
  by simp

text \<open>A server that answers every request for characteristics with a declaration at the handle 0xffff keeps
  the discovery going for ever: the next start handle wraps to 0, which is below the end, and no later handle
  is below it. The list grows with each answer, and the caller, who waits for the report, never returns.\<close>

theorem char_discovery_diverges:
  assumes "plenty env" and "stop \<noteq> 0" and "decl_handle c = 0xffff" and "uuid_kind True (decl_uuid c)"
  shows "converse char_discovered_cb (\<lambda>s pdu. (s, Some (ATT_OP_READ_BY_TYPE_RESP, 7 # char_entry c, env))) s
    (gatt_discover_char start stop None env) = None"
proof -
  let ?server = "\<lambda>s pdu. (s, Some (ATT_OP_READ_BY_TYPE_RESP, 7 # char_entry c, env))"
  have env: "7 \<le> length (buffer env)" "\<forall>i. alloc_ok env i" "send_ok env" "copy_ok env" using assms by (auto simp: plenty_def)
  have "is_short (decl_uuid c)" using assms(4) by (cases "decl_uuid c") (auto simp: is_short_def)
  then have d: "dec_read_by_type_resp (ATT_OP_READ_BY_TYPE_RESP # 7 # char_entry c) = Some (Some \<lparr>dl_len = 7, dl_data = [char_entry c]\<rparr>)"
    using concat_received(2) [of "[char_entry c]" 7] char_entry_read(1) [OF assms(4)] by simp
  have e: "char_entries None True (alloc_ok env) 0 [char_entry c] 0 xs = Some (Inr 0xffff, xs @ [char_row c])" for xs
    using char_entries_table [of "[c]" True "alloc_ok env" 0 0 xs] assms(3,4) env(2) by simp
  have st: "attrib_callback_result (copy_ok env) ATT_OP_READ_BY_TYPE_RESP (7 # char_entry c) =
      Some (0, ATT_OP_READ_BY_TYPE_RESP # 7 # char_entry c)"
    using env(4) by (simp add: attrib_callback_result_def construct_full_pdu_def att_ops BT_ATT_OP_ERROR_RSP_def)
  have wrap: "65536 < x \<longleftrightarrow> x \<noteq> 0" for x :: u16
    by (metis wrap16 word_greater_zero_iff)
  have next_request: "\<exists>pdu lo ys. char_discovered_cb \<lparr>dc_uuid = None, dc_start = lo0, dc_end = stop, characteristics = xs\<rparr> 0
      (ATT_OP_READ_BY_TYPE_RESP # 7 # char_entry c) env =
      Some (Request pdu \<lparr>dc_uuid = None, dc_start = lo, dc_end = stop, characteristics = ys\<rparr>)" for lo0 xs
  proof -
    have "\<not> 65535 < lo0" using unsigned_less [of lo0, where ?'a = nat] by (simp add: word_less_nat_alt)
    then show ?thesis using d e [of xs] env(1) assms(2) wrap
      by (simp del: char_entries.simps add: char_discovered_cb_def ATT_ECODE_ATTR_NOT_FOUND_def Let_def encode_chars_request send_filled)
  qed
  show ?thesis
  proof (rule never_ends [of "\<lambda>out. \<exists>pdu lo xs. out = Some (Request pdu
      \<lparr>dc_uuid = None, dc_start = lo, dc_end = stop, characteristics = xs\<rparr>)"])
    show "\<exists>pdu lo xs. gatt_discover_char start stop None env =
        Some (Request pdu \<lparr>dc_uuid = None, dc_start = lo, dc_end = stop, characteristics = xs\<rparr>)"
      using env by (simp add: gatt_discover_char_def encode_chars_request send_filled)
  next
    fix out :: "(discover_char, gatt_char list) outcome option" and t
    assume "\<exists>pdu lo xs. out = Some (Request pdu \<lparr>dc_uuid = None, dc_start = lo, dc_end = stop, characteristics = xs\<rparr>)"
    then obtain pdu lo xs where o: "out = Some (Request pdu \<lparr>dc_uuid = None, dc_start = lo, dc_end = stop, characteristics = xs\<rparr>)" by blast
    show "\<exists>pdu d t' opcode rsp env' status full. out = Some (Request pdu d) \<and> ?server t pdu = (t', Some (opcode, rsp, env'))
        \<and> attrib_callback_result (copy_ok env') opcode rsp = Some (status, full)
        \<and> (\<exists>pdu lo xs. char_discovered_cb d status full env' =
            Some (Request pdu \<lparr>dc_uuid = None, dc_start = lo, dc_end = stop, characteristics = xs\<rparr>))"
    proof -
      obtain pdu' lo' ys where n: "char_discovered_cb \<lparr>dc_uuid = None, dc_start = lo, dc_end = stop, characteristics = xs\<rparr> 0
          (ATT_OP_READ_BY_TYPE_RESP # 7 # char_entry c) env =
          Some (Request pdu' \<lparr>dc_uuid = None, dc_start = lo', dc_end = stop, characteristics = ys\<rparr>)"
        using next_request [of lo xs] by blast
      show ?thesis unfolding o by (intro exI conjI, rule refl, rule refl, rule st, rule n)
    qed
  qed
qed


text \<open>C29: Against a server that holds a table of characteristics with handles below the end of the range, the
  discovery of characteristics reports exactly the table, in order; an empty table is reported as the error
  that no attribute was found. The discovery of descriptors does the same up to the end of the range.\<close>

theorem attribute_discovery_complete:
  assumes "plenty env" and "1 < stop"
    and "holds_table (chars_request stop) decl_handle chars_batch chars_reply cs server"
    and "table_ok decl_handle decl_handle (stop - 1) lo cs"
    and "holds_table (descs_request stop) fst (one_kind snd) descs_reply ds server'" and "table_ok fst fst stop lo ds"
  shows "(\<exists>t. converse char_discovered_cb server s (gatt_discover_char lo stop None env) =
      Some (Reported (if cs = [] then ATT_ECODE_ATTR_NOT_FOUND else 0) (map char_row cs), t))
    \<and> (\<exists>t. converse desc_discovered_cb server' s' (gatt_discover_desc lo stop None env) =
      Some (Reported (if ds = [] then ATT_ECODE_ATTR_NOT_FOUND else 0) (map desc_row ds), t))"
proof -
  have env: "7 \<le> length (buffer env)" "5 \<le> length (buffer env)" "alloc_ok env 0" "send_ok env"
    using assms(1) by (auto simp: plenty_def)
  have "stop \<noteq> 0" using assms(2) by auto
  then have "table_ok decl_handle decl_handle (if stop = 0 then 0 else stop - 1) lo cs" using assms(4) by simp
  moreover have "gatt_discover_char lo stop None env =
      Some (Request (chars_request stop lo) \<lparr>dc_uuid = None, dc_start = lo, dc_end = stop, characteristics = []\<rparr>)"
    using env by (simp add: gatt_discover_char_def encode_chars_request send_filled)
  moreover have "gatt_discover_desc lo stop None env =
      Some (Request (descs_request stop lo) \<lparr>dd_uuid = None, dd_start = lo, dd_end = stop, descriptors = []\<rparr>)"
    using env by (simp add: gatt_discover_desc_def encode_descs_request send_filled)
  ultimately show ?thesis
    using chars.discovers [OF assms(3), of lo s] descs.discovers [OF assms(5,6), of s']
    by (simp only: simp_thms if_True)
qed

lemma unat_numeral_7: "unat (7 :: u16) = unat (7 :: u8)"
  by simp

text \<open>Two answers make the client read past an entry that it has copied out of the PDU: characteristic
  declarations whose length is neither that of a 16-bit nor that of a 128-bit UUID, which are
  taken to hold a UUID of 128 bits, and descriptors of an unknown format, whose entries have 2 bytes.\<close>

theorem discovery_reads_outside:
  assumes "length entry = unat elen" and "3 \<le> elen" and "elen < 21" and "elen \<noteq> 7"
    and "length handle = 2" and "format \<noteq> 1" and "format \<noteq> 2"
  shows "char_discovered_cb dc 0 (ATT_OP_READ_BY_TYPE_RESP # elen # entry) env = None
    \<and> desc_discovered_cb dd 0 (ATT_OP_FIND_INFO_RESP # format # handle) env = None"
proof
  have u: "unat (ucast elen :: u16) = unat elen" "3 \<le> unat elen" "unat elen < 21"
    using assms(2,3) unat_u8_le [of elen] by (simp_all add: unsigned_ucast_eq take_bit_eq_mod word_le_nat_alt word_less_nat_alt)
  have "\<forall>d \<in> set [entry]. length d = unat elen" using assms(1) by simp
  from concat_received(2) [OF this] u have
    "dec_read_by_type_resp (ATT_OP_READ_BY_TYPE_RESP # elen # entry) = Some (Some \<lparr>dl_len = ucast elen, dl_data = [entry]\<rparr>)"
    by simp
  moreover have "unat (ucast elen :: u16) \<noteq> unat (7 :: u16)" using u(1) assms(4) by (metis word_unat_eq_iff unat_numeral_7)
  then have "(ucast elen :: u16) \<noteq> 7" by auto
  ultimately show "char_discovered_cb dc 0 (ATT_OP_READ_BY_TYPE_RESP # elen # entry) env = None"
    using assms(1) u by (simp add: char_discovered_cb_def ATT_ECODE_ATTR_NOT_FOUND_def get_uuid128_eq rd_le16_def)
  have "dec_find_info_resp (ATT_OP_FIND_INFO_RESP # format # handle) = Some (Some (format, Some \<lparr>dl_len = 2, dl_data = [handle]\<rparr>))"
    using assms(5-7) by (simp add: dec_find_info_resp_def get_data_list_def att_data_list_alloc_def rd_bytes_def)
  then show "desc_discovered_cb dd 0 (ATT_OP_FIND_INFO_RESP # format # handle) env = None"
    using assms(5,6) by (simp add: desc_discovered_cb_def ATT_ECODE_ATTR_NOT_FOUND_def ATT_FIND_INFO_RESP_FMT_16BIT_def get_uuid128_eq rd_le16_def)
qed


section \<open>Examples of servers\<close>

definition ex_env :: att_env where
  "ex_env = \<lparr>buffer = replicate 23 0, alloc_ok = (\<lambda>_. True), send_ok = True, copy_ok = True\<rparr>"

lemma ex_plenty [simp]: "plenty ex_env"
  by (simp add: plenty_def ex_env_def)

text \<open>A server that answers one row at a time. The start handle of a request is at its byte 1.\<close>

fun row_answer :: "('v list \<Rightarrow> u8 \<times> u8 list) \<Rightarrow> 'v list \<Rightarrow> u8 \<times> u8 list" where
  "row_answer reply [] = (BT_ATT_OP_ERROR_RSP, [0, 0, 0, ATT_ECODE_ATTR_NOT_FOUND])"
| "row_answer reply (v # vs) = reply [v]"

definition table_server ::
    "('v \<Rightarrow> u16) \<Rightarrow> ('v list \<Rightarrow> u8 \<times> u8 list) \<Rightarrow> 'v list \<Rightarrow> unit \<Rightarrow> u8 list \<Rightarrow> unit \<times> (u8 \<times> u8 list \<times> att_env) option" where
  "table_server first reply table s pdu =
     (let answer = row_answer reply (filter (\<lambda>v. get_le16 pdu 1 \<le> first v) table) in ((), Some (fst answer, snd answer, ex_env)))"

lemma table_server_holds:
  assumes "\<And>lo. get_le16 (request lo) 1 = lo" and "\<forall>v \<in> set table. batch [v]"
  shows "holds_table request first batch reply table (table_server first reply table)"
  unfolding holds_table_def
proof (intro allI exI conjI)
  fix s lo
  let ?rest = "filter (\<lambda>v. lo \<le> first v) table"
  show "table_server first reply table s (request lo) = ((), Some (fst (row_answer reply ?rest), snd (row_answer reply ?rest), ex_env))"
    unfolding table_server_def assms(1) by (simp only: Let_def)
  show "plenty ex_env" by simp
  show "answers_from batch reply ?rest (fst (row_answer reply ?rest)) (snd (row_answer reply ?rest))"
  proof (cases ?rest)
    case (Cons v vs)
    then have "v \<in> set table" by (auto dest: filter_eq_ConsD)
    with Cons assms(2) show ?thesis by (auto simp: answers_from_def intro!: exI [of _ 1])
  qed (simp add: answers_from_def)
qed

lemma request_start: "get_le16 (opcode # le16 lo @ rest) (Suc 0) = lo"
  using get_le16_append [of 1 "[opcode]" lo rest] by simp

lemma request_start': "get_le16 (opcode # le16 lo) (Suc 0) = lo"
  using request_start [of opcode lo "[]"] by simp

lemmas ex_requests = services_request_def ranges_request_def chars_request_def descs_request_def request_start request_start'

definition ex_services :: "(att_range \<times> bt_uuid) list" where
  "ex_services = [(\<lparr>range_start = 1, range_end = 5\<rparr>, BT_UUID16 0x1800), (\<lparr>range_start = 6, range_end = 0xffff\<rparr>, BT_UUID16 0x180F)]"

lemma primary_discovery_ends_witness:
  "\<exists>r t. converse primary_all_cb (\<lambda>s pdu. (s, Some (0x11, [6, 1, 0, 1, 0, 0, 24], ex_env))) ()
      (gatt_discover_primary None ex_env) = Some (r, t) \<and> r \<noteq> Fault"
  using primary_discovery_ends [of "\<lambda>s pdu. (s, Some (0x11, [6, 1, 0, 1, 0, 0, 24], ex_env))" ex_env "()" None]
  by (simp add: serves_def ex_env_def)

lemma primary_discovery_complete_witness:
  "\<exists>t. converse primary_all_cb (table_server (range_start \<circ> fst) services_reply ex_services) ()
      (gatt_discover_primary None ex_env) = Some (Reported 0 (map service_row ex_services), t)"
proof -
  have "holds_table services_request (range_start \<circ> fst) (one_kind snd) services_reply ex_services
      (table_server (range_start \<circ> fst) services_reply ex_services)"
    by (rule table_server_holds) (auto simp: ex_requests one_kind_def is_short_def ex_services_def)
  moreover have "holds_table (ranges_request (BT_UUID16 0x1800)) range_start (\<lambda>_. True) ranges_reply [\<lparr>range_start = 1, range_end = 5\<rparr>]
      (table_server range_start ranges_reply [\<lparr>range_start = 1, range_end = 5\<rparr>])"
    by (rule table_server_holds) (simp_all add: ex_requests)
  ultimately show ?thesis
    using primary_discovery_complete [OF ex_plenty, of ex_services "table_server (range_start \<circ> fst) services_reply ex_services"
        "BT_UUID16 0x1800" "[\<lparr>range_start = 1, range_end = 5\<rparr>]" "table_server range_start ranges_reply [\<lparr>range_start = 1, range_end = 5\<rparr>]"]
    by (simp add: ex_services_def)
qed

definition ex_char :: "u16 \<Rightarrow> att_char" where
  "ex_char h = \<lparr>decl_handle = h, decl_properties = 2, decl_value = h + 1, decl_uuid = BT_UUID16 0x2A00\<rparr>"

lemma char_discovery_diverges_witness:
  "converse char_discovered_cb (\<lambda>s pdu. (s, Some (ATT_OP_READ_BY_TYPE_RESP, 7 # char_entry (ex_char 0xffff), ex_env))) ()
    (gatt_discover_char 1 0xffff None ex_env) = None"
  using char_discovery_diverges [OF ex_plenty, of "0xffff" "ex_char 0xffff" "()" 1] by (simp add: ex_char_def)

lemma attribute_discovery_complete_witness:
  "\<exists>t. converse char_discovered_cb (table_server decl_handle chars_reply [ex_char 2, ex_char 4]) ()
      (gatt_discover_char 1 0xffff None ex_env) = Some (Reported 0 [char_row (ex_char 2), char_row (ex_char 4)], t)"
proof -
  have "holds_table (chars_request 0xffff) decl_handle chars_batch chars_reply [ex_char 2, ex_char 4]
      (table_server decl_handle chars_reply [ex_char 2, ex_char 4])"
    by (rule table_server_holds) (auto simp: ex_requests chars_batch_def one_kind_def is_short_def ex_char_def)
  moreover have "holds_table (descs_request 0xffff) fst (one_kind snd) descs_reply [(3, BT_UUID16 0x2902)]
      (table_server fst descs_reply [(3, BT_UUID16 0x2902)])"
    by (rule table_server_holds) (auto simp: ex_requests one_kind_def is_short_def)
  ultimately show ?thesis
    using attribute_discovery_complete [OF ex_plenty, of "0xffff" "[ex_char 2, ex_char 4]"
        "table_server decl_handle chars_reply [ex_char 2, ex_char 4]" 1 "[(3, BT_UUID16 0x2902)]"
        "table_server fst descs_reply [(3, BT_UUID16 0x2902)]"]
    by (simp add: ex_char_def)
qed

lemma discovery_reads_outside_witness:
  "char_discovered_cb \<lparr>dc_uuid = None, dc_start = 1, dc_end = 0xffff, characteristics = []\<rparr> 0
     [0x09, 8, 1, 0, 2, 2, 0, 0, 0, 0] ex_env = None"
  using discovery_reads_outside [of "[1, 0, 2, 2, 0, 0, 0, 0]" 8 "[1, 0]" 0
    "\<lparr>dc_uuid = None, dc_start = 1, dc_end = 0xffff, characteristics = []\<rparr>" ex_env] by (simp add: ATT_OP_READ_BY_TYPE_RESP_def)

section \<open>Reading and writing values: lemmas\<close>

text \<open>Whatever its state, the server answers the request like this, through a buffer of \<open>mtu\<close> bytes.\<close>

definition answers ::
    "('s \<Rightarrow> u8 list \<Rightarrow> 's \<times> (u8 \<times> u8 list \<times> att_env) option) \<Rightarrow> nat \<Rightarrow> u8 list \<Rightarrow> u8 \<Rightarrow> u8 list \<Rightarrow> bool" where
  "answers server mtu pdu opcode rsp \<longleftrightarrow>
     (\<forall>s. \<exists>t env. server s pdu = (t, Some (opcode, rsp, env)) \<and> plenty env \<and> length (buffer env) = mtu)"

text \<open>A server with the value of one attribute: each answer carries what fits of the value from the offset on.\<close>

definition holds_value ::
    "('s \<Rightarrow> u8 list \<Rightarrow> 's \<times> (u8 \<times> u8 list \<times> att_env) option) \<Rightarrow> nat \<Rightarrow> u16 \<Rightarrow> u8 list \<Rightarrow> bool" where
  "holds_value server mtu h val \<longleftrightarrow>
     answers server mtu (ATT_OP_READ_REQ # le16 h) ATT_OP_READ_RESP (take (mtu - 1) val)
     \<and> (\<forall>k \<le> length val. answers server mtu (ATT_OP_READ_BLOB_REQ # le16 h @ le16 (of_nat k)) ATT_OP_READ_BLOB_RESP
          (take (mtu - 1) (drop k val)))"

lemma answered:
  assumes "answers server mtu pdu opcode rsp" "opcode \<noteq> BT_ATT_OP_ERROR_RSP"
  obtains t env where "plenty env" "length (buffer env) = mtu"
    "converse callback server s (Some (Request pdu d)) = converse callback server t (callback d 0 (opcode # rsp) env)"
proof -
  obtain t env where "server s pdu = (t, Some (opcode, rsp, env))" "plenty env" "length (buffer env) = mtu"
    using assms(1) unfolding answers_def by blast
  moreover from this have "attrib_callback_result (copy_ok env) opcode rsp = Some (0, opcode # rsp)"
    using assms(2) by (simp add: attrib_callback_result_def construct_full_pdu_def plenty_def)
  ultimately show thesis by (intro that [of env t]) (simp_all add: converse_step)
qed

lemma not_error:
  "ATT_OP_READ_RESP \<noteq> BT_ATT_OP_ERROR_RSP" "ATT_OP_READ_BLOB_RESP \<noteq> BT_ATT_OP_ERROR_RSP"
  "ATT_OP_WRITE_RESP \<noteq> BT_ATT_OP_ERROR_RSP" "ATT_OP_PREP_WRITE_RESP \<noteq> BT_ATT_OP_ERROR_RSP"
  "ATT_OP_EXEC_WRITE_RESP \<noteq> BT_ATT_OP_ERROR_RSP"
  by (simp_all add: att_ops BT_ATT_OP_ERROR_RSP_def)

definition blob_request :: "u16 \<Rightarrow> nat \<Rightarrow> u8 list" where
  "blob_request h k = ATT_OP_READ_BLOB_REQ # le16 h @ le16 (of_nat k)"

lemma encode_blob_request:
  "5 \<le> length buf \<Longrightarrow> enc_read_blob_req h (of_nat k) buf = Some (5, filled (blob_request h k) buf)"
  "length (blob_request h k) = 5"
  by (simp_all add: enc_read_blob_req_def enc_two_u16_eq blob_request_def)

lemma of_nat_pred: "(of_nat (Suc k) :: u16) - 1 = of_nat k"
  by simp

text \<open>The state after \<open>k\<close> bytes of the value.\<close>

definition read_so_far :: "u16 \<Rightarrow> nat \<Rightarrow> u8 list \<Rightarrow> read_long_data" where
  "read_so_far h k val = \<lparr>rl_handle = h, rl_buffer = ATT_OP_READ_RESP # take k val, rl_size = of_nat (Suc k)\<rparr>"

lemma read_so_far_value:
  assumes "k \<le> length val" "length val < 65535"
  shows "reported_value (read_so_far h k val) = ATT_OP_READ_RESP # take k val"
  using assms unat_small [of "Suc k"] by (simp add: reported_value_def read_so_far_def min_def del: of_nat_Suc)

lemma append_so_far:
  assumes "k \<le> length val" "length val < 65535" "part = take m (drop k val)"
  shows "append_blob (read_so_far h k val) (op # part) = Some (read_so_far h (k + length part) val)"
proof -
  have "unat (of_nat (Suc k) :: u16) = Suc k" using assms by (intro unat_small) simp
  moreover have "take k val @ part = take (k + length part) val"
    unfolding assms(3) by (simp add: take_add min_def)
  ultimately show ?thesis
    using assms(1) by (simp add: append_blob_def read_so_far_def rd_bytes_def)
qed

lemma reads_from:
  assumes "holds_value server mtu h val" "23 \<le> mtu" "length val < 65535" "k \<le> length val"
  shows "\<exists>t. converse read_cb server s (Some (Request (blob_request h k) (Reading_blob (read_so_far h k val)))) =
    Some (Reported 0 (ATT_OP_READ_RESP # val), t)"
  using assms(4)
proof (induction "length val - k" arbitrary: k s rule: less_induct)
  case less
  let ?part = "take (mtu - 1) (drop k val)" and ?rl = "read_so_far h k val"
  have "answers server mtu (blob_request h k) ATT_OP_READ_BLOB_RESP ?part"
    using assms(1) less.prems by (simp add: holds_value_def blob_request_def)
  then obtain t env where env: "plenty env" "length (buffer env) = mtu"
    and run: "converse read_cb server s (Some (Request (blob_request h k) (Reading_blob ?rl))) =
      converse read_cb server t (read_cb (Reading_blob ?rl) 0 (ATT_OP_READ_BLOB_RESP # ?part) env)"
    by (rule answered [OF _ not_error(2), where callback = read_cb and s = s and d = "Reading_blob ?rl"])
  note app = append_so_far [OF less.prems assms(3) refl, where m = "mtu - 1" and h = h and op = ATT_OP_READ_BLOB_RESP]
  show ?case
  proof (cases "k = length val")
    case True
    with read_so_far_value [OF less.prems assms(3), of h] show ?thesis
      unfolding run by (simp add: read_blob_helper_def)
  next
    case False
    have part: "length ?part = min (length val - k) (mtu - 1)" by simp
    let ?k = "k + length ?part"
    have k: "?k \<le> length val" "k < ?k" using less.prems False assms(2) by auto
    show ?thesis
    proof (cases "length val - k < mtu - 1")
      case True
      then have "?k = length val" "Suc (length ?part) < mtu" using less.prems by auto
      with False less.prems env app read_so_far_value [OF k(1) assms(3), of h] show ?thesis
        unfolding run by (auto simp: read_blob_helper_def plenty_def)
    next
      case full: False
      then have "Suc (length ?part) = mtu" using assms(2) by simp
      moreover have "enc_read_blob_req h (rl_size (read_so_far h ?k val) - 1) (buffer env) = Some (5, filled (blob_request h ?k) (buffer env))"
        using encode_blob_request(1) [of "buffer env" h ?k] env(2) assms(2) of_nat_pred [of ?k]
        by (simp add: read_so_far_def del: of_nat_Suc of_nat_add)
      moreover have "rl_handle (read_so_far h ?k val) = h" by (simp add: read_so_far_def)
      ultimately have "read_cb (Reading_blob ?rl) 0 (ATT_OP_READ_BLOB_RESP # ?part) env =
          Some (Request (blob_request h ?k) (Reading_blob (read_so_far h ?k val)))"
        using False less.prems env app assms(2) encode_blob_request(2)
        by (auto simp: read_blob_helper_def plenty_def send_filled)
      moreover have "\<exists>t'. converse read_cb server t (Some (Request (blob_request h ?k) (Reading_blob (read_so_far h ?k val)))) =
          Some (Reported 0 (ATT_OP_READ_RESP # val), t')"
        by (rule less.hyps) (use k in linarith)+
      ultimately show ?thesis unfolding run by simp
    qed
  qed
qed

section \<open>Properties of reading and writing\<close>

text \<open>C30: Reading a value of any length the protocol allows reports the answer's opcode and the whole value, when
  the server answers each request with what fits of the value: the first answer if it leaves room, else
  the blobs from each offset on until one leaves room or is empty.\<close>

theorem read_char_complete:
  assumes "holds_value server mtu h val" and "length val < 65535" and "plenty env" and "length (buffer env) = mtu"
  shows "\<exists>t. converse read_cb server s (gatt_read_char h env) = Some (Reported 0 (ATT_OP_READ_RESP # val), t)"
proof -
  have mtu: "23 \<le> mtu" and e: "alloc_ok env 0" "send_ok env" using assms(3,4) by (auto simp: plenty_def)
  let ?rl = "\<lparr>rl_handle = h, rl_buffer = [], rl_size = 0\<rparr>" and ?part = "take (mtu - 1) val"
  have start: "gatt_read_char h env = Some (Request (ATT_OP_READ_REQ # le16 h) (Reading ?rl))"
    using e mtu assms(4) by (simp add: gatt_read_char_def enc_read_req_def enc_one_u16_eq send_filled)
  have "answers server mtu (ATT_OP_READ_REQ # le16 h) ATT_OP_READ_RESP ?part" using assms(1) by (simp add: holds_value_def)
  then obtain t env' where env: "plenty env'" "length (buffer env') = mtu"
    and run: "converse read_cb server s (gatt_read_char h env) =
      converse read_cb server t (read_cb (Reading ?rl) 0 (ATT_OP_READ_RESP # ?part) env')"
    unfolding start by (rule answered [OF _ not_error(1), where callback = read_cb and s = s and d = "Reading ?rl"])
  show ?thesis
  proof (cases "length val < mtu - 1")
    case True
    then have "Suc (length val) < mtu" by linarith
    with env(2) True show ?thesis unfolding run by (simp add: read_char_helper_def)
  next
    case False
    then have len: "length (ATT_OP_READ_RESP # ?part) = Suc (mtu - 1)" "Suc (mtu - 1) = mtu" "mtu - 1 \<le> length val" using mtu by auto
    have "read_cb (Reading ?rl) 0 (ATT_OP_READ_RESP # ?part) env' =
        Some (Request (blob_request h (mtu - 1)) (Reading_blob (read_so_far h (mtu - 1) val)))"
      using env mtu len encode_blob_request(1) [of "buffer env'" h "mtu - 1"] encode_blob_request(2) of_nat_pred [of "mtu - 1"]
      by (auto simp: read_char_helper_def plenty_def read_so_far_def Let_def send_filled simp del: of_nat_Suc)
    with reads_from [OF assms(1) mtu assms(2) len(3), of t] show ?thesis unfolding run by simp
  qed
qed

text \<open>A server that stores values, built on the decoders of \<open>Att\<close>: prepared writes wait in a queue until
  they are executed, each at its offset.\<close>

record att_store =
  prepared :: "(u16 \<times> u16 \<times> u8 list) list"
  stored :: "u16 \<Rightarrow> u8 list"

fun apply_write :: "u16 \<times> u16 \<times> u8 list \<Rightarrow> (u16 \<Rightarrow> u8 list) \<Rightarrow> (u16 \<Rightarrow> u8 list)" where
  "apply_write (h, off, v) m = m(h := take (unat off) (m h) @ v @ drop (unat off + length v) (m h))"

definition write_server :: "att_env \<Rightarrow> att_store \<Rightarrow> u8 list \<Rightarrow> att_store \<times> (u8 \<times> u8 list \<times> att_env) option" where
  "write_server env s pdu =
     (case dec_write_req pdu of
        Some (_, Some (h, v)) \<Rightarrow> (s\<lparr>stored := (stored s)(h := v)\<rparr>, Some (ATT_OP_WRITE_RESP, [], env))
      | _ \<Rightarrow> (case dec_prep_write_req pdu of
        Some (_, Some (h, off, v)) \<Rightarrow>
          (s\<lparr>prepared := prepared s @ [(h, off, v)]\<rparr>, Some (ATT_OP_PREP_WRITE_RESP, le16 h @ le16 off @ v, env))
      | _ \<Rightarrow> (case dec_exec_write_req pdu of
        Some (_, Some flags) \<Rightarrow>
          (\<lparr>prepared = [], stored = if flags = ATT_WRITE_ALL_PREP_WRITES then fold apply_write (prepared s) (stored s) else stored s\<rparr>,
           Some (ATT_OP_EXEC_WRITE_RESP, [], env))
      | _ \<Rightarrow> (s, None))))"

lemma write_server_write:
  "write_server env s (ATT_OP_WRITE_REQ # le16 h @ v) =
    (s\<lparr>stored := (stored s)(h := v)\<rparr>, Some (ATT_OP_WRITE_RESP, [], env))"
  by (simp add: write_server_def dec_write_req_def dec_handle_value_eq)

lemma write_server_prepare:
  "write_server env s (ATT_OP_PREP_WRITE_REQ # le16 h @ le16 off @ v) =
    (s\<lparr>prepared := prepared s @ [(h, off, v)]\<rparr>, Some (ATT_OP_PREP_WRITE_RESP, le16 h @ le16 off @ v, env))"
proof -
  have "dec_write_req (ATT_OP_PREP_WRITE_REQ # le16 h @ le16 off @ v) = Some (0, None)"
    by (simp add: dec_write_req_def dec_handle_value_def att_ops)
  then show ?thesis by (simp add: write_server_def dec_prep_write_req_def dec_prep_write_eq)
qed

lemma write_server_execute:
  "write_server env s [ATT_OP_EXEC_WRITE_REQ, ATT_WRITE_ALL_PREP_WRITES] =
    (\<lparr>prepared = [], stored = fold apply_write (prepared s) (stored s)\<rparr>, Some (ATT_OP_EXEC_WRITE_RESP, [], env))"
  by (simp add: write_server_def dec_write_req_def dec_handle_value_def dec_prep_write_req_def dec_prep_write_def
      dec_exec_write_req_def ATT_WRITE_ALL_PREP_WRITES_def)

lemma converse_write:
  assumes "copy_ok env" "write_server env s pdu = (t, Some (opcode, rsp, env))" "opcode \<noteq> BT_ATT_OP_ERROR_RSP"
  shows "converse callback (write_server env) s (Some (Request pdu d)) =
    converse callback (write_server env) t (callback d 0 (opcode # rsp) env)"
  using assms by (simp add: converse_step attrib_callback_result_def construct_full_pdu_def)

definition part_of :: "nat \<Rightarrow> nat \<Rightarrow> u8 list \<Rightarrow> u8 list" where
  "part_of mtu k val = take (mtu - 5) (drop k val)"

definition prepare_request :: "nat \<Rightarrow> u16 \<Rightarrow> nat \<Rightarrow> u8 list \<Rightarrow> u8 list" where
  "prepare_request mtu h k val = ATT_OP_PREP_WRITE_REQ # le16 h @ le16 (of_nat k) @ part_of mtu k val"

lemma prepare_write_request:
  assumes "plenty env" "k \<le> length val" "length val < 65536"
  shows "prepare_write \<lparr>wl_handle = h, wl_offset = of_nat k, wl_value = val\<rparr> env =
    Some (Request (prepare_request (length (buffer env)) h k val) (Preparing \<lparr>wl_handle = h, wl_offset = of_nat k, wl_value = val\<rparr>))"
proof -
  let ?buf = "buffer env" and ?wl = "\<lparr>wl_handle = h, wl_offset = of_nat k, wl_value = val\<rparr>"
  have b: "23 \<le> length ?buf" "length ?buf < 65536" using assms(1) by (auto simp: plenty_def)
  have u: "unat (of_nat k :: u16) = k" using assms(2,3) by (intro unat_small) simp
  let ?n = "5 + min (length (drop k val)) (length ?buf - 5)"
  have e: "enc_prep_write_req h (of_nat k) (drop k val) ?buf = Some (of_nat ?n, filled (prepare_request (length ?buf) h k val) ?buf)"
    using enc_prep_write_eq [of ?buf ATT_OP_PREP_WRITE_REQ h "of_nat k" "drop k val"] b(1)
    by (simp add: enc_prep_write_req_def prepare_request_def part_of_def)
  have l: "length (prepare_request (length ?buf) h k val) = ?n" by (simp add: prepare_request_def part_of_def)
  have n: "unat (of_nat ?n :: u16) = ?n" by (rule unat_small) (use b in simp)
  moreover from n have "(of_nat ?n :: u16) \<noteq> 0" by (metis unat_0 add_is_0 zero_neq_numeral)
  moreover have "?n \<le> length ?buf" using b(1) by linarith
  ultimately have "send_request (of_nat ?n, filled (prepare_request (length ?buf) h k val) ?buf) (Preparing ?wl) =
      Request (prepare_request (length ?buf) h k val) (Preparing ?wl)"
    by (intro send_filled) (simp_all only: l simp_thms)
  with e u assms(2) show ?thesis by (simp add: prepare_write_def)
qed

lemma apply_part:
  assumes "k \<le> length val" "length val < 65536" "fold apply_write q m = m(h := take k val @ drop k (m h))"
  shows "fold apply_write (q @ [(h, of_nat k, part_of mtu k val)]) m =
    m(h := take (k + length (part_of mtu k val)) val @ drop (k + length (part_of mtu k val)) (m h))"
proof -
  have "unat (of_nat k :: u16) = k" using assms(1,2) by (intro unat_small) simp
  moreover have "take (k + length (part_of mtu k val)) val = take k val @ part_of mtu k val"
    by (simp add: take_add part_of_def min_def)
  ultimately show ?thesis using assms(1,3) by (simp add: fun_eq_iff min_def add.commute)
qed

lemma writes_from:
  assumes "plenty env" "length val < 65536" "k < length val"
    and "fold apply_write (prepared s) (stored s) = (stored s)(h := take k val @ drop k (stored s h))"
  shows "converse write_cb (write_server env) s (Some (Request (prepare_request (length (buffer env)) h k val)
      (Preparing \<lparr>wl_handle = h, wl_offset = of_nat k, wl_value = val\<rparr>))) =
    Some (Reported 0 [ATT_OP_EXEC_WRITE_RESP], \<lparr>prepared = [], stored = (stored s)(h := val @ drop (length val) (stored s h))\<rparr>)"
  using assms(3,4)
proof (induction "length val - k" arbitrary: k s rule: less_induct)
  case less
  let ?mtu = "length (buffer env)"
  let ?part = "part_of ?mtu k val" and ?wl = "\<lambda>k. \<lparr>wl_handle = h, wl_offset = of_nat k, wl_value = val\<rparr>"
  let ?k = "k + length ?part" and ?t = "s\<lparr>prepared := prepared s @ [(h, of_nat k, part_of ?mtu k val)]\<rparr>"
  have env: "copy_ok env" "23 \<le> ?mtu" using assms(1) by (auto simp: plenty_def)
  have part: "k < ?k" "?k \<le> length val" using less.prems(1) env(2) by (auto simp: part_of_def)
  have q: "fold apply_write (prepared ?t) (stored ?t) = (stored ?t)(h := take ?k val @ drop ?k (stored ?t h))"
    using apply_part [OF less_imp_le [OF less.prems(1)] assms(2) less.prems(2), of ?mtu] by simp
  have run: "converse write_cb (write_server env) s (Some (Request (prepare_request ?mtu h k val) (Preparing (?wl k)))) =
      converse write_cb (write_server env) ?t (write_cb (Preparing (?wl k)) 0 (ATT_OP_PREP_WRITE_RESP # le16 h @ le16 (of_nat k) @ ?part) env)"
    unfolding prepare_request_def by (rule converse_write [OF env(1) write_server_prepare not_error(4)])
  have off: "(of_nat k :: u16) + (of_nat (length (ATT_OP_PREP_WRITE_RESP # le16 h @ le16 (of_nat k) @ ?part)) - 5) = of_nat ?k" by simp
  have u: "unat (of_nat ?k :: u16) = ?k" using part(2) assms(2) by (intro unat_small) simp
  have cb: "write_cb (Preparing (?wl k)) 0 (ATT_OP_PREP_WRITE_RESP # le16 h @ le16 (of_nat k) @ ?part) env =
      (if ?k = length val then execute_write ATT_WRITE_ALL_PREP_WRITES env else prepare_write (?wl ?k) env)"
    using u off by (simp add: prepare_write_cb_def Let_def del: of_nat_add)
  show ?case
  proof (cases "?k = length val")
    case True
    have "execute_write ATT_WRITE_ALL_PREP_WRITES env = Some (Request [ATT_OP_EXEC_WRITE_REQ, ATT_WRITE_ALL_PREP_WRITES] Final)"
      using env(2) by (simp add: execute_write_def enc_exec_write_req_def ATT_WRITE_ALL_PREP_WRITES_def put_8_first send_filled)
    moreover have "converse write_cb (write_server env) ?t (Some (Request [ATT_OP_EXEC_WRITE_REQ, ATT_WRITE_ALL_PREP_WRITES] Final)) =
        Some (Reported 0 [ATT_OP_EXEC_WRITE_RESP], \<lparr>prepared = [], stored = fold apply_write (prepared ?t) (stored ?t)\<rparr>)"
      unfolding converse_write [OF env(1) write_server_execute not_error(5)] by simp
    ultimately show ?thesis unfolding run cb using True q by simp
  next
    case False
    have "converse write_cb (write_server env) ?t (Some (Request (prepare_request ?mtu h ?k val) (Preparing (?wl ?k)))) =
        Some (Reported 0 [ATT_OP_EXEC_WRITE_RESP], \<lparr>prepared = [], stored = (stored ?t)(h := val @ drop (length val) (stored ?t h))\<rparr>)"
    proof (rule less.hyps)
      show "length val - ?k < length val - k" "?k < length val" using part False by linarith+
    qed (rule q)
    with prepare_write_request [OF assms(1) part(2) assms(2), of h] False show ?thesis unfolding run cb by simp
  qed
qed


lemma write_char_run:
  assumes "plenty env" and "length val < 65536" and "prepared s = []"
  shows "converse write_cb (write_server env) s (gatt_write_char h val env) =
    (if length val + 3 \<le> length (buffer env)
     then Some (Reported 0 [ATT_OP_WRITE_RESP], s\<lparr>stored := (stored s)(h := val)\<rparr>)
     else Some (Reported 0 [ATT_OP_EXEC_WRITE_RESP], s\<lparr>stored := (stored s)(h := val @ drop (length val) (stored s h))\<rparr>))"
proof -
  have env: "copy_ok env" "23 \<le> length (buffer env)" "length (buffer env) < 65536" "alloc_ok env 0" "send_ok env"
    using assms(1) by (auto simp: plenty_def)
  show ?thesis
  proof (cases "length val + 3 \<le> length (buffer env)")
    case True
    have fit: "length val \<le> size_sub (length (buffer env)) 3" using True env(2) by auto
    have u: "unat (of_nat (3 + length val) :: u16) = 3 + length val" using True env(3) by (intro unat_small) simp
    then have "(of_nat (3 + length val) :: u16) \<noteq> 0" by (metis unat_0 add_is_0 zero_neq_numeral)
    moreover have "enc_write_req h val (buffer env) = Some (of_nat (3 + length val), filled (ATT_OP_WRITE_REQ # le16 h @ val) (buffer env))"
      using True by (simp add: enc_write_req_def enc_handle_value_eq)
    moreover have "send_request (of_nat (3 + length val), filled (ATT_OP_WRITE_REQ # le16 h @ val) (buffer env)) Final =
        (Request (ATT_OP_WRITE_REQ # le16 h @ val) Final :: (write_state, u8 list) outcome)"
      using True u calculation(1) by (intro send_filled) simp_all
    ultimately have "gatt_write_char h val env = Some (Request (ATT_OP_WRITE_REQ # le16 h @ val) Final)"
      using True fit env(5) by (simp add: gatt_write_char_def del: of_nat_add)
    moreover have "converse write_cb (write_server env) s (Some (Request (ATT_OP_WRITE_REQ # le16 h @ val) Final)) =
        Some (Reported 0 [ATT_OP_WRITE_RESP], s\<lparr>stored := (stored s)(h := val)\<rparr>)"
      unfolding converse_write [OF env(1) write_server_write not_error(3)] by simp
    ultimately show ?thesis using True by simp
  next
    case False
    then have pos: "0 < length val" "\<not> length val \<le> size_sub (length (buffer env)) 3" using env(2) by auto
    have "gatt_write_char h val env = Some (Request (prepare_request (length (buffer env)) h 0 val)
        (Preparing \<lparr>wl_handle = h, wl_offset = of_nat 0, wl_value = val\<rparr>))"
      using prepare_write_request [OF assms(1) _ assms(2), of 0 h] pos(2) env(4,5) by (simp add: gatt_write_char_def)
    moreover have "s\<lparr>stored := v\<rparr> = \<lparr>prepared = [], stored = v\<rparr>" for v using assms(3) by (cases s) simp
    ultimately show ?thesis using writes_from [OF assms(1,2) pos(1), of s h] False assms(3) by simp
  qed
qed

text \<open>C27: A value that is written arrives. With a server that stores what it is sent, a value that fits one
  request replaces the stored value at once; a longer one goes through prepared writes, each at the offset
  that the echoes of the previous ones add up to, and their execution leaves the whole value stored
  (with what was stored beyond its length, as prepared writes never shorten a value).\<close>

theorem write_char_stores:
  assumes "plenty env" and "length val < 65536" and "prepared s = []"
  shows "converse write_cb (write_server env) s (gatt_write_char h val env) =
    (if length val + 3 \<le> length (buffer env)
     then Some (Reported 0 [ATT_OP_WRITE_RESP], s\<lparr>stored := (stored s)(h := val)\<rparr>)
     else Some (Reported 0 [ATT_OP_EXEC_WRITE_RESP], s\<lparr>stored := (stored s)(h := val @ drop (length val) (stored s h))\<rparr>))"
  by (rule write_char_run [OF assms])

text \<open>A long write trusts the length of the server's answers, not the bytes that it sent. An answer that moves the
  offset past the value makes it read outside the value (one without parameters moves it by 65532), and
  answers of 5 bytes, which acknowledge nothing, make it send the same part for ever.\<close>

theorem write_long_trusts_length:
  assumes "plenty env" and "val \<noteq> []" and "length val < 65532"
  shows "prepare_write_cb \<lparr>wl_handle = h, wl_offset = 0, wl_value = val\<rparr> 0 [ATT_OP_PREP_WRITE_RESP] env = None
    \<and> (length val + 5 < length rpdu \<and> length rpdu < 65536 \<longrightarrow>
        prepare_write_cb \<lparr>wl_handle = h, wl_offset = 0, wl_value = val\<rparr> 0 rpdu env = None)
    \<and> (length (buffer env) < length val + 3 \<longrightarrow>
        converse write_cb (\<lambda>s pdu. (s, Some (ATT_OP_PREP_WRITE_RESP, [0, 0, 0, 0], env))) s (gatt_write_char h val env) = None)"
proof (intro conjI impI)
  have "unat (0 + (of_nat (length [ATT_OP_PREP_WRITE_RESP]) - 5) :: u16) = 65532" by simp
  then show "prepare_write_cb \<lparr>wl_handle = h, wl_offset = 0, wl_value = val\<rparr> 0 [ATT_OP_PREP_WRITE_RESP] env = None"
    using assms(3) by (simp add: prepare_write_cb_def prepare_write_def Let_def)
  show "prepare_write_cb \<lparr>wl_handle = h, wl_offset = 0, wl_value = val\<rparr> 0 rpdu env = None"
    if "length val + 5 < length rpdu \<and> length rpdu < 65536"
  proof -
    have "(of_nat (length rpdu) - 5 :: u16) = of_nat (length rpdu - 5)" using that by (simp add: of_nat_diff)
    moreover have small: "length rpdu - 5 < 65536" using that by linarith
    ultimately have "unat (0 + (of_nat (length rpdu) - 5) :: u16) = length rpdu - 5" using unat_small [of "length rpdu - 5"] small by (simp del: of_nat_diff)
    moreover have "length val < length rpdu - 5" using that by linarith
    ultimately show ?thesis by (simp add: prepare_write_cb_def prepare_write_def Let_def)
  qed
  show "converse write_cb (\<lambda>s pdu. (s, Some (ATT_OP_PREP_WRITE_RESP, [0, 0, 0, 0], env))) s (gatt_write_char h val env) = None"
    if "length (buffer env) < length val + 3"
  proof -
    let ?wl = "\<lparr>wl_handle = h, wl_offset = 0, wl_value = val\<rparr>" and ?req = "prepare_request (length (buffer env)) h 0 val"
    have env: "copy_ok env" "23 \<le> length (buffer env)" "alloc_ok env 0" "send_ok env" using assms(1) by (auto simp: plenty_def)
    have req: "prepare_write ?wl env = Some (Request ?req (Preparing ?wl))"
      using prepare_write_request [OF assms(1), of 0 val h] assms(3) by simp
    show ?thesis
    proof (rule never_ends [of "\<lambda>out. out = Some (Request ?req (Preparing ?wl))"])
      show "gatt_write_char h val env = Some (Request ?req (Preparing ?wl))"
        using that env req by (auto simp: gatt_write_char_def)
      have "attrib_callback_result (copy_ok env) ATT_OP_PREP_WRITE_RESP [0, 0, 0, 0] = Some (0, [ATT_OP_PREP_WRITE_RESP, 0, 0, 0, 0])"
        using env(1) not_error(4) by (simp add: attrib_callback_result_def construct_full_pdu_def)
      moreover have "write_cb (Preparing ?wl) 0 [ATT_OP_PREP_WRITE_RESP, 0, 0, 0, 0] env = Some (Request ?req (Preparing ?wl))"
        using req assms(2) by (simp add: prepare_write_cb_def Let_def)
      ultimately show "\<exists>pdu d t' opcode rsp env' status full. out = Some (Request pdu d)
          \<and> (t, Some (ATT_OP_PREP_WRITE_RESP, [0, 0, 0, 0], env)) = (t', Some (opcode, rsp, env'))
          \<and> attrib_callback_result (copy_ok env') opcode rsp = Some (status, full)
          \<and> write_cb d status full env' = Some (Request ?req (Preparing ?wl))"
        if "out = Some (Request ?req (Preparing ?wl))" for out t
        using that by blast
    qed
  qed
qed


section \<open>Examples of values\<close>

definition ex_value :: "u8 list" where "ex_value = replicate 30 7"

definition value_server :: "u8 list \<Rightarrow> unit \<Rightarrow> u8 list \<Rightarrow> unit \<times> (u8 \<times> u8 list \<times> att_env) option" where
  "value_server val s pdu = (s, Some (
     if hd pdu = ATT_OP_READ_REQ then (ATT_OP_READ_RESP, take 22 val, ex_env)
     else (ATT_OP_READ_BLOB_RESP, take 22 (drop (unat (get_le16 pdu 3)) val), ex_env)))"

lemma value_server_holds: "length val < 65536 \<Longrightarrow> holds_value (value_server val) 23 h val"
  using get_le16_append [of 3 "ATT_OP_READ_BLOB_REQ # le16 h" _ "[]"] unat_small
  by (auto simp: holds_value_def answers_def value_server_def ex_env_def plenty_def att_ops)

lemma read_char_complete_witness:
  "\<exists>t. converse read_cb (value_server ex_value) () (gatt_read_char 3 ex_env) = Some (Reported 0 (0x0B # ex_value), t)"
  using read_char_complete [OF value_server_holds, of ex_value ex_env "()" 3]
  by (simp add: ex_value_def ex_env_def plenty_def ATT_OP_READ_RESP_def)

lemma write_char_stores_witness:
  "converse write_cb (write_server ex_env) \<lparr>prepared = [], stored = (\<lambda>_. [])\<rparr> (gatt_write_char 3 ex_value ex_env)
    = Some (Reported 0 [0x19], \<lparr>prepared = [], stored = (\<lambda>_. [])(3 := ex_value)\<rparr>)"
  using write_char_stores [OF ex_plenty, of ex_value "\<lparr>prepared = [], stored = (\<lambda>_. [])\<rparr>" 3]
  by (simp add: ex_value_def ex_env_def ATT_OP_EXEC_WRITE_RESP_def)

lemma write_long_trusts_length_witness:
  "prepare_write_cb \<lparr>wl_handle = 3, wl_offset = 0, wl_value = ex_value\<rparr> 0 [0x17] ex_env = None
    \<and> converse write_cb (\<lambda>s pdu. (s, Some (0x17, [0, 0, 0, 0], ex_env))) () (gatt_write_char 3 ex_value ex_env) = None"
  using write_long_trusts_length [OF ex_plenty, of ex_value 3 "[]" "()"]
  by (simp add: ex_value_def ex_env_def ATT_OP_PREP_WRITE_RESP_def)

end
