(* ===== verification/Queue.thy ===== *)
theory Queue
  imports Prelude "HOL-Library.Monad_Syntax"
begin

text \<open>
  \<open>bluez/bluez5/src/shared/queue.c\<close>: the singly linked queue in which \<open>shared/att.c\<close> and \<open>attrib/gattrib.c\<close> keep their
  operations, callbacks and identifiers. The structures live in a heap, so that following a pointer to a freed
  entry is visible: \<open>None\<close> is undefined behaviour. The second part shows that on a queue that is well formed
  every operation is the list operation it stands for, and leaves the rest of the heap alone.
\<close>

section \<open>Structures\<close>

record queue_entry =
  qe_data :: ptr
  qe_next :: ptr

record queue =
  q_ref_count :: int
  q_head :: ptr
  q_tail :: ptr
  q_entries :: u32

text \<open>The heap. \<open>new0\<close> aborts when memory runs out, so it always returns a new object, here at \<open>brk\<close>. A client
  with a state of its own extends the record.\<close>

record qheap =
  queues :: "addr \<Rightarrow> queue option"
  cells :: "addr \<Rightarrow> queue_entry option"
  brk :: addr

definition put_queue :: "addr \<Rightarrow> queue \<Rightarrow> 'z qheap_scheme \<Rightarrow> 'z qheap_scheme" where
  "put_queue q r s = s\<lparr>queues := (queues s)(q \<mapsto> r)\<rparr>"

definition set_next :: "addr \<Rightarrow> ptr \<Rightarrow> 'z qheap_scheme \<Rightarrow> 'z qheap_scheme option" where
  "set_next a n s = do { e \<leftarrow> cells s a; Some (s\<lparr>cells := (cells s)(a \<mapsto> e\<lparr>qe_next := n\<rparr>)\<rparr>) }"

definition free_entry :: "addr \<Rightarrow> 'z qheap_scheme \<Rightarrow> 'z qheap_scheme option" where
  "free_entry a s = do { _ \<leftarrow> cells s a; Some (s\<lparr>cells := (cells s)(a := None)\<rparr>) }"

section \<open>The operations\<close>

definition queue_ref :: "ptr \<Rightarrow> 'z qheap_scheme \<Rightarrow> (ptr \<times> 'z qheap_scheme) option" where
  "queue_ref p s = (case p of None \<Rightarrow> Some (None, s)
     | Some q \<Rightarrow> do {
         r \<leftarrow> queues s q;
         Some (Some q, put_queue q (r\<lparr>q_ref_count := q_ref_count r + 1\<rparr>) s) })"

definition queue_unref :: "addr \<Rightarrow> 'z qheap_scheme \<Rightarrow> 'z qheap_scheme option" where
  "queue_unref q s = do {
     r \<leftarrow> queues s q;
     if q_ref_count r - 1 \<noteq> 0 then Some (put_queue q (r\<lparr>q_ref_count := q_ref_count r - 1\<rparr>) s)
     else Some (s\<lparr>queues := (queues s)(q := None)\<rparr>) }"

definition queue_new :: "'z qheap_scheme \<Rightarrow> (ptr \<times> 'z qheap_scheme) option" where
  "queue_new s = queue_ref (Some (brk s))
     (put_queue (brk s) \<lparr>q_ref_count = 0, q_head = None, q_tail = None, q_entries = 0\<rparr> (s\<lparr>brk := brk s + 1\<rparr>))"

definition queue_entry_new :: "ptr \<Rightarrow> 'z qheap_scheme \<Rightarrow> addr \<times> 'z qheap_scheme" where
  "queue_entry_new d s =
     (brk s, s\<lparr>cells := (cells s)(brk s \<mapsto> \<lparr>qe_data = d, qe_next = None\<rparr>), brk := brk s + 1\<rparr>)"

definition queue_push_tail :: "ptr \<Rightarrow> ptr \<Rightarrow> 'z qheap_scheme \<Rightarrow> (bool \<times> 'z qheap_scheme) option" where
  "queue_push_tail p d s = (case p of None \<Rightarrow> Some (False, s)
     | Some q \<Rightarrow> do {
         let (entry, s) = queue_entry_new d s;
         r \<leftarrow> queues s q;
         s \<leftarrow> (case q_tail r of None \<Rightarrow> Some s | Some t \<Rightarrow> set_next t (Some entry) s);
         Some (True, put_queue q (r\<lparr>q_tail := Some entry,
           q_head := (if q_head r = None then Some entry else q_head r), q_entries := q_entries r + 1\<rparr>) s) })"

definition queue_push_head :: "ptr \<Rightarrow> ptr \<Rightarrow> 'z qheap_scheme \<Rightarrow> (bool \<times> 'z qheap_scheme) option" where
  "queue_push_head p d s = (case p of None \<Rightarrow> Some (False, s)
     | Some q \<Rightarrow> do {
         let (entry, s) = queue_entry_new d s;
         r \<leftarrow> queues s q;
         s \<leftarrow> set_next entry (q_head r) s;
         Some (True, put_queue q (r\<lparr>q_head := Some entry,
           q_tail := (if q_tail r = None then Some entry else q_tail r), q_entries := q_entries r + 1\<rparr>) s) })"

text \<open>The loop of \<open>queue_push_after\<close> and \<open>queue_find\<close>: the first entry, from this one on, whose data match.\<close>

partial_function (option) find_entry :: "(ptr \<Rightarrow> bool) \<Rightarrow> 'z qheap_scheme \<Rightarrow> ptr \<Rightarrow> ptr option" where
  "find_entry f s tmp = (case tmp of None \<Rightarrow> Some None
     | Some a \<Rightarrow> do { e \<leftarrow> cells s a; if f (qe_data e) then Some (Some a) else find_entry f s (qe_next e) })"

definition queue_push_after :: "ptr \<Rightarrow> ptr \<Rightarrow> ptr \<Rightarrow> 'z qheap_scheme \<Rightarrow> (bool \<times> 'z qheap_scheme) option" where
  "queue_push_after p entry d s = (case p of None \<Rightarrow> Some (False, s)
     | Some q \<Rightarrow> do {
         r \<leftarrow> queues s q;
         found \<leftarrow> find_entry (\<lambda>x. x = entry) s (q_head r);
         case found of None \<Rightarrow> Some (False, s)
         | Some a \<Rightarrow> do {
             e \<leftarrow> cells s a;
             let (new, s) = queue_entry_new d s;
             s \<leftarrow> set_next new (qe_next e) s;
             let r = (if qe_next e = None then r\<lparr>q_tail := Some new\<rparr> else r);
             s \<leftarrow> set_next a (Some new) s;
             Some (True, put_queue q (r\<lparr>q_entries := q_entries r + 1\<rparr>) s) } })"

definition queue_pop_head :: "ptr \<Rightarrow> 'z qheap_scheme \<Rightarrow> (ptr \<times> 'z qheap_scheme) option" where
  "queue_pop_head p s = (case p of None \<Rightarrow> Some (None, s)
     | Some q \<Rightarrow> do {
         r \<leftarrow> queues s q;
         case q_head r of None \<Rightarrow> Some (None, s)
         | Some a \<Rightarrow> do {
             e \<leftarrow> cells s a;
             let r = (if qe_next e = None then r\<lparr>q_head := None, q_tail := None\<rparr> else r\<lparr>q_head := qe_next e\<rparr>);
             s \<leftarrow> free_entry a s;
             Some (qe_data e, put_queue q (r\<lparr>q_entries := q_entries r - 1\<rparr>) s) } })"

definition entry_data :: "'z qheap_scheme \<Rightarrow> ptr \<Rightarrow> ptr option" where
  "entry_data s p = (case p of None \<Rightarrow> Some None | Some a \<Rightarrow> do { e \<leftarrow> cells s a; Some (qe_data e) })"

definition queue_peek_head :: "ptr \<Rightarrow> 'z qheap_scheme \<Rightarrow> ptr option" where
  "queue_peek_head p s = (case p of None \<Rightarrow> Some None | Some q \<Rightarrow> do { r \<leftarrow> queues s q; entry_data s (q_head r) })"

definition queue_peek_tail :: "ptr \<Rightarrow> 'z qheap_scheme \<Rightarrow> ptr option" where
  "queue_peek_tail p s = (case p of None \<Rightarrow> Some None | Some q \<Rightarrow> do { r \<leftarrow> queues s q; entry_data s (q_tail r) })"

text \<open>The loop of \<open>queue_foreach\<close> fetches the next entry before it calls the function, and stops when the function
  has emptied the queue or dropped its last other reference.\<close>

partial_function (option) foreach_entries ::
    "(ptr \<Rightarrow> 'z qheap_scheme \<Rightarrow> 'z qheap_scheme option) \<Rightarrow> addr \<Rightarrow> ptr \<Rightarrow> 'z qheap_scheme \<Rightarrow> 'z qheap_scheme option" where
  "foreach_entries f q entry s = (case entry of None \<Rightarrow> Some s
     | Some a \<Rightarrow> do {
         r \<leftarrow> queues s q;
         if q_head r \<noteq> None \<and> q_ref_count r > 1 then do {
           e \<leftarrow> cells s a;
           s \<leftarrow> f (qe_data e) s;
           foreach_entries f q (qe_next e) s }
         else Some s })"

definition queue_foreach ::
    "ptr \<Rightarrow> (ptr \<Rightarrow> 'z qheap_scheme \<Rightarrow> 'z qheap_scheme option) option \<Rightarrow> 'z qheap_scheme \<Rightarrow> 'z qheap_scheme option" where
  "queue_foreach p fn s = (case (p, fn) of (Some q, Some f) \<Rightarrow> do {
         r \<leftarrow> queues s q;
         if q_head r = None then Some s
         else do {
           (_, s) \<leftarrow> queue_ref (Some q) s;
           s \<leftarrow> foreach_entries f q (q_head r) s;
           queue_unref q s } }
     | _ \<Rightarrow> Some s)"

definition direct_match :: "ptr \<Rightarrow> ptr \<Rightarrow> bool" where
  "direct_match a b = (a = b)"

definition queue_find :: "ptr \<Rightarrow> (ptr \<Rightarrow> ptr \<Rightarrow> bool) option \<Rightarrow> ptr \<Rightarrow> 'z qheap_scheme \<Rightarrow> ptr option" where
  "queue_find p fn md s = (case p of None \<Rightarrow> Some None
     | Some q \<Rightarrow> do {
         let f = (case fn of None \<Rightarrow> direct_match | Some f \<Rightarrow> f);
         r \<leftarrow> queues s q;
         found \<leftarrow> find_entry (\<lambda>x. f x md) s (q_head r);
         entry_data s found })"

text \<open>The loop of \<open>queue_remove\<close> and \<open>queue_remove_if\<close>: the first entry that matches, with the one before it.\<close>

partial_function (option) find_with_prev ::
    "(ptr \<Rightarrow> bool) \<Rightarrow> 'z qheap_scheme \<Rightarrow> ptr \<Rightarrow> ptr \<Rightarrow> (ptr \<times> addr) option option" where
  "find_with_prev f s prev entry = (case entry of None \<Rightarrow> Some None
     | Some a \<Rightarrow> do {
         e \<leftarrow> cells s a;
         if f (qe_data e) then Some (Some (prev, a)) else find_with_prev f s (Some a) (qe_next e) })"

text \<open>Taking an entry out, the same lines in both functions.\<close>

definition unlink_entry :: "addr \<Rightarrow> ptr \<Rightarrow> addr \<Rightarrow> 'z qheap_scheme \<Rightarrow> (ptr \<times> 'z qheap_scheme) option" where
  "unlink_entry q prev a s = do {
     r \<leftarrow> queues s q;
     e \<leftarrow> cells s a;
     s \<leftarrow> (case prev of Some b \<Rightarrow> set_next b (qe_next e) s | None \<Rightarrow> Some s);
     let r = (if prev = None then r\<lparr>q_head := qe_next e\<rparr> else r);
     let r = (if qe_next e = None then r\<lparr>q_tail := prev\<rparr> else r);
     s \<leftarrow> free_entry a s;
     Some (qe_data e, put_queue q (r\<lparr>q_entries := q_entries r - 1\<rparr>) s) }"

definition queue_remove :: "ptr \<Rightarrow> ptr \<Rightarrow> 'z qheap_scheme \<Rightarrow> (bool \<times> 'z qheap_scheme) option" where
  "queue_remove p d s = (case p of None \<Rightarrow> Some (False, s)
     | Some q \<Rightarrow> do {
         r \<leftarrow> queues s q;
         found \<leftarrow> find_with_prev (\<lambda>x. x = d) s None (q_head r);
         case found of None \<Rightarrow> Some (False, s)
         | Some (prev, a) \<Rightarrow> do { (_, s) \<leftarrow> unlink_entry q prev a s; Some (True, s) } })"

definition queue_remove_if ::
    "ptr \<Rightarrow> (ptr \<Rightarrow> ptr \<Rightarrow> bool) option \<Rightarrow> ptr \<Rightarrow> 'z qheap_scheme \<Rightarrow> (ptr \<times> 'z qheap_scheme) option" where
  "queue_remove_if p fn ud s = (case (p, fn) of (Some q, Some f) \<Rightarrow> do {
         r \<leftarrow> queues s q;
         found \<leftarrow> find_with_prev (\<lambda>x. f x ud) s None (q_head r);
         case found of None \<Rightarrow> Some (None, s) | Some (prev, a) \<Rightarrow> unlink_entry q prev a s }
     | _ \<Rightarrow> Some (None, s))"

definition call_destroy ::
    "(ptr \<Rightarrow> 'z qheap_scheme \<Rightarrow> 'z qheap_scheme option) option \<Rightarrow> ptr \<Rightarrow> 'z qheap_scheme \<Rightarrow> 'z qheap_scheme option" where
  "call_destroy destroy d s = (case destroy of None \<Rightarrow> Some s | Some f \<Rightarrow> f d s)"

text \<open>The two loops of \<open>queue_remove_all\<close>: removing one match after the other until the counter stays the same,
  and releasing the entries of the queue that has been emptied.\<close>

partial_function (option) remove_matches ::
    "(ptr \<Rightarrow> ptr \<Rightarrow> bool) \<Rightarrow> ptr \<Rightarrow> (ptr \<Rightarrow> 'z qheap_scheme \<Rightarrow> 'z qheap_scheme option) option \<Rightarrow> addr \<Rightarrow> u32 \<Rightarrow>
     'z qheap_scheme \<Rightarrow> (u32 \<times> 'z qheap_scheme) option" where
  "remove_matches f ud destroy q count s = do {
     r \<leftarrow> queues s q;
     (d, s) \<leftarrow> queue_remove_if (Some q) (Some f) ud s;
     r' \<leftarrow> queues s q;
     if q_entries r = q_entries r' then Some (count, s)
     else do { s \<leftarrow> call_destroy destroy d s; remove_matches f ud destroy q (count + 1) s } }"

partial_function (option) release_entries ::
    "(ptr \<Rightarrow> 'z qheap_scheme \<Rightarrow> 'z qheap_scheme option) option \<Rightarrow> ptr \<Rightarrow> u32 \<Rightarrow> 'z qheap_scheme \<Rightarrow>
     (u32 \<times> 'z qheap_scheme) option" where
  "release_entries destroy entry count s = (case entry of None \<Rightarrow> Some (count, s)
     | Some a \<Rightarrow> do {
         e \<leftarrow> cells s a;
         s \<leftarrow> call_destroy destroy (qe_data e) s;
         s \<leftarrow> free_entry a s;
         release_entries destroy (qe_next e) (count + 1) s })"

definition queue_remove_all ::
    "ptr \<Rightarrow> (ptr \<Rightarrow> ptr \<Rightarrow> bool) option \<Rightarrow> ptr \<Rightarrow> (ptr \<Rightarrow> 'z qheap_scheme \<Rightarrow> 'z qheap_scheme option) option \<Rightarrow>
     'z qheap_scheme \<Rightarrow> (u32 \<times> 'z qheap_scheme) option" where
  "queue_remove_all p fn ud destroy s = (case p of None \<Rightarrow> Some (0, s)
     | Some q \<Rightarrow> do {
         r \<leftarrow> queues s q;
         case fn of
           Some f \<Rightarrow> (if q_head r = None then Some (0, s) else remove_matches f ud destroy q 0 s)
         | None \<Rightarrow> release_entries destroy (q_head r) 0
             (put_queue q (r\<lparr>q_head := None, q_tail := None, q_entries := 0\<rparr>) s) })"

definition queue_destroy ::
    "ptr \<Rightarrow> (ptr \<Rightarrow> 'z qheap_scheme \<Rightarrow> 'z qheap_scheme option) option \<Rightarrow> 'z qheap_scheme \<Rightarrow> 'z qheap_scheme option" where
  "queue_destroy p destroy s = (case p of None \<Rightarrow> Some s
     | Some q \<Rightarrow> do { (_, s) \<leftarrow> queue_remove_all p None None destroy s; queue_unref q s })"

definition queue_get_entries :: "ptr \<Rightarrow> 'z qheap_scheme \<Rightarrow> ptr option" where
  "queue_get_entries p s = (case p of None \<Rightarrow> Some None | Some q \<Rightarrow> do { r \<leftarrow> queues s q; Some (q_head r) })"

definition queue_length :: "ptr \<Rightarrow> 'z qheap_scheme \<Rightarrow> u32 option" where
  "queue_length p s = (case p of None \<Rightarrow> Some 0 | Some q \<Rightarrow> do { r \<leftarrow> queues s q; Some (q_entries r) })"

definition queue_isempty :: "ptr \<Rightarrow> 'z qheap_scheme \<Rightarrow> bool option" where
  "queue_isempty p s = (case p of None \<Rightarrow> Some True | Some q \<Rightarrow> do { r \<leftarrow> queues s q; Some (q_entries r = 0) })"

section \<open>What a queue in the heap stands for\<close>

text \<open>The entries of a queue are listed with their addresses. \<open>layout z ps\<close> is the part of the heap they take, the
  last one pointing to \<open>z\<close>; \<open>first z ps\<close> is the pointer to the first.\<close>

fun first :: "ptr \<Rightarrow> (addr \<times> ptr) list \<Rightarrow> ptr" where
  "first z [] = z"
| "first z ((a, d) # ps) = Some a"

fun layout :: "ptr \<Rightarrow> (addr \<times> ptr) list \<Rightarrow> addr \<Rightarrow> queue_entry option" where
  "layout z [] = Map.empty"
| "layout z ((a, d) # ps) = (layout z ps)(a \<mapsto> \<lparr>qe_data = d, qe_next = first z ps\<rparr>)"

definition last_entry :: "(addr \<times> ptr) list \<Rightarrow> ptr" where
  "last_entry ps = (if ps = [] then None else Some (fst (List.last ps)))"

text \<open>The queue at \<open>q\<close>, referenced \<open>n\<close> times, has the entries \<open>ps\<close>. The rest of the heap, its queues \<open>FQ\<close> and its
  entries \<open>FC\<close>, is the frame.\<close>

definition queue_rep :: "addr \<Rightarrow> int \<Rightarrow> (addr \<times> ptr) list \<Rightarrow> (addr \<Rightarrow> queue option) \<Rightarrow> (addr \<Rightarrow> queue_entry option) \<Rightarrow>
    'z qheap_scheme \<Rightarrow> bool" where
  "queue_rep q n ps FQ FC s \<longleftrightarrow>
     queues s = FQ(q \<mapsto> \<lparr>q_ref_count = n, q_head = first None ps, q_tail = last_entry ps, q_entries = of_nat (length ps)\<rparr>)
     \<and> cells s = FC ++ layout None ps \<and> distinct (map fst ps) \<and> fst ` set ps \<inter> dom FC = {}
     \<and> FQ q = None \<and> 0 < n \<and> (\<forall>a\<in>dom (cells s). a < brk s) \<and> (\<forall>a\<in>dom (queues s). a < brk s)"

definition holds_list :: "addr \<Rightarrow> int \<Rightarrow> ptr list \<Rightarrow> (addr \<Rightarrow> queue option) \<Rightarrow> (addr \<Rightarrow> queue_entry option) \<Rightarrow>
    'z qheap_scheme \<Rightarrow> bool" where
  "holds_list q n xs FQ FC s \<longleftrightarrow> (\<exists>ps. map snd ps = xs \<and> queue_rep q n ps FQ FC s)"

lemma first_append [simp]: "first z (ps @ qs) = first (first z qs) ps"
  by (cases ps) auto

lemma first_None [simp]: "first None ps = None \<longleftrightarrow> ps = []"
  by (cases ps) auto

lemma first_Some [simp]: "first (Some z) ps \<noteq> None" "first (Some z) ps = Some y \<longleftrightarrow> (ps = [] \<and> z = y) \<or> (ps \<noteq> [] \<and> first None ps = Some y)"
  by (cases ps; auto)+

lemma last_entry_simps [simp]:
  "last_entry [] = None" "last_entry (ps @ [p]) = Some (fst p)" "last_entry [p] = Some (fst p)"
  "last_entry (p # r # ps) = last_entry (r # ps)" "last_entry ps = None \<longleftrightarrow> ps = []"
  "qs \<noteq> [] \<Longrightarrow> last_entry (ps @ qs) = last_entry qs"
  by (auto simp: last_entry_def)

lemma dom_layout [simp]: "dom (layout z ps) = fst ` set ps"
proof (induction z ps rule: layout.induct)
  case (2 z a d ps)
  then show ?case by (simp only: layout.simps dom_fun_upd) simp
qed simp

lemma layout_fresh [simp]: "a \<notin> fst ` set ps \<Longrightarrow> layout z ps a = None"
  using dom_layout [of z ps] by blast

lemma layout_append: "layout z (ps @ qs) = layout z qs ++ layout (first z qs) ps"
  by (induction "first z qs" ps rule: layout.induct) auto

lemma layout_at [simp]:
  assumes "distinct (map fst (ps @ (a, d) # qs))"
  shows "layout z (ps @ (a, d) # qs) a = Some \<lparr>qe_data = d, qe_next = first z qs\<rparr>"
  using assms by (auto simp: layout_append map_add_def split: option.splits)

lemma layout_set_next:
  assumes "distinct (map fst (ps @ [(a, d)]))"
  shows "(layout z (ps @ [(a, d)]))(a \<mapsto> \<lparr>qe_data = d, qe_next = z'\<rparr>) = layout z' (ps @ [(a, d)])"
  using assms by (auto simp: layout_append fun_eq_iff map_add_def split: option.splits)

lemma queue_rep_fresh:
  assumes "queue_rep q n ps FQ FC s"
  shows "brk s \<notin> fst ` set ps" "FC (brk s) = None" "brk s \<noteq> q"
proof -
  have d: "dom (cells s) = dom FC \<union> fst ` set ps" "q \<in> dom (queues s)" using assms by (auto simp: queue_rep_def)
  then have "brk s \<notin> dom (cells s)" using assms by (auto simp: queue_rep_def)
  then show "brk s \<notin> fst ` set ps" "FC (brk s) = None" unfolding d(1) by auto
  show "brk s \<noteq> q" using d(2) assms by (auto simp: queue_rep_def)
qed

lemma queue_rep_cell:
  assumes "queue_rep q n (ps @ (a, d) # qs) FQ FC s"
  shows "cells s a = Some \<lparr>qe_data = d, qe_next = first None qs\<rparr>"
proof -
  have "distinct (map fst (ps @ (a, d) # qs))" and c: "cells s = FC ++ layout None (ps @ (a, d) # qs)"
    using assms unfolding queue_rep_def by auto
  from layout_at [OF this(1)] have "layout None (ps @ (a, d) # qs) a = Some \<lparr>qe_data = d, qe_next = first None qs\<rparr>" .
  then show ?thesis unfolding c by (simp add: map_add_Some_iff)
qed

lemma queue_rep_queue:
  "queue_rep q n ps FQ FC s \<Longrightarrow>
   queues s q = Some \<lparr>q_ref_count = n, q_head = first None ps, q_tail = last_entry ps, q_entries = of_nat (length ps)\<rparr>"
  by (simp add: queue_rep_def)

lemma queue_push_head_rep:
  assumes "queue_rep q n ps FQ FC s"
  shows "\<exists>s'. queue_push_head (Some q) d s = Some (True, s') \<and> queue_rep q n ((brk s, d) # ps) FQ FC s' \<and> more s' = more s"
proof -
  note f = queue_rep_fresh [OF assms] and r = assms [unfolded queue_rep_def]
  show ?thesis
    using r f by (cases ps rule: rev_cases) (auto simp: queue_push_head_def queue_entry_new_def set_next_def put_queue_def queue_rep_def
        last_entry_def add.commute less_Suc_eq)
qed

lemma queue_push_tail_rep:
  assumes "queue_rep q n ps FQ FC s"
  shows "\<exists>s'. queue_push_tail (Some q) d s = Some (True, s') \<and> queue_rep q n (ps @ [(brk s, d)]) FQ FC s' \<and> more s' = more s"
proof (cases ps rule: rev_cases)
  case Nil
  then show ?thesis
    using assms queue_rep_fresh [OF assms]
    by (auto simp: queue_push_tail_def queue_entry_new_def set_next_def put_queue_def queue_rep_def last_entry_def less_Suc_eq)
next
  case (snoc ps0 p)
  obtain t dt where p: "p = (t, dt)" by force
  note f = queue_rep_fresh [OF assms] and r = assms [unfolded queue_rep_def]
  have ct: "cells s t = Some \<lparr>qe_data = dt, qe_next = None\<rparr>"
    using assms queue_rep_cell [of q n ps0 t dt "[]" FQ FC s] by (simp add: snoc p)
  have d: "distinct (map fst (ps0 @ [(t, dt)]))" using r snoc p by simp
  have c: "cells s = FC ++ layout None (ps0 @ [(t, dt)])" using r snoc p by simp
  have "layout None (ps @ [(brk s, d)]) = (layout None ps)(brk s \<mapsto> \<lparr>qe_data = d, qe_next = None\<rparr>, t \<mapsto> \<lparr>qe_data = dt, qe_next = Some (brk s)\<rparr>)"
    using f(1) d unfolding snoc p layout_append [of None _ "[(brk s, d)]"] 
    by (auto simp: layout_set_next [OF d, of None "Some (brk s)", symmetric] fun_eq_iff map_add_def split: option.splits)
  then show ?thesis
    using ct r f snoc p
    by (auto simp: queue_push_tail_def queue_entry_new_def set_next_def put_queue_def queue_rep_def add.commute less_Suc_eq)
qed

lemma last_entry_cons [simp]: "ys \<noteq> [] \<Longrightarrow> last_entry (p # ys) = last_entry ys"
  by (simp add: last_entry_def)

lemma layout_insert:
  assumes "distinct (map fst (xs @ (a, e) # ys))" "b \<notin> fst ` set (xs @ (a, e) # ys)"
  shows "layout z (xs @ (a, e) # (b, d) # ys) =
    (layout z (xs @ (a, e) # ys))(b \<mapsto> \<lparr>qe_data = d, qe_next = first z ys\<rparr>, a \<mapsto> \<lparr>qe_data = e, qe_next = Some b\<rparr>)"
  using assms by (auto simp: layout_append fun_eq_iff map_add_def image_Un split: option.splits)

lemma layout_drop_head:
  assumes "distinct (map fst ((a, d) # ys))"
  shows "layout z ys = (layout z ((a, d) # ys))(a := None)"
  using assms by (auto simp: fun_eq_iff)

lemma layout_drop:
  assumes "distinct (map fst (xs @ (b, e) # (a, d) # ys))"
  shows "layout z (xs @ (b, e) # ys) =
    (layout z (xs @ (b, e) # (a, d) # ys))(b \<mapsto> \<lparr>qe_data = e, qe_next = first z ys\<rparr>, a := None)"
  using assms by (auto simp: layout_append fun_eq_iff map_add_def split: option.splits)

lemma map_add_drop: "FC a = None \<Longrightarrow> (FC ++ f)(a := None) = FC ++ f(a := None)"
  by (auto simp: fun_eq_iff map_add_def)

lemma queue_rep_fresh_cell: "queue_rep q n (xs @ (a, d) # ys) FQ FC s \<Longrightarrow> FC a = None"
  by (auto simp: queue_rep_def)

lemma insert_after_rep:
  assumes r: "queue_rep q n (xs @ (a, e) # ys) FQ FC s"
    and s': "queues s' = FQ(q \<mapsto> \<lparr>q_ref_count = n, q_head = first None (xs @ (a, e) # ys),
       q_tail = last_entry (xs @ (a, e) # (brk s, d) # ys), q_entries = of_nat (length (xs @ ys) + 2)\<rparr>)"
      "cells s' = (cells s)(brk s \<mapsto> \<lparr>qe_data = d, qe_next = first None ys\<rparr>, a \<mapsto> \<lparr>qe_data = e, qe_next = Some (brk s)\<rparr>)"
      "brk s' = brk s + 1"
  shows "queue_rep q n (xs @ (a, e) # (brk s, d) # ys) FQ FC s'"
proof -
  note f = queue_rep_fresh [OF r] and r' = r [unfolded queue_rep_def]
  have d: "distinct (map fst (xs @ (a, e) # ys))" using r' by blast
  show ?thesis
    unfolding queue_rep_def layout_insert [OF d f(1)] s'
    using r' f by (auto simp: less_Suc_eq)
qed

lemma find_entry_none:
  "queue_rep q n (ps @ qs) FQ FC s \<Longrightarrow> \<forall>p\<in>set qs. \<not> f (snd p) \<Longrightarrow> find_entry f s (first None qs) = Some None"
proof (induction qs arbitrary: ps)
  case (Cons p qs)
  obtain a d where p: "p = (a, d)" by force
  have "cells s a = Some \<lparr>qe_data = d, qe_next = first None qs\<rparr>" using Cons.prems p queue_rep_cell by fast
  moreover have "queue_rep q n ((ps @ [p]) @ qs) FQ FC s" using Cons.prems by simp
  note Cons.IH [OF this]
  ultimately show ?case using p Cons.prems by (subst find_entry.simps) simp
qed (subst find_entry.simps, simp)

lemma find_entry_some:
  "queue_rep q n (ps @ qs @ (a, d) # ys) FQ FC s \<Longrightarrow> \<forall>p\<in>set qs. \<not> f (snd p) \<Longrightarrow> f d \<Longrightarrow>
   find_entry f s (first (Some a) qs) = Some (Some a)"
proof (induction qs arbitrary: ps)
  case Nil
  then have "cells s a = Some \<lparr>qe_data = d, qe_next = first None ys\<rparr>" using queue_rep_cell by fastforce
  then show ?case using Nil by (subst find_entry.simps) simp
next
  case (Cons p qs)
  obtain b e where p: "p = (b, e)" by force
  have "cells s b = Some \<lparr>qe_data = e, qe_next = first (Some a) qs\<rparr>"
    using Cons.prems(1) queue_rep_cell [of q n ps b e "qs @ (a, d) # ys" FQ FC s] by (simp add: p)
  moreover have "queue_rep q n ((ps @ [p]) @ qs @ (a, d) # ys) FQ FC s" using Cons.prems by simp
  note Cons.IH [OF this]
  ultimately show ?case using p Cons.prems by (subst find_entry.simps) simp
qed

text \<open>The list operations that the loops stand for.\<close>

fun insert_after :: "'a \<Rightarrow> 'a \<Rightarrow> 'a list \<Rightarrow> 'a list" where
  "insert_after x d [] = []"
| "insert_after x d (y # ys) = (if y = x then y # d # ys else y # insert_after x d ys)"

fun remove_first :: "('a \<Rightarrow> bool) \<Rightarrow> 'a list \<Rightarrow> 'a list" where
  "remove_first f [] = []"
| "remove_first f (y # ys) = (if f y then ys else y # remove_first f ys)"

lemma insert_after_append: "x \<notin> set xs \<Longrightarrow> insert_after x d (xs @ x # ys) = xs @ x # d # ys"
  by (induction xs) auto

lemma insert_after_absent: "x \<notin> set xs \<Longrightarrow> insert_after x d xs = xs"
  by (induction xs) auto

lemma remove_first_append: "\<forall>x\<in>set xs. \<not> f x \<Longrightarrow> f y \<Longrightarrow> remove_first f (xs @ y # ys) = xs @ ys"
  by (induction xs) auto

lemma remove_first_absent: "\<forall>x\<in>set xs. \<not> f x \<Longrightarrow> remove_first f xs = xs"
  by (induction xs) auto

lemma find_first:
  obtains (absent) "\<forall>p\<in>set ps. \<not> f (snd p)"
  | (present) xs a d ys where "ps = xs @ (a, d) # ys" "f d" "\<forall>p\<in>set xs. \<not> f (snd p)"
proof (cases "\<exists>p\<in>set ps. f (snd p)")
  case True
  then show ?thesis using present split_list_first_prop [of ps "\<lambda>p. f (snd p)"] by fastforce
qed (use absent in blast)

lemma queue_push_after_rep:
  assumes r: "queue_rep q n ps FQ FC s"
  shows "\<exists>s' ps'. queue_push_after (Some q) x d s = Some (x \<in> set (map snd ps), s')
    \<and> queue_rep q n ps' FQ FC s' \<and> map snd ps' = insert_after x d (map snd ps) \<and> more s' = more s"
proof (cases rule: find_first [of ps "\<lambda>y. y = x"])
  case absent
  then have x: "x \<notin> set (map snd ps)" by auto
  show ?thesis
    using r x absent find_entry_none [of q n "[]" ps FQ FC s "\<lambda>y. y = x"]
    by (auto simp: queue_push_after_def queue_rep_queue insert_after_absent)
next
  case (present xs a e ys)
  let ?s = "s\<lparr>cells := (cells s)(brk s \<mapsto> \<lparr>qe_data = d, qe_next = first None ys\<rparr>, a \<mapsto> \<lparr>qe_data = e, qe_next = Some (brk s)\<rparr>),
      brk := brk s + 1, queues := FQ(q \<mapsto> \<lparr>q_ref_count = n, q_head = first None (xs @ (a, e) # ys),
       q_tail = last_entry (xs @ (a, e) # (brk s, d) # ys), q_entries = of_nat (length (xs @ ys) + 2)\<rparr>)\<rparr>"
  have r': "queue_rep q n (xs @ (a, e) # ys) FQ FC s" using r present by simp
  note c = queue_rep_cell [OF this] and f = queue_rep_fresh [OF this]
  have rep: "queue_rep q n (xs @ (a, e) # (brk s, d) # ys) FQ FC ?s"
    by (rule insert_after_rep [OF r']) simp_all
  have "queue_push_after (Some q) x d s = Some (True, ?s)"
    using c f present find_entry_some [of q n "[]" xs a e ys FQ FC s "\<lambda>y. y = x"] r r' queue_rep_queue [OF r']
    by (auto simp: queue_push_after_def queue_entry_new_def set_next_def put_queue_def Let_def fun_upd_twist queue_rep_def)
  moreover have "insert_after x d (map snd ps) = map snd (xs @ (a, e) # (brk s, d) # ys)"
    using present insert_after_append [of x "map snd xs" d "map snd ys"] by auto
  ultimately show ?thesis using rep present by force
qed

lemma entry_data_rep:
  assumes "queue_rep q n ps FQ FC s"
  shows "entry_data s (first None ps) = Some (if ps = [] then None else snd (hd ps))"
    and "entry_data s (last_entry ps) = Some (if ps = [] then None else snd (List.last ps))"
proof -
  show "entry_data s (first None ps) = Some (if ps = [] then None else snd (hd ps))"
    using assms queue_rep_cell [of q n "[]" _ _ "tl ps" FQ FC s] by (cases ps) (auto simp: entry_data_def)
  show "entry_data s (last_entry ps) = Some (if ps = [] then None else snd (List.last ps))"
    using assms queue_rep_cell [of q n "butlast ps" "fst (List.last ps)" "snd (List.last ps)" "[]" FQ FC s]
    by (cases ps rule: rev_cases) (auto simp: entry_data_def)
qed

lemma queue_rep_drop_head:
  assumes r: "queue_rep q n ((a, d) # ys) FQ FC s"
    and s': "queues s' = FQ(q \<mapsto> \<lparr>q_ref_count = n, q_head = first None ys, q_tail = last_entry ys, q_entries = of_nat (length ys)\<rparr>)"
      "cells s' = (cells s)(a := None)" "brk s' = brk s"
  shows "queue_rep q n ys FQ FC s'"
proof -
  note r' = r [unfolded queue_rep_def]
  have d: "distinct (map fst ((a, d) # ys))" "FC a = None" using r' by auto
  have B: "\<forall>x\<in>dom (cells s). x < brk s" using r' by blast
  have "cells s' = FC ++ layout None ys"
    unfolding s' layout_drop_head [OF d(1)] using r' d(2) by (simp add: map_add_drop)
  moreover have "\<forall>x\<in>dom (cells s'). x < brk s'" using B by (auto simp: s' split: if_splits)
  ultimately show ?thesis
    unfolding queue_rep_def using r' s' by simp
qed

lemma queue_rep_drop:
  assumes r: "queue_rep q n (xs @ (b, e) # (a, d) # ys) FQ FC s"
    and s': "queues s' = FQ(q \<mapsto> \<lparr>q_ref_count = n, q_head = first None (xs @ (b, e) # ys), q_tail = last_entry (xs @ (b, e) # ys),
        q_entries = of_nat (length (xs @ (b, e) # ys))\<rparr>)"
      "cells s' = (cells s)(b \<mapsto> \<lparr>qe_data = e, qe_next = first None ys\<rparr>, a := None)" "brk s' = brk s"
  shows "queue_rep q n (xs @ (b, e) # ys) FQ FC s'"
proof -
  note r' = r [unfolded queue_rep_def]
  have d: "distinct (map fst (xs @ (b, e) # (a, d) # ys))" "FC a = None" using r' by auto
  have b: "b \<in> dom (cells s)" using queue_rep_cell [OF r] by blast
  have B: "\<forall>x\<in>dom (cells s). x < brk s" using r' by blast
  have "cells s' = FC ++ layout None (xs @ (b, e) # ys)"
    unfolding s' layout_drop [OF d(1)] using r' d(2) by (simp add: map_add_drop [symmetric])
  moreover have "\<forall>x\<in>dom (cells s'). x < brk s'" using B b by (auto simp: s' split: if_splits)
  ultimately show ?thesis
    unfolding queue_rep_def using r' s' by simp
qed

lemma queue_pop_head_rep:
  assumes r: "queue_rep q n ps FQ FC s"
  shows "\<exists>s'. queue_pop_head (Some q) s = Some (if ps = [] then None else snd (hd ps), s')
    \<and> queue_rep q n (tl ps) FQ FC s' \<and> more s' = more s"
proof (cases ps)
  case Nil
  then show ?thesis using r by (auto simp: queue_pop_head_def queue_rep_queue)
next
  case (Cons p ys)
  obtain a d where p: "p = (a, d)" by force
  have r': "queue_rep q n ((a, d) # ys) FQ FC s" using r Cons p by simp
  note c = queue_rep_cell [of q n "[]" a d ys FQ FC s]
  let ?s = "s\<lparr>cells := (cells s)(a := None), queues := FQ(q \<mapsto> \<lparr>q_ref_count = n, q_head = first None ys, q_tail = last_entry ys,
      q_entries = of_nat (length ys)\<rparr>)\<rparr>"
  have "queue_rep q n ys FQ FC ?s" by (rule queue_rep_drop_head [OF r']) simp_all
  moreover have "queue_pop_head (Some q) s = Some (d, ?s)"
    using c r' by (cases "ys = []") (auto simp: queue_pop_head_def free_entry_def put_queue_def Let_def queue_rep_def)
  ultimately show ?thesis using Cons p by auto
qed

lemma find_with_prev_none:
  "queue_rep q n (ps @ qs) FQ FC s \<Longrightarrow> \<forall>p\<in>set qs. \<not> f (snd p) \<Longrightarrow> find_with_prev f s prev (first None qs) = Some None"
proof (induction qs arbitrary: ps prev)
  case (Cons p qs)
  obtain a d where p: "p = (a, d)" by force
  have "cells s a = Some \<lparr>qe_data = d, qe_next = first None qs\<rparr>" using Cons.prems p queue_rep_cell by fast
  moreover have "queue_rep q n ((ps @ [p]) @ qs) FQ FC s" using Cons.prems by simp
  note Cons.IH [OF this]
  ultimately show ?case using p Cons.prems by (subst find_with_prev.simps) simp
qed (subst find_with_prev.simps, simp)

lemma find_with_prev_some:
  "queue_rep q n (ps @ qs @ (a, d) # ys) FQ FC s \<Longrightarrow> \<forall>p\<in>set qs. \<not> f (snd p) \<Longrightarrow> f d \<Longrightarrow>
   find_with_prev f s prev (first (Some a) qs) = Some (Some (if qs = [] then prev else last_entry qs, a))"
proof (induction qs arbitrary: ps prev)
  case Nil
  then have "cells s a = Some \<lparr>qe_data = d, qe_next = first None ys\<rparr>" using queue_rep_cell by fastforce
  then show ?case using Nil by (subst find_with_prev.simps) simp
next
  case (Cons p qs)
  obtain b e where p: "p = (b, e)" by force
  have "cells s b = Some \<lparr>qe_data = e, qe_next = first (Some a) qs\<rparr>"
    using Cons.prems(1) queue_rep_cell [of q n ps b e "qs @ (a, d) # ys" FQ FC s] by (simp add: p)
  moreover have "queue_rep q n ((ps @ [p]) @ qs @ (a, d) # ys) FQ FC s" using Cons.prems by simp
  note Cons.IH [OF this]
  ultimately show ?case using p Cons.prems by (subst find_with_prev.simps) simp
qed

lemma unlink_entry_rep:
  assumes r: "queue_rep q n (xs @ (a, d) # ys) FQ FC s"
  shows "\<exists>s'. unlink_entry q (last_entry xs) a s = Some (d, s') \<and> queue_rep q n (xs @ ys) FQ FC s' \<and> more s' = more s"
proof (cases xs rule: rev_cases)
  case Nil
  let ?s = "s\<lparr>cells := (cells s)(a := None), queues := FQ(q \<mapsto> \<lparr>q_ref_count = n, q_head = first None ys, q_tail = last_entry ys,
      q_entries = of_nat (length ys)\<rparr>)\<rparr>"
  have r': "queue_rep q n ((a, d) # ys) FQ FC s" using r Nil by simp
  have "queue_rep q n ys FQ FC ?s" by (rule queue_rep_drop_head [OF r']) simp_all
  moreover have "unlink_entry q (last_entry xs) a s = Some (d, ?s)"
    using queue_rep_cell [OF r] r Nil
    by (cases "ys = []") (auto simp: unlink_entry_def free_entry_def put_queue_def Let_def queue_rep_def)
  ultimately show ?thesis using Nil by auto
next
  case (snoc xs0 p)
  obtain b e where p: "p = (b, e)" by force
  let ?s = "s\<lparr>cells := (cells s)(b \<mapsto> \<lparr>qe_data = e, qe_next = first None ys\<rparr>, a := None),
      queues := FQ(q \<mapsto> \<lparr>q_ref_count = n, q_head = first None (xs0 @ (b, e) # ys), q_tail = last_entry (xs0 @ (b, e) # ys),
        q_entries = of_nat (length (xs0 @ (b, e) # ys))\<rparr>)\<rparr>"
  have r': "queue_rep q n (xs0 @ (b, e) # (a, d) # ys) FQ FC s" using r snoc p by simp
  have "queue_rep q n (xs0 @ (b, e) # ys) FQ FC ?s" by (rule queue_rep_drop [OF r']) simp_all
  moreover have "unlink_entry q (last_entry xs) a s = Some (d, ?s)"
    using queue_rep_cell [OF r] queue_rep_cell [OF r'] r' snoc p
    by (cases "ys = []") (auto simp: unlink_entry_def free_entry_def set_next_def put_queue_def Let_def queue_rep_def)
  ultimately show ?thesis using snoc p by auto
qed

lemma queue_remove_rep:
  assumes r: "queue_rep q n ps FQ FC s"
  shows "\<exists>s' ps'. queue_remove (Some q) d s = Some (d \<in> set (map snd ps), s')
    \<and> queue_rep q n ps' FQ FC s' \<and> map snd ps' = remove_first (\<lambda>x. x = d) (map snd ps)
    \<and> (\<forall>pre post. ps = pre @ post \<longrightarrow> d \<in> set (map snd pre) \<longrightarrow> (\<exists>pre'. ps' = pre' @ post)) \<and> more s' = more s"
proof (cases rule: find_first [of ps "\<lambda>x. x = d"])
  case absent
  then have "d \<notin> set (map snd ps)" by auto
  then show ?thesis
    using r absent find_with_prev_none [of q n "[]" ps FQ FC s "\<lambda>x. x = d" None]
      remove_first_absent [of "map snd ps" "\<lambda>x. x = d"]
    by (auto simp: queue_remove_def queue_rep_queue)
next
  case (present xs a e ys)
  have r': "queue_rep q n (xs @ (a, e) # ys) FQ FC s" using r present by simp
  from unlink_entry_rep [OF r'] obtain s' where
    u: "unlink_entry q (last_entry xs) a s = Some (e, s')" "queue_rep q n (xs @ ys) FQ FC s'" "more s' = more s" by blast
  have "find_with_prev (\<lambda>x. x = d) s None (first None ps) = Some (Some (last_entry xs, a))"
    using find_with_prev_some [of q n "[]" xs a e ys FQ FC s "\<lambda>x. x = d" None] r' present by auto
  then have "queue_remove (Some q) d s = Some (True, s')"
    using u(1) queue_rep_queue [OF r] by (simp add: queue_remove_def)
  moreover have "map snd (xs @ ys) = remove_first (\<lambda>x. x = d) (map snd ps)"
    using present remove_first_append [of "map snd xs" "\<lambda>x. x = d" e "map snd ys"] by simp
  moreover have "\<exists>pre'. xs @ ys = pre' @ post" if "ps = pre @ post" "d \<in> set (map snd pre)" for pre post
  proof -
    have "length xs < length pre"
    proof (rule ccontr)
      assume "\<not> length xs < length pre"
      then have "set pre \<subseteq> set xs" using that(1) present(1) by (metis append_eq_append_conv_if linorder_not_less set_take_subset)
      then show False using that(2) present(3) by auto
    qed
    then have "ys = drop (length xs + 1) pre @ post"
      using that(1) present(1) by (auto simp: append_eq_append_conv2 Cons_eq_append_conv)
    then show ?thesis by (metis append.assoc)
  qed
  ultimately show ?thesis using u present by (intro exI [of _ s'] exI [of _ "xs @ ys"]) auto
qed

lemma queue_remove_if_rep:
  assumes r: "queue_rep q n ps FQ FC s"
  shows "\<exists>s' ps'. queue_remove_if (Some q) (Some f) ud s =
      Some (case List.find (\<lambda>x. f x ud) (map snd ps) of None \<Rightarrow> None | Some x \<Rightarrow> x, s')
    \<and> queue_rep q n ps' FQ FC s' \<and> map snd ps' = remove_first (\<lambda>x. f x ud) (map snd ps) \<and> more s' = more s"
proof (cases rule: find_first [of ps "\<lambda>x. f x ud"])
  case absent
  then have "List.find (\<lambda>x. f x ud) (map snd ps) = None" by (auto simp: find_None_iff)
  then show ?thesis
    using r absent find_with_prev_none [of q n "[]" ps FQ FC s "\<lambda>x. f x ud" None]
      remove_first_absent [of "map snd ps" "\<lambda>x. f x ud"]
    by (auto simp: queue_remove_if_def queue_rep_queue)
next
  case (present xs a e ys)
  have r': "queue_rep q n (xs @ (a, e) # ys) FQ FC s" using r present by simp
  from unlink_entry_rep [OF r'] obtain s' where
    u: "unlink_entry q (last_entry xs) a s = Some (e, s')" "queue_rep q n (xs @ ys) FQ FC s'" "more s' = more s" by blast
  have "find_with_prev (\<lambda>x. f x ud) s None (first None ps) = Some (Some (last_entry xs, a))"
    using find_with_prev_some [of q n "[]" xs a e ys FQ FC s "\<lambda>x. f x ud" None] r' present by auto
  moreover have "List.find (\<lambda>x. f x ud) (map snd xs @ e # map snd ys) = Some e"
    using present(2,3) by (induction xs) auto
  ultimately have "queue_remove_if (Some q) (Some f) ud s =
      Some (case List.find (\<lambda>x. f x ud) (map snd ps) of None \<Rightarrow> None | Some x \<Rightarrow> x, s')"
    using u(1) queue_rep_queue [OF r] present(1) by (simp add: queue_remove_if_def)
  moreover have "map snd (xs @ ys) = remove_first (\<lambda>x. f x ud) (map snd ps)"
    using present remove_first_append [of "map snd xs" "\<lambda>x. f x ud" e "map snd ys"] by simp
  ultimately show ?thesis using u by blast
qed

lemma queue_find_rep:
  assumes r: "queue_rep q n ps FQ FC s"
  shows "queue_find (Some q) fn md s = Some (case List.find (\<lambda>x. (case fn of None \<Rightarrow> direct_match | Some f \<Rightarrow> f) x md) (map snd ps) of
     None \<Rightarrow> None | Some x \<Rightarrow> x)"
proof -
  let ?f = "\<lambda>x. (case fn of None \<Rightarrow> direct_match | Some f \<Rightarrow> f) x md"
  show ?thesis
  proof (cases rule: find_first [of ps ?f])
    case absent
    then have "List.find ?f (map snd ps) = None" by (auto simp: find_None_iff)
    then show ?thesis
      using r absent find_entry_none [of q n "[]" ps FQ FC s ?f] by (simp add: queue_find_def queue_rep_queue entry_data_def)
  next
    case (present xs a e ys)
    have r': "queue_rep q n (xs @ (a, e) # ys) FQ FC s" using r present by simp
    have "List.find ?f (map snd xs @ e # map snd ys) = Some e"
      using present(2,3) by (induction xs) auto
    then show ?thesis
      using find_entry_some [of q n "[]" xs a e ys FQ FC s ?f] r' present queue_rep_queue [OF r] queue_rep_cell [OF r']
      by (simp add: queue_find_def entry_data_def)
  qed
qed

section \<open>Iterating and emptying, with functions that use the queue\<close>

text \<open>What \<open>queue_foreach\<close> asks of its function: the entries that are still to come stay where they are. It may
  remove the entry it is called for, or any before it, and push new ones at the head; \<open>left\<close> is what is known of the
  part of the queue that has been visited.\<close>

locale entry_visitor =
  fixes q :: addr and f :: "ptr \<Rightarrow> 'z qheap_scheme \<Rightarrow> 'z qheap_scheme option" and visit :: "ptr \<Rightarrow> 'z \<Rightarrow> 'z"
    and left :: "(addr \<times> ptr) list \<Rightarrow> bool"
  assumes start: "left []"
    and visited: "queue_rep q n (pre @ (a, d) # post) FQ FC s \<Longrightarrow> left pre \<Longrightarrow>
    \<exists>s' pre'. f d s = Some s' \<and> queue_rep q n (pre' @ post) FQ FC s' \<and> left pre' \<and> more s' = visit d (more s)"
begin

lemma foreach_entries_visits:
  "queue_rep q n (pre @ post) FQ FC s \<Longrightarrow> 1 < n \<Longrightarrow> left pre \<Longrightarrow>
   \<exists>s' ps'. foreach_entries f q (first None post) s = Some s' \<and> queue_rep q n ps' FQ FC s' \<and> left ps'
     \<and> more s' = fold visit (map snd post) (more s)"
proof (induction post arbitrary: pre s)
  case Nil
  then show ?case by (subst foreach_entries.simps) auto
next
  case (Cons p post)
  obtain a d where p: "p = (a, d)" by force
  have r: "queue_rep q n (pre @ (a, d) # post) FQ FC s" using Cons.prems p by simp
  obtain s' pre' where f: "f d s = Some s'" "queue_rep q n (pre' @ post) FQ FC s'" "left pre'" "more s' = visit d (more s)"
    using visited [OF r Cons.prems(3)] by blast
  obtain h where "first (Some a) pre = Some h" using first_Some(1) by blast
  with Cons.IH [OF f(2) Cons.prems(2) f(3)] show ?case
    using queue_rep_queue [OF r] queue_rep_cell [OF r] f Cons.prems(2)
    by (subst foreach_entries.simps) (auto simp: p)
qed

lemma queue_rep_ref:
  "queue_rep q n ps FQ FC s \<Longrightarrow> \<exists>s'. queue_ref (Some q) s = Some (Some q, s') \<and> queue_rep q (n + 1) ps FQ FC s' \<and> more s' = more s"
  by (auto simp: queue_ref_def put_queue_def queue_rep_def)

lemma queue_rep_unref:
  "queue_rep q (n + 1) ps FQ FC s \<Longrightarrow> 0 < n \<Longrightarrow> \<exists>s'. queue_unref q s = Some s' \<and> queue_rep q n ps FQ FC s' \<and> more s' = more s"
  by (auto simp: queue_unref_def put_queue_def queue_rep_def)

lemma foreach_visits:
  assumes r: "queue_rep q n ps FQ FC s"
  shows "\<exists>s' ps'. queue_foreach (Some q) (Some f) s = Some s' \<and> queue_rep q n ps' FQ FC s' \<and> left ps'
     \<and> more s' = fold visit (map snd ps) (more s)"
proof (cases "ps = []")
  case True
  then show ?thesis using r start by (auto simp: queue_foreach_def queue_rep_queue)
next
  case False
  have n: "0 < n" using r by (simp add: queue_rep_def)
  obtain s1 where s1: "queue_ref (Some q) s = Some (Some q, s1)" "queue_rep q (n + 1) ps FQ FC s1" "more s1 = more s"
    using queue_rep_ref [OF r] by blast
  obtain s2 ps' where s2: "foreach_entries f q (first None ps) s1 = Some s2" "queue_rep q (n + 1) ps' FQ FC s2" "left ps'"
      "more s2 = fold visit (map snd ps) (more s1)"
    using foreach_entries_visits [of "n + 1" "[]" ps FQ FC s1] s1 n start by auto
  from queue_rep_unref [OF s2(2) n] show ?thesis
    using queue_rep_queue [OF r] s1 s2 False by (auto simp: queue_foreach_def)
qed

end

text \<open>The way \<open>attrib/gattrib.c\<close> iterates: the function works on the data, which ends with their entry removed.\<close>

definition visit_and_remove :: "addr \<Rightarrow> (ptr \<Rightarrow> 'z \<Rightarrow> 'z) \<Rightarrow> ptr \<Rightarrow> 'z qheap_scheme \<Rightarrow> 'z qheap_scheme option" where
  "visit_and_remove q g d s = do { (_, s) \<leftarrow> queue_remove (Some q) d (qheap.more_update (g d) s); Some s }"

lemma queue_rep_more [simp]: "queue_rep q n ps FQ FC (qheap.more_update g s) = queue_rep q n ps FQ FC s"
  by (simp add: queue_rep_def)

interpretation removing: entry_visitor q "visit_and_remove q g" g "\<lambda>pre. pre = []"
proof (unfold_locales, goal_cases)
  case (2 n pre a d post FQ FC s)
  then have r: "queue_rep q n ((a, d) # post) FQ FC (qheap.more_update (g d) s)" by simp
  from queue_remove_rep [OF this, of d] obtain s' ps' where s': "queue_remove (Some q) d (qheap.more_update (g d) s) = Some (True, s')"
      "queue_rep q n ps' FQ FC s'" "map snd ps' = map snd post" "more s' = g d (more s)"
      and keep: "\<forall>pre post'. (a, d) # post = pre @ post' \<longrightarrow> d \<in> set (map snd pre) \<longrightarrow> (\<exists>pre'. ps' = pre' @ post')"
    by auto
  from keep [rule_format, of "[(a, d)]" post] have "\<exists>pre'. ps' = pre' @ post" by simp
  with s'(3) have "ps' = post" by (metis append_self_conv2 length_0_conv length_append length_map add_cancel_left_left)
  with s' show ?case by (auto simp: visit_and_remove_def)
qed simp

interpretation reading: entry_visitor q "\<lambda>d s. Some (qheap.more_update (g d) s)" g "\<lambda>_. True"
  by unfold_locales (auto intro: exI [of _ "_ @ [_]"])

text \<open>What \<open>queue_remove_all\<close> asks of its function: it leaves the rest of the heap alone, but it may use the queue,
  which is empty when it is called first; \<open>act\<close> is what it does to the queue and to the state of the client.\<close>

locale destroyer =
  fixes q :: addr and destroy :: "(ptr \<Rightarrow> 'z qheap_scheme \<Rightarrow> 'z qheap_scheme option) option"
    and act :: "ptr \<Rightarrow> ptr list \<times> 'z \<Rightarrow> ptr list \<times> 'z"
  assumes destroyed: "queue_rep q n ps FQ FC s \<Longrightarrow> \<exists>s' ps'. call_destroy destroy d s = Some s'
    \<and> queue_rep q n ps' FQ FC s' \<and> act d (map snd ps, more s) = (map snd ps', more s')"

lemma free_frame:
  assumes "queue_rep q n ps FQ FC s" "FC a = Some e"
  shows "\<exists>s'. free_entry a s = Some s' \<and> queue_rep q n ps FQ (FC(a := None)) s' \<and> more s' = more s"
proof -
  note r = assms(1) [unfolded queue_rep_def]
  have a: "a \<notin> fst ` set ps" using r assms(2) by auto
  then have l: "layout None ps a = None" by simp
  have c: "cells s a = Some e" using r assms(2) l by (simp add: map_add_def)
  have "(FC ++ layout None ps)(a := None) = FC(a := None) ++ layout None ps"
    using l by (auto simp: fun_eq_iff map_add_def split: option.splits)
  moreover have "\<forall>x\<in>dom ((cells s)(a := None)). x < brk s" using r by (auto split: if_splits simp del: dom_map_add)
  ultimately show ?thesis
    using r c a by (auto simp: free_entry_def queue_rep_def)
qed

context destroyer begin

lemma release_entries_rep:
  "queue_rep q n xs FQ (FC ++ layout None ps) s \<Longrightarrow> distinct (map fst ps) \<Longrightarrow> fst ` set ps \<inter> dom FC = {} \<Longrightarrow>
   \<exists>s' xs'. release_entries destroy (first None ps) c s = Some (c + of_nat (length ps), s')
     \<and> queue_rep q n xs' FQ FC s' \<and> (map snd xs', more s') = fold act (map snd ps) (map snd xs, more s)"
proof (induction ps arbitrary: xs s c)
  case Nil
  then show ?case by (subst release_entries.simps) auto
next
  case (Cons p ps)
  obtain a d where p: "p = (a, d)" by force
  have fc: "(FC ++ layout None (p # ps)) a = Some \<lparr>qe_data = d, qe_next = first None ps\<rparr>" by (simp add: p)
  have a: "a \<notin> fst ` set xs" using Cons.prems(1) p by (auto simp: queue_rep_def)
  have "cells s = (FC ++ layout None (p # ps)) ++ layout None xs" using Cons.prems(1) by (simp add: queue_rep_def)
  then have c: "cells s a = Some \<lparr>qe_data = d, qe_next = first None ps\<rparr>" using a fc by (simp add: map_add_def)
  obtain s1 xs1 where s1: "call_destroy destroy d s = Some s1" "queue_rep q n xs1 FQ (FC ++ layout None (p # ps)) s1"
      "act d (map snd xs, more s) = (map snd xs1, more s1)"
    using destroyed [OF Cons.prems(1)] by blast
  obtain s2 where s2: "free_entry a s1 = Some s2" "queue_rep q n xs1 FQ ((FC ++ layout None (p # ps))(a := None)) s2"
      "more s2 = more s1"
    using free_frame [OF s1(2) fc] by blast
  have "(FC ++ layout None (p # ps))(a := None) = FC ++ layout None ps"
    using Cons.prems(2,3) layout_drop_head [of a d ps None] by (simp add: p map_add_drop)
  with s2(2) have "queue_rep q n xs1 FQ (FC ++ layout None ps) s2" by simp
  from Cons.IH [OF this, of "c + 1"] Cons.prems(2,3) obtain s' xs' where
    "release_entries destroy (first None ps) (c + 1) s2 = Some (c + 1 + of_nat (length ps), s')"
    "queue_rep q n xs' FQ FC s'" "(map snd xs', more s') = fold act (map snd ps) (map snd xs1, more s2)"
    by auto
  then show ?case
    using c s1 s2 by (subst release_entries.simps) (auto simp: p ac_simps)
qed

lemma remove_all_rep:
  assumes r: "queue_rep q n ps FQ FC s"
  shows "\<exists>s' ps'. queue_remove_all (Some q) None ud destroy s = Some (of_nat (length ps), s')
    \<and> queue_rep q n ps' FQ FC s' \<and> (map snd ps', more s') = fold act (map snd ps) ([], more s)"
proof -
  let ?s = "put_queue q \<lparr>q_ref_count = n, q_head = None, q_tail = None, q_entries = 0\<rparr> s"
  note r' = r [unfolded queue_rep_def]
  have s: "queue_rep q n [] FQ (FC ++ layout None ps) ?s" using r' by (simp add: queue_rep_def put_queue_def)
  have d: "distinct (map fst ps)" "fst ` set ps \<inter> dom FC = {}" using r' by auto
  have "queue_remove_all (Some q) None ud destroy s = release_entries destroy (first None ps) 0 ?s"
    using queue_rep_queue [OF r] by (simp add: queue_remove_all_def)
  then show ?thesis using release_entries_rep [OF s d, of 0] by (simp add: put_queue_def)
qed

lemma destroy_rep:
  assumes r: "queue_rep q n ps FQ FC s"
  shows "\<exists>s' ps'. queue_destroy (Some q) destroy s = Some s' \<and> (map snd ps', more s') = fold act (map snd ps) ([], more s)
    \<and> (if n = 1 then queues s' = FQ \<and> cells s' = FC ++ layout None ps' else queue_rep q (n - 1) ps' FQ FC s')"
proof -
  obtain s1 ps' where s1: "queue_remove_all (Some q) None None destroy s = Some (of_nat (length ps), s1)"
      "queue_rep q n ps' FQ FC s1" "(map snd ps', more s1) = fold act (map snd ps) ([], more s)"
    using remove_all_rep [OF r] by blast
  then show ?thesis
    by (auto simp: queue_destroy_def queue_unref_def put_queue_def queue_rep_def fun_upd_idem)
qed

end

text \<open>A function that leaves the queue alone.\<close>

locale quiet_destroyer =
  fixes q :: addr and destroy :: "(ptr \<Rightarrow> 'z qheap_scheme \<Rightarrow> 'z qheap_scheme option) option"
    and g :: "ptr \<Rightarrow> 'z \<Rightarrow> 'z"
  assumes quiet: "queue_rep q n ps FQ FC s \<Longrightarrow> \<exists>s'. call_destroy destroy d s = Some s'
    \<and> queue_rep q n ps FQ FC s' \<and> more s' = g d (more s)"

sublocale quiet_destroyer \<subseteq> destroyer q destroy "\<lambda>d x. (fst x, g d (snd x))"
proof (unfold_locales, goal_cases)
  case (1 n ps FQ FC s d)
  from quiet [OF this, of d] show ?case by auto
qed

context quiet_destroyer begin

lemma remove_matches_rep:
  "queue_rep q n ps FQ FC s \<Longrightarrow> \<exists>s' ps'. remove_matches f ud destroy q c s =
      Some (c + of_nat (length (filter (\<lambda>x. f x ud) (map snd ps))), s')
    \<and> queue_rep q n ps' FQ FC s' \<and> map snd ps' = filter (\<lambda>x. \<not> f x ud) (map snd ps)
    \<and> more s' = fold g (filter (\<lambda>x. f x ud) (map snd ps)) (more s)"
proof (induction "length ps" arbitrary: ps s c rule: less_induct)
  case less
  let ?xs = "map snd ps"
  obtain s1 ps1 where s1: "queue_remove_if (Some q) (Some f) ud s =
      Some (case List.find (\<lambda>x. f x ud) ?xs of None \<Rightarrow> None | Some x \<Rightarrow> x, s1)"
      "queue_rep q n ps1 FQ FC s1" "map snd ps1 = remove_first (\<lambda>x. f x ud) ?xs" "more s1 = more s"
    using queue_remove_if_rep [OF less.prems] by blast
  show ?case
  proof (cases "\<exists>x\<in>set ?xs. f x ud")
    case False
    then have "remove_first (\<lambda>x. f x ud) ?xs = ?xs" by (intro remove_first_absent) blast
    then have m: "map snd ps1 = ?xs" using s1(3) by simp
    then have "length ps1 = length ps" by (metis length_map)
    moreover have "filter (\<lambda>x. f x ud) ?xs = []" "filter (\<lambda>x. \<not> f x ud) ?xs = ?xs"
      using False by (auto simp: filter_empty_conv filter_id_conv)
    ultimately show ?thesis
      using s1 queue_rep_queue [OF less.prems] queue_rep_queue [OF s1(2)] m
      by (subst remove_matches.simps) auto
  next
    case True
    then obtain us x vs where xs: "?xs = us @ x # vs" "f x ud" "\<forall>y\<in>set us. \<not> f y ud"
      using split_list_first_prop [of ?xs "\<lambda>x. f x ud"] by blast
    have rf: "map snd ps1 = us @ vs" using s1(3) xs remove_first_append [of us "\<lambda>x. f x ud" x vs] by simp
    have len: "length ps = Suc (length ps1)" using arg_cong [OF xs(1), of length] arg_cong [OF rf, of length] by simp
    have fd: "List.find (\<lambda>x. f x ud) ?xs = Some x" unfolding xs(1) using xs(2,3) by (induction us) auto
    obtain s2 where s2: "call_destroy destroy x s1 = Some s2" "queue_rep q n ps1 FQ FC s2" "more s2 = g x (more s1)"
      using quiet [OF s1(2)] by blast
    have "length ps1 < length ps" using len by simp
    then obtain s3 ps3 where s3: "remove_matches f ud destroy q (c + 1) s2 =
        Some (c + 1 + of_nat (length (filter (\<lambda>x. f x ud) (us @ vs))), s3)"
        "queue_rep q n ps3 FQ FC s3" "map snd ps3 = filter (\<lambda>x. \<not> f x ud) (us @ vs)"
        "more s3 = fold g (filter (\<lambda>x. f x ud) (us @ vs)) (more s2)"
      using less.hyps [OF _ s2(2), of "c + 1", unfolded rf] by blast
    have us: "filter (\<lambda>x. f x ud) us = []" "filter (\<lambda>x. \<not> f x ud) us = us"
      using xs(3) by (auto simp: filter_empty_conv filter_id_conv)
    have "of_nat (length ps) \<noteq> (of_nat (length ps1) :: u32)" unfolding len by simp
    then have "remove_matches f ud destroy q c s = remove_matches f ud destroy q (c + 1) s2"
      using s1 s2 queue_rep_queue [OF less.prems] queue_rep_queue [OF s1(2)] fd
      by (subst remove_matches.simps) simp
    then show ?thesis using s3 s2 s1 us unfolding xs(1) by (auto simp: xs(2) ac_simps)
  qed
qed

end

interpretation releasing: quiet_destroyer q None "\<lambda>_ z. z"
  by unfold_locales (simp add: call_destroy_def)

interpretation recording: quiet_destroyer q "Some (\<lambda>d s. Some (qheap.more_update (g d) s))" g
  by unfold_locales (simp add: call_destroy_def)

text \<open>A function that queues something new for each entry that goes, as a destroy callback that sends again does:
  what it queues stays.\<close>

definition push_again :: "addr \<Rightarrow> (ptr \<Rightarrow> ptr) \<Rightarrow> ptr \<Rightarrow> 'z qheap_scheme \<Rightarrow> 'z qheap_scheme option" where
  "push_again q h d s = do { (_, s) \<leftarrow> queue_push_tail (Some q) (h d) s; Some s }"

interpretation pushing: destroyer q "Some (push_again q h)" "\<lambda>d x. (fst x @ [h d], snd x)"
proof (unfold_locales, goal_cases)
  case (1 n ps FQ FC s d)
  from queue_push_tail_rep [OF this, of "h d"] obtain s' where
    s': "queue_push_tail (Some q) (h d) s = Some (True, s')" "queue_rep q n (ps @ [(brk s, h d)]) FQ FC s'" "more s' = more s"
    by blast
  show ?case
    by (rule exI [of _ s'], rule exI [of _ "ps @ [(brk s, h d)]"]) (simp add: s' call_destroy_def push_again_def)
qed

section \<open>Every run of operations is a run of list operations\<close>

datatype queue_op = Push_Tail ptr | Push_Head ptr | Push_After ptr ptr | Pop_Head | Peek_Head | Peek_Tail
  | Find "(ptr \<Rightarrow> ptr \<Rightarrow> bool) option" ptr | Remove ptr | Remove_If "ptr \<Rightarrow> ptr \<Rightarrow> bool" ptr
  | Remove_All "(ptr \<Rightarrow> ptr \<Rightarrow> bool) option" ptr | Length | Is_Empty

datatype queue_answer = Yes_No bool | Data ptr | Count u32

definition run_queue_op :: "ptr \<Rightarrow> queue_op \<Rightarrow> 'z qheap_scheme \<Rightarrow> (queue_answer \<times> 'z qheap_scheme) option" where
  "run_queue_op p op s = (case op of
       Push_Tail d \<Rightarrow> do { (r, s) \<leftarrow> queue_push_tail p d s; Some (Yes_No r, s) }
     | Push_Head d \<Rightarrow> do { (r, s) \<leftarrow> queue_push_head p d s; Some (Yes_No r, s) }
     | Push_After x d \<Rightarrow> do { (r, s) \<leftarrow> queue_push_after p x d s; Some (Yes_No r, s) }
     | Pop_Head \<Rightarrow> do { (r, s) \<leftarrow> queue_pop_head p s; Some (Data r, s) }
     | Peek_Head \<Rightarrow> do { r \<leftarrow> queue_peek_head p s; Some (Data r, s) }
     | Peek_Tail \<Rightarrow> do { r \<leftarrow> queue_peek_tail p s; Some (Data r, s) }
     | Find fn md \<Rightarrow> do { r \<leftarrow> queue_find p fn md s; Some (Data r, s) }
     | Remove d \<Rightarrow> do { (r, s) \<leftarrow> queue_remove p d s; Some (Yes_No r, s) }
     | Remove_If f ud \<Rightarrow> do { (r, s) \<leftarrow> queue_remove_if p (Some f) ud s; Some (Data r, s) }
     | Remove_All fn ud \<Rightarrow> do { (r, s) \<leftarrow> queue_remove_all p fn ud None s; Some (Count r, s) }
     | Length \<Rightarrow> do { r \<leftarrow> queue_length p s; Some (Count r, s) }
     | Is_Empty \<Rightarrow> do { r \<leftarrow> queue_isempty p s; Some (Yes_No r, s) })"

text \<open>The specification. The counter has 32 bits, so a queue of \<open>2 ^ 32\<close> entries says that it is empty.\<close>

definition found_data :: "'a option option \<Rightarrow> 'a option" where
  "found_data r = (case r of None \<Rightarrow> None | Some x \<Rightarrow> x)"

definition list_queue_op :: "queue_op \<Rightarrow> ptr list \<Rightarrow> queue_answer \<times> ptr list" where
  "list_queue_op op xs = (case op of
       Push_Tail d \<Rightarrow> (Yes_No True, xs @ [d])
     | Push_Head d \<Rightarrow> (Yes_No True, d # xs)
     | Push_After x d \<Rightarrow> (Yes_No (x \<in> set xs), insert_after x d xs)
     | Pop_Head \<Rightarrow> (Data (if xs = [] then None else hd xs), tl xs)
     | Peek_Head \<Rightarrow> (Data (if xs = [] then None else hd xs), xs)
     | Peek_Tail \<Rightarrow> (Data (if xs = [] then None else List.last xs), xs)
     | Find fn md \<Rightarrow> (Data (found_data (List.find (\<lambda>x. case fn of None \<Rightarrow> x = md | Some f \<Rightarrow> f x md) xs)), xs)
     | Remove d \<Rightarrow> (Yes_No (d \<in> set xs), remove1 d xs)
     | Remove_If f ud \<Rightarrow> (Data (found_data (List.find (\<lambda>x. f x ud) xs)), remove_first (\<lambda>x. f x ud) xs)
     | Remove_All fn ud \<Rightarrow> (let gone = filter (\<lambda>x. case fn of None \<Rightarrow> True | Some f \<Rightarrow> f x ud) xs
         in (Count (of_nat (length gone)), filter (\<lambda>x. case fn of None \<Rightarrow> False | Some f \<Rightarrow> \<not> f x ud) xs))
     | Length \<Rightarrow> (Count (of_nat (length xs)), xs)
     | Is_Empty \<Rightarrow> (Yes_No (length xs mod 2 ^ 32 = 0), xs))"

lemma remove_first_remove1: "remove_first (\<lambda>x. x = d) xs = remove1 d xs"
  by (induction xs) auto

lemma of_nat_u32_0: "(of_nat n :: u32) = 0 \<longleftrightarrow> n mod 2 ^ 32 = 0"
  by (simp add: word_of_nat_eq_0_iff mod_eq_0_iff_dvd)

lemma queue_op_rep:
  assumes r: "queue_rep q n ps FQ FC s"
  shows "\<exists>s' ps'. run_queue_op (Some q) op s = Some (fst (list_queue_op op (map snd ps)), s')
    \<and> queue_rep q n ps' FQ FC s' \<and> map snd ps' = snd (list_queue_op op (map snd ps)) \<and> more s' = more s"
proof (cases op)
  case (Push_Tail d)
  then show ?thesis using queue_push_tail_rep [OF r, of d] by (force simp: run_queue_op_def list_queue_op_def)
next
  case (Push_Head d)
  then show ?thesis using queue_push_head_rep [OF r, of d] by (force simp: run_queue_op_def list_queue_op_def)
next
  case (Push_After x d)
  then show ?thesis using queue_push_after_rep [OF r, of x d] by (force simp: run_queue_op_def list_queue_op_def)
next
  case Pop_Head
  then show ?thesis using queue_pop_head_rep [OF r]
    by (cases ps) (force simp: run_queue_op_def list_queue_op_def)+
next
  case Peek_Head
  then show ?thesis using entry_data_rep(1) [OF r] queue_rep_queue [OF r] r
    by (cases ps) (auto simp: run_queue_op_def list_queue_op_def queue_peek_head_def)
next
  case Peek_Tail
  then show ?thesis using entry_data_rep(2) [OF r] queue_rep_queue [OF r] r
    by (cases ps) (auto simp: run_queue_op_def list_queue_op_def queue_peek_tail_def last_map)
next
  case (Find fn md)
  then show ?thesis using queue_find_rep [OF r, of fn md] r
    by (cases fn) (auto simp: run_queue_op_def list_queue_op_def found_data_def direct_match_def)
next
  case (Remove d)
  then show ?thesis using queue_remove_rep [OF r, of d]
    by (force simp: run_queue_op_def list_queue_op_def remove_first_remove1)
next
  case (Remove_If f ud)
  then show ?thesis using queue_remove_if_rep [OF r, of f ud]
    by (force simp: run_queue_op_def list_queue_op_def found_data_def)
next
  case (Remove_All fn ud)
  show ?thesis
  proof (cases fn)
    case None
    have "fold (\<lambda>d x. (fst x, snd x)) xs x = x" for xs :: "ptr list" and x :: "ptr list \<times> 'a"
      by (induction xs) auto
    with releasing.remove_all_rep [OF r, of ud] None Remove_All show ?thesis
      by (force simp: run_queue_op_def list_queue_op_def)
  next
    case (Some f)
    have "fold (\<lambda>d x. x) xs x = x" for xs :: "ptr list" and x :: 'a by (induction xs) auto
    with releasing.remove_matches_rep [OF r, of f ud 0] Some Remove_All queue_rep_queue [OF r] r show ?thesis
      by (cases "ps = []") (force simp: run_queue_op_def list_queue_op_def queue_remove_all_def)+
  qed
next
  case Length
  then show ?thesis using queue_rep_queue [OF r] r
    by (auto simp: run_queue_op_def list_queue_op_def queue_length_def)
next
  case Is_Empty
  then show ?thesis using queue_rep_queue [OF r] r
    by (auto simp: run_queue_op_def list_queue_op_def queue_isempty_def of_nat_u32_0 simp del: of_nat_0)
qed

interpretation heap_queue: operation_refinement "run_queue_op (Some q)" list_queue_op "\<lambda>_. True"
  "\<lambda>s xs. holds_list q n xs FQ FC s \<and> qheap.more s = z"
proof (unfold_locales, goal_cases)
  case (1 s xs op)
  then obtain ps where "map snd ps = xs" "queue_rep q n ps FQ FC s" "more s = z" by (auto simp: holds_list_def)
  with queue_op_rep [OF this(2), of op] show ?case unfolding holds_list_def by auto
qed

text \<open>The state in which a queue is created: nothing is allocated at or above \<open>brk\<close>.\<close>

definition bounded_heap :: "'z qheap_scheme \<Rightarrow> bool" where
  "bounded_heap s \<longleftrightarrow> (\<forall>a\<in>dom (cells s). a < brk s) \<and> (\<forall>a\<in>dom (queues s). a < brk s)"

lemma queue_new_rep:
  assumes "bounded_heap s"
  shows "\<exists>s'. queue_new s = Some (Some (brk s), s') \<and> queue_rep (brk s) 1 [] (queues s) (cells s) s' \<and> more s' = more s"
proof -
  have "queues s (brk s) = None" using assms by (auto simp: bounded_heap_def)
  with assms show ?thesis
    by (auto simp: queue_new_def queue_ref_def put_queue_def queue_rep_def bounded_heap_def less_Suc_eq)
qed

lemma fold_unchanged: "fold (\<lambda>d x. x) xs x = x"
  by (induction xs) auto

lemma queue_destroy_rep:
  assumes "queue_rep q 1 ps FQ FC s"
  shows "\<exists>s'. queue_destroy (Some q) None s = Some s' \<and> queues s' = FQ \<and> cells s' = FC \<and> more s' = more s"
  using releasing.destroy_rep [OF assms] by (auto simp: fold_unchanged)

text \<open>C20: A queue is a list. Created, used by any run of operations, and destroyed, it answers exactly what the list
  operations answer, never touches an entry that is not its own and frees every entry it has allocated: the heap
  is left as it was.\<close>

theorem queue_refines_list:
  assumes "bounded_heap s"
  shows "\<exists>q s1 s2 s3. queue_new s = Some (Some q, s1)
    \<and> run_all (run_queue_op (Some q)) ops s1 = Some (fst (spec_all list_queue_op ops []), s2)
    \<and> queue_destroy (Some q) None s2 = Some s3 \<and> queues s3 = queues s \<and> cells s3 = cells s \<and> more s3 = more s"
proof -
  obtain s1 where s1: "queue_new s = Some (Some (brk s), s1)" "queue_rep (brk s) 1 [] (queues s) (cells s) s1" "more s1 = more s"
    using queue_new_rep [OF assms] by blast
  then have "holds_list (brk s) 1 [] (queues s) (cells s) s1 \<and> qheap.more s1 = qheap.more s" by (simp add: holds_list_def)
  from heap_queue.run_refines [OF this list_all_True, of ops] obtain s2 where
    s2: "run_all (run_queue_op (Some (brk s))) ops s1 = Some (fst (spec_all list_queue_op ops []), s2)"
      "holds_list (brk s) 1 (snd (spec_all list_queue_op ops [])) (queues s) (cells s) s2" "more s2 = more s"
    by blast
  then obtain ps where "queue_rep (brk s) 1 ps (queues s) (cells s) s2" by (auto simp: holds_list_def)
  from queue_destroy_rep [OF this] s1 s2 show ?thesis by force
qed

definition ex_heap :: qheap where
  "ex_heap = \<lparr>queues = Map.empty, cells = Map.empty, brk = 0\<rparr>"

lemma queue_refines_list_witness:
  "\<exists>q s1 s2 s3. queue_new ex_heap = Some (Some q, s1)
    \<and> run_all (run_queue_op (Some q)) [Push_Tail (Some 7), Push_Head (Some 8), Push_After (Some 8) (Some 9), Remove (Some 7), Pop_Head, Length] s1
      = Some ([Yes_No True, Yes_No True, Yes_No True, Yes_No True, Data (Some 8), Count 1], s2)
    \<and> queue_destroy (Some q) None s2 = Some s3 \<and> queues s3 = Map.empty \<and> cells s3 = Map.empty"
  using queue_refines_list [of ex_heap "[Push_Tail (Some 7), Push_Head (Some 8), Push_After (Some 8) (Some 9), Remove (Some 7), Pop_Head, Length]"]
  by (simp add: bounded_heap_def ex_heap_def list_queue_op_def)

text \<open>Iterating over a queue may empty it: when the function removes the entry it is called for, as the
  cancellation of all requests does, every entry is visited once, in order, and the queue ends empty.\<close>

theorem foreach_removes_each:
  assumes "holds_list q n xs FQ FC s"
  shows "\<exists>s'. queue_foreach (Some q) (Some (visit_and_remove q g)) s = Some s' \<and> holds_list q n [] FQ FC s'
    \<and> more s' = fold g xs (more s)"
proof -
  obtain ps where "map snd ps = xs" "queue_rep q n ps FQ FC s" using assms by (auto simp: holds_list_def)
  with removing.foreach_visits [OF this(2), of g] show ?thesis by (auto simp: holds_list_def)
qed

text \<open>A function that removes another entry while it is visited is not safe: when the first visit removes the
  second entry, the iteration goes on with the entry that has been freed.\<close>

theorem foreach_removes_next:
  assumes "holds_list q n (d # e # xs) FQ FC s" "d \<noteq> e"
  shows "queue_foreach (Some q) (Some (\<lambda>_ s. do { (_, s) \<leftarrow> queue_remove (Some q) e s; Some s })) s = None"
proof -
  obtain a b ps where r: "queue_rep q n ((a, d) # (b, e) # ps) FQ FC s" using assms by (auto simp: holds_list_def)
  obtain s1 where s1: "queue_ref (Some q) s = Some (Some q, s1)" "queue_rep q (n + 1) ((a, d) # (b, e) # ps) FQ FC s1"
    using removing.queue_rep_ref [OF r] by blast
  have r1: "queue_rep q (n + 1) ([(a, d)] @ (b, e) # ps) FQ FC s1" using s1(2) by simp
  have n: "0 < n" using r by (simp add: queue_rep_def)
  from unlink_entry_rep [OF r1] obtain s2 where
    s2: "unlink_entry q (Some a) b s1 = Some (e, s2)" "queue_rep q (n + 1) ([(a, d)] @ ps) FQ FC s2" by auto
  have "find_with_prev (\<lambda>x. x = e) s1 None (Some a) = Some (Some (Some a, b))"
    using find_with_prev_some [of q "n + 1" "[]" "[(a, d)]" b e ps FQ FC s1 "\<lambda>x. x = e" None] s1(2) assms(2) by simp
  then have rm: "queue_remove (Some q) e s1 = Some (True, s2)"
    using s2(1) queue_rep_queue [OF s1(2)] by (simp add: queue_remove_def)
  have "FC b = None" "b \<notin> fst ` set ([(a, d)] @ ps)" using r by (auto simp: queue_rep_def)
  then have "cells s2 b = None" using s2(2) by (auto simp: queue_rep_def)
  then have "foreach_entries (\<lambda>_ s. do { (_, s) \<leftarrow> queue_remove (Some q) e s; Some s }) q (Some a) s1 = None"
    using rm queue_rep_queue [OF s1(2)] queue_rep_queue [OF s2(2)] n
      queue_rep_cell [of q "n + 1" "[]" a d "(b, e) # ps" FQ FC s1] s1(2)
    by (subst foreach_entries.simps, simp, subst foreach_entries.simps, simp)
  then show ?thesis using s1 queue_rep_queue [OF r] by (simp add: queue_foreach_def)
qed

text \<open>Emptying a queue tolerates a destroy function that fills it again: each old entry is destroyed once and
  freed, and what the function pushes is what the queue holds in the end.\<close>

theorem remove_all_refilled:
  assumes "holds_list q n xs FQ FC s"
  shows "\<exists>s'. queue_remove_all (Some q) None ud (Some (push_again q h)) s = Some (of_nat (length xs), s')
    \<and> holds_list q n (map h xs) FQ FC s' \<and> more s' = more s"
proof -
  have f: "fold (\<lambda>d x. (fst x @ [h d], snd x)) xs (ys, z) = (ys @ map h xs, z)" for ys :: "ptr list" and z :: 'a and xs
    by (induction xs arbitrary: ys) auto
  obtain ps where "map snd ps = xs" "queue_rep q n ps FQ FC s" using assms by (auto simp: holds_list_def)
  with pushing.remove_all_rep [OF this(2), of ud h] show ?thesis by (auto simp: holds_list_def f)
qed

text \<open>A heap with one queue of two entries, and a client whose state is a list.\<close>

definition ex_queue :: "ptr list qheap_scheme" where
  "ex_queue = \<lparr>queues = [0 \<mapsto> \<lparr>q_ref_count = 1, q_head = Some 1, q_tail = Some 2, q_entries = 2\<rparr>],
     cells = [1 \<mapsto> \<lparr>qe_data = Some 7, qe_next = Some 2\<rparr>, 2 \<mapsto> \<lparr>qe_data = Some 8, qe_next = None\<rparr>], brk = 3, \<dots> = []\<rparr>"

lemma ex_queue_holds: "holds_list 0 1 [Some 7, Some 8] Map.empty Map.empty ex_queue"
  unfolding holds_list_def
  by (rule exI [of _ "[(1, Some 7), (2, Some 8)]"])
    (auto simp: queue_rep_def ex_queue_def last_entry_def fun_eq_iff split: if_splits)

lemma foreach_removes_each_witness:
  "\<exists>s'. queue_foreach (Some 0) (Some (visit_and_remove 0 (\<lambda>d log. log @ [d]))) ex_queue = Some s'
    \<and> holds_list 0 1 [] Map.empty Map.empty s' \<and> more s' = [Some 7, Some 8]"
  using foreach_removes_each [OF ex_queue_holds, of "\<lambda>d log. log @ [d]"] by (simp add: ex_queue_def)

lemma foreach_removes_next_witness:
  "queue_foreach (Some 0) (Some (\<lambda>_ s. do { (_, s) \<leftarrow> queue_remove (Some 0) (Some 8) s; Some s })) ex_queue = None"
  using foreach_removes_next [OF ex_queue_holds] by simp

lemma remove_all_refilled_witness:
  "\<exists>s'. queue_remove_all (Some 0) None None (Some (push_again 0 (map_option Suc))) ex_queue = Some (2, s')
    \<and> holds_list 0 1 [Some 8, Some 9] Map.empty Map.empty s'"
  using remove_all_refilled [OF ex_queue_holds, of None "map_option Suc"] by auto

end
