(* ===== verification/Bt_Att.thy ===== *)
theory Bt_Att
  imports Gatt Queue "HOL-Library.Multiset"
begin

text \<open>
  \<open>bluez/bluez5/src/shared/att.c\<close>: the transport of the Attribute Protocol under \<open>attrib/gattrib.c\<close>. Requests, indications
  and the PDUs that need no answer wait in three queues; a write handler sends them, one request and one indication
  at a time; a read handler matches responses with the request that is pending.

  Operations, notification handlers and disconnection handlers are heap objects; a queue is the list of the addresses
  in it, as the theory \<open>Queue\<close> shows of \<open>queue.c\<close>. \<open>None\<close> is undefined behaviour: an object, or the \<open>bt_att\<close> itself, used
  after it has been freed, or a write outside a buffer. The functions that the application gives are named by
  numbers; what they do to the state, which they may change through the functions of this file, is an argument (\<open>att_os\<close>),
  and so are the answers of the socket, the kernel's cryptography and \<open>malloc\<close>. \<open>att_log\<close> records what leaves the file.
  A \<open>bt_att\<close> pointer that is NULL, which every public function answers with 0 or \<open>false\<close>, is not modelled, nor are
  the debug messages.
\<close>

section \<open>Opcodes and their types\<close>

definition BT_ATT_OP_MTU_REQ :: u8 where "BT_ATT_OP_MTU_REQ = 0x02"
definition BT_ATT_OP_MTU_RSP :: u8 where "BT_ATT_OP_MTU_RSP = 0x03"
definition BT_ATT_OP_FIND_INFO_REQ :: u8 where "BT_ATT_OP_FIND_INFO_REQ = 0x04"
definition BT_ATT_OP_FIND_INFO_RSP :: u8 where "BT_ATT_OP_FIND_INFO_RSP = 0x05"
definition BT_ATT_OP_FIND_BY_TYPE_REQ :: u8 where "BT_ATT_OP_FIND_BY_TYPE_REQ = 0x06"
definition BT_ATT_OP_FIND_BY_TYPE_RSP :: u8 where "BT_ATT_OP_FIND_BY_TYPE_RSP = 0x07"
definition BT_ATT_OP_READ_BY_TYPE_REQ :: u8 where "BT_ATT_OP_READ_BY_TYPE_REQ = 0x08"
definition BT_ATT_OP_READ_BY_TYPE_RSP :: u8 where "BT_ATT_OP_READ_BY_TYPE_RSP = 0x09"
definition BT_ATT_OP_READ_REQ :: u8 where "BT_ATT_OP_READ_REQ = 0x0a"
definition BT_ATT_OP_READ_RSP :: u8 where "BT_ATT_OP_READ_RSP = 0x0b"
definition BT_ATT_OP_READ_BLOB_REQ :: u8 where "BT_ATT_OP_READ_BLOB_REQ = 0x0c"
definition BT_ATT_OP_READ_BLOB_RSP :: u8 where "BT_ATT_OP_READ_BLOB_RSP = 0x0d"
definition BT_ATT_OP_READ_MULT_REQ :: u8 where "BT_ATT_OP_READ_MULT_REQ = 0x0e"
definition BT_ATT_OP_READ_MULT_RSP :: u8 where "BT_ATT_OP_READ_MULT_RSP = 0x0f"
definition BT_ATT_OP_READ_BY_GRP_TYPE_REQ :: u8 where "BT_ATT_OP_READ_BY_GRP_TYPE_REQ = 0x10"
definition BT_ATT_OP_READ_BY_GRP_TYPE_RSP :: u8 where "BT_ATT_OP_READ_BY_GRP_TYPE_RSP = 0x11"
definition BT_ATT_OP_WRITE_REQ :: u8 where "BT_ATT_OP_WRITE_REQ = 0x12"
definition BT_ATT_OP_WRITE_RSP :: u8 where "BT_ATT_OP_WRITE_RSP = 0x13"
definition BT_ATT_OP_WRITE_CMD :: u8 where "BT_ATT_OP_WRITE_CMD = 0x52"
definition BT_ATT_OP_SIGNED_WRITE_CMD :: u8 where "BT_ATT_OP_SIGNED_WRITE_CMD = 0xD2"
definition BT_ATT_OP_PREP_WRITE_REQ :: u8 where "BT_ATT_OP_PREP_WRITE_REQ = 0x16"
definition BT_ATT_OP_PREP_WRITE_RSP :: u8 where "BT_ATT_OP_PREP_WRITE_RSP = 0x17"
definition BT_ATT_OP_EXEC_WRITE_REQ :: u8 where "BT_ATT_OP_EXEC_WRITE_REQ = 0x18"
definition BT_ATT_OP_EXEC_WRITE_RSP :: u8 where "BT_ATT_OP_EXEC_WRITE_RSP = 0x19"
definition BT_ATT_OP_HANDLE_VAL_NOT :: u8 where "BT_ATT_OP_HANDLE_VAL_NOT = 0x1B"
definition BT_ATT_OP_HANDLE_VAL_IND :: u8 where "BT_ATT_OP_HANDLE_VAL_IND = 0x1D"
definition BT_ATT_OP_HANDLE_VAL_CONF :: u8 where "BT_ATT_OP_HANDLE_VAL_CONF = 0x1E"

lemmas bt_att_ops =
  BT_ATT_OP_ERROR_RSP_def BT_ATT_OP_MTU_REQ_def BT_ATT_OP_MTU_RSP_def BT_ATT_OP_FIND_INFO_REQ_def
  BT_ATT_OP_FIND_INFO_RSP_def BT_ATT_OP_FIND_BY_TYPE_REQ_def BT_ATT_OP_FIND_BY_TYPE_RSP_def
  BT_ATT_OP_READ_BY_TYPE_REQ_def BT_ATT_OP_READ_BY_TYPE_RSP_def BT_ATT_OP_READ_REQ_def BT_ATT_OP_READ_RSP_def
  BT_ATT_OP_READ_BLOB_REQ_def BT_ATT_OP_READ_BLOB_RSP_def BT_ATT_OP_READ_MULT_REQ_def BT_ATT_OP_READ_MULT_RSP_def
  BT_ATT_OP_READ_BY_GRP_TYPE_REQ_def BT_ATT_OP_READ_BY_GRP_TYPE_RSP_def BT_ATT_OP_WRITE_REQ_def BT_ATT_OP_WRITE_RSP_def
  BT_ATT_OP_WRITE_CMD_def BT_ATT_OP_SIGNED_WRITE_CMD_def BT_ATT_OP_PREP_WRITE_REQ_def BT_ATT_OP_PREP_WRITE_RSP_def
  BT_ATT_OP_EXEC_WRITE_REQ_def BT_ATT_OP_EXEC_WRITE_RSP_def BT_ATT_OP_HANDLE_VAL_NOT_def BT_ATT_OP_HANDLE_VAL_IND_def
  BT_ATT_OP_HANDLE_VAL_CONF_def

definition ATT_OP_SIGNED_MASK :: u8 where "ATT_OP_SIGNED_MASK = 0x80"
definition BT_ATT_ALL_REQUESTS :: u8 where "BT_ATT_ALL_REQUESTS = 0x00"
definition BT_ATT_DEFAULT_LE_MTU :: u16 where "BT_ATT_DEFAULT_LE_MTU = 23"
definition BT_ATT_SIGNATURE_LEN :: nat where "BT_ATT_SIGNATURE_LEN = 12"
definition ATT_MIN_PDU_LEN :: nat where "ATT_MIN_PDU_LEN = 1"

definition BT_ATT_SECURITY_AUTO :: int where "BT_ATT_SECURITY_AUTO = 0"
definition BT_ATT_SECURITY_LOW :: int where "BT_ATT_SECURITY_LOW = 1"
definition BT_ATT_SECURITY_MEDIUM :: int where "BT_ATT_SECURITY_MEDIUM = 2"
definition BT_ATT_SECURITY_HIGH :: int where "BT_ATT_SECURITY_HIGH = 3"
definition BT_ATT_SECURITY_FIPS :: int where "BT_ATT_SECURITY_FIPS = 4"

definition BT_ATT_LINK_BREDR :: u8 where "BT_ATT_LINK_BREDR = 0x00"
definition BT_ATT_LINK_LE :: u8 where "BT_ATT_LINK_LE = 0x01"
definition BT_ATT_LINK_LOCAL :: u8 where "BT_ATT_LINK_LOCAL = 0xff"

definition BT_ATT_ERROR_INVALID_HANDLE :: u8 where "BT_ATT_ERROR_INVALID_HANDLE = 0x01"
definition BT_ATT_ERROR_AUTHENTICATION :: u8 where "BT_ATT_ERROR_AUTHENTICATION = 0x05"
definition BT_ATT_ERROR_REQUEST_NOT_SUPPORTED :: u8 where "BT_ATT_ERROR_REQUEST_NOT_SUPPORTED = 0x06"
definition BT_ATT_ERROR_INSUFFICIENT_ENCRYPTION :: u8 where "BT_ATT_ERROR_INSUFFICIENT_ENCRYPTION = 0x0F"
definition BT_ATT_ERROR_INSUFFICIENT_RESOURCES :: u8 where "BT_ATT_ERROR_INSUFFICIENT_RESOURCES = 0x11"
definition BT_ERROR_ALREADY_IN_PROGRESS :: u8 where "BT_ERROR_ALREADY_IN_PROGRESS = 0xfe"
definition BT_ERROR_OUT_OF_RANGE :: u8 where "BT_ERROR_OUT_OF_RANGE = 0xff"

datatype att_op_type = ATT_OP_TYPE_REQ | ATT_OP_TYPE_RSP | ATT_OP_TYPE_CMD | ATT_OP_TYPE_IND | ATT_OP_TYPE_NOT
  | ATT_OP_TYPE_CONF | ATT_OP_TYPE_UNKNOWN

definition att_opcode_type_table :: "(u8 \<times> att_op_type) list" where
  "att_opcode_type_table = [
     (BT_ATT_OP_ERROR_RSP, ATT_OP_TYPE_RSP),
     (BT_ATT_OP_MTU_REQ, ATT_OP_TYPE_REQ),
     (BT_ATT_OP_MTU_RSP, ATT_OP_TYPE_RSP),
     (BT_ATT_OP_FIND_INFO_REQ, ATT_OP_TYPE_REQ),
     (BT_ATT_OP_FIND_INFO_RSP, ATT_OP_TYPE_RSP),
     (BT_ATT_OP_FIND_BY_TYPE_REQ, ATT_OP_TYPE_REQ),
     (BT_ATT_OP_FIND_BY_TYPE_RSP, ATT_OP_TYPE_RSP),
     (BT_ATT_OP_READ_BY_TYPE_REQ, ATT_OP_TYPE_REQ),
     (BT_ATT_OP_READ_BY_TYPE_RSP, ATT_OP_TYPE_RSP),
     (BT_ATT_OP_READ_REQ, ATT_OP_TYPE_REQ),
     (BT_ATT_OP_READ_RSP, ATT_OP_TYPE_RSP),
     (BT_ATT_OP_READ_BLOB_REQ, ATT_OP_TYPE_REQ),
     (BT_ATT_OP_READ_BLOB_RSP, ATT_OP_TYPE_RSP),
     (BT_ATT_OP_READ_MULT_REQ, ATT_OP_TYPE_REQ),
     (BT_ATT_OP_READ_MULT_RSP, ATT_OP_TYPE_RSP),
     (BT_ATT_OP_READ_BY_GRP_TYPE_REQ, ATT_OP_TYPE_REQ),
     (BT_ATT_OP_READ_BY_GRP_TYPE_RSP, ATT_OP_TYPE_RSP),
     (BT_ATT_OP_WRITE_REQ, ATT_OP_TYPE_REQ),
     (BT_ATT_OP_WRITE_RSP, ATT_OP_TYPE_RSP),
     (BT_ATT_OP_WRITE_CMD, ATT_OP_TYPE_CMD),
     (BT_ATT_OP_SIGNED_WRITE_CMD, ATT_OP_TYPE_CMD),
     (BT_ATT_OP_PREP_WRITE_REQ, ATT_OP_TYPE_REQ),
     (BT_ATT_OP_PREP_WRITE_RSP, ATT_OP_TYPE_RSP),
     (BT_ATT_OP_EXEC_WRITE_REQ, ATT_OP_TYPE_REQ),
     (BT_ATT_OP_EXEC_WRITE_RSP, ATT_OP_TYPE_RSP),
     (BT_ATT_OP_HANDLE_VAL_NOT, ATT_OP_TYPE_NOT),
     (BT_ATT_OP_HANDLE_VAL_IND, ATT_OP_TYPE_IND),
     (BT_ATT_OP_HANDLE_VAL_CONF, ATT_OP_TYPE_CONF)]"

definition get_op_type :: "u8 \<Rightarrow> att_op_type" where
  "get_op_type opcode = (case map_of att_opcode_type_table opcode of None \<Rightarrow> ATT_OP_TYPE_UNKNOWN | Some t \<Rightarrow> t)"

definition att_req_rsp_mapping_table :: "(u8 \<times> u8) list" where
  "att_req_rsp_mapping_table = [
     (BT_ATT_OP_MTU_REQ, BT_ATT_OP_MTU_RSP),
     (BT_ATT_OP_FIND_INFO_REQ, BT_ATT_OP_FIND_INFO_RSP),
     (BT_ATT_OP_FIND_BY_TYPE_REQ, BT_ATT_OP_FIND_BY_TYPE_RSP),
     (BT_ATT_OP_READ_BY_TYPE_REQ, BT_ATT_OP_READ_BY_TYPE_RSP),
     (BT_ATT_OP_READ_REQ, BT_ATT_OP_READ_RSP),
     (BT_ATT_OP_READ_BLOB_REQ, BT_ATT_OP_READ_BLOB_RSP),
     (BT_ATT_OP_READ_MULT_REQ, BT_ATT_OP_READ_MULT_RSP),
     (BT_ATT_OP_READ_BY_GRP_TYPE_REQ, BT_ATT_OP_READ_BY_GRP_TYPE_RSP),
     (BT_ATT_OP_WRITE_REQ, BT_ATT_OP_WRITE_RSP),
     (BT_ATT_OP_PREP_WRITE_REQ, BT_ATT_OP_PREP_WRITE_RSP),
     (BT_ATT_OP_EXEC_WRITE_REQ, BT_ATT_OP_EXEC_WRITE_RSP)]"

definition get_req_opcode :: "u8 \<Rightarrow> u8" where
  "get_req_opcode rsp_opcode = (case List.find (\<lambda>(_, rsp). rsp = rsp_opcode) att_req_rsp_mapping_table of
     None \<Rightarrow> 0 | Some (req, _) \<Rightarrow> req)"

section \<open>State\<close>

record att_send_op =
  so_id :: u32
  so_timeout_id :: nat
  so_type :: att_op_type
  so_opcode :: u8
  so_pdu :: "u8 list"
  so_callback :: "fid option"
  so_destroy :: "fid option"
  so_user_data :: ptr

record att_notify =
  an_id :: u32
  an_opcode :: u16
  an_callback :: "fid option"
  an_destroy :: "fid option"
  an_user_data :: ptr

record att_disconn =
  ad_id :: u32
  ad_removed :: bool
  ad_callback :: "fid option"
  ad_destroy :: "fid option"
  ad_user_data :: ptr

record sign_info =
  si_key :: "u8 list"
  si_counter :: fid
  si_user_data :: ptr

text \<open>What leaves the file: PDUs written, the shutdown of the socket, calls of the application's functions.\<close>

datatype att_event =
    Wrote "u8 list"
  | Shut_Down
  | Response fid u8 "u8 list" ptr
  | Notified fid u8 "u8 list" ptr
  | Destroyed fid ptr
  | Disconnected fid i32 ptr
  | Timed_Out fid u32 u8 ptr

text \<open>\<open>has_io\<close>: the field \<open>io\<close> is not NULL. \<open>timers\<close> are the time-outs that run, each with the identifier that
  \<open>timeout_add\<close> returned and that of the operation it is for. The three heaps share their addresses, given
  out from \<open>next_addr\<close> on. \<open>freed\<close>: the structure has been released.\<close>

record bt_att =
  att_ref_count :: int
  freed :: bool
  has_io :: bool
  io_on_l2cap :: bool
  io_sec_level :: int
  req_queue :: "addr list"
  pending_req :: ptr
  ind_queue :: "addr list"
  pending_ind :: ptr
  write_queue :: "addr list"
  writer_active :: bool
  notify_list :: "addr list"
  disconn_list :: "addr list"
  in_req :: bool
  att_mtu :: u16
  next_send_id :: u32
  next_reg_id :: u32
  timeout_callback :: "fid option"
  timeout_destroy :: "fid option"
  timeout_data :: ptr
  has_crypto :: bool
  local_sign :: "sign_info option"
  remote_sign :: "sign_info option"
  send_ops :: "addr \<Rightarrow> att_send_op option"
  notifies :: "addr \<Rightarrow> att_notify option"
  disconns :: "addr \<Rightarrow> att_disconn option"
  next_addr :: addr
  timers :: "(nat \<times> u32) list"
  next_timer :: nat
  att_log :: "att_event list"

text \<open>The surroundings. \<open>run_response\<close> and the other four are the functions of the application; \<open>counter\<close> is the
  application's signature counter (given the counter that was received, 0 when signing); \<open>sign_att\<close> is the kernel's
  signature of a message under a key and a counter; \<open>alloc_ok\<close> and \<open>watch_ok\<close>: the next \<open>malloc\<close> of a PDU and the next
  registration with the main loop succeed; \<open>fresh\<close> is what memory from \<open>malloc\<close> contains. The last two are
  \<open>getsockopt\<close> and \<open>setsockopt\<close> for the security level of an L2CAP socket.\<close>

record 'z att_os =
  run_response :: "fid \<Rightarrow> u8 \<Rightarrow> u8 list \<Rightarrow> ptr \<Rightarrow> 'z bt_att_scheme \<Rightarrow> 'z bt_att_scheme option"
  run_notify :: "fid \<Rightarrow> u8 \<Rightarrow> u8 list \<Rightarrow> ptr \<Rightarrow> 'z bt_att_scheme \<Rightarrow> 'z bt_att_scheme option"
  run_destroy :: "fid \<Rightarrow> ptr \<Rightarrow> 'z bt_att_scheme \<Rightarrow> 'z bt_att_scheme option"
  run_disconnect :: "fid \<Rightarrow> i32 \<Rightarrow> ptr \<Rightarrow> 'z bt_att_scheme \<Rightarrow> 'z bt_att_scheme option"
  run_timeout :: "fid \<Rightarrow> u32 \<Rightarrow> u8 \<Rightarrow> ptr \<Rightarrow> 'z bt_att_scheme \<Rightarrow> 'z bt_att_scheme option"
  counter :: "fid \<Rightarrow> ptr \<Rightarrow> u32 \<Rightarrow> u32 option"
  sign_att :: "u8 list \<Rightarrow> u8 list \<Rightarrow> u32 \<Rightarrow> u8 list option"
  alloc_ok :: bool
  watch_ok :: bool
  fresh :: "nat \<Rightarrow> u8"
  get_sec_level :: "int option"
  set_sec_ok :: bool

definition log_att :: "att_event \<Rightarrow> 'z bt_att_scheme \<Rightarrow> 'z bt_att_scheme" where
  "log_att e s = s\<lparr>att_log := att_log s @ [e]\<rparr>"

text \<open>Every use of the structure after a function of the application has run.\<close>

definition alive :: "'z bt_att_scheme \<Rightarrow> 'z bt_att_scheme option" where
  "alive s = (if freed s then None else Some s)"

text \<open>Calling a function of the application, when there is one.\<close>

definition call_response :: "'z att_os \<Rightarrow> fid option \<Rightarrow> u8 \<Rightarrow> u8 list \<Rightarrow> ptr \<Rightarrow> 'z bt_att_scheme \<Rightarrow> 'z bt_att_scheme option" where
  "call_response os fn opcode pdu ud s = (case fn of None \<Rightarrow> Some s
     | Some f \<Rightarrow> run_response os f opcode pdu ud (log_att (Response f opcode pdu ud) s))"

definition call_notify :: "'z att_os \<Rightarrow> fid option \<Rightarrow> u8 \<Rightarrow> u8 list \<Rightarrow> ptr \<Rightarrow> 'z bt_att_scheme \<Rightarrow> 'z bt_att_scheme option" where
  "call_notify os fn opcode pdu ud s = (case fn of None \<Rightarrow> Some s
     | Some f \<Rightarrow> run_notify os f opcode pdu ud (log_att (Notified f opcode pdu ud) s))"

definition call_destroy_fn :: "'z att_os \<Rightarrow> fid option \<Rightarrow> ptr \<Rightarrow> 'z bt_att_scheme \<Rightarrow> 'z bt_att_scheme option" where
  "call_destroy_fn os fn ud s = (case fn of None \<Rightarrow> Some s
     | Some f \<Rightarrow> run_destroy os f ud (log_att (Destroyed f ud) s))"

section \<open>Operations: making, sending, destroying\<close>

definition timeout_remove :: "nat \<Rightarrow> 'z bt_att_scheme \<Rightarrow> 'z bt_att_scheme" where
  "timeout_remove src s = s\<lparr>timers := filter (\<lambda>t. fst t \<noteq> src) (timers s)\<rparr>"

definition free_send_op :: "addr \<Rightarrow> 'z bt_att_scheme \<Rightarrow> 'z bt_att_scheme option" where
  "free_send_op a s = do { _ \<leftarrow> send_ops s a; Some (s\<lparr>send_ops := (send_ops s)(a := None)\<rparr>) }"

definition destroy_att_send_op :: "'z att_os \<Rightarrow> addr \<Rightarrow> 'z bt_att_scheme \<Rightarrow> 'z bt_att_scheme option" where
  "destroy_att_send_op os a s = do {
     op \<leftarrow> send_ops s a;
     let s = (if so_timeout_id op \<noteq> 0 then timeout_remove (so_timeout_id op) s else s);
     s \<leftarrow> call_destroy_fn os (so_destroy op) (so_user_data op) s;
     free_send_op a s }"

definition cancel_att_send_op :: "'z att_os \<Rightarrow> addr \<Rightarrow> 'z bt_att_scheme \<Rightarrow> 'z bt_att_scheme option" where
  "cancel_att_send_op os a s = do {
     op \<leftarrow> send_ops s a;
     s \<leftarrow> call_destroy_fn os (so_destroy op) (so_user_data op) s;
     op \<leftarrow> send_ops s a;
     Some (s\<lparr>send_ops := (send_ops s)(a \<mapsto> op\<lparr>so_user_data := None, so_callback := None, so_destroy := None\<rparr>)\<rparr>) }"

text \<open>The bytes of a PDU, \<open>Inl ()\<close> when the function gives up. \<open>pdu_len\<close> has 16 bits; when it wraps, the copy does not
  fit the buffer.\<close>

definition encode_pdu :: "'z att_os \<Rightarrow> 'z bt_att_scheme \<Rightarrow> u8 \<Rightarrow> u8 list option \<Rightarrow> u16 \<Rightarrow> (unit + u8 list) option" where
  "encode_pdu os s opcode pdu len = do {
     let signed = (local_sign s \<noteq> None \<and> opcode AND ATT_OP_SIGNED_MASK \<noteq> 0);
     let pdu_len = (1 :: u16) + (if signed then of_nat BT_ATT_SIGNATURE_LEN else 0);
     let pdu_len = (if len \<noteq> 0 \<and> pdu \<noteq> None then pdu_len + len else pdu_len);
     if att_mtu s < pdu_len \<or> \<not> alloc_ok os then Some (Inl ())
     else do {
       let data = take (unat len) (case pdu of None \<Rightarrow> [] | Some p \<Rightarrow> p);
       if pdu_len = 0 \<or> pdu_len > 1 \<and> (length data < unat len \<or> unat pdu_len < 1 + unat len) then None
       else do {
         let buf = (if pdu_len > 1 then opcode # data else [opcode]);
         let buf = buf @ map (fresh os) [length buf..<unat pdu_len];
         case local_sign s of
           None \<Rightarrow> Some (Inr buf)
         | Some sign \<Rightarrow>
             if opcode AND ATT_OP_SIGNED_MASK = 0 \<or> \<not> has_crypto s then Some (Inr buf)
             else (case counter os (si_counter sign) (si_user_data sign) 0 of
                 None \<Rightarrow> Some (Inl ())
               | Some sign_cnt \<Rightarrow> (case sign_att os (si_key sign) (take (1 + unat len) buf) sign_cnt of
                     None \<Rightarrow> Some (Inl ())
                   | Some sig \<Rightarrow> Some (Inr (take (1 + unat len) buf @ take BT_ATT_SIGNATURE_LEN sig)))) } } }"

definition create_att_send_op ::
    "'z att_os \<Rightarrow> 'z bt_att_scheme \<Rightarrow> u8 \<Rightarrow> u8 list option \<Rightarrow> u16 \<Rightarrow> fid option \<Rightarrow> ptr \<Rightarrow> fid option \<Rightarrow> att_send_op option option" where
  "create_att_send_op os s opcode pdu len callback user_data destroy =
    (let type = get_op_type opcode in
     if len \<noteq> 0 \<and> pdu = None then Some None
     else if type = ATT_OP_TYPE_UNKNOWN then Some None
     else if callback \<noteq> None \<and> type \<noteq> ATT_OP_TYPE_REQ \<and> type \<noteq> ATT_OP_TYPE_IND then Some None
     else if callback = None \<and> (type = ATT_OP_TYPE_REQ \<or> type = ATT_OP_TYPE_IND) then Some None
     else do {
       r \<leftarrow> encode_pdu os s opcode pdu len;
       case r of Inl _ \<Rightarrow> Some None
       | Inr bytes \<Rightarrow> Some (Some \<lparr>so_id = 0, so_timeout_id = 0, so_type = type, so_opcode = opcode, so_pdu = bytes,
           so_callback = callback, so_destroy = destroy, so_user_data = user_data\<rparr>) })"

text \<open>The next operation that may be sent: PDUs that need no answer first, then a request when none is pending, then
  an indication when none is pending.\<close>

definition pick_next_send_op :: "'z bt_att_scheme \<Rightarrow> ptr \<times> 'z bt_att_scheme" where
  "pick_next_send_op s = (case write_queue s of
       a # rest \<Rightarrow> (Some a, s\<lparr>write_queue := rest\<rparr>)
     | [] \<Rightarrow> (case (pending_req s, req_queue s) of
           (None, a # rest) \<Rightarrow> (Some a, s\<lparr>req_queue := rest\<rparr>)
         | _ \<Rightarrow> (case (pending_ind s, ind_queue s) of
               (None, a # rest) \<Rightarrow> (Some a, s\<lparr>ind_queue := rest\<rparr>)
             | _ \<Rightarrow> (None, s))))"

definition io_shutdown :: "'z bt_att_scheme \<Rightarrow> 'z bt_att_scheme" where
  "io_shutdown s = (if has_io s then log_att Shut_Down s else s)"

text \<open>A time-out fires for the operation \<open>ident\<close>. GLib removes its timer afterwards.\<close>

definition timeout_cb :: "'z att_os \<Rightarrow> u32 \<Rightarrow> 'z bt_att_scheme \<Rightarrow> 'z bt_att_scheme option" where
  "timeout_cb os ident s = do {
     has_id \<leftarrow> (case pending_req s of None \<Rightarrow> Some False | Some a \<Rightarrow> do { op \<leftarrow> send_ops s a; Some (so_id op = ident) });
     has_ind \<leftarrow> (if has_id then Some False else case pending_ind s of None \<Rightarrow> Some False
        | Some a \<Rightarrow> do { op \<leftarrow> send_ops s a; Some (so_id op = ident) });
     let (found, s) = (if has_id then (pending_req s, s\<lparr>pending_req := None\<rparr>)
        else if has_ind then (pending_ind s, s\<lparr>pending_ind := None\<rparr>) else (None, s));
     case found of None \<Rightarrow> Some s
     | Some a \<Rightarrow> do {
         op \<leftarrow> send_ops s a;
         s \<leftarrow> (case timeout_callback s of None \<Rightarrow> Some s
            | Some f \<Rightarrow> run_timeout os f (so_id op) (so_opcode op) (timeout_data s)
                (log_att (Timed_Out f (so_id op) (so_opcode op) (timeout_data s)) s));
         op \<leftarrow> send_ops s a;
         s \<leftarrow> destroy_att_send_op os a (s\<lparr>send_ops := (send_ops s)(a \<mapsto> op\<lparr>so_timeout_id := 0\<rparr>)\<rparr>);
         s \<leftarrow> alive s;
         Some (io_shutdown s) } }"

definition fire_timer :: "'z att_os \<Rightarrow> nat \<Rightarrow> 'z bt_att_scheme \<Rightarrow> 'z bt_att_scheme option" where
  "fire_timer os src s = (case map_of (timers s) src of None \<Rightarrow> Some s
     | Some ident \<Rightarrow> do { s \<leftarrow> timeout_cb os ident s; Some (timeout_remove src s) })"

definition write_watch_destroy :: "'z bt_att_scheme \<Rightarrow> 'z bt_att_scheme" where
  "write_watch_destroy s = s\<lparr>writer_active := False\<rparr>"

text \<open>\<open>ret\<close> is what \<open>io_send\<close> returns. The result tells whether the handler stays installed.\<close>

definition can_write_data :: "'z att_os \<Rightarrow> int \<Rightarrow> 'z bt_att_scheme \<Rightarrow> (bool \<times> 'z bt_att_scheme) option" where
  "can_write_data os ret s = (case pick_next_send_op s of
       (None, s) \<Rightarrow> Some (False, s)
     | (Some a, s) \<Rightarrow> do {
         op \<leftarrow> send_ops s a;
         if ret < 0 then do {
           s \<leftarrow> call_response os (so_callback op) BT_ATT_OP_ERROR_RSP [] (so_user_data op) s;
           s \<leftarrow> destroy_att_send_op os a s;
           Some (True, s) }
         else do {
           let s = log_att (Wrote (take (nat ret) (so_pdu op))) s;
           if so_type op = ATT_OP_TYPE_REQ \<or> so_type op = ATT_OP_TYPE_IND then
             (let s = (if so_type op = ATT_OP_TYPE_REQ then s\<lparr>pending_req := Some a\<rparr> else s\<lparr>pending_ind := Some a\<rparr>)
              in Some (True, s\<lparr>timers := timers s @ [(next_timer s, so_id op)], next_timer := next_timer s + 1,
                   send_ops := (send_ops s)(a \<mapsto> op\<lparr>so_timeout_id := next_timer s\<rparr>)\<rparr>))
           else do {
             let s = (if so_type op = ATT_OP_TYPE_RSP then s\<lparr>in_req := False\<rparr> else s);
             s \<leftarrow> destroy_att_send_op os a s;
             Some (True, s) } } })"

text \<open>The main loop finds the socket writable: \<open>watch_callback\<close> of \<open>shared/io-glib.c\<close>, and \<open>watch_destroy\<close> when the
  handler does not want to stay.\<close>

definition writable :: "'z att_os \<Rightarrow> int \<Rightarrow> 'z bt_att_scheme \<Rightarrow> 'z bt_att_scheme option" where
  "writable os ret s = (if writer_active s then do {
       (stays, s) \<leftarrow> can_write_data os ret s;
       Some (if stays then s else write_watch_destroy s) }
     else Some s)"

definition wakeup_writer :: "'z att_os \<Rightarrow> 'z bt_att_scheme \<Rightarrow> 'z bt_att_scheme" where
  "wakeup_writer os s =
    (if writer_active s then s
     else if write_queue s = [] \<and> (pending_req s \<noteq> None \<or> req_queue s = []) \<and> (pending_ind s \<noteq> None \<or> ind_queue s = []) then s
     else if has_io s \<and> watch_ok os then s\<lparr>writer_active := True\<rparr>
     else s)"

definition enqueue_op :: "addr \<Rightarrow> att_op_type \<Rightarrow> 'z bt_att_scheme \<Rightarrow> 'z bt_att_scheme" where
  "enqueue_op a type s = (case type of
       ATT_OP_TYPE_REQ \<Rightarrow> s\<lparr>req_queue := req_queue s @ [a]\<rparr>
     | ATT_OP_TYPE_IND \<Rightarrow> s\<lparr>ind_queue := ind_queue s @ [a]\<rparr>
     | _ \<Rightarrow> s\<lparr>write_queue := write_queue s @ [a]\<rparr>)"

definition bt_att_send ::
    "'z att_os \<Rightarrow> u8 \<Rightarrow> u8 list option \<Rightarrow> u16 \<Rightarrow> fid option \<Rightarrow> ptr \<Rightarrow> fid option \<Rightarrow> 'z bt_att_scheme \<Rightarrow> (u32 \<times> 'z bt_att_scheme) option" where
  "bt_att_send os opcode pdu len callback user_data destroy s =
    (if \<not> has_io s then Some (0, s)
     else do {
       r \<leftarrow> create_att_send_op os s opcode pdu len callback user_data destroy;
       case r of None \<Rightarrow> Some (0, s)
       | Some op \<Rightarrow>
         (let ident = (if next_send_id s < 1 then 1 else next_send_id s);
              op = op\<lparr>so_id := ident\<rparr>;
              a = next_addr s;
              s = s\<lparr>next_send_id := ident + 1, send_ops := (send_ops s)(a \<mapsto> op), next_addr := a + 1\<rparr>;
              s = enqueue_op a (so_type op) s
          in Some (ident, wakeup_writer os s)) })"

text \<open>Looking for an object in a queue (\<open>queue_remove_if\<close> with \<open>match_op_id\<close>, \<open>match_notify_id\<close>, \<open>match_disconn_id\<close>).\<close>

primrec find_addr :: "('o \<Rightarrow> bool) \<Rightarrow> (addr \<Rightarrow> 'o option) \<Rightarrow> addr list \<Rightarrow> ptr option" where
  "find_addr f heap [] = Some None"
| "find_addr f heap (a # as) = do { x \<leftarrow> heap a; if f x then Some (Some a) else find_addr f heap as }"

definition op_has_id :: "'z bt_att_scheme \<Rightarrow> u32 \<Rightarrow> ptr \<Rightarrow> bool option" where
  "op_has_id s ident p = (case p of None \<Rightarrow> Some False | Some a \<Rightarrow> do { op \<leftarrow> send_ops s a; Some (so_id op = ident) })"

text \<open>Taking an operation out of the queue that it is in.\<close>

definition take_queued :: "u32 \<Rightarrow> 'z bt_att_scheme \<Rightarrow> (ptr \<times> 'z bt_att_scheme) option" where
  "take_queued ident s = do {
     r \<leftarrow> find_addr (\<lambda>op. so_id op = ident) (send_ops s) (req_queue s);
     case r of Some a \<Rightarrow> Some (Some a, s\<lparr>req_queue := remove1 a (req_queue s)\<rparr>)
     | None \<Rightarrow> do {
         r \<leftarrow> find_addr (\<lambda>op. so_id op = ident) (send_ops s) (ind_queue s);
         case r of Some a \<Rightarrow> Some (Some a, s\<lparr>ind_queue := remove1 a (ind_queue s)\<rparr>)
         | None \<Rightarrow> do {
             r \<leftarrow> find_addr (\<lambda>op. so_id op = ident) (send_ops s) (write_queue s);
             case r of Some a \<Rightarrow> Some (Some a, s\<lparr>write_queue := remove1 a (write_queue s)\<rparr>)
             | None \<Rightarrow> Some (None, s) } } }"

definition bt_att_cancel :: "'z att_os \<Rightarrow> u32 \<Rightarrow> 'z bt_att_scheme \<Rightarrow> (bool \<times> 'z bt_att_scheme) option" where
  "bt_att_cancel os ident s = (if ident = 0 then Some (False, s) else do {
     is_req \<leftarrow> op_has_id s ident (pending_req s);
     if is_req then do { s \<leftarrow> cancel_att_send_op os (the (pending_req s)) s; Some (True, s) }
     else do {
       is_ind \<leftarrow> op_has_id s ident (pending_ind s);
       if is_ind then do { s \<leftarrow> cancel_att_send_op os (the (pending_ind s)) s; Some (True, s) }
       else do {
         (found, s) \<leftarrow> take_queued ident s;
         case found of None \<Rightarrow> Some (False, s)
         | Some a \<Rightarrow> do { s \<leftarrow> destroy_att_send_op os a s; s \<leftarrow> alive s; Some (True, wakeup_writer os s) } } } })"

definition cancel_pending :: "'z att_os \<Rightarrow> ptr \<Rightarrow> 'z bt_att_scheme \<Rightarrow> 'z bt_att_scheme option" where
  "cancel_pending os p s = (case p of None \<Rightarrow> Some s | Some a \<Rightarrow> do { s \<leftarrow> cancel_att_send_op os a s; alive s })"

definition bt_att_cancel_all :: "'z att_os \<Rightarrow> 'z bt_att_scheme \<Rightarrow> 'z bt_att_scheme option" where
  "bt_att_cancel_all os s = do {
     s \<leftarrow> each (destroy_att_send_op os) (req_queue s) (s\<lparr>req_queue := []\<rparr>);
     s \<leftarrow> alive s;
     s \<leftarrow> each (destroy_att_send_op os) (ind_queue s) (s\<lparr>ind_queue := []\<rparr>);
     s \<leftarrow> alive s;
     s \<leftarrow> each (destroy_att_send_op os) (write_queue s) (s\<lparr>write_queue := []\<rparr>);
     s \<leftarrow> alive s;
     s \<leftarrow> cancel_pending os (pending_req s) s;
     cancel_pending os (pending_ind s) s }"

section \<open>Handlers\<close>

definition destroy_att_notify :: "'z att_os \<Rightarrow> addr \<Rightarrow> 'z bt_att_scheme \<Rightarrow> 'z bt_att_scheme option" where
  "destroy_att_notify os a s = do {
     n \<leftarrow> notifies s a;
     s \<leftarrow> call_destroy_fn os (an_destroy n) (an_user_data n) s;
     _ \<leftarrow> notifies s a;
     Some (s\<lparr>notifies := (notifies s)(a := None)\<rparr>) }"

definition destroy_att_disconn :: "'z att_os \<Rightarrow> addr \<Rightarrow> 'z bt_att_scheme \<Rightarrow> 'z bt_att_scheme option" where
  "destroy_att_disconn os a s = do {
     d \<leftarrow> disconns s a;
     s \<leftarrow> call_destroy_fn os (ad_destroy d) (ad_user_data d) s;
     _ \<leftarrow> disconns s a;
     Some (s\<lparr>disconns := (disconns s)(a := None)\<rparr>) }"

definition bt_att_register :: "u8 \<Rightarrow> fid option \<Rightarrow> ptr \<Rightarrow> fid option \<Rightarrow> 'z bt_att_scheme \<Rightarrow> u32 \<times> 'z bt_att_scheme" where
  "bt_att_register opcode callback user_data destroy s =
    (if callback = None \<or> \<not> has_io s then (0, s)
     else (let ident = (if next_reg_id s < 1 then 1 else next_reg_id s);
               a = next_addr s;
               n = \<lparr>an_id = ident, an_opcode = ucast opcode, an_callback = callback, an_destroy = destroy, an_user_data = user_data\<rparr>
           in (ident, s\<lparr>next_reg_id := ident + 1, notifies := (notifies s)(a \<mapsto> n), next_addr := a + 1,
                notify_list := notify_list s @ [a]\<rparr>)))"

definition bt_att_unregister :: "'z att_os \<Rightarrow> u32 \<Rightarrow> 'z bt_att_scheme \<Rightarrow> (bool \<times> 'z bt_att_scheme) option" where
  "bt_att_unregister os ident s = (if ident = 0 then Some (False, s) else do {
     found \<leftarrow> find_addr (\<lambda>n. an_id n = ident) (notifies s) (notify_list s);
     case found of None \<Rightarrow> Some (False, s)
     | Some a \<Rightarrow> do { s \<leftarrow> destroy_att_notify os a (s\<lparr>notify_list := remove1 a (notify_list s)\<rparr>); Some (True, s) } })"

definition bt_att_register_disconnect :: "fid option \<Rightarrow> ptr \<Rightarrow> fid option \<Rightarrow> 'z bt_att_scheme \<Rightarrow> u32 \<times> 'z bt_att_scheme" where
  "bt_att_register_disconnect callback user_data destroy s =
    (if \<not> has_io s then (0, s)
     else (let ident = (if next_reg_id s < 1 then 1 else next_reg_id s);
               a = next_addr s;
               d = \<lparr>ad_id = ident, ad_removed = False, ad_callback = callback, ad_destroy = destroy, ad_user_data = user_data\<rparr>
           in (ident, s\<lparr>next_reg_id := ident + 1, disconns := (disconns s)(a \<mapsto> d), next_addr := a + 1,
                disconn_list := disconn_list s @ [a]\<rparr>)))"

definition bt_att_unregister_disconnect :: "'z att_os \<Rightarrow> u32 \<Rightarrow> 'z bt_att_scheme \<Rightarrow> (bool \<times> 'z bt_att_scheme) option" where
  "bt_att_unregister_disconnect os ident s = (if ident = 0 then Some (False, s) else do {
     found \<leftarrow> find_addr (\<lambda>d. ad_id d = ident) (disconns s) (disconn_list s);
     case found of None \<Rightarrow> Some (False, s)
     | Some a \<Rightarrow> do { s \<leftarrow> destroy_att_disconn os a (s\<lparr>disconn_list := remove1 a (disconn_list s)\<rparr>); Some (True, s) } })"

definition bt_att_unregister_all :: "'z att_os \<Rightarrow> 'z bt_att_scheme \<Rightarrow> 'z bt_att_scheme option" where
  "bt_att_unregister_all os s = do {
     s \<leftarrow> each (destroy_att_notify os) (notify_list s) (s\<lparr>notify_list := []\<rparr>);
     s \<leftarrow> alive s;
     each (destroy_att_disconn os) (disconn_list s) (s\<lparr>disconn_list := []\<rparr>) }"

section \<open>References\<close>

definition bt_att_ref :: "'z bt_att_scheme \<Rightarrow> 'z bt_att_scheme" where
  "bt_att_ref s = s\<lparr>att_ref_count := att_ref_count s + 1\<rparr>"

definition destroy_pending :: "'z att_os \<Rightarrow> ptr \<Rightarrow> 'z bt_att_scheme \<Rightarrow> 'z bt_att_scheme option" where
  "destroy_pending os p s = (case p of None \<Rightarrow> Some s | Some a \<Rightarrow> destroy_att_send_op os a s)"

text \<open>\<open>io_destroy\<close> removes the watches, and with the one for writing goes \<open>write_watch_destroy\<close>.\<close>

definition io_destroy :: "'z bt_att_scheme \<Rightarrow> 'z bt_att_scheme" where
  "io_destroy s = (if has_io s then write_watch_destroy s else s)"

definition bt_att_free :: "'z att_os \<Rightarrow> 'z bt_att_scheme \<Rightarrow> 'z bt_att_scheme option" where
  "bt_att_free os s = do {
     s \<leftarrow> destroy_pending os (pending_req s) s;
     s \<leftarrow> destroy_pending os (pending_ind s) s;
     let s = io_destroy s;
     s \<leftarrow> call_destroy_fn os (timeout_destroy s) (timeout_data s) s;
     s \<leftarrow> alive s;
     Some (s\<lparr>freed := True\<rparr>) }"

definition bt_att_unref :: "'z att_os \<Rightarrow> 'z bt_att_scheme \<Rightarrow> 'z bt_att_scheme option" where
  "bt_att_unref os s = do {
     s \<leftarrow> alive s;
     let s = s\<lparr>att_ref_count := att_ref_count s - 1\<rparr>;
     if att_ref_count s \<noteq> 0 then Some s
     else do {
       s \<leftarrow> bt_att_unregister_all os s;
       s \<leftarrow> alive s;
       s \<leftarrow> bt_att_cancel_all os s;
       bt_att_free os s } }"

section \<open>Disconnection\<close>

definition disc_att_send_op :: "'z att_os \<Rightarrow> addr \<Rightarrow> 'z bt_att_scheme \<Rightarrow> 'z bt_att_scheme option" where
  "disc_att_send_op os a s = do {
     op \<leftarrow> send_ops s a;
     s \<leftarrow> call_response os (so_callback op) BT_ATT_OP_ERROR_RSP [] (so_user_data op) s;
     destroy_att_send_op os a s }"

definition disconn_handler :: "'z att_os \<Rightarrow> i32 \<Rightarrow> addr \<Rightarrow> 'z bt_att_scheme \<Rightarrow> 'z bt_att_scheme option" where
  "disconn_handler os err a s = do {
     d \<leftarrow> disconns s a;
     if ad_removed d then Some s
     else (case ad_callback d of None \<Rightarrow> Some s
       | Some f \<Rightarrow> run_disconnect os f err (ad_user_data d) (log_att (Disconnected f err (ad_user_data d)) s)) }"

text \<open>The entry after this one, as the loops over a queue fetch it before they call a function; an entry that has been
  removed meanwhile is freed.\<close>

definition next_entry :: "addr \<Rightarrow> addr list \<Rightarrow> ptr option" where
  "next_entry a as = (case dropWhile (\<lambda>x. x \<noteq> a) as of [] \<Rightarrow> None | [_] \<Rightarrow> Some None | _ # b # _ \<Rightarrow> Some (Some b))"

partial_function (option) foreach_disconn :: "'z att_os \<Rightarrow> i32 \<Rightarrow> ptr \<Rightarrow> 'z bt_att_scheme \<Rightarrow> 'z bt_att_scheme option" where
  "foreach_disconn os err entry s = (case entry of None \<Rightarrow> Some s
     | Some a \<Rightarrow> if disconn_list s = [] then Some s
         else do {
           nxt \<leftarrow> next_entry a (disconn_list s);
           s \<leftarrow> disconn_handler os err a s;
           s \<leftarrow> alive s;
           foreach_disconn os err nxt s })"

definition first_entry :: "addr list \<Rightarrow> ptr" where
  "first_entry as = (case as of [] \<Rightarrow> None | a # _ \<Rightarrow> Some a)"

definition disc_pending :: "'z att_os \<Rightarrow> ptr \<Rightarrow> 'z bt_att_scheme \<Rightarrow> 'z bt_att_scheme option" where
  "disc_pending os p s = (case p of None \<Rightarrow> Some s | Some a \<Rightarrow> disc_att_send_op os a s)"

text \<open>\<open>err\<close> is the error that \<open>getsockopt\<close> reads from the socket, 0 when it fails.\<close>

definition disconnect_cb :: "'z att_os \<Rightarrow> i32 \<Rightarrow> 'z bt_att_scheme \<Rightarrow> 'z bt_att_scheme option" where
  "disconnect_cb os err s = do {
     let s = (io_destroy s)\<lparr>has_io := False\<rparr>;
     s \<leftarrow> each (disc_att_send_op os) (req_queue s) (s\<lparr>req_queue := []\<rparr>);
     s \<leftarrow> alive s;
     s \<leftarrow> each (disc_att_send_op os) (ind_queue s) (s\<lparr>ind_queue := []\<rparr>);
     s \<leftarrow> alive s;
     s \<leftarrow> each (disc_att_send_op os) (write_queue s) (s\<lparr>write_queue := []\<rparr>);
     s \<leftarrow> alive s;
     s \<leftarrow> disc_pending os (pending_req s) s;
     s \<leftarrow> alive s;
     let s = s\<lparr>pending_req := None\<rparr>;
     s \<leftarrow> disc_pending os (pending_ind s) s;
     s \<leftarrow> alive s;
     let s = bt_att_ref (s\<lparr>pending_ind := None\<rparr>);
     s \<leftarrow> foreach_disconn os err (first_entry (disconn_list s)) s;
     s \<leftarrow> bt_att_unregister_all os s;
     s \<leftarrow> alive s;
     bt_att_unref os s }"

section \<open>Security level\<close>

definition EIO :: int where "EIO = 5"

definition bt_att_get_security :: "'z att_os \<Rightarrow> 'z bt_att_scheme \<Rightarrow> int" where
  "bt_att_get_security os s = (if \<not> io_on_l2cap s then io_sec_level s
     else case get_sec_level os of None \<Rightarrow> - EIO | Some l \<Rightarrow> l)"

definition bt_att_set_security :: "'z att_os \<Rightarrow> int \<Rightarrow> 'z bt_att_scheme \<Rightarrow> bool \<times> 'z bt_att_scheme" where
  "bt_att_set_security os level s =
    (if level < BT_ATT_SECURITY_AUTO \<or> BT_ATT_SECURITY_HIGH < level then (False, s)
     else if \<not> io_on_l2cap s then (True, s\<lparr>io_sec_level := level\<rparr>)
     else (set_sec_ok os, s))"

definition change_security :: "'z att_os \<Rightarrow> u8 \<Rightarrow> 'z bt_att_scheme \<Rightarrow> bool \<times> 'z bt_att_scheme" where
  "change_security os ecode s =
    (if io_sec_level s \<noteq> BT_ATT_SECURITY_AUTO then (False, s)
     else (let security = bt_att_get_security os s in
       if ecode = BT_ATT_ERROR_INSUFFICIENT_ENCRYPTION \<and> security < BT_ATT_SECURITY_MEDIUM
       then bt_att_set_security os BT_ATT_SECURITY_MEDIUM s
       else if ecode = BT_ATT_ERROR_AUTHENTICATION then
         (if security < BT_ATT_SECURITY_MEDIUM then bt_att_set_security os BT_ATT_SECURITY_MEDIUM s
          else if security < BT_ATT_SECURITY_HIGH then bt_att_set_security os BT_ATT_SECURITY_HIGH s
          else if security < BT_ATT_SECURITY_FIPS then bt_att_set_security os BT_ATT_SECURITY_FIPS s
          else (False, s))
       else (False, s)))"

section \<open>Receiving\<close>

text \<open>An Error Response: whether the request is tried again at a higher security level, and the opcode of the request
  that the response names.\<close>

definition handle_error_rsp :: "'z att_os \<Rightarrow> u8 list \<Rightarrow> 'z bt_att_scheme \<Rightarrow> (bool \<times> u8) \<times> 'z bt_att_scheme" where
  "handle_error_rsp os pdu s = (if length pdu \<noteq> 4 then ((False, 0), s)
     else (case change_security os (pdu ! 3) s of
         (False, s) \<Rightarrow> ((False, pdu ! 0), s)
       | (True, s) \<Rightarrow> (case pending_req s of
             None \<Rightarrow> ((False, pdu ! 0), s)
           | Some a \<Rightarrow> ((True, pdu ! 0), s\<lparr>pending_req := None, req_queue := a # req_queue s\<rparr>))))"

definition end_request :: "'z att_os \<Rightarrow> addr \<Rightarrow> u8 \<Rightarrow> u8 list \<Rightarrow> 'z bt_att_scheme \<Rightarrow> 'z bt_att_scheme option" where
  "end_request os a rsp_opcode rsp_pdu s = do {
     op \<leftarrow> send_ops s a;
     s \<leftarrow> call_response os (so_callback op) rsp_opcode rsp_pdu (so_user_data op) s;
     s \<leftarrow> destroy_att_send_op os a s;
     s \<leftarrow> alive s;
     Some (wakeup_writer os (s\<lparr>pending_req := None\<rparr>)) }"

definition handle_rsp :: "'z att_os \<Rightarrow> u8 \<Rightarrow> u8 list \<Rightarrow> 'z bt_att_scheme \<Rightarrow> 'z bt_att_scheme option" where
  "handle_rsp os opcode pdu s = (case pending_req s of None \<Rightarrow> Some (io_shutdown s)
     | Some a \<Rightarrow> do {
         op \<leftarrow> send_ops s a;
         if opcode = BT_ATT_OP_ERROR_RSP then
           (case handle_error_rsp os pdu s of
              ((True, _), s) \<Rightarrow> Some (wakeup_writer os s)
            | ((False, req_opcode), s) \<Rightarrow>
                if req_opcode \<noteq> so_opcode op then end_request os a BT_ATT_OP_ERROR_RSP [] s
                else end_request os a opcode pdu s)
         else (let req_opcode = get_req_opcode opcode in
           if req_opcode = 0 \<or> req_opcode \<noteq> so_opcode op then end_request os a BT_ATT_OP_ERROR_RSP [] s
           else end_request os a opcode pdu s) })"

definition handle_conf :: "'z att_os \<Rightarrow> u8 list \<Rightarrow> 'z bt_att_scheme \<Rightarrow> 'z bt_att_scheme option" where
  "handle_conf os pdu s = (case pending_ind s of None \<Rightarrow> Some (io_shutdown s)
     | Some a \<Rightarrow> if pdu \<noteq> [] then Some (io_shutdown s)
         else do {
           op \<leftarrow> send_ops s a;
           s \<leftarrow> call_response os (so_callback op) BT_ATT_OP_HANDLE_VAL_CONF [] (so_user_data op) s;
           s \<leftarrow> destroy_att_send_op os a s;
           s \<leftarrow> alive s;
           Some (wakeup_writer os (s\<lparr>pending_ind := None\<rparr>)) })"

definition opcode_match :: "u16 \<Rightarrow> u8 \<Rightarrow> bool" where
  "opcode_match opcode test_opcode \<longleftrightarrow>
     (ucast opcode = BT_ATT_ALL_REQUESTS \<and> (get_op_type test_opcode = ATT_OP_TYPE_REQ \<or> get_op_type test_opcode = ATT_OP_TYPE_CMD))
     \<or> (ucast opcode :: u8) = test_opcode"

definition respond_not_supported :: "'z att_os \<Rightarrow> u8 \<Rightarrow> 'z bt_att_scheme \<Rightarrow> 'z bt_att_scheme option" where
  "respond_not_supported os opcode s = do {
     (_, s) \<leftarrow> bt_att_send os BT_ATT_OP_ERROR_RSP (Some ([opcode, 0, 0, BT_ATT_ERROR_REQUEST_NOT_SUPPORTED])) 4 None None None s;
     Some s }"

text \<open>The check of a signature. The signature that is computed is written over the one in the PDU, not compared with it.
  \<open>Inl ()\<close>: refused; otherwise the PDU as it is then.\<close>

definition handle_signed :: "'z att_os \<Rightarrow> u8 list \<Rightarrow> 'z bt_att_scheme \<Rightarrow> unit + u8 list" where
  "handle_signed os pdu s =
    (if length pdu < 2 + BT_ATT_SIGNATURE_LEN then Inl ()
     else case remote_sign s of None \<Rightarrow> Inl ()
     | Some sign \<Rightarrow>
       (let m = take (length pdu - BT_ATT_SIGNATURE_LEN) pdu in
        case counter os (si_counter sign) (si_user_data sign) (get_le32 (drop (length pdu - BT_ATT_SIGNATURE_LEN) pdu) 0) of
          None \<Rightarrow> Inl ()
        | Some sign_cnt \<Rightarrow> if \<not> has_crypto s then Inl ()
            else (case sign_att os (si_key sign) m sign_cnt of
                None \<Rightarrow> Inl ()
              | Some sig \<Rightarrow> Inr (m @ take BT_ATT_SIGNATURE_LEN sig))))"

text \<open>The loop over the notification handlers; the answer tells whether one was found.\<close>

partial_function (option) notify_handlers ::
    "'z att_os \<Rightarrow> u8 \<Rightarrow> u8 list \<Rightarrow> ptr \<Rightarrow> bool \<Rightarrow> 'z bt_att_scheme \<Rightarrow> (bool \<times> 'z bt_att_scheme) option" where
  "notify_handlers os opcode pdu entry found s = (case entry of None \<Rightarrow> Some (found, s)
     | Some a \<Rightarrow> do {
         nxt \<leftarrow> next_entry a (notify_list s);
         n \<leftarrow> notifies s a;
         if \<not> opcode_match (an_opcode n) opcode then notify_handlers os opcode pdu nxt found s
         else do {
           s \<leftarrow> call_notify os (an_callback n) opcode pdu (an_user_data n) s;
           s \<leftarrow> alive s;
           if notify_list s = [] then Some (True, s) else notify_handlers os opcode pdu nxt True s } })"

definition handle_notify :: "'z att_os \<Rightarrow> u8 \<Rightarrow> u8 list \<Rightarrow> 'z bt_att_scheme \<Rightarrow> 'z bt_att_scheme option" where
  "handle_notify os opcode pdu s =
    (case (if opcode AND ATT_OP_SIGNED_MASK \<noteq> 0 \<and> \<not> has_crypto s
           then (case handle_signed os pdu s of Inl _ \<Rightarrow> None
              | Inr pdu \<Rightarrow> Some (take (length pdu - BT_ATT_SIGNATURE_LEN) pdu))
           else Some pdu) of
       None \<Rightarrow> Some s
     | Some pdu \<Rightarrow> do {
         let s = bt_att_ref s;
         (found, s) \<leftarrow> notify_handlers os opcode pdu (first_entry (notify_list s)) False s;
         s \<leftarrow> (if \<not> found \<and> get_op_type opcode = ATT_OP_TYPE_REQ then respond_not_supported os opcode s else Some s);
         bt_att_unref os s })"

text \<open>The read handler; \<open>bytes\<close> is what \<open>read\<close> delivers, \<open>None\<close> for an error. The result tells whether it stays.\<close>

definition can_read_data :: "'z att_os \<Rightarrow> u8 list option \<Rightarrow> 'z bt_att_scheme \<Rightarrow> (bool \<times> 'z bt_att_scheme) option" where
  "can_read_data os bytes s = (case bytes of None \<Rightarrow> Some (False, s)
     | Some [] \<Rightarrow> Some (True, s)
     | Some (opcode # pdu) \<Rightarrow> (let s = bt_att_ref s in
         case get_op_type opcode of
           ATT_OP_TYPE_RSP \<Rightarrow> do { s \<leftarrow> handle_rsp os opcode pdu s; s \<leftarrow> bt_att_unref os s; Some (True, s) }
         | ATT_OP_TYPE_CONF \<Rightarrow> do { s \<leftarrow> handle_conf os pdu s; s \<leftarrow> bt_att_unref os s; Some (True, s) }
         | ATT_OP_TYPE_REQ \<Rightarrow>
             if in_req s then do { s \<leftarrow> bt_att_unref os (io_shutdown s); Some (False, s) }
             else do { s \<leftarrow> handle_notify os opcode pdu (s\<lparr>in_req := True\<rparr>); s \<leftarrow> bt_att_unref os s; Some (True, s) }
         | _ \<Rightarrow> do { s \<leftarrow> handle_notify os opcode pdu s; s \<leftarrow> bt_att_unref os s; Some (True, s) }))"

section \<open>Creation and settings\<close>

text \<open>The answers of the socket at creation: whether \<open>io_new\<close>, the two handlers and the buffer can be had, the kind of
  socket, the type of its source address (or the error of \<open>getsockname\<close>), its MTU, and whether the kernel's
  cryptography can be opened.\<close>

record att_socket =
  io_new_ok :: bool
  read_handler_ok :: bool
  disconnect_handler_ok :: bool
  buffer_ok :: bool
  sk_domain :: "i32 option"
  sk_proto :: "i32 option"
  sk_bdaddr_type :: "u8 option"
  sk_errno :: int
  sk_omtu :: "u16 option"
  crypto_new_ok :: bool

definition AF_BLUETOOTH :: i32 where "AF_BLUETOOTH = 31"
definition BTPROTO_L2CAP :: i32 where "BTPROTO_L2CAP = 0"
definition BDADDR_BREDR :: u8 where "BDADDR_BREDR = 0x00"

definition is_io_l2cap_based :: "att_socket \<Rightarrow> bool" where
  "is_io_l2cap_based sk = (case sk_domain sk of None \<Rightarrow> False
     | Some domain \<Rightarrow> if domain \<noteq> AF_BLUETOOTH then False
         else (case sk_proto sk of None \<Rightarrow> False | Some proto \<Rightarrow> proto = BTPROTO_L2CAP))"

definition get_l2cap_mtu :: "att_socket \<Rightarrow> u16" where
  "get_l2cap_mtu sk = (case sk_omtu sk of None \<Rightarrow> 0 | Some m \<Rightarrow> m)"

definition bt_att_get_link_type :: "att_socket \<Rightarrow> 'z bt_att_scheme \<Rightarrow> u8" where
  "bt_att_get_link_type sk s = (if \<not> io_on_l2cap s then BT_ATT_LINK_LOCAL
     else case sk_bdaddr_type sk of None \<Rightarrow> word_of_int (- sk_errno sk)
     | Some t \<Rightarrow> if t = BDADDR_BREDR then BT_ATT_LINK_BREDR else BT_ATT_LINK_LE)"

text \<open>On failure the caller gets NULL, and nothing is left (\<open>bt_att_free\<close> of a structure that has no operations).\<close>

definition bt_att_new :: "att_socket \<Rightarrow> int \<Rightarrow> bool \<Rightarrow> 'z \<Rightarrow> 'z bt_att_scheme option" where
  "bt_att_new sk fd ext_signed z =
    (if fd < 0 \<or> \<not> io_new_ok sk \<or> \<not> read_handler_ok sk \<or> \<not> disconnect_handler_ok sk then None
     else (let l2cap = is_io_l2cap_based sk;
               s = \<lparr>att_ref_count = 0, freed = False, has_io = True, io_on_l2cap = l2cap,
                  io_sec_level = (if l2cap then 0 else BT_ATT_SECURITY_LOW),
                  req_queue = [], pending_req = None, ind_queue = [], pending_ind = None, write_queue = [], writer_active = False,
                  notify_list = [], disconn_list = [], in_req = False, att_mtu = 0, next_send_id = 0, next_reg_id = 0,
                  timeout_callback = None, timeout_destroy = None, timeout_data = None,
                  has_crypto = (\<not> ext_signed \<and> crypto_new_ok sk), local_sign = None, remote_sign = None,
                  send_ops = Map.empty, notifies = Map.empty, disconns = Map.empty, next_addr = 0, timers = [], next_timer = 1,
                  att_log = [], \<dots> = z\<rparr>;
               mtu = (if bt_att_get_link_type sk s = BT_ATT_LINK_BREDR then get_l2cap_mtu sk else BT_ATT_DEFAULT_LE_MTU)
           in if mtu < BT_ATT_DEFAULT_LE_MTU \<or> \<not> buffer_ok sk then None
              else Some (bt_att_ref (s\<lparr>att_mtu := mtu\<rparr>))))"

definition bt_att_get_mtu :: "'z bt_att_scheme \<Rightarrow> u16" where
  "bt_att_get_mtu s = att_mtu s"

definition bt_att_set_mtu :: "'z att_os \<Rightarrow> u16 \<Rightarrow> 'z bt_att_scheme \<Rightarrow> bool \<times> 'z bt_att_scheme" where
  "bt_att_set_mtu os mtu s = (if mtu < BT_ATT_DEFAULT_LE_MTU \<or> \<not> alloc_ok os then (False, s) else (True, s\<lparr>att_mtu := mtu\<rparr>))"

definition bt_att_set_timeout_cb :: "'z att_os \<Rightarrow> fid option \<Rightarrow> ptr \<Rightarrow> fid option \<Rightarrow> 'z bt_att_scheme \<Rightarrow> 'z bt_att_scheme option" where
  "bt_att_set_timeout_cb os callback user_data destroy s = do {
     s \<leftarrow> call_destroy_fn os (timeout_destroy s) (timeout_data s) s;
     s \<leftarrow> alive s;
     Some (s\<lparr>timeout_callback := callback, timeout_destroy := destroy, timeout_data := user_data\<rparr>) }"

definition ENOENT :: int where "ENOENT = 2"
definition ENOMEM :: int where "ENOMEM = 12"
definition EALREADY :: int where "EALREADY = 114"
definition EOVERFLOW :: int where "EOVERFLOW = 75"

definition att_ecode_from_error :: "int \<Rightarrow> u8" where
  "att_ecode_from_error err =
    (if 0 < err \<and> err < 255 then word_of_int err
     else if err = - ENOENT then BT_ATT_ERROR_INVALID_HANDLE
     else if err = - ENOMEM then BT_ATT_ERROR_INSUFFICIENT_RESOURCES
     else if err = - EALREADY then BT_ERROR_ALREADY_IN_PROGRESS
     else if err = - EOVERFLOW then BT_ERROR_OUT_OF_RANGE
     else BT_ATT_ERROR_UNLIKELY)"

definition bt_att_send_error_rsp :: "'z att_os \<Rightarrow> u8 \<Rightarrow> u16 \<Rightarrow> int \<Rightarrow> 'z bt_att_scheme \<Rightarrow> (u32 \<times> 'z bt_att_scheme) option" where
  "bt_att_send_error_rsp os opcode handle error s = (if opcode = 0 then Some (0, s)
     else bt_att_send os BT_ATT_OP_ERROR_RSP (Some ([opcode] @ le16 handle @ [att_ecode_from_error error])) 4 None None None s)"

definition sign_set_key :: "u8 list \<Rightarrow> fid \<Rightarrow> ptr \<Rightarrow> sign_info" where
  "sign_set_key key func user_data = \<lparr>si_key = take 16 key, si_counter = func, si_user_data = user_data\<rparr>"

definition bt_att_set_local_key :: "u8 list \<Rightarrow> fid \<Rightarrow> ptr \<Rightarrow> 'z bt_att_scheme \<Rightarrow> 'z bt_att_scheme" where
  "bt_att_set_local_key key func user_data s = s\<lparr>local_sign := Some (sign_set_key key func user_data)\<rparr>"

definition bt_att_set_remote_key :: "u8 list \<Rightarrow> fid \<Rightarrow> ptr \<Rightarrow> 'z bt_att_scheme \<Rightarrow> 'z bt_att_scheme" where
  "bt_att_set_remote_key key func user_data s = s\<lparr>remote_sign := Some (sign_set_key key func user_data)\<rparr>"

definition bt_att_has_crypto :: "'z bt_att_scheme \<Rightarrow> bool" where
  "bt_att_has_crypto s = has_crypto s"

section \<open>Well-formed states\<close>

definition opt_list :: "'a option \<Rightarrow> 'a list" where
  "opt_list p = (case p of None \<Rightarrow> [] | Some a \<Rightarrow> [a])"

lemma opt_list_simps [simp]: "opt_list None = []" "opt_list (Some a) = [a]"
  by (simp_all add: opt_list_def)

lemma set_opt_list [simp]: "set (opt_list p) = set_option p"
  by (cases p) auto

text \<open>\<open>F\<close> are the objects that some function has taken out of their queues and not released yet. Every other object
  that is allocated (\<open>D\<close>) is in exactly one place.\<close>

definition places :: "addr set \<Rightarrow> addr set \<Rightarrow> addr list \<Rightarrow> bool" where
  "places F D xs \<longleftrightarrow> distinct xs \<and> set xs \<inter> F = {} \<and> D - F = set xs"

definition typed :: "(addr \<Rightarrow> att_send_op option) \<Rightarrow> att_op_type set \<Rightarrow> addr list \<Rightarrow> bool" where
  "typed h T xs \<longleftrightarrow> (\<forall>a\<in>set xs. \<exists>op. h a = Some op \<and> so_type op \<in> T)"

definition ops_wf :: "addr set \<Rightarrow> (addr \<Rightarrow> att_send_op option) \<Rightarrow> addr list \<Rightarrow> ptr \<Rightarrow> addr list \<Rightarrow> ptr \<Rightarrow> addr list \<Rightarrow> bool" where
  "ops_wf F h rq pr iq pi wq \<longleftrightarrow> places F (dom h) (rq @ opt_list pr @ iq @ opt_list pi @ wq)
     \<and> typed h {ATT_OP_TYPE_REQ} (rq @ opt_list pr) \<and> typed h {ATT_OP_TYPE_IND} (iq @ opt_list pi)
     \<and> typed h (- {ATT_OP_TYPE_REQ, ATT_OP_TYPE_IND}) wq"

definition heaps_wf :: "addr set \<Rightarrow> addr set \<Rightarrow> addr set \<Rightarrow> addr set \<Rightarrow> addr \<Rightarrow> bool" where
  "heaps_wf F S N D b \<longleftrightarrow> (\<forall>a\<in>S \<union> N \<union> D \<union> F. a < b) \<and> S \<inter> N = {} \<and> S \<inter> D = {} \<and> N \<inter> D = {}"

definition wf_att :: "addr set \<Rightarrow> 'z bt_att_scheme \<Rightarrow> bool" where
  "wf_att F s \<longleftrightarrow> \<not> freed s \<and> 0 < att_ref_count s
     \<and> ops_wf F (send_ops s) (req_queue s) (pending_req s) (ind_queue s) (pending_ind s) (write_queue s)
     \<and> places F (dom (notifies s)) (notify_list s) \<and> places F (dom (disconns s)) (disconn_list s)
     \<and> heaps_wf F (dom (send_ops s)) (dom (notifies s)) (dom (disconns s)) (next_addr s)"

text \<open>What a function of the application leaves alone: the objects in \<open>F\<close>, the operations that are pending, the
  connection, and the references of others.\<close>

definition keeps :: "addr set \<Rightarrow> 'z bt_att_scheme \<Rightarrow> 'z bt_att_scheme \<Rightarrow> bool" where
  "keeps F s s' \<longleftrightarrow> (\<forall>a\<in>F. send_ops s' a = send_ops s a \<and> notifies s' a = notifies s a \<and> disconns s' a = disconns s a)
     \<and> pending_req s' = pending_req s \<and> pending_ind s' = pending_ind s \<and> has_io s' = has_io s
     \<and> att_ref_count s \<le> att_ref_count s'"

lemma keeps_refl [simp]: "keeps F s s"
  by (simp add: keeps_def)

lemma keeps_trans: "keeps F s s1 \<Longrightarrow> keeps F s1 s2 \<Longrightarrow> keeps F s s2"
  unfolding keeps_def by force

lemma keeps_mono: "keeps F s s1 \<Longrightarrow> F' \<subseteq> F \<Longrightarrow> keeps F' s s1"
  unfolding keeps_def by blast

text \<open>The contract of a function of the application.\<close>

definition good :: "('z bt_att_scheme \<Rightarrow> 'z bt_att_scheme option) \<Rightarrow> bool" where
  "good f \<longleftrightarrow> (\<forall>F s. wf_att F s \<longrightarrow> (\<exists>s'. f s = Some s' \<and> wf_att F s' \<and> keeps F s s'))"

lemma goodD: "good f \<Longrightarrow> wf_att F s \<Longrightarrow> \<exists>s'. f s = Some s' \<and> wf_att F s' \<and> keeps F s s'"
  by (simp add: good_def)

text \<open>What is left of a list of handlers after the one at \<open>a\<close> has been called.\<close>

definition steady :: "addr list \<Rightarrow> addr \<Rightarrow> addr list \<Rightarrow> bool" where
  "steady as a as' \<longleftrightarrow> as' = [] \<or> as' = as \<or> as' = remove1 a as"

locale att_client =
  fixes os :: "'z att_os"
  assumes response_good: "good (run_response os f opcode pdu ud)"
    and destroy_good: "good (run_destroy os f ud)"
    and timeout_good: "good (run_timeout os f ident opcode ud)"
    and notify_good: "wf_att F s \<Longrightarrow> notifies s a = Some n \<Longrightarrow> a \<in> set (notify_list s) \<Longrightarrow> an_callback n = Some f \<Longrightarrow> an_user_data n = ud \<Longrightarrow>
      \<exists>s'. run_notify os f opcode pdu ud s = Some s' \<and> wf_att F s' \<and> keeps F s s' \<and> steady (notify_list s) a (notify_list s')"
    and disconnect_good: "wf_att F s \<Longrightarrow> disconns s a = Some d \<Longrightarrow> a \<in> set (disconn_list s) \<Longrightarrow> ad_callback d = Some f \<Longrightarrow> ad_user_data d = ud \<Longrightarrow>
      \<exists>s'. run_disconnect os f err ud s = Some s' \<and> wf_att F s' \<and> keeps F s s' \<and> steady (disconn_list s) a (disconn_list s')"

section \<open>The operations keep the state well formed: lemmas\<close>

named_theorems wf_simps "fields that well-formedness does not look at"

lemma wf_att_log [wf_simps]: "wf_att F (log_att e s) = wf_att F s"
  by (simp add: wf_att_def log_att_def)

lemma keeps_log [wf_simps]: "keeps F (log_att e s) s' = keeps F s s'" "keeps F s (log_att e s') = keeps F s s'"
  by (simp_all add: keeps_def log_att_def)

lemma wf_att_timers [wf_simps]: "wf_att F (timeout_remove i s) = wf_att F s"
  by (simp add: wf_att_def timeout_remove_def)

lemma keeps_timers [wf_simps]: "keeps F (timeout_remove i s) s' = keeps F s s'" "keeps F s (timeout_remove i s') = keeps F s s'"
  by (simp_all add: keeps_def timeout_remove_def)

lemma wf_att_writer [wf_simps]: "wf_att F (s\<lparr>writer_active := b\<rparr>) = wf_att F s"
  by (simp add: wf_att_def)

lemma keeps_writer [wf_simps]: "keeps F s (s'\<lparr>writer_active := b\<rparr>) = keeps F s s'" "keeps F (s\<lparr>writer_active := b\<rparr>) s' = keeps F s s'"
  by (simp_all add: keeps_def)

lemma wf_att_in_req [wf_simps]: "wf_att F (s\<lparr>in_req := b\<rparr>) = wf_att F s"
  by (simp add: wf_att_def)

lemma wf_att_wakeup [wf_simps]: "wf_att F (wakeup_writer os s) = wf_att F s"
  by (simp add: wakeup_writer_def wf_att_writer)

lemma keeps_wakeup [wf_simps]: "keeps F s (wakeup_writer os s') = keeps F s s'"
  by (simp add: wakeup_writer_def keeps_writer)

lemma wf_att_shutdown [wf_simps]: "wf_att F (io_shutdown s) = wf_att F s"
  by (simp add: io_shutdown_def wf_att_log)

lemma keeps_shutdown [wf_simps]: "keeps F s (io_shutdown s') = keeps F s s'"
  by (simp add: io_shutdown_def keeps_log)

lemma wf_alive [simp]: "wf_att F s \<Longrightarrow> alive s = Some s"
  by (simp add: wf_att_def alive_def)

lemma wf_not_freed [simp]: "wf_att F s \<Longrightarrow> \<not> freed s"
  by (simp add: wf_att_def)

text \<open>Objects change places.\<close>

lemma places_free: "places (insert a F) D xs \<Longrightarrow> a \<notin> F \<Longrightarrow> places F (D - {a}) xs"
  by (auto simp: places_def)

lemma places_take:
  assumes "places F D xs" "mset xs = mset (ys @ zs)"
  shows "places (set ys \<union> F) D zs"
proof -
  have "set xs = set ys \<union> set zs" "distinct xs = (distinct (ys @ zs))"
    using mset_eq_setD [OF assms(2)] mset_eq_imp_distinct_iff [OF assms(2)] by simp_all
  with assms(1) show ?thesis by (auto simp: places_def)
qed

lemma places_put:
  assumes "places F D xs" "mset ys = mset (a # xs)" "a \<notin> D" "a \<notin> F"
  shows "places F (insert a D) ys"
proof -
  have "set ys = insert a (set xs)" "distinct ys = distinct (a # xs)"
    using mset_eq_setD [OF assms(2)] mset_eq_imp_distinct_iff [OF assms(2)] by simp_all
  with assms show ?thesis by (auto simp: places_def)
qed

lemma places_back:
  assumes "places (insert a F) D xs" "mset ys = mset (a # xs)" "a \<in> D" "a \<notin> F"
  shows "places F D ys"
proof -
  have "set ys = insert a (set xs)" "distinct ys = distinct (a # xs)"
    using mset_eq_setD [OF assms(2)] mset_eq_imp_distinct_iff [OF assms(2)] by simp_all
  with assms show ?thesis by (auto simp: places_def)
qed

lemma places_widen: "places F D xs \<Longrightarrow> G \<inter> D = {} \<Longrightarrow> places (G \<union> F) D xs"
  by (auto simp: places_def)

lemma places_narrow: "places (insert a F) D xs \<Longrightarrow> a \<notin> D \<Longrightarrow> places F D xs"
  by (auto simp: places_def)

lemma typed_subset: "typed h T xs \<Longrightarrow> set ys \<subseteq> set xs \<Longrightarrow> typed h T ys"
  by (auto simp: typed_def)

lemma typed_upd: "typed h T xs \<Longrightarrow> a \<in> set xs \<longrightarrow> so_type op \<in> T \<Longrightarrow> typed (h(a \<mapsto> op)) T xs"
  by (auto simp: typed_def)

lemma typed_del: "typed h T xs \<Longrightarrow> a \<notin> set xs \<Longrightarrow> typed (h(a := None)) T xs"
  by (auto simp: typed_def)

lemma ops_wf_free:
  assumes "ops_wf (insert a F) h rq pr iq pi wq" "a \<notin> F"
  shows "ops_wf F (h(a := None)) rq pr iq pi wq"
proof -
  have "places F (dom (h(a := None))) (rq @ opt_list pr @ iq @ opt_list pi @ wq)"
    using assms places_free by (auto simp: ops_wf_def)
  moreover have "a \<notin> set (rq @ opt_list pr @ iq @ opt_list pi @ wq)" using assms(1) unfolding ops_wf_def places_def by blast
  ultimately show ?thesis using assms(1) by (simp add: ops_wf_def typed_del)
qed

lemma ops_wf_narrow: "ops_wf (insert a F) h rq pr iq pi wq \<Longrightarrow> a \<notin> dom h \<Longrightarrow> ops_wf F h rq pr iq pi wq"
  unfolding ops_wf_def using places_narrow by blast

lemma wf_free_send_op:
  assumes "wf_att (insert a F) s" "send_ops s a = Some op" "a \<notin> F"
  shows "wf_att F (s\<lparr>send_ops := (send_ops s)(a := None)\<rparr>)"
proof -
  have n: "a \<notin> dom (notifies s)" "a \<notin> dom (disconns s)" using assms unfolding wf_att_def heaps_wf_def by blast+
  have "heaps_wf F (dom ((send_ops s)(a := None))) (dom (notifies s)) (dom (disconns s)) (next_addr s)"
    using assms(1) unfolding wf_att_def heaps_wf_def by auto
  then show ?thesis
    using assms(1,3) n places_narrow unfolding wf_att_def by (auto intro: ops_wf_free)
qed

lemma wf_free_notify:
  assumes "wf_att (insert a F) s" "notifies s a = Some n" "a \<notin> F"
  shows "wf_att F (s\<lparr>notifies := (notifies s)(a := None)\<rparr>)"
proof -
  have n: "a \<notin> dom (send_ops s)" "a \<notin> dom (disconns s)" using assms unfolding wf_att_def heaps_wf_def by blast+
  have o: "ops_wf F (send_ops s) (req_queue s) (pending_req s) (ind_queue s) (pending_ind s) (write_queue s)"
    using assms(1) n(1) ops_wf_narrow unfolding wf_att_def by blast
  have p: "places F (dom (disconns s)) (disconn_list s)" "places F (dom ((notifies s)(a := None))) (notify_list s)"
    using assms(1,3) places_narrow [OF _ n(2)] places_free unfolding wf_att_def by auto
  have "heaps_wf F (dom (send_ops s)) (dom ((notifies s)(a := None))) (dom (disconns s)) (next_addr s)"
    using assms(1) unfolding wf_att_def heaps_wf_def by auto
  then show ?thesis
    using assms(1) o p unfolding wf_att_def by simp
qed

lemma wf_free_disconn:
  assumes "wf_att (insert a F) s" "disconns s a = Some n" "a \<notin> F"
  shows "wf_att F (s\<lparr>disconns := (disconns s)(a := None)\<rparr>)"
proof -
  have n: "a \<notin> dom (send_ops s)" "a \<notin> dom (notifies s)" using assms unfolding wf_att_def heaps_wf_def by blast+
  have o: "ops_wf F (send_ops s) (req_queue s) (pending_req s) (ind_queue s) (pending_ind s) (write_queue s)"
    using assms(1) n(1) ops_wf_narrow unfolding wf_att_def by blast
  have p: "places F (dom (notifies s)) (notify_list s)" "places F (dom ((disconns s)(a := None))) (disconn_list s)"
    using assms(1,3) places_narrow [OF _ n(2)] places_free unfolding wf_att_def by auto
  have "heaps_wf F (dom (send_ops s)) (dom (notifies s)) (dom ((disconns s)(a := None))) (next_addr s)"
    using assms(1) unfolding wf_att_def heaps_wf_def by auto
  then show ?thesis
    using assms(1) o p unfolding wf_att_def by simp
qed

lemma keeps_free [wf_simps]:
  "a \<notin> F \<Longrightarrow> keeps F s (s'\<lparr>send_ops := (send_ops s')(a := None)\<rparr>) = keeps F s s'"
  "a \<notin> F \<Longrightarrow> keeps F s (s'\<lparr>notifies := (notifies s')(a := None)\<rparr>) = keeps F s s'"
  "a \<notin> F \<Longrightarrow> keeps F s (s'\<lparr>disconns := (disconns s')(a := None)\<rparr>) = keeps F s s'"
  by (auto simp: keeps_def)

lemma keeps_queues [wf_simps]:
  "keeps F (s\<lparr>req_queue := q\<rparr>) s' = keeps F s s'" "keeps F (s\<lparr>ind_queue := q\<rparr>) s' = keeps F s s'"
  "keeps F (s\<lparr>write_queue := q\<rparr>) s' = keeps F s s'" "keeps F (s\<lparr>notify_list := q\<rparr>) s' = keeps F s s'"
  "keeps F (s\<lparr>disconn_list := q\<rparr>) s' = keeps F s s'" "keeps F (s\<lparr>in_req := b\<rparr>) s' = keeps F s s'"
  by (simp_all add: keeps_def)

lemma each_good:
  assumes step: "\<And>F s a. wf_att (insert a F) s \<Longrightarrow> P s a \<Longrightarrow> a \<notin> F \<Longrightarrow> \<exists>s'. f a s = Some s' \<and> wf_att F s' \<and> keeps F s s'"
    and kept: "\<And>G s s' a. keeps G s s' \<Longrightarrow> a \<in> G \<Longrightarrow> P s a \<Longrightarrow> P s' a"
  shows "wf_att (set as \<union> F) s \<Longrightarrow> distinct as \<Longrightarrow> set as \<inter> F = {} \<Longrightarrow> \<forall>a\<in>set as. P s a \<Longrightarrow>
    \<exists>s'. each f as s = Some s' \<and> wf_att F s' \<and> keeps F s s'"
proof (induction as arbitrary: s)
  case (Cons a as)
  have "wf_att (insert a (set as \<union> F)) s" "P s a" "a \<notin> set as \<union> F" using Cons.prems by auto
  from step [OF this] obtain s1 where s1: "f a s = Some s1" "wf_att (set as \<union> F) s1" "keeps (set as \<union> F) s s1" by blast
  have "\<forall>b\<in>set as. P s1 b" using kept [OF s1(3)] Cons.prems(4) by auto
  with Cons.IH [OF s1(2)] Cons.prems obtain s2 where "each f as s1 = Some s2" "wf_att F s2" "keeps F s1 s2" by auto
  with s1 keeps_mono [OF s1(3)] show ?case by (auto intro: keeps_trans)
qed simp


context att_client begin

lemma call_destroy_good: "good (call_destroy_fn os fn ud)"
  unfolding good_def
proof safe
  fix F s assume "wf_att F (s :: 'z bt_att_scheme)"
  then show "\<exists>s'. call_destroy_fn os fn ud s = Some s' \<and> wf_att F s' \<and> keeps F s s'"
    using goodD [OF destroy_good, of F "log_att e s" for e]
    by (auto simp: call_destroy_fn_def wf_simps split: option.splits)
qed

lemma call_response_good: "good (call_response os fn opcode pdu ud)"
  unfolding good_def
proof safe
  fix F s assume "wf_att F (s :: 'z bt_att_scheme)"
  then show "\<exists>s'. call_response os fn opcode pdu ud s = Some s' \<and> wf_att F s' \<and> keeps F s s'"
    using goodD [OF response_good, of F "log_att e s" for e]
    by (auto simp: call_response_def wf_simps split: option.splits)
qed

lemma destroy_op_good:
  assumes "wf_att (insert a F) s" "send_ops s a \<noteq> None" "a \<notin> F"
  shows "\<exists>s'. destroy_att_send_op os a s = Some s' \<and> wf_att F s' \<and> keeps F s s'"
proof -
  obtain op where op: "send_ops s a = Some op" using assms(2) by auto
  let ?s = "if so_timeout_id op \<noteq> 0 then timeout_remove (so_timeout_id op) s else s"
  have "wf_att (insert a F) ?s" using assms(1) by (simp add: wf_simps)
  from goodD [OF call_destroy_good this] obtain s1 where
    s1': "call_destroy_fn os (so_destroy op) (so_user_data op) ?s = Some s1" "wf_att (insert a F) s1" "keeps (insert a F) ?s s1"
    by blast
  then have s1: "call_destroy_fn os (so_destroy op) (so_user_data op) ?s = Some s1" "wf_att (insert a F) s1" "keeps (insert a F) s s1"
    by (simp_all add: wf_simps split: if_splits)
  have a: "send_ops s1 a = Some op" using s1(3) op by (simp add: keeps_def)
  have "wf_att F (s1\<lparr>send_ops := (send_ops s1)(a := None)\<rparr>)" by (rule wf_free_send_op [OF s1(2) a assms(3)])
  moreover have "keeps F s (s1\<lparr>send_ops := (send_ops s1)(a := None)\<rparr>)"
    using keeps_mono [OF s1(3), of F] assms(3) by (auto simp: wf_simps)
  ultimately show ?thesis using op a s1(1) by (simp add: destroy_att_send_op_def free_send_op_def Let_def)
qed

lemma disc_op_good:
  assumes "wf_att (insert a F) s" "send_ops s a \<noteq> None" "a \<notin> F"
  shows "\<exists>s'. disc_att_send_op os a s = Some s' \<and> wf_att F s' \<and> keeps F s s'"
proof -
  obtain op where op: "send_ops s a = Some op" using assms(2) by auto
  from goodD [OF call_response_good assms(1)] obtain s1 where
    s1: "call_response os (so_callback op) BT_ATT_OP_ERROR_RSP [] (so_user_data op) s = Some s1"
      "wf_att (insert a F) s1" "keeps (insert a F) s s1" by blast
  then have "send_ops s1 a \<noteq> None" using op by (simp add: keeps_def)
  from destroy_op_good [OF s1(2) this assms(3)] s1 op keeps_mono [OF s1(3), of F] show ?thesis
    by (auto simp: disc_att_send_op_def intro: keeps_trans)
qed

lemma destroy_notify_good:
  assumes "wf_att (insert a F) s" "notifies s a \<noteq> None" "a \<notin> F"
  shows "\<exists>s'. destroy_att_notify os a s = Some s' \<and> wf_att F s' \<and> keeps F s s'"
proof -
  obtain n where n: "notifies s a = Some n" using assms(2) by auto
  from goodD [OF call_destroy_good assms(1)] obtain s1 where
    s1: "call_destroy_fn os (an_destroy n) (an_user_data n) s = Some s1" "wf_att (insert a F) s1" "keeps (insert a F) s s1" by blast
  have a: "notifies s1 a = Some n" using s1(3) n by (simp add: keeps_def)
  show ?thesis
    using wf_free_notify [OF s1(2) a assms(3)] keeps_mono [OF s1(3), of F] assms(3) n a s1(1)
    by (auto simp: destroy_att_notify_def wf_simps)
qed

lemma destroy_disconn_good:
  assumes "wf_att (insert a F) s" "disconns s a \<noteq> None" "a \<notin> F"
  shows "\<exists>s'. destroy_att_disconn os a s = Some s' \<and> wf_att F s' \<and> keeps F s s'"
proof -
  obtain n where n: "disconns s a = Some n" using assms(2) by auto
  from goodD [OF call_destroy_good assms(1)] obtain s1 where
    s1: "call_destroy_fn os (ad_destroy n) (ad_user_data n) s = Some s1" "wf_att (insert a F) s1" "keeps (insert a F) s s1" by blast
  have a: "disconns s1 a = Some n" using s1(3) n by (simp add: keeps_def)
  show ?thesis
    using wf_free_disconn [OF s1(2) a assms(3)] keeps_mono [OF s1(3), of F] assms(3) n a s1(1)
    by (auto simp: destroy_att_disconn_def wf_simps)
qed

lemma each_destroy_good:
  assumes "wf_att (set as \<union> F) s" "distinct as" "set as \<inter> F = {}" "\<forall>a\<in>set as. send_ops s a \<noteq> None"
  shows "\<exists>s'. each (destroy_att_send_op os) as s = Some s' \<and> wf_att F s' \<and> keeps F s s'"
  by (rule each_good [of "\<lambda>s a. send_ops s a \<noteq> None", OF destroy_op_good _ assms]) (simp_all add: keeps_def)

lemma each_disc_good:
  assumes "wf_att (set as \<union> F) s" "distinct as" "set as \<inter> F = {}" "\<forall>a\<in>set as. send_ops s a \<noteq> None"
  shows "\<exists>s'. each (disc_att_send_op os) as s = Some s' \<and> wf_att F s' \<and> keeps F s s'"
  by (rule each_good [of "\<lambda>s a. send_ops s a \<noteq> None", OF disc_op_good _ assms]) (simp_all add: keeps_def)

lemma each_notify_good:
  assumes "wf_att (set as \<union> F) s" "distinct as" "set as \<inter> F = {}" "\<forall>a\<in>set as. notifies s a \<noteq> None"
  shows "\<exists>s'. each (destroy_att_notify os) as s = Some s' \<and> wf_att F s' \<and> keeps F s s'"
  by (rule each_good [of "\<lambda>s a. notifies s a \<noteq> None", OF destroy_notify_good _ assms]) (simp_all add: keeps_def)

lemma each_disconn_good:
  assumes "wf_att (set as \<union> F) s" "distinct as" "set as \<inter> F = {}" "\<forall>a\<in>set as. disconns s a \<noteq> None"
  shows "\<exists>s'. each (destroy_att_disconn os) as s = Some s' \<and> wf_att F s' \<and> keeps F s s'"
  by (rule each_good [of "\<lambda>s a. disconns s a \<noteq> None", OF destroy_disconn_good _ assms]) (simp_all add: keeps_def)

end

lemma heaps_wf_taken:
  assumes "heaps_wf F S N D b"
  shows "Y \<subseteq> S \<Longrightarrow> Y \<inter> N = {} \<and> Y \<inter> D = {} \<and> heaps_wf (Y \<union> F) S N D b"
    and "Y \<subseteq> N \<Longrightarrow> Y \<inter> S = {} \<and> Y \<inter> D = {} \<and> heaps_wf (Y \<union> F) S N D b"
    and "Y \<subseteq> D \<Longrightarrow> Y \<inter> S = {} \<and> Y \<inter> N = {} \<and> heaps_wf (Y \<union> F) S N D b"
  using assms unfolding heaps_wf_def by blast+

lemma wf_take:
  assumes w: "wf_att F s"
    and m: "mset (req_queue s @ opt_list (pending_req s) @ ind_queue s @ opt_list (pending_ind s) @ write_queue s) =
      mset (ys @ req_queue s' @ opt_list (pending_req s') @ ind_queue s' @ opt_list (pending_ind s') @ write_queue s')"
    and t: "set (req_queue s') \<union> set_option (pending_req s') \<subseteq> set (req_queue s) \<union> set_option (pending_req s)"
      "set (ind_queue s') \<union> set_option (pending_ind s') \<subseteq> set (ind_queue s) \<union> set_option (pending_ind s)"
      "set (write_queue s') \<subseteq> set (write_queue s)"
    and same: "send_ops s' = send_ops s" "notifies s' = notifies s" "disconns s' = disconns s" "notify_list s' = notify_list s"
      "disconn_list s' = disconn_list s" "next_addr s' = next_addr s" "freed s' = freed s" "att_ref_count s' = att_ref_count s"
  shows "wf_att (set ys \<union> F) s'"
proof -
  let ?all = "\<lambda>s. req_queue s @ opt_list (pending_req s) @ ind_queue s @ opt_list (pending_ind s) @ write_queue s"
  have p: "places F (dom (send_ops s)) (?all s)" and h: "heaps_wf F (dom (send_ops s)) (dom (notifies s)) (dom (disconns s)) (next_addr s)"
    using w unfolding wf_att_def ops_wf_def by blast+
  have "set (ys @ ?all s') = set (?all s)" using mset_eq_setD [OF m] by simp
  then have "set ys \<subseteq> set (?all s)" by (metis set_append sup.cobounded1)
  then have ys: "set ys \<subseteq> dom (send_ops s)" using p unfolding places_def by blast
  have "places (set ys \<union> F) (dom (send_ops s)) (?all s')" by (rule places_take [OF p m])
  moreover have "typed (send_ops s) {ATT_OP_TYPE_REQ} (req_queue s' @ opt_list (pending_req s'))"
    "typed (send_ops s) {ATT_OP_TYPE_IND} (ind_queue s' @ opt_list (pending_ind s'))"
    "typed (send_ops s) (- {ATT_OP_TYPE_REQ, ATT_OP_TYPE_IND}) (write_queue s')"
    using w t unfolding wf_att_def ops_wf_def by (auto elim!: typed_subset)
  moreover have "places (set ys \<union> F) (dom (notifies s)) (notify_list s)" "places (set ys \<union> F) (dom (disconns s)) (disconn_list s)"
    using w heaps_wf_taken(1) [OF h ys] unfolding wf_att_def by (blast intro!: places_widen)+
  moreover have "heaps_wf (set ys \<union> F) (dom (send_ops s)) (dom (notifies s)) (dom (disconns s)) (next_addr s)"
    using heaps_wf_taken(1) [OF h ys] by blast
  ultimately show ?thesis using w same unfolding wf_att_def ops_wf_def by simp
qed

lemma wf_empty_req_queue: "wf_att F s \<Longrightarrow> wf_att (set (req_queue s) \<union> F) (s\<lparr>req_queue := []\<rparr>)"
  by (erule wf_take) auto

lemma wf_empty_ind_queue: "wf_att F s \<Longrightarrow> wf_att (set (ind_queue s) \<union> F) (s\<lparr>ind_queue := []\<rparr>)"
  by (erule wf_take) auto

lemma wf_empty_write_queue: "wf_att F s \<Longrightarrow> wf_att (set (write_queue s) \<union> F) (s\<lparr>write_queue := []\<rparr>)"
  by (erule wf_take) auto

lemma mset_remove1_append: "a \<in> set xs \<Longrightarrow> mset (remove1 a xs) + M = (mset xs + M) - {#a#}"
  by (simp add: insert_DiffM)

lemma wf_take_req_queue: "wf_att F s \<Longrightarrow> a \<in> set (req_queue s) \<Longrightarrow> wf_att (insert a F) (s\<lparr>req_queue := remove1 a (req_queue s)\<rparr>)"
  using wf_take [of F s "[a]" "s\<lparr>req_queue := remove1 a (req_queue s)\<rparr>"] set_remove1_subset [of a "req_queue s"] by auto

lemma wf_take_ind_queue: "wf_att F s \<Longrightarrow> a \<in> set (ind_queue s) \<Longrightarrow> wf_att (insert a F) (s\<lparr>ind_queue := remove1 a (ind_queue s)\<rparr>)"
  using wf_take [of F s "[a]" "s\<lparr>ind_queue := remove1 a (ind_queue s)\<rparr>"] set_remove1_subset [of a "ind_queue s"] by auto

lemma wf_take_write_queue: "wf_att F s \<Longrightarrow> a \<in> set (write_queue s) \<Longrightarrow> wf_att (insert a F) (s\<lparr>write_queue := remove1 a (write_queue s)\<rparr>)"
  using wf_take [of F s "[a]" "s\<lparr>write_queue := remove1 a (write_queue s)\<rparr>"] set_remove1_subset [of a "write_queue s"] by auto

lemma wf_take_pending_req: "wf_att F s \<Longrightarrow> pending_req s = Some a \<Longrightarrow> wf_att (insert a F) (s\<lparr>pending_req := None\<rparr>)"
  using wf_take [of F s "[a]" "s\<lparr>pending_req := None\<rparr>"] by auto

lemma wf_take_pending_ind: "wf_att F s \<Longrightarrow> pending_ind s = Some a \<Longrightarrow> wf_att (insert a F) (s\<lparr>pending_ind := None\<rparr>)"
  using wf_take [of F s "[a]" "s\<lparr>pending_ind := None\<rparr>"] by auto

text \<open>What is known of an operation that is in its place.\<close>

lemma wf_opD:
  assumes "wf_att F s"
  shows "a \<in> set (req_queue s) \<union> set_option (pending_req s) \<Longrightarrow> \<exists>op. send_ops s a = Some op \<and> so_type op = ATT_OP_TYPE_REQ"
    and "a \<in> set (ind_queue s) \<union> set_option (pending_ind s) \<Longrightarrow> \<exists>op. send_ops s a = Some op \<and> so_type op = ATT_OP_TYPE_IND"
    and "a \<in> set (write_queue s) \<Longrightarrow> \<exists>op. send_ops s a = Some op \<and> so_type op \<noteq> ATT_OP_TYPE_REQ \<and> so_type op \<noteq> ATT_OP_TYPE_IND"
    and "a \<in> set (req_queue s) \<union> set_option (pending_req s) \<union> set (ind_queue s) \<union> set_option (pending_ind s) \<union> set (write_queue s) \<Longrightarrow> a \<notin> F"
  using assms unfolding wf_att_def ops_wf_def typed_def by auto (auto simp: places_def)

lemma wf_distinct:
  assumes "wf_att F s"
  shows "distinct (req_queue s)" "distinct (ind_queue s)" "distinct (write_queue s)" "distinct (notify_list s)" "distinct (disconn_list s)"
  using assms unfolding wf_att_def ops_wf_def places_def by auto

lemma wf_notifyD: "wf_att F s \<Longrightarrow> a \<in> set (notify_list s) \<Longrightarrow> notifies s a \<noteq> None \<and> a \<notin> F"
  unfolding wf_att_def places_def by blast

lemma wf_disconnD: "wf_att F s \<Longrightarrow> a \<in> set (disconn_list s) \<Longrightarrow> disconns s a \<noteq> None \<and> a \<notin> F"
  unfolding wf_att_def places_def by blast

lemma find_addr_allocated:
  "\<forall>a\<in>set as. h a \<noteq> None \<Longrightarrow> \<exists>r. find_addr f h as = Some r \<and> (\<forall>a. r = Some a \<longrightarrow> a \<in> set as \<and> (\<exists>x. h a = Some x \<and> f x))"
  by (induction as) auto

lemma wf_take_notify:
  assumes "wf_att F s" "mset (notify_list s) = mset (ys @ zs)"
  shows "wf_att (set ys \<union> F) (s\<lparr>notify_list := zs\<rparr>)"
proof -
  have p: "places F (dom (notifies s)) (notify_list s)" and h: "heaps_wf F (dom (send_ops s)) (dom (notifies s)) (dom (disconns s)) (next_addr s)"
    and o: "ops_wf F (send_ops s) (req_queue s) (pending_req s) (ind_queue s) (pending_ind s) (write_queue s)"
    using assms(1) unfolding wf_att_def by blast+
  have ys: "set ys \<subseteq> dom (notifies s)"
    using p mset_eq_setD [OF assms(2)] unfolding places_def by auto
  have "places (set ys \<union> F) (dom (notifies s)) zs" by (rule places_take [OF p assms(2)])
  moreover have "ops_wf (set ys \<union> F) (send_ops s) (req_queue s) (pending_req s) (ind_queue s) (pending_ind s) (write_queue s)"
    using o heaps_wf_taken(2) [OF h ys] unfolding ops_wf_def by (blast intro!: places_widen)
  moreover have "places (set ys \<union> F) (dom (disconns s)) (disconn_list s)"
    using assms(1) heaps_wf_taken(2) [OF h ys] unfolding wf_att_def by (blast intro!: places_widen)
  moreover have "heaps_wf (set ys \<union> F) (dom (send_ops s)) (dom (notifies s)) (dom (disconns s)) (next_addr s)"
    using heaps_wf_taken(2) [OF h ys] by blast
  ultimately show ?thesis using assms(1) unfolding wf_att_def by simp
qed

lemma wf_take_disconn:
  assumes "wf_att F s" "mset (disconn_list s) = mset (ys @ zs)"
  shows "wf_att (set ys \<union> F) (s\<lparr>disconn_list := zs\<rparr>)"
proof -
  have p: "places F (dom (disconns s)) (disconn_list s)" and h: "heaps_wf F (dom (send_ops s)) (dom (notifies s)) (dom (disconns s)) (next_addr s)"
    and o: "ops_wf F (send_ops s) (req_queue s) (pending_req s) (ind_queue s) (pending_ind s) (write_queue s)"
    using assms(1) unfolding wf_att_def by blast+
  have ys: "set ys \<subseteq> dom (disconns s)"
    using p mset_eq_setD [OF assms(2)] unfolding places_def by auto
  have "places (set ys \<union> F) (dom (disconns s)) zs" by (rule places_take [OF p assms(2)])
  moreover have "ops_wf (set ys \<union> F) (send_ops s) (req_queue s) (pending_req s) (ind_queue s) (pending_ind s) (write_queue s)"
    using o heaps_wf_taken(3) [OF h ys] unfolding ops_wf_def by (blast intro!: places_widen)
  moreover have "places (set ys \<union> F) (dom (notifies s)) (notify_list s)"
    using assms(1) heaps_wf_taken(3) [OF h ys] unfolding wf_att_def by (blast intro!: places_widen)
  moreover have "heaps_wf (set ys \<union> F) (dom (send_ops s)) (dom (notifies s)) (dom (disconns s)) (next_addr s)"
    using heaps_wf_taken(3) [OF h ys] by blast
  ultimately show ?thesis using assms(1) unfolding wf_att_def by simp
qed

lemma wf_upd_op:
  assumes w: "wf_att F s" and a: "send_ops s a = Some op" "so_type op' = so_type op"
  shows "wf_att F (s\<lparr>send_ops := (send_ops s)(a \<mapsto> op')\<rparr>)"
proof -
  have d: "dom ((send_ops s)(a \<mapsto> op')) = dom (send_ops s)" using a by auto
  have t: "typed ((send_ops s)(a \<mapsto> op')) T xs" if "typed (send_ops s) T xs" for T xs
    using that a by (auto simp: typed_def split: if_splits)
  have "ops_wf F ((send_ops s)(a \<mapsto> op')) (req_queue s) (pending_req s) (ind_queue s) (pending_ind s) (write_queue s)"
    using w t unfolding wf_att_def ops_wf_def d by blast
  then show ?thesis using w d unfolding wf_att_def by simp
qed

lemma keeps_upd_op [wf_simps]: "a \<notin> F \<Longrightarrow> keeps F s (s'\<lparr>send_ops := (send_ops s')(a \<mapsto> op)\<rparr>) = keeps F s s'"
  by (auto simp: keeps_def)

lemma take_queued_good:
  assumes w: "wf_att F s"
  shows "\<exists>p s'. take_queued ident s = Some (p, s') \<and> (case p of None \<Rightarrow> s' = s
    | Some a \<Rightarrow> wf_att (insert a F) s' \<and> send_ops s' a \<noteq> None \<and> a \<notin> F \<and> keeps F s s')"
proof -
  have al: "\<forall>a\<in>set (req_queue s). send_ops s a \<noteq> None" "\<forall>a\<in>set (ind_queue s). send_ops s a \<noteq> None"
      "\<forall>a\<in>set (write_queue s). send_ops s a \<noteq> None"
    using wf_opD [OF w] by force+
  obtain r1 where r1: "find_addr (\<lambda>op. so_id op = ident) (send_ops s) (req_queue s) = Some r1"
      "\<And>a. r1 = Some a \<Longrightarrow> a \<in> set (req_queue s) \<and> (\<exists>x. send_ops s a = Some x \<and> so_id x = ident)"
    using find_addr_allocated [OF al(1), of "\<lambda>op. so_id op = ident"] by blast
  obtain r2 where r2: "find_addr (\<lambda>op. so_id op = ident) (send_ops s) (ind_queue s) = Some r2"
      "\<And>a. r2 = Some a \<Longrightarrow> a \<in> set (ind_queue s) \<and> (\<exists>x. send_ops s a = Some x \<and> so_id x = ident)"
    using find_addr_allocated [OF al(2), of "\<lambda>op. so_id op = ident"] by blast
  obtain r3 where r3: "find_addr (\<lambda>op. so_id op = ident) (send_ops s) (write_queue s) = Some r3"
      "\<And>a. r3 = Some a \<Longrightarrow> a \<in> set (write_queue s) \<and> (\<exists>x. send_ops s a = Some x \<and> so_id x = ident)"
    using find_addr_allocated [OF al(3), of "\<lambda>op. so_id op = ident"] by blast
  have k: "keeps F s (s\<lparr>req_queue := q\<rparr>)" "keeps F s (s\<lparr>ind_queue := q\<rparr>)" "keeps F s (s\<lparr>write_queue := q\<rparr>)" for q
    by (simp_all add: keeps_def)
  show ?thesis
  proof (cases r1)
    case (Some a)
    then show ?thesis using r1 wf_take_req_queue [OF w, of a] wf_opD(4) [OF w, of a] k by (auto simp: take_queued_def)
  next
    case r1n: None
    show ?thesis
    proof (cases r2)
      case (Some a)
      then show ?thesis using r1 r1n r2 wf_take_ind_queue [OF w, of a] wf_opD(4) [OF w, of a] k by (auto simp: take_queued_def)
    next
      case r2n: None
      show ?thesis
      proof (cases r3)
        case (Some a)
        then show ?thesis using r1 r1n r2 r2n r3 wf_take_write_queue [OF w, of a] wf_opD(4) [OF w, of a] k by (auto simp: take_queued_def)
      next
        case None
        then show ?thesis using r1 r1n r2 r2n r3 by (auto simp: take_queued_def)
      qed
    qed
  qed
qed

context att_client begin

lemma cancel_op_good:
  assumes w: "wf_att F s" and a: "a \<in> set_option (pending_req s) \<union> set_option (pending_ind s)"
  shows "\<exists>s'. cancel_att_send_op os a s = Some s' \<and> wf_att F s' \<and> keeps F s s'"
proof -
  obtain op where op: "send_ops s a = Some op" using wf_opD [OF w, of a] a by auto
  obtain s1 where s1: "call_destroy_fn os (so_destroy op) (so_user_data op) s = Some s1" "wf_att F s1" "keeps F s s1"
    using goodD [OF call_destroy_good w] by blast
  have a1: "a \<in> set_option (pending_req s1) \<union> set_option (pending_ind s1)" using a s1(3) by (simp add: keeps_def)
  then obtain op1 where op1: "send_ops s1 a = Some op1" using wf_opD [OF s1(2), of a] by auto
  have F: "a \<notin> F" using wf_opD(4) [OF w, of a] a by auto
  show ?thesis
    using wf_upd_op [OF s1(2) op1, of "op1\<lparr>so_user_data := None, so_callback := None, so_destroy := None\<rparr>"] s1 op op1 F
    by (simp add: cancel_att_send_op_def wf_simps)
qed

lemma cancel_good:
  assumes w: "wf_att F s"
  shows "\<exists>r s'. bt_att_cancel os ident s = Some (r, s') \<and> wf_att F s' \<and> keeps F s s'"
proof -
  have id: "\<exists>b. op_has_id s ident p = Some b \<and> (b \<longrightarrow> p \<noteq> None)" if "p = pending_req s \<or> p = pending_ind s" for p
  proof (cases p)
    case (Some a)
    then have "\<exists>op. send_ops s a = Some op" using that wf_opD [OF w, of a] by (auto simp: eq_commute [of "Some a"])
    then show ?thesis using Some by (auto simp: op_has_id_def)
  qed (auto simp: op_has_id_def)
  obtain b1 where b1: "op_has_id s ident (pending_req s) = Some b1" "b1 \<Longrightarrow> pending_req s \<noteq> None" using id [of "pending_req s"] by auto
  obtain b2 where b2: "op_has_id s ident (pending_ind s) = Some b2" "b2 \<Longrightarrow> pending_ind s \<noteq> None" using id [of "pending_ind s"] by auto
  consider "ident = 0" | "ident \<noteq> 0" b1 | "ident \<noteq> 0" "\<not> b1" b2 | "ident \<noteq> 0" "\<not> b1" "\<not> b2" by blast
  then show ?thesis
  proof cases
    case 1
    then show ?thesis using w by (auto simp: bt_att_cancel_def)
  next
    case 2
    then show ?thesis using b1 cancel_op_good [OF w, of "the (pending_req s)"] by (auto simp: bt_att_cancel_def)
  next
    case 3
    then show ?thesis using b1 b2 cancel_op_good [OF w, of "the (pending_ind s)"] by (auto simp: bt_att_cancel_def)
  next
    case 4
    obtain p s1 where t: "take_queued ident s = Some (p, s1)" "case p of None \<Rightarrow> s1 = s
        | Some a \<Rightarrow> wf_att (insert a F) s1 \<and> send_ops s1 a \<noteq> None \<and> a \<notin> F \<and> keeps F s s1"
      using take_queued_good [OF w] by blast
    show ?thesis
    proof (cases p)
      case None
      then show ?thesis using 4 b1 b2 t w by (auto simp: bt_att_cancel_def)
    next
      case (Some a)
      then have s1: "wf_att (insert a F) s1" "send_ops s1 a \<noteq> None" "a \<notin> F" "keeps F s s1" using t(2) by auto
      from destroy_op_good [OF s1(1-3)] obtain s2 where "destroy_att_send_op os a s1 = Some s2" "wf_att F s2" "keeps F s1 s2" by blast
      then show ?thesis using 4 b1 b2 t(1) Some keeps_trans [OF s1(4)] by (auto simp: bt_att_cancel_def wf_simps)
    qed
  qed
qed

lemma cancel_pending_good:
  "wf_att F s \<Longrightarrow> p = pending_req s \<or> p = pending_ind s \<Longrightarrow> \<exists>s'. cancel_pending os p s = Some s' \<and> wf_att F s' \<and> keeps F s s'"
proof (cases p)
  case (Some a)
  assume w: "wf_att F s" and p: "p = pending_req s \<or> p = pending_ind s"
  then have "a \<in> set_option (pending_req s) \<union> set_option (pending_ind s)" using Some by force
  from cancel_op_good [OF w this] Some show ?thesis by (auto simp: cancel_pending_def)
qed (simp add: cancel_pending_def)

lemma empty_good:
  assumes w: "wf_att F s"
  shows "\<exists>s'. each (destroy_att_send_op os) (req_queue s) (s\<lparr>req_queue := []\<rparr>) = Some s' \<and> wf_att F s' \<and> keeps F s s'"
    and "\<exists>s'. each (destroy_att_send_op os) (ind_queue s) (s\<lparr>ind_queue := []\<rparr>) = Some s' \<and> wf_att F s' \<and> keeps F s s'"
    and "\<exists>s'. each (destroy_att_send_op os) (write_queue s) (s\<lparr>write_queue := []\<rparr>) = Some s' \<and> wf_att F s' \<and> keeps F s s'"
    and "\<exists>s'. each (disc_att_send_op os) (req_queue s) (s\<lparr>req_queue := []\<rparr>) = Some s' \<and> wf_att F s' \<and> keeps F s s'"
    and "\<exists>s'. each (disc_att_send_op os) (ind_queue s) (s\<lparr>ind_queue := []\<rparr>) = Some s' \<and> wf_att F s' \<and> keeps F s s'"
    and "\<exists>s'. each (disc_att_send_op os) (write_queue s) (s\<lparr>write_queue := []\<rparr>) = Some s' \<and> wf_att F s' \<and> keeps F s s'"
    and "\<exists>s'. each (destroy_att_notify os) (notify_list s) (s\<lparr>notify_list := []\<rparr>) = Some s' \<and> wf_att F s' \<and> keeps F s s'"
    and "\<exists>s'. each (destroy_att_disconn os) (disconn_list s) (s\<lparr>disconn_list := []\<rparr>) = Some s' \<and> wf_att F s' \<and> keeps F s s'"
proof -
  have f: "set (req_queue s) \<inter> F = {}" "set (ind_queue s) \<inter> F = {}" "set (write_queue s) \<inter> F = {}"
    "\<forall>a\<in>set (req_queue s). send_ops s a \<noteq> None" "\<forall>a\<in>set (ind_queue s). send_ops s a \<noteq> None"
      "\<forall>a\<in>set (write_queue s). send_ops s a \<noteq> None"
    using wf_opD [OF w] by force+
  have h: "set (notify_list s) \<inter> F = {}" "set (disconn_list s) \<inter> F = {}"
    "\<forall>a\<in>set (notify_list s). notifies s a \<noteq> None" "\<forall>a\<in>set (disconn_list s). disconns s a \<noteq> None"
    using wf_notifyD [OF w] wf_disconnD [OF w] by blast+
  note d = wf_distinct [OF w]
  show "\<exists>s'. each (destroy_att_send_op os) (req_queue s) (s\<lparr>req_queue := []\<rparr>) = Some s' \<and> wf_att F s' \<and> keeps F s s'"
    using each_destroy_good [OF wf_empty_req_queue [OF w]] f d by (simp add: wf_simps keeps_def)
  show "\<exists>s'. each (destroy_att_send_op os) (ind_queue s) (s\<lparr>ind_queue := []\<rparr>) = Some s' \<and> wf_att F s' \<and> keeps F s s'"
    using each_destroy_good [OF wf_empty_ind_queue [OF w]] f d by (simp add: wf_simps keeps_def)
  show "\<exists>s'. each (destroy_att_send_op os) (write_queue s) (s\<lparr>write_queue := []\<rparr>) = Some s' \<and> wf_att F s' \<and> keeps F s s'"
    using each_destroy_good [OF wf_empty_write_queue [OF w]] f d by (simp add: wf_simps keeps_def)
  show "\<exists>s'. each (disc_att_send_op os) (req_queue s) (s\<lparr>req_queue := []\<rparr>) = Some s' \<and> wf_att F s' \<and> keeps F s s'"
    using each_disc_good [OF wf_empty_req_queue [OF w]] f d by (simp add: wf_simps keeps_def)
  show "\<exists>s'. each (disc_att_send_op os) (ind_queue s) (s\<lparr>ind_queue := []\<rparr>) = Some s' \<and> wf_att F s' \<and> keeps F s s'"
    using each_disc_good [OF wf_empty_ind_queue [OF w]] f d by (simp add: wf_simps keeps_def)
  show "\<exists>s'. each (disc_att_send_op os) (write_queue s) (s\<lparr>write_queue := []\<rparr>) = Some s' \<and> wf_att F s' \<and> keeps F s s'"
    using each_disc_good [OF wf_empty_write_queue [OF w]] f d by (simp add: wf_simps keeps_def)
  show "\<exists>s'. each (destroy_att_notify os) (notify_list s) (s\<lparr>notify_list := []\<rparr>) = Some s' \<and> wf_att F s' \<and> keeps F s s'"
    using each_notify_good [OF wf_take_notify [OF w, of "notify_list s" "[]"]] h d by (simp add: wf_simps keeps_def)
  show "\<exists>s'. each (destroy_att_disconn os) (disconn_list s) (s\<lparr>disconn_list := []\<rparr>) = Some s' \<and> wf_att F s' \<and> keeps F s s'"
    using each_disconn_good [OF wf_take_disconn [OF w, of "disconn_list s" "[]"]] h d by (simp add: wf_simps keeps_def)
qed

lemma cancel_all_good: "good (bt_att_cancel_all os)"
  unfolding good_def
proof safe
  fix F s assume "wf_att F (s :: 'z bt_att_scheme)"
  from empty_good(1) [OF this] obtain s1 where
    s1: "each (destroy_att_send_op os) (req_queue s) (s\<lparr>req_queue := []\<rparr>) = Some s1" "wf_att F s1" "keeps F s s1" by blast
  from empty_good(2) [OF s1(2)] obtain s2 where
    s2: "each (destroy_att_send_op os) (ind_queue s1) (s1\<lparr>ind_queue := []\<rparr>) = Some s2" "wf_att F s2" "keeps F s1 s2" by blast
  from empty_good(3) [OF s2(2)] obtain s3 where
    s3: "each (destroy_att_send_op os) (write_queue s2) (s2\<lparr>write_queue := []\<rparr>) = Some s3" "wf_att F s3" "keeps F s2 s3" by blast
  from cancel_pending_good [OF s3(2), of "pending_req s3"] obtain s4 where
    s4: "cancel_pending os (pending_req s3) s3 = Some s4" "wf_att F s4" "keeps F s3 s4" by blast
  from cancel_pending_good [OF s4(2), of "pending_ind s4"] obtain s5 where
    s5: "cancel_pending os (pending_ind s4) s4 = Some s5" "wf_att F s5" "keeps F s4 s5" by blast
  show "\<exists>s'. bt_att_cancel_all os s = Some s' \<and> wf_att F s' \<and> keeps F s s'"
    using s1 s2 s3 s4 s5 keeps_trans [OF s1(3) keeps_trans [OF s2(3) keeps_trans [OF s3(3) keeps_trans [OF s4(3) s5(3)]]]]
    by (auto simp: bt_att_cancel_all_def)
qed

lemma unregister_all_good: "good (bt_att_unregister_all os)"
  unfolding good_def
proof safe
  fix F s assume "wf_att F (s :: 'z bt_att_scheme)"
  from empty_good(7) [OF this] obtain s1 where
    s1: "each (destroy_att_notify os) (notify_list s) (s\<lparr>notify_list := []\<rparr>) = Some s1" "wf_att F s1" "keeps F s s1" by blast
  from empty_good(8) [OF s1(2)] obtain s2 where
    s2: "each (destroy_att_disconn os) (disconn_list s1) (s1\<lparr>disconn_list := []\<rparr>) = Some s2" "wf_att F s2" "keeps F s1 s2" by blast
  show "\<exists>s'. bt_att_unregister_all os s = Some s' \<and> wf_att F s' \<and> keeps F s s'"
    using s1 s2 by (auto simp: bt_att_unregister_all_def intro: keeps_trans)
qed

end

text \<open>The arguments of a PDU that can be sent: its bytes are there, and with the opcode and a signature its length fits
  16 bits. An operation with other arguments may write outside its buffer.\<close>

definition pdu_fits :: "u8 list option \<Rightarrow> u16 \<Rightarrow> bool" where
  "pdu_fits pdu len \<longleftrightarrow> (case pdu of None \<Rightarrow> True | Some p \<Rightarrow> unat len \<le> length p) \<and> unat len < 65536 - 13"

lemma encode_defined:
  assumes "pdu_fits pdu len" "len \<noteq> 0 \<longrightarrow> pdu \<noteq> None"
  shows "encode_pdu os s opcode pdu len \<noteq> None"
proof -
  let ?base = "(1 :: u16) + (if local_sign s \<noteq> None \<and> opcode AND ATT_OP_SIGNED_MASK \<noteq> 0 then of_nat BT_ATT_SIGNATURE_LEN else 0)"
  have pl: "(if len \<noteq> 0 \<and> pdu \<noteq> None then ?base + len else ?base) = ?base + len" using assms(2) by auto
  have l: "unat len < 65536 - 13" "length (take (unat len) (case pdu of None \<Rightarrow> [] | Some p \<Rightarrow> p)) = unat len"
    using assms by (auto simp: pdu_fits_def split: option.splits)
  have b: "1 \<le> unat ?base" "unat ?base \<le> 13" by (auto simp: BT_ATT_SIGNATURE_LEN_def)
  have u: "unat (?base + len) = unat ?base + unat len"
    by (rule unat_add_lem [THEN iffD1]) (use b l in simp)
  have nz: "?base + len \<noteq> 0"
  proof
    assume "?base + len = 0"
    then have "unat (?base + len) = 0" by (simp only: unat_0)
    with u b show False by simp
  qed
  show ?thesis
    unfolding encode_pdu_def Let_def pl using u nz l b
    by (auto split: option.splits if_splits)
qed

lemma wf_fresh_addr:
  assumes "wf_att F s"
  shows "next_addr s \<notin> dom (send_ops s)" "next_addr s \<notin> dom (notifies s)" "next_addr s \<notin> dom (disconns s)" "next_addr s \<notin> F"
  using assms unfolding wf_att_def heaps_wf_def by blast+

lemma heaps_wf_grow:
  assumes "heaps_wf F S N D b"
  shows "heaps_wf F (insert b S) N D (b + 1)" "heaps_wf F S (insert b N) D (b + 1)" "heaps_wf F S N (insert b D) (b + 1)"
  using assms unfolding heaps_wf_def by (auto simp: less_Suc_eq)

lemma wf_put:
  assumes w: "wf_att F s"
    and heap: "send_ops s' = (send_ops s)(next_addr s \<mapsto> op)"
    and m: "mset (req_queue s' @ opt_list (pending_req s') @ ind_queue s' @ opt_list (pending_ind s') @ write_queue s') =
      mset (next_addr s # req_queue s @ opt_list (pending_req s) @ ind_queue s @ opt_list (pending_ind s) @ write_queue s)"
    and t: "typed (send_ops s') {ATT_OP_TYPE_REQ} (req_queue s' @ opt_list (pending_req s'))"
      "typed (send_ops s') {ATT_OP_TYPE_IND} (ind_queue s' @ opt_list (pending_ind s'))"
      "typed (send_ops s') (- {ATT_OP_TYPE_REQ, ATT_OP_TYPE_IND}) (write_queue s')"
    and same: "notifies s' = notifies s" "disconns s' = disconns s" "notify_list s' = notify_list s" "disconn_list s' = disconn_list s"
      "next_addr s' = next_addr s + 1" "freed s' = freed s" "att_ref_count s' = att_ref_count s"
  shows "wf_att F s'"
proof -
  note fr = wf_fresh_addr [OF w]
  have p: "places F (dom (send_ops s)) (req_queue s @ opt_list (pending_req s) @ ind_queue s @ opt_list (pending_ind s) @ write_queue s)"
    and h: "heaps_wf F (dom (send_ops s)) (dom (notifies s)) (dom (disconns s)) (next_addr s)"
    using w unfolding wf_att_def ops_wf_def by blast+
  have d: "dom (send_ops s') = insert (next_addr s) (dom (send_ops s))" by (simp add: heap)
  have "ops_wf F (send_ops s') (req_queue s') (pending_req s') (ind_queue s') (pending_ind s') (write_queue s')"
    unfolding ops_wf_def d using places_put [OF p m fr(1,4)] t by blast
  moreover have "heaps_wf F (dom (send_ops s')) (dom (notifies s)) (dom (disconns s)) (next_addr s + 1)"
    unfolding d by (rule heaps_wf_grow(1) [OF h])
  ultimately show ?thesis using w same unfolding wf_att_def by simp
qed

lemma wf_types:
  assumes "wf_att F s"
  shows "typed (send_ops s) {ATT_OP_TYPE_REQ} (req_queue s @ opt_list (pending_req s))"
    "typed (send_ops s) {ATT_OP_TYPE_IND} (ind_queue s @ opt_list (pending_ind s))"
    "typed (send_ops s) (- {ATT_OP_TYPE_REQ, ATT_OP_TYPE_IND}) (write_queue s)"
  using assms unfolding wf_att_def ops_wf_def by blast+

lemma typed_put:
  "typed h T xs \<Longrightarrow> a \<notin> dom h \<Longrightarrow> typed (h(a \<mapsto> op)) T xs"
  "typed h T (xs @ ys) \<Longrightarrow> a \<notin> dom h \<Longrightarrow> so_type op \<in> T \<Longrightarrow> typed (h(a \<mapsto> op)) T ((xs @ [a]) @ ys)"
  unfolding typed_def by auto

lemma keeps_fresh: "b \<notin> F \<Longrightarrow> keeps F s (s\<lparr>next_send_id := i, send_ops := (send_ops s)(b \<mapsto> op), next_addr := n\<rparr>)"
  by (auto simp: keeps_def)

lemma send_good:
  assumes w: "wf_att F s" and fits: "pdu_fits pdu len"
  shows "\<exists>r s'. bt_att_send os opcode pdu len callback ud destroy s = Some (r, s') \<and> wf_att F s' \<and> keeps F s s'"
proof (cases "has_io s \<and> create_att_send_op os s opcode pdu len callback ud destroy \<noteq> Some None")
  case False
  then show ?thesis using w by (auto simp: bt_att_send_def)
next
  case True
  have "create_att_send_op os s opcode pdu len callback ud destroy \<noteq> None"
    using encode_defined [OF fits, of os s opcode]
    by (auto simp: create_att_send_op_def Let_def split: sum.splits option.splits)
  with True obtain op where op: "create_att_send_op os s opcode pdu len callback ud destroy = Some (Some op)" by auto
  define ident where "ident = (if next_send_id s < 1 then 1 else next_send_id s)"
  define op' where "op' = op\<lparr>so_id := ident\<rparr>"
  define a where "a = next_addr s"
  define s1 where "s1 = s\<lparr>next_send_id := ident + 1, send_ops := (send_ops s)(a \<mapsto> op'), next_addr := a + 1\<rparr>"
  have e: "bt_att_send os opcode pdu len callback ud destroy s = Some (ident, wakeup_writer os (enqueue_op a (so_type op') s1))"
    using True op by (simp add: bt_att_send_def Let_def s1_def op'_def ident_def a_def)
  have k: "keeps F s (enqueue_op a (so_type op') s1)"
    using wf_fresh_addr(4) [OF w] by (cases "so_type op'") (auto simp: keeps_def s1_def a_def enqueue_op_def)
  have fr: "a \<notin> dom (send_ops s)" using wf_fresh_addr(1) [OF w] by (simp add: a_def)
  note ty = wf_types [OF w]
  have "wf_att F (enqueue_op a (so_type op') s1)"
  proof -
    consider (ATT_OP_TYPE_REQ) "so_type op' = ATT_OP_TYPE_REQ" | (ATT_OP_TYPE_IND) "so_type op' = ATT_OP_TYPE_IND"
      | (other) "so_type op' \<noteq> ATT_OP_TYPE_REQ" "so_type op' \<noteq> ATT_OP_TYPE_IND" by blast
    then show ?thesis
    proof cases
    case ATT_OP_TYPE_REQ
    then show ?thesis
      using typed_put(2) [OF ty(1) fr, of op'] typed_put(1) [OF ty(2) fr, of op'] typed_put(1) [OF ty(3) fr, of op']
      by (intro wf_put [OF w, of _ op']) (simp_all add: s1_def enqueue_op_def a_def)
  next
    case ATT_OP_TYPE_IND
    then show ?thesis
      using typed_put(1) [OF ty(1) fr, of op'] typed_put(2) [OF ty(2) fr, of op'] typed_put(1) [OF ty(3) fr, of op']
      by (intro wf_put [OF w, of _ op']) (simp_all add: s1_def enqueue_op_def a_def)
  next
    case other
    then have "enqueue_op a (so_type op') s1 = s1\<lparr>write_queue := write_queue s1 @ [a]\<rparr>"
      by (cases "so_type op'") (simp_all add: enqueue_op_def)
    then show ?thesis
      using typed_put(1) [OF ty(1) fr, of op'] typed_put(1) [OF ty(2) fr, of op'] other
        typed_put(2) [of "send_ops s" "- {ATT_OP_TYPE_REQ, ATT_OP_TYPE_IND}" "write_queue s" "[]", OF _ fr, of op'] ty(3)
      by (intro wf_put [OF w, of _ op']) (simp_all add: s1_def a_def)
    qed
  qed
  then show ?thesis using k unfolding e by (simp add: wf_simps)
qed

lemma register_good:
  assumes w: "wf_att F s"
  shows "\<exists>r s'. bt_att_register opcode callback ud destroy s = (r, s') \<and> wf_att F s' \<and> keeps F s s'"
proof (cases "callback = None \<or> \<not> has_io s")
  case False
  note fr = wf_fresh_addr [OF w]
  have p: "places F (insert (next_addr s) (dom (notifies s))) (notify_list s @ [next_addr s])"
    using w fr by (intro places_put [of F "dom (notifies s)" "notify_list s"]) (simp_all add: wf_att_def)
  have "heaps_wf F (dom (send_ops s)) (insert (next_addr s) (dom (notifies s))) (dom (disconns s)) (next_addr s + 1)"
    using w by (intro heaps_wf_grow(2)) (simp add: wf_att_def)
  with p w fr(4) False show ?thesis
    unfolding wf_att_def by (auto simp: bt_att_register_def Let_def keeps_def)
qed (use w in \<open>auto simp: bt_att_register_def\<close>)

lemma register_disconnect_good:
  assumes w: "wf_att F s"
  shows "\<exists>r s'. bt_att_register_disconnect callback ud destroy s = (r, s') \<and> wf_att F s' \<and> keeps F s s'"
proof (cases "has_io s")
  case True
  note fr = wf_fresh_addr [OF w]
  have p: "places F (insert (next_addr s) (dom (disconns s))) (disconn_list s @ [next_addr s])"
    using w fr by (intro places_put [of F "dom (disconns s)" "disconn_list s"]) (simp_all add: wf_att_def)
  have "heaps_wf F (dom (send_ops s)) (dom (notifies s)) (insert (next_addr s) (dom (disconns s))) (next_addr s + 1)"
    using w by (intro heaps_wf_grow(3)) (simp add: wf_att_def)
  with p w fr(4) True show ?thesis
    unfolding wf_att_def by (auto simp: bt_att_register_disconnect_def Let_def keeps_def)
qed (use w in \<open>auto simp: bt_att_register_disconnect_def\<close>)

lemma wf_back:
  assumes w: "wf_att (insert a F) s" and a: "a \<notin> F" "send_ops s a = Some op"
    and heap: "dom (send_ops s') = dom (send_ops s)"
    and m: "mset (req_queue s' @ opt_list (pending_req s') @ ind_queue s' @ opt_list (pending_ind s') @ write_queue s') =
      mset (a # req_queue s @ opt_list (pending_req s) @ ind_queue s @ opt_list (pending_ind s) @ write_queue s)"
    and t: "typed (send_ops s') {ATT_OP_TYPE_REQ} (req_queue s' @ opt_list (pending_req s'))"
      "typed (send_ops s') {ATT_OP_TYPE_IND} (ind_queue s' @ opt_list (pending_ind s'))"
      "typed (send_ops s') (- {ATT_OP_TYPE_REQ, ATT_OP_TYPE_IND}) (write_queue s')"
    and same: "notifies s' = notifies s" "disconns s' = disconns s" "notify_list s' = notify_list s" "disconn_list s' = disconn_list s"
      "next_addr s' = next_addr s" "freed s' = freed s" "att_ref_count s' = att_ref_count s"
  shows "wf_att F s'"
proof -
  have p: "places (insert a F) (dom (send_ops s)) (req_queue s @ opt_list (pending_req s) @ ind_queue s @ opt_list (pending_ind s) @ write_queue s)"
    and h: "heaps_wf (insert a F) (dom (send_ops s)) (dom (notifies s)) (dom (disconns s)) (next_addr s)"
    using w unfolding wf_att_def ops_wf_def by blast+
  have ad: "a \<in> dom (send_ops s)" using a by blast
  then have n: "a \<notin> dom (notifies s)" "a \<notin> dom (disconns s)" using h unfolding heaps_wf_def by blast+
  have "ops_wf F (send_ops s') (req_queue s') (pending_req s') (ind_queue s') (pending_ind s') (write_queue s')"
    unfolding ops_wf_def heap using places_back [OF p m ad a(1)] t by blast
  moreover have "places F (dom (notifies s)) (notify_list s)" "places F (dom (disconns s)) (disconn_list s)"
    using w places_narrow [OF _ n(1)] places_narrow [OF _ n(2)] unfolding wf_att_def by blast+
  moreover have "heaps_wf F (dom (send_ops s)) (dom (notifies s)) (dom (disconns s)) (next_addr s)"
    using h unfolding heaps_wf_def by blast
  ultimately show ?thesis using w same heap unfolding wf_att_def by simp
qed

lemma typed_back:
  "typed h T xs \<Longrightarrow> h a = Some op \<Longrightarrow> so_type op' = so_type op \<Longrightarrow> typed (h(a \<mapsto> op')) T xs"
  "typed h T xs \<Longrightarrow> so_type op' \<in> T \<Longrightarrow> typed (h(a \<mapsto> op')) T (xs @ [a])"
  unfolding typed_def by auto

lemma pick_next_good:
  assumes w: "wf_att F s"
  shows "case pick_next_send_op s of (None, s') \<Rightarrow> s' = s
    | (Some a, s') \<Rightarrow> wf_att (insert a F) s' \<and> a \<notin> F \<and> (\<exists>op. send_ops s' a = Some op
        \<and> (so_type op = ATT_OP_TYPE_REQ \<longrightarrow> pending_req s' = None) \<and> (so_type op = ATT_OP_TYPE_IND \<longrightarrow> pending_ind s' = None))"
proof (cases "write_queue s")
  case (Cons a rest)
  have "wf_att (insert a F) (s\<lparr>write_queue := rest\<rparr>)" using wf_take_write_queue [OF w, of a] Cons by simp
  then show ?thesis using wf_opD(3,4) [OF w, of a] Cons by (auto simp: pick_next_send_op_def)
next
  case wn: Nil
  show ?thesis
  proof (cases "pending_req s = None \<and> req_queue s \<noteq> []")
    case True
    then obtain a rest where rq: "req_queue s = a # rest" by (cases "req_queue s") auto
    have "wf_att (insert a F) (s\<lparr>req_queue := rest\<rparr>)" using wf_take_req_queue [OF w, of a] rq by simp
    then show ?thesis using wf_opD(1,4) [OF w, of a] wn rq True by (auto simp: pick_next_send_op_def)
  next
    case rn: False
    have e: "pick_next_send_op s = (case (pending_ind s, ind_queue s) of (None, a # rest) \<Rightarrow> (Some a, s\<lparr>ind_queue := rest\<rparr>) | _ \<Rightarrow> (None, s))"
      using wn rn by (auto simp: pick_next_send_op_def split: option.splits list.splits)
    show ?thesis
    proof (cases "pending_ind s = None \<and> ind_queue s \<noteq> []")
      case True
      then obtain a rest where iq: "ind_queue s = a # rest" by (cases "ind_queue s") auto
      have "wf_att (insert a F) (s\<lparr>ind_queue := rest\<rparr>)" using wf_take_ind_queue [OF w, of a] iq by simp
      then show ?thesis using wf_opD(2,4) [OF w, of a] e iq True by auto
    next
      case False
      then show ?thesis unfolding e by (auto split: option.splits list.splits)
    qed
  qed
qed

lemma wf_ref [wf_simps]: "wf_att F s \<Longrightarrow> wf_att F (bt_att_ref s)"
  by (simp add: wf_att_def bt_att_ref_def)

lemma unref_more:
  "wf_att F s \<Longrightarrow> 1 < att_ref_count s \<Longrightarrow> \<exists>s'. bt_att_unref os s = Some s' \<and> wf_att F s'
     \<and> s' = s\<lparr>att_ref_count := att_ref_count s - 1\<rparr>"
  by (simp add: bt_att_unref_def Let_def wf_att_def alive_def)

lemma next_entry_mid: "a \<notin> set pre \<Longrightarrow> next_entry a (pre @ a # post) = Some (first_entry post)"
  by (induction pre) (auto simp: next_entry_def first_entry_def split: list.splits)

context att_client begin

lemma can_write_good:
  assumes w: "wf_att F s"
  shows "\<exists>b s'. can_write_data os ret s = Some (b, s') \<and> wf_att F s'"
proof -
  obtain p s1 where p: "pick_next_send_op s = (p, s1)" by force
  show ?thesis
  proof (cases p)
    case None
    then show ?thesis using pick_next_good [OF w] w p by (auto simp: can_write_data_def)
  next
    case (Some a)
    then obtain op where a: "wf_att (insert a F) s1" "a \<notin> F" "send_ops s1 a = Some op"
        "so_type op = ATT_OP_TYPE_REQ \<Longrightarrow> pending_req s1 = None" "so_type op = ATT_OP_TYPE_IND \<Longrightarrow> pending_ind s1 = None"
      using pick_next_good [OF w] p by auto
    show ?thesis
    proof (cases "ret < 0")
      case True
      obtain s2 where s2: "call_response os (so_callback op) BT_ATT_OP_ERROR_RSP [] (so_user_data op) s1 = Some s2"
          "wf_att (insert a F) s2" "keeps (insert a F) s1 s2"
        using goodD [OF call_response_good a(1)] by blast
      then have "send_ops s2 a \<noteq> None" using a(3) by (simp add: keeps_def)
      from destroy_op_good [OF s2(2) this a(2)] show ?thesis
        using True p Some a(3) s2(1) by (auto simp: can_write_data_def)
    next
      case False
      let ?s = "log_att (Wrote (take (nat ret) (so_pdu op))) s1"
      have ws: "wf_att (insert a F) ?s" using a(1) by (simp add: wf_simps)
      note ty = wf_types [OF ws]
      have sa: "send_ops ?s a = Some op" using a(3) by (simp add: log_att_def)
      consider (req) "so_type op = ATT_OP_TYPE_REQ" | (ind) "so_type op = ATT_OP_TYPE_IND"
        | (other) "so_type op \<noteq> ATT_OP_TYPE_REQ" "so_type op \<noteq> ATT_OP_TYPE_IND" by blast
      then show ?thesis
      proof cases
        case req
        let ?op = "op\<lparr>so_timeout_id := next_timer s1\<rparr>"
        let ?t = "?s\<lparr>pending_req := Some a, timers := timers ?s @ [(next_timer ?s, so_id op)], next_timer := next_timer ?s + 1,
          send_ops := (send_ops ?s)(a \<mapsto> ?op)\<rparr>"
        have e: "can_write_data os ret s = Some (True, ?t)"
          using False p Some a(3) req by (simp add: can_write_data_def Let_def log_att_def)
        have "wf_att F ?t"
          using typed_back(2) [of "send_ops ?s" "{ATT_OP_TYPE_REQ}" "req_queue ?s" ?op a] typed_back(1) [OF ty(2) sa, of ?op]
            typed_back(1) [OF ty(3) sa, of ?op] ty(1) a(4) [OF req] req sa
          by (intro wf_back [OF ws a(2) sa]) (auto simp: log_att_def)
        then show ?thesis using e by blast
      next
        case ind
        let ?op = "op\<lparr>so_timeout_id := next_timer s1\<rparr>"
        let ?t = "?s\<lparr>pending_ind := Some a, timers := timers ?s @ [(next_timer ?s, so_id op)], next_timer := next_timer ?s + 1,
          send_ops := (send_ops ?s)(a \<mapsto> ?op)\<rparr>"
        have e: "can_write_data os ret s = Some (True, ?t)"
          using False p Some a(3) ind by (simp add: can_write_data_def Let_def log_att_def)
        have "wf_att F ?t"
          using typed_back(2) [of "send_ops ?s" "{ATT_OP_TYPE_IND}" "ind_queue ?s" ?op a] typed_back(1) [OF ty(1) sa, of ?op]
            typed_back(1) [OF ty(3) sa, of ?op] ty(2) a(5) [OF ind] ind sa
          by (intro wf_back [OF ws a(2) sa]) (auto simp: log_att_def)
        then show ?thesis using e by blast
      next
        case other
        let ?t = "if so_type op = ATT_OP_TYPE_RSP then ?s\<lparr>in_req := False\<rparr> else ?s"
        have "wf_att (insert a F) ?t" "send_ops ?t a \<noteq> None" using ws sa by (simp_all add: wf_simps)
        from destroy_op_good [OF this a(2)] show ?thesis
          using False p Some a(3) other by (auto simp: can_write_data_def Let_def)
      qed
    qed
  qed
qed

lemma writable_good:
  assumes w: "wf_att F s"
  shows "\<exists>s'. writable os ret s = Some s' \<and> wf_att F s'"
  using can_write_good [OF w, of ret] w by (auto simp: writable_def write_watch_destroy_def wf_simps)

lemma timeout_op_good:
  assumes w: "wf_att (insert a F) s" and a: "a \<notin> F" "send_ops s a = Some op"
  shows "\<exists>s1 s2 op1. (case timeout_callback s of None \<Rightarrow> Some s
      | Some f \<Rightarrow> run_timeout os f (so_id op) (so_opcode op) (timeout_data s)
          (log_att (Timed_Out f (so_id op) (so_opcode op) (timeout_data s)) s)) = Some s1
    \<and> send_ops s1 a = Some op1
    \<and> destroy_att_send_op os a (s1\<lparr>send_ops := (send_ops s1)(a \<mapsto> op1\<lparr>so_timeout_id := 0\<rparr>)\<rparr>) = Some s2 \<and> wf_att F s2"
proof -
  obtain s1 where s1: "(case timeout_callback s of None \<Rightarrow> Some s
      | Some f \<Rightarrow> run_timeout os f (so_id op) (so_opcode op) (timeout_data s)
          (log_att (Timed_Out f (so_id op) (so_opcode op) (timeout_data s)) s)) = Some s1"
      "wf_att (insert a F) s1" "keeps (insert a F) s s1"
  proof (cases "timeout_callback s")
    case None
    then show ?thesis using that [of s] w by simp
  next
    case (Some f)
    have "wf_att (insert a F) (log_att (Timed_Out f (so_id op) (so_opcode op) (timeout_data s)) s)" using w by (simp add: wf_simps)
    from goodD [OF timeout_good [of f "so_id op" "so_opcode op" "timeout_data s"] this] show ?thesis using that Some by (auto simp: wf_simps)
  qed
  have o: "send_ops s1 a = Some op" using s1(3) a(2) by (simp add: keeps_def)
  have "wf_att (insert a F) (s1\<lparr>send_ops := (send_ops s1)(a \<mapsto> op\<lparr>so_timeout_id := 0\<rparr>)\<rparr>)"
    by (rule wf_upd_op [OF s1(2) o]) simp
  from destroy_op_good [OF this _ a(1)] show ?thesis using s1(1) o by auto
qed

lemma op_has_id_defined:
  assumes w: "wf_att F s" and p: "p = pending_req s \<or> p = pending_ind s"
  shows "\<exists>b. op_has_id s ident p = Some b \<and> (b \<longrightarrow> p \<noteq> None)"
proof (cases p)
  case (Some a)
  then have "\<exists>op. send_ops s a = Some op" using p wf_opD [OF w, of a] by (auto simp: eq_commute [of "Some a"])
  then show ?thesis using Some by (auto simp: op_has_id_def)
qed (auto simp: op_has_id_def)

lemma timeout_cb_good:
  assumes w: "wf_att F s"
  shows "\<exists>s'. timeout_cb os ident s = Some s' \<and> wf_att F s'"
proof -
  obtain b1 where b1: "op_has_id s ident (pending_req s) = Some b1" "b1 \<Longrightarrow> pending_req s \<noteq> None"
    using op_has_id_defined [OF w, of "pending_req s"] by auto
  obtain b2 where b2: "op_has_id s ident (pending_ind s) = Some b2" "b2 \<Longrightarrow> pending_ind s \<noteq> None"
    using op_has_id_defined [OF w, of "pending_ind s"] by auto
  note e = b1(1) [unfolded op_has_id_def] b2(1) [unfolded op_has_id_def]
  consider (req) a where b1 "pending_req s = Some a" | (ind) a where "\<not> b1" b2 "pending_ind s = Some a" | (none) "\<not> b1" "\<not> b2"
    using b1(2) b2(2) by blast
  then show ?thesis
  proof cases
    case req
    let ?s = "s\<lparr>pending_req := None\<rparr>"
    obtain op where op: "send_ops s a = Some op" using wf_opD(1) [OF w, of a] req by auto
    have F: "a \<notin> F" using wf_opD(4) [OF w, of a] req by simp
    obtain s1 s2 op1 where t: "(case timeout_callback ?s of None \<Rightarrow> Some ?s
        | Some f \<Rightarrow> run_timeout os f (so_id op) (so_opcode op) (timeout_data ?s)
            (log_att (Timed_Out f (so_id op) (so_opcode op) (timeout_data ?s)) ?s)) = Some s1" "send_ops s1 a = Some op1"
        "destroy_att_send_op os a (s1\<lparr>send_ops := (send_ops s1)(a \<mapsto> op1\<lparr>so_timeout_id := 0\<rparr>)\<rparr>) = Some s2" "wf_att F s2"
      using timeout_op_good [OF wf_take_pending_req [OF w req(2)] F, of op] op by auto
    then show ?thesis using e req op by (simp add: timeout_cb_def wf_simps)
  next
    case ind
    let ?s = "s\<lparr>pending_ind := None\<rparr>"
    obtain op where op: "send_ops s a = Some op" using wf_opD(2) [OF w, of a] ind by auto
    have F: "a \<notin> F" using wf_opD(4) [OF w, of a] ind by simp
    obtain s1 s2 op1 where t: "(case timeout_callback ?s of None \<Rightarrow> Some ?s
        | Some f \<Rightarrow> run_timeout os f (so_id op) (so_opcode op) (timeout_data ?s)
            (log_att (Timed_Out f (so_id op) (so_opcode op) (timeout_data ?s)) ?s)) = Some s1" "send_ops s1 a = Some op1"
        "destroy_att_send_op os a (s1\<lparr>send_ops := (send_ops s1)(a \<mapsto> op1\<lparr>so_timeout_id := 0\<rparr>)\<rparr>) = Some s2" "wf_att F s2"
      using timeout_op_good [OF wf_take_pending_ind [OF w ind(3)] F, of op] op by auto
    then show ?thesis using e ind op by (simp add: timeout_cb_def wf_simps)
  next
    case none
    then show ?thesis using e w by (simp add: timeout_cb_def)
  qed
qed

lemma fire_timer_good: "wf_att F s \<Longrightarrow> \<exists>s'. fire_timer os src s = Some s' \<and> wf_att F s'"
  using timeout_cb_good [of F s "the (map_of (timers s) src)"] by (cases "map_of (timers s) src") (auto simp: fire_timer_def wf_simps)

text \<open>Ending an operation that is still pending while its functions run.\<close>

lemma destroy_pending_req_good:
  assumes w: "wf_att F s" and a: "pending_req s = Some a"
  shows "\<exists>s'. destroy_att_send_op os a s = Some s' \<and> wf_att F (s'\<lparr>pending_req := None\<rparr>) \<and> att_ref_count s \<le> att_ref_count s'"
proof -
  obtain op where op: "send_ops s a = Some op" using wf_opD(1) [OF w, of a] a by auto
  let ?s = "if so_timeout_id op \<noteq> 0 then timeout_remove (so_timeout_id op) s else s"
  have "wf_att F ?s" using w by (simp add: wf_simps)
  from goodD [OF call_destroy_good this] obtain s1 where
    s1: "call_destroy_fn os (so_destroy op) (so_user_data op) ?s = Some s1" "wf_att F s1" "keeps F ?s s1" by blast
  have p: "pending_req s1 = Some a" using s1(3) a by (simp add: keeps_def timeout_remove_def split: if_splits)
  then obtain op1 where op1: "send_ops s1 a = Some op1" using wf_opD(1) [OF s1(2), of a] by auto
  have "wf_att F ((s1\<lparr>pending_req := None\<rparr>)\<lparr>send_ops := (send_ops (s1\<lparr>pending_req := None\<rparr>))(a := None)\<rparr>)"
    using wf_free_send_op [OF wf_take_pending_req [OF s1(2) p], of op1] op1 wf_opD(4) [OF w, of a] a by simp
  moreover have "att_ref_count s \<le> att_ref_count s1" using s1(3) by (simp add: keeps_def timeout_remove_def split: if_splits)
  ultimately show ?thesis using op op1 s1(1) by (simp add: destroy_att_send_op_def free_send_op_def Let_def wf_att_def)
qed

lemma destroy_pending_ind_good:
  assumes w: "wf_att F s" and a: "pending_ind s = Some a"
  shows "\<exists>s'. destroy_att_send_op os a s = Some s' \<and> wf_att F (s'\<lparr>pending_ind := None\<rparr>) \<and> att_ref_count s \<le> att_ref_count s'"
proof -
  obtain op where op: "send_ops s a = Some op" using wf_opD(2) [OF w, of a] a by auto
  let ?s = "if so_timeout_id op \<noteq> 0 then timeout_remove (so_timeout_id op) s else s"
  have "wf_att F ?s" using w by (simp add: wf_simps)
  from goodD [OF call_destroy_good this] obtain s1 where
    s1: "call_destroy_fn os (so_destroy op) (so_user_data op) ?s = Some s1" "wf_att F s1" "keeps F ?s s1" by blast
  have p: "pending_ind s1 = Some a" using s1(3) a by (simp add: keeps_def timeout_remove_def split: if_splits)
  then obtain op1 where op1: "send_ops s1 a = Some op1" using wf_opD(2) [OF s1(2), of a] by auto
  have "wf_att F ((s1\<lparr>pending_ind := None\<rparr>)\<lparr>send_ops := (send_ops (s1\<lparr>pending_ind := None\<rparr>))(a := None)\<rparr>)"
    using wf_free_send_op [OF wf_take_pending_ind [OF s1(2) p], of op1] op1 wf_opD(4) [OF w, of a] a by simp
  moreover have "att_ref_count s \<le> att_ref_count s1" using s1(3) by (simp add: keeps_def timeout_remove_def split: if_splits)
  ultimately show ?thesis using op op1 s1(1) by (simp add: destroy_att_send_op_def free_send_op_def Let_def wf_att_def)
qed

end

lemma count_simps [wf_simps]:
  "att_ref_count (log_att e s) = att_ref_count s" "att_ref_count (io_shutdown s) = att_ref_count s"
  "att_ref_count (wakeup_writer os s) = att_ref_count s" "att_ref_count (bt_att_ref s) = att_ref_count s + 1"
  "notify_list (bt_att_ref s) = notify_list s"
  by (simp_all add: log_att_def io_shutdown_def wakeup_writer_def bt_att_ref_def)

lemma change_security_good:
  "wf_att F s \<Longrightarrow> \<exists>b s'. change_security os ecode s = (b, s') \<and> wf_att F s' \<and> keeps F s s' \<and> send_ops s' = send_ops s
     \<and> pending_req s' = pending_req s \<and> att_ref_count s' = att_ref_count s"
  by (auto simp: change_security_def bt_att_set_security_def Let_def wf_att_def keeps_def)

lemma handle_error_rsp_good:
  assumes w: "wf_att F s" and a: "pending_req s = Some a"
  shows "\<exists>b r s'. handle_error_rsp os pdu s = ((b, r), s') \<and> wf_att F s' \<and> att_ref_count s' = att_ref_count s
    \<and> (\<not> b \<longrightarrow> pending_req s' = Some a \<and> send_ops s' = send_ops s)"
proof (cases "length pdu = 4")
  case True
  obtain b s1 where c: "change_security os (pdu ! 3) s = (b, s1)" "wf_att F s1" "send_ops s1 = send_ops s"
      "pending_req s1 = pending_req s" "att_ref_count s1 = att_ref_count s"
    using change_security_good [OF w] by blast
  have "wf_att F (s1\<lparr>pending_req := None, req_queue := a # req_queue s1\<rparr>)"
    using wf_take [OF c(2), of "[]" "s1\<lparr>pending_req := None, req_queue := a # req_queue s1\<rparr>"] c(4) a by auto
  then show ?thesis using True c a by (cases b) (auto simp: handle_error_rsp_def)
qed (use w a in \<open>auto simp: handle_error_rsp_def\<close>)

context att_client begin

lemma end_request_good:
  assumes w: "wf_att F s" and a: "pending_req s = Some a"
  shows "\<exists>s'. end_request os a rsp pdu s = Some s' \<and> wf_att F s' \<and> att_ref_count s \<le> att_ref_count s'"
proof -
  obtain op where op: "send_ops s a = Some op" using wf_opD(1) [OF w, of a] a by auto
  obtain s1 where s1: "call_response os (so_callback op) rsp pdu (so_user_data op) s = Some s1" "wf_att F s1" "keeps F s s1"
    using goodD [OF call_response_good w] by blast
  have p: "pending_req s1 = Some a" using s1(3) a by (simp add: keeps_def)
  obtain s2 where s2: "destroy_att_send_op os a s1 = Some s2" "wf_att F (s2\<lparr>pending_req := None\<rparr>)" "att_ref_count s1 \<le> att_ref_count s2"
    using destroy_pending_req_good [OF s1(2) p] by blast
  have "alive s2 = Some s2" using s2(2) by (simp add: alive_def wf_att_def)
  then show ?thesis
    using op s1 s2 by (auto simp: end_request_def wf_simps keeps_def)
qed

lemma handle_rsp_good:
  assumes w: "wf_att F s"
  shows "\<exists>s'. handle_rsp os opcode pdu s = Some s' \<and> wf_att F s' \<and> att_ref_count s \<le> att_ref_count s'"
proof (cases "pending_req s")
  case None
  then show ?thesis using w by (auto simp: handle_rsp_def wf_simps)
next
  case (Some a)
  obtain op where op: "send_ops s a = Some op" using wf_opD(1) [OF w, of a] Some by auto
  note e = end_request_good [OF w Some]
  show ?thesis
  proof (cases "opcode = BT_ATT_OP_ERROR_RSP")
    case True
    obtain b r s1 where h: "handle_error_rsp os pdu s = ((b, r), s1)" "wf_att F s1" "att_ref_count s1 = att_ref_count s"
        "\<not> b \<Longrightarrow> pending_req s1 = Some a \<and> send_ops s1 = send_ops s"
      using handle_error_rsp_good [OF w Some, of os pdu] by blast
    show ?thesis
    proof (cases b)
      case True
      then show ?thesis using h \<open>opcode = BT_ATT_OP_ERROR_RSP\<close> Some op
        by (simp add: handle_rsp_def wf_simps)
    next
      case False
      then show ?thesis
        using h \<open>opcode = BT_ATT_OP_ERROR_RSP\<close> Some op end_request_good [OF h(2), of a] by (auto simp: handle_rsp_def)
    qed
  next
    case False
    then show ?thesis using Some op e by (auto simp: handle_rsp_def Let_def)
  qed
qed

lemma handle_conf_good:
  assumes w: "wf_att F s"
  shows "\<exists>s'. handle_conf os pdu s = Some s' \<and> wf_att F s' \<and> att_ref_count s \<le> att_ref_count s'"
proof (cases "pending_ind s = None \<or> pdu \<noteq> []")
  case True
  then show ?thesis using w by (auto simp: handle_conf_def wf_simps split: option.splits)
next
  case False
  then obtain a where a: "pending_ind s = Some a" by auto
  obtain op where op: "send_ops s a = Some op" using wf_opD(2) [OF w, of a] a by auto
  obtain s1 where s1: "call_response os (so_callback op) BT_ATT_OP_HANDLE_VAL_CONF [] (so_user_data op) s = Some s1" "wf_att F s1" "keeps F s s1"
    using goodD [OF call_response_good w] by blast
  have p: "pending_ind s1 = Some a" using s1(3) a by (simp add: keeps_def)
  obtain s2 where s2: "destroy_att_send_op os a s1 = Some s2" "wf_att F (s2\<lparr>pending_ind := None\<rparr>)" "att_ref_count s1 \<le> att_ref_count s2"
    using destroy_pending_ind_good [OF s1(2) p] by blast
  have "alive s2 = Some s2" using s2(2) by (simp add: alive_def wf_att_def)
  then show ?thesis
    using False a op s1 s2 by (auto simp: handle_conf_def wf_simps keeps_def)
qed

lemma notify_handlers_good:
  "wf_att F s \<Longrightarrow> notify_list s = pre @ post \<Longrightarrow>
   \<exists>r s'. notify_handlers os opcode pdu (first_entry post) found s = Some (r, s') \<and> wf_att F s' \<and> keeps F s s'"
proof (induction post arbitrary: pre s found)
  case Nil
  then show ?case by (subst notify_handlers.simps) (simp add: first_entry_def)
next
  case (Cons a post)
  note w = Cons.prems(1) and l = Cons.prems(2)
  have "distinct (pre @ a # post)" using wf_distinct(4) [OF w] l by simp
  then have nx: "next_entry a (notify_list s) = Some (first_entry post)" unfolding l by (intro next_entry_mid) simp
  obtain n where n: "notifies s a = Some n" using wf_notifyD [OF w, of a] l by auto
  show ?case
  proof (cases "opcode_match (an_opcode n) opcode")
    case False
    then show ?thesis
      using Cons.IH [of s "pre @ [a]" found] w l nx n by (subst notify_handlers.simps) (simp add: first_entry_def)
  next
    case True
    obtain s1 where s1: "call_notify os (an_callback n) opcode pdu (an_user_data n) s = Some s1" "wf_att F s1" "keeps F s s1"
        "steady (notify_list s) a (notify_list s1)"
    proof (cases "an_callback n")
      case None
      then show ?thesis using that [of s] w by (simp add: call_notify_def steady_def)
    next
      case (Some f)
      let ?s = "log_att (Notified f opcode pdu (an_user_data n)) s"
      have "wf_att F ?s" "notifies ?s a = Some n" "a \<in> set (notify_list ?s)" using w n l by (simp_all add: wf_simps, simp_all add: log_att_def)
      from notify_good [OF this Some refl, of opcode pdu] show ?thesis
        using that Some by (auto simp: call_notify_def wf_simps) (auto simp: log_att_def)
    qed
    have al: "alive s1 = Some s1" using s1(2) by simp
    show ?thesis
    proof (cases "notify_list s1 = []")
      case True
      then show ?thesis using \<open>opcode_match _ _\<close> nx n s1 al by (subst notify_handlers.simps) (auto simp: first_entry_def)
    next
      case False
      have "notify_list s1 = (pre @ [a]) @ post \<or> notify_list s1 = pre @ post"
        using s1(4) False l \<open>distinct (pre @ a # post)\<close> by (auto simp: steady_def remove1_append)
      then obtain pre1 where "notify_list s1 = pre1 @ post" by blast
      from Cons.IH [OF s1(2) this, of True] show ?thesis
        using \<open>opcode_match _ _\<close> nx n s1 al False by (subst notify_handlers.simps) (auto simp: first_entry_def intro: keeps_trans)
    qed
  qed
qed

lemma handle_notify_good:
  assumes w: "wf_att F s"
  shows "\<exists>s'. handle_notify os opcode pdu s = Some s' \<and> wf_att F s' \<and> att_ref_count s \<le> att_ref_count s'"
proof (cases "if opcode AND ATT_OP_SIGNED_MASK \<noteq> 0 \<and> \<not> has_crypto s
    then (case handle_signed os pdu s of Inl _ \<Rightarrow> None | Inr pdu \<Rightarrow> Some (take (length pdu - BT_ATT_SIGNATURE_LEN) pdu)) else Some pdu")
  case None
  then show ?thesis using w by (simp add: handle_notify_def)
next
  case (Some pdu')
  have w1: "wf_att F (bt_att_ref s)" using w by (simp add: wf_simps)
  obtain r s1 where s1: "notify_handlers os opcode pdu' (first_entry (notify_list s)) False (bt_att_ref s) = Some (r, s1)"
      "wf_att F s1" "keeps F (bt_att_ref s) s1"
    using notify_handlers_good [OF w1, of "[]" "notify_list s" opcode pdu' False] by (auto simp: wf_simps)
  obtain s2 where s2: "(if \<not> r \<and> get_op_type opcode = ATT_OP_TYPE_REQ then respond_not_supported os opcode s1 else Some s1) = Some s2"
      "wf_att F s2" "keeps F s1 s2"
  proof (cases "\<not> r \<and> get_op_type opcode = ATT_OP_TYPE_REQ")
    case True
    have "pdu_fits (Some [opcode, 0, 0, BT_ATT_ERROR_REQUEST_NOT_SUPPORTED]) 4" by (simp add: pdu_fits_def)
    from send_good [OF s1(2) this, of os BT_ATT_OP_ERROR_RSP None None None] that True show ?thesis
      by (auto simp: respond_not_supported_def)
  qed (use that s1 in auto)
  have "1 < att_ref_count s2" using w s1(3) s2(3) by (simp add: keeps_def wf_simps wf_att_def)
  from unref_more [OF s2(2) this, of os] show ?thesis
    using Some s1 s2 by (auto simp: handle_notify_def Let_def keeps_def wf_simps)
qed

end

lemma wf_closed [wf_simps]: "wf_att F (s\<lparr>has_io := b\<rparr>) = wf_att F s" "wf_att F (s\<lparr>writer_active := c, has_io := b\<rparr>) = wf_att F s"
  by (simp_all add: wf_att_def)

lemma wf_ref_two:
  assumes "wf_att F s"
  shows "wf_att F (bt_att_ref s)" "1 < att_ref_count (bt_att_ref s)"
proof -
  show "wf_att F (bt_att_ref s)" using assms by (simp add: wf_simps)
  have "0 < att_ref_count s" using assms by (simp add: wf_att_def)
  then show "1 < att_ref_count (bt_att_ref s)" by (simp add: bt_att_ref_def)
qed

context att_client begin

lemma can_read_good:
  assumes w: "wf_att F s"
  shows "\<exists>b s'. can_read_data os bytes s = Some (b, s') \<and> wf_att F s'"
proof (cases "bytes = None \<or> bytes = Some []")
  case False
  then obtain opcode pdu where b: "bytes = Some (opcode # pdu)" by (cases bytes) (auto simp: neq_Nil_conv)
  have r: "wf_att F (bt_att_ref s)" "1 < att_ref_count (bt_att_ref s)" using wf_ref_two [OF w] by auto
  have fin: "\<exists>s'. (do { s \<leftarrow> h; s \<leftarrow> bt_att_unref os s; Some (True, s) }) = Some (True, s') \<and> wf_att F s'"
    if "\<exists>s'. h = Some s' \<and> wf_att F s' \<and> att_ref_count (bt_att_ref s) \<le> att_ref_count s'" for h
    using that unref_more [of F _ os] r(2) by fastforce
  show ?thesis
  proof (cases "get_op_type opcode")
    case ATT_OP_TYPE_REQ
    show ?thesis
    proof (cases "in_req s")
      case True
      then show ?thesis using ATT_OP_TYPE_REQ b unref_more [of F "io_shutdown (bt_att_ref s)" os] r
        by (auto simp: can_read_data_def Let_def wf_simps bt_att_ref_def)
    next
      case False
      have "wf_att F ((bt_att_ref s)\<lparr>in_req := True\<rparr>)" using r by (simp add: wf_simps)
      from handle_notify_good [OF this, of opcode pdu] fin [of "handle_notify os opcode pdu ((bt_att_ref s)\<lparr>in_req := True\<rparr>)"]
      show ?thesis using ATT_OP_TYPE_REQ False b by (auto simp: can_read_data_def Let_def bt_att_ref_def)
    qed
  next
    case ATT_OP_TYPE_RSP
    then show ?thesis using b fin [OF handle_rsp_good [OF r(1), of opcode pdu]] by (auto simp: can_read_data_def Let_def)
  next
    case ATT_OP_TYPE_CONF
    then show ?thesis using b fin [OF handle_conf_good [OF r(1), of pdu]] by (auto simp: can_read_data_def Let_def)
  qed (use b fin [OF handle_notify_good [OF r(1), of opcode pdu]] in \<open>auto simp: can_read_data_def Let_def\<close>)
qed (use w in \<open>auto simp: can_read_data_def\<close>)

lemma disc_pending_good:
  assumes w: "wf_att F s"
  shows "\<exists>s'. disc_pending os (pending_req s) s = Some s' \<and> alive s' = Some s' \<and> wf_att F (s'\<lparr>pending_req := None\<rparr>)"
    and "\<exists>s'. disc_pending os (pending_ind s) s = Some s' \<and> alive s' = Some s' \<and> wf_att F (s'\<lparr>pending_ind := None\<rparr>)"
proof -
  show "\<exists>s'. disc_pending os (pending_req s) s = Some s' \<and> alive s' = Some s' \<and> wf_att F (s'\<lparr>pending_req := None\<rparr>)"
  proof (cases "pending_req s")
    case None
    then show ?thesis using w wf_take [OF w, of "[]" "s\<lparr>pending_req := None\<rparr>"] by (simp add: disc_pending_def)
  next
    case (Some a)
    obtain op where op: "send_ops s a = Some op" using wf_opD(1) [OF w, of a] Some by auto
    obtain s1 where s1: "call_response os (so_callback op) BT_ATT_OP_ERROR_RSP [] (so_user_data op) s = Some s1" "wf_att F s1" "keeps F s s1"
      using goodD [OF call_response_good w] by blast
    have p: "pending_req s1 = Some a" using s1(3) Some by (simp add: keeps_def)
    obtain s2 where s2: "destroy_att_send_op os a s1 = Some s2" "wf_att F (s2\<lparr>pending_req := None\<rparr>)"
      using destroy_pending_req_good [OF s1(2) p] by blast
    have "alive s2 = Some s2" using s2(2) by (simp add: alive_def wf_att_def)
    then show ?thesis using Some op s1 s2 by (simp add: disc_pending_def disc_att_send_op_def)
  qed
  show "\<exists>s'. disc_pending os (pending_ind s) s = Some s' \<and> alive s' = Some s' \<and> wf_att F (s'\<lparr>pending_ind := None\<rparr>)"
  proof (cases "pending_ind s")
    case None
    then show ?thesis using w wf_take [OF w, of "[]" "s\<lparr>pending_ind := None\<rparr>"] by (simp add: disc_pending_def)
  next
    case (Some a)
    obtain op where op: "send_ops s a = Some op" using wf_opD(2) [OF w, of a] Some by auto
    obtain s1 where s1: "call_response os (so_callback op) BT_ATT_OP_ERROR_RSP [] (so_user_data op) s = Some s1" "wf_att F s1" "keeps F s s1"
      using goodD [OF call_response_good w] by blast
    have p: "pending_ind s1 = Some a" using s1(3) Some by (simp add: keeps_def)
    obtain s2 where s2: "destroy_att_send_op os a s1 = Some s2" "wf_att F (s2\<lparr>pending_ind := None\<rparr>)"
      using destroy_pending_ind_good [OF s1(2) p] by blast
    have "alive s2 = Some s2" using s2(2) by (simp add: alive_def wf_att_def)
    then show ?thesis using Some op s1 s2 by (simp add: disc_pending_def disc_att_send_op_def)
  qed
qed

lemma foreach_disconn_good:
  "wf_att F s \<Longrightarrow> disconn_list s = pre @ post \<Longrightarrow>
   \<exists>s'. foreach_disconn os err (first_entry post) s = Some s' \<and> wf_att F s' \<and> keeps F s s'"
proof (induction post arbitrary: pre s)
  case Nil
  then show ?case by (subst foreach_disconn.simps) (simp add: first_entry_def)
next
  case (Cons a post)
  note w = Cons.prems(1) and l = Cons.prems(2)
  have di: "distinct (pre @ a # post)" using wf_distinct(5) [OF w] l by simp
  then have nx: "next_entry a (disconn_list s) = Some (first_entry post)" unfolding l by (intro next_entry_mid) simp
  obtain d where d: "disconns s a = Some d" using wf_disconnD [OF w, of a] l by auto
  obtain s1 where s1: "disconn_handler os err a s = Some s1" "wf_att F s1" "keeps F s s1"
      "steady (disconn_list s) a (disconn_list s1)"
  proof (cases "ad_removed d \<or> ad_callback d = None")
    case True
    then show ?thesis using that [of s] w d by (auto simp: disconn_handler_def steady_def)
  next
    case False
    then obtain f where f: "ad_callback d = Some f" by auto
    let ?s = "log_att (Disconnected f err (ad_user_data d)) s"
    have "wf_att F ?s" "disconns ?s a = Some d" "a \<in> set (disconn_list ?s)" using w d l by (simp_all add: wf_simps, simp_all add: log_att_def)
    from disconnect_good [OF this f refl, of err] show ?thesis
      using that False f d by (auto simp: disconn_handler_def wf_simps) (auto simp: log_att_def)
  qed
  show ?case
  proof (cases "disconn_list s1 = []")
    case True
    have "foreach_disconn os err (first_entry post) s1 = Some s1"
      using True by (subst foreach_disconn.simps) (simp split: option.splits)
    then show ?thesis using nx l s1 by (subst foreach_disconn.simps) (simp add: first_entry_def)
  next
    case False
    have "disconn_list s1 = (pre @ [a]) @ post \<or> disconn_list s1 = pre @ post"
      using s1(4) False l di by (auto simp: steady_def remove1_append)
    then obtain pre1 where "disconn_list s1 = pre1 @ post" by blast
    from Cons.IH [OF s1(2) this] show ?thesis
      using nx l s1 by (subst foreach_disconn.simps) (auto simp: first_entry_def intro: keeps_trans)
  qed
qed

lemma disconnect_good_all:
  assumes w: "wf_att F s"
  shows "\<exists>s'. disconnect_cb os err s = Some s' \<and> wf_att F s'"
proof -
  let ?s0 = "(io_destroy s)\<lparr>has_io := False\<rparr>"
  have w0: "wf_att F ?s0" using w by (simp add: wf_simps io_destroy_def write_watch_destroy_def)
  from empty_good(4) [OF w0] obtain s1 where
    s1: "each (disc_att_send_op os) (req_queue ?s0) (?s0\<lparr>req_queue := []\<rparr>) = Some s1" "wf_att F s1" by blast
  from empty_good(5) [OF s1(2)] obtain s2 where
    s2: "each (disc_att_send_op os) (ind_queue s1) (s1\<lparr>ind_queue := []\<rparr>) = Some s2" "wf_att F s2" by blast
  from empty_good(6) [OF s2(2)] obtain s3 where
    s3: "each (disc_att_send_op os) (write_queue s2) (s2\<lparr>write_queue := []\<rparr>) = Some s3" "wf_att F s3" by blast
  obtain s4 where s4: "disc_pending os (pending_req s3) s3 = Some s4" "alive s4 = Some s4" "wf_att F (s4\<lparr>pending_req := None\<rparr>)"
    using disc_pending_good(1) [OF s3(2)] by blast
  let ?s4 = "s4\<lparr>pending_req := None\<rparr>"
  obtain s5 where s5: "disc_pending os (pending_ind ?s4) ?s4 = Some s5" "alive s5 = Some s5" "wf_att F (s5\<lparr>pending_ind := None\<rparr>)"
    using disc_pending_good(2) [OF s4(3)] by blast
  let ?s5 = "bt_att_ref (s5\<lparr>pending_ind := None\<rparr>)"
  have w5: "wf_att F ?s5" "1 < att_ref_count ?s5" using wf_ref_two [OF s5(3)] by auto
  obtain s6 where s6: "foreach_disconn os err (first_entry (disconn_list ?s5)) ?s5 = Some s6" "wf_att F s6" "keeps F ?s5 s6"
    using foreach_disconn_good [OF w5(1), of "[]" "disconn_list ?s5" err] by auto
  obtain s7 where s7: "bt_att_unregister_all os s6 = Some s7" "wf_att F s7" "keeps F s6 s7"
    using goodD [OF unregister_all_good s6(2)] by blast
  have "1 < att_ref_count s7" using w5(2) s6(3) s7(3) by (simp add: keeps_def)
  from unref_more [OF s7(2) this, of os] obtain s8 where s8: "bt_att_unref os s7 = Some s8" "wf_att F s8" by blast
  have "disconnect_cb os err s = Some s8"
    unfolding disconnect_cb_def Let_def using s1 s2 s3 s4(1,2) s5(1,2) s6(1) s7 s8(1)
    by simp
  with s8(2) show ?thesis by blast
qed

lemma unregister_good:
  assumes w: "wf_att F s"
  shows "\<exists>r s'. bt_att_unregister os ident s = Some (r, s') \<and> wf_att F s' \<and> keeps F s s'"
proof (cases "ident = 0")
  case False
  have "\<forall>a\<in>set (notify_list s). notifies s a \<noteq> None" using wf_notifyD [OF w] by blast
  from find_addr_allocated [OF this, of "\<lambda>n. an_id n = ident"] obtain r where
    r: "find_addr (\<lambda>n. an_id n = ident) (notifies s) (notify_list s) = Some r"
      "\<And>a. r = Some a \<Longrightarrow> a \<in> set (notify_list s) \<and> notifies s a \<noteq> None" by force
  show ?thesis
  proof (cases r)
    case None
    then show ?thesis using w r by (auto simp: bt_att_unregister_def)
  next
    case (Some a)
    have a: "a \<in> set (notify_list s)" "notifies s a \<noteq> None" "a \<notin> F" using r(2) [OF Some] wf_notifyD [OF w, of a] by auto
    have "wf_att (set [a] \<union> F) (s\<lparr>notify_list := remove1 a (notify_list s)\<rparr>)"
      by (rule wf_take_notify [OF w]) (use a in simp)
    then have "wf_att (insert a F) (s\<lparr>notify_list := remove1 a (notify_list s)\<rparr>)" by simp
    from destroy_notify_good [OF this _ a(3)] a(2) show ?thesis
      using False r(1) Some by (auto simp: bt_att_unregister_def wf_simps)
  qed
qed (use w in \<open>auto simp: bt_att_unregister_def\<close>)

lemma unregister_disconnect_good:
  assumes w: "wf_att F s"
  shows "\<exists>r s'. bt_att_unregister_disconnect os ident s = Some (r, s') \<and> wf_att F s' \<and> keeps F s s'"
proof (cases "ident = 0")
  case False
  have "\<forall>a\<in>set (disconn_list s). disconns s a \<noteq> None" using wf_disconnD [OF w] by blast
  from find_addr_allocated [OF this, of "\<lambda>n. ad_id n = ident"] obtain r where
    r: "find_addr (\<lambda>n. ad_id n = ident) (disconns s) (disconn_list s) = Some r"
      "\<And>a. r = Some a \<Longrightarrow> a \<in> set (disconn_list s) \<and> disconns s a \<noteq> None" by force
  show ?thesis
  proof (cases r)
    case None
    then show ?thesis using w r by (auto simp: bt_att_unregister_disconnect_def)
  next
    case (Some a)
    have a: "a \<in> set (disconn_list s)" "disconns s a \<noteq> None" "a \<notin> F" using r(2) [OF Some] wf_disconnD [OF w, of a] by auto
    have "wf_att (set [a] \<union> F) (s\<lparr>disconn_list := remove1 a (disconn_list s)\<rparr>)"
      by (rule wf_take_disconn [OF w]) (use a in simp)
    then have "wf_att (insert a F) (s\<lparr>disconn_list := remove1 a (disconn_list s)\<rparr>)" by simp
    from destroy_disconn_good [OF this _ a(3)] a(2) show ?thesis
      using False r(1) Some by (auto simp: bt_att_unregister_disconnect_def wf_simps)
  qed
qed (use w in \<open>auto simp: bt_att_unregister_disconnect_def\<close>)

end

end
