(* ===== verification/Att_App.thy ===== *)
theory Att_App
  imports Bt_Att "HOL-Library.Sublist"
begin

text \<open>
  Applications on the transport of \<open>Bt_Att\<close>: what a function of the application may do when the transport calls it, what
  can happen to a transport from outside, and the properties of every such sequence of actions. The contract that the
  transport relies on is the locale \<open>att_client\<close>; \<open>calm_client\<close> is a simpler one that gives it, and the functions that make
  any calls of the transport's sending and cancelling functions, from inside each other too, meet it.
\<close>

section \<open>An application on the transport\<close>

text \<open>What a function of the application may do while the transport calls it. A buffer that is passed in has the length
  that is passed with it, and is short enough for 16 bits (\<open>usable\<close>).\<close>

datatype att_call =
    Call_Send u8 "u8 list" "fid option" ptr "fid option"
  | Call_Cancel u32
  | Call_Cancel_All
  | Call_Ref
  | Call_Set_Mtu u16

definition usable :: "u8 list \<Rightarrow> u8 list" where
  "usable bytes = take 65000 bytes"

primrec do_call :: "'z att_os \<Rightarrow> att_call \<Rightarrow> 'z bt_att_scheme \<Rightarrow> 'z bt_att_scheme option" where
  "do_call os (Call_Send opcode bytes callback ud destroy) s = map_option snd
     (bt_att_send os opcode (Some (usable bytes)) (of_nat (length (usable bytes))) callback ud destroy s)"
| "do_call os (Call_Cancel ident) s = map_option snd (bt_att_cancel os ident s)"
| "do_call os Call_Cancel_All s = bt_att_cancel_all os s"
| "do_call os Call_Ref s = Some (bt_att_ref s)"
| "do_call os (Call_Set_Mtu mtu) s = Some (snd (bt_att_set_mtu os mtu s))"

primrec do_calls :: "'z att_os \<Rightarrow> att_call list \<Rightarrow> 'z bt_att_scheme \<Rightarrow> 'z bt_att_scheme option" where
  "do_calls os [] s = Some s"
| "do_calls os (c # cs) s = do { s \<leftarrow> do_call os c s; do_calls os cs s }"

text \<open>The surroundings in which function \<open>f\<close> of the application makes the calls \<open>prog f\<close>. The calls may run functions of
  the application again (\<open>bt_att_cancel\<close> runs a destroy function); \<open>n\<close> bounds that nesting, not the number of calls.\<close>

definition set_functions :: "(fid \<Rightarrow> 'z bt_att_scheme \<Rightarrow> 'z bt_att_scheme option) \<Rightarrow> 'z att_os \<Rightarrow> 'z att_os" where
  "set_functions r os = os\<lparr>run_response := \<lambda>f _ _ _. r f, run_notify := \<lambda>f _ _ _. r f, run_destroy := \<lambda>f _. r f,
     run_disconnect := \<lambda>f _ _. r f, run_timeout := \<lambda>f _ _ _. r f\<rparr>"

primrec scripted :: "(fid \<Rightarrow> att_call list) \<Rightarrow> nat \<Rightarrow> 'z att_os \<Rightarrow> 'z att_os" where
  "scripted prog 0 os = set_functions (\<lambda>f s. Some s) os"
| "scripted prog (Suc n) os = set_functions (\<lambda>f. do_calls (scripted prog n os) (prog f)) os"

text \<open>What happens to a transport from outside: calls of its functions, and the events of the main loop. \<open>Release\<close>
  drops a reference that is not the last.\<close>

datatype att_act =
    Call att_call
  | Add_Handler u8 "fid option" ptr "fid option"
  | Drop_Handler u32
  | Add_Disconnect "fid option" ptr "fid option"
  | Drop_Disconnect u32
  | Drop_Handlers
  | Set_Timeout_Fn "fid option" ptr "fid option"
  | Set_Local_Key "u8 list" fid ptr
  | Set_Remote_Key "u8 list" fid ptr
  | Set_Security int
  | Send_Error u8 u16 int
  | Release
  | Writable int
  | Readable "u8 list option"
  | Timer nat
  | Disconnect i32

primrec do_act :: "'z att_os \<Rightarrow> att_act \<Rightarrow> 'z bt_att_scheme \<Rightarrow> 'z bt_att_scheme option" where
  "do_act os (Call c) s = do_call os c s"
| "do_act os (Add_Handler opcode callback ud destroy) s = Some (snd (bt_att_register opcode callback ud destroy s))"
| "do_act os (Drop_Handler ident) s = map_option snd (bt_att_unregister os ident s)"
| "do_act os (Add_Disconnect callback ud destroy) s = Some (snd (bt_att_register_disconnect callback ud destroy s))"
| "do_act os (Drop_Disconnect ident) s = map_option snd (bt_att_unregister_disconnect os ident s)"
| "do_act os Drop_Handlers s = bt_att_unregister_all os s"
| "do_act os (Set_Timeout_Fn callback ud destroy) s = bt_att_set_timeout_cb os callback ud destroy s"
| "do_act os (Set_Local_Key key func ud) s = Some (bt_att_set_local_key key func ud s)"
| "do_act os (Set_Remote_Key key func ud) s = Some (bt_att_set_remote_key key func ud s)"
| "do_act os (Set_Security level) s = Some (snd (bt_att_set_security os level s))"
| "do_act os (Send_Error opcode handle error) s = map_option snd (bt_att_send_error_rsp os opcode handle error s)"
| "do_act os Release s = (if 1 < att_ref_count s then bt_att_unref os s else Some s)"
| "do_act os (Writable ret) s = writable os ret s"
| "do_act os (Readable bytes) s = map_option snd (can_read_data os bytes s)"
| "do_act os (Timer src) s = fire_timer os src s"
| "do_act os (Disconnect err) s = (if has_io s then disconnect_cb os err s else Some s)"

primrec do_acts :: "'z att_os \<Rightarrow> att_act list \<Rightarrow> 'z bt_att_scheme \<Rightarrow> 'z bt_att_scheme option" where
  "do_acts os [] s = Some s"
| "do_acts os (a # as) s = do { s \<leftarrow> do_act os a s; do_acts os as s }"

section \<open>No action leaves the well-formed states\<close>

lemma usable_fits: "pdu_fits (Some (usable bytes)) (of_nat (length (usable bytes)))"
  by (simp add: pdu_fits_def usable_def unat_of_nat)

lemma wf_timeout_fn [wf_simps]:
  "wf_att F (s\<lparr>timeout_callback := f, timeout_destroy := g, timeout_data := d\<rparr>) = wf_att F s"
  by (simp add: wf_att_def)

lemma wf_mtu [wf_simps]: "wf_att F (s\<lparr>att_mtu := m\<rparr>) = wf_att F s" "keeps F s (s\<lparr>att_mtu := m\<rparr>)"
  by (simp_all add: wf_att_def keeps_def)

lemma wf_set_mtu [wf_simps]: "wf_att F (snd (bt_att_set_mtu os mtu s)) = wf_att F s" "keeps F s (snd (bt_att_set_mtu os mtu s))"
  by (simp_all add: bt_att_set_mtu_def wf_mtu)

lemma wf_security [wf_simps]: "wf_att F (s\<lparr>io_sec_level := l\<rparr>) = wf_att F s"
  by (simp add: wf_att_def)

lemma wf_set_security [wf_simps]: "wf_att F (snd (bt_att_set_security os level s)) = wf_att F s"
  by (simp add: bt_att_set_security_def wf_security)

lemma wf_keys [wf_simps]:
  "wf_att F (bt_att_set_local_key key h d s) = wf_att F s" "wf_att F (bt_att_set_remote_key key h d s) = wf_att F s"
  by (simp_all add: wf_att_def bt_att_set_local_key_def bt_att_set_remote_key_def)

lemma goodI: "(\<And>F s. wf_att F s \<Longrightarrow> \<exists>s'. f s = Some s' \<and> wf_att F s' \<and> keeps F s s') \<Longrightarrow> good f"
  by (simp add: good_def)

lemma good_skip: "good Some"
  by (simp add: good_def)

context att_client begin

lemma att_call_good: "good (do_call os c)"
proof (rule goodI)
  fix F and s :: "'z bt_att_scheme"
  assume w: "wf_att F s"
  show "\<exists>s'. do_call os c s = Some s' \<and> wf_att F s' \<and> keeps F s s'"
  proof (cases c)
    case (Call_Send opcode bytes callback ud destroy)
    then show ?thesis using send_good [OF w usable_fits [of bytes], where os = os and opcode = opcode and callback = callback and ud = ud and destroy = destroy] by auto
  next
    case (Call_Cancel ident)
    then show ?thesis using cancel_good [OF w, of ident] by auto
  next
    case Call_Cancel_All
    then show ?thesis using goodD [OF cancel_all_good w] by auto
  next
    case Call_Ref
    then show ?thesis using w by (auto simp: wf_simps) (simp add: keeps_def bt_att_ref_def)
  next
    case (Call_Set_Mtu m)
    then show ?thesis using w by (simp add: wf_simps)
  qed
qed

lemma do_calls_good: "good (do_calls os cs)"
proof (induction cs)
  case (Cons c cs)
  show ?case
  proof (rule goodI)
    fix F and s :: "'z bt_att_scheme"
    assume "wf_att F s"
    then obtain s1 where "do_call os c s = Some s1" "wf_att F s1" "keeps F s s1" using goodD [OF att_call_good] by blast
    moreover then obtain s2 where "do_calls os cs s1 = Some s2" "wf_att F s2" "keeps F s1 s2" using goodD [OF Cons] by blast
    ultimately show "\<exists>s'. do_calls os (c # cs) s = Some s' \<and> wf_att F s' \<and> keeps F s s'"
      using keeps_trans by fastforce
  qed
qed (simp add: good_def)

lemma att_act_good:
  assumes w: "wf_att F s"
  shows "\<exists>s'. do_act os a s = Some s' \<and> wf_att F s'"
proof (cases a)
  case (Call c)
  then show ?thesis using goodD [OF att_call_good w, of c] by auto
next
  case (Add_Handler opcode callback ud destroy)
  then show ?thesis using register_good [OF w, of opcode callback ud destroy] by auto
next
  case (Drop_Handler ident)
  then show ?thesis using unregister_good [OF w, of ident] by auto
next
  case (Add_Disconnect callback ud destroy)
  then show ?thesis using register_disconnect_good [OF w, of callback ud destroy] by auto
next
  case (Drop_Disconnect ident)
  then show ?thesis using unregister_disconnect_good [OF w, of ident] by auto
next
  case Drop_Handlers
  then show ?thesis using goodD [OF unregister_all_good w] by auto
next
  case (Set_Timeout_Fn callback ud destroy)
  obtain s1 where "call_destroy_fn os (timeout_destroy s) (timeout_data s) s = Some s1" "wf_att F s1"
    using goodD [OF call_destroy_good w] by blast
  then show ?thesis using Set_Timeout_Fn by (simp add: bt_att_set_timeout_cb_def wf_simps)
next
  case (Send_Error opcode handle error)
  have "pdu_fits (Some ([opcode] @ le16 handle @ [att_ecode_from_error error])) 4" by (simp add: pdu_fits_def le16_def)
  from send_good [OF w this, where os = os and opcode = BT_ATT_OP_ERROR_RSP and callback = None and ud = None and destroy = None] show ?thesis
    using Send_Error w by (auto simp: bt_att_send_error_rsp_def)
next
  case Release
  then show ?thesis using unref_more [OF w, of os] w by auto
next
  case (Writable ret)
  then show ?thesis using writable_good [OF w, of ret] by auto
next
  case (Readable bytes)
  then show ?thesis using can_read_good [OF w, of bytes] by auto
next
  case (Timer src)
  then show ?thesis using fire_timer_good [OF w, of src] by auto
next
  case (Disconnect err)
  then show ?thesis using disconnect_good_all [OF w, of err] w by auto
qed (use w in \<open>simp_all add: wf_simps\<close>)

lemma do_acts_good: "wf_att F s \<Longrightarrow> \<exists>s'. do_acts os as s = Some s' \<and> wf_att F s'"
proof (induction as arbitrary: s)
  case (Cons a as)
  from att_act_good [OF Cons.prems] obtain s1 where "do_act os a s = Some s1" "wf_att F s1" by blast
  with Cons.IH [of s1] show ?case by simp
qed simp

end

lemma new_wf: "bt_att_new sk fd ext_signed z = Some s \<Longrightarrow> wf_att {} s"
  by (auto simp: bt_att_new_def Let_def bt_att_ref_def wf_att_def ops_wf_def places_def typed_def heaps_wf_def split: if_splits)

section \<open>Functions that send and cancel meet the contract\<close>

definition leaves_handlers :: "('z bt_att_scheme \<Rightarrow> 'z bt_att_scheme option) \<Rightarrow> bool" where
  "leaves_handlers f \<longleftrightarrow> (\<forall>s s'. f s = Some s' \<longrightarrow> notify_list s' = notify_list s \<and> disconn_list s' = disconn_list s)"

lemma leavesD: "leaves_handlers f \<Longrightarrow> f s = Some s' \<Longrightarrow> notify_list s' = notify_list s \<and> disconn_list s' = disconn_list s"
  by (simp add: leaves_handlers_def)

text \<open>A function of the application that leaves the handlers alone: the laws of \<open>att_client\<close> about the lists of handlers
  follow.\<close>

locale calm_client =
  fixes os :: "'z att_os"
  assumes calm_response: "good (run_response os f opcode pdu ud)" "leaves_handlers (run_response os f opcode pdu ud)"
    and calm_notify: "good (run_notify os f opcode pdu ud)" "leaves_handlers (run_notify os f opcode pdu ud)"
    and calm_destroy: "good (run_destroy os f ud)" "leaves_handlers (run_destroy os f ud)"
    and calm_disconnect: "good (run_disconnect os f err ud)" "leaves_handlers (run_disconnect os f err ud)"
    and calm_timeout: "good (run_timeout os f ident opcode ud)" "leaves_handlers (run_timeout os f ident opcode ud)"
begin

lemma call_destroy_leaves: "leaves_handlers (call_destroy_fn os fn ud)"
  using leavesD [OF calm_destroy(2)]
  by (fastforce simp: leaves_handlers_def call_destroy_fn_def log_att_def split: option.splits)

lemma destroy_op_leaves: "leaves_handlers (destroy_att_send_op os a)"
  using leavesD [OF call_destroy_leaves]
  by (fastforce simp: leaves_handlers_def destroy_att_send_op_def free_send_op_def timeout_remove_def Let_def bind_eq_Some_conv)

lemma cancel_op_leaves: "leaves_handlers (cancel_att_send_op os a)"
  using leavesD [OF call_destroy_leaves]
  by (fastforce simp: leaves_handlers_def cancel_att_send_op_def bind_eq_Some_conv)

lemma cancel_pending_leaves: "leaves_handlers (cancel_pending os p)"
  using leavesD [OF cancel_op_leaves]
  by (fastforce simp: leaves_handlers_def cancel_pending_def alive_def bind_eq_Some_conv split: option.splits if_splits)

lemma each_destroy_leaves: "leaves_handlers (each (destroy_att_send_op os) as)"
proof (induction as)
  case (Cons a as)
  show ?case
    unfolding leaves_handlers_def
  proof (intro allI impI)
    fix s s' assume "each (destroy_att_send_op os) (a # as) s = Some s'"
    then obtain s1 where "destroy_att_send_op os a s = Some s1" "each (destroy_att_send_op os) as s1 = Some s'"
      by (auto simp: bind_eq_Some_conv)
    then show "notify_list s' = notify_list s \<and> disconn_list s' = disconn_list s"
      using leavesD [OF destroy_op_leaves] leavesD [OF Cons.IH] by metis
  qed
qed (simp add: leaves_handlers_def)

lemma cancel_all_leaves: "leaves_handlers (bt_att_cancel_all os)"
  unfolding leaves_handlers_def
proof (intro allI impI)
  fix s s' assume "bt_att_cancel_all os s = Some s'"
  then obtain s1 s2 s3 s4 where
    "each (destroy_att_send_op os) (req_queue s) (s\<lparr>req_queue := []\<rparr>) = Some s1"
    "each (destroy_att_send_op os) (ind_queue s1) (s1\<lparr>ind_queue := []\<rparr>) = Some s2"
    "each (destroy_att_send_op os) (write_queue s2) (s2\<lparr>write_queue := []\<rparr>) = Some s3"
    "cancel_pending os (pending_req s3) s3 = Some s4" "cancel_pending os (pending_ind s4) s4 = Some s'"
    by (auto simp: bt_att_cancel_all_def bind_eq_Some_conv alive_def split: if_splits)
  then show "notify_list s' = notify_list s \<and> disconn_list s' = disconn_list s"
    using leavesD [OF each_destroy_leaves, of "req_queue s" "s\<lparr>req_queue := []\<rparr>"]
      leavesD [OF each_destroy_leaves, of "ind_queue s1" "s1\<lparr>ind_queue := []\<rparr>"]
      leavesD [OF each_destroy_leaves, of "write_queue s2" "s2\<lparr>write_queue := []\<rparr>"]
      leavesD [OF cancel_pending_leaves] by simp
qed

lemma wakeup_leaves: "notify_list (wakeup_writer os s) = notify_list s" "disconn_list (wakeup_writer os s) = disconn_list s"
  by (simp_all add: wakeup_writer_def)

lemma take_queued_leaves:
  "take_queued ident s = Some (p, s') \<Longrightarrow> notify_list s' = notify_list s \<and> disconn_list s' = disconn_list s"
  by (auto simp: take_queued_def bind_eq_Some_conv split: option.splits)

lemma cancel_leaves: "bt_att_cancel os ident s = Some (r, s') \<Longrightarrow> notify_list s' = notify_list s \<and> disconn_list s' = disconn_list s"
  using leavesD [OF cancel_op_leaves] leavesD [OF destroy_op_leaves]
  by (auto simp: bt_att_cancel_def bind_eq_Some_conv alive_def wakeup_leaves dest!: take_queued_leaves split: if_splits option.splits)

lemma enqueue_leaves: "notify_list (enqueue_op a t s) = notify_list s" "disconn_list (enqueue_op a t s) = disconn_list s"
  by (cases t; simp add: enqueue_op_def)+

lemma send_leaves:
  "bt_att_send os opcode pdu len callback ud destroy s = Some (r, s') \<Longrightarrow> notify_list s' = notify_list s \<and> disconn_list s' = disconn_list s"
  by (auto simp: bt_att_send_def bind_eq_Some_conv Let_def wakeup_leaves enqueue_leaves split: if_splits option.splits)

lemma do_call_leaves: "leaves_handlers (do_call os c)"
  unfolding leaves_handlers_def
  using send_leaves cancel_leaves leavesD [OF cancel_all_leaves]
  by (cases c) (auto simp: bt_att_ref_def bt_att_set_mtu_def)

lemma do_calls_leaves: "leaves_handlers (do_calls os cs)"
proof (induction cs)
  case (Cons c cs)
  then show ?case using leavesD [OF do_call_leaves] leavesD [OF Cons.IH]
    unfolding leaves_handlers_def by (auto simp: bind_eq_Some_conv)
qed (simp add: leaves_handlers_def)

end

sublocale calm_client \<subseteq> att_client os
proof (unfold_locales, goal_cases)
  case (4 F s a n f ud opcode pdu)
  then show ?case using goodD [OF calm_notify(1) 4(1), of f opcode pdu ud] leavesD [OF calm_notify(2), of f opcode pdu ud s]
    by (auto simp: steady_def)
next
  case (5 F s a d f ud err)
  then show ?case using goodD [OF calm_disconnect(1) 5(1), of f err ud] leavesD [OF calm_disconnect(2), of f err ud s]
    by (auto simp: steady_def)
qed (rule calm_response calm_destroy calm_timeout)+

context calm_client begin

lemma do_calls_calm: "good (do_calls os cs)" "leaves_handlers (do_calls os cs)"
  by (rule do_calls_good do_calls_leaves)+

end

lemma set_functions_simps [simp]:
  "run_response (set_functions r os) f opcode pdu ud = r f" "run_notify (set_functions r os) f opcode pdu ud = r f"
  "run_destroy (set_functions r os) f ud = r f" "run_disconnect (set_functions r os) f err ud = r f"
  "run_timeout (set_functions r os) f ident opcode ud = r f"
  by (simp_all add: set_functions_def)

lemma scripted_calm: "calm_client (scripted prog n os)"
proof (induction n)
  case 0
  show ?case by unfold_locales (simp_all add: good_def leaves_handlers_def)
next
  case (Suc n)
  have "good (do_calls (scripted prog n os) cs)" "leaves_handlers (do_calls (scripted prog n os) cs)" for cs
    by (rule calm_client.do_calls_calm [OF Suc])+
  then show ?case by unfold_locales simp_all
qed


interpretation scripted_calm: calm_client "scripted prog n os" for prog n os
  by (rule scripted_calm)


definition plain_os :: "'z att_os" where
  "plain_os = \<lparr>run_response = \<lambda>_ _ _ _ s. Some s, run_notify = \<lambda>_ _ _ _ s. Some s, run_destroy = \<lambda>_ _ s. Some s,
     run_disconnect = \<lambda>_ _ _ s. Some s, run_timeout = \<lambda>_ _ _ _ s. Some s, counter = \<lambda>_ _ c. Some c,
     sign_att = \<lambda>_ m _. Some (replicate 12 (of_nat (length m))), alloc_ok = True, watch_ok = True, fresh = (\<lambda>_. 0),
     get_sec_level = Some 1, set_sec_ok = True\<rparr>"

definition le_socket :: att_socket where
  "le_socket = \<lparr>io_new_ok = True, read_handler_ok = True, disconnect_handler_ok = True, buffer_ok = True,
     sk_domain = Some AF_BLUETOOTH, sk_proto = Some BTPROTO_L2CAP, sk_bdaddr_type = Some 1, sk_errno = 0, sk_omtu = None,
     crypto_new_ok = True\<rparr>"

definition le_att :: "unit bt_att_scheme" where
  "le_att = the (bt_att_new le_socket 3 False ())"

lemma le_att_new: "bt_att_new le_socket 3 False () = Some le_att"
  and le_att_eq: "le_att = \<lparr>att_ref_count = 1, freed = False, has_io = True, io_on_l2cap = True, io_sec_level = 0, req_queue = [],
     pending_req = None, ind_queue = [], pending_ind = None, write_queue = [], writer_active = False, notify_list = [],
     disconn_list = [], in_req = False, att_mtu = 23, next_send_id = 0, next_reg_id = 0, timeout_callback = None,
     timeout_destroy = None, timeout_data = None, has_crypto = True, local_sign = None, remote_sign = None,
     send_ops = Map.empty, notifies = Map.empty, disconns = Map.empty, next_addr = 0, timers = [], next_timer = 1, att_log = []\<rparr>"
  by (simp_all add: le_att_def bt_att_new_def le_socket_def Let_def bt_att_get_link_type_def is_io_l2cap_based_def bt_att_ref_def
      AF_BLUETOOTH_def BTPROTO_L2CAP_def BDADDR_BREDR_def BT_ATT_LINK_BREDR_def BT_ATT_LINK_LE_def BT_ATT_DEFAULT_LE_MTU_def)


text \<open>Functions that do nothing more to the transport.\<close>

definition inert :: "'z att_os \<Rightarrow> bool" where
  "inert os \<longleftrightarrow> (\<forall>f opcode pdu ud s. run_response os f opcode pdu ud s = Some s) \<and> (\<forall>f ud s. run_destroy os f ud s = Some s)"

lemma req_unsigned: "get_op_type opcode = ATT_OP_TYPE_REQ \<Longrightarrow> opcode AND ATT_OP_SIGNED_MASK = 0"
  by (auto simp: get_op_type_def att_opcode_type_table_def bt_att_ops ATT_OP_SIGNED_MASK_def split: if_splits)

lemma encode_request:
  assumes "get_op_type opcode = ATT_OP_TYPE_REQ" "1 + length bytes \<le> unat (att_mtu s)" "alloc_ok os"
  shows "encode_pdu os s opcode (Some bytes) (of_nat (length bytes)) = Some (Inr (opcode # bytes))"
proof -
  have "unat (att_mtu s) < 2 ^ 16" using unsigned_less [of "att_mtu s"] by (rule order_less_le_trans) simp
  then have n: "length bytes < 65535" using assms(2) by simp
  then have l: "unat (of_nat (length bytes) :: u16) = length bytes" by (simp add: unat_of_nat)
  have l1: "unat (1 + of_nat (length bytes) :: u16) = 1 + length bytes" using n unat_small [of "1 + length bytes"] by simp
  show ?thesis
    using assms req_unsigned [OF assms(1)] n l l1
    by (auto simp: encode_pdu_def Let_def word_less_nat_alt split: option.splits)
qed

text \<open>C19: A request on a transport that has nothing to send or wait for: it is written once as its opcode and its parameters,
  the matching response is given to its function with the user data, its user data is destroyed once, and afterwards the
  operation and its time-out are gone and the next request can be sent.\<close>

theorem request_round_trip:
  assumes w: "wf_att {} s" and os: "inert os" "alloc_ok os" "watch_ok os"
    and idle: "has_io s" "req_queue s = []" "pending_req s = None" "ind_queue s = []" "write_queue s = []"
    and timers: "0 < next_timer s" "\<forall>t\<in>set (timers s). fst t < next_timer s"
    and op: "get_op_type opcode = ATT_OP_TYPE_REQ" "1 + length bytes \<le> unat (att_mtu s)" "1 + length bytes \<le> 65000"
    and rsp: "get_op_type rsp = ATT_OP_TYPE_RSP" "rsp \<noteq> BT_ATT_OP_ERROR_RSP" "get_req_opcode rsp = opcode"
  shows "\<exists>s'. do_acts os [Call (Call_Send opcode bytes (Some f) ud (Some g)), Writable (1 + int (length bytes)),
       Readable (Some (rsp # pdu))] s = Some s'
     \<and> att_log s' = att_log s @ [Wrote (opcode # bytes), Response f rsp pdu ud, Destroyed g ud]
     \<and> send_ops s' = send_ops s \<and> timers s' = timers s \<and> req_queue s' = [] \<and> pending_req s' = None"
proof -
  let ?a = "next_addr s" and ?i = "if next_send_id s < 1 then 1 else next_send_id s"
  have b: "usable bytes = bytes" using op(3) by (simp add: usable_def)
  have opn: "opcode \<noteq> 0" using op(1) by (auto simp: get_op_type_def att_opcode_type_table_def bt_att_ops)
  have fresh_addr: "send_ops s ?a = None" using wf_fresh_addr(1) [OF w] by (simp add: domIff)
  have inert: "run_response os f oc p u s' = Some s'" "run_destroy os f u s' = Some s'" for f oc p u s'
    using os(1) by (simp_all add: inert_def)
  let ?op = "\<lparr>so_id = ?i, so_timeout_id = 0, so_type = ATT_OP_TYPE_REQ, so_opcode = opcode, so_pdu = opcode # bytes,
      so_callback = Some f, so_destroy = Some g, so_user_data = ud\<rparr>"
  let ?s1 = "s\<lparr>next_send_id := ?i + 1, send_ops := (send_ops s)(?a \<mapsto> ?op), next_addr := ?a + 1, req_queue := [?a], writer_active := True\<rparr>"
  have "bt_att_send os opcode (Some bytes) (of_nat (length bytes)) (Some f) ud (Some g) s = Some (?i, ?s1)"
    using idle op(1) os(2,3)
    by (simp add: bt_att_send_def create_att_send_op_def encode_request [OF op(1,2) os(2)] enqueue_op_def wakeup_writer_def Let_def)
  then have s1: "do_act os (Call (Call_Send opcode bytes (Some f) ud (Some g))) s = Some ?s1" by (simp add: b)
  let ?s2 = "?s1\<lparr>req_queue := [], att_log := att_log s @ [Wrote (opcode # bytes)], pending_req := Some ?a,
      timers := timers s @ [(next_timer s, ?i)], next_timer := next_timer s + 1,
      send_ops := (send_ops s)(?a \<mapsto> ?op\<lparr>so_timeout_id := next_timer s\<rparr>)\<rparr>"
  have "can_write_data os (1 + int (length bytes)) ?s1 = Some (True, ?s2)"
    using idle by (simp add: can_write_data_def pick_next_send_op_def log_att_def Let_def nat_add_distrib)
  then have s2: "do_act os (Writable (1 + int (length bytes))) ?s1 = Some ?s2" by (simp add: writable_def)
  have left_timers: "filter (\<lambda>t. fst t \<noteq> next_timer s) (timers s) = timers s" using timers(2) by (auto intro!: filter_True)
  let ?r = "bt_att_ref ?s2"
  obtain s3 where s3: "handle_rsp os rsp pdu ?r = Some s3" "att_log s3 = att_log s @ [Wrote (opcode # bytes), Response f rsp pdu ud, Destroyed g ud]"
    "send_ops s3 = send_ops s" "timers s3 = timers s" "req_queue s3 = []" "pending_req s3 = None" "att_ref_count s3 = att_ref_count s + 1" "\<not> freed s3"
    using rsp opn idle timers(1) fresh_addr left_timers wf_not_freed [OF w]
    by (auto simp: handle_rsp_def end_request_def Let_def bt_att_ref_def inert call_response_def call_destroy_fn_def log_att_def
        destroy_att_send_op_def free_send_op_def timeout_remove_def alive_def wakeup_writer_def fun_upd_idem)
  have "0 < att_ref_count s" using w by (simp add: wf_att_def)
  then have "bt_att_unref os s3 = Some (s3\<lparr>att_ref_count := att_ref_count s\<rparr>)"
    using s3 by (simp add: bt_att_unref_def alive_def)
  with s3(1) rsp(1) have s4: "do_act os (Readable (Some (rsp # pdu))) ?s2 = Some (s3\<lparr>att_ref_count := att_ref_count s\<rparr>)"
    by (simp add: can_read_data_def Let_def)
  have "do_acts os [Call (Call_Send opcode bytes (Some f) ud (Some g)), Writable (1 + int (length bytes)),
       Readable (Some (rsp # pdu))] s = Some (s3\<lparr>att_ref_count := att_ref_count s\<rparr>)"
    by (simp only: do_acts.simps s1 s2 s4 Option.bind.simps)
  with s3 show ?thesis by simp
qed


lemma request_round_trip_witness:
  "\<exists>s'. do_acts plain_os [Call (Call_Send 0x0a [4, 0] (Some 1) (Some 7) (Some 3)), Writable 3, Readable (Some (0x0b # [1, 2]))] le_att = Some s'
     \<and> att_log s' = [Wrote [0x0a, 4, 0], Response 1 0x0b [1, 2] (Some 7), Destroyed 3 (Some 7)] \<and> pending_req s' = None"
proof -
  have s: "has_io le_att" "req_queue le_att = []" "pending_req le_att = None" "ind_queue le_att = []" "write_queue le_att = []"
    "0 < next_timer le_att" "timers le_att = []" "att_log le_att = []" "att_mtu le_att = 23"
    by (simp_all add: le_att_eq)
  have os: "inert plain_os" "alloc_ok plain_os" "watch_ok plain_os" by (simp_all add: inert_def plain_os_def)
  have o: "get_op_type 0x0a = ATT_OP_TYPE_REQ" "get_op_type 0x0b = ATT_OP_TYPE_RSP" "0x0b \<noteq> BT_ATT_OP_ERROR_RSP"
    "get_req_opcode 0x0b = 0x0a"
    by (simp_all add: get_op_type_def att_opcode_type_table_def get_req_opcode_def att_req_rsp_mapping_table_def bt_att_ops)
  show ?thesis
    using request_round_trip [OF new_wf [OF le_att_new] os s(1-6), of "0x0a" "[4, 0]" "0x0b" 1 "Some 7" 3 "[1, 2]"] s o by auto
qed

section \<open>The writer is never left asleep\<close>

definition sendable :: "'z bt_att_scheme \<Rightarrow> bool" where
  "sendable s \<longleftrightarrow> write_queue s \<noteq> [] \<or> pending_req s = None \<and> req_queue s \<noteq> [] \<or> pending_ind s = None \<and> ind_queue s \<noteq> []"

text \<open>While the transport is connected and the socket has not been shut down, the write handler is installed whenever there is
  something to send.\<close>

definition awake :: "'z bt_att_scheme \<Rightarrow> bool" where
  "awake s \<longleftrightarrow> (\<not> freed s \<and> has_io s \<and> Shut_Down \<notin> set (att_log s) \<and> sendable s \<longrightarrow> writer_active s)"

text \<open>What every step but the last release keeps.\<close>

definition rouses :: "'z bt_att_scheme \<Rightarrow> 'z bt_att_scheme \<Rightarrow> bool" where
  "rouses s s' \<longleftrightarrow> (awake s \<longrightarrow> awake s') \<and> (writer_active s \<longrightarrow> writer_active s') \<and> (has_io s' \<longrightarrow> has_io s)
     \<and> prefix (att_log s) (att_log s')"

definition alert :: "('z bt_att_scheme \<Rightarrow> 'z bt_att_scheme option) \<Rightarrow> bool" where
  "alert f \<longleftrightarrow> (\<forall>s s'. f s = Some s' \<longrightarrow> rouses s s')"

lemma alertD: "alert f \<Longrightarrow> f s = Some s' \<Longrightarrow> rouses s s'"
  by (simp add: alert_def)

lemma rouses_refl [simp]: "rouses s s"
  by (simp add: rouses_def)

lemma rouses_trans [trans]: "rouses s s1 \<Longrightarrow> rouses s1 s2 \<Longrightarrow> rouses s s2"
  unfolding rouses_def by (blast intro: prefix_order.trans)

lemma rouses_log [simp]: "rouses s (log_att e s)" "rouses s (io_shutdown s)"
  by (auto simp: rouses_def log_att_def awake_def sendable_def io_shutdown_def)

lemma rouses_fields [simp]:
  "rouses s (s\<lparr>send_ops := h\<rparr>)" "rouses s (timeout_remove i s)" "rouses s (s\<lparr>notifies := hn\<rparr>)" "rouses s (s\<lparr>disconns := hh\<rparr>)"
  "rouses s (s\<lparr>notify_list := l\<rparr>)" "rouses s (s\<lparr>disconn_list := l\<rparr>)" "rouses s (bt_att_ref s)" "rouses s (s\<lparr>in_req := b\<rparr>)"
  by (simp_all add: rouses_def awake_def sendable_def timeout_remove_def bt_att_ref_def)

lemma rouses_emptied [simp]:
  "rouses s (s\<lparr>req_queue := []\<rparr>)" "rouses s (s\<lparr>ind_queue := []\<rparr>)" "rouses s (s\<lparr>write_queue := []\<rparr>)"
  by (auto simp: rouses_def awake_def sendable_def)

lemma awake_wakeup: "watch_ok os \<Longrightarrow> awake (wakeup_writer os s)"
  by (auto simp: awake_def wakeup_writer_def sendable_def)

lemma rouses_wakeup: "watch_ok os \<Longrightarrow> (writer_active s \<longrightarrow> writer_active s1) \<Longrightarrow> (has_io s1 \<longrightarrow> has_io s) \<Longrightarrow>
    prefix (att_log s) (att_log s1) \<Longrightarrow> rouses s (wakeup_writer os s1)"
  by (simp add: rouses_def awake_wakeup) (simp add: wakeup_writer_def)

lemma awake_closed: "\<not> has_io s \<Longrightarrow> awake s"
  by (simp add: awake_def)

locale alert_client =
  fixes os :: "'z att_os"
  assumes watch: "watch_ok os"
    and alert_response: "alert (run_response os f opcode pdu ud)"
    and alert_notify: "alert (run_notify os f opcode pdu ud)"
    and alert_destroy: "alert (run_destroy os f ud)"
    and alert_disconnect: "alert (run_disconnect os f err ud)"
    and alert_timeout: "alert (run_timeout os f ident opcode ud)"
begin

lemma call_alert: "alert (call_response os fn opcode pdu ud)" "alert (call_notify os fn opcode pdu ud)"
    "alert (call_destroy_fn os fn ud)"
  unfolding alert_def call_response_def call_notify_def call_destroy_fn_def
  by (auto split: option.splits intro: rouses_trans [OF rouses_log(1) alertD [OF alert_response]]
      rouses_trans [OF rouses_log(1) alertD [OF alert_notify]] rouses_trans [OF rouses_log(1) alertD [OF alert_destroy]])

lemma destroy_op_alert: "alert (destroy_att_send_op os a)"
  unfolding alert_def
proof (intro allI impI)
  fix s s' assume "destroy_att_send_op os a s = Some s'"
  then obtain op :: att_send_op and s1 where s1: "call_destroy_fn os (so_destroy op) (so_user_data op)
        (if so_timeout_id op \<noteq> 0 then timeout_remove (so_timeout_id op) s else s) = Some s1" "free_send_op a s1 = Some s'"
    unfolding destroy_att_send_op_def Let_def bind_eq_Some_conv by blast
  have "rouses s (if so_timeout_id op \<noteq> 0 then timeout_remove (so_timeout_id op) s else s)" by simp
  also have "rouses \<dots> s1" by (rule alertD [OF call_alert(3) s1(1)])
  also have "rouses s1 s'" using s1(2) by (auto simp: free_send_op_def bind_eq_Some_conv)
  finally show "rouses s s'" .
qed

lemma cancel_op_alert: "alert (cancel_att_send_op os a)"
  unfolding alert_def
  by (auto simp: cancel_att_send_op_def bind_eq_Some_conv intro: rouses_trans [OF alertD [OF call_alert(3)]])

lemma destroy_handler_alert: "alert (destroy_att_notify os a)" "alert (destroy_att_disconn os a)"
  unfolding alert_def
  by (auto simp: destroy_att_notify_def destroy_att_disconn_def bind_eq_Some_conv intro: rouses_trans [OF alertD [OF call_alert(3)]])

lemma disc_op_alert: "alert (disc_att_send_op os a)"
  unfolding alert_def
  by (auto simp: disc_att_send_op_def bind_eq_Some_conv intro: rouses_trans [OF alertD [OF call_alert(1)] alertD [OF destroy_op_alert]])

lemma each_alert: "(\<And>a. alert (f a)) \<Longrightarrow> alert (each f as)"
proof (induction as)
  case (Cons a as)
  from alertD [OF Cons.IH [OF Cons.prems]] alertD [OF Cons.prems] show ?case
    unfolding alert_def each.simps bind_eq_Some_conv by (blast intro: rouses_trans)
qed (simp add: alert_def)

lemmas each_op_alert = each_alert [OF destroy_op_alert] each_alert [OF destroy_handler_alert(1)]
  each_alert [OF destroy_handler_alert(2)] each_alert [OF disc_op_alert]

lemma cancel_pending_alert: "alert (cancel_pending os p)"
  using alertD [OF cancel_op_alert]
  by (auto simp: alert_def cancel_pending_def alive_def bind_eq_Some_conv split: option.splits if_splits)

lemma cancel_all_alert: "alert (bt_att_cancel_all os)"
  unfolding alert_def
proof (intro allI impI)
  fix s s' assume "bt_att_cancel_all os s = Some s'"
  then obtain s1 s2 s3 s4 where
    s: "each (destroy_att_send_op os) (req_queue s) (s\<lparr>req_queue := []\<rparr>) = Some s1"
    "each (destroy_att_send_op os) (ind_queue s1) (s1\<lparr>ind_queue := []\<rparr>) = Some s2"
    "each (destroy_att_send_op os) (write_queue s2) (s2\<lparr>write_queue := []\<rparr>) = Some s3"
    "cancel_pending os (pending_req s3) s3 = Some s4" "cancel_pending os (pending_ind s4) s4 = Some s'"
    by (auto simp: bt_att_cancel_all_def bind_eq_Some_conv alive_def split: if_splits)
  note rouses_trans [OF rouses_emptied(1) alertD [OF each_op_alert(1) s(1)]]
  also note rouses_trans [OF rouses_emptied(2) alertD [OF each_op_alert(1) s(2)]]
  also note rouses_trans [OF rouses_emptied(3) alertD [OF each_op_alert(1) s(3)]]
  also note alertD [OF cancel_pending_alert s(4)]
  also note alertD [OF cancel_pending_alert s(5)]
  finally show "rouses s s'" .
qed

lemma unregister_all_alert: "alert (bt_att_unregister_all os)"
  unfolding alert_def
proof (intro allI impI)
  fix s s' assume "bt_att_unregister_all os s = Some s'"
  then obtain s1 where
    s: "each (destroy_att_notify os) (notify_list s) (s\<lparr>notify_list := []\<rparr>) = Some s1"
    "each (destroy_att_disconn os) (disconn_list s1) (s1\<lparr>disconn_list := []\<rparr>) = Some s'"
    by (auto simp: bt_att_unregister_all_def bind_eq_Some_conv alive_def split: if_splits)
  note rouses_trans [OF rouses_fields(5) alertD [OF each_op_alert(2) s(1)]]
  also note rouses_trans [OF rouses_fields(6) alertD [OF each_op_alert(3) s(2)]]
  finally show "rouses s s'" .
qed

lemma enqueue_same: "writer_active (enqueue_op a t s) = writer_active s" "has_io (enqueue_op a t s) = has_io s"
    "att_log (enqueue_op a t s) = att_log s"
  by (cases t; simp add: enqueue_op_def)+

lemma send_rouses:
  assumes "bt_att_send os opcode pdu len callback ud destroy s = Some (r, s')"
  shows "rouses s s'"
  using assms watch
  by (auto simp: bt_att_send_def bind_eq_Some_conv Let_def enqueue_same split: if_splits option.splits intro!: rouses_wakeup)

lemma taken_same:
  assumes "take_queued ident s = Some (p, s')"
  shows "writer_active s' = writer_active s \<and> has_io s' = has_io s \<and> att_log s' = att_log s \<and> (p = None \<longrightarrow> s' = s)"
  using assms by (auto simp: take_queued_def bind_eq_Some_conv split: option.splits)

lemma cancel_rouses:
  assumes "bt_att_cancel os ident s = Some (r, s')"
  shows "rouses s s'"
proof (cases "ident = 0 \<or> op_has_id s ident (pending_req s) = Some True \<or> op_has_id s ident (pending_ind s) = Some True")
  case True
  then show ?thesis using assms alertD [OF cancel_op_alert]
    by (auto simp: bt_att_cancel_def bind_eq_Some_conv split: if_splits)
next
  case False
  with assms obtain p s1 where p: "take_queued ident s = Some (p, s1)"
    "(case p of None \<Rightarrow> Some (False, s1) | Some a \<Rightarrow> do { s \<leftarrow> destroy_att_send_op os a s1; s \<leftarrow> alive s; Some (True, wakeup_writer os s) }) = Some (r, s')"
    by (auto simp: bt_att_cancel_def bind_eq_Some_conv split: if_splits)
  note t = taken_same [OF p(1)]
  show ?thesis
  proof (cases p)
    case None
    with p(2) t show ?thesis by simp
  next
    case (Some a)
    with p(2) obtain s2 where s2: "destroy_att_send_op os a s1 = Some s2" "s' = wakeup_writer os s2"
      by (auto simp: bind_eq_Some_conv alive_def split: if_splits)
    from alertD [OF destroy_op_alert s2(1)] t have "writer_active s \<longrightarrow> writer_active s2" "has_io s2 \<longrightarrow> has_io s"
      "prefix (att_log s) (att_log s2)" by (auto simp: rouses_def)
    then show ?thesis unfolding s2(2) by (rule rouses_wakeup [OF watch])
  qed
qed

lemma do_call_alert: "alert (do_call os c)"
  unfolding alert_def
proof (intro allI impI)
  fix s s' assume "do_call os c s = Some s'"
  then show "rouses s s'"
    using send_rouses cancel_rouses alertD [OF cancel_all_alert]
    by (cases c) (auto simp: bt_att_set_mtu_def, simp add: rouses_def awake_def sendable_def)
qed

lemma do_calls_alert: "alert (do_calls os cs)"
proof (induction cs)
  case (Cons c cs)
  from alertD [OF do_call_alert] alertD [OF Cons.IH] show ?case
    unfolding alert_def do_calls.simps bind_eq_Some_conv by (blast intro: rouses_trans)
qed (simp add: alert_def)

end

lemma awake_ref [simp]: "awake (bt_att_ref s) = awake s" "awake (s\<lparr>in_req := b\<rparr>) = awake s" "awake (timeout_remove i s) = awake s"
  by (simp_all add: awake_def sendable_def bt_att_ref_def timeout_remove_def)

lemma awakeD: "rouses s s' \<Longrightarrow> awake s \<Longrightarrow> awake s'"
  by (simp add: rouses_def)

lemma awake_shutdown: "awake s \<Longrightarrow> awake (io_shutdown s)"
  by (rule awakeD [OF rouses_log(2)])

lemma shut_down_awake: "awake (io_shutdown s)"
  by (simp add: awake_def io_shutdown_def log_att_def)

lemma unref_awake: "bt_att_unref os s = Some s' \<Longrightarrow> awake s \<Longrightarrow> awake s'"
  by (auto simp: bt_att_unref_def bt_att_free_def alive_def awake_def sendable_def bind_eq_Some_conv Let_def split: if_splits)

lemma unref_closed: "bt_att_unref os s = Some s' \<Longrightarrow> awake s \<Longrightarrow> awake s'"
  by (rule unref_awake)

lemma picked_same:
  assumes "pick_next_send_op s = (p, s1)"
  shows "rouses s s1" "p = None \<Longrightarrow> s1 = s \<and> \<not> sendable s"
proof -
  have "writer_active s1 = writer_active s \<and> has_io s1 = has_io s \<and> att_log s1 = att_log s \<and> freed s1 = freed s \<and> (sendable s1 \<longrightarrow> sendable s)"
    using assms by (auto simp: pick_next_send_op_def sendable_def split: list.splits option.splits)
  then show "rouses s s1" by (auto simp: rouses_def awake_def)
  assume "p = None"
  then show "s1 = s \<and> \<not> sendable s"
    using assms by (auto simp: pick_next_send_op_def sendable_def split: list.splits option.splits)
qed

context alert_client begin

lemma can_write_active:
  assumes "can_write_data os ret s = Some (b, s')" "writer_active s"
  shows "if b then writer_active s' else s' = s \<and> \<not> sendable s"
proof -
  obtain p s1 where p: "pick_next_send_op s = (p, s1)" by (cases "pick_next_send_op s")
  have w: "writer_active s1" using picked_same(1) [OF p] assms(2) by (simp add: rouses_def)
  have d: "writer_active y" if "destroy_att_send_op os a x = Some y" "writer_active x" for a x y
    using alertD [OF destroy_op_alert that(1)] that(2) by (simp add: rouses_def)
  have c: "writer_active y" if "call_response os fn oc pdu ud x = Some y" "writer_active x" for fn oc pdu ud x y
    using alertD [OF call_alert(1) that(1)] that(2) by (simp add: rouses_def)
  show ?thesis
  proof (cases p)
    case None
    then show ?thesis using assms picked_same(2) [OF p] p by (simp add: can_write_data_def)
  next
    case (Some a)
    then show ?thesis using assms(1) p w
      by (auto simp: can_write_data_def Let_def bind_eq_Some_conv log_att_def split: if_splits dest!: d c)
  qed
qed

lemma writable_awake:
  assumes "writable os ret s = Some s'" "awake s"
  shows "awake s'"
proof (cases "writer_active s")
  case True
  with assms(1) obtain b s1 where s1: "can_write_data os ret s = Some (b, s1)" "s' = (if b then s1 else write_watch_destroy s1)"
    by (auto simp: writable_def bind_eq_Some_conv)
  from can_write_active [OF s1(1) True] s1(2) show ?thesis
    by (auto simp: awake_def sendable_def write_watch_destroy_def split: if_splits)
qed (use assms in \<open>simp add: writable_def\<close>)

lemma timeout_awake: "timeout_cb os ident s = Some s' \<Longrightarrow> awake s \<Longrightarrow> awake s'"
  by (auto simp: timeout_cb_def Let_def bind_eq_Some_conv shut_down_awake split: option.splits if_splits)

lemma fire_timer_awake: "fire_timer os src s = Some s' \<Longrightarrow> awake s \<Longrightarrow> awake s'"
  using timeout_awake by (auto simp: fire_timer_def bind_eq_Some_conv split: option.splits)

lemma end_request_awake: "end_request os a rsp pdu s = Some s' \<Longrightarrow> awake s'"
  by (auto simp: end_request_def bind_eq_Some_conv awake_wakeup [OF watch])

lemma handle_rsp_awake: "handle_rsp os opcode pdu s = Some s' \<Longrightarrow> awake s \<Longrightarrow> awake s'"
  by (auto simp: handle_rsp_def Let_def bind_eq_Some_conv awake_wakeup [OF watch] shut_down_awake
      dest: end_request_awake split: option.splits if_splits prod.splits bool.splits)

lemma handle_conf_awake: "handle_conf os pdu s = Some s' \<Longrightarrow> awake s \<Longrightarrow> awake s'"
  by (auto simp: handle_conf_def bind_eq_Some_conv awake_wakeup [OF watch] shut_down_awake split: option.splits if_splits)

lemma notify_handlers_awake:
  assumes "notify_handlers os opcode pdu entry found_any s = Some (b, s')" "awake s"
  shows "awake s'"
proof -
  have alert: "awake s \<longrightarrow> awake s1" if "call_notify os fn opcode pdu ud s = Some s1" for fn opcode pdu ud s s1
    using alertD [OF call_alert(2) that] by (simp add: rouses_def)
  have "os' = os \<longrightarrow> awake s \<longrightarrow> awake (snd y)" if c: "notify_handlers os' opcode pdu entry found_any s = Some y" for os' s y
  proof (rule notify_handlers.raw_induct [OF _ c, of "\<lambda>os' opcode pdu entry found_any s y. os' = os \<longrightarrow> awake s \<longrightarrow> awake (snd y)"],
      goal_cases)
    case (1 rec os' opcode pdu entry found_any s y)
    show ?case
    proof (intro impI)
      assume os: "os' = os" and s: "awake s"
      show "awake (snd y)"
      proof (cases entry)
        case None
        then show ?thesis using 1(2) s by auto
      next
        case (Some a)
        then obtain nxt n where n: "next_entry a (notify_list s) = Some nxt" "notifies s a = Some n"
          using 1(2) by (auto simp: bind_eq_Some_conv)
        show ?thesis
        proof (cases "opcode_match (an_opcode n) opcode")
          case False
          then show ?thesis using 1(1) 1(2) Some n os s by auto
        next
          case True
          then obtain s1 where s1: "call_notify os (an_callback n) opcode pdu (an_user_data n) s = Some s1"
            "(if notify_list s1 = [] then Some (True, s1) else rec os' opcode pdu nxt True s1) = Some y"
            using 1(2) Some n os by (auto simp: bind_eq_Some_conv alive_def split: if_splits)
          then show ?thesis using 1(1) alert s os by (auto split: if_splits)
        qed
      qed
    qed
  qed
  with assms show ?thesis by force
qed

lemma foreach_disconn_closed:
  assumes "foreach_disconn os err entry s = Some s'" "\<not> has_io s"
  shows "\<not> has_io s'"
proof -
  have handler: "\<not> has_io s1" if h: "disconn_handler os err a s = Some s1" and c: "\<not> has_io s" for err a s s1
  proof -
    have "rouses s s1" using h alertD [OF alert_disconnect] rouses_trans [OF rouses_log(1)]
      unfolding disconn_handler_def by (auto simp: bind_eq_Some_conv split: if_splits option.splits, blast)
    with c show ?thesis by (auto simp: rouses_def)
  qed
  have "os' = os \<longrightarrow> \<not> has_io s \<longrightarrow> \<not> has_io y" if c: "foreach_disconn os' err entry s = Some y" for os' s y
  proof (rule foreach_disconn.raw_induct [OF _ c, of "\<lambda>os' err entry s y. os' = os \<longrightarrow> \<not> has_io s \<longrightarrow> \<not> has_io y"], goal_cases)
    case (1 rec os' err entry s y)
    show ?case
    proof (intro impI)
      assume os: "os' = os" and s: "\<not> has_io s"
      show "\<not> has_io y"
      proof (cases "entry = None \<or> disconn_list s = []")
        case False
        then obtain a nxt s1 where "disconn_handler os err a s = Some s1" "rec os' err nxt s1 = Some y"
          using 1(2) os by (auto simp: bind_eq_Some_conv alive_def split: if_splits)
        then show ?thesis using 1(1) handler s os by blast
      qed (use 1(2) s in \<open>auto split: option.splits\<close>)
    qed
  qed
  with assms show ?thesis by blast
qed

lemma respond_awake: "respond_not_supported os opcode s = Some s' \<Longrightarrow> awake s \<Longrightarrow> awake s'"
  by (auto simp: respond_not_supported_def bind_eq_Some_conv dest!: send_rouses intro: awakeD)

lemma handle_notify_awake:
  assumes "handle_notify os opcode pdu s = Some s'" "awake s"
  shows "awake s'"
proof -
  have "awake s'" if h: "notify_handlers os opcode pdu' (first_entry (notify_list (bt_att_ref s))) False (bt_att_ref s) = Some (fd, s1)"
    "(if \<not> fd \<and> get_op_type opcode = ATT_OP_TYPE_REQ then respond_not_supported os opcode s1 else Some s1) = Some s2"
    "bt_att_unref os s2 = Some s'" for pdu' fd s1 s2
  proof -
    have "awake s1" by (rule notify_handlers_awake [OF h(1)]) (use assms(2) in simp)
    then have "awake s2" using h(2) by (auto dest: respond_awake split: if_splits)
    then show ?thesis by (rule unref_awake [OF h(3)])
  qed
  moreover from assms(1) have "s' = s \<or> (\<exists>pdu' fd s1 s2.
      notify_handlers os opcode pdu' (first_entry (notify_list (bt_att_ref s))) False (bt_att_ref s) = Some (fd, s1)
      \<and> (if \<not> fd \<and> get_op_type opcode = ATT_OP_TYPE_REQ then respond_not_supported os opcode s1 else Some s1) = Some s2
      \<and> bt_att_unref os s2 = Some s')"
    unfolding handle_notify_def Let_def by (auto simp del: not_None_eq simp: bind_eq_Some_conv split: option.splits prod.splits split del: if_split)
  ultimately show ?thesis using assms(2) by blast
qed

lemma can_read_awake:
  assumes "can_read_data os bytes s = Some (b, s')" "awake s"
  shows "awake s'"
  using assms
  by (auto simp: can_read_data_def Let_def bind_eq_Some_conv awake_shutdown split: option.splits list.splits att_op_type.splits if_splits
      dest!: handle_rsp_awake handle_conf_awake handle_notify_awake elim!: unref_awake)

end

definition closing :: "('z bt_att_scheme \<Rightarrow> 'z bt_att_scheme option) \<Rightarrow> bool" where
  "closing f \<longleftrightarrow> (\<forall>s s'. f s = Some s' \<longrightarrow> \<not> has_io s \<longrightarrow> \<not> has_io s')"

lemma closingD: "closing f \<Longrightarrow> f s = Some s' \<Longrightarrow> \<not> has_io s \<Longrightarrow> \<not> has_io s'"
  by (simp add: closing_def)

lemma alert_closing: "alert f \<Longrightarrow> closing f"
  by (auto simp: alert_def closing_def rouses_def)

context alert_client begin

lemma disc_pending_closing: "closing (disc_pending os p)"
  using alert_closing [OF disc_op_alert] by (auto simp: closing_def disc_pending_def split: option.splits)

lemma disconnect_awake:
  assumes "disconnect_cb os err s = Some s'"
  shows "awake s'"
proof -
  let ?s0 = "(io_destroy s)\<lparr>has_io := False\<rparr>"
  obtain s1 s2 s3 s4 s5 s6 s7 where
    s: "each (disc_att_send_op os) (req_queue ?s0) (?s0\<lparr>req_queue := []\<rparr>) = Some s1"
    "each (disc_att_send_op os) (ind_queue s1) (s1\<lparr>ind_queue := []\<rparr>) = Some s2"
    "each (disc_att_send_op os) (write_queue s2) (s2\<lparr>write_queue := []\<rparr>) = Some s3"
    "disc_pending os (pending_req s3) s3 = Some s4"
    "disc_pending os (pending_ind (s4\<lparr>pending_req := None\<rparr>)) (s4\<lparr>pending_req := None\<rparr>) = Some s5"
    "foreach_disconn os err (first_entry (disconn_list (bt_att_ref (s5\<lparr>pending_ind := None\<rparr>)))) (bt_att_ref (s5\<lparr>pending_ind := None\<rparr>)) = Some s6"
    "bt_att_unregister_all os s6 = Some s7" "bt_att_unref os s7 = Some s'"
    using assms unfolding disconnect_cb_def Let_def by (auto simp: bind_eq_Some_conv alive_def split: if_splits)
  note cl = closingD [OF alert_closing [OF each_op_alert(4)]]
  have "\<not> has_io s1" by (rule cl [OF s(1)]) simp
  then have "\<not> has_io s2" by (intro cl [OF s(2)]) simp
  then have "\<not> has_io s3" by (intro cl [OF s(3)]) simp
  then have "\<not> has_io s4" by (rule closingD [OF disc_pending_closing s(4)])
  then have "\<not> has_io s5" by (intro closingD [OF disc_pending_closing s(5)]) simp
  then have "\<not> has_io s6" by (intro foreach_disconn_closed [OF s(6)]) (simp add: bt_att_ref_def)
  then have "\<not> has_io s7" by (rule closingD [OF alert_closing [OF unregister_all_alert] s(7)])
  then show ?thesis by (intro unref_awake [OF s(8)]) (rule awake_closed)
qed

lemma unregister_rouses:
  "bt_att_unregister os ident s = Some (r, s') \<Longrightarrow> rouses s s'"
  "bt_att_unregister_disconnect os ident s = Some (r, s') \<Longrightarrow> rouses s s'"
  by (auto simp: bt_att_unregister_def bt_att_unregister_disconnect_def bind_eq_Some_conv split: if_splits option.splits
      intro: rouses_trans [OF rouses_fields(5) alertD [OF destroy_handler_alert(1)]]
        rouses_trans [OF rouses_fields(6) alertD [OF destroy_handler_alert(2)]])

lemma awake_settings [simp]:
  "awake (s\<lparr>timeout_callback := f, timeout_destroy := g, timeout_data := d\<rparr>) = awake s"
  "awake (bt_att_set_local_key key h d s) = awake s" "awake (bt_att_set_remote_key key h d s) = awake s"
  "awake (snd (bt_att_set_security os level s)) = awake s"
  "awake (snd (bt_att_register opcode callback ud destroy s)) = awake s"
  "awake (snd (bt_att_register_disconnect callback ud destroy s)) = awake s"
  by (simp_all add: awake_def sendable_def bt_att_set_local_key_def bt_att_set_remote_key_def bt_att_set_security_def
      bt_att_register_def bt_att_register_disconnect_def Let_def)

lemma do_act_awake:
  assumes "do_act os a s = Some s'" "awake s"
  shows "awake s'"
proof (cases a)
  case (Call c)
  then show ?thesis using assms alertD [OF do_call_alert] by (auto intro: awakeD)
next
  case (Drop_Handler ident)
  then show ?thesis using assms by (auto dest!: unregister_rouses(1) intro: awakeD)
next
  case (Drop_Disconnect ident)
  then show ?thesis using assms by (auto dest!: unregister_rouses(2) intro: awakeD)
next
  case Drop_Handlers
  then show ?thesis using assms alertD [OF unregister_all_alert] by (auto intro: awakeD)
next
  case (Set_Timeout_Fn callback ud destroy)
  then show ?thesis using assms
    by (auto simp: bt_att_set_timeout_cb_def bind_eq_Some_conv alive_def split: if_splits dest!: alertD [OF call_alert(3)] intro: awakeD)
next
  case (Send_Error opcode handle error)
  then show ?thesis using assms by (auto simp: bt_att_send_error_rsp_def split: if_splits dest!: send_rouses intro: awakeD)
next
  case Release
  then show ?thesis using assms by (auto split: if_splits intro: unref_awake)
next
  case (Writable ret)
  then show ?thesis using assms by (auto intro: writable_awake)
next
  case (Readable bytes)
  then show ?thesis using assms by (auto intro: can_read_awake)
next
  case (Timer src)
  then show ?thesis using assms by (auto intro: fire_timer_awake)
next
  case (Disconnect err)
  then show ?thesis using assms by (auto split: if_splits intro: disconnect_awake)
qed (use assms in auto)

lemma do_acts_awake: "do_acts os as s = Some s' \<Longrightarrow> awake s \<Longrightarrow> awake s'"
proof (induction as arbitrary: s)
  case (Cons a as)
  then obtain s1 where s1: "do_act os a s = Some s1" "do_acts os as s1 = Some s'" by (auto simp: bind_eq_Some_conv)
  show ?case by (rule Cons.IH [OF s1(2) do_act_awake [OF s1(1) Cons.prems(2)]])
qed simp

text \<open>The next event of the socket writes what is due, before anything else.\<close>

lemma next_write:
  assumes w: "writable os ret s = Some s'" and "writer_active s" and "0 \<le> ret"
    and p: "pick_next_send_op s = (Some a, s1)" "send_ops s a = Some op"
  shows "prefix (att_log s @ [Wrote (take (nat ret) (so_pdu op))]) (att_log s')"
proof -
  let ?e = "Wrote (take (nat ret) (so_pdu op))"
  from picked_same(1) [OF p(1)] have s1: "send_ops s1 = send_ops s" "att_log s1 = att_log s"
    using p(1) by (auto simp: pick_next_send_op_def split: list.splits option.splits)
  have d: "prefix (att_log x) (att_log y)" if "destroy_att_send_op os b x = Some y" for b x y
    using alertD [OF destroy_op_alert that] by (simp add: rouses_def)
  from w assms(2) obtain b s2 where s2: "can_write_data os ret s = Some (b, s2)" "s' = (if b then s2 else write_watch_destroy s2)"
    by (auto simp: writable_def bind_eq_Some_conv)
  have "prefix (att_log s @ [?e]) (att_log s2)"
    using s2(1) p assms(3) s1
    by (auto simp: can_write_data_def Let_def bind_eq_Some_conv log_att_def split: if_splits dest!: d)
  then show ?thesis using s2(2) by (simp add: write_watch_destroy_def)
qed

end

lemma scripted_watch: "watch_ok (scripted prog n os) = watch_ok os"
  by (cases n) (simp_all add: set_functions_def)

lemma scripted_alert:
  assumes "watch_ok os"
  shows "alert_client (scripted prog n os)"
proof (induction n)
  case 0
  show ?case by unfold_locales (simp_all add: scripted_watch assms alert_def del: scripted.simps, simp_all)
next
  case (Suc n)
  have "alert (do_calls (scripted prog n os) cs)" for cs
    by (rule alert_client.do_calls_alert [OF Suc])
  then show ?case by unfold_locales (simp_all add: assms set_functions_def)
qed

lemma picked_allocated:
  assumes w: "wf_att F s" and "pick_next_send_op s = (Some a, s1)"
  shows "\<exists>op. send_ops s a = Some op"
proof -
  have "a \<in> set (req_queue s @ ind_queue s @ write_queue s)"
    using assms(2) by (auto simp: pick_next_send_op_def split: list.splits option.splits)
  then show ?thesis using w by (fastforce simp: wf_att_def ops_wf_def typed_def)
qed

lemma new_awake: "bt_att_new sk fd ext_signed z = Some s \<Longrightarrow> awake s"
  by (auto simp: bt_att_new_def Let_def bt_att_ref_def awake_def sendable_def split: if_splits)

text \<open>C14: No wake-up is lost: after any sequence of actions on a transport that is connected and has not been shut down, when
  an operation may be sent (a PDU that needs no answer, or a request or an indication while no other is
  pending), the write handler is installed, and the next event of the socket writes that operation first.\<close>

theorem no_lost_wakeup:
  assumes new: "bt_att_new sk fd ext_signed z = Some s" and os: "watch_ok os"
    and run: "do_acts (scripted prog n os) acts s = Some s'"
    and open_io: "has_io s'" "Shut_Down \<notin> set (att_log s')"
    and due: "pick_next_send_op s' = (Some a, s1)" and ret: "0 \<le> ret"
  shows "writer_active s' \<and> (\<exists>op s2. send_ops s' a = Some op \<and> writable (scripted prog n os) ret s' = Some s2
     \<and> prefix (att_log s' @ [Wrote (take (nat ret) (so_pdu op))]) (att_log s2))"
proof -
  note alert = scripted_alert [OF os, of prog n]
  have w: "wf_att {} s'" using scripted_calm.do_acts_good [OF new_wf [OF new], of prog n os acts] run by simp
  have "awake s'" by (rule alert_client.do_acts_awake [OF alert run new_awake [OF new]])
  moreover have "sendable s'" using due by (auto simp: pick_next_send_op_def sendable_def split: list.splits option.splits)
  ultimately have active: "writer_active s'" using open_io w by (simp add: awake_def)
  obtain op where op: "send_ops s' a = Some op" using picked_allocated [OF w due] by blast
  obtain s2 where s2: "writable (scripted prog n os) ret s' = Some s2"
    using scripted_calm.writable_good [OF w] by blast
  show ?thesis using active op s2 alert_client.next_write [OF alert s2 active ret due op] by blast
qed

lemma no_lost_wakeup_witness:
  "\<exists>s' op s2. do_acts (scripted (\<lambda>_. []) 0 plain_os) [Call (Call_Send 0x0a [4, 0] (Some 1) None None)] le_att = Some s'
     \<and> writer_active s' \<and> send_ops s' 0 = Some op \<and> writable (scripted (\<lambda>_. []) 0 plain_os) 3 s' = Some s2
     \<and> prefix (att_log s' @ [Wrote (take 3 (so_pdu op))]) (att_log s2)"
proof -
  let ?os = "scripted (\<lambda>_. []) 0 plain_os :: unit att_os"
  have o: "get_op_type 0x0a = ATT_OP_TYPE_REQ" by (simp add: get_op_type_def att_opcode_type_table_def bt_att_ops)
  have al: "alloc_ok ?os" "watch_ok (plain_os :: unit att_os)" "watch_ok ?os" by (simp_all add: set_functions_def plain_os_def)
  have e: "encode_pdu ?os le_att 0x0a (Some [4, 0]) 2 = Some (Inr [0x0a, 4, 0])"
    using encode_request [OF o, of "[4, 0]" le_att ?os] al by (simp add: le_att_eq)
  let ?op = "\<lparr>so_id = 1, so_timeout_id = 0, so_type = ATT_OP_TYPE_REQ, so_opcode = 0x0a, so_pdu = [0x0a, 4, 0],
      so_callback = Some 1, so_destroy = None, so_user_data = None\<rparr>"
  let ?s = "le_att\<lparr>next_send_id := 2, send_ops := (send_ops le_att)(0 \<mapsto> ?op), next_addr := 1, req_queue := [0], writer_active := True\<rparr>"
  have f: "has_io le_att" "next_send_id le_att = 0" "next_addr le_att = 0" "req_queue le_att = []" "pending_req le_att = None"
    "writer_active le_att = False" "write_queue le_att = []" "att_log le_att = []" by (simp_all add: le_att_eq)
  have c: "create_att_send_op ?os le_att 0x0a (Some [4, 0]) 2 (Some 1) None None = Some (Some (?op\<lparr>so_id := 0\<rparr>))"
    using o e by (simp add: create_att_send_op_def Let_def)
  have "bt_att_send ?os 0x0a (Some [4, 0]) 2 (Some 1) None None le_att = Some (1, ?s)"
    unfolding bt_att_send_def c using f al by (simp add: Let_def enqueue_op_def wakeup_writer_def)
  then have s': "do_acts ?os [Call (Call_Send 0x0a [4, 0] (Some 1) None None)] le_att = Some ?s"
    by (simp add: usable_def)
  have p: "has_io ?s" "Shut_Down \<notin> set (att_log ?s)" "pick_next_send_op ?s = (Some 0, ?s\<lparr>req_queue := []\<rparr>)"
    using f by (simp_all add: pick_next_send_op_def)
  from no_lost_wakeup [OF le_att_new al(2) s' p, of 3] s' show ?thesis by auto
qed

section \<open>What the code does not do\<close>

lemma signed_without_crypto: "\<not> has_crypto s \<Longrightarrow> handle_signed os pdu s = Inl ()"
  by (auto simp: handle_signed_def Let_def split: option.splits)

text \<open>Signatures are not checked. With the kernel's cryptography a signed write goes to its handler whatever the
  signature is, with the signature still in the parameters; without it, every signed write is dropped.\<close>

theorem signed_writes_unchecked:
  assumes w: "wf_att {} s" and l: "notify_list s = [a]" "notifies s a = Some n" "an_callback n = Some f"
    and m: "opcode_match (an_opcode n) opcode" "opcode AND ATT_OP_SIGNED_MASK \<noteq> 0" "get_op_type opcode \<noteq> ATT_OP_TYPE_REQ"
    and os: "\<And>pdu ud s. run_notify os f opcode pdu ud s = Some s"
  shows "if has_crypto s
    then \<exists>s'. handle_notify os opcode pdu s = Some s' \<and> att_log s' = att_log s @ [Notified f opcode pdu (an_user_data n)]
    else handle_notify os opcode pdu s = Some s"
proof (cases "has_crypto s")
  case True
  let ?s = "log_att (Notified f opcode pdu (an_user_data n)) (bt_att_ref s)"
  have nx: "next_entry a [a] = Some None" by (simp add: next_entry_def)
  have al: "alive ?s = Some ?s" "0 < att_ref_count s" using w by (simp_all add: wf_att_def alive_def log_att_def bt_att_ref_def)
  have "notify_handlers os opcode pdu None True ?s = Some (True, ?s)" by (subst notify_handlers.simps) simp
  then have "notify_handlers os opcode pdu (Some a) False (bt_att_ref s) = Some (True, ?s)"
    using l m nx os al by (subst notify_handlers.simps) (simp add: call_notify_def bt_att_ref_def log_att_def)
  moreover have "bt_att_unref os ?s = Some (?s\<lparr>att_ref_count := att_ref_count s\<rparr>)"
    using al by (simp add: bt_att_unref_def log_att_def bt_att_ref_def)
  ultimately show ?thesis using True l
    by (simp add: handle_notify_def Let_def first_entry_def) (simp add: bt_att_ref_def log_att_def)
next
  case False
  then show ?thesis using m signed_without_crypto [OF False] by (simp add: handle_notify_def)
qed

lemma signed_writes_unchecked_witness:
  "\<exists>s s'. s = snd (bt_att_register BT_ATT_OP_SIGNED_WRITE_CMD (Some 1) None None le_att)
     \<and> handle_notify plain_os BT_ATT_OP_SIGNED_WRITE_CMD [1] s = Some s' \<and> att_log s' = [Notified 1 BT_ATT_OP_SIGNED_WRITE_CMD [1] None]"
proof -
  let ?s = "snd (bt_att_register BT_ATT_OP_SIGNED_WRITE_CMD (Some 1) None None le_att)"
  have w: "wf_att {} ?s" using register_good [OF new_wf [OF le_att_new], of BT_ATT_OP_SIGNED_WRITE_CMD "Some 1" None None] by auto
  have m: "opcode_match (ucast BT_ATT_OP_SIGNED_WRITE_CMD) BT_ATT_OP_SIGNED_WRITE_CMD"
    "BT_ATT_OP_SIGNED_WRITE_CMD AND ATT_OP_SIGNED_MASK \<noteq> 0" "get_op_type BT_ATT_OP_SIGNED_WRITE_CMD \<noteq> ATT_OP_TYPE_REQ"
    by (simp_all add: opcode_match_def BT_ATT_OP_SIGNED_WRITE_CMD_def ATT_OP_SIGNED_MASK_def get_op_type_def
        att_opcode_type_table_def bt_att_ops)
  let ?n = "\<lparr>an_id = 1, an_opcode = ucast BT_ATT_OP_SIGNED_WRITE_CMD, an_callback = Some 1, an_destroy = None, an_user_data = None\<rparr>"
  have l: "notify_list ?s = [0]" "notifies ?s 0 = Some ?n" "has_crypto ?s" "att_log ?s = []"
    by (simp_all add: bt_att_register_def le_att_eq Let_def)
  have os: "run_notify plain_os 1 BT_ATT_OP_SIGNED_WRITE_CMD pdu ud (s :: unit bt_att_scheme) = Some s" for pdu ud s by (simp add: plain_os_def)
  from signed_writes_unchecked [OF w l(1,2) _ _ m(2,3) os, of "[1]"] m(1) l(3,4) show ?thesis by auto
qed

text \<open>A request that is tried again at a higher security level keeps the time-out of its first attempt, which
  then cuts the second one short; whether the error is about this request is not checked.\<close>

theorem retry_keeps_timer:
  assumes "pending_req s = Some a" "send_ops s a = Some op" "length pdu = 4" "change_security os (pdu ! 3) s = (True, s1)"
  shows "\<exists>s'. handle_rsp os BT_ATT_OP_ERROR_RSP pdu s = Some s' \<and> timers s' = timers s \<and> send_ops s' = send_ops s
     \<and> pending_req s' = None \<and> req_queue s' = a # req_queue s"
proof -
  have "s1 = s \<or> (\<exists>l. s1 = s\<lparr>io_sec_level := l\<rparr>)"
    using assms(4) by (auto simp: change_security_def bt_att_set_security_def Let_def split: if_splits)
  then have "pending_req s1 = Some a" "timers s1 = timers s" "send_ops s1 = send_ops s" "req_queue s1 = req_queue s"
    using assms(1) by auto
  with assms show ?thesis by (simp add: handle_rsp_def handle_error_rsp_def wakeup_writer_def)
qed

end
