(* ===== verification/Gattrib.thy ===== *)
theory Gattrib
  imports Att_App
begin

text \<open>
  \<open>bluez/bluez5/attrib/gattrib.c\<close>: the interface by which \<open>attrib/gatt.c\<close> and the socket back end use the transport of
  the theory \<open>Bt_Att\<close>. Its state extends that of the transport. For every request or notification handler
  it keeps an \<open>attrib_callbacks\<close> with the functions of the user, whose address is the user data that the transport gets;
  for every request also the pair of the identifier the user knows and the one of the transport. \<open>None\<close> is
  undefined behaviour, in particular the use of an \<open>attrib_callbacks\<close> or of the \<open>GAttrib\<close> after it has been freed.

  The three functions of the file that the transport calls back are numbered (\<open>ATTRIB_CALLBACK_RESULT\<close> and so on);
  \<open>attrib_os\<close> adds them to the surroundings of the transport. The functions of the user are an argument
  (\<open>gattrib_os\<close>), and so is whether \<open>calloc\<close> succeeds; \<open>new0\<close> and \<open>g_realloc\<close> end the program when it does not.
  \<open>ga_log\<close> records the calls of the user's functions. A \<open>GAttrib\<close> pointer that is NULL, which every function answers
  with 0 or \<open>FALSE\<close>, is not modelled, nor are the debug messages.
\<close>

section \<open>State\<close>

record id_pair =
  org_id :: u32
  pend_id :: u32

record attrib_callbacks =
  ac_id :: ptr
  ac_result_func :: "fid option"
  ac_notify_func :: "fid option"
  ac_destroy_func :: "fid option"
  ac_user_data :: ptr
  ac_notify_handle :: u16

datatype gattrib_event =
    Result_Func fid u8 "u8 list" ptr
  | Notify_Func fid "u8 list" ptr
  | Destroy_Func fid ptr

record gattrib = bt_att +
  ga_ref_count :: int
  ga_freed :: bool
  ga_destroy :: "fid option"
  ga_destroy_user_data :: ptr
  ga_callbacks :: "addr list"
  ga_buf :: nat
  ga_buflen :: int
  ga_track_ids :: "addr list"
  ga_cbs :: "addr \<Rightarrow> attrib_callbacks option"
  ga_ids :: "addr \<Rightarrow> id_pair option"
  ga_next :: addr
  ga_log :: "gattrib_event list"

text \<open>\<open>ga_buf\<close> is the size of the buffer that has been allocated.\<close>

record 'z gattrib_os =
  run_result_func :: "fid \<Rightarrow> u8 \<Rightarrow> u8 list \<Rightarrow> ptr \<Rightarrow> 'z gattrib_scheme \<Rightarrow> 'z gattrib_scheme option"
  run_notify_func :: "fid \<Rightarrow> u8 list \<Rightarrow> ptr \<Rightarrow> 'z gattrib_scheme \<Rightarrow> 'z gattrib_scheme option"
  run_destroy_func :: "fid \<Rightarrow> ptr \<Rightarrow> 'z gattrib_scheme \<Rightarrow> 'z gattrib_scheme option"
  calloc_ok :: bool

definition GATTRIB_ALL_REQS :: u8 where "GATTRIB_ALL_REQS = 0xFE"
definition GATTRIB_ALL_HANDLES :: u16 where "GATTRIB_ALL_HANDLES = 0x0000"

definition ATTRIB_CALLBACK_RESULT :: fid where "ATTRIB_CALLBACK_RESULT = 0"
definition ATTRIB_CALLBACK_NOTIFY :: fid where "ATTRIB_CALLBACK_NOTIFY = 1"
definition ATTRIB_CALLBACKS_REMOVE :: fid where "ATTRIB_CALLBACKS_REMOVE = 2"

definition log_attrib :: "gattrib_event \<Rightarrow> 'z gattrib_scheme \<Rightarrow> 'z gattrib_scheme" where
  "log_attrib e s = s\<lparr>ga_log := ga_log s @ [e]\<rparr>"

definition alive_attrib :: "'z gattrib_scheme \<Rightarrow> 'z gattrib_scheme option" where
  "alive_attrib s = (if ga_freed s then None else Some s)"

section \<open>Callbacks\<close>

text \<open>\<open>new0\<close> and the queue operation after it: the entry at \<open>ga_next\<close>.\<close>

definition push_callbacks :: "attrib_callbacks \<Rightarrow> 'z gattrib_scheme \<Rightarrow> addr \<times> 'z gattrib_scheme" where
  "push_callbacks cb s = (ga_next s, s\<lparr>ga_cbs := (ga_cbs s)(ga_next s \<mapsto> cb), ga_next := ga_next s + 1,
     ga_callbacks := ga_next s # ga_callbacks s\<rparr>)"

definition store_id :: "u32 \<Rightarrow> u32 \<Rightarrow> 'z gattrib_scheme \<Rightarrow> addr \<times> 'z gattrib_scheme" where
  "store_id org pend s = (ga_next s, s\<lparr>ga_ids := (ga_ids s)(ga_next s \<mapsto> \<lparr>org_id = org, pend_id = pend\<rparr>), ga_next := ga_next s + 1,
     ga_track_ids := ga_track_ids s @ [ga_next s]\<rparr>)"

definition free_id :: "addr \<Rightarrow> 'z gattrib_scheme \<Rightarrow> 'z gattrib_scheme option" where
  "free_id p s = do { _ \<leftarrow> ga_ids s p; Some (s\<lparr>ga_ids := (ga_ids s)(p := None)\<rparr>) }"

definition call_destroy_func :: "'z gattrib_os \<Rightarrow> fid option \<Rightarrow> ptr \<Rightarrow> 'z gattrib_scheme \<Rightarrow> 'z gattrib_scheme option" where
  "call_destroy_func g fn ud s = (case fn of None \<Rightarrow> Some s
     | Some f \<Rightarrow> run_destroy_func g f ud (log_attrib (Destroy_Func f ud) s))"

definition attrib_callbacks_destroy :: "'z gattrib_os \<Rightarrow> addr \<Rightarrow> 'z gattrib_scheme \<Rightarrow> 'z gattrib_scheme option" where
  "attrib_callbacks_destroy g c s = do {
     cb \<leftarrow> ga_cbs s c;
     s \<leftarrow> call_destroy_func g (ac_destroy_func cb) (ac_user_data cb) s;
     cb \<leftarrow> ga_cbs s c;
     s \<leftarrow> alive_attrib s;
     s \<leftarrow> (case ac_id cb of None \<Rightarrow> Some s
        | Some p \<Rightarrow> if p \<in> set (ga_track_ids s) then free_id p (s\<lparr>ga_track_ids := remove1 p (ga_track_ids s)\<rparr>) else Some s);
     Some (s\<lparr>ga_cbs := (ga_cbs s)(c := None)\<rparr>) }"

definition attrib_callbacks_remove :: "'z gattrib_os \<Rightarrow> ptr \<Rightarrow> 'z gattrib_scheme \<Rightarrow> 'z gattrib_scheme option" where
  "attrib_callbacks_remove g data s = (case data of None \<Rightarrow> Some s
     | Some c \<Rightarrow> do {
         _ \<leftarrow> ga_cbs s c;
         s \<leftarrow> alive_attrib s;
         if c \<in> set (ga_callbacks s) then attrib_callbacks_destroy g c (s\<lparr>ga_callbacks := remove1 c (ga_callbacks s)\<rparr>)
         else Some s })"

text \<open>The status and the copy of the PDU that the user's function gets are those of the theory \<open>Gatt\<close>.\<close>

definition attrib_callback_result_at :: "'z gattrib_os \<Rightarrow> u8 \<Rightarrow> u8 list \<Rightarrow> ptr \<Rightarrow> 'z gattrib_scheme \<Rightarrow> 'z gattrib_scheme option" where
  "attrib_callback_result_at g opcode pdu user_data s = (case user_data of None \<Rightarrow> Some s
     | Some c \<Rightarrow> (case attrib_callback_result (calloc_ok g) opcode pdu of None \<Rightarrow> Some s
       | Some (status, buf) \<Rightarrow> do {
           cb \<leftarrow> ga_cbs s c;
           case ac_result_func cb of None \<Rightarrow> Some s
           | Some f \<Rightarrow> run_result_func g f status buf (ac_user_data cb) (log_attrib (Result_Func f status buf (ac_user_data cb)) s) }))"

definition attrib_callback_notify :: "'z gattrib_os \<Rightarrow> u8 \<Rightarrow> u8 list \<Rightarrow> ptr \<Rightarrow> 'z gattrib_scheme \<Rightarrow> 'z gattrib_scheme option" where
  "attrib_callback_notify g opcode pdu user_data s = (case user_data of None \<Rightarrow> Some s
     | Some c \<Rightarrow> do {
         cb \<leftarrow> ga_cbs s c;
         case ac_notify_func cb of None \<Rightarrow> Some s
         | Some f \<Rightarrow>
             if ac_notify_handle cb \<noteq> GATTRIB_ALL_HANDLES \<and> length pdu < 2 then Some s
             else if ac_notify_handle cb \<noteq> GATTRIB_ALL_HANDLES \<and> ac_notify_handle cb \<noteq> get_le16 pdu 0 then Some s
             else (case construct_full_pdu (calloc_ok g) opcode pdu of None \<Rightarrow> Some s
               | Some buf \<Rightarrow> run_notify_func g f buf (ac_user_data cb) (log_attrib (Notify_Func f buf (ac_user_data cb)) s)) })"

text \<open>The surroundings of the transport, with the functions of this file in them.\<close>

definition attrib_os :: "'z gattrib_os \<Rightarrow> 'z gattrib_ext att_os \<Rightarrow> 'z gattrib_ext att_os" where
  "attrib_os g os = os\<lparr>
     run_response := (\<lambda>f opcode pdu ud. if f = ATTRIB_CALLBACK_RESULT then attrib_callback_result_at g opcode pdu ud else run_response os f opcode pdu ud),
     run_notify := (\<lambda>f opcode pdu ud. if f = ATTRIB_CALLBACK_NOTIFY then attrib_callback_notify g opcode pdu ud else run_notify os f opcode pdu ud),
     run_destroy := (\<lambda>f ud. if f = ATTRIB_CALLBACKS_REMOVE then attrib_callbacks_remove g ud else run_destroy os f ud)\<rparr>"

section \<open>Creation and release\<close>

definition g_attrib_ref :: "'z gattrib_scheme \<Rightarrow> 'z gattrib_scheme" where
  "g_attrib_ref s = s\<lparr>ga_ref_count := ga_ref_count s + 1\<rparr>"

text \<open>The channel is a descriptor, \<open>None\<close> when the pointer is NULL; \<open>buf_ok\<close>: the buffer can be allocated.\<close>

definition g_attrib_new :: "unit gattrib_ext att_os \<Rightarrow> att_socket \<Rightarrow> int option \<Rightarrow> u16 \<Rightarrow> bool \<Rightarrow> bool \<Rightarrow> gattrib option" where
  "g_attrib_new os sk io mtu ext_signed buf_ok = (case io of None \<Rightarrow> None
     | Some fd \<Rightarrow> do {
         s \<leftarrow> bt_att_new sk fd ext_signed (gattrib.fields 0 False None None [] 0 0 [] Map.empty Map.empty 0 []);
         case bt_att_set_mtu os mtu s of (False, _) \<Rightarrow> None
         | (True, s) \<Rightarrow> if buf_ok then Some (g_attrib_ref (s\<lparr>ga_buf := unat mtu, ga_buflen := int (unat mtu)\<rparr>)) else None })"

definition g_attrib_unref :: "'z gattrib_os \<Rightarrow> 'z gattrib_ext att_os \<Rightarrow> 'z gattrib_scheme \<Rightarrow> 'z gattrib_scheme option" where
  "g_attrib_unref g os s = do {
     s \<leftarrow> alive_attrib s;
     let s = s\<lparr>ga_ref_count := ga_ref_count s - 1\<rparr>;
     if ga_ref_count s \<noteq> 0 then Some s
     else do {
       s \<leftarrow> call_destroy_func g (ga_destroy s) (ga_destroy_user_data s) s;
       s \<leftarrow> alive_attrib s;
       s \<leftarrow> bt_att_unref (attrib_os g os) s;
       s \<leftarrow> alive_attrib s;
       s \<leftarrow> each (attrib_callbacks_destroy g) (ga_callbacks s) (s\<lparr>ga_callbacks := []\<rparr>);
       s \<leftarrow> alive_attrib s;
       s \<leftarrow> each free_id (ga_track_ids s) (s\<lparr>ga_track_ids := []\<rparr>);
       Some (s\<lparr>ga_freed := True\<rparr>) } }"

definition g_attrib_set_destroy_function :: "fid option \<Rightarrow> ptr \<Rightarrow> 'z gattrib_scheme \<Rightarrow> bool \<times> 'z gattrib_scheme" where
  "g_attrib_set_destroy_function destroy user_data s = (True, s\<lparr>ga_destroy := destroy, ga_destroy_user_data := user_data\<rparr>)"

section \<open>Requests\<close>

definition g_attrib_send :: "'z gattrib_os \<Rightarrow> 'z gattrib_ext att_os \<Rightarrow> u32 \<Rightarrow> u8 list \<Rightarrow> fid option \<Rightarrow> ptr \<Rightarrow> fid option
    \<Rightarrow> 'z gattrib_scheme \<Rightarrow> (u32 \<times> 'z gattrib_scheme) option" where
  "g_attrib_send g os ident pdu func user_data notify s =
    (if pdu = [] then Some (0, s)
     else do {
       let (cb, s) = (if func \<noteq> None \<or> notify \<noteq> None
         then (case push_callbacks \<lparr>ac_id = None, ac_result_func = func, ac_notify_func = None, ac_destroy_func = notify,
                 ac_user_data = user_data, ac_notify_handle = 0\<rparr> s of (c, s) \<Rightarrow> (Some c, s))
         else (None, s));
       (pend, s) \<leftarrow> bt_att_send (attrib_os g os) (hd pdu) (Some (tl pdu)) (of_nat (length pdu) - 1)
         (if cb = None then None else Some ATTRIB_CALLBACK_RESULT) cb (if cb = None then None else Some ATTRIB_CALLBACKS_REMOVE) s;
       let ident = (if ident = 0 then pend else ident);
       case cb of None \<Rightarrow> Some (ident, s)
       | Some c \<Rightarrow> (case store_id ident pend s of (p, s) \<Rightarrow> do {
           x \<leftarrow> ga_cbs s c;
           Some (ident, s\<lparr>ga_cbs := (ga_cbs s)(c \<mapsto> x\<lparr>ac_id := Some p\<rparr>)\<rparr>) }) })"

definition g_attrib_cancel :: "'z gattrib_os \<Rightarrow> 'z gattrib_ext att_os \<Rightarrow> u32 \<Rightarrow> 'z gattrib_scheme \<Rightarrow> (bool \<times> 'z gattrib_scheme) option" where
  "g_attrib_cancel g os ident s = do {
     found \<leftarrow> find_addr (\<lambda>p. org_id p = ident) (ga_ids s) (ga_track_ids s);
     case found of None \<Rightarrow> Some (False, s)
     | Some p \<Rightarrow> do {
         pair \<leftarrow> ga_ids s p;
         s \<leftarrow> free_id p (s\<lparr>ga_track_ids := remove1 p (ga_track_ids s)\<rparr>);
         bt_att_cancel (attrib_os g os) (pend_id pair) s } }"

definition cancel_request :: "'z gattrib_os \<Rightarrow> 'z gattrib_ext att_os \<Rightarrow> addr \<Rightarrow> 'z gattrib_scheme \<Rightarrow> 'z gattrib_scheme option" where
  "cancel_request g os p s = do { pair \<leftarrow> ga_ids s p; (_, s) \<leftarrow> bt_att_cancel (attrib_os g os) (pend_id pair) s; Some s }"

text \<open>\<open>queue_foreach\<close> over the identifiers.\<close>

partial_function (option) cancel_requests :: "'z gattrib_os \<Rightarrow> 'z gattrib_ext att_os \<Rightarrow> ptr \<Rightarrow> 'z gattrib_scheme \<Rightarrow> 'z gattrib_scheme option" where
  "cancel_requests g os entry s = (case entry of None \<Rightarrow> Some s
     | Some p \<Rightarrow> if ga_track_ids s = [] then Some s
         else do {
           nxt \<leftarrow> next_entry p (ga_track_ids s);
           s \<leftarrow> cancel_request g os p s;
           s \<leftarrow> alive_attrib s;
           cancel_requests g os nxt s })"

definition g_attrib_cancel_all :: "'z gattrib_os \<Rightarrow> 'z gattrib_ext att_os \<Rightarrow> 'z gattrib_scheme \<Rightarrow> (bool \<times> 'z gattrib_scheme) option" where
  "g_attrib_cancel_all g os s = do {
     s \<leftarrow> cancel_requests g os (first_entry (ga_track_ids s)) s;
     s \<leftarrow> each free_id (ga_track_ids s) (s\<lparr>ga_track_ids := []\<rparr>);
     Some (True, s) }"

section \<open>Notifications\<close>

definition g_attrib_register :: "u8 \<Rightarrow> u16 \<Rightarrow> fid option \<Rightarrow> ptr \<Rightarrow> fid option \<Rightarrow> 'z gattrib_scheme \<Rightarrow> u32 \<times> 'z gattrib_scheme" where
  "g_attrib_register opcode handle func user_data notify s =
    (let (cb, s) = (if func \<noteq> None \<or> notify \<noteq> None
         then (case push_callbacks \<lparr>ac_id = None, ac_result_func = None, ac_notify_func = func, ac_destroy_func = notify,
                 ac_user_data = user_data, ac_notify_handle = handle\<rparr> s of (c, s) \<Rightarrow> (Some c, s))
         else (None, s));
         opcode = (if opcode = GATTRIB_ALL_REQS then BT_ATT_ALL_REQUESTS else opcode)
     in bt_att_register opcode (Some ATTRIB_CALLBACK_NOTIFY) cb (Some ATTRIB_CALLBACKS_REMOVE) s)"

definition g_attrib_unregister :: "'z gattrib_os \<Rightarrow> 'z gattrib_ext att_os \<Rightarrow> u32 \<Rightarrow> 'z gattrib_scheme \<Rightarrow> (bool \<times> 'z gattrib_scheme) option" where
  "g_attrib_unregister g os ident s = bt_att_unregister (attrib_os g os) ident s"

definition g_attrib_unregister_all :: "'z gattrib_os \<Rightarrow> 'z gattrib_ext att_os \<Rightarrow> 'z gattrib_scheme \<Rightarrow> (bool \<times> 'z gattrib_scheme) option" where
  "g_attrib_unregister_all g os s = do { s \<leftarrow> bt_att_unregister_all (attrib_os g os) s; Some (True, s) }"

section \<open>The buffer\<close>

text \<open>The buffer is replaced when it is too small: its size and the length that is reported.\<close>

definition grow_buffer :: "int \<Rightarrow> 'z gattrib_scheme \<Rightarrow> 'z gattrib_scheme" where
  "grow_buffer mtu s = s\<lparr>ga_buf := (if ga_buflen s < mtu then nat mtu else ga_buf s), ga_buflen := mtu\<rparr>"

definition g_attrib_get_buffer :: "'z gattrib_scheme \<Rightarrow> nat \<times> 'z gattrib_scheme" where
  "g_attrib_get_buffer s = (let s = grow_buffer (int (unat (bt_att_get_mtu s))) s in (nat (ga_buflen s), s))"

definition g_attrib_set_mtu :: "'z gattrib_ext att_os \<Rightarrow> i32 \<Rightarrow> 'z gattrib_scheme \<Rightarrow> bool \<times> 'z gattrib_scheme" where
  "g_attrib_set_mtu os mtu s = bt_att_set_mtu os (ucast mtu) (grow_buffer (sint mtu) s)"

section \<open>A request and its answer\<close>

text \<open>Functions of the user that do nothing more to the transport or to this file.\<close>

definition quiet :: "'z gattrib_os \<Rightarrow> bool" where
  "quiet g \<longleftrightarrow> (\<forall>f status pdu ud s. run_result_func g f status pdu ud s = Some s) \<and> (\<forall>f pdu ud s. run_notify_func g f pdu ud s = Some s)
     \<and> (\<forall>f ud s. run_destroy_func g f ud s = Some s)"

text \<open>The objects of this file: allocated below \<open>ga_next\<close>.\<close>

definition wf_attrib :: "'z gattrib_scheme \<Rightarrow> bool" where
  "wf_attrib s \<longleftrightarrow> \<not> ga_freed s \<and> (\<forall>a\<in>dom (ga_cbs s) \<union> dom (ga_ids s) \<union> set (ga_callbacks s) \<union> set (ga_track_ids s). a < ga_next s)"

text \<open>A transport that has nothing to send or to wait for.\<close>

definition idle_att :: "'z bt_att_scheme \<Rightarrow> bool" where
  "idle_att s \<longleftrightarrow> \<not> freed s \<and> 0 < att_ref_count s \<and> has_io s \<and> req_queue s = [] \<and> pending_req s = None \<and> pending_ind s = None \<and> ind_queue s = [] \<and> write_queue s = []
     \<and> send_ops s (next_addr s) = None \<and> 0 < next_timer s \<and> (\<forall>t\<in>set (timers s). fst t < next_timer s)"

text \<open>The state \<open>s1\<close> is \<open>s\<close> with a request more: the operation \<open>op\<close> at \<open>a\<close>, its callbacks at \<open>c\<close> and, unless it has
  been cancelled, the pair of its identifiers at \<open>p\<close>.\<close>

definition tracked :: "'z gattrib_scheme \<Rightarrow> (addr \<times> id_pair) option \<Rightarrow> (addr \<Rightarrow> id_pair option) \<Rightarrow> addr list \<Rightarrow> bool" where
  "tracked s ident ids track = (case ident of None \<Rightarrow> ids = ga_ids s \<and> track = ga_track_ids s
     | Some (p, pair) \<Rightarrow> ids = (ga_ids s)(p \<mapsto> pair) \<and> track = ga_track_ids s @ [p])"

definition with_request :: "'z gattrib_scheme \<Rightarrow> addr \<Rightarrow> att_send_op \<Rightarrow> addr \<Rightarrow> attrib_callbacks \<Rightarrow> (addr \<times> id_pair) option \<Rightarrow> 'z gattrib_scheme \<Rightarrow> bool" where
  "with_request s a op c cb ident s1 \<longleftrightarrow>
     send_ops s1 = (send_ops s)(a \<mapsto> op) \<and> ga_cbs s1 = (ga_cbs s)(c \<mapsto> cb) \<and> ga_callbacks s1 = c # ga_callbacks s
     \<and> tracked s ident (ga_ids s1) (ga_track_ids s1)
     \<and> ga_freed s1 = ga_freed s \<and> freed s1 = freed s \<and> io_sec_level s1 = io_sec_level s
     \<and> ind_queue s1 = [] \<and> write_queue s1 = [] \<and> pending_ind s1 = pending_ind s"

text \<open>Nothing that belongs to a request is left.\<close>

definition released :: "'z gattrib_scheme \<Rightarrow> 'z gattrib_scheme \<Rightarrow> bool" where
  "released s s1 \<longleftrightarrow> send_ops s1 = send_ops s \<and> ga_cbs s1 = ga_cbs s \<and> ga_callbacks s1 = ga_callbacks s \<and> ga_ids s1 = ga_ids s
     \<and> ga_track_ids s1 = ga_track_ids s \<and> ga_freed s1 = ga_freed s \<and> freed s1 = freed s \<and> timers s1 = timers s"

definition request_op :: "u32 \<Rightarrow> u8 list \<Rightarrow> addr \<Rightarrow> att_send_op" where
  "request_op ident pdu c = \<lparr>so_id = ident, so_timeout_id = 0, so_type = ATT_OP_TYPE_REQ, so_opcode = hd pdu, so_pdu = pdu,
     so_callback = Some ATTRIB_CALLBACK_RESULT, so_destroy = Some ATTRIB_CALLBACKS_REMOVE, so_user_data = Some c\<rparr>"

definition request_callbacks :: "fid \<Rightarrow> ptr \<Rightarrow> fid \<Rightarrow> ptr \<Rightarrow> attrib_callbacks" where
  "request_callbacks f ud d p = \<lparr>ac_id = p, ac_result_func = Some f, ac_notify_func = None, ac_destroy_func = Some d,
     ac_user_data = ud, ac_notify_handle = 0\<rparr>"

definition fresh_id :: "'z bt_att_scheme \<Rightarrow> u32" where
  "fresh_id s = (if next_send_id s < 1 then 1 else next_send_id s)"

lemma attrib_os_simps:
  "run_response (attrib_os g os) ATTRIB_CALLBACK_RESULT = attrib_callback_result_at g"
  "run_notify (attrib_os g os) ATTRIB_CALLBACK_NOTIFY = attrib_callback_notify g"
  "run_destroy (attrib_os g os) ATTRIB_CALLBACKS_REMOVE = attrib_callbacks_remove g"
  "alloc_ok (attrib_os g os) = alloc_ok os" "watch_ok (attrib_os g os) = watch_ok os"
  "counter (attrib_os g os) = counter os" "sign_att (attrib_os g os) = sign_att os"
  "get_sec_level (attrib_os g os) = get_sec_level os" "set_sec_ok (attrib_os g os) = set_sec_ok os"
  by (auto simp: attrib_os_def fun_eq_iff)

lemma wakeup_active:
  assumes "req_queue s \<noteq> []" "pending_req s = None" "has_io s" "watch_ok os"
  shows "wakeup_writer os s = s\<lparr>writer_active := True\<rparr>"
proof -
  have "writer_active s \<Longrightarrow> s\<lparr>writer_active := True\<rparr> = s" by (cases s) simp
  then show ?thesis using assms by (auto simp: wakeup_writer_def)
qed

lemma send_request:
  assumes idle: "idle_att s" and wf: "wf_attrib s" and os: "alloc_ok os" "watch_ok os"
    and op: "get_op_type opcode = ATT_OP_TYPE_REQ" "1 + length bytes \<le> unat (att_mtu s)"
  obtains s1 where
    "g_attrib_send g os ident (opcode # bytes) (Some f) ud (Some d) s = Some (if ident = 0 then fresh_id s else ident, s1)"
    "with_request s (next_addr s) (request_op (fresh_id s) (opcode # bytes) (ga_next s)) (ga_next s)
       (request_callbacks f ud d (Some (ga_next s + 1)))
       (Some (ga_next s + 1, \<lparr>org_id = if ident = 0 then fresh_id s else ident, pend_id = fresh_id s\<rparr>)) s1"
    "ga_log s1 = ga_log s" "att_ref_count s1 = att_ref_count s"
    "req_queue s1 = [next_addr s]" "pending_req s1 = None" "writer_active s1" "timers s1 = timers s" "next_timer s1 = next_timer s"
    "att_log s1 = att_log s"
proof -
  have i: "pending_req s = None" "req_queue s = []" "ind_queue s = []" "write_queue s = []" "has_io s"
    using idle by (simp_all add: idle_att_def)
  let ?c = "ga_next s"
  obtain s0 where s0: "push_callbacks (request_callbacks f ud d None) s = (?c, s0)"
      "s0 = s\<lparr>ga_cbs := (ga_cbs s)(?c \<mapsto> request_callbacks f ud d None), ga_next := ?c + 1, ga_callbacks := ?c # ga_callbacks s\<rparr>"
    by (simp add: push_callbacks_def)
  have mtu: "1 + length bytes \<le> unat (att_mtu s0)" using op(2) by (simp add: s0(2))
  have len: "of_nat (length (opcode # bytes)) - 1 = (of_nat (length bytes) :: u16)" by simp
  note enc = encode_request [OF op(1) mtu, where os = "attrib_os g os"]
  let ?s0 = "s0\<lparr>next_send_id := fresh_id s + 1, send_ops := (send_ops s)(next_addr s \<mapsto> request_op (fresh_id s) (opcode # bytes) ?c),
      next_addr := next_addr s + 1, req_queue := [next_addr s]\<rparr>"
  let ?s1 = "?s0\<lparr>writer_active := True\<rparr>"
  have wake: "wakeup_writer (attrib_os g os) ?s0 = ?s1"
    by (rule wakeup_active) (use i os in \<open>simp_all add: attrib_os_simps s0(2)\<close>)
  have sent: "bt_att_send (attrib_os g os) opcode (Some bytes) (of_nat (length bytes)) (Some ATTRIB_CALLBACK_RESULT) (Some ?c)
        (Some ATTRIB_CALLBACKS_REMOVE) s0 = Some (fresh_id s, wakeup_writer (attrib_os g os) ?s0)"
    using i op(1) os enc
    by (simp add: bt_att_send_def create_att_send_op_def attrib_os_simps enqueue_op_def Let_def fresh_id_def request_op_def s0(2))
  obtain s1 where s1: "bt_att_send (attrib_os g os) opcode (Some bytes) (of_nat (length bytes)) (Some ATTRIB_CALLBACK_RESULT) (Some ?c)
        (Some ATTRIB_CALLBACKS_REMOVE) s0 = Some (fresh_id s, s1)" and e1: "s1 = ?s1"
    using sent wake by simp
  have s1f: "ga_cbs s1 = ga_cbs s0" "ga_next s1 = ?c + 1" by (simp_all add: e1 s0(2))
  have cb: "ga_cbs s1 ?c = Some (request_callbacks f ud d None)" using s1f by (simp add: s0(2))
  let ?i = "if ident = 0 then fresh_id s else ident"
  let ?s2 = "s1\<lparr>ga_ids := (ga_ids s1)(ga_next s1 \<mapsto> \<lparr>org_id = ?i, pend_id = fresh_id s\<rparr>), ga_next := ga_next s1 + 1,
     ga_track_ids := ga_track_ids s1 @ [ga_next s1]\<rparr>"
  have "g_attrib_send g os ident (opcode # bytes) (Some f) ud (Some d) s
      = Some (?i, ?s2\<lparr>ga_cbs := (ga_cbs s1)(?c \<mapsto> request_callbacks f ud d (Some (ga_next s1)))\<rparr>)"
    using s0(1) s1 cb len by (simp add: g_attrib_send_def request_callbacks_def store_id_def Let_def)
  moreover have "with_request s (next_addr s) (request_op (fresh_id s) (opcode # bytes) ?c) ?c
       (request_callbacks f ud d (Some (?c + 1))) (Some (?c + 1, \<lparr>org_id = ?i, pend_id = fresh_id s\<rparr>))
       (?s2\<lparr>ga_cbs := (ga_cbs s1)(?c \<mapsto> request_callbacks f ud d (Some (ga_next s1)))\<rparr>)"
    using i by (simp add: with_request_def tracked_def s0(2) e1)
  ultimately show thesis by (rule that) (use i in \<open>simp_all add: e1 s0(2)\<close>)
qed

text \<open>The write handler sends it.\<close>

lemma write_request:
  assumes w: "with_request s a op c cb ident s1" and q: "req_queue s1 = [a]" "pending_req s1 = None" "writer_active s1"
    and op: "so_type op = ATT_OP_TYPE_REQ" "n = length (so_pdu op)"
  obtains s2 where "writable os (int n) s1 = Some s2"
    "with_request s a (op\<lparr>so_timeout_id := next_timer s1\<rparr>) c cb ident s2" "req_queue s2 = []" "pending_req s2 = Some a"
    "timers s2 = timers s1 @ [(next_timer s1, so_id op)]" "att_log s2 = att_log s1 @ [Wrote (so_pdu op)]"
    "ga_log s2 = ga_log s1" "att_ref_count s2 = att_ref_count s1"
  using assms
  by (auto simp: with_request_def writable_def can_write_data_def pick_next_send_op_def log_att_def Let_def)

text \<open>When the operation is destroyed, everything that was allocated for it is released.\<close>

lemma remove_callbacks:
  assumes "quiet g" "ga_cbs x c = Some cb" "c \<in> set (ga_callbacks x)" "\<not> ga_freed x"
    and "ac_destroy_func cb = Some d" "ac_user_data cb = ud" "ac_id cb = Some p"
    and "p \<in> set (ga_track_ids x) \<Longrightarrow> ga_ids x p \<noteq> None"
  obtains x1 where "attrib_callbacks_remove g (Some c) x = Some x1"
    "x1 = x\<lparr>ga_callbacks := remove1 c (ga_callbacks x), ga_log := ga_log x @ [Destroy_Func d ud], ga_track_ids := remove1 p (ga_track_ids x),
       ga_ids := (if p \<in> set (ga_track_ids x) then (ga_ids x)(p := None) else ga_ids x), ga_cbs := (ga_cbs x)(c := None)\<rparr>"
proof -
  have q: "run_destroy_func g d ud y = Some y" for y using assms(1) by (simp add: quiet_def)
  have id: "x\<lparr>ga_callbacks := k, ga_log := l, ga_track_ids := ga_track_ids x, ga_ids := ga_ids x, ga_cbs := m\<rparr>
      = x\<lparr>ga_callbacks := k, ga_log := l, ga_cbs := m\<rparr>" for k l m
    by (cases x) simp
  have "attrib_callbacks_remove g (Some c) x = Some (x\<lparr>ga_callbacks := remove1 c (ga_callbacks x), ga_log := ga_log x @ [Destroy_Func d ud],
       ga_track_ids := remove1 p (ga_track_ids x),
       ga_ids := (if p \<in> set (ga_track_ids x) then (ga_ids x)(p := None) else ga_ids x), ga_cbs := (ga_cbs x)(c := None)\<rparr>)"
  proof (cases "p \<in> set (ga_track_ids x)")
    case True
    then obtain pair where "ga_ids x p = Some pair" using assms(8) by blast
    with True show ?thesis using assms(2-7)
      by (simp add: attrib_callbacks_remove_def attrib_callbacks_destroy_def alive_attrib_def call_destroy_func_def log_attrib_def q free_id_def)
  next
    case False
    then show ?thesis using assms(2-7)
      by (simp add: attrib_callbacks_remove_def attrib_callbacks_destroy_def alive_attrib_def call_destroy_func_def log_attrib_def q
          remove1_idem id)
  qed
  then show thesis by (rule that [OF _ refl])
qed


lemma with_request_cong:
  "with_request s a op c cb ident (log_att e x) = with_request s a op c cb ident x"
  "with_request s a op c cb ident (log_attrib e' x) = with_request s a op c cb ident x"
  "with_request s a op c cb ident (bt_att_ref x) = with_request s a op c cb ident x"
  "with_request s a op c cb ident (timeout_remove i x) = with_request s a op c cb ident x"
  "with_request s a op c cb ident (x\<lparr>req_queue := rq\<rparr>) = with_request s a op c cb ident x"
  by (simp_all add: with_request_def log_att_def log_attrib_def bt_att_ref_def timeout_remove_def)

lemma wf_attrib_fresh:
  assumes "wf_attrib s" "ga_next s \<le> x"
  shows "ga_cbs s x = None" "ga_ids s x = None" "x \<notin> set (ga_callbacks s)" "x \<notin> set (ga_track_ids s)" "\<not> ga_freed s"
proof -
  have "x \<notin> dom (ga_cbs s) \<union> dom (ga_ids s) \<union> set (ga_callbacks s) \<union> set (ga_track_ids s)"
    using assms unfolding wf_attrib_def by (meson not_less)
  then show "ga_cbs s x = None" "ga_ids s x = None" "x \<notin> set (ga_callbacks s)" "x \<notin> set (ga_track_ids s)"
    by (auto simp: domIff)
  show "\<not> ga_freed s" using assms by (simp add: wf_attrib_def)
qed

lemma destroy_request:
  assumes q: "quiet g" and wf: "wf_attrib s" and a: "send_ops s a = None"
    and w: "with_request s a op (ga_next s) (request_callbacks f ud d (Some (ga_next s + 1))) ident x"
    and ident: "\<And>p pair. ident = Some (p, pair) \<Longrightarrow> p = ga_next s + 1"
    and op: "so_destroy op = Some ATTRIB_CALLBACKS_REMOVE" "so_user_data op = Some (ga_next s)"
    and t: "so_timeout_id op \<noteq> 0 \<Longrightarrow> filter (\<lambda>t. fst t \<noteq> so_timeout_id op) (timers x) = timers s" "so_timeout_id op = 0 \<Longrightarrow> timers x = timers s"
  obtains x1 where "destroy_att_send_op (attrib_os g os) a x = Some x1" "released s x1"
    "ga_log x1 = ga_log x @ [Destroy_Func d ud]" "att_ref_count x1 = att_ref_count x" "req_queue x1 = req_queue x"
    "pending_req x1 = pending_req x" "ind_queue x1 = []" "write_queue x1 = []"
proof -
  let ?c = "ga_next s" and ?p = "ga_next s + 1"
  have fresh: "ga_cbs s ?c = None" "ga_ids s ?p = None" "?c \<notin> set (ga_callbacks s)" "?p \<notin> set (ga_track_ids s)" "\<not> ga_freed s"
    using wf_attrib_fresh [OF wf, of ?c] wf_attrib_fresh [OF wf, of ?p] by simp_all
  let ?x = "log_att (Destroyed ATTRIB_CALLBACKS_REMOVE (Some ?c)) (if so_timeout_id op \<noteq> 0 then timeout_remove (so_timeout_id op) x else x)"
  have wx: "with_request s a op ?c (request_callbacks f ud d (Some ?p)) ident ?x"
    using w by (simp add: with_request_cong)
  have xa: "send_ops x a = Some op" using w by (simp add: with_request_def)
  have "?p \<in> set (ga_track_ids ?x) \<Longrightarrow> ga_ids ?x ?p \<noteq> None"
    using wx ident fresh(4) by (auto simp: with_request_def tracked_def split: option.splits)
  then obtain y where y: "attrib_callbacks_remove g (Some ?c) ?x = Some y"
    "y = ?x\<lparr>ga_callbacks := remove1 ?c (ga_callbacks ?x), ga_log := ga_log ?x @ [Destroy_Func d ud], ga_track_ids := remove1 ?p (ga_track_ids ?x),
       ga_ids := (if ?p \<in> set (ga_track_ids ?x) then (ga_ids ?x)(?p := None) else ga_ids ?x), ga_cbs := (ga_cbs ?x)(?c := None)\<rparr>"
    using remove_callbacks [OF q, of ?x ?c "request_callbacks f ud d (Some ?p)" d ud ?p] wx fresh(5)
    by (auto simp: with_request_def request_callbacks_def)
  have run: "destroy_att_send_op (attrib_os g os) a x = Some (y\<lparr>send_ops := (send_ops y)(a := None)\<rparr>)"
    using xa op y(1) by (simp add: destroy_att_send_op_def Let_def call_destroy_fn_def attrib_os_simps free_send_op_def) (simp add: y(2) log_att_def timeout_remove_def)
  have f1: "send_ops y = (send_ops s)(a \<mapsto> op)" "ga_cbs y = ga_cbs s" "ga_callbacks y = ga_callbacks s" "ga_ids y = ga_ids s" "ga_track_ids y = ga_track_ids s"
    "ga_freed y = ga_freed s" "freed y = freed s" "ind_queue y = []" "write_queue y = []"
    using wx ident fresh by (auto simp: y(2) with_request_def tracked_def remove1_append remove1_idem fun_upd_idem split: option.splits)
  have f2: "timers y = timers s" "ga_log y = ga_log x @ [Destroy_Func d ud]" "att_ref_count y = att_ref_count x" "req_queue y = req_queue x"
    "pending_req y = pending_req x"
    using t by (simp_all add: y(2) log_att_def timeout_remove_def)
  show thesis by (rule that [OF run]) (use f1 f2 a in \<open>simp_all add: released_def fun_upd_idem\<close>)
qed

text \<open>The PDUs that end the request \<open>opcode\<close>: its response, or an error that names it and does not ask for more security.\<close>

definition answers :: "u8 \<Rightarrow> u8 \<Rightarrow> u8 list \<Rightarrow> bool" where
  "answers opcode rsp pdu \<longleftrightarrow> get_op_type rsp = ATT_OP_TYPE_RSP \<and>
     (if rsp = BT_ATT_OP_ERROR_RSP then length pdu = 4 \<and> pdu ! 0 = opcode
        \<and> pdu ! 3 \<noteq> BT_ATT_ERROR_INSUFFICIENT_ENCRYPTION \<and> pdu ! 3 \<noteq> BT_ATT_ERROR_AUTHENTICATION
      else get_req_opcode rsp = opcode)"

lemma handle_rsp_answers:
  assumes "answers opcode rsp pdu" "opcode \<noteq> 0" "pending_req x = Some a" "send_ops x a = Some op" "so_opcode op = opcode"
  shows "handle_rsp os rsp pdu x = end_request os a rsp pdu x"
proof (cases "rsp = BT_ATT_OP_ERROR_RSP")
  case True
  then have "change_security os (pdu ! 3) x = (False, x)" using assms(1) by (auto simp: answers_def change_security_def Let_def)
  then show ?thesis using True assms by (simp add: handle_rsp_def handle_error_rsp_def answers_def)
next
  case False
  then show ?thesis using assms by (simp add: handle_rsp_def answers_def Let_def)
qed

lemma unref_one_more:
  assumes "0 < att_ref_count s" "\<not> freed x" "att_ref_count x = att_ref_count s + 1"
  shows "bt_att_unref os x = Some (x\<lparr>att_ref_count := att_ref_count s\<rparr>)"
  using assms by (simp add: bt_att_unref_def alive_def)

lemma released_cong:
  "released s (x\<lparr>att_ref_count := n\<rparr>) = released s x" "released s (x\<lparr>pending_req := p\<rparr>) = released s x"
  "released s (x\<lparr>writer_active := b\<rparr>) = released s x"
  by (simp_all add: released_def)

lemma wakeup_idle: "req_queue s = [] \<Longrightarrow> write_queue s = [] \<Longrightarrow> ind_queue s = [] \<Longrightarrow> wakeup_writer os s = s"
  by (simp add: wakeup_writer_def)

definition result_status :: "u8 \<Rightarrow> u8 list \<Rightarrow> u8" where
  "result_status opcode pdu = (if opcode = BT_ATT_OP_ERROR_RSP then (if length pdu < 4 then BT_ATT_ERROR_UNLIKELY else pdu ! 3) else 0)"

lemma result_callback:
  assumes "quiet g" "calloc_ok g" "ga_cbs x c = Some (request_callbacks f ud d p)"
  shows "attrib_callback_result_at g rsp pdu (Some c) x = Some (log_attrib (Result_Func f (result_status rsp pdu) (rsp # pdu) ud) x)"
  using assms by (simp add: attrib_callback_result_at_def attrib_callback_result_def construct_full_pdu_def result_status_def request_callbacks_def quiet_def)

text \<open>The answer arrives.\<close>

lemma answer_request:
  assumes q: "quiet g" "calloc_ok g" and wf: "wf_attrib s" and a: "send_ops s a = None"
    and w: "with_request s a (request_op i pdu0 (ga_next s)\<lparr>so_timeout_id := t\<rparr>) (ga_next s)
      (request_callbacks f ud d (Some (ga_next s + 1))) (Some (ga_next s + 1, pair)) x"
    and x: "pending_req x = Some a" "req_queue x = []" "timers x = timers s @ [(t, i)]" "att_ref_count x = att_ref_count s" "0 < att_ref_count s" "\<not> freed s"
    and t: "0 < t" "\<forall>u\<in>set (timers s). fst u < t"
    and rsp: "answers (hd pdu0) rsp pdu" "hd pdu0 \<noteq> 0"
  obtains x1 where "can_read_data (attrib_os g os) (Some (rsp # pdu)) x = Some (True, x1)" "released s x1"
    "ga_log x1 = ga_log x @ [Result_Func f (result_status rsp pdu) (rsp # pdu) ud, Destroy_Func d ud]"
    "pending_req x1 = None" "req_queue x1 = []" "ind_queue x1 = []" "write_queue x1 = []"
proof -
  let ?op = "request_op i pdu0 (ga_next s)\<lparr>so_timeout_id := t\<rparr>" and ?c = "ga_next s"
  let ?cb = "request_callbacks f ud d (Some (ga_next s + 1))"
  let ?r = "bt_att_ref x"
  let ?e = "Response ATTRIB_CALLBACK_RESULT rsp pdu (Some ?c)"
  let ?y = "log_attrib (Result_Func f (result_status rsp pdu) (rsp # pdu) ud) (log_att ?e ?r)"
  have wr: "with_request s a ?op ?c ?cb (Some (?c + 1, pair)) ?r" "with_request s a ?op ?c ?cb (Some (?c + 1, pair)) ?y"
    using w by (simp_all add: with_request_cong)
  have ra: "send_ops ?r a = Some ?op" using wr(1) by (simp add: with_request_def)
  have filt: "filter (\<lambda>u. fst u \<noteq> t) (timers x) = timers s" using x(3) t by (auto intro!: filter_True)
  obtain x1 where x1: "destroy_att_send_op (attrib_os g os) a ?y = Some x1" "released s x1" "ga_log x1 = ga_log ?y @ [Destroy_Func d ud]"
      "att_ref_count x1 = att_ref_count ?y" "req_queue x1 = req_queue ?y" "ind_queue x1 = []" "write_queue x1 = []"
    by (rule destroy_request [OF q(1) wf a wr(2)])
      (use filt t in \<open>auto simp: request_op_def log_att_def log_attrib_def bt_att_ref_def\<close>)
  have cbs: "ga_cbs (log_att ?e ?r) ?c = Some ?cb"
    using wr(1) by (simp add: with_request_def log_att_def)
  have f: "\<not> freed x1" using x1(2) x(6) by (simp add: released_def)
  have "end_request (attrib_os g os) a rsp pdu ?r = Some (wakeup_writer (attrib_os g os) (x1\<lparr>pending_req := None\<rparr>))"
    using ra x1(1) f result_callback [OF q cbs, of rsp pdu]
    by (simp add: end_request_def call_response_def request_op_def attrib_os_simps alive_def)
  then have "end_request (attrib_os g os) a rsp pdu ?r = Some (x1\<lparr>pending_req := None\<rparr>)"
    using x1(5-7) x(2) by (simp add: wakeup_idle log_att_def log_attrib_def bt_att_ref_def)
  moreover have "handle_rsp (attrib_os g os) rsp pdu ?r = end_request (attrib_os g os) a rsp pdu ?r"
    using rsp ra x(1) by (intro handle_rsp_answers) (simp_all add: request_op_def bt_att_ref_def)
  moreover have "bt_att_unref (attrib_os g os) (x1\<lparr>pending_req := None\<rparr>) = Some (x1\<lparr>pending_req := None, att_ref_count := att_ref_count s\<rparr>)"
    using unref_one_more [of s "x1\<lparr>pending_req := None\<rparr>"] x(4,5) f x1(4) by (simp add: log_att_def log_attrib_def bt_att_ref_def)
  ultimately have "can_read_data (attrib_os g os) (Some (rsp # pdu)) x = Some (True, x1\<lparr>pending_req := None, att_ref_count := att_ref_count s\<rparr>)"
    using rsp(1) by (simp add: can_read_data_def Let_def answers_def)
  then show thesis
    by (rule that) (use x1 x(2) in \<open>simp_all add: released_cong log_att_def log_attrib_def bt_att_ref_def\<close>)
qed

text \<open>The first two steps of a request.\<close>

lemma request_sent:
  assumes idle: "idle_att s" and wf: "wf_attrib s" and os: "alloc_ok os" "watch_ok os"
    and op: "get_op_type opcode = ATT_OP_TYPE_REQ" "1 + length bytes \<le> unat (att_mtu s)"
    and i: "i = (if ident = 0 then fresh_id s else ident)"
  obtains s1 s2 where "g_attrib_send g os ident (opcode # bytes) (Some f) ud (Some d) s = Some (i, s1)"
    "with_request s (next_addr s) (request_op (fresh_id s) (opcode # bytes) (ga_next s)) (ga_next s)
       (request_callbacks f ud d (Some (ga_next s + 1))) (Some (ga_next s + 1, \<lparr>org_id = i, pend_id = fresh_id s\<rparr>)) s1"
    "req_queue s1 = [next_addr s]" "pending_req s1 = None" "timers s1 = timers s" "ga_log s1 = ga_log s"
    "writable (attrib_os g os) (1 + int (length bytes)) s1 = Some s2"
    "with_request s (next_addr s) (request_op (fresh_id s) (opcode # bytes) (ga_next s)\<lparr>so_timeout_id := next_timer s\<rparr>) (ga_next s)
       (request_callbacks f ud d (Some (ga_next s + 1))) (Some (ga_next s + 1, \<lparr>org_id = i, pend_id = fresh_id s\<rparr>)) s2"
    "req_queue s2 = []" "pending_req s2 = Some (next_addr s)" "timers s2 = timers s @ [(next_timer s, fresh_id s)]"
    "ga_log s2 = ga_log s" "att_ref_count s2 = att_ref_count s" "att_log s2 = att_log s @ [Wrote (opcode # bytes)]"
proof (rule send_request [OF idle wf os op, of g ident f ud d], unfold i [symmetric])
  fix s1
  assume s1: "g_attrib_send g os ident (opcode # bytes) (Some f) ud (Some d) s = Some (i, s1)"
    "with_request s (next_addr s) (request_op (fresh_id s) (opcode # bytes) (ga_next s)) (ga_next s)
       (request_callbacks f ud d (Some (ga_next s + 1))) (Some (ga_next s + 1, \<lparr>org_id = i, pend_id = fresh_id s\<rparr>)) s1"
    "ga_log s1 = ga_log s" "att_ref_count s1 = att_ref_count s" "req_queue s1 = [next_addr s]" "pending_req s1 = None" "writer_active s1"
    "timers s1 = timers s" "next_timer s1 = next_timer s" "att_log s1 = att_log s"
  have op: "so_type (request_op (fresh_id s) (opcode # bytes) (ga_next s)) = ATT_OP_TYPE_REQ"
    "Suc (length bytes) = length (so_pdu (request_op (fresh_id s) (opcode # bytes) (ga_next s)))"
    by (simp_all add: request_op_def)
  show thesis
    by (rule write_request [OF s1(2,5-7) op, of "attrib_os g os"]) (rule that [OF s1(1,2,5,6,8,3)], use s1 in \<open>simp_all add: request_op_def\<close>)
qed


section \<open>Cancelling a request\<close>

lemma find_addr_last:
  assumes "\<forall>q\<in>set as. \<exists>x. h q = Some x \<and> \<not> P x" "h p = Some y" "P y"
  shows "find_addr P h (as @ [p]) = Some (Some p)"
  using assms by (induction as) auto

text \<open>The pair is released first, then the operation is taken out of its queue, or made silent when it has been sent.\<close>

lemma cancel_drops_pair:
  assumes w: "with_request s a op c cb (Some (p, pair)) x"
    and ids: "\<forall>q\<in>set (ga_track_ids s). q \<noteq> p \<and> (\<exists>y. ga_ids s q = Some y \<and> org_id y \<noteq> org_id pair)" and fresh: "ga_ids s p = None"
  obtains x1 where "g_attrib_cancel g os (org_id pair) x = bt_att_cancel (attrib_os g os) (pend_id pair) x1"
    "with_request s a op c cb None x1" "ga_log x1 = ga_log x" "pending_req x1 = pending_req x" "req_queue x1 = req_queue x"
    "timers x1 = timers x" "att_ref_count x1 = att_ref_count x"
proof -
  have t: "ga_track_ids x = ga_track_ids s @ [p]" "ga_ids x = (ga_ids s)(p \<mapsto> pair)"
    using w by (simp_all add: with_request_def tracked_def)
  have "find_addr (\<lambda>y. org_id y = org_id pair) (ga_ids x) (ga_track_ids x) = Some (Some p)"
    unfolding t by (rule find_addr_last) (use ids in auto)
  moreover have "p \<notin> set (ga_track_ids s)" using ids by blast
  ultimately have "g_attrib_cancel g os (org_id pair) x = bt_att_cancel (attrib_os g os) (pend_id pair)
      (x\<lparr>ga_track_ids := ga_track_ids s, ga_ids := ga_ids s\<rparr>)"
    using fresh by (simp add: g_attrib_cancel_def free_id_def t remove1_append fun_upd_idem)
  then show thesis
    by (rule that) (use w in \<open>simp_all add: with_request_def tracked_def\<close>)
qed

lemma cancel_queued:
  assumes q: "quiet g" and wf: "wf_attrib s" and a: "send_ops s a = None"
    and w: "with_request s a (request_op i pdu0 (ga_next s)) (ga_next s) (request_callbacks f ud d (Some (ga_next s + 1))) None x"
    and x: "req_queue x = [a]" "pending_req x = None" "pending_ind s = None" "timers x = timers s" "\<not> freed s" "i \<noteq> 0"
  obtains x1 where "bt_att_cancel (attrib_os g os) i x = Some (True, x1)" "released s x1" "ga_log x1 = ga_log x @ [Destroy_Func d ud]" "req_queue x1 = []"
proof -
  let ?op = "request_op i pdu0 (ga_next s)" and ?x = "x\<lparr>req_queue := []\<rparr>"
  have wx: "with_request s a ?op (ga_next s) (request_callbacks f ud d (Some (ga_next s + 1))) None ?x"
    using w by (simp add: with_request_cong)
  obtain x1 where x1: "destroy_att_send_op (attrib_os g os) a ?x = Some x1" "released s x1" "ga_log x1 = ga_log ?x @ [Destroy_Func d ud]"
      "req_queue x1 = req_queue ?x" "ind_queue x1 = []" "write_queue x1 = []"
    by (rule destroy_request [OF q wf a wx]) (use x in \<open>simp_all add: request_op_def\<close>)
  have op: "send_ops x a = Some ?op" "pending_ind x = None" using w x(3) by (simp_all add: with_request_def)
  have "take_queued i x = Some (Some a, ?x)" using op x(1) by (simp add: take_queued_def request_op_def)
  moreover have "alive x1 = Some x1" using x1(2) x(5) by (simp add: alive_def released_def)
  moreover have "wakeup_writer (attrib_os g os) x1 = x1" using x1(4-6) by (intro wakeup_idle) simp_all
  ultimately have "bt_att_cancel (attrib_os g os) i x = Some (True, x1)"
    using x op x1(1) by (simp add: bt_att_cancel_def op_has_id_def)
  then show thesis by (rule that) (use x1 in simp_all)
qed

lemma cancel_written:
  assumes q: "quiet g" and wf: "wf_attrib s" and a: "send_ops s a = None"
    and w: "with_request s a (request_op i pdu0 (ga_next s)\<lparr>so_timeout_id := t\<rparr>) (ga_next s)
      (request_callbacks f ud d (Some (ga_next s + 1))) None x"
    and x: "req_queue x = []" "pending_req x = Some a" "timers x = timers s @ [(t, i)]" "\<not> freed s" "i \<noteq> 0"
      "att_ref_count x = att_ref_count s" "0 < att_ref_count s"
    and t: "0 < t" "\<forall>u\<in>set (timers s). fst u < t"
    and rsp: "answers (hd pdu0) rsp pdu" "hd pdu0 \<noteq> 0"
  obtains x1 x2 where "bt_att_cancel (attrib_os g os) i x = Some (True, x1)" "can_read_data (attrib_os g os) (Some (rsp # pdu)) x1 = Some (True, x2)"
    "released s x2" "ga_log x2 = ga_log x @ [Destroy_Func d ud]" "pending_req x2 = None"
proof -
  let ?op = "request_op i pdu0 (ga_next s)\<lparr>so_timeout_id := t\<rparr>" and ?c = "ga_next s" and ?p = "ga_next s + 1"
  let ?op1 = "?op\<lparr>so_user_data := None, so_callback := None, so_destroy := None\<rparr>"
  let ?x = "log_att (Destroyed ATTRIB_CALLBACKS_REMOVE (Some ?c)) x"
  have fresh: "ga_cbs s ?c = None" "ga_ids s ?p = None" "?c \<notin> set (ga_callbacks s)" "?p \<notin> set (ga_track_ids s)" "\<not> ga_freed s"
    using wf_attrib_fresh [OF wf, of ?c] wf_attrib_fresh [OF wf, of ?p] by simp_all
  have wx: "with_request s a ?op ?c (request_callbacks f ud d (Some ?p)) None ?x" using w by (simp add: with_request_cong)
  obtain y where y: "attrib_callbacks_remove g (Some ?c) ?x = Some y"
    "y = ?x\<lparr>ga_callbacks := remove1 ?c (ga_callbacks ?x), ga_log := ga_log ?x @ [Destroy_Func d ud], ga_track_ids := remove1 ?p (ga_track_ids ?x),
       ga_ids := (if ?p \<in> set (ga_track_ids ?x) then (ga_ids ?x)(?p := None) else ga_ids ?x), ga_cbs := (ga_cbs ?x)(?c := None)\<rparr>"
    using remove_callbacks [OF q, of ?x ?c "request_callbacks f ud d (Some ?p)" d ud ?p] wx fresh(4,5)
    by (auto simp: with_request_def tracked_def request_callbacks_def)
  have fy: "send_ops y = (send_ops s)(a \<mapsto> ?op)" "ga_cbs y = ga_cbs s" "ga_callbacks y = ga_callbacks s" "ga_ids y = ga_ids s" "ga_track_ids y = ga_track_ids s"
    "ga_freed y = ga_freed s" "freed y = freed s" "ind_queue y = []" "write_queue y = []" "timers y = timers x" "ga_log y = ga_log x @ [Destroy_Func d ud]"
    "att_ref_count y = att_ref_count x" "req_queue y = []" "pending_req y = Some a"
    using wx fresh x by (simp_all add: y(2) with_request_def tracked_def remove1_idem fun_upd_idem log_att_def)
  let ?z = "y\<lparr>send_ops := (send_ops s)(a \<mapsto> ?op1)\<rparr>"
  have "send_ops x a = Some ?op" using w by (simp add: with_request_def)
  then have cancel: "bt_att_cancel (attrib_os g os) i x = Some (True, ?z)"
    using x y(1) fy(1) by (simp add: bt_att_cancel_def op_has_id_def cancel_att_send_op_def call_destroy_fn_def attrib_os_simps request_op_def)
  let ?r = "bt_att_ref ?z"
  let ?v = "timeout_remove t ?r\<lparr>send_ops := send_ops s\<rparr>"
  have ra: "send_ops ?r a = Some ?op1" "pending_req ?r = Some a" "so_opcode ?op1 = hd pdu0" using fy by (simp_all add: bt_att_ref_def request_op_def)
  have filt: "filter (\<lambda>u. fst u \<noteq> t) (timers x) = timers s" using x(3) t by (auto intro!: filter_True)
  have "destroy_att_send_op (attrib_os g os) a ?r = Some ?v"
    using ra(1) t(1) a by (simp add: destroy_att_send_op_def call_destroy_fn_def free_send_op_def timeout_remove_def bt_att_ref_def fun_upd_idem)
  moreover have "alive ?v = Some ?v" using fy x(4) by (simp add: alive_def timeout_remove_def bt_att_ref_def)
  moreover have "wakeup_writer (attrib_os g os) (?v\<lparr>pending_req := None\<rparr>) = ?v\<lparr>pending_req := None\<rparr>"
    using fy by (intro wakeup_idle) (simp_all add: timeout_remove_def bt_att_ref_def)
  ultimately have "end_request (attrib_os g os) a rsp pdu ?r = Some (?v\<lparr>pending_req := None\<rparr>)"
    using ra(1) by (simp add: end_request_def call_response_def)
  then have "handle_rsp (attrib_os g os) rsp pdu ?r = Some (?v\<lparr>pending_req := None\<rparr>)"
    using handle_rsp_answers [OF rsp ra(2,1,3)] by simp
  moreover have "bt_att_unref (attrib_os g os) (?v\<lparr>pending_req := None\<rparr>) = Some (?v\<lparr>pending_req := None, att_ref_count := att_ref_count s\<rparr>)"
    using unref_one_more [of s "?v\<lparr>pending_req := None\<rparr>"] fy x by (simp add: timeout_remove_def bt_att_ref_def)
  ultimately have "can_read_data (attrib_os g os) (Some (rsp # pdu)) ?z = Some (True, ?v\<lparr>pending_req := None, att_ref_count := att_ref_count s\<rparr>)"
    using rsp(1) by (simp add: can_read_data_def Let_def answers_def)
  moreover have "released s (?v\<lparr>pending_req := None, att_ref_count := att_ref_count s\<rparr>)"
    using fy filt by (simp add: released_def timeout_remove_def bt_att_ref_def)
  moreover have "ga_log (?v\<lparr>pending_req := None, att_ref_count := att_ref_count s\<rparr>) = ga_log x @ [Destroy_Func d ud]"
    "pending_req (?v\<lparr>pending_req := None, att_ref_count := att_ref_count s\<rparr>) = None"
    using fy by (simp_all add: timeout_remove_def bt_att_ref_def)
  ultimately show thesis by (rule that [OF cancel])
qed


section \<open>Requests that the transport refuses\<close>

text \<open>C18: A PDU that needs no answer is not sent when a function comes with it, be it only one to destroy the user data:
  \<open>g_attrib_send\<close> then gives the transport a response function, which that refuses for a command. The caller gets the identifier
  it has chosen as if the command had been queued; nothing is written, and the callbacks stay allocated, without an operation that
  would destroy them.\<close>

theorem attrib_command_never_sent:
  assumes "get_op_type opcode = ATT_OP_TYPE_CMD" "func \<noteq> None \<or> notify \<noteq> None"
  shows "\<exists>s1. g_attrib_send g os ident (opcode # bytes) func ud notify s = Some (ident, s1)
     \<and> send_ops s1 = send_ops s \<and> write_queue s1 = write_queue s \<and> req_queue s1 = req_queue s \<and> att_log s1 = att_log s
     \<and> ga_callbacks s1 = ga_next s # ga_callbacks s \<and> ga_log s1 = ga_log s
     \<and> (\<exists>p. ga_track_ids s1 = ga_track_ids s @ [p] \<and> ga_ids s1 p = Some \<lparr>org_id = ident, pend_id = 0\<rparr>)"
proof -
  let ?cb = "\<lparr>ac_id = None, ac_result_func = func, ac_notify_func = None, ac_destroy_func = notify, ac_user_data = ud, ac_notify_handle = 0\<rparr>"
  have "create_att_send_op os' s' opcode (Some bytes) n (Some f) ud' d' = Some None" for os' n f ud' d' and s' :: "'a gattrib_scheme"
    using assms(1) by (simp add: create_att_send_op_def)
  then have refused: "bt_att_send os' opcode (Some bytes) n (Some f) ud' d' s' = Some (0, s')" for os' n f ud' d' and s' :: "'a gattrib_scheme"
    by (simp add: bt_att_send_def)
  have "g_attrib_send g os ident (opcode # bytes) func ud notify s
      = Some (ident, (s\<lparr>ga_cbs := (ga_cbs s)(ga_next s \<mapsto> ?cb), ga_next := ga_next s + 1, ga_callbacks := ga_next s # ga_callbacks s,
          ga_ids := (ga_ids s)(ga_next s + 1 \<mapsto> \<lparr>org_id = ident, pend_id = 0\<rparr>), ga_next := ga_next s + 1 + 1,
          ga_track_ids := ga_track_ids s @ [ga_next s + 1]\<rparr>)\<lparr>ga_cbs := (ga_cbs s)(ga_next s \<mapsto> ?cb\<lparr>ac_id := Some (ga_next s + 1)\<rparr>)\<rparr>)"
    using assms(2) by (simp add: g_attrib_send_def push_callbacks_def store_id_def refused Let_def)
  then show ?thesis by simp
qed

section \<open>Notifications reach the handlers\<close>

text \<open>The call that a handler registered by this file makes for a PDU.\<close>

definition calls_of :: "(addr \<Rightarrow> att_notify option) \<Rightarrow> (addr \<Rightarrow> attrib_callbacks option) \<Rightarrow> u8 \<Rightarrow> u8 list \<Rightarrow> addr \<Rightarrow> gattrib_event list" where
  "calls_of handlers cbs opcode pdu a = (case handlers a of None \<Rightarrow> []
     | Some n \<Rightarrow> if \<not> opcode_match (an_opcode n) opcode then []
         else (case an_user_data n of None \<Rightarrow> []
           | Some c \<Rightarrow> (case cbs c of None \<Rightarrow> []
             | Some cb \<Rightarrow> (case ac_notify_func cb of None \<Rightarrow> []
               | Some f \<Rightarrow> if ac_notify_handle cb = GATTRIB_ALL_HANDLES \<or> 2 \<le> length pdu \<and> ac_notify_handle cb = get_le16 pdu 0
                   then [Notify_Func f (opcode # pdu) (ac_user_data cb)] else []))))"

abbreviation handler_calls :: "'z gattrib_scheme \<Rightarrow> u8 \<Rightarrow> u8 list \<Rightarrow> addr \<Rightarrow> gattrib_event list" where
  "handler_calls s \<equiv> calls_of (notifies s) (ga_cbs s)"

definition attrib_handlers :: "'z gattrib_scheme \<Rightarrow> bool" where
  "attrib_handlers s \<longleftrightarrow> distinct (notify_list s) \<and> (\<forall>a\<in>set (notify_list s). \<exists>n. notifies s a = Some n
     \<and> an_callback n = Some ATTRIB_CALLBACK_NOTIFY \<and> (\<forall>c. an_user_data n = Some c \<longrightarrow> ga_cbs s c \<noteq> None))"

definition same_but_logs :: "'z gattrib_scheme \<Rightarrow> 'z gattrib_scheme \<Rightarrow> bool" where
  "same_but_logs s s' \<longleftrightarrow> s' = s\<lparr>att_log := att_log s', ga_log := ga_log s'\<rparr>"

lemma same_but_logsD:
  assumes "same_but_logs s s'"
  shows "notifies s' = notifies s" "notify_list s' = notify_list s" "ga_cbs s' = ga_cbs s" "freed s' = freed s"
    "att_ref_count s' = att_ref_count s" "send_ops s' = send_ops s" "ga_callbacks s' = ga_callbacks s"
proof -
  define l g where "l = att_log s'" and "g = ga_log s'"
  have "s' = s\<lparr>att_log := l, ga_log := g\<rparr>" using assms by (simp add: same_but_logs_def l_def g_def)
  then show "notifies s' = notifies s" "notify_list s' = notify_list s" "ga_cbs s' = ga_cbs s" "freed s' = freed s"
    "att_ref_count s' = att_ref_count s" "send_ops s' = send_ops s" "ga_callbacks s' = ga_callbacks s" by simp_all
qed

lemma same_but_logs_refl: "same_but_logs s s"
  by (cases s) (simp add: same_but_logs_def)

lemma same_but_logsI: "same_but_logs s (s\<lparr>att_log := l, ga_log := g\<rparr>)"
  by (simp add: same_but_logs_def)

lemma same_but_logs_trans: "same_but_logs s s1 \<Longrightarrow> same_but_logs s1 s2 \<Longrightarrow> same_but_logs s s2"
  unfolding same_but_logs_def
  by (cases s; cases s1; cases s2) simp

lemma handler_calls_cong: "same_but_logs s s' \<Longrightarrow> handler_calls s' = handler_calls s"
  by (simp add: same_but_logsD)

lemma ga_log_same: "ga_log s = l \<Longrightarrow> s\<lparr>ga_log := l\<rparr> = s"
  by (cases s) simp

lemma call_handler:
  assumes q: "quiet g" "calloc_ok g" and n: "notifies s a = Some n" "an_callback n = Some ATTRIB_CALLBACK_NOTIFY"
    "\<And>c. an_user_data n = Some c \<Longrightarrow> ga_cbs s c \<noteq> None" and m: "opcode_match (an_opcode n) opcode"
  obtains s' where "call_notify (attrib_os g os) (an_callback n) opcode pdu (an_user_data n) s = Some s'" "same_but_logs s s'"
    "ga_log s' = ga_log s @ handler_calls s opcode pdu a"
proof -
  let ?s = "log_att (Notified ATTRIB_CALLBACK_NOTIFY opcode pdu (an_user_data n)) s"
  have quiet: "run_notify_func g f buf ud y = Some y" for f buf ud y using q by (simp add: quiet_def)
  have "attrib_callback_notify g opcode pdu (an_user_data n) ?s = Some (?s\<lparr>ga_log := ga_log s @ handler_calls s opcode pdu a\<rparr>)"
  proof -
    have id: "?s\<lparr>ga_log := ga_log s\<rparr> = ?s" by (rule ga_log_same) (simp add: log_att_def)
    show ?thesis
    proof (cases "an_user_data n")
      case None
      then have "handler_calls s opcode pdu a = []" using n m by (simp add: calls_of_def)
      then show ?thesis using id by (simp add: None attrib_callback_notify_def)
    next
      case (Some c)
      then obtain cb where cb: "ga_cbs s c = Some cb" using n(3) by blast
      have calls: "handler_calls s opcode pdu a = (case ac_notify_func cb of None \<Rightarrow> []
          | Some f \<Rightarrow> if ac_notify_handle cb = GATTRIB_ALL_HANDLES \<or> 2 \<le> length pdu \<and> ac_notify_handle cb = get_le16 pdu 0
              then [Notify_Func f (opcode # pdu) (ac_user_data cb)] else [])"
        using Some cb n(1) m by (simp add: calls_of_def)
      have cbs: "ga_cbs ?s c = Some cb" using cb by (simp add: log_att_def)
      show ?thesis
      proof (cases "ac_notify_func cb")
        case None
        then show ?thesis using Some cbs calls id by (simp add: attrib_callback_notify_def)
      next
        case f: (Some f)
        show ?thesis
        proof (cases "ac_notify_handle cb = GATTRIB_ALL_HANDLES \<or> 2 \<le> length pdu \<and> ac_notify_handle cb = get_le16 pdu 0")
          case True
          then have "attrib_callback_notify g opcode pdu (an_user_data n) ?s = Some (log_attrib (Notify_Func f (opcode # pdu) (ac_user_data cb)) ?s)"
            using f Some cbs q(2) quiet by (auto simp: attrib_callback_notify_def construct_full_pdu_def)
          then show ?thesis using True f calls by (simp add: log_attrib_def log_att_def)
        next
          case False
          then have "attrib_callback_notify g opcode pdu (an_user_data n) ?s = Some ?s"
            using f Some cbs by (auto simp: attrib_callback_notify_def)
          moreover have "handler_calls s opcode pdu a = []" using False f by (auto simp: calls)
          ultimately show ?thesis using id by simp
        qed
      qed
    qed
  qed
  then have run: "call_notify (attrib_os g os) (an_callback n) opcode pdu (an_user_data n) s
      = Some (s\<lparr>att_log := att_log s @ [Notified ATTRIB_CALLBACK_NOTIFY opcode pdu (an_user_data n)], ga_log := ga_log s @ handler_calls s opcode pdu a\<rparr>)"
    using n(2) by (simp add: call_notify_def attrib_os_simps) (simp add: log_att_def)
  show thesis by (rule that [OF run same_but_logsI]) simp
qed

lemma handlers_called:
  assumes "quiet g" "calloc_ok g" "attrib_handlers s" "notify_list s = pre @ post" "\<not> freed s"
  shows "\<exists>b s'. notify_handlers (attrib_os g os) opcode pdu (first_entry post) found s = Some (b, s')
    \<and> same_but_logs s s' \<and> ga_log s' = ga_log s @ concat (map (handler_calls s opcode pdu) post)"
  using assms(3-5)
proof (induction post arbitrary: pre found s)
  case Nil
  then show ?case by (subst notify_handlers.simps) (simp add: first_entry_def same_but_logs_refl)
next
  case (Cons a post)
  obtain n where n: "notifies s a = Some n" "an_callback n = Some ATTRIB_CALLBACK_NOTIFY"
    "\<And>c. an_user_data n = Some c \<Longrightarrow> ga_cbs s c \<noteq> None"
    using Cons.prems(1,2) by (fastforce simp: attrib_handlers_def)
  have "a \<notin> set pre" using Cons.prems(1,2) by (simp add: attrib_handlers_def)
  then have nxt: "next_entry a (notify_list s) = Some (first_entry post)" using Cons.prems(2) by (simp add: next_entry_mid)
  have first: "first_entry (a # post) = Some a" by (simp add: first_entry_def)
  show ?case
  proof (cases "opcode_match (an_opcode n) opcode")
    case False
    obtain b s' where "notify_handlers (attrib_os g os) opcode pdu (first_entry post) found s = Some (b, s')"
        "same_but_logs s s'" "ga_log s' = ga_log s @ concat (map (handler_calls s opcode pdu) post)"
      using Cons.IH [OF Cons.prems(1), of "pre @ [a]" found] Cons.prems by auto
    moreover have "handler_calls s opcode pdu a = []" using False n by (simp add: calls_of_def)
    ultimately show ?thesis using False n nxt by (subst notify_handlers.simps) (simp add: first)
  next
    case True
    obtain s1 where s1: "call_notify (attrib_os g os) (an_callback n) opcode pdu (an_user_data n) s = Some s1" "same_but_logs s s1"
        "ga_log s1 = ga_log s @ handler_calls s opcode pdu a"
      by (rule call_handler [OF assms(1,2) n True, where os = os and pdu = pdu])
    note same = same_but_logsD [OF s1(2)]
    have h1: "attrib_handlers s1" using Cons.prems(1) same by (simp add: attrib_handlers_def)
    obtain b s' where s': "notify_handlers (attrib_os g os) opcode pdu (first_entry post) True s1 = Some (b, s')"
        "same_but_logs s1 s'" "ga_log s' = ga_log s1 @ concat (map (handler_calls s opcode pdu) post)"
      using Cons.IH [OF h1, of "pre @ [a]" True] Cons.prems same handler_calls_cong [OF s1(2)] by auto
    have alive: "alive s1 = Some s1" "notify_list s1 \<noteq> []" using Cons.prems same by (simp_all add: alive_def)
    have "notify_handlers (attrib_os g os) opcode pdu (first_entry (a # post)) found s = Some (b, s')"
      using n(1) nxt True s1(1) alive s'(1) by (subst notify_handlers.simps) (simp add: first)
    with s1 s' same_but_logs_trans [OF s1(2) s'(2)] show ?thesis by auto
  qed
qed


section \<open>The buffer\<close>

lemma grow_buffer_fits: "ga_buflen s \<le> int (ga_buf s) \<Longrightarrow> ga_buflen (grow_buffer mtu s) \<le> int (ga_buf (grow_buffer mtu s))"
  by (auto simp: grow_buffer_def)

text \<open>The length that \<open>g_attrib_get_buffer\<close> reports is the MTU, and never more than what is allocated, whatever MTUs have been
  set before, negative or too large for 16 bits included.\<close>

theorem buffer_fits:
  assumes "ga_buflen s \<le> int (ga_buf s)"
  shows "ga_buflen (snd (g_attrib_set_mtu os mtu s)) \<le> int (ga_buf (snd (g_attrib_set_mtu os mtu s)))"
    and "fst (g_attrib_get_buffer (snd (g_attrib_set_mtu os mtu s))) = unat (att_mtu (snd (g_attrib_set_mtu os mtu s)))"
    and "fst (g_attrib_get_buffer (snd (g_attrib_set_mtu os mtu s))) \<le> ga_buf (snd (g_attrib_get_buffer (snd (g_attrib_set_mtu os mtu s))))"
proof -
  have 1: "ga_buflen (grow_buffer (sint mtu) s) \<le> int (ga_buf (grow_buffer (sint mtu) s))" by (rule grow_buffer_fits [OF assms])
  then show 2: "ga_buflen (snd (g_attrib_set_mtu os mtu s)) \<le> int (ga_buf (snd (g_attrib_set_mtu os mtu s)))"
    by (simp add: g_attrib_set_mtu_def bt_att_set_mtu_def)
  show "fst (g_attrib_get_buffer (snd (g_attrib_set_mtu os mtu s))) = unat (att_mtu (snd (g_attrib_set_mtu os mtu s)))"
    by (simp add: g_attrib_get_buffer_def grow_buffer_def bt_att_get_mtu_def Let_def)
  show "fst (g_attrib_get_buffer (snd (g_attrib_set_mtu os mtu s))) \<le> ga_buf (snd (g_attrib_get_buffer (snd (g_attrib_set_mtu os mtu s))))"
    using grow_buffer_fits [OF 2, of "int (unat (bt_att_get_mtu (snd (g_attrib_set_mtu os mtu s))))"]
    by (simp add: g_attrib_get_buffer_def Let_def)
qed

section \<open>A new \<open>GAttrib\<close>\<close>

lemma new_attrib:
  assumes "g_attrib_new os sk io mtu ext_signed buf_ok = Some s"
  shows "idle_att s" "wf_attrib s" "ga_callbacks s = []" "ga_track_ids s = []" "ga_log s = []" "att_log s = []" "att_mtu s = mtu"
    "ga_buflen s \<le> int (ga_buf s)" "notify_list s = []" "notifies s = Map.empty" "next_send_id s = 0" "ga_next s = 0" "ga_cbs s = Map.empty"
proof -
  obtain fd s0 where io: "io = Some fd" and s0: "bt_att_new sk fd ext_signed (gattrib.fields 0 False None None [] 0 0 [] Map.empty Map.empty 0 []) = Some s0"
    using assms by (auto simp: g_attrib_new_def split: option.splits bind_splits)
  have f0: "\<not> freed s0" "0 < att_ref_count s0" "has_io s0" "req_queue s0 = []" "pending_req s0 = None" "pending_ind s0 = None"
      "ind_queue s0 = []" "write_queue s0 = []" "send_ops s0 = Map.empty" "next_timer s0 = 1" "timers s0 = []" "att_log s0 = []"
      "notify_list s0 = []" "notifies s0 = Map.empty" "next_send_id s0 = 0"
      "\<not> ga_freed s0" "ga_callbacks s0 = []" "ga_track_ids s0 = []" "ga_log s0 = []" "ga_cbs s0 = Map.empty" "ga_ids s0 = Map.empty" "ga_next s0 = 0"
    using s0 by (auto simp: bt_att_new_def Let_def bt_att_ref_def gattrib.defs split: if_splits)
  have s: "s = g_attrib_ref ((s0\<lparr>att_mtu := mtu\<rparr>)\<lparr>ga_buf := unat mtu, ga_buflen := int (unat mtu)\<rparr>)"
    using assms s0 io by (auto simp: g_attrib_new_def bt_att_set_mtu_def split: if_splits)
  show "idle_att s" using f0 by (simp add: s idle_att_def g_attrib_ref_def)
  show "wf_attrib s" using f0 by (simp add: s wf_attrib_def g_attrib_ref_def)
  show "ga_callbacks s = []" "ga_track_ids s = []" "ga_log s = []" "att_log s = []" "att_mtu s = mtu"
    "ga_buflen s \<le> int (ga_buf s)" "notify_list s = []" "notifies s = Map.empty" "next_send_id s = 0" "ga_next s = 0" "ga_cbs s = Map.empty"
    using f0 by (simp_all add: s g_attrib_ref_def)
qed

section \<open>Examples\<close>

definition ex_gattrib_os :: "unit gattrib_os" where
  "ex_gattrib_os = \<lparr>run_result_func = (\<lambda>f status pdu ud s. Some s), run_notify_func = (\<lambda>f pdu ud s. Some s),
     run_destroy_func = (\<lambda>f ud s. Some s), calloc_ok = True\<rparr>"

definition ex_att_os :: "unit gattrib_ext att_os" where
  "ex_att_os = \<lparr>run_response = (\<lambda>f opcode pdu ud s. Some s), run_notify = (\<lambda>f opcode pdu ud s. Some s), run_destroy = (\<lambda>f ud s. Some s),
     run_disconnect = (\<lambda>f err ud s. Some s), run_timeout = (\<lambda>f i opcode ud s. Some s), counter = (\<lambda>f ud c. Some 0),
     sign_att = (\<lambda>k m c. Some (replicate 12 0)), alloc_ok = True, watch_ok = True, fresh = (\<lambda>i. 0),
     get_sec_level = Some 1, set_sec_ok = True\<rparr>"

lemma ex_os: "quiet ex_gattrib_os" "calloc_ok ex_gattrib_os" "alloc_ok ex_att_os" "watch_ok ex_att_os"
  by (simp_all add: quiet_def ex_gattrib_os_def ex_att_os_def)

lemma ex_new: "\<exists>s. g_attrib_new ex_att_os le_socket (Some 3) 23 False True = Some s"
  by (simp add: g_attrib_new_def bt_att_new_def le_socket_def Let_def bt_att_get_link_type_def is_io_l2cap_based_def bt_att_ref_def
      AF_BLUETOOTH_def BTPROTO_L2CAP_def BDADDR_BREDR_def BT_ATT_LINK_BREDR_def BT_ATT_LINK_LE_def BT_ATT_DEFAULT_LE_MTU_def
      bt_att_set_mtu_def ex_att_os_def)

definition ex_gattrib :: gattrib where
  "ex_gattrib = the (g_attrib_new ex_att_os le_socket (Some 3) 23 False True)"

lemma ex_gattrib_new: "g_attrib_new ex_att_os le_socket (Some 3) 23 False True = Some ex_gattrib"
  using ex_new by (auto simp: ex_gattrib_def)

lemmas ex_gattrib_facts = new_attrib [OF ex_gattrib_new]

lemma read_req_type: "get_op_type 0x0a = ATT_OP_TYPE_REQ"
  by (simp add: get_op_type_def att_opcode_type_table_def bt_att_ops)

lemma read_answers: "answers 0x0a 0x0b pdu" "answers 0x0a 0x01 [0x0a, 4, 0, 2]"
  by (simp_all add: answers_def get_op_type_def att_opcode_type_table_def get_req_opcode_def att_req_rsp_mapping_table_def bt_att_ops
      BT_ATT_ERROR_INSUFFICIENT_ENCRYPTION_def BT_ATT_ERROR_AUTHENTICATION_def)



lemma attrib_command_never_sent_witness:
  "\<exists>s1. g_attrib_send ex_gattrib_os ex_att_os 9 [0x52, 4, 0, 1] None None (Some 3) ex_gattrib = Some (9, s1) \<and> write_queue s1 = []
     \<and> ga_callbacks s1 = [0] \<and> ga_log s1 = []"
proof -
  have "get_op_type 0x52 = ATT_OP_TYPE_CMD" by (simp add: get_op_type_def att_opcode_type_table_def bt_att_ops)
  from attrib_command_never_sent [OF this, of None "Some 3" ex_gattrib_os ex_att_os 9 "[4, 0, 1]" None ex_gattrib]
  show ?thesis using ex_gattrib_facts(1) by (auto simp: ex_gattrib_facts idle_att_def)
qed


end
