(* ===== verification/Bdaddr.thy ===== *)
theory Bdaddr
  imports Cstring
begin

text \<open>
  The address functions of \<open>bluez/bluez5/lib/bluetooth.c\<close>, which the socket back end reads the addresses of devices and
  adapters with, and prints those of the devices that it finds. A string is its characters before the NUL; \<open>None\<close> is
  the null pointer.
\<close>

section \<open>Addresses as strings\<close>

text \<open>A \<open>bdaddr_t\<close> is its six bytes, the least significant first. \<open>%2.2X\<close>: two upper case digits.\<close>

type_synonym bdaddr = "u8 list"

definition upper_hexdigit :: "nat \<Rightarrow> char" where
  "upper_hexdigit n = char_of (if n < 10 then n + 48 else n + 55)"

definition fmt_X2 :: "u8 \<Rightarrow> string" where
  "fmt_X2 b = [upper_hexdigit (unat b div 16), upper_hexdigit (unat b mod 16)]"

definition ba2str :: "bdaddr \<Rightarrow> string" where
  "ba2str ba = fmt_X2 (ba ! 5) @ '':'' @ fmt_X2 (ba ! 4) @ '':'' @ fmt_X2 (ba ! 3) @ '':'' @ fmt_X2 (ba ! 2) @ '':'' @
     fmt_X2 (ba ! 1) @ '':'' @ fmt_X2 (ba ! 0)"

definition batostr :: "bool \<Rightarrow> bdaddr \<Rightarrow> string option" where
  "batostr malloc_ok ba = (if \<not> malloc_ok then None
     else Some (fmt_X2 (ba ! 0) @ '':'' @ fmt_X2 (ba ! 1) @ '':'' @ fmt_X2 (ba ! 2) @ '':'' @ fmt_X2 (ba ! 3) @ '':'' @
       fmt_X2 (ba ! 4) @ '':'' @ fmt_X2 (ba ! 5)))"

definition ba2oui :: "bdaddr \<Rightarrow> string" where
  "ba2oui ba = fmt_X2 (ba ! 5) @ ''-'' @ fmt_X2 (ba ! 4) @ ''-'' @ fmt_X2 (ba ! 3)"

definition baswap :: "bdaddr \<Rightarrow> bdaddr" where
  "baswap src = map (\<lambda>i. src ! (5 - i)) [0..<6]"

definition isxdigit :: "char \<Rightarrow> bool" where
  "isxdigit c \<longleftrightarrow> hexval c \<noteq> None"

text \<open>The loop of \<open>bachk\<close>; a string that ends where a digit is expected has the NUL there.\<close>

fun bachk_loop :: "string \<Rightarrow> bool" where
  "bachk_loop [] = True"
| "bachk_loop [a] = False"
| "bachk_loop [a, b] = (isxdigit a \<and> isxdigit b)"
| "bachk_loop (a # b # c # s) = (isxdigit a \<and> isxdigit b \<and> c = CHR '':'' \<and> bachk_loop s)"

definition bachk :: "string option \<Rightarrow> int" where
  "bachk str = (case str of None \<Rightarrow> -1 | Some s \<Rightarrow> if length s \<noteq> 17 then -1 else if bachk_loop s then 0 else -1)"

definition str2ba :: "string option \<Rightarrow> int \<times> bdaddr" where
  "str2ba str = (if bachk str < 0 then (-1, replicate 6 0)
     else (0, map (\<lambda>i. word_of_int (fst (strtol16 (drop (3 * (5 - i)) (the str))))) [0..<6]))"

definition strtoba :: "bool \<Rightarrow> string option \<Rightarrow> bdaddr option" where
  "strtoba malloc_ok str = (if malloc_ok then Some (baswap (snd (str2ba str))) else None)"

section \<open>Reading what was printed\<close>

lemma hexval_upper [simp]: "n < 16 \<Longrightarrow> hexval (upper_hexdigit n) = Some n"
  by (simp add: hexval_def Let_def upper_hexdigit_def)

lemma not_hex_special: "hexval c = Some v \<Longrightarrow> \<not> isspace c \<and> c \<noteq> CHR ''-'' \<and> c \<noteq> CHR ''+'' \<and> c \<noteq> CHR ''x'' \<and> c \<noteq> CHR ''X''"
  by (auto simp: hexval_def isspace_def Let_def split: if_splits)

lemma strtol16_pair:
  assumes "hexval a = Some x" "hexval b = Some y" "r = [] \<or> hexval (hd r) = None"
  shows "strtol16 (a # b # r) = (int (16 * x + y), r)"
proof -
  have bound: "x < 16" "y < 16" using assms hexval_less by blast+
  have d: "scan_digits (length (a # b # r)) 0 0 (a # b # r) = (16 * x + y, 2, r)"
    using assms by (cases r) (simp_all add: numeral_2_eq_2)
  have s: "dropWhile isspace (a # b # r) = a # b # r" "scan_sign w (a # b # r) = (False, w, a # b # r)"
    "scan_0x w (a # b # r) = (False, w, a # b # r)" for w
    using not_hex_special [OF assms(1)] not_hex_special [OF assms(2)] by (auto simp: scan_sign_def scan_0x_def)
  show ?thesis using bound unfolding strtol16_def Let_def s prod.case d by (simp add: LONG_MAX_def LONG_MIN_def)
qed

lemma unat_digits: "unat (b :: u8) div 16 < 16" "unat b mod 16 < 16" "16 * (unat b div 16) + unat b mod 16 = unat b"
  using unsigned_less [of b, where ?'a = nat] by auto

lemma strtol16_X2: "r = [] \<or> hexval (hd r) = None \<Longrightarrow> strtol16 (fmt_X2 b @ r) = (int (unat b), r)"
  using strtol16_pair [of "upper_hexdigit (unat b div 16)" "unat b div 16" "upper_hexdigit (unat b mod 16)" "unat b mod 16" r]
  unat_digits [of b] by (simp add: fmt_X2_def)

lemma colon_not_hex [simp]: "hexval CHR '':'' = None"
  by (simp add: hexval_def Let_def)

lemma bachk_pair: "bachk_loop (fmt_X2 b @ CHR '':'' # s) = bachk_loop s" "bachk_loop (fmt_X2 b)"
  using unat_digits [of b] by (simp_all add: fmt_X2_def isxdigit_def)

lemma length_X2 [simp]: "length (fmt_X2 b) = 2"
  by (simp add: fmt_X2_def)

lemma six: "length (ba :: 'a list) = 6 \<Longrightarrow> ba = [ba ! 0, ba ! 1, ba ! 2, ba ! 3, ba ! 4, ba ! 5]"
  by (rule nth_equalityI) (auto simp: less_Suc_eq numeral_eq_Suc)

lemma str2ba_ba2str:
  assumes "length ba = 6"
  shows "str2ba (Some (ba2str ba)) = (0, ba)"
proof -
  have ok: "bachk (Some (ba2str ba)) = 0"
    by (simp add: bachk_def ba2str_def bachk_pair)
  have d: "drop (Suc (Suc (Suc k))) (fmt_X2 b @ CHR '':'' # s) = drop k s" for k b s by (simp add: fmt_X2_def)
  have "map (\<lambda>i. word_of_int (fst (strtol16 (drop (3 * (5 - i)) (ba2str ba)))) :: u8) [0..<6] = [ba ! 0, ba ! 1, ba ! 2, ba ! 3, ba ! 4, ba ! 5]"
    using strtol16_X2 [of "[]" "ba ! 0"]
    by (simp add: ba2str_def upt_rec numeral_eq_Suc d strtol16_X2)
  with ok six [OF assms] show ?thesis by (simp add: str2ba_def)
qed

lemma hexval_tolower:
  assumes "hexval a = Some x"
  shows "tolower (upper_hexdigit x) = tolower a"
proof -
  define n where "n = (of_char a :: nat)"
  have a: "a = char_of n" "n < 256" by (simp_all add: n_def)
  have "48 \<le> n \<and> n \<le> 57 \<and> x = n - 48 \<or> 97 \<le> n \<and> n \<le> 102 \<and> x = n - 87 \<or> 65 \<le> n \<and> n \<le> 70 \<and> x = n - 55"
    using assms unfolding hexval_def Let_def n_def [symmetric] by (simp split: if_splits)
  then have "(of_char (tolower (upper_hexdigit x)) :: nat) = of_char (tolower (char_of n))"
    using a(2) by (elim disjE) (auto simp: tolower_def upper_hexdigit_def Let_def)
  then have "tolower (upper_hexdigit x) = tolower (char_of n)" by (rule of_char_eq_iff [THEN iffD1])
  with a(1) show ?thesis by simp
qed

definition pair_value :: "char \<Rightarrow> char \<Rightarrow> u8" where
  "pair_value a b = word_of_int (int (16 * the (hexval a) + the (hexval b)))"

lemma pair_read:
  assumes "isxdigit a" "isxdigit b" "r = [] \<or> hd r = CHR '':''"
  shows "word_of_int (fst (strtol16 (a # b # r))) = pair_value a b"
    and "map tolower (fmt_X2 (pair_value a b)) = map tolower [a, b]"
proof -
  obtain x y where xy: "hexval a = Some x" "hexval b = Some y" using assms(1,2) by (auto simp: isxdigit_def)
  have bound: "x < 16" "y < 16" using xy hexval_less by blast+
  show "word_of_int (fst (strtol16 (a # b # r))) = pair_value a b"
    using strtol16_pair [OF xy, of r] assms(3) xy by (auto simp: pair_value_def)
  have "unat (pair_value a b) = 16 * x + y"
    using xy bound unat_of_nat [of "16 * x + y", where ?'a = 8] by (simp add: pair_value_def)
  then have "fmt_X2 (pair_value a b) = [upper_hexdigit x, upper_hexdigit y]" using bound by (simp add: fmt_X2_def)
  then show "map tolower (fmt_X2 (pair_value a b)) = map tolower [a, b]" using hexval_tolower xy by simp
qed

text \<open>An address that is printed is read back as the same address, and what passes the check is read as the six
  bytes whose digits it holds: printed again, it is the same string but for the case of its letters.\<close>

theorem bdaddr_roundtrip:
  shows "(length ba = 6 \<longrightarrow> str2ba (Some (ba2str ba)) = (0, ba))
    \<and> (str2ba (Some s) = (0, ba') \<longrightarrow> length ba' = 6 \<and> map tolower (ba2str ba') = map tolower s)"
proof (intro conjI impI)
  assume "length ba = 6"
  then show "str2ba (Some (ba2str ba)) = (0, ba)" by (rule str2ba_ba2str)
next
  assume b: "str2ba (Some s) = (0, ba')"
  then show "length ba' = 6" by (auto simp: str2ba_def split: if_splits)
  from b have l: "length s = 17" "bachk_loop s" by (auto simp: str2ba_def bachk_def split: if_splits)
  from l(1) obtain a1 b1 c1 a2 b2 c2 a3 b3 c3 a4 b4 c4 a5 b5 c5 a6 b6 where
    s: "s = [a1, b1, c1, a2, b2, c2, a3, b3, c3, a4, b4, c4, a5, b5, c5, a6, b6]"
    by (auto simp: length_Suc_conv numeral_eq_Suc)
  have x: "isxdigit a1" "isxdigit b1" "c1 = CHR '':''" "isxdigit a2" "isxdigit b2" "c2 = CHR '':''" "isxdigit a3" "isxdigit b3" "c3 = CHR '':''"
    "isxdigit a4" "isxdigit b4" "c4 = CHR '':''" "isxdigit a5" "isxdigit b5" "c5 = CHR '':''" "isxdigit a6" "isxdigit b6"
    using l(2) s by simp_all
  have "\<not> bachk (Some s) < 0" using b by (auto simp: str2ba_def split: if_splits)
  then have ba: "ba' = [pair_value a6 b6, pair_value a5 b5, pair_value a4 b4, pair_value a3 b3, pair_value a2 b2, pair_value a1 b1]"
    using b x by (simp add: str2ba_def upt_rec numeral_eq_Suc s pair_read(1))
  show "map tolower (ba2str ba') = map tolower s"
    using x pair_read(2) [of _ _ "[]"] unfolding ba s ba2str_def by (simp add: numeral_eq_Suc)
qed

lemma bdaddr_roundtrip_witness:
  "str2ba (Some (ba2str [0xEF, 0xCD, 0xAB, 3, 2, 1])) = (0, [0xEF, 0xCD, 0xAB, 3, 2, 1])
   \<and> map tolower (ba2str [0xEF, 0xCD, 0xAB, 3, 2, 1]) = map tolower (ba2str [0xEF, 0xCD, 0xAB, 3, 2, 1])"
proof -
  let ?ba = "[0xEF, 0xCD, 0xAB, 3, 2, 1] :: bdaddr"
  have "str2ba (Some (ba2str ?ba)) = (0, ?ba)" using bdaddr_roundtrip [of ?ba "[]" "[]"] by simp
  with bdaddr_roundtrip [of "[]" "ba2str ?ba" ?ba] show ?thesis by simp
qed

end
