(* ===== verification/Socket.thy ===== *)
theory Socket
  imports Gatt Gattlib_Uuid State Bdaddr
begin

text \<open>
  The socket back end of gattlib: \<open>bluez/gattlib_discover.c\<close>, \<open>gattlib_read_write.c\<close>, \<open>gattlib_connect.c\<close> and
  \<open>gattlib_adapter.c\<close>, over the GATT procedures of \<open>Gatt\<close>. Its operations start a procedure and iterate the main
  loop until the procedure's callback has set a flag; the model runs the procedure against the server (\<open>converse\<close>).
  At this commit the files do not compile (they use fields that the connection no longer has, and \<open>gattlib_connect\<close> is
  defined twice); the model follows the text of each function, with the connection's context as its argument.
  The parts for BlueZ 4 (\<open>BLUEZ_VERSION_MAJOR == 4\<close>) are left out.
\<close>

section \<open>Waiting for a procedure\<close>

text \<open>How a call ends: it returns a code with its results and what became of the server; it iterates the main loop for
  ever; or it reads or writes outside an object.\<close>

datatype ('y, 's) bluez_call = Returns i32 'y 's | Waits | Undefined

definition wait_completed :: "(u8 \<Rightarrow> 'x \<Rightarrow> i32 \<times> 'y) \<Rightarrow> ('x reply \<times> 's) option \<Rightarrow> ('y, 's) bluez_call" where
  "wait_completed done r = (case r of
       Some (Reported status x, s) \<Rightarrow> (case done status x of (ret, y) \<Rightarrow> Returns ret y s)
     | Some (Fault, s) \<Rightarrow> Undefined
     | _ \<Rightarrow> Waits)"

definition GATTLIB_ERROR_BLUEZ :: i32 where "GATTLIB_ERROR_BLUEZ = 0x20000000"

definition GATTLIB_ERROR_BLUEZ_WITH_ERROR :: "i32 \<Rightarrow> i32" where
  "GATTLIB_ERROR_BLUEZ_WITH_ERROR e = GATTLIB_ERROR_BLUEZ OR e"

section \<open>Discovery\<close>

text \<open>\<open>None\<close> as a UUID: the parser failed, and the field keeps what \<open>malloc\<close> returned. \<open>None\<close> as an array: NULL.\<close>

record bz_service =
  bz_handle_start :: u16
  bz_handle_end :: u16
  bz_service_uuid :: "uuid option"

record bz_char =
  bz_handle :: u16
  bz_properties :: u8
  bz_value_handle :: u16
  bz_uuid :: "uuid option"

record bz_desc =
  bz_desc_handle :: u16
  bz_uuid16 :: u16
  bz_desc_uuid :: "uuid option"

definition parsed_uuid :: "string \<Rightarrow> uuid option" where
  "parsed_uuid s = (case gattlib_string_to_uuid s of Inl _ \<Rightarrow> None | Inr u \<Rightarrow> Some u)"

text \<open>The callback of each discovery fills the array; the count is set before \<open>malloc\<close>, whose answer is \<open>ok\<close>, is
  tested.\<close>

definition fill_array :: "bool \<Rightarrow> ('r \<Rightarrow> 'e) \<Rightarrow> u8 \<Rightarrow> 'r list \<Rightarrow> 'e list option \<times> nat" where
  "fill_array ok row status rows =
    (if status \<noteq> 0 then (None, 0) else if \<not> ok then (None, length rows) else (Some (map row rows), length rows))"

definition service_of :: "gatt_primary \<Rightarrow> bz_service" where
  "service_of p = \<lparr>bz_handle_start = range_start (prim_range p), bz_handle_end = range_end (prim_range p),
     bz_service_uuid = parsed_uuid (prim_uuid p)\<rparr>"

definition characteristic_of :: "gatt_char \<Rightarrow> bz_char" where
  "characteristic_of c = \<lparr>bz_handle = char_handle c, bz_properties = char_properties c,
     bz_value_handle = char_value_handle c, bz_uuid = parsed_uuid (char_uuid c)\<rparr>"

definition descriptor_of :: "gatt_desc \<Rightarrow> bz_desc" where
  "descriptor_of d = \<lparr>bz_desc_handle = desc_handle d, bz_uuid16 = desc_uuid16 d, bz_desc_uuid = parsed_uuid (desc_uuid d)\<rparr>"

definition primary_all_done :: "bool \<Rightarrow> u8 \<Rightarrow> gatt_primary list \<Rightarrow> bz_service list option \<times> nat" where
  "primary_all_done ok = fill_array ok service_of"

definition characteristic_cb :: "bool \<Rightarrow> u8 \<Rightarrow> gatt_char list \<Rightarrow> bz_char list option \<times> nat" where
  "characteristic_cb ok = fill_array ok characteristic_of"

definition char_desc_cb :: "bool \<Rightarrow> u8 \<Rightarrow> gatt_desc list \<Rightarrow> bz_desc list option \<times> nat" where
  "char_desc_cb ok = fill_array ok descriptor_of"

text \<open>Starting the procedure, and waiting when its first request has been sent. The code that is returned at the end
  is \<open>GATTLIB_SUCCESS\<close> whatever the callback was given.\<close>

definition discover_and_wait ::
    "('d \<Rightarrow> u8 \<Rightarrow> u8 list \<Rightarrow> att_env \<Rightarrow> ('d, 'r list) outcome option) \<Rightarrow> ('s \<Rightarrow> u8 list \<Rightarrow> 's \<times> (u8 \<times> u8 list \<times> att_env) option) \<Rightarrow>
     's \<Rightarrow> ('d, 'r list) outcome option \<Rightarrow> (u8 \<Rightarrow> 'r list \<Rightarrow> 'e list option \<times> nat) \<Rightarrow> ('e list option \<times> nat, 's) bluez_call" where
  "discover_and_wait cb server s out collect =
    (if out = Some Silent then Returns (GATTLIB_ERROR_BLUEZ_WITH_ERROR 0) (None, 0) s
     else wait_completed (\<lambda>status rows. (GATTLIB_SUCCESS, collect status rows)) (converse cb server s out))"

definition gattlib_discover_primary_bluez ::
    "bool \<Rightarrow> att_env \<Rightarrow> ('s \<Rightarrow> u8 list \<Rightarrow> 's \<times> (u8 \<times> u8 list \<times> att_env) option) \<Rightarrow> 's \<Rightarrow> (bz_service list option \<times> nat, 's) bluez_call" where
  "gattlib_discover_primary_bluez ok env server s =
     discover_and_wait primary_all_cb server s (gatt_discover_primary None env) (primary_all_done ok)"

definition gattlib_discover_char_range_bluez ::
    "bool \<Rightarrow> att_env \<Rightarrow> ('s \<Rightarrow> u8 list \<Rightarrow> 's \<times> (u8 \<times> u8 list \<times> att_env) option) \<Rightarrow> u16 \<Rightarrow> u16 \<Rightarrow> 's \<Rightarrow> (bz_char list option \<times> nat, 's) bluez_call" where
  "gattlib_discover_char_range_bluez ok env server start stop s =
     discover_and_wait char_discovered_cb server s (gatt_discover_char start stop None env) (characteristic_cb ok)"

definition gattlib_discover_char_bluez ::
    "bool \<Rightarrow> att_env \<Rightarrow> ('s \<Rightarrow> u8 list \<Rightarrow> 's \<times> (u8 \<times> u8 list \<times> att_env) option) \<Rightarrow> 's \<Rightarrow> (bz_char list option \<times> nat, 's) bluez_call" where
  "gattlib_discover_char_bluez ok env server s = gattlib_discover_char_range_bluez ok env server 0x0001 0xffff s"

text \<open>\<open>start\<close> and \<open>end\<close> are \<open>int\<close>s here, and \<open>gatt_discover_desc\<close> takes 16 bits of each.\<close>

definition gattlib_discover_desc_range_bluez ::
    "bool \<Rightarrow> att_env \<Rightarrow> ('s \<Rightarrow> u8 list \<Rightarrow> 's \<times> (u8 \<times> u8 list \<times> att_env) option) \<Rightarrow> i32 \<Rightarrow> i32 \<Rightarrow> 's \<Rightarrow> (bz_desc list option \<times> nat, 's) bluez_call" where
  "gattlib_discover_desc_range_bluez ok env server start stop s =
     discover_and_wait desc_discovered_cb server s (gatt_discover_desc (ucast start) (ucast stop) None env) (char_desc_cb ok)"

definition gattlib_discover_desc_bluez ::
    "bool \<Rightarrow> att_env \<Rightarrow> ('s \<Rightarrow> u8 list \<Rightarrow> 's \<times> (u8 \<times> u8 list \<times> att_env) option) \<Rightarrow> 's \<Rightarrow> (bz_desc list option \<times> nat, 's) bluez_call" where
  "gattlib_discover_desc_bluez ok env server s = gattlib_discover_desc_range_bluez ok env server 0x0001 0xffff s"

definition gattlib_get_advertisement_data_bluez :: i32 where
  "gattlib_get_advertisement_data_bluez = GATTLIB_NOT_SUPPORTED"

definition gattlib_get_advertisement_data_from_mac_bluez :: i32 where
  "gattlib_get_advertisement_data_from_mac_bluez = GATTLIB_NOT_SUPPORTED"

section \<open>The characteristics of a connection\<close>

text \<open>\<open>gattlib_context_t\<close>: what \<open>io_connect_cb\<close> has stored of \<open>gattlib_discover_char\<close>. A UUID that is not set makes the
  comparison read memory that nothing has written.\<close>

fun get_uuid_from_handle :: "bz_char list \<Rightarrow> u16 \<Rightarrow> i32 \<times> uuid option" where
  "get_uuid_from_handle [] handle = (GATTLIB_NOT_FOUND, None)"
| "get_uuid_from_handle (c # cs) handle =
    (if bz_value_handle c = handle then (GATTLIB_SUCCESS, bz_uuid c) else get_uuid_from_handle cs handle)"

fun get_handle_from_uuid :: "bz_char list \<Rightarrow> uuid \<Rightarrow> (i32 \<times> u16) option" where
  "get_handle_from_uuid [] u = Some (GATTLIB_NOT_FOUND, 0)"
| "get_handle_from_uuid (c # cs) u = do {
     cu \<leftarrow> bz_uuid c;
     if gattlib_uuid_cmp cu u = 0 then Some (GATTLIB_SUCCESS, bz_value_handle c) else get_handle_from_uuid cs u }"

section \<open>Reading and writing\<close>

definition uuid_to_bt_uuid :: "uuid \<Rightarrow> bt_uuid" where
  "uuid_to_bt_uuid u = (case u of UUID16 v \<Rightarrow> BT_UUID16 v | UUID32 v \<Rightarrow> BT_UUID32 v | UUID128 bs \<Rightarrow> BT_UUID128 bs
     | UUID_other _ \<Rightarrow> BT_UUID_UNSPEC)"

text \<open>The values of an answer to Read By Type, without the handle before each.\<close>

fun read_values :: "u8 list list \<Rightarrow> u8 list list option" where
  "read_values [] = Some []"
| "read_values (d # ds) = do { v \<leftarrow> (if length d < 2 then None else Some (drop 2 d)); vs \<leftarrow> read_values ds; Some (v # vs) }"

text \<open>\<open>gattlib_result_read_uuid_cb\<close> without a callback: each value goes to a new buffer, so the last one is left. \<open>ok\<close>
  tells of each allocation whether it succeeds; when one fails, the answer's list is not freed either.\<close>

fun last_value :: "(nat \<Rightarrow> bool) \<Rightarrow> nat \<Rightarrow> u8 list list \<Rightarrow> u8 list option \<Rightarrow> u8 list option" where
  "last_value ok i [] result = result"
| "last_value ok i (v # vs) result = (if ok i then last_value ok (i + 1) vs (Some v) else result)"

definition gattlib_result_read_uuid_cb :: "u8 \<Rightarrow> u8 list \<Rightarrow> u8 list list option" where
  "gattlib_result_read_uuid_cb status pdu =
    (if status \<noteq> 0 then Some []
     else do {
       list \<leftarrow> dec_read_by_type_resp pdu;
       case list of None \<Rightarrow> Some [] | Some list \<Rightarrow> read_values (dl_data list) })"

text \<open>The procedure is one request, and its callback is the one above. \<open>Some None\<close> of the result: the caller's buffer is
  left as it was, and the code is \<open>GATTLIB_SUCCESS\<close> nevertheless.\<close>

definition read_uuid_reply ::
    "('s \<Rightarrow> u8 list \<Rightarrow> 's \<times> (u8 \<times> u8 list \<times> att_env) option) \<Rightarrow> 's \<Rightarrow> u8 list \<Rightarrow> ((u8 \<times> u8 list) option \<times> 's)" where
  "read_uuid_reply server s pdu = (case server s pdu of
       (s, None) \<Rightarrow> (None, s)
     | (s, Some (opcode, rsp, env)) \<Rightarrow> (attrib_callback_result (copy_ok env) opcode rsp, s))"

definition gattlib_read_char_by_uuid_bluez ::
    "(nat \<Rightarrow> bool) \<Rightarrow> att_env \<Rightarrow> ('s \<Rightarrow> u8 list \<Rightarrow> 's \<times> (u8 \<times> u8 list \<times> att_env) option) \<Rightarrow> uuid \<Rightarrow> 's \<Rightarrow> (u8 list option, 's) bluez_call" where
  "gattlib_read_char_by_uuid_bluez ok env server u s =
    (if \<not> ok 0 then Returns GATTLIB_OUT_OF_MEMORY None s
     else case gatt_read_char_by_uuid 0x0001 0xffff (Some (uuid_to_bt_uuid u)) (buffer env) of
       None \<Rightarrow> Undefined
     | Some None \<Rightarrow> Waits
     | Some (Some pdu) \<Rightarrow>
         if \<not> send_ok env then Waits
         else (case read_uuid_reply server s pdu of
             (None, s) \<Rightarrow> Waits
           | (Some (status, rpdu), s) \<Rightarrow> (case gattlib_result_read_uuid_cb status rpdu of
                 None \<Rightarrow> Undefined
               | Some values \<Rightarrow> Returns GATTLIB_SUCCESS (last_value ok 1 values None) s)))"

text \<open>With a callback: the code, and, once the answer has come, the values that the callback is given.\<close>

definition gattlib_read_char_by_uuid_async_bluez ::
    "(nat \<Rightarrow> bool) \<Rightarrow> att_env \<Rightarrow> ('s \<Rightarrow> u8 list \<Rightarrow> 's \<times> (u8 \<times> u8 list \<times> att_env) option) \<Rightarrow> uuid \<Rightarrow> 's \<Rightarrow> (u8 list list, 's) bluez_call" where
  "gattlib_read_char_by_uuid_async_bluez ok env server u s =
    (if \<not> ok 0 then Returns GATTLIB_OUT_OF_MEMORY [] s
     else case gatt_read_char_by_uuid 0x0001 0xffff (Some (uuid_to_bt_uuid u)) (buffer env) of
       None \<Rightarrow> Undefined
     | Some None \<Rightarrow> Returns GATTLIB_NOT_FOUND [] s
     | Some (Some pdu) \<Rightarrow>
         if \<not> send_ok env then Returns GATTLIB_NOT_FOUND [] s
         else (case read_uuid_reply server s pdu of
             (None, s) \<Rightarrow> Returns GATTLIB_SUCCESS [] s
           | (Some (status, rpdu), s) \<Rightarrow> (case gattlib_result_read_uuid_cb status rpdu of
                 None \<Rightarrow> Undefined
               | Some values \<Rightarrow> Returns GATTLIB_SUCCESS values s)))"

text \<open>The status of the answer is not looked at.\<close>

definition gattlib_write_char_by_handle_bluez ::
    "att_env \<Rightarrow> ('s \<Rightarrow> u8 list \<Rightarrow> 's \<times> (u8 \<times> u8 list \<times> att_env) option) \<Rightarrow> u16 \<Rightarrow> u8 list \<Rightarrow> 's \<Rightarrow> (unit, 's) bluez_call" where
  "gattlib_write_char_by_handle_bluez env server handle data s =
     (let out = gatt_write_char handle data env in
      if out = Some Silent then Returns 1 () s
      else wait_completed (\<lambda>status rpdu. (0, ())) (converse write_cb server s out))"

definition gattlib_write_char_by_uuid_bluez ::
    "bz_char list \<Rightarrow> att_env \<Rightarrow> ('s \<Rightarrow> u8 list \<Rightarrow> 's \<times> (u8 \<times> u8 list \<times> att_env) option) \<Rightarrow> uuid \<Rightarrow> u8 list \<Rightarrow> 's \<Rightarrow> (unit, 's) bluez_call" where
  "gattlib_write_char_by_uuid_bluez cs env server u data s = (case get_handle_from_uuid cs u of
       None \<Rightarrow> Undefined
     | Some (ret, handle) \<Rightarrow> if ret \<noteq> 0 then Returns ret () s else gattlib_write_char_by_handle_bluez env server handle data s)"

definition gattlib_write_without_response_char_by_uuid_bluez :: i32 where
  "gattlib_write_without_response_char_by_uuid_bluez = GATTLIB_NOT_SUPPORTED"

definition gattlib_write_without_response_char_by_handle_bluez :: i32 where
  "gattlib_write_without_response_char_by_handle_bluez = GATTLIB_NOT_SUPPORTED"

text \<open>The configuration descriptor is taken to be the attribute after the value; \<open>enable_notification\<close> is written as it is
  in memory, here in little-endian order.\<close>

definition write_configuration ::
    "u16 \<Rightarrow> bz_char list \<Rightarrow> att_env \<Rightarrow> ('s \<Rightarrow> u8 list \<Rightarrow> 's \<times> (u8 \<times> u8 list \<times> att_env) option) \<Rightarrow> uuid \<Rightarrow> 's \<Rightarrow> (unit, 's) bluez_call" where
  "write_configuration v cs env server u s = (case get_handle_from_uuid cs u of
       None \<Rightarrow> Undefined
     | Some (ret, handle) \<Rightarrow> if ret \<noteq> 0 then Returns (-1) () s else gattlib_write_char_by_handle_bluez env server (handle + 1) (le16 v) s)"

definition gattlib_notification_start_bluez ::
    "bz_char list \<Rightarrow> att_env \<Rightarrow> ('s \<Rightarrow> u8 list \<Rightarrow> 's \<times> (u8 \<times> u8 list \<times> att_env) option) \<Rightarrow> uuid \<Rightarrow> 's \<Rightarrow> (unit, 's) bluez_call" where
  "gattlib_notification_start_bluez = write_configuration 0x0001"

definition gattlib_notification_stop_bluez ::
    "bz_char list \<Rightarrow> att_env \<Rightarrow> ('s \<Rightarrow> u8 list \<Rightarrow> 's \<times> (u8 \<times> u8 list \<times> att_env) option) \<Rightarrow> uuid \<Rightarrow> 's \<Rightarrow> (unit, 's) bluez_call" where
  "gattlib_notification_stop_bluez = write_configuration 0x0000"

section \<open>Notifications and indications\<close>

datatype bz_event = Delivered "uuid option" "u8 list" | Sent "u8 list"

definition ATT_MAX_MTU :: nat where "ATT_MAX_MTU = 512"

text \<open>\<open>on_notification\<close> and \<open>on_indication\<close>: the connection has a valid handler for each.\<close>

definition events_handler :: "bool \<Rightarrow> bool \<Rightarrow> bz_char list \<Rightarrow> u8 list \<Rightarrow> bz_event list option" where
  "events_handler on_notification on_indication cs pdu = do {
     handle \<leftarrow> rd_le16 1 pdu;
     case get_uuid_from_handle cs handle of (ret, u) \<Rightarrow>
       if ret \<noteq> 0 then Some []
       else if pdu ! 0 = ATT_OP_HANDLE_NOTIFY then Some (if on_notification then [Delivered u (drop 3 pdu)] else [])
       else if pdu ! 0 = ATT_OP_HANDLE_IND then do {
         (olen, opdu) \<leftarrow> enc_confirmation (replicate ATT_MAX_MTU 0);
         Some ((if on_indication then [Delivered u (drop 3 pdu)] else []) @
           (if olen > 0 then [Sent (take (unat olen) opdu)] else [])) }
       else Some [] }"

section \<open>Connecting\<close>

text \<open>The options of \<open>gattlib.h\<close>; the two macros that take the PSM and the MTU out of them combine with \<open>&&\<close>.\<close>

type_synonym u64 = "64 word"

definition LEGACY_BDADDR_LE_PUBLIC :: u64 where "LEGACY_BDADDR_LE_PUBLIC = push_bit 0 1"
definition LEGACY_BDADDR_LE_RANDOM :: u64 where "LEGACY_BDADDR_LE_RANDOM = push_bit 1 1"
definition LEGACY_BT_SEC_LOW :: u64 where "LEGACY_BT_SEC_LOW = push_bit 2 1"
definition LEGACY_BT_SEC_MEDIUM :: u64 where "LEGACY_BT_SEC_MEDIUM = push_bit 3 1"
definition LEGACY_BT_SEC_HIGH :: u64 where "LEGACY_BT_SEC_HIGH = push_bit 4 1"
definition LEGACY_PSM :: "u64 \<Rightarrow> u64" where "LEGACY_PSM v = push_bit 11 (v AND 0x3FF)"
definition LEGACY_MTU :: "u64 \<Rightarrow> u64" where "LEGACY_MTU v = push_bit 21 (v AND 0x3FF)"
definition LEGACY_GET_PSM :: "u64 \<Rightarrow> i32" where "LEGACY_GET_PSM options = (if drop_bit 11 options \<noteq> 0 then 1 else 0)"
definition LEGACY_GET_MTU :: "u64 \<Rightarrow> i32" where "LEGACY_GET_MTU options = (if drop_bit 21 options \<noteq> 0 then 1 else 0)"

datatype bt_io_sec_level = BT_IO_SEC_SDP | BT_IO_SEC_LOW | BT_IO_SEC_MEDIUM | BT_IO_SEC_HIGH

definition get_connection_options :: "u64 \<Rightarrow> bt_io_sec_level \<times> i32 \<times> i32" where
  "get_connection_options options =
    (if options AND LEGACY_BT_SEC_LOW \<noteq> 0 then BT_IO_SEC_LOW
     else if options AND LEGACY_BT_SEC_MEDIUM \<noteq> 0 then BT_IO_SEC_MEDIUM
     else if options AND LEGACY_BT_SEC_HIGH \<noteq> 0 then BT_IO_SEC_HIGH
     else BT_IO_SEC_SDP, LEGACY_GET_PSM options, LEGACY_GET_MTU options)"

text \<open>The thread of the main loop that all connections share: its reference counter, and how often it has been
  created and told to quit.\<close>

record loop_thread =
  lt_ref :: int
  lt_created :: nat
  lt_quits :: nat

text \<open>What \<open>bt_io_connect\<close> is asked for: an L2CAP channel by its CID for LE, by its PSM otherwise.\<close>

record bt_io_request =
  rq_source :: bdaddr
  rq_dest :: bdaddr
  rq_dest_type :: "u8 option"
  rq_cid :: "u16 option"
  rq_psm :: "i32 option"
  rq_imtu :: "i32 option"
  rq_sec :: bt_io_sec_level
  rq_timeout :: nat

definition BDADDR_LE_PUBLIC :: u8 where "BDADDR_LE_PUBLIC = 0x01"
definition BDADDR_LE_RANDOM :: u8 where "BDADDR_LE_RANDOM = 0x02"
definition ATT_CID :: u16 where "ATT_CID = 4"
definition CONNECTION_TIMEOUT :: nat where "CONNECTION_TIMEOUT = 2"

text \<open>The surroundings of one attempt: whether the thread, the context and the connection can be made, the address that
  \<open>hci_devba\<close> has for what follows \<open>hci\<close> in the name of an adapter, whether \<open>bt_io_connect\<close> accepts a request.\<close>

record connect_os =
  pthread_ok :: bool
  context_ok :: bool
  conn_ok :: bool
  hci_devba :: "string \<Rightarrow> bdaddr"
  bt_io_ok :: "bt_io_request \<Rightarrow> bool"

definition start_loop :: "bool \<Rightarrow> loop_thread \<Rightarrow> loop_thread option" where
  "start_loop ok t = (if lt_ref t = 0 then (if ok then Some (t\<lparr>lt_created := lt_created t + 1\<rparr>) else None)
     else Some (t\<lparr>lt_ref := lt_ref t + 1\<rparr>))"

definition local_address :: "connect_os \<Rightarrow> string option \<Rightarrow> bdaddr option" where
  "local_address os src = (case src of None \<Rightarrow> Some (replicate 6 0)
     | Some s \<Rightarrow> if take 3 s = ''hci'' then Some (hci_devba os (drop 3 s))
         else (case str2ba (Some s) of (ret, ba) \<Rightarrow> if ret \<noteq> 0 then None else Some ba))"

text \<open>The request that was accepted, when the function returns a connection.\<close>

definition initialize_gattlib_connection ::
    "connect_os \<Rightarrow> string option \<Rightarrow> string option \<Rightarrow> u8 \<Rightarrow> bt_io_sec_level \<Rightarrow> i32 \<Rightarrow> i32 \<Rightarrow> loop_thread \<Rightarrow>
     bt_io_request option \<times> loop_thread" where
  "initialize_gattlib_connection os src dst dest_type sec psm mtu t =
    (case start_loop (pthread_ok os) t of None \<Rightarrow> (None, t)
     | Some t \<Rightarrow>
       (case dst of None \<Rightarrow> (None, t)
        | Some d \<Rightarrow> (case str2ba (Some d) of (ret, dba) \<Rightarrow>
            if ret \<noteq> 0 then (None, t)
            else (case local_address os src of None \<Rightarrow> (None, t)
             | Some sba \<Rightarrow>
                if dest_type \<noteq> BDADDR_LE_PUBLIC \<and> dest_type \<noteq> BDADDR_LE_RANDOM then (None, t)
                else if sec \<noteq> BT_IO_SEC_LOW \<and> sec \<noteq> BT_IO_SEC_MEDIUM \<and> sec \<noteq> BT_IO_SEC_HIGH then (None, t)
                else if \<not> context_ok os \<or> \<not> conn_ok os then (None, t)
                else (let rq = (if psm = 0
                        then \<lparr>rq_source = sba, rq_dest = dba, rq_dest_type = Some dest_type, rq_cid = Some ATT_CID,
                          rq_psm = None, rq_imtu = None, rq_sec = sec, rq_timeout = CONNECTION_TIMEOUT\<rparr>
                        else \<lparr>rq_source = sba, rq_dest = dba, rq_dest_type = None, rq_cid = None,
                          rq_psm = Some psm, rq_imtu = Some mtu, rq_sec = sec, rq_timeout = CONNECTION_TIMEOUT\<rparr>)
                      in (if bt_io_ok os rq then Some rq else None, t))))))"

text \<open>What the main loop delivers while \<open>gattlib_connect_with_options\<close> waits: \<open>io_connect_cb\<close> without and with an error,
  and \<open>connection_timeout\<close>. The argument structure holds three flags.\<close>

datatype io_event = Io_connected | Io_failed | Io_timeout

record io_connect_arg =
  io_connected :: bool
  io_timeout :: bool
  io_error :: bool

fun io_deliver :: "io_event \<Rightarrow> io_connect_arg \<Rightarrow> io_connect_arg" where
  "io_deliver Io_connected a = a\<lparr>io_connected := True\<rparr>"
| "io_deliver Io_failed a = a\<lparr>io_error := True\<rparr>"
| "io_deliver Io_timeout a = a\<lparr>io_timeout := True\<rparr>"

text \<open>The loop that waits; \<open>None\<close> when the events end before it does.\<close>

fun wait_connected :: "io_event list \<Rightarrow> io_connect_arg \<Rightarrow> io_connect_arg option" where
  "wait_connected es a = (if io_connected a \<or> io_timeout a then Some a
     else case es of [] \<Rightarrow> None | e # es \<Rightarrow> wait_connected es (io_deliver e a))"

text \<open>The result is \<open>None\<close> while it waits, else the connection or NULL.\<close>

definition gattlib_connect_with_options ::
    "connect_os \<Rightarrow> string option \<Rightarrow> string option \<Rightarrow> u8 \<Rightarrow> bt_io_sec_level \<Rightarrow> i32 \<Rightarrow> i32 \<Rightarrow> io_event list \<Rightarrow> loop_thread \<Rightarrow>
     bt_io_request option option \<times> loop_thread" where
  "gattlib_connect_with_options os src dst dest_type sec psm mtu es t =
    (case initialize_gattlib_connection os src dst dest_type sec psm mtu t of
       (None, t) \<Rightarrow> (Some None, t)
     | (Some rq, t) \<Rightarrow> (case wait_connected es \<lparr>io_connected = False, io_timeout = False, io_error = False\<rparr> of
           None \<Rightarrow> (None, t)
         | Some a \<Rightarrow> (Some (if io_timeout a then None else if io_error a then None else Some rq), t)))"

text \<open>The second \<open>gattlib_connect\<close> of the file, which waits; an adapter is refused by \<open>assert(0)\<close>. \<open>es\<close> gives the events
  of the attempt with each type of address.\<close>

definition gattlib_connect_bluez ::
    "connect_os \<Rightarrow> string option \<Rightarrow> u64 \<Rightarrow> (u8 \<Rightarrow> io_event list) \<Rightarrow> loop_thread \<Rightarrow> bt_io_request option option \<times> loop_thread" where
  "gattlib_connect_bluez os dst options es t =
    (if options AND (LEGACY_BDADDR_LE_PUBLIC OR LEGACY_BDADDR_LE_RANDOM) = 0 then (Some None, t)
     else (case get_connection_options options of (sec, psm, mtu) \<Rightarrow>
       (case (if options AND LEGACY_BDADDR_LE_PUBLIC \<noteq> 0
              then gattlib_connect_with_options os None dst BDADDR_LE_PUBLIC sec psm mtu (es BDADDR_LE_PUBLIC) t
              else (Some None, t)) of
          (Some None, t) \<Rightarrow>
            if options AND LEGACY_BDADDR_LE_RANDOM \<noteq> 0
            then gattlib_connect_with_options os None dst BDADDR_LE_RANDOM sec psm mtu (es BDADDR_LE_RANDOM) t
            else (Some None, t)
        | r \<Rightarrow> r)))"

text \<open>Releasing a connection gives up its part of the thread.\<close>

definition gattlib_disconnect_bluez :: "loop_thread \<Rightarrow> i32 \<times> loop_thread" where
  "gattlib_disconnect_bluez t = (let t = t\<lparr>lt_ref := lt_ref t - 1\<rparr> in
     (GATTLIB_SUCCESS, if lt_ref t = 0 then t\<lparr>lt_quits := lt_quits t + 1\<rparr> else t))"

definition gattlib_get_rssi_from_mac_bluez :: i32 where
  "gattlib_get_rssi_from_mac_bluez = GATTLIB_NOT_SUPPORTED"

section \<open>Adapters\<close>

definition EIR_NAME_SHORT :: u8 where "EIR_NAME_SHORT = 0x08"
definition EIR_NAME_COMPLETE :: u8 where "EIR_NAME_COMPLETE = 0x09"
definition BLE_EVENT_TYPE :: nat where "BLE_EVENT_TYPE = 0x05"
definition BLE_SCAN_RESPONSE :: u8 where "BLE_SCAN_RESPONSE = 0x04"
definition HCI_MAX_EVENT_SIZE :: nat where "HCI_MAX_EVENT_SIZE = 260"

text \<open>The device number that BlueZ finds for the name, and the descriptor that \<open>hci_open_dev\<close> returns. The second result
  is what \<open>*adapter\<close> is set to.\<close>

definition gattlib_adapter_open_bluez :: "bool \<Rightarrow> int \<Rightarrow> bool \<Rightarrow> int \<Rightarrow> i32 \<times> int option" where
  "gattlib_adapter_open_bluez wants_adapter dev_id malloc_ok fd =
    (if \<not> wants_adapter then (GATTLIB_INVALID_PARAMETER, None)
     else if dev_id < 0 then (GATTLIB_NOT_FOUND, None)
     else if \<not> malloc_ok then (GATTLIB_OUT_OF_MEMORY, None)
     else if fd < 0 then (GATTLIB_DEVICE_ERROR, Some fd)
     else (GATTLIB_SUCCESS, Some fd))"

text \<open>\<open>strndup\<close> at an index: up to \<open>n\<close> bytes, until a NUL.\<close>

definition strndup_at :: "nat \<Rightarrow> nat \<Rightarrow> u8 list \<Rightarrow> u8 list option" where
  "strndup_at i n mem = (let bs = take n (drop i mem) in
     if 0 \<in> set bs \<or> length bs = n then Some (takeWhile (\<lambda>b. b \<noteq> 0) bs) else None)"

text \<open>The name in the advertising data that is the first \<open>len\<close> bytes of \<open>mem\<close>. \<open>None\<close> is a read outside \<open>mem\<close>,
  \<open>Some None\<close> that there is no name.\<close>

function parse_name_from :: "u8 list \<Rightarrow> nat \<Rightarrow> nat \<Rightarrow> u8 list option option" where
  "parse_name_from mem len offset =
    (if len \<le> offset then Some None
     else do {
       f \<leftarrow> rd_8 offset mem;
       let field_len = unat f;
       if field_len = 0 \<or> len < offset + field_len then Some None
       else do {
         t \<leftarrow> rd_8 (offset + 1) mem;
         if t = EIR_NAME_SHORT \<or> t = EIR_NAME_COMPLETE then map_option Some (strndup_at (offset + 2) (field_len - 1) mem)
         else parse_name_from mem len (offset + field_len + 1) } })"
  by pat_completeness auto
termination
  by (relation "measure (\<lambda>(mem, len, offset). len - offset)") auto

definition parse_name :: "u8 list \<Rightarrow> nat \<Rightarrow> u8 list option option" where
  "parse_name mem len = parse_name_from mem len 0"

text \<open>One turn of the scan loop: \<open>poll\<close> ends the scan or has nothing, \<open>read\<close> fails, or it leaves the buffer as given
  (\<open>HCI_MAX_EVENT_SIZE\<close> bytes; how many of them it read is not looked at). The callback gets an address and a name.\<close>

datatype scan_step = Poll_done | Poll_other | Read_failed | Packet "u8 list"

fun ble_scan_loop :: "scan_step list \<Rightarrow> (string \<times> u8 list option) list option" where
  "ble_scan_loop [] = Some []"
| "ble_scan_loop (Poll_done # steps) = Some []"
| "ble_scan_loop (Read_failed # steps) = Some []"
| "ble_scan_loop (Poll_other # steps) = ble_scan_loop steps"
| "ble_scan_loop (Packet buf # steps) =
    (if buf ! 3 \<noteq> 0x02 \<or> buf ! BLE_EVENT_TYPE \<noteq> BLE_SCAN_RESPONSE then ble_scan_loop steps
     else do {
       name \<leftarrow> parse_name (drop 14 buf) (unat (buf ! 13));
       rest \<leftarrow> ble_scan_loop steps;
       Some ((ba2str (take 6 (drop 7 buf)), name) # rest) })"

text \<open>The answers of \<open>getsockopt\<close> and \<open>setsockopt\<close>, and of the two HCI commands before.\<close>

definition ble_scan_run :: "bool \<Rightarrow> bool \<Rightarrow> scan_step list \<Rightarrow> (i32 \<times> (string \<times> u8 list option) list) option" where
  "ble_scan_run get_ok set_ok steps =
    (if \<not> get_ok \<or> \<not> set_ok then Some (1, [])
     else map_option (\<lambda>found. (GATTLIB_SUCCESS, found)) (ble_scan_loop steps))"

definition gattlib_adapter_scan_enable_bluez ::
    "bool \<Rightarrow> bool \<Rightarrow> bool \<Rightarrow> bool \<Rightarrow> scan_step list \<Rightarrow> (i32 \<times> (string \<times> u8 list option) list) option" where
  "gattlib_adapter_scan_enable_bluez parameters_ok enable_ok get_ok set_ok steps =
    (if \<not> parameters_ok \<or> \<not> enable_ok then Some (1, [])
     else do {
       (ret, found) \<leftarrow> ble_scan_run get_ok set_ok steps;
       Some (if ret \<noteq> 0 then 1 else GATTLIB_SUCCESS, found) })"

definition gattlib_adapter_scan_enable_with_filter_bluez :: i32 where
  "gattlib_adapter_scan_enable_with_filter_bluez = GATTLIB_NOT_SUPPORTED"

definition gattlib_adapter_scan_disable_bluez :: "int \<Rightarrow> i32 \<Rightarrow> i32" where
  "gattlib_adapter_scan_disable_bluez device_desc result = (if device_desc = -1 then 1 else result)"

definition gattlib_adapter_close_bluez :: i32 where
  "gattlib_adapter_close_bluez = GATTLIB_SUCCESS"

declare parse_name_from.simps [simp del]

section \<open>Properties of names\<close>

lemma strndup_defined: "i + n \<le> length mem \<Longrightarrow> strndup_at i n mem \<noteq> None"
  by (simp add: strndup_at_def Let_def)

lemma parse_name_defined: "len < length mem \<Longrightarrow> parse_name_from mem len offset \<noteq> None"
proof (induction mem len offset rule: parse_name_from.induct)
  case (1 mem len offset)
  show ?case
  proof (cases "offset < len")
    case True
    then obtain f where f: "rd_8 offset mem = Some f" using 1(2) by (auto simp: rd_8_def)
    show ?thesis
    proof (cases "unat f = 0 \<or> len < offset + unat f")
      case False
      then have "0 < unat f" "offset + unat f \<le> len" by linarith+
      then have le: "offset + 1 < length mem" "0 < unat f" "offset + unat f \<le> len" using 1(2) by linarith+
      then obtain t where t: "rd_8 (offset + 1) mem = Some t" by (auto simp: rd_8_def)
      have "strndup_at (offset + 2) (unat f - 1) mem \<noteq> None"
        by (rule strndup_defined) (use le 1(2) in linarith)
      moreover have "parse_name_from mem len (offset + unat f + 1) \<noteq> None" if "\<not> (t = EIR_NAME_SHORT \<or> t = EIR_NAME_COMPLETE)"
        by (rule 1(1) [OF _ f refl _ t that 1(2)]) (use True False in auto)
      ultimately show ?thesis using True False f t by (subst parse_name_from.simps) (auto simp: Let_def)
    qed (use True f in \<open>subst parse_name_from.simps, simp add: Let_def\<close>)
  qed (subst parse_name_from.simps, simp)
qed

text \<open>Advertising data: fields of a length, a type and at most 254 bytes.\<close>

definition ad_field :: "u8 \<times> u8 list \<Rightarrow> u8 list" where
  "ad_field f = of_nat (1 + length (snd f)) # fst f # snd f"

definition name_type :: "u8 \<Rightarrow> bool" where
  "name_type t \<longleftrightarrow> t = EIR_NAME_SHORT \<or> t = EIR_NAME_COMPLETE"

lemma parse_name_fields:
  assumes "\<forall>f \<in> set fs. length (snd f) < 255"
  shows "parse_name_from (pre @ concat (map ad_field fs) @ rest) (length pre + length (concat (map ad_field fs))) (length pre) =
    Some (map_option (\<lambda>f. takeWhile (\<lambda>b. b \<noteq> 0) (snd f)) (List.find (\<lambda>f. name_type (fst f)) fs))"
  using assms
proof (induction fs arbitrary: pre)
  case Nil
  then show ?case by (simp add: parse_name_from.simps)
next
  case (Cons f fs)
  obtain t bs where f: "f = (t, bs)" by (cases f)
  have l: "unat (of_nat (1 + length bs) :: u8) = 1 + length bs"
    using Cons.prems f unat_of_nat [of "1 + length bs", where ?'a = 8] by simp
  let ?tail = "concat (map ad_field fs)"
  define w mem n where "w = (of_nat (1 + length bs) :: u8)" and "mem = pre @ (w # t # bs @ ?tail) @ rest"
    and "n = length pre + (2 + length bs + length ?tail)"
  have af: "ad_field f = w # t # bs" by (simp add: ad_field_def f w_def)
  have r: "rd_8 (length pre) mem = Some w" "rd_8 (length pre + 1) mem = Some t"
    by (simp_all add: rd_8_def nth_append mem_def)
  have d: "strndup_at (length pre + 2) (length bs) mem = Some (takeWhile (\<lambda>b. b \<noteq> 0) bs)"
    by (simp add: strndup_at_def Let_def mem_def)
  have n: "\<not> n \<le> length pre" "\<not> (unat w = 0 \<or> n < length pre + unat w)" "unat w - 1 = length bs"
    "length pre + unat w + 1 = length pre + (2 + length bs)"
    using l by (simp_all add: n_def w_def)
  have step: "parse_name_from mem n (length pre) =
    (if name_type t then Some (Some (takeWhile (\<lambda>b. b \<noteq> 0) bs)) else parse_name_from mem n (length pre + (2 + length bs)))"
    unfolding parse_name_from.simps [of mem n "length pre"] r Let_def Option.bind.simps n
    by (simp only: n(1,2) if_False name_type_def d option.map)
  have "parse_name_from mem n (length pre + (2 + length bs)) =
    Some (map_option (\<lambda>f. takeWhile (\<lambda>b. b \<noteq> 0) (snd f)) (List.find (\<lambda>f. name_type (fst f)) fs))"
    using Cons.IH [of "pre @ ad_field f"] Cons.prems f af by (simp add: add.assoc mem_def n_def)
  with step f af show ?case by (simp add: add.assoc mem_def n_def)
qed

text \<open>The name of a device that is found: advertising data of well-formed fields gives the first field with a short or a
  complete name, up to a NUL in it, and NULL when there is none; and whatever the data, nothing is read beyond the byte
  after it.\<close>

theorem device_name_parsed:
  shows "((\<forall>f \<in> set fs. length (snd f) < 255) \<longrightarrow>
      parse_name (concat (map ad_field fs) @ rest) (length (concat (map ad_field fs))) =
        Some (map_option (\<lambda>f. takeWhile (\<lambda>b. b \<noteq> 0) (snd f)) (List.find (\<lambda>f. name_type (fst f)) fs)))
    \<and> (len < length mem \<longrightarrow> parse_name mem len \<noteq> None)"
  using parse_name_fields [of fs "[]" rest] parse_name_defined [of len mem 0] by (simp add: parse_name_def)

lemma device_name_parsed_witness:
  "parse_name ([2, 1, 6] @ [4, 9, 71, 65, 84] @ []) 8 = Some (Some [71, 65, 84]) \<and> parse_name [2, 1, 6, 30, 9] 4 \<noteq> None"
proof -
  let ?fs = "[(1, [6]), (9, [71, 65, 84])] :: (u8 \<times> u8 list) list"
  have fs: "\<forall>f \<in> set ?fs. length (snd f) < 255" "concat (map ad_field ?fs) = [2, 1, 6, 4, 9, 71, 65, 84]"
    "length (concat (map ad_field ?fs)) = 8"
    by (simp_all add: ad_field_def)
  have find: "map_option (\<lambda>f. takeWhile (\<lambda>b. b \<noteq> 0) (snd f)) (List.find (\<lambda>f. name_type (fst f)) ?fs) = Some [71, 65, 84]"
    by (simp add: name_type_def EIR_NAME_SHORT_def EIR_NAME_COMPLETE_def)
  from device_name_parsed [of ?fs "[]" 4 "[2, 1, 6, 30, 9]"] fs(1)
  have "parse_name (concat (map ad_field ?fs) @ []) (length (concat (map ad_field ?fs))) = Some (Some [71, 65, 84])
      \<and> parse_name [2, 1, 6, 30, 9] 4 \<noteq> None"
    unfolding find by simp
  then show ?thesis unfolding fs(3) unfolding fs(2) append_Cons append_Nil .
qed

section \<open>Discovery reports the server's table\<close>

text \<open>The UUID that the application gets for one of the server's: short when it is a Bluetooth UUID of 16 bits.\<close>

fun wire_uuid :: "bt_uuid \<Rightarrow> uuid" where
  "wire_uuid (BT_UUID128 bs) = uuid_canon (UUID128 bs)"
| "wire_uuid u = bt_uuid_to_uuid u"

lemma base16_word: "get_be16 (bt_uuid128_bytes (bt_uuid16_to_uuid128 v)) 2 = v" "length (bt_uuid128_bytes (bt_uuid16_to_uuid128 v)) = 16"
  unfolding base16_bytes by (simp_all add: get_be16_append byte_order)

lemma parsed_name:
  assumes "uuid_kind short u"
  shows "parsed_uuid (uuid_name u) = Some (wire_uuid u)"
proof (cases u)
  case (BT_UUID16 v)
  let ?bs = "bt_uuid128_bytes (bt_uuid16_to_uuid128 v)"
  have "bt_uuid16_to_uuid128 v = BT_UUID128 ?bs" by (simp add: bt_uuid16_to_uuid128_def)
  then have "uuid_name u = uuid128_fields ?bs"
    unfolding uuid_name_def BT_UUID16 bt_uuid_to_uuid128.simps using base16_word(2) [of v] by (metis option.sel uuid_string_128)
  then show ?thesis using bt_string_to_uuid_fields [OF base16_word(2), of v] base16_word(1) [of v]
    by (simp add: parsed_uuid_def gattlib_string_to_uuid_def BT_UUID16)
next
  case (BT_UUID128 bs)
  then have "length bs = 16" using assms by simp
  then show ?thesis using bt_string_to_uuid_fields [of bs]
    by (simp add: parsed_uuid_def gattlib_string_to_uuid_def uuid_name_def BT_UUID128)
qed (use assms in simp_all)

lemma discover_and_wait_reported:
  assumes "\<exists>t. converse cb server s out = Some (Reported status rows, t)" "out \<noteq> Some Silent"
  shows "\<exists>t. discover_and_wait cb server s out collect = Returns GATTLIB_SUCCESS (collect status rows) t"
  using assms by (auto simp: discover_and_wait_def wait_completed_def)

definition service_found :: "att_range \<times> bt_uuid \<Rightarrow> bz_service" where
  "service_found v = \<lparr>bz_handle_start = range_start (fst v), bz_handle_end = range_end (fst v), bz_service_uuid = Some (wire_uuid (snd v))\<rparr>"

definition char_found :: "att_char \<Rightarrow> bz_char" where
  "char_found c = \<lparr>bz_handle = decl_handle c, bz_properties = decl_properties c, bz_value_handle = decl_value c,
     bz_uuid = Some (wire_uuid (decl_uuid c))\<rparr>"

definition desc_found :: "u16 \<times> bt_uuid \<Rightarrow> bz_desc" where
  "desc_found d = \<lparr>bz_desc_handle = fst d, bz_uuid16 = (case snd d of BT_UUID16 w \<Rightarrow> w | _ \<Rightarrow> 0),
     bz_desc_uuid = Some (wire_uuid (snd d))\<rparr>"

definition air_uuid :: "bt_uuid \<Rightarrow> bool" where
  "air_uuid u \<longleftrightarrow> uuid_kind True u \<or> uuid_kind False u"

lemma rows_found:
  "air_uuid (snd v) \<Longrightarrow> service_of (service_row v) = service_found v"
  "air_uuid (decl_uuid c) \<Longrightarrow> characteristic_of (char_row c) = char_found c"
  "air_uuid (snd d) \<Longrightarrow> descriptor_of (desc_row d) = desc_found d"
  using parsed_name
  by (auto simp: air_uuid_def service_of_def service_row_def service_found_def characteristic_of_def char_row_def char_found_def
      descriptor_of_def desc_row_def desc_found_def)

lemma maps_found:
  "\<forall>v \<in> set table. air_uuid (snd v) \<Longrightarrow> map (service_of \<circ> service_row) table = map service_found table"
  "\<forall>c \<in> set cs. air_uuid (decl_uuid c) \<Longrightarrow> map (characteristic_of \<circ> char_row) cs = map char_found cs"
  "\<forall>d \<in> set ds. air_uuid (snd d) \<Longrightarrow> map (descriptor_of \<circ> desc_row) ds = map desc_found ds"
  using rows_found by auto

lemma first_requests:
  assumes "plenty env"
  shows "gatt_discover_char 1 0xffff None env =
      Some (Request (chars_request 0xffff 1) \<lparr>dc_uuid = None, dc_start = 1, dc_end = 0xffff, characteristics = []\<rparr>)"
    "gatt_discover_desc 1 0xffff None env =
      Some (Request (descs_request 0xffff 1) \<lparr>dd_uuid = None, dd_start = 1, dd_end = 0xffff, descriptors = []\<rparr>)"
  using assms by (auto simp: plenty_def gatt_discover_char_def encode_chars_request gatt_discover_desc_def encode_descs_request send_filled)

lemma socket_services:
  assumes env: "plenty env"
    and "holds_table services_request (range_start \<circ> fst) (one_kind snd) services_reply table server"
      "table_ok (range_start \<circ> fst) (range_end \<circ> fst) 0xffff 1 table" "\<forall>v \<in> set table. air_uuid (snd v)"
  shows "\<exists>t. gattlib_discover_primary_bluez True env server s = Returns GATTLIB_SUCCESS (Some (map service_found table), length table) t"
proof -
  let ?out = "gatt_discover_primary None env :: (discover_primary, gatt_primary list) outcome option"
  have out: "?out = Some (Request (services_request 1) \<lparr>dp_uuid = None, dp_start = 1, primaries = [], ranges = []\<rparr>)"
    by (rule primary_request(1) [OF env])
  have "\<exists>t. converse primary_all_cb server s ?out = Some (Reported 0 (map service_row table), t)"
    using services.discovers [of table server 1 s] assms(2,3) by (simp add: out comp_def)
  from discover_and_wait_reported [OF this, of "primary_all_done True"] obtain t where
    "gattlib_discover_primary_bluez True env server s = Returns GATTLIB_SUCCESS (primary_all_done True 0 (map service_row table)) t"
    unfolding gattlib_discover_primary_bluez_def by (auto simp: out)
  then show ?thesis by (simp add: primary_all_done_def fill_array_def maps_found(1) [OF assms(4)])
qed

lemma socket_chars:
  assumes env: "plenty env"
    and "holds_table (chars_request 0xffff) decl_handle chars_batch chars_reply cs server"
      "table_ok decl_handle decl_handle 0xfffe 1 cs" "\<forall>c \<in> set cs. air_uuid (decl_uuid c)"
  shows "\<exists>t. gattlib_discover_char_bluez True env server s =
    Returns GATTLIB_SUCCESS (if cs = [] then None else Some (map char_found cs), length cs) t"
proof -
  let ?out = "gatt_discover_char 1 0xffff None env :: (discover_char, gatt_char list) outcome option"
  let ?st = "if cs = [] then ATT_ECODE_ATTR_NOT_FOUND else 0"
  have "\<exists>t. converse char_discovered_cb server s ?out = Some (Reported ?st (map char_row cs), t)"
    using chars.discovers [OF assms(2), of 1 s] assms(3) by (cases "cs = []") (simp_all add: first_requests [OF env])
  from discover_and_wait_reported [OF this, of "characteristic_cb True"] obtain t where
    "gattlib_discover_char_bluez True env server s = Returns GATTLIB_SUCCESS (characteristic_cb True ?st (map char_row cs)) t"
    unfolding gattlib_discover_char_bluez_def gattlib_discover_char_range_bluez_def by (auto simp: first_requests [OF env])
  then show ?thesis
    by (cases "cs = []") (simp_all add: characteristic_cb_def fill_array_def ATT_ECODE_ATTR_NOT_FOUND_def maps_found(2) [OF assms(4)])
qed

lemma socket_descs:
  assumes env: "plenty env"
    and "holds_table (descs_request 0xffff) fst (one_kind snd) descs_reply ds server" "table_ok fst fst 0xffff 1 ds"
      "\<forall>d \<in> set ds. air_uuid (snd d)"
  shows "\<exists>t. gattlib_discover_desc_bluez True env server s =
    Returns GATTLIB_SUCCESS (if ds = [] then None else Some (map desc_found ds), length ds) t"
proof -
  let ?out = "gatt_discover_desc 1 0xffff None env :: (discover_desc, gatt_desc list) outcome option"
  let ?st = "if ds = [] then ATT_ECODE_ATTR_NOT_FOUND else 0"
  have "\<exists>t. converse desc_discovered_cb server s ?out = Some (Reported ?st (map desc_row ds), t)"
    using descs.discovers [OF assms(2,3), of s] by (cases "ds = []") (simp_all add: first_requests [OF env])
  from discover_and_wait_reported [OF this, of "char_desc_cb True"] obtain t where
    "gattlib_discover_desc_bluez True env server s = Returns GATTLIB_SUCCESS (char_desc_cb True ?st (map desc_row ds)) t"
    unfolding gattlib_discover_desc_bluez_def gattlib_discover_desc_range_bluez_def by (auto simp: first_requests [OF env])
  then show ?thesis
    by (cases "ds = []") (simp_all add: char_desc_cb_def fill_array_def ATT_ECODE_ATTR_NOT_FOUND_def maps_found(3) [OF assms(4)])
qed

text \<open>C31: Against a server that answers from a table as the protocol has it, the discoveries of the socket back end return
  success with exactly the table's services, characteristics and descriptors, in the order of their handles, each with the
  UUID that gattlib has for the one on the air; where there are no characteristics or descriptors they return success with
  NULL and 0.\<close>

theorem socket_discovery:
  assumes "plenty env"
    and "holds_table services_request (range_start \<circ> fst) (one_kind snd) services_reply table server"
      "table_ok (range_start \<circ> fst) (range_end \<circ> fst) 0xffff 1 table" "\<forall>v \<in> set table. air_uuid (snd v)"
    and "holds_table (chars_request 0xffff) decl_handle chars_batch chars_reply cs server'"
      "table_ok decl_handle decl_handle 0xfffe 1 cs" "\<forall>c \<in> set cs. air_uuid (decl_uuid c)"
    and "holds_table (descs_request 0xffff) fst (one_kind snd) descs_reply ds server''" "table_ok fst fst 0xffff 1 ds"
      "\<forall>d \<in> set ds. air_uuid (snd d)"
  shows "(\<exists>t. gattlib_discover_primary_bluez True env server s = Returns GATTLIB_SUCCESS (Some (map service_found table), length table) t)
    \<and> (\<exists>t. gattlib_discover_char_bluez True env server' s' =
        Returns GATTLIB_SUCCESS (if cs = [] then None else Some (map char_found cs), length cs) t)
    \<and> (\<exists>t. gattlib_discover_desc_bluez True env server'' s'' =
        Returns GATTLIB_SUCCESS (if ds = [] then None else Some (map desc_found ds), length ds) t)"
  by (intro conjI socket_services [OF assms(1-4)] socket_chars [OF assms(1,5-7)] socket_descs [OF assms(1,8-10)])

lemma socket_discovery_witness:
  "(\<exists>t. gattlib_discover_primary_bluez True ex_env (table_server (range_start \<circ> fst) services_reply ex_services) () =
      Returns GATTLIB_SUCCESS (Some (map service_found ex_services), 2) t)
   \<and> (\<exists>t. gattlib_discover_char_bluez True ex_env (table_server decl_handle chars_reply [ex_char 2, ex_char 4]) () =
      Returns GATTLIB_SUCCESS (Some (map char_found [ex_char 2, ex_char 4]), 2) t)
   \<and> (\<exists>t. gattlib_discover_desc_bluez True ex_env (table_server fst descs_reply []) () = Returns GATTLIB_SUCCESS (None, 0) t)"
proof -
  have "holds_table services_request (range_start \<circ> fst) (one_kind snd) services_reply ex_services
      (table_server (range_start \<circ> fst) services_reply ex_services)"
    by (rule table_server_holds) (auto simp: ex_requests one_kind_def is_short_def ex_services_def)
  moreover have "holds_table (chars_request 0xffff) decl_handle chars_batch chars_reply [ex_char 2, ex_char 4]
      (table_server decl_handle chars_reply [ex_char 2, ex_char 4])"
    by (rule table_server_holds) (auto simp: ex_requests chars_batch_def one_kind_def is_short_def ex_char_def)
  moreover have "holds_table (descs_request 0xffff) fst (one_kind snd) descs_reply [] (table_server fst descs_reply [])"
    by (rule table_server_holds) (auto simp: ex_requests)
  ultimately show ?thesis
    using socket_discovery [OF ex_plenty, of ex_services "table_server (range_start \<circ> fst) services_reply ex_services"
        "[ex_char 2, ex_char 4]" "table_server decl_handle chars_reply [ex_char 2, ex_char 4]" "[]" "table_server fst descs_reply []"
        "()" "()" "()"]
    by (simp add: ex_services_def ex_char_def air_uuid_def)
qed

section \<open>Writing and reading through the back end\<close>

lemma handle_of_uuid:
  "get_handle_from_uuid (map char_found cs) u = Some (case List.find (\<lambda>c. gattlib_uuid_cmp (wire_uuid (decl_uuid c)) u = 0) cs of
     None \<Rightarrow> (GATTLIB_NOT_FOUND, 0) | Some c \<Rightarrow> (GATTLIB_SUCCESS, decl_value c))"
  by (induction cs) (simp_all add: char_found_def)

lemma write_by_handle:
  assumes "plenty env" "length data < 65536" "prepared s = []"
  shows "gattlib_write_char_by_handle_bluez env (write_server env) h data s = Returns 0 () (s\<lparr>stored := (stored s)(h :=
     if length data + 3 \<le> length (buffer env) then data else data @ drop (length data) (stored s h))\<rparr>)"
proof -
  note run = write_char_run [OF assms, of h]
  have "gatt_write_char h data env \<noteq> Some Silent"
  proof
    assume "gatt_write_char h data env = Some Silent"
    with run show False by (simp split: if_splits)
  qed
  then show ?thesis by (simp add: gattlib_write_char_by_handle_bluez_def run wait_completed_def Let_def)
qed

text \<open>C32: What is written by the UUID of a characteristic arrives at the value of the first characteristic that has it, of those
  that the connection's discovery found: a value of any length, and, to start or stop notifications, 1 or 0 at the
  attribute after it. With no such characteristic nothing is sent and the codes are \<open>GATTLIB_NOT_FOUND\<close> and -1.\<close>

theorem socket_write:
  assumes "plenty env" and "length data < 65536" and "prepared s = []"
  shows "case List.find (\<lambda>c. gattlib_uuid_cmp (wire_uuid (decl_uuid c)) u = 0) cs of
      None \<Rightarrow> gattlib_write_char_by_uuid_bluez (map char_found cs) env (write_server env) u data s = Returns GATTLIB_NOT_FOUND () s
        \<and> gattlib_notification_start_bluez (map char_found cs) env (write_server env) u s = Returns (-1) () s
        \<and> gattlib_notification_stop_bluez (map char_found cs) env (write_server env) u s = Returns (-1) () s
    | Some c \<Rightarrow> gattlib_write_char_by_uuid_bluez (map char_found cs) env (write_server env) u data s =
          Returns 0 () (s\<lparr>stored := (stored s)(decl_value c :=
            if length data + 3 \<le> length (buffer env) then data else data @ drop (length data) (stored s (decl_value c)))\<rparr>)
        \<and> gattlib_notification_start_bluez (map char_found cs) env (write_server env) u s =
          Returns 0 () (s\<lparr>stored := (stored s)(decl_value c + 1 := [1, 0])\<rparr>)
        \<and> gattlib_notification_stop_bluez (map char_found cs) env (write_server env) u s =
          Returns 0 () (s\<lparr>stored := (stored s)(decl_value c + 1 := [0, 0])\<rparr>)"
proof (cases "List.find (\<lambda>c. gattlib_uuid_cmp (wire_uuid (decl_uuid c)) u = 0) cs")
  case None
  then show ?thesis
    by (simp add: gattlib_write_char_by_uuid_bluez_def gattlib_notification_start_bluez_def gattlib_notification_stop_bluez_def write_configuration_def
        handle_of_uuid GATTLIB_NOT_FOUND_def)
next
  case (Some c)
  have "length (le16 v) + 3 \<le> length (buffer env)" for v using assms(1) by (simp add: plenty_def le16_def)
  moreover have "le16 1 = [1, 0]" "le16 0 = [0, 0]" by (simp_all add: le16_def be16_def)
  ultimately show ?thesis
    using Some write_by_handle [OF assms(1) _ assms(3), of "le16 1"] write_by_handle [OF assms(1) _ assms(3), of "le16 0"]
    by (simp add: gattlib_write_char_by_uuid_bluez_def gattlib_notification_start_bluez_def gattlib_notification_stop_bluez_def write_configuration_def
        handle_of_uuid GATTLIB_SUCCESS_def write_by_handle [OF assms])
qed

lemma socket_write_witness:
  "gattlib_write_char_by_uuid_bluez (map char_found [ex_char 2, ex_char 4]) ex_env (write_server ex_env) (UUID16 0x2A00) [7, 8]
     \<lparr>prepared = [], stored = (\<lambda>_. [])\<rparr> = Returns 0 () \<lparr>prepared = [], stored = (\<lambda>_. [])(3 := [7, 8])\<rparr>"
  using socket_write [OF ex_plenty, of "[7, 8]" "\<lparr>prepared = [], stored = (\<lambda>_. [])\<rparr>" "[ex_char 2, ex_char 4]" "UUID16 0x2A00"]
  by (simp add: ex_char_def ex_env_def)

text \<open>Reading by UUID.\<close>

lemma read_values_all: "\<forall>d \<in> set ds. 2 \<le> length d \<Longrightarrow> read_values ds = Some (map (drop 2) ds)"
  by (induction ds) auto

lemma last_value_all: "\<forall>i. ok i \<Longrightarrow> last_value ok i vs r = (if vs = [] then r else Some (last vs))"
  by (induction vs arbitrary: i r) auto

lemma encode_uuid_request:
  "7 \<le> length buf \<Longrightarrow> gatt_read_char_by_uuid 0x0001 0xffff (Some (BT_UUID16 v)) buf =
    Some (Some (ATT_OP_READ_BY_TYPE_REQ # le16 1 @ le16 0xffff @ le16 v))"
  by (simp add: gatt_read_char_by_uuid_def single_request_def enc_read_by_type_req_def enc_range_uuid_eq)

lemma refused:
  assumes "\<And>s pdu. server s pdu = (s, Some (BT_ATT_OP_ERROR_RSP, [pdu ! 0, 0, 0, e], env))" "copy_ok env"
  shows "converse cb server s (Some (Request pdu d)) = converse cb server s (cb d e [BT_ATT_OP_ERROR_RSP, pdu ! 0, 0, 0, e] env)"
  using assms by (simp add: converse_step attrib_callback_result_def construct_full_pdu_def)



section \<open>What connecting does not do\<close>

text \<open>The first connection starts the thread without counting itself, so the counter never gets above zero and no
  disconnection brings it down to zero: the thread is started again by every connection made while no disconnection
  has been, and none is ever told to quit.\<close>

primrec connection_run :: "bool list \<Rightarrow> loop_thread \<Rightarrow> loop_thread" where
  "connection_run [] t = t"
| "connection_run (c # cs) t = connection_run cs (if c then (case start_loop True t of Some t \<Rightarrow> t | None \<Rightarrow> t) else snd (gattlib_disconnect_bluez t))"

lemma loop_thread_never_quits: "lt_ref t \<le> 0 \<Longrightarrow> lt_quits (connection_run cs t) = lt_quits t \<and> lt_ref (connection_run cs t) \<le> 0"
proof (induction cs arbitrary: t)
  case (Cons c cs)
  let ?t = "if c then (case start_loop True t of Some t \<Rightarrow> t | None \<Rightarrow> t) else snd (gattlib_disconnect_bluez t)"
  have "lt_ref ?t \<le> 0 \<and> lt_quits ?t = lt_quits t"
    using Cons.prems by (auto simp: start_loop_def gattlib_disconnect_bluez_def Let_def)
  then show ?case using Cons.IH [of ?t] by simp
qed simp

theorem loop_thread_started_again:
  "connection_run (replicate n True @ replicate n False) \<lparr>lt_ref = 0, lt_created = 0, lt_quits = 0\<rparr> =
     \<lparr>lt_ref = - int n, lt_created = n, lt_quits = 0\<rparr>"
proof -
  have up: "connection_run (replicate n True @ cs) \<lparr>lt_ref = 0, lt_created = k, lt_quits = 0\<rparr> =
    connection_run cs \<lparr>lt_ref = 0, lt_created = k + n, lt_quits = 0\<rparr>" for n k cs
    by (induction n arbitrary: k) (simp_all add: start_loop_def)
  have down: "r \<le> 0 \<Longrightarrow> connection_run (replicate n False) \<lparr>lt_ref = r, lt_created = k, lt_quits = 0\<rparr> =
    \<lparr>lt_ref = r - int n, lt_created = k, lt_quits = 0\<rparr>" for n k r
    by (induction n arbitrary: r) (simp_all add: gattlib_disconnect_bluez_def Let_def)
  show ?thesis using up [of n "replicate n False" 0] down [of 0 n n] by simp
qed

text \<open>The PSM in the options is read as 1, and so is any MTU on its own; a connection error does not end the wait, which
  goes on until the time-out; an indication of a characteristic that the discovery did not find is not confirmed.\<close>

theorem psm_options: "get_connection_options (LEGACY_PSM 31 OR LEGACY_MTU 256) = (BT_IO_SEC_SDP, 1, 1)"
    "get_connection_options (LEGACY_MTU 256) = (BT_IO_SEC_SDP, 1, 1)"
  by (simp_all add: get_connection_options_def LEGACY_PSM_def LEGACY_MTU_def LEGACY_GET_PSM_def LEGACY_GET_MTU_def
      LEGACY_BT_SEC_LOW_def LEGACY_BT_SEC_MEDIUM_def LEGACY_BT_SEC_HIGH_def push_bit_eq_mult drop_bit_eq_div)

theorem connection_errors_wait:
  "wait_connected (replicate n Io_failed) \<lparr>io_connected = False, io_timeout = False, io_error = e\<rparr> = None"
  by (induction n arbitrary: e) simp_all

theorem indication_not_confirmed:
  assumes "3 \<le> length pdu" "\<forall>c \<in> set cs. bz_value_handle c \<noteq> get_le16 pdu 1"
  shows "events_handler on_notification on_indication cs pdu = Some []"
proof -
  have "get_uuid_from_handle cs h = (GATTLIB_NOT_FOUND, None)" if "\<forall>c \<in> set cs. bz_value_handle c \<noteq> h" for h
    using that by (induction cs) auto
  with assms show ?thesis by (auto simp: events_handler_def rd_le16_def GATTLIB_NOT_FOUND_def)
qed

end
