(* ===== verification/Ringbuf.thy ===== *)
theory Ringbuf
  imports Prelude
begin

text \<open>
  The ring buffer of the BlueZ shared sources (\<open>src/bluez/bluez5/src/shared/ringbuf.c\<close>): bytes are
  put in by formatted printing or from a file descriptor and taken out to a file descriptor or dropped. The
  positions \<open>in\<close> and \<open>out\<close> only grow, in the arithmetic of \<open>size_t\<close>, and are reduced to an index
  with a mask, since the size is a power of two. A \<open>ringbuf option\<close> is the pointer, \<open>None\<close> being
  NULL; an operation that would access memory outside the buffer, or shift by the width of the operand, is
  undefined and has the result \<open>None\<close>. What the operating system does is an argument: \<open>malloc\<close>,
  \<open>vasprintf\<close> (the text it makes), \<open>writev\<close> and \<open>readv\<close>; a negative result of these is \<open>None\<close>.
  The calls of the tracing function are returned as a list.
\<close>

unbundle bit_operations_syntax

type_synonym bytes = "u8 list"

record ringbuf =
  rb_buffer :: bytes
  rb_size :: u64
  rb_in :: u64
  rb_out :: u64
  rb_in_tracing :: "addr option"
  rb_in_data :: addr

type_synonym tracing = "(addr \<times> bytes \<times> addr) list"

section \<open>Memory\<close>

definition mem_read :: "nat \<Rightarrow> nat \<Rightarrow> bytes \<Rightarrow> bytes option" where
  "mem_read off n m = (if off + n \<le> length m then Some (take n (drop off m)) else None)"

definition mem_write :: "nat \<Rightarrow> bytes \<Rightarrow> bytes \<Rightarrow> bytes option" where
  "mem_write off bs m = (if off + length bs \<le> length m then Some (take off m @ bs @ drop (off + length bs) m) else None)"

section \<open>The operations\<close>

text \<open>\<open>__builtin_clz\<close>: the number of leading zero bits.\<close>

definition clz :: "u32 \<Rightarrow> nat" where
  "clz x = length (takeWhile (\<lambda>i. \<not> bit x i) (rev [0..<32]))"

definition fls :: "u32 \<Rightarrow> nat" where
  "fls x = (if x \<noteq> 0 then 32 - clz x else 0)"

definition align_power2 :: "u32 \<Rightarrow> u32 option" where
  "align_power2 u = (let n = fls (u - 1) in if n < 32 then Some (push_bit n 1) else None)"

definition ringbuf_new :: "(nat \<Rightarrow> bytes option) \<Rightarrow> u64 \<Rightarrow> ringbuf option option" where
  "ringbuf_new malloc sz =
     (if sz < 2 \<or> 0xffffffff < sz then Some None
      else do {
        real_size \<leftarrow> align_power2 (ucast sz);
        case malloc (unat real_size) of
          None \<Rightarrow> Some None
        | Some m \<Rightarrow> Some (Some \<lparr>rb_buffer = m, rb_size = ucast real_size, rb_in = 0, rb_out = 0,
                            rb_in_tracing = None, rb_in_data = 0\<rparr>) })"

definition ringbuf_set_input_tracing :: "addr option \<Rightarrow> addr \<Rightarrow> ringbuf option \<Rightarrow> bool \<times> ringbuf option" where
  "ringbuf_set_input_tracing callback user_data rb = (case rb of
     None \<Rightarrow> (False, None)
   | Some r \<Rightarrow> (True, Some (r\<lparr>rb_in_tracing := callback, rb_in_data := user_data\<rparr>)))"

definition ringbuf_capacity :: "ringbuf option \<Rightarrow> u64" where
  "ringbuf_capacity rb = (case rb of None \<Rightarrow> 0 | Some r \<Rightarrow> rb_size r)"

definition ringbuf_len :: "ringbuf option \<Rightarrow> u64" where
  "ringbuf_len rb = (case rb of None \<Rightarrow> 0 | Some r \<Rightarrow> rb_in r - rb_out r)"

definition ringbuf_avail :: "ringbuf option \<Rightarrow> u64" where
  "ringbuf_avail rb = (case rb of None \<Rightarrow> 0 | Some r \<Rightarrow> rb_size r - rb_in r + rb_out r)"

text \<open>The end of \<open>ringbuf_drain\<close> and \<open>ringbuf_write\<close>: bytes are taken out, and an empty buffer is reset.\<close>

definition take_out :: "u64 \<Rightarrow> ringbuf \<Rightarrow> ringbuf" where
  "take_out n r = (let r = r\<lparr>rb_out := rb_out r + n\<rparr> in if rb_out r = rb_in r then r\<lparr>rb_in := 0, rb_out := 0\<rparr> else r)"

definition ringbuf_drain :: "u64 \<Rightarrow> ringbuf option \<Rightarrow> u64 \<times> ringbuf option" where
  "ringbuf_drain count rb = (case rb of
     None \<Rightarrow> (0, None)
   | Some r \<Rightarrow> let len = min count (rb_in r - rb_out r) in
       if len = 0 then (0, Some r) else (len, Some (take_out len r)))"

text \<open>The pointer that \<open>ringbuf_peek\<close> returns is an index into the buffer.\<close>

definition ringbuf_peek :: "u64 \<Rightarrow> ringbuf option \<Rightarrow> (u64 \<times> u64) option" where
  "ringbuf_peek off rb = (case rb of
     None \<Rightarrow> None
   | Some r \<Rightarrow> let off = (rb_out r + off) AND (rb_size r - 1); len = rb_in r - rb_out r in
       Some (off, min len (rb_size r - off)))"

definition ringbuf_write :: "(int \<Rightarrow> bytes list \<Rightarrow> nat option) \<Rightarrow> int \<Rightarrow> ringbuf option \<Rightarrow> (int \<times> ringbuf option) option" where
  "ringbuf_write writev fd rb = (case rb of
     None \<Rightarrow> Some (- 1, None)
   | Some r \<Rightarrow>
     if fd < 0 then Some (- 1, Some r)
     else let len = rb_in r - rb_out r in
     if len = 0 then Some (0, Some r)
     else let off = rb_out r AND (rb_size r - 1); stop = min len (rb_size r - off) in do {
       iov0 \<leftarrow> mem_read (unat off) (unat stop) (rb_buffer r);
       iov1 \<leftarrow> mem_read 0 (unat (len - stop)) (rb_buffer r);
       case writev fd [iov0, iov1] of
         None \<Rightarrow> Some (- 1, Some r)
       | Some consumed \<Rightarrow> Some (int consumed, Some (take_out (of_nat consumed) r)) })"

text \<open>The tracing function is called with the bytes at an index.\<close>

definition trace_input :: "nat \<Rightarrow> nat \<Rightarrow> ringbuf \<Rightarrow> tracing option" where
  "trace_input off n r = (case rb_in_tracing r of
     None \<Rightarrow> Some []
   | Some f \<Rightarrow> do { bs \<leftarrow> mem_read off n (rb_buffer r); Some [(f, bs, rb_in_data r)] })"

text \<open>The outcome of \<open>vasprintf\<close> for the format and its arguments is an argument, as is NULL for the format.\<close>

definition ringbuf_vprintf :: "bytes option option \<Rightarrow> ringbuf option \<Rightarrow> (int \<times> tracing \<times> ringbuf option) option" where
  "ringbuf_vprintf format rb = (case (rb, format) of
     (Some r, Some printed) \<Rightarrow>
       let avail = rb_size r - rb_in r + rb_out r in
       if avail = 0 then Some (- 1, [], rb)
       else (case printed of
         None \<Rightarrow> Some (- 1, [], rb)
       | Some str \<Rightarrow>
         let len = of_nat (length str) :: u64 in
         if avail < len then Some (- 1, [], rb)
         else let off = rb_in r AND (rb_size r - 1); stop = min len (rb_size r - off) in do {
           m \<leftarrow> mem_write (unat off) (take (unat stop) str) (rb_buffer r);
           let r = r\<lparr>rb_buffer := m\<rparr>;
           t1 \<leftarrow> trace_input (unat off) (unat stop) r;
           (t2, r) \<leftarrow>
             (if 0 < len - stop then do {
                m \<leftarrow> mem_write 0 (drop (unat stop) str) (rb_buffer r);
                let r = r\<lparr>rb_buffer := m\<rparr>;
                t \<leftarrow> trace_input 0 (unat (len - stop)) r;
                Some (t, r) }
              else Some ([], r));
           Some (int (length str), t1 @ t2, Some (r\<lparr>rb_in := rb_in r + len\<rparr>)) })
   | _ \<Rightarrow> Some (- 1, [], rb))"

definition ringbuf_printf :: "bytes option option \<Rightarrow> ringbuf option \<Rightarrow> (int \<times> tracing \<times> ringbuf option) option" where
  "ringbuf_printf format rb = do { (len, t, rb) \<leftarrow> ringbuf_vprintf format rb; Some (len, t, rb) }"

text \<open>\<open>readv\<close> is given the lengths of the two parts and returns the bytes read, which fill the first part and go
  on in the second.\<close>

definition ringbuf_read :: "(int \<Rightarrow> nat list \<Rightarrow> bytes option) \<Rightarrow> int \<Rightarrow> ringbuf option \<Rightarrow> (int \<times> tracing \<times> ringbuf option) option" where
  "ringbuf_read readv fd rb = (case rb of
     None \<Rightarrow> Some (- 1, [], None)
   | Some r \<Rightarrow>
     if fd < 0 then Some (- 1, [], Some r)
     else let avail = rb_size r - rb_in r + rb_out r in
     if avail = 0 then Some (- 1, [], Some r)
     else let off = rb_in r AND (rb_size r - 1); stop = min avail (rb_size r - off) in
     (case readv fd [unat stop, unat (avail - stop)] of
        None \<Rightarrow> Some (- 1, [], Some r)
      | Some bs \<Rightarrow> do {
          m \<leftarrow> mem_write (unat off) (take (unat stop) bs) (rb_buffer r);
          m \<leftarrow> mem_write 0 (drop (unat stop) bs) m;
          let r = r\<lparr>rb_buffer := m\<rparr>;
          let consumed = (of_nat (length bs) :: u64);
          t \<leftarrow>
            (if rb_in_tracing r \<noteq> None then (let len = min consumed stop in do {
               t1 \<leftarrow> trace_input (unat off) (unat len) r;
               t2 \<leftarrow> (if 0 < consumed - len then trace_input 0 (unat (consumed - len)) r else Some []);
               Some (t1 @ t2) })
             else Some []);
          Some (int (length bs), t, Some (r\<lparr>rb_in := rb_in r + consumed\<rparr>)) }))"

section \<open>The abstraction\<close>

definition wf_ringbuf :: "ringbuf \<Rightarrow> bool" where
  "wf_ringbuf r \<longleftrightarrow> (\<exists>k. 0 < k \<and> k < 32 \<and> rb_size r = 2 ^ k \<and> length (rb_buffer r) = 2 ^ k \<and> unat (rb_in r - rb_out r) \<le> 2 ^ k)"

definition contents :: "ringbuf \<Rightarrow> bytes" where
  "contents r = take (unat (rb_in r - rb_out r)) (rotate (unat (rb_out r)) (rb_buffer r))"

text \<open>Bytes written behind the contents, in two parts when they pass the end of the buffer.\<close>

definition write_parts :: "nat \<Rightarrow> nat \<Rightarrow> bytes \<Rightarrow> bytes \<Rightarrow> bytes" where
  "write_parts p n bs m = drop n bs @ drop (length bs - n) (take p m @ take n bs @ drop (p + n) m)"

lemma write_parts_nth:
  assumes "n = min (length bs) (length m - p)" "p < length m" "length bs \<le> length m"
  shows "length (write_parts p n bs m) = length m"
    and "j < length m \<Longrightarrow> write_parts p n bs m ! j
      = (if j < length bs - n then bs ! (n + j) else if p \<le> j \<and> j < p + n then bs ! (j - p) else m ! j)"
proof -
  define m1 where "m1 = take p m @ take n bs @ drop (p + n) m"
  have n: "n \<le> length bs" "p + n \<le> length m" using assms by linarith+
  then have l1: "length m1 = length m" by (simp add: m1_def)
  show "length (write_parts p n bs m) = length m" using n l1 assms(3) by (simp add: write_parts_def m1_def [symmetric])
  assume j: "j < length m"
  have n1: "m1 ! j = (if p \<le> j \<and> j < p + n then bs ! (j - p) else m ! j)"
    using j n by (auto simp: m1_def nth_append min_def)
  show "write_parts p n bs m ! j
      = (if j < length bs - n then bs ! (n + j) else if p \<le> j \<and> j < p + n then bs ! (j - p) else m ! j)"
    using n n1 l1 j assms(3) by (simp add: write_parts_def m1_def [symmetric] nth_append)
qed

lemma rotate_write:
  assumes o: "o' < length m" and p: "p = (o' + l) mod length m" and l: "l + length bs \<le> length m"
    and n: "n = min (length bs) (length m - p)"
  shows "take (l + length bs) (rotate o' (write_parts p n bs m)) = take l (rotate o' m) @ bs" (is "?L = ?R")
proof -
  have p': "p = (if o' + l < length m then o' + l else o' + l - length m)"
    using o l p by (simp add: mod_if)
  have pl: "p < length m" using o p by (metis less_zeroE mod_less_divisor not_gr_zero)
  have lm: "length bs \<le> length m" using l by simp
  note w = write_parts_nth [OF n pl lm]
  show ?thesis
  proof (rule nth_equalityI)
    show "length ?L = length ?R" using w(1) l by simp
    fix i assume "i < length ?L"
    then have i: "i < l + length bs" "i < length m" using w(1) l by auto
    define j where "j = (o' + i) mod length m"
    have j: "j = (if o' + i < length m then o' + i else o' + i - length m)"
      using o i by (simp add: j_def mod_if)
    have jl: "j < length m" using j i o by (simp split: if_splits)
    have "?L ! i = write_parts p n bs m ! j" using i w(1) by (simp add: nth_rotate j_def)
    also have "\<dots> = (if i < l then m ! j else bs ! (i - l))"
    proof (cases "i < l")
      case True
      then have "\<not> j < length bs - n" "\<not> (p \<le> j \<and> j < p + n)"
        using j p' n o l i by (auto split: if_splits)
      with True show ?thesis by (auto simp: w(2) [OF jl])
    next
      case False
      show ?thesis
      proof (cases "j < length bs - n")
        case True
        then have "n + j = i - l" using False j p' n o l i by (auto split: if_splits)
        with True False show ?thesis using w(2) [OF jl] by simp
      next
        case 2: False
        then have "p \<le> j \<and> j < p + n" "j - p = i - l" using False j p' n o l i by (auto split: if_splits)
        with 2 False show ?thesis using w(2) [OF jl] by simp
      qed
    qed
    also have "\<dots> = ?R ! i" using i l by (simp add: nth_append nth_rotate j_def)
    finally show "?L ! i = ?R ! i" .
  qed
qed

section \<open>Positions\<close>

lemma unat_exp: assumes "k < 64" shows "unat ((2::u64) ^ k) = 2 ^ k"
proof -
  have "(2::nat) ^ k < 2 ^ 64" using assms by (intro power_strict_increasing) auto
  then show ?thesis using unat_of_nat [of "2 ^ k", where ?'a = 64] by simp
qed

lemma unat_min: "unat (min a b) = min (unat a) (unat b)"
  by (simp add: min_def word_le_nat_alt)

lemma unat_diff: "unat b \<le> unat a \<Longrightarrow> unat (a - b) = unat a - unat b"
  by (simp add: unat_sub word_le_nat_alt)

lemma unat_mask: "k < 64 \<Longrightarrow> unat (w AND (2 ^ k - 1)) = unat (w::u64) mod 2 ^ k"
  by (simp only: mask_eq_exp_minus_1 [symmetric] take_bit_eq_mask [symmetric] unsigned_take_bit_eq)
    (simp only: take_bit_eq_mod)

lemma unat_add_mod: "k \<le> 64 \<Longrightarrow> unat (a + b :: u64) mod 2 ^ k = (unat a + unat b) mod 2 ^ k"
proof -
  assume "k \<le> 64"
  then have "(2::nat) ^ k dvd 2 ^ 64" by (rule le_imp_power_dvd)
  then show ?thesis by (simp add: unat_word_ariths mod_mod_cancel)
qed

text \<open>A ring buffer as seen from outside: its size, the index of the first byte and the number of bytes.\<close>

definition ring_view :: "ringbuf \<Rightarrow> nat \<Rightarrow> nat \<Rightarrow> nat \<Rightarrow> bool" where
  "ring_view r N p l \<longleftrightarrow> (\<exists>k. 0 < k \<and> k < 32 \<and> N = 2 ^ k \<and> rb_size r = 2 ^ k) \<and> length (rb_buffer r) = N
     \<and> p = unat (rb_out r) mod N \<and> l = unat (rb_in r - rb_out r) \<and> l \<le> N"

lemma wf_view: "wf_ringbuf r \<longleftrightarrow> (\<exists>N p l. ring_view r N p l)"
  by (auto simp: wf_ringbuf_def ring_view_def)

lemma view_contents: "ring_view r N p l \<Longrightarrow> contents r = take l (rotate p (rb_buffer r))"
  by (auto simp: ring_view_def contents_def rotate_conv_mod [of "unat (rb_out r)"])

lemma length_contents: "ring_view r N p l \<Longrightarrow> length (contents r) = l"
  by (auto simp: ring_view_def contents_def)

lemma view_facts:
  assumes "ring_view r N p l"
  shows "unat (rb_size r) = N" "1 < N" "N < 2 ^ 32" "length (rb_buffer r) = N" "l \<le> N" "p < N"
    and "unat (rb_in r - rb_out r) = l" and "unat (rb_size r - rb_in r + rb_out r) = N - l"
    and "unat (w AND (rb_size r - 1)) = unat w mod N"
    and "unat (rb_out r) mod N = p" and "unat (rb_in r) mod N = (p + l) mod N"
    and "unat (rb_out r + w) mod N = (p + unat w) mod N"
proof -
  obtain k where k: "0 < k" "k < 32" "N = 2 ^ k" "rb_size r = 2 ^ k" using assms by (auto simp: ring_view_def)
  show N: "unat (rb_size r) = N" using k by (simp add: unat_exp)
  show "1 < N" using k(1,3) by (simp only: one_less_power)
  show "N < 2 ^ 32" using k(2,3) power_strict_increasing [of k 32 "2::nat"] by simp
  have N0: "0 < N" using k(3) by simp
  show "length (rb_buffer r) = N" "l \<le> N" "unat (rb_in r - rb_out r) = l" "unat (rb_out r) mod N = p"
    using assms by (auto simp: ring_view_def)
  show "p < N" using assms N0 by (auto simp: ring_view_def)
  have "unat (rb_size r - (rb_in r - rb_out r)) = N - l"
    using N assms by (subst unat_diff) (auto simp: ring_view_def)
  moreover have "rb_size r - rb_in r + rb_out r = rb_size r - (rb_in r - rb_out r)" by simp
  ultimately show "unat (rb_size r - rb_in r + rb_out r) = N - l" by (simp only:)
  show "unat (w AND (rb_size r - 1)) = unat w mod N" using k by (simp add: unat_mask)
  have add: "unat (rb_out r + v) mod N = (p + unat v) mod N" for v
    using k assms unat_add_mod [of k "rb_out r" v] by (simp add: ring_view_def mod_add_left_eq)
  from this [of w] show "unat (rb_out r + w) mod N = (p + unat w) mod N" .
  from add [of "rb_in r - rb_out r"] show "unat (rb_in r) mod N = (p + l) mod N"
    using assms by (simp add: ring_view_def)
qed

text \<open>Taking bytes out and putting bytes in, on the contents.\<close>

lemma take_out_view:
  assumes v: "ring_view r N p l" and n: "unat n \<le> l"
  shows "wf_ringbuf (take_out n r)" "contents (take_out n r) = drop (unat n) (contents r)" "rb_size (take_out n r) = rb_size r"
proof -
  note f = view_facts [OF v]
  let ?r = "r\<lparr>rb_out := rb_out r + n\<rparr>"
  have d: "unat (rb_in r - (rb_out r + n)) = l - unat n"
    using n f(7) unat_diff [of n "rb_in r - rb_out r"] by (simp add: diff_diff_eq)
  have v1: "ring_view ?r N ((p + unat n) mod N) (l - unat n)"
    using v d f(12) [of n] by (auto simp: ring_view_def)
  have c1: "contents ?r = drop (unat n) (contents r)"
  proof -
    have "rotate ((p + unat n) mod N) (rb_buffer r) = rotate (unat n) (rotate p (rb_buffer r))"
      using f(4) by (simp add: rotate_rotate rotate_conv_mod [of "p + unat n"] add.commute)
    moreover have "take (l - i) (rotate i xs) = drop i (take l xs)" if "i \<le> l" "l \<le> length xs" for i and xs :: bytes
      using that by (cases "i = length xs") (simp_all add: rotate_drop_take drop_take)
    ultimately show ?thesis using view_contents [OF v1] view_contents [OF v] n f(4,5) by simp
  qed
  have e: "rb_out ?r = rb_in ?r \<Longrightarrow> l - unat n = 0" using d by simp
  have v2: "ring_view (?r\<lparr>rb_in := 0, rb_out := 0\<rparr>) N 0 0" using v by (auto simp: ring_view_def)
  have "contents (?r\<lparr>rb_in := 0, rb_out := 0\<rparr>) = []" using view_contents [OF v2] by simp
  moreover have "drop (unat n) (contents r) = []" if "l - unat n = 0" using that length_contents [OF v] by simp
  ultimately show "contents (take_out n r) = drop (unat n) (contents r)" "wf_ringbuf (take_out n r)"
    using c1 e v1 v2 by (auto simp: take_out_def Let_def wf_view)
  show "rb_size (take_out n r) = rb_size r" by (simp add: take_out_def Let_def)
qed

lemma put_in_view:
  assumes v: "ring_view r N p l" and bs: "l + length bs \<le> N" and n: "n = min (length bs) (N - (p + l) mod N)"
  defines "r' \<equiv> r\<lparr>rb_buffer := write_parts ((p + l) mod N) n bs (rb_buffer r), rb_in := rb_in r + of_nat (length bs)\<rparr>"
  shows "wf_ringbuf r'" "contents r' = contents r @ bs" "rb_size r' = rb_size r"
proof -
  note f = view_facts [OF v]
  have small: "unat (of_nat (length bs) :: u64) = length bs"
    using bs f(3) by (simp add: unat_of_nat)
  have lt: "(p + l) mod N < N" using f(2) by simp
  have len: "length (write_parts ((p + l) mod N) n bs (rb_buffer r)) = N"
    using write_parts_nth(1) [of n bs "rb_buffer r" "(p + l) mod N"] n f lt bs by simp
  have "unat (rb_in r - rb_out r + of_nat (length bs)) = l + length bs"
    using f(3,7) small bs by (simp add: unat_word_ariths)
  then have d: "unat (rb_in r + of_nat (length bs) - rb_out r) = l + length bs" by (simp add: algebra_simps)
  have v1: "ring_view r' N p (l + length bs)"
    using v d len bs by (auto simp: ring_view_def r'_def)
  from v1 show "wf_ringbuf r'" by (auto simp: wf_view)
  show "contents r' = contents r @ bs"
    using rotate_write [of p "rb_buffer r" "(p + l) mod N" l bs n] n f bs
    by (simp add: view_contents [OF v1] view_contents [OF v]) (simp add: r'_def)
  show "rb_size r' = rb_size r" by (simp add: r'_def)
qed

section \<open>The operations are those of a bounded queue of bytes\<close>

record fifo =
  fifo_size :: nat
  fifo_items :: bytes
  fifo_tracer :: "addr option"

datatype ring_op =
    Ring_Printf "bytes option option"
  | Ring_Read "int \<Rightarrow> nat list \<Rightarrow> bytes option" int
  | Ring_Write "int \<Rightarrow> bytes list \<Rightarrow> nat option" int
  | Ring_Drain u64
  | Ring_Len
  | Ring_Avail
  | Ring_Capacity
  | Ring_Trace "addr option" addr

datatype ring_answer = Number nat | Result int | Traced int bytes | Accepted bool

definition traced_bytes :: "tracing \<Rightarrow> bytes" where
  "traced_bytes t = concat (map (\<lambda>(f, bs, d). bs) t)"

definition run_ring_op :: "ring_op \<Rightarrow> ringbuf option \<Rightarrow> (ring_answer \<times> ringbuf option) option" where
  "run_ring_op op rb = (case op of
     Ring_Printf fmt \<Rightarrow> do { (n, t, rb) \<leftarrow> ringbuf_vprintf fmt rb; Some (Traced n (traced_bytes t), rb) }
   | Ring_Read readv fd \<Rightarrow> do { (n, t, rb) \<leftarrow> ringbuf_read readv fd rb; Some (Traced n (traced_bytes t), rb) }
   | Ring_Write writev fd \<Rightarrow> do { (n, rb) \<leftarrow> ringbuf_write writev fd rb; Some (Result n, rb) }
   | Ring_Drain c \<Rightarrow> (case ringbuf_drain c rb of (n, rb) \<Rightarrow> Some (Number (unat n), rb))
   | Ring_Len \<Rightarrow> Some (Number (unat (ringbuf_len rb)), rb)
   | Ring_Avail \<Rightarrow> Some (Number (unat (ringbuf_avail rb)), rb)
   | Ring_Capacity \<Rightarrow> Some (Number (unat (ringbuf_capacity rb)), rb)
   | Ring_Trace f d \<Rightarrow> (case ringbuf_set_input_tracing f d rb of (b, rb) \<Rightarrow> Some (Accepted b, rb)))"

definition fifo_put :: "bytes \<Rightarrow> fifo \<Rightarrow> ring_answer \<times> fifo" where
  "fifo_put bs q = (Traced (int (length bs)) (if fifo_tracer q = None then [] else bs), q\<lparr>fifo_items := fifo_items q @ bs\<rparr>)"

definition fifo_op :: "ring_op \<Rightarrow> fifo \<Rightarrow> ring_answer \<times> fifo" where
  "fifo_op op q = (let room = fifo_size q - length (fifo_items q); refused = (Traced (- 1) [], q) in
     case op of
       Ring_Printf fmt \<Rightarrow>
         (case fmt of
            Some (Some s) \<Rightarrow> if 0 < room \<and> length s \<le> room then fifo_put s q else refused
          | _ \<Rightarrow> refused)
     | Ring_Read readv fd \<Rightarrow>
         if fd < 0 \<or> room = 0 then refused
         else (case readv fd [room] of None \<Rightarrow> refused | Some bs \<Rightarrow> fifo_put bs q)
     | Ring_Write writev fd \<Rightarrow>
         if fd < 0 then (Result (- 1), q)
         else if fifo_items q = [] then (Result 0, q)
         else (case writev fd [fifo_items q] of
            None \<Rightarrow> (Result (- 1), q)
          | Some n \<Rightarrow> (Result (int n), q\<lparr>fifo_items := drop n (fifo_items q)\<rparr>))
     | Ring_Drain c \<Rightarrow> (Number (min (unat c) (length (fifo_items q))), q\<lparr>fifo_items := drop (unat c) (fifo_items q)\<rparr>)
     | Ring_Len \<Rightarrow> (Number (length (fifo_items q)), q)
     | Ring_Avail \<Rightarrow> (Number room, q)
     | Ring_Capacity \<Rightarrow> (Number (fifo_size q), q)
     | Ring_Trace f d \<Rightarrow> (Accepted True, q\<lparr>fifo_tracer := f\<rparr>))"

text \<open>What is documented of the system calls: \<open>readv\<close> and \<open>writev\<close> treat the parts as one sequence of bytes and
  transfer no more than they are given room for; \<open>vasprintf\<close> returns the length as an \<open>int\<close>.\<close>

definition lawful_call :: "ring_op \<Rightarrow> bool" where
  "lawful_call op = (case op of
     Ring_Printf (Some (Some s)) \<Rightarrow> length s < 2 ^ 31
   | Ring_Read readv fd \<Rightarrow> (\<forall>ns. readv fd ns = readv fd [sum_list ns] \<and> (\<forall>bs. readv fd ns = Some bs \<longrightarrow> length bs \<le> sum_list ns))
   | Ring_Write writev fd \<Rightarrow> (\<forall>iov. writev fd iov = writev fd [concat iov] \<and> (\<forall>n. writev fd iov = Some n \<longrightarrow> n \<le> length (concat iov)))
   | _ \<Rightarrow> True)"

definition holds_fifo :: "ringbuf option \<Rightarrow> fifo \<Rightarrow> bool" where
  "holds_fifo rb q \<longleftrightarrow> (\<exists>r. rb = Some r \<and> wf_ringbuf r
     \<and> q = \<lparr>fifo_size = unat (rb_size r), fifo_items = contents r, fifo_tracer = rb_in_tracing r\<rparr>)"

lemma lawful_write:
  assumes "lawful_call (Ring_Write writev fd)"
  shows "writev fd iov = writev fd [concat iov]" and "writev fd iov = Some n \<Longrightarrow> n \<le> length (concat iov)"
  using assms by (simp_all add: lawful_call_def)

lemma lawful_read:
  assumes "lawful_call (Ring_Read readv fd)"
  shows "readv fd ns = readv fd [sum_list ns]" and "readv fd ns = Some bs \<Longrightarrow> length bs \<le> sum_list ns"
  using assms by (simp_all add: lawful_call_def)

lemma drain_fifo:
  assumes "ring_view r N p l"
  shows "\<exists>rb. ringbuf_drain c (Some r) = (of_nat (min (unat c) l), rb)
    \<and> holds_fifo rb \<lparr>fifo_size = N, fifo_items = drop (unat c) (contents r), fifo_tracer = rb_in_tracing r\<rparr>"
proof -
  note f = view_facts [OF assms]
  let ?n = "min c (rb_in r - rb_out r)"
  have n: "unat ?n = min (unat c) l" using f(7) by (simp add: unat_min)
  then have w: "?n = of_nat (min (unat c) l)" by (simp flip: n)
  have d: "drop (unat ?n) (contents r) = drop (unat c) (contents r)"
    using n length_contents [OF assms] by (cases "unat c \<le> l") (auto simp: min_def)
  have wf: "wf_ringbuf r" using assms by (auto simp: wf_view)
  have t: "rb_in_tracing (take_out ?n r) = rb_in_tracing r" by (simp add: take_out_def Let_def)
  show ?thesis
  proof (cases "?n = 0")
    case True
    with d wf f(1) w show ?thesis by (auto simp: ringbuf_drain_def holds_fifo_def)
  next
    case False
    have "ringbuf_drain c (Some r) = (?n, Some (take_out ?n r))" using False by (simp add: ringbuf_drain_def Let_def)
    moreover have "unat ?n \<le> l" using n by simp
    ultimately show ?thesis
      using take_out_view [OF assms, of ?n] d t w f(1) by (simp add: holds_fifo_def)
  qed
qed

lemma out_parts:
  assumes v: "ring_view r N p l" and n: "n = min l (N - p)"
  shows "mem_read p n (rb_buffer r) = Some (take n (contents r))"
    and "mem_read 0 (l - n) (rb_buffer r) = Some (drop n (contents r))"
proof -
  note f = view_facts [OF v]
  have c: "contents r = take l (drop p (rb_buffer r) @ take p (rb_buffer r))"
    using view_contents [OF v] f by (simp add: rotate_drop_take)
  show "mem_read p n (rb_buffer r) = Some (take n (contents r))"
    using f(4-6) n by (auto simp: mem_read_def c min_def)
  have "p + n \<le> N" using f n by auto
  show "mem_read 0 (l - n) (rb_buffer r) = Some (drop n (contents r))"
  proof (cases "l \<le> N - p")
    case True
    then show ?thesis using f n by (simp add: mem_read_def c)
  next
    case False
    then show ?thesis using f n by (simp add: mem_read_def c drop_take)
  qed
qed

lemma write_fifo:
  assumes v: "ring_view r N p l" and law: "lawful_call (Ring_Write writev fd)"
  defines "q \<equiv> \<lparr>fifo_size = N, fifo_items = contents r, fifo_tracer = rb_in_tracing r\<rparr>"
  shows "\<exists>rb n. ringbuf_write writev fd (Some r) = Some (n, rb)
    \<and> fst (fifo_op (Ring_Write writev fd) q) = Result n \<and> holds_fifo rb (snd (fifo_op (Ring_Write writev fd) q))"
proof -
  note f = view_facts [OF v]
  have wf: "wf_ringbuf r" using v by (auto simp: wf_view)
  have keep: "holds_fifo (Some r) q" using wf f(1) by (simp add: holds_fifo_def q_def)
  have len: "length (contents r) = l" by (rule length_contents [OF v])
  let ?l = "rb_in r - rb_out r" and ?p = "rb_out r AND (rb_size r - 1)"
  let ?n = "min ?l (rb_size r - ?p)"
  have p: "unat ?p = p" using f(9) [of "rb_out r"] f(10) by simp
  have n: "unat ?n = min l (N - p)" using f p by (simp add: unat_min unat_diff)
  have rest: "unat (?l - ?n) = l - min l (N - p)" using n f(7) by (simp add: unat_diff)
  have zero: "?l = 0 \<longleftrightarrow> contents r = []" using f(7) len by (metis length_0_conv unat_eq_zero)
  have iov: "writev fd [take k (contents r), drop k (contents r)] = writev fd [contents r]" for k
    using lawful_write(1) [OF law, of "[take k (contents r), drop k (contents r)]"] by simp
  show ?thesis
  proof (cases "fd < 0 \<or> contents r = []")
    case True
    then show ?thesis using keep zero by (auto simp: ringbuf_write_def fifo_op_def q_def Let_def)
  next
    case False
    then have run: "ringbuf_write writev fd (Some r) = (case writev fd [contents r] of
         None \<Rightarrow> Some (- 1, Some r)
       | Some consumed \<Rightarrow> Some (int consumed, Some (take_out (of_nat consumed) r)))"
      using zero out_parts [OF v refl] by (simp add: ringbuf_write_def Let_def p n rest iov)
    show ?thesis
    proof (cases "writev fd [contents r]")
      case None
      with False run keep show ?thesis by (simp add: fifo_op_def q_def Let_def)
    next
      case (Some m)
      then have "m \<le> l" using lawful_write(2) [OF law, of "[contents r]" m] len by simp
      then have m: "unat (of_nat m :: u64) = m" using f(3,5) by (simp add: unat_of_nat)
      have t: "rb_in_tracing (take_out (of_nat m) r) = rb_in_tracing r" by (simp add: take_out_def Let_def)
      show ?thesis using Some False run take_out_view [OF v, of "of_nat m"] m \<open>m \<le> l\<close> t f(1)
        by (simp add: fifo_op_def q_def Let_def holds_fifo_def)
    qed
  qed
qed

lemma write_parts_reads:
  assumes n: "n = min (length bs) (length m - p)" and p: "p < length m" and l: "length bs \<le> length m"
  shows "take n (drop p (write_parts p n bs m)) = take n bs"
    and "take (length bs - n) (write_parts p n bs m) = drop n bs"
    and "write_parts p n (take n bs) m = take p m @ take n bs @ drop (p + n) m"
proof -
  note w = write_parts_nth [OF n p l]
  have le: "p + n \<le> length m" "n \<le> length bs" "length bs - n \<le> p" using n p l by linarith+
  show "take n (drop p (write_parts p n bs m)) = take n bs"
    by (rule nth_equalityI) (use w le in \<open>auto simp: min_def split: if_splits\<close>)
  show "take (length bs - n) (write_parts p n bs m) = drop n bs"
    by (rule nth_equalityI) (use w le in \<open>auto simp: min_def split: if_splits\<close>)
  show "write_parts p n (take n bs) m = take p m @ take n bs @ drop (p + n) m"
    using le by (simp add: write_parts_def min_def)
qed

text \<open>The two writes to memory that put bytes in, and the bytes that are traced.\<close>

lemma in_parts:
  assumes v: "ring_view r N p l" and bs: "l + length bs \<le> N" and n: "n = min (length bs) (N - (p + l) mod N)"
  defines "i \<equiv> (p + l) mod N"
  defines "m1 \<equiv> take i (rb_buffer r) @ take n bs @ drop (i + n) (rb_buffer r)"
    and "m2 \<equiv> write_parts i n bs (rb_buffer r)"
  shows "mem_write i (take n bs) (rb_buffer r) = Some m1"
    and "mem_write 0 (drop n bs) m1 = Some m2"
    and "mem_read i n m1 = Some (take n bs)"
    and "mem_read i n m2 = Some (take n bs)"
    and "mem_read 0 (length bs - n) m2 = Some (drop n bs)"
proof -
  note f = view_facts [OF v]
  have i: "i < N" using f(2) by (simp add: i_def)
  have le: "i + n \<le> N" "n \<le> length bs" "length bs \<le> N" using n i bs by (auto simp: i_def)
  then have m1: "length m1 = N" using f(4) by (simp add: m1_def)
  have n': "n = min (length bs) (length (rb_buffer r) - i)" using n f(4) by (simp add: i_def)
  note w = write_parts_reads [OF n'] write_parts_nth(1) [OF n']
  show "mem_write i (take n bs) (rb_buffer r) = Some m1" using le f(4) by (simp add: mem_write_def m1_def min_def)
  show "mem_write 0 (drop n bs) m1 = Some m2"
    using le m1 by (simp add: mem_write_def m2_def write_parts_def m1_def)
  show "mem_read i n m1 = Some (take n bs)"
    using le f(4) i m1 by (simp add: mem_read_def) (simp add: m1_def min_def)
  show "mem_read i n m2 = Some (take n bs)" "mem_read 0 (length bs - n) m2 = Some (drop n bs)"
    using le f(4) i w by (simp_all add: mem_read_def m2_def)
qed

lemma put_in:
  assumes v: "ring_view r N p l" and bs: "l + length bs \<le> N" and n: "n = min (length bs) (N - i)" and i: "i = (p + l) mod N"
  obtains m1 m2 where "mem_write i (take n bs) (rb_buffer r) = Some m1" "mem_write 0 (drop n bs) m1 = Some m2"
    "mem_read i n m1 = Some (take n bs)" "mem_read i n m2 = Some (take n bs)"
    "mem_read 0 (length bs - n) m2 = Some (drop n bs)" "n = length bs \<Longrightarrow> m2 = m1"
    "wf_ringbuf (r\<lparr>rb_buffer := m2, rb_in := rb_in r + of_nat (length bs)\<rparr>)"
    "contents (r\<lparr>rb_buffer := m2, rb_in := rb_in r + of_nat (length bs)\<rparr>) = contents r @ bs"
  using in_parts [OF v bs n [unfolded i]] put_in_view [OF v bs n [unfolded i]] unfolding i
  by (simp add: write_parts_def)

lemma printf_fifo:
  assumes v: "ring_view r N p l" and law: "lawful_call (Ring_Printf fmt)"
  defines "q \<equiv> \<lparr>fifo_size = N, fifo_items = contents r, fifo_tracer = rb_in_tracing r\<rparr>"
  shows "\<exists>rb n t. ringbuf_vprintf fmt (Some r) = Some (n, t, rb)
    \<and> fst (fifo_op (Ring_Printf fmt) q) = Traced n (traced_bytes t) \<and> holds_fifo rb (snd (fifo_op (Ring_Printf fmt) q))"
proof -
  note f = view_facts [OF v]
  have wf: "wf_ringbuf r" using v by (auto simp: wf_view)
  have keep: "holds_fifo (Some r) q" using wf f(1) by (simp add: holds_fifo_def q_def)
  have len: "length (contents r) = l" by (rule length_contents [OF v])
  let ?a = "rb_size r - rb_in r + rb_out r" and ?i = "rb_in r AND (rb_size r - 1)"
  have a0: "?a = 0 \<longleftrightarrow> N - l = 0" using f(8) by (metis unat_eq_zero)
  have i: "unat ?i = (p + l) mod N" using f(9) [of "rb_in r"] f(11) by simp
  have iN: "(p + l) mod N < N" using f(2) by simp
  show ?thesis
  proof (cases "\<exists>s. fmt = Some (Some s) \<and> 0 < N - l \<and> length s \<le> N - l")
    case False
    show ?thesis
    proof (cases "fmt = None \<or> fmt = Some None \<or> N - l = 0")
      case True
      then show ?thesis using keep a0 len
        by (auto simp: ringbuf_vprintf_def fifo_op_def q_def Let_def traced_bytes_def split: option.splits)
    next
      case 2: False
      then obtain s where s: "fmt = Some (Some s)" by (metis not_Some_eq)
      then have "unat (of_nat (length s) :: u64) = length s" using law by (simp add: lawful_call_def unat_of_nat)
      then have "?a < of_nat (length s)" using 2 False s f(8) by (simp add: word_less_nat_alt)
      with 2 s keep a0 len False show ?thesis
        by (auto simp: ringbuf_vprintf_def fifo_op_def q_def Let_def traced_bytes_def)
    qed
  next
    case True
    then obtain s where s: "fmt = Some (Some s)" "0 < N - l" "length s \<le> N - l" by blast
    let ?len = "of_nat (length s) :: u64"
    let ?n = "min ?len (rb_size r - ?i)"
    have sl: "unat ?len = length s" using s f(3) by (simp add: unat_of_nat)
    have fits: "\<not> ?a < ?len" "?a \<noteq> 0" using s sl f(8) a0 by (auto simp: word_less_nat_alt)
    have n: "unat ?n = min (length s) (N - (p + l) mod N)" using f(1) i iN sl by (simp add: unat_min unat_diff)
    have more: "unat (?len - ?n) = length s - min (length s) (N - (p + l) mod N)"
      using n sl by (simp add: unat_diff)
    have more0: "0 < ?len - ?n \<longleftrightarrow> 0 < length s - min (length s) (N - (p + l) mod N)"
      using more by (metis unat_gt_0 word_neq_0_conv)
    have bs: "l + length s \<le> N" using s by simp
    obtain m1 m2 where parts: "mem_write (unat ?i) (take (unat ?n) s) (rb_buffer r) = Some m1" "mem_write 0 (drop (unat ?n) s) m1 = Some m2"
        "mem_read (unat ?i) (unat ?n) m1 = Some (take (unat ?n) s)"
        "mem_read 0 (unat (?len - ?n)) m2 = Some (drop (unat ?n) s)" "unat ?n = length s \<Longrightarrow> m2 = m1"
      and put: "wf_ringbuf (r\<lparr>rb_buffer := m2, rb_in := rb_in r + ?len\<rparr>)"
        "contents (r\<lparr>rb_buffer := m2, rb_in := rb_in r + ?len\<rparr>) = contents r @ s"
      using put_in [OF v bs n [folded i] i] more n by metis
    have spec: "fifo_op (Ring_Printf fmt) q
        = (Traced (int (length s)) (if rb_in_tracing r = None then [] else s), q\<lparr>fifo_items := contents r @ s\<rparr>)"
      using s len by (simp add: fifo_op_def fifo_put_def q_def Let_def)
    show ?thesis
    proof (cases "0 < ?len - ?n")
      case True
      then show ?thesis unfolding spec using s(1) fits parts put f(1)
        by (cases "rb_in_tracing r") (simp_all add: ringbuf_vprintf_def trace_input_def q_def traced_bytes_def holds_fifo_def Let_def)
    next
      case False
      then have "unat ?n = length s" using more0 n by simp
      with False show ?thesis unfolding spec using s(1) fits parts put f(1)
        by (cases "rb_in_tracing r") (simp_all add: ringbuf_vprintf_def trace_input_def q_def traced_bytes_def holds_fifo_def Let_def)
    qed
  qed
qed

lemma read_fifo:
  assumes v: "ring_view r N p l" and law: "lawful_call (Ring_Read readv fd)"
  defines "q \<equiv> \<lparr>fifo_size = N, fifo_items = contents r, fifo_tracer = rb_in_tracing r\<rparr>"
  shows "\<exists>rb n t. ringbuf_read readv fd (Some r) = Some (n, t, rb)
    \<and> fst (fifo_op (Ring_Read readv fd) q) = Traced n (traced_bytes t) \<and> holds_fifo rb (snd (fifo_op (Ring_Read readv fd) q))"
proof -
  note f = view_facts [OF v]
  have wf: "wf_ringbuf r" using v by (auto simp: wf_view)
  have keep: "holds_fifo (Some r) q" using wf f(1) by (simp add: holds_fifo_def q_def)
  have len: "length (contents r) = l" by (rule length_contents [OF v])
  let ?a = "rb_size r - rb_in r + rb_out r" and ?i = "rb_in r AND (rb_size r - 1)"
  let ?n = "min ?a (rb_size r - ?i)"
  have a0: "?a = 0 \<longleftrightarrow> N - l = 0" using f(8) by (metis unat_eq_zero)
  have i: "unat ?i = (p + l) mod N" using f(9) [of "rb_in r"] f(11) by simp
  have iN: "(p + l) mod N < N" using f(2) by simp
  have n: "unat ?n = min (N - l) (N - (p + l) mod N)" using f(1,8) i iN by (simp add: unat_min unat_diff)
  have rest: "unat (?a - ?n) = unat ?a - unat ?n" by (rule unat_diff) (simp add: word_le_nat_alt [symmetric])
  have "unat ?n \<le> N - l" using n by simp
  then have iov: "unat ?n + unat (?a - ?n) = N - l" unfolding rest f(8) by linarith
  have call: "readv fd [unat ?n, unat (?a - ?n)] = readv fd [N - l]"
    using lawful_read(1) [OF law, of "[unat ?n, unat (?a - ?n)]"] iov by simp
  show ?thesis
  proof (cases "fd < 0 \<or> N - l = 0 \<or> readv fd [N - l] = None")
    case True
    then show ?thesis using keep a0 len call
      by (auto simp: ringbuf_read_def fifo_op_def q_def Let_def traced_bytes_def)
  next
    case False
    then obtain s where s: "readv fd [N - l] = Some s" by blast
    have fits: "length s \<le> N - l" using lawful_read(2) [OF law s] by simp
    let ?len = "of_nat (length s) :: u64"
    let ?m = "min (length s) (N - (p + l) mod N)"
    have sl: "unat ?len = length s" using fits f(3) by (simp add: unat_of_nat)
    have m: "unat (min ?len ?n) = ?m" using n fits by (simp only: unat_min sl) linarith
    have "unat (?len - min ?len ?n) = unat ?len - unat (min ?len ?n)"
      by (rule unat_diff) (simp add: word_le_nat_alt [symmetric])
    then have more: "unat (?len - min ?len ?n) = length s - ?m" unfolding m sl .
    then have more0: "0 < ?len - min ?len ?n \<longleftrightarrow> 0 < length s - ?m"
      by (metis unat_gt_0 word_neq_0_conv)
    have cut: "take (unat ?n) s = take ?m s" "drop (unat ?n) s = drop ?m s"
      using n fits by (auto simp: min_def)
    have bs: "l + length s \<le> N" using fits False by linarith
    obtain m1 m2 where parts: "mem_write (unat ?i) (take ?m s) (rb_buffer r) = Some m1" "mem_write 0 (drop ?m s) m1 = Some m2"
        "mem_read (unat ?i) ?m m2 = Some (take ?m s)" "mem_read 0 (length s - ?m) m2 = Some (drop ?m s)"
      and put: "wf_ringbuf (r\<lparr>rb_buffer := m2, rb_in := rb_in r + ?len\<rparr>)"
        "contents (r\<lparr>rb_buffer := m2, rb_in := rb_in r + ?len\<rparr>) = contents r @ s"
      using put_in [OF v bs refl refl] i by metis
    have spec: "fifo_op (Ring_Read readv fd) q
        = (Traced (int (length s)) (if rb_in_tracing r = None then [] else s), q\<lparr>fifo_items := contents r @ s\<rparr>)"
      using s False len by (simp add: fifo_op_def fifo_put_def q_def Let_def)
    have a1: "?a \<noteq> 0" "\<not> fd < 0" using False a0 by auto
    have t1: "trace_input (unat ?i) (unat (min ?len ?n)) (r\<lparr>rb_buffer := m2\<rparr>)
        = Some (case rb_in_tracing r of None \<Rightarrow> [] | Some g \<Rightarrow> [(g, take ?m s, rb_in_data r)])"
      unfolding m using parts by (simp add: trace_input_def split: option.split)
    have t2: "trace_input 0 (unat (?len - min ?len ?n)) (r\<lparr>rb_buffer := m2\<rparr>)
        = Some (case rb_in_tracing r of None \<Rightarrow> [] | Some g \<Rightarrow> [(g, drop ?m s, rb_in_data r)])"
      unfolding more using parts by (simp add: trace_input_def split: option.split)
    have run: "ringbuf_read readv fd (Some r) = do {
        t \<leftarrow> (if rb_in_tracing r \<noteq> None then do {
               t1 \<leftarrow> trace_input (unat ?i) (unat (min ?len ?n)) (r\<lparr>rb_buffer := m2\<rparr>);
               t2 \<leftarrow> (if 0 < ?len - min ?len ?n then trace_input 0 (unat (?len - min ?len ?n)) (r\<lparr>rb_buffer := m2\<rparr>) else Some []);
               Some (t1 @ t2) }
             else Some []);
        Some (int (length s), t, Some (r\<lparr>rb_buffer := m2, rb_in := rb_in r + ?len\<rparr>)) }"
      unfolding ringbuf_read_def option.case Let_def call s cut parts(1) Option.bind.bind_lunit parts(2)
      using a1 by (simp cong: if_cong)
    have all: "?m = length s" if "\<not> 0 < ?len - min ?len ?n" using that more0 by simp
    show ?thesis unfolding spec run t1 t2 more0 using put f(1) all
      by (cases "rb_in_tracing r") (auto simp: q_def traced_bytes_def holds_fifo_def more0)
  qed
qed

lemma ring_op_fifo:
  assumes h: "holds_fifo rb q" and law: "lawful_call op"
  shows "\<exists>rb'. run_ring_op op rb = Some (fst (fifo_op op q), rb') \<and> holds_fifo rb' (snd (fifo_op op q))"
proof -
  obtain r where r: "rb = Some r" "wf_ringbuf r"
      "q = \<lparr>fifo_size = unat (rb_size r), fifo_items = contents r, fifo_tracer = rb_in_tracing r\<rparr>"
    using h by (auto simp: holds_fifo_def)
  then obtain N p l where v: "ring_view r N p l" by (auto simp: wf_view)
  note f = view_facts [OF v]
  have q: "q = \<lparr>fifo_size = N, fifo_items = contents r, fifo_tracer = rb_in_tracing r\<rparr>" using r f(1) by simp
  have len: "length (contents r) = l" by (rule length_contents [OF v])
  show ?thesis
  proof (cases op)
    case (Ring_Printf fmt)
    with printf_fifo [OF v] law r(1) q show ?thesis by (fastforce simp: run_ring_op_def)
  next
    case (Ring_Read readv fd)
    with read_fifo [OF v] law r(1) q show ?thesis by (fastforce simp: run_ring_op_def)
  next
    case (Ring_Write writev fd)
    with write_fifo [OF v] law r(1) q show ?thesis by (fastforce simp: run_ring_op_def)
  next
    case (Ring_Drain c)
    obtain rb' where d: "ringbuf_drain c (Some r) = (of_nat (min (unat c) l), rb')"
        "holds_fifo rb' \<lparr>fifo_size = N, fifo_items = drop (unat c) (contents r), fifo_tracer = rb_in_tracing r\<rparr>"
      using drain_fifo [OF v, of c] by blast
    have "unat (of_nat (min (unat c) l) :: u64) = min (unat c) l" using f(3,5) by (simp add: unat_of_nat)
    with d Ring_Drain r(1) q len show ?thesis by (simp add: run_ring_op_def fifo_op_def Let_def)
  next
    case (Ring_Trace g d)
    have "wf_ringbuf (r\<lparr>rb_in_tracing := g, rb_in_data := d\<rparr>)" "contents (r\<lparr>rb_in_tracing := g, rb_in_data := d\<rparr>) = contents r"
      using r(2) by (simp_all add: wf_ringbuf_def contents_def)
    with Ring_Trace r show ?thesis
      by (simp add: run_ring_op_def fifo_op_def Let_def ringbuf_set_input_tracing_def holds_fifo_def)
  qed (use h r q f len in \<open>simp_all add: run_ring_op_def fifo_op_def Let_def ringbuf_len_def ringbuf_avail_def ringbuf_capacity_def\<close>)
qed

interpretation ring: operation_refinement run_ring_op fifo_op lawful_call holds_fifo
  by unfold_locales (rule ring_op_fifo)

text \<open>The size is rounded up to a power of two; above \<open>2 ^ 31\<close> the shift is undefined.\<close>

lemma length_takeWhile_less: "x \<in> set xs \<Longrightarrow> \<not> P x \<Longrightarrow> length (takeWhile P xs) < length xs"
  by (induction xs) auto

lemma fls_bounds:
  assumes "x \<noteq> 0"
  shows "0 < fls x" "fls x \<le> 32" "2 ^ (fls x - 1) \<le> unat x" "unat x < 2 ^ fls x"
proof -
  let ?xs = "rev [0..<32]" and ?P = "\<lambda>i. \<not> bit x i"
  obtain b where b: "bit x b" using assms by (auto simp: bit_eq_iff)
  then have "b < 32" using bit_imp_le_length [OF b] by simp
  then have "b \<in> set ?xs" by simp
  with b have c: "clz x < 32"
    using length_takeWhile_less [of b ?xs ?P] by (auto simp: clz_def)
  have nth: "?xs ! j = 31 - j" if "j < 32" for j using that by (simp add: rev_nth)
  have top: "bit x (31 - clz x)"
    using nth_length_takeWhile [of ?P ?xs] c nth [of "clz x"] by (simp add: clz_def)
  have high: "\<not> bit x i" if "fls x \<le> i" for i
  proof (cases "i < 32")
    case True
    then have "31 - i < clz x" using that assms c by (auto simp: fls_def)
    then show ?thesis using nth [of "31 - i"] takeWhile_nth [of "31 - i" ?P ?xs] nth_mem [of "31 - i" "takeWhile ?P ?xs"] True
      by (auto simp: clz_def dest!: set_takeWhileD)
  next
    case False
    then show ?thesis using bit_imp_le_length [of x i] by auto
  qed
  show "0 < fls x" "fls x \<le> 32" using c assms by (auto simp: fls_def)
  have "take_bit (fls x) x = x" by (rule bit_word_eqI) (use high in \<open>auto simp: bit_take_bit_iff not_le [symmetric]\<close>)
  then have "unat x = unat x mod 2 ^ fls x" by (metis unsigned_take_bit_eq take_bit_eq_mod)
  then show "unat x < 2 ^ fls x" using mod_less_divisor [of "2 ^ fls x" "unat x"] by simp
  have "bit (unat x) (31 - clz x)" using top by (simp add: bit_unsigned_iff)
  then have "odd (unat x div 2 ^ (31 - clz x))" by (simp add: bit_iff_odd)
  then have "unat x div 2 ^ (31 - clz x) \<noteq> 0" by (metis even_zero)
  then have "2 ^ (31 - clz x) \<le> unat x" by (metis div_less not_le)
  then show "2 ^ (fls x - 1) \<le> unat x" using assms by (simp add: fls_def)
qed

lemma align_power2_spec:
  assumes "2 \<le> unat u"
  obtains k where "0 < k" "unat u \<le> 2 ^ k" "2 ^ k < 2 * unat u" "align_power2 u = (if k < 32 then Some (2 ^ k) else None)"
proof -
  have u: "unat (u - 1) = unat u - 1" using assms by (subst unat_diff) auto
  then have "u - 1 \<noteq> 0" using assms by auto
  note b = fls_bounds [OF this]
  have "(2::nat) ^ fls (u - 1) = 2 * 2 ^ (fls (u - 1) - 1)" using b(1) by (metis Suc_diff_1 power_Suc)
  then have "2 ^ fls (u - 1) < 2 * unat u" using b(3) u assms by linarith
  moreover have "unat u \<le> 2 ^ fls (u - 1)" using b(4) u assms by linarith
  moreover have "align_power2 u = (if fls (u - 1) < 32 then Some (2 ^ fls (u - 1)) else None)"
    by (simp add: align_power2_def Let_def push_bit_eq_mult)
  ultimately show thesis using that b(1) by blast
qed

lemma ucast_size: "unat (sz::u64) \<le> 0xffffffff \<Longrightarrow> unat (ucast sz :: u32) = unat sz"
  by (simp add: unsigned_ucast_eq take_bit_nat_eq_self_iff)

definition lawful_malloc :: "(nat \<Rightarrow> bytes option) \<Rightarrow> bool" where
  "lawful_malloc malloc \<longleftrightarrow> (\<forall>n m. malloc n = Some m \<longrightarrow> length m = n)"

lemma ringbuf_new_fifo:
  assumes sz: "2 \<le> unat sz" "unat sz \<le> 2 ^ 31" and law: "lawful_malloc malloc"
  obtains (fails) k where "unat sz \<le> 2 ^ k" "2 ^ k < 2 * unat sz" "malloc (2 ^ k) = None" "ringbuf_new malloc sz = Some None"
  | (works) k rb where "unat sz \<le> 2 ^ k" "2 ^ k < 2 * unat sz" "malloc (2 ^ k) \<noteq> None" "ringbuf_new malloc sz = Some rb"
      "holds_fifo rb \<lparr>fifo_size = 2 ^ k, fifo_items = [], fifo_tracer = None\<rparr>"
proof -
  have small: "\<not> (sz < 2 \<or> 0xffffffff < sz)" using sz by (auto simp: word_less_nat_alt)
  have u: "unat (ucast sz :: u32) = unat sz" using sz by (intro ucast_size) simp
  obtain k where k: "0 < k" "unat sz \<le> 2 ^ k" "2 ^ k < 2 * unat sz"
      "align_power2 (ucast sz) = (if k < 32 then Some (2 ^ k) else None)"
    using align_power2_spec [of "ucast sz"] sz u by auto
  have "(2::nat) ^ k < 2 ^ 32" using k(3) sz(2) by simp
  then have k32: "k < 32" by (simp only: power_strict_increasing_iff)
  have e: "unat ((2::u32) ^ k) = 2 ^ k"
    using unat_of_nat [of "2 ^ k", where ?'a = 32] \<open>2 ^ k < 2 ^ 32\<close> by simp
  have e64: "ucast ((2::u32) ^ k) = (2::u64) ^ k"
    unfolding word_unat_eq_iff
    using k32 by (auto simp: unsigned_ucast_eq e unat_exp take_bit_nat_eq_self_iff)
  show thesis
  proof (cases "malloc (2 ^ k)")
    case None
    then show thesis using k k32 e e64 small by (intro fails) (auto simp: ringbuf_new_def)
  next
    case (Some m)
    then have "length m = 2 ^ k" using law by (auto simp: lawful_malloc_def)
    then show thesis using k k32 e e64 small Some
      by (intro works) (auto simp: ringbuf_new_def holds_fifo_def wf_ringbuf_def contents_def unat_exp)
  qed
qed

text \<open>C37: A ring buffer is a bounded queue of bytes. Its capacity is the smallest power of two that is not below the size
  asked for; from its creation on, any run of prints, reads, writes, drains and queries gives exactly the answers of
  a queue of that capacity, whatever the descriptors deliver or accept: printing is refused as a whole when there is
  no room, reading asks for exactly the room there is, writing offers exactly the bytes in their order, the tracing
  function sees exactly the bytes that were put in, and no byte outside the buffer is touched, also after the
  positions have wrapped round.\<close>

theorem ringbuf_refines_fifo:
  assumes "2 \<le> unat sz" "unat sz \<le> 2 ^ 31" "lawful_malloc malloc" "list_all lawful_call ops"
  shows "\<exists>k rb. unat sz \<le> 2 ^ k \<and> 2 ^ k < 2 * unat sz \<and> ringbuf_new malloc sz = Some rb
    \<and> (if malloc (2 ^ k) = None then rb = None
       else \<exists>rb'. run_all run_ring_op ops rb = Some (fst (spec_all fifo_op ops \<lparr>fifo_size = 2 ^ k, fifo_items = [], fifo_tracer = None\<rparr>), rb')
         \<and> holds_fifo rb' (snd (spec_all fifo_op ops \<lparr>fifo_size = 2 ^ k, fifo_items = [], fifo_tracer = None\<rparr>)))"
  using assms(1-3)
proof (cases rule: ringbuf_new_fifo)
  case (fails k)
  then show ?thesis by auto
next
  case (works k rb)
  then show ?thesis using ring.run_refines [OF works(5) assms(4)] by auto
qed


definition ex_ring_ops :: "ring_op list" where
  "ex_ring_ops = [Ring_Trace (Some 9) 0, Ring_Printf (Some (Some [1, 2, 3])), Ring_Drain 2,
     Ring_Read (\<lambda>fd ns. Some (replicate (sum_list ns) 7)) 5, Ring_Printf (Some (Some [8])),
     Ring_Write (\<lambda>fd iov. Some (length (concat iov))) 1, Ring_Len]"

lemma ex_ring_answers:
  "fst (spec_all fifo_op ex_ring_ops \<lparr>fifo_size = 4, fifo_items = [], fifo_tracer = None\<rparr>)
     = [Accepted True, Traced 3 [1, 2, 3], Number 2, Traced 3 [7, 7, 7], Traced (- 1) [], Result 4, Number 0]"
  by (simp add: ex_ring_ops_def fifo_op_def fifo_put_def Let_def numeral_3_eq_3)

lemma ringbuf_refines_fifo_witness:
  "\<exists>rb rb'. ringbuf_new (\<lambda>n. Some (replicate n 0)) 3 = Some rb \<and> run_all run_ring_op ex_ring_ops rb
     = Some ([Accepted True, Traced 3 [1, 2, 3], Number 2, Traced 3 [7, 7, 7], Traced (- 1) [], Result 4, Number 0], rb')"
proof -
  have k: "k = 2" if "3 \<le> (2::nat) ^ k" "2 ^ k < (6::nat)" for k :: nat
  proof -
    have "(2::nat) ^ k < 2 ^ 3" using that(2) by simp
    then have "k < 3" by (simp only: power_strict_increasing_iff)
    with that(1) show ?thesis by (auto simp: less_Suc_eq numeral_3_eq_3)
  qed
  have "list_all lawful_call ex_ring_ops" by (simp add: ex_ring_ops_def lawful_call_def)
  moreover have "lawful_malloc (\<lambda>n. Some (replicate n 0))" by (simp add: lawful_malloc_def)
  ultimately obtain k rb rb' where "3 \<le> (2::nat) ^ k" "2 ^ k < (6::nat)"
      "ringbuf_new (\<lambda>n. Some (replicate n 0)) 3 = Some rb"
      "run_all run_ring_op ex_ring_ops rb
        = Some (fst (spec_all fifo_op ex_ring_ops \<lparr>fifo_size = 2 ^ k, fifo_items = [], fifo_tracer = None\<rparr>), rb')"
    using ringbuf_refines_fifo [of 3 "\<lambda>n. Some (replicate n 0)" ex_ring_ops] by auto
  with k [of k] ex_ring_answers show ?thesis by auto
qed

text \<open>A size above \<open>2 ^ 31\<close>, which \<open>ringbuf_new\<close> accepts, shifts by the width of the operand.\<close>

theorem ringbuf_new_undefined:
  assumes "2 ^ 31 < unat sz" "unat sz \<le> 0xffffffff"
  shows "ringbuf_new malloc sz = None"
proof -
  have small: "\<not> (sz < 2 \<or> 0xffffffff < sz)" using assms by (auto simp: word_less_nat_alt)
  have u: "unat (ucast sz :: u32) = unat sz" using assms by (intro ucast_size) simp
  obtain k where k: "unat sz \<le> 2 ^ k" "align_power2 (ucast sz) = (if k < 32 then Some (2 ^ k) else None)"
    using align_power2_spec [of "ucast sz"] assms u by auto
  have "(2::nat) ^ 31 < 2 ^ k" using k(1) assms(1) by simp
  then have "\<not> k < 32" by (simp only: power_strict_increasing_iff)
  then show ?thesis using small k(2) by (simp add: ringbuf_new_def)
qed

text \<open>Looking at the bytes: at the position 0 the pointer and the length show the contents up to the end of the buffer,
  at least one byte when there is one. At a later position the length is still that of all contents, so it
  counts bytes behind them.\<close>

theorem peek_contents:
  assumes "wf_ringbuf r"
  obtains i n where "ringbuf_peek 0 (Some r) = Some (i, n)"
    "mem_read (unat i) (unat n) (rb_buffer r) = Some (take (unat n) (contents r))" "n = 0 \<longleftrightarrow> contents r = []"
proof -
  obtain N p l where v: "ring_view r N p l" using assms by (auto simp: wf_view)
  note f = view_facts [OF v]
  let ?i = "rb_out r AND (rb_size r - 1)" and ?l = "rb_in r - rb_out r"
  have i: "unat ?i = p" using f(9) [of "rb_out r"] f(10) by simp
  have n: "unat (min ?l (rb_size r - ?i)) = min l (N - p)" using f i by (simp add: unat_min unat_diff)
  have "min l (N - p) = 0 \<longleftrightarrow> contents r = []" using f(6) length_contents [OF v] by (auto simp: min_def)
  then have z: "min ?l (rb_size r - ?i) = 0 \<longleftrightarrow> contents r = []" using n by (metis unat_eq_zero)
  show thesis
  proof (rule that)
    show "ringbuf_peek 0 (Some r) = Some (?i, min ?l (rb_size r - ?i))" by (simp add: ringbuf_peek_def Let_def)
    show "mem_read (unat ?i) (unat (min ?l (rb_size r - ?i))) (rb_buffer r) = Some (take (unat (min ?l (rb_size r - ?i))) (contents r))"
      unfolding n i by (rule out_parts(1) [OF v refl])
  qed (rule z)
qed

theorem peek_counts_too_far:
  assumes "ring_view r N p l" "p + unat off < N" "l \<le> N - (p + unat off)" "0 < unat off" "unat off < l"
  shows "\<exists>i n. ringbuf_peek off (Some r) = Some (i, n) \<and> unat i = p + unat off \<and> length (contents r) - unat off < unat n"
proof -
  note f = view_facts [OF assms(1)]
  let ?i = "(rb_out r + off) AND (rb_size r - 1)" and ?l = "rb_in r - rb_out r"
  have i: "unat ?i = p + unat off" using f(9) [of "rb_out r + off"] f(12) [of off] assms(2) by simp
  have "unat (min ?l (rb_size r - ?i)) = min l (N - (p + unat off))"
    using f i assms(2) by (simp add: unat_min unat_diff)
  then have "length (contents r) - unat off < unat (min ?l (rb_size r - ?i))"
    using assms length_contents [OF assms(1)] by simp
  with i show ?thesis by (simp add: ringbuf_peek_def Let_def)
qed

end
