(* ===== verification/Gatt_Db.thy ===== *)
theory Gatt_Db
  imports Bt_Uuid
begin

text \<open>
  The attribute database of BlueZ (\<open>src/bluez/bluez5/src/shared/gatt-db.c\<close>): services in the order of their handles, each
  with an array of attributes, some of them not filled yet; notifications when a service becomes active or goes;
  attributes with a stored value or with functions that read and write it later.

  A service is a heap object; the pointer to an attribute is its service and its index, and a queue is the list of what is
  in it (theory \<open>Queue\<close>). \<open>None\<close> is undefined behaviour: a NULL pointer or a freed service used, memory read that has no
  value, a function called through NULL. \<open>db_events\<close> records the calls of the user's functions, in order; functions
  that change the database while they are called from it are not modelled. The functions that search give the list of the
  attributes found, which is what is put into the caller's queue or passed to his function. A database pointer that is NULL,
  which every function answers with NULL, 0 or \<open>false\<close>, is not modelled. \<open>mem\<close>: the next \<open>malloc\<close> or \<open>realloc\<close> succeeds; \<open>new0\<close>
  ends the program when it does not.
\<close>

section \<open>State\<close>

type_synonym attr_ref = "addr \<times> nat"

record pending_op =
  po_id :: u32
  po_timeout_id :: nat
  po_func :: fid
  po_user_data :: ptr

record gatt_db_attribute =
  at_handle :: u16
  at_uuid :: bt_uuid
  at_permissions :: u32
  at_value :: "u8 list"
  at_value_len :: u16
  at_read_func :: "fid option"
  at_write_func :: "fid option"
  at_user_data :: ptr
  at_read_id :: u32
  at_pending_reads :: "pending_op list"
  at_write_id :: u32
  at_pending_writes :: "pending_op list"

record gatt_db_service =
  sv_active :: bool
  sv_claimed :: bool
  sv_num_handles :: u16
  sv_attributes :: "gatt_db_attribute option list"

record db_notify =
  nt_id :: u32
  nt_service_added :: "fid option"
  nt_service_removed :: "fid option"
  nt_destroy :: "fid option"
  nt_user_data :: ptr

datatype db_event =
    Service_Added fid attr_ref ptr
  | Service_Removed fid attr_ref ptr
  | Notify_Destroyed fid ptr
  | Read_Func fid attr_ref u32 u16 u8 ptr
  | Write_Func fid attr_ref u32 u16 "u8 list" u8 ptr
  | Read_Result fid attr_ref int "u8 list" ptr
  | Write_Result fid attr_ref int ptr

text \<open>\<open>db_heap\<close>: the services that are allocated; \<open>db_addr\<close> and \<open>db_timer\<close>: the next address and the next time-out.\<close>

record gatt_db =
  db_ref_count :: int
  db_next_handle :: u16
  db_services :: "addr list"
  db_notify_list :: "db_notify list"
  db_next_notify_id :: u32
  db_heap :: "addr \<Rightarrow> gatt_db_service option"
  db_addr :: addr
  db_timer :: nat
  db_events :: "db_event list"


definition primary_service_uuid :: bt_uuid where "primary_service_uuid = BT_UUID16 GATT_PRIM_SVC_UUID"
definition secondary_service_uuid :: bt_uuid where "secondary_service_uuid = BT_UUID16 GATT_SND_SVC_UUID"
definition characteristic_uuid :: bt_uuid where "characteristic_uuid = BT_UUID16 GATT_CHARAC_UUID"
definition included_service_uuid :: bt_uuid where "included_service_uuid = BT_UUID16 GATT_INCLUDE_UUID"

definition ECANCELED :: int where "ECANCELED = 125"
definition ETIMEDOUT :: int where "ETIMEDOUT = 110"
definition BT_ATT_ERROR_INVALID_OFFSET :: int where "BT_ATT_ERROR_INVALID_OFFSET = 0x07"

definition log_db :: "db_event list \<Rightarrow> gatt_db \<Rightarrow> gatt_db" where
  "log_db es db = db\<lparr>db_events := db_events db @ es\<rparr>"

definition put_service :: "addr \<Rightarrow> gatt_db_service \<Rightarrow> gatt_db \<Rightarrow> gatt_db" where
  "put_service a s db = db\<lparr>db_heap := (db_heap db)(a \<mapsto> s)\<rparr>"

text \<open>\<open>service->attributes[i]\<close>; reading outside the array is undefined.\<close>

definition attribute_at :: "nat \<Rightarrow> gatt_db_service \<Rightarrow> gatt_db_attribute option option" where
  "attribute_at i s = (if i < length (sv_attributes s) then Some (sv_attributes s ! i) else None)"

definition get_attr :: "gatt_db \<Rightarrow> attr_ref \<Rightarrow> gatt_db_attribute option" where
  "get_attr db r = do { s \<leftarrow> db_heap db (fst r); x \<leftarrow> attribute_at (snd r) s; x }"

definition put_attr :: "attr_ref \<Rightarrow> gatt_db_attribute \<Rightarrow> gatt_db \<Rightarrow> gatt_db option" where
  "put_attr r x db = do { s \<leftarrow> db_heap db (fst r);
     if snd r < length (sv_attributes s) then Some (put_service (fst r) (s\<lparr>sv_attributes := (sv_attributes s)[snd r := Some x]\<rparr>) db) else None }"

section \<open>Attributes and services\<close>

definition pending_read_result :: "attr_ref \<Rightarrow> int \<Rightarrow> u8 list \<Rightarrow> pending_op \<Rightarrow> db_event" where
  "pending_read_result r err data p = Read_Result (po_func p) r err data (po_user_data p)"

definition pending_write_result :: "attr_ref \<Rightarrow> int \<Rightarrow> pending_op \<Rightarrow> db_event" where
  "pending_write_result r err p = Write_Result (po_func p) r err (po_user_data p)"

definition attribute_destroy :: "attr_ref \<Rightarrow> gatt_db_attribute option \<Rightarrow> db_event list" where
  "attribute_destroy r attribute = (case attribute of None \<Rightarrow> []
     | Some x \<Rightarrow> map (pending_read_result r (- ECANCELED) []) (at_pending_reads x) @ map (pending_write_result r (- ECANCELED)) (at_pending_writes x))"

definition new_attribute :: "bool \<Rightarrow> u16 \<Rightarrow> bt_uuid \<Rightarrow> u8 list \<Rightarrow> gatt_db_attribute option" where
  "new_attribute mem handle type val = (if val \<noteq> [] \<and> \<not> mem then None
     else Some \<lparr>at_handle = handle, at_uuid = type, at_permissions = 0, at_value = val, at_value_len = of_nat (length val),
       at_read_func = None, at_write_func = None, at_user_data = None, at_read_id = 0, at_pending_reads = [],
       at_write_id = 0, at_pending_writes = []\<rparr>)"

definition gatt_db_ref :: "gatt_db \<Rightarrow> gatt_db" where
  "gatt_db_ref db = db\<lparr>db_ref_count := db_ref_count db + 1\<rparr>"

definition gatt_db_new :: gatt_db where
  "gatt_db_new = gatt_db_ref \<lparr>db_ref_count = 0, db_next_handle = 0x0001, db_services = [], db_notify_list = [], db_next_notify_id = 0,
     db_heap = Map.empty, db_addr = 0, db_timer = 1, db_events = []\<rparr>"

definition notify_destroy :: "db_notify \<Rightarrow> db_event list" where
  "notify_destroy n = (case nt_destroy n of None \<Rightarrow> [] | Some f \<Rightarrow> [Notify_Destroyed f (nt_user_data n)])"

definition handle_service_notify :: "attr_ref \<Rightarrow> bool \<Rightarrow> db_notify \<Rightarrow> db_event option" where
  "handle_service_notify r added n =
    (if added then (case nt_service_added n of None \<Rightarrow> None | Some f \<Rightarrow> Some (Service_Added f r (nt_user_data n)))
     else (case nt_service_removed n of None \<Rightarrow> None | Some f \<Rightarrow> Some (Service_Removed f r (nt_user_data n))))"

text \<open>The results of a function over a list, undefined when one of them is.\<close>

primrec map_opt :: "('a \<Rightarrow> 'b option) \<Rightarrow> 'a list \<Rightarrow> 'b list option" where
  "map_opt f [] = Some []"
| "map_opt f (x # xs) = do { y \<leftarrow> f x; ys \<leftarrow> map_opt f xs; Some (y # ys) }"

definition notify_service_changed :: "addr \<Rightarrow> bool \<Rightarrow> gatt_db \<Rightarrow> gatt_db option" where
  "notify_service_changed a added db = do { es \<leftarrow> map_opt (handle_service_notify (a, 0) added) (db_notify_list db); Some (log_db es db) }"

definition gatt_db_service_destroy :: "addr \<Rightarrow> gatt_db \<Rightarrow> gatt_db option" where
  "gatt_db_service_destroy a db = do {
     s \<leftarrow> db_heap db a;
     db \<leftarrow> (if sv_active s then notify_service_changed a False db else Some db);
     let es = concat (map (\<lambda>i. attribute_destroy (a, i) (sv_attributes s ! i)) [0..<unat (sv_num_handles s)]);
     Some (log_db es (db\<lparr>db_heap := (db_heap db)(a := None)\<rparr>)) }"

definition gatt_db_destroy :: "gatt_db \<Rightarrow> gatt_db option" where
  "gatt_db_destroy db = do {
     let db = log_db (concat (map notify_destroy (db_notify_list db))) (db\<lparr>db_notify_list := []\<rparr>);
     each gatt_db_service_destroy (db_services db) (db\<lparr>db_services := []\<rparr>) }"

definition gatt_db_unref :: "gatt_db \<Rightarrow> gatt_db option" where
  "gatt_db_unref db = (let db = db\<lparr>db_ref_count := db_ref_count db - 1\<rparr> in if db_ref_count db \<noteq> 0 then Some db else gatt_db_destroy db)"

definition gatt_db_isempty :: "gatt_db \<Rightarrow> bool" where
  "gatt_db_isempty db \<longleftrightarrow> db_services db = []"

definition uuid_to_le :: "bt_uuid \<Rightarrow> u8 list option" where
  "uuid_to_le uuid = (case uuid of BT_UUID16 v \<Rightarrow> Some (le16 v)
     | _ \<Rightarrow> do { uuid128 \<leftarrow> bt_uuid_to_uuid128 uuid None; Some (rev (bt_uuid128_bytes uuid128)) })"

definition le_to_uuid :: "u8 list \<Rightarrow> bt_uuid option" where
  "le_to_uuid src =
    (if length src = 2 then Some (bt_uuid16_create (get_le16 src 0))
     else if length src = 4 then Some (bt_uuid32_create (get_le32 src 0))
     else if length src \<noteq> 16 then None
     else Some (bt_uuid128_create (rev src)))"

definition service_type :: "bool \<Rightarrow> bt_uuid" where
  "service_type primary = (if primary then primary_service_uuid else secondary_service_uuid)"

definition gatt_db_service_create :: "bool \<Rightarrow> bt_uuid \<Rightarrow> u16 \<Rightarrow> bool \<Rightarrow> u16 \<Rightarrow> gatt_db_service option option" where
  "gatt_db_service_create mem uuid handle primary num_handles =
    (if num_handles < 1 then Some None
     else do {
       val \<leftarrow> uuid_to_le uuid;
       case new_attribute mem handle (service_type primary) val of
         None \<Rightarrow> Some None
       | Some x \<Rightarrow> Some (Some \<lparr>sv_active = False, sv_claimed = False, sv_num_handles = 0,
           sv_attributes = (replicate (unat num_handles) None)[0 := Some x]\<rparr>) })"

definition gatt_db_remove_service :: "attr_ref \<Rightarrow> gatt_db \<Rightarrow> gatt_db option" where
  "gatt_db_remove_service r db = do { _ \<leftarrow> get_attr db r; gatt_db_service_destroy (fst r) (db\<lparr>db_services := remove1 (fst r) (db_services db)\<rparr>) }"

definition gatt_db_clear :: "gatt_db \<Rightarrow> gatt_db option" where
  "gatt_db_clear db = do {
     db \<leftarrow> each gatt_db_service_destroy (db_services db) (db\<lparr>db_services := []\<rparr>);
     Some (db\<lparr>db_next_handle := 0\<rparr>) }"

definition gatt_db_service_get_handles :: "gatt_db_service \<Rightarrow> (u16 \<times> u16) option" where
  "gatt_db_service_get_handles s = do {
     x \<leftarrow> attribute_at 0 s;
     x \<leftarrow> x;
     Some (at_handle x, at_handle x + sv_num_handles s - 1) }"

definition match_range :: "u16 \<Rightarrow> u16 \<Rightarrow> gatt_db_service \<Rightarrow> bool option" where
  "match_range start stop s = do { (svc_start, svc_end) \<leftarrow> gatt_db_service_get_handles s; Some (svc_start \<le> stop \<and> start \<le> svc_end) }"

text \<open>\<open>queue_remove_all\<close> with \<open>match_range\<close> and \<open>gatt_db_service_destroy\<close>.\<close>

primrec remove_in_range :: "u16 \<Rightarrow> u16 \<Rightarrow> addr list \<Rightarrow> gatt_db \<Rightarrow> gatt_db option" where
  "remove_in_range start stop [] db = Some db"
| "remove_in_range start stop (a # as) db = do {
     s \<leftarrow> db_heap db a;
     m \<leftarrow> match_range start stop s;
     db \<leftarrow> (if m then gatt_db_service_destroy a (db\<lparr>db_services := remove1 a (db_services db)\<rparr>) else Some db);
     remove_in_range start stop as db }"

definition gatt_db_clear_range :: "u16 \<Rightarrow> u16 \<Rightarrow> gatt_db \<Rightarrow> (bool \<times> gatt_db) option" where
  "gatt_db_clear_range sh eh db =
    (if eh < sh then Some (False, db)
     else do { db \<leftarrow> remove_in_range sh eh (db_services db) db; Some (True, db) })"

section \<open>Adding services\<close>

text \<open>The UUID of a service: the value of its first attribute. \<open>Inl ()\<close>: the function returns \<open>false\<close>.\<close>

definition service_uuid :: "gatt_db_service \<Rightarrow> (unit + bt_uuid) option" where
  "service_uuid s = do {
     x \<leftarrow> attribute_at 0 s;
     x \<leftarrow> x;
     if at_value_len x = 2 then (if 2 \<le> length (at_value x) then Some (Inr (bt_uuid16_create (get_le16 (at_value x) 0))) else None)
     else if at_value_len x = 16 then (if 16 \<le> length (at_value x) then Some (Inr (bt_uuid128_create (rev (take 16 (at_value x))))) else None)
     else Some (Inl ()) }"

definition gatt_db_attribute_get_service_uuid :: "gatt_db \<Rightarrow> attr_ref \<Rightarrow> (unit + bt_uuid) option" where
  "gatt_db_attribute_get_service_uuid db r = do { s \<leftarrow> db_heap db (fst r); service_uuid s }"

text \<open>The comparison with a local variable that may not have been given a value.\<close>

definition cmp_uuid :: "(unit + bt_uuid) \<Rightarrow> bt_uuid \<Rightarrow> int option" where
  "cmp_uuid u v = (case u of Inl _ \<Rightarrow> None | Inr w \<Rightarrow> bt_uuid_cmp w v)"

text \<open>The service that is in the way (with the handle range given), else the service after which the range comes.\<close>

primrec find_insert_loc :: "gatt_db \<Rightarrow> u16 \<Rightarrow> u16 \<Rightarrow> addr list \<Rightarrow> ptr \<Rightarrow> (ptr \<times> ptr) option" where
  "find_insert_loc db start stop [] after = Some (None, after)"
| "find_insert_loc db start stop (a # as) after = do {
     s \<leftarrow> db_heap db a;
     (cur_start, cur_end) \<leftarrow> gatt_db_service_get_handles s;
     if cur_start \<le> start \<and> start \<le> cur_end then Some (Some a, after)
     else if cur_start \<le> stop \<and> stop \<le> cur_end then Some (Some a, after)
     else if stop < cur_start then Some (None, after)
     else find_insert_loc db start stop as (Some a) }"

text \<open>\<open>queue_push_after\<close>; the entry is in the queue.\<close>

definition insert_entry_after :: "addr \<Rightarrow> addr \<Rightarrow> addr list \<Rightarrow> addr list" where
  "insert_entry_after p x xs = takeWhile (\<lambda>y. y \<noteq> p) xs @ p # x # tl (dropWhile (\<lambda>y. y \<noteq> p) xs)"

definition service_matches :: "gatt_db_service \<Rightarrow> u16 \<Rightarrow> bt_uuid \<Rightarrow> bool \<Rightarrow> u16 \<Rightarrow> bool option" where
  "service_matches s handle uuid primary num_handles = do {
     x \<leftarrow> attribute_at 0 s;
     x \<leftarrow> x;
     val \<leftarrow> service_uuid s;
     c \<leftarrow> bt_uuid_cmp (at_uuid x) (service_type primary);
     if c \<noteq> 0 then Some False
     else do {
       c \<leftarrow> cmp_uuid val uuid;
       Some (c = 0 \<and> sv_num_handles s = num_handles \<and> at_handle x = handle) } }"

definition gatt_db_insert_service :: "bool \<Rightarrow> u16 \<Rightarrow> bt_uuid \<Rightarrow> bool \<Rightarrow> u16 \<Rightarrow> gatt_db \<Rightarrow> (attr_ref option \<times> gatt_db) option" where
  "gatt_db_insert_service mem handle uuid primary num_handles db =
    (if handle < 1 then Some (None, db)
     else if num_handles < 1 \<or> 0xffff < unat handle + unat num_handles - 1 then Some (None, db)
     else do {
       (found, after) \<leftarrow> find_insert_loc db handle (handle + num_handles - 1) (db_services db) None;
       case found of
         Some a \<Rightarrow> do {
           s \<leftarrow> db_heap db a;
           m \<leftarrow> service_matches s handle uuid primary num_handles;
           Some (if m then Some (a, 0) else None, db) }
       | None \<Rightarrow> do {
           s \<leftarrow> gatt_db_service_create mem uuid handle primary num_handles;
           case s of None \<Rightarrow> Some (None, db)
           | Some s \<Rightarrow> do {
               x \<leftarrow> attribute_at 0 s;
               x \<leftarrow> x;
               let a = db_addr db;
               let s = s\<lparr>sv_attributes := (sv_attributes s)[0 := Some (x\<lparr>at_handle := handle\<rparr>)], sv_num_handles := num_handles\<rparr>;
               let services = (case after of Some p \<Rightarrow> insert_entry_after p a (db_services db) | None \<Rightarrow> a # db_services db);
               Some (Some (a, 0), (put_service a s db)\<lparr>db_services := services, db_addr := a + 1,
                 db_next_handle := of_nat (max (unat handle + unat num_handles) (unat (db_next_handle db)))\<rparr>) } } })"

definition gatt_db_add_service :: "bool \<Rightarrow> bt_uuid \<Rightarrow> bool \<Rightarrow> u16 \<Rightarrow> gatt_db \<Rightarrow> (attr_ref option \<times> gatt_db) option" where
  "gatt_db_add_service mem uuid primary num_handles db = gatt_db_insert_service mem (db_next_handle db) uuid primary num_handles db"

section \<open>Notification of services\<close>

definition gatt_db_register :: "fid option \<Rightarrow> fid option \<Rightarrow> ptr \<Rightarrow> fid option \<Rightarrow> gatt_db \<Rightarrow> u32 \<times> gatt_db" where
  "gatt_db_register service_added service_removed user_data destroy db =
    (if service_added = None \<and> service_removed = None then (0, db)
     else (let ident = (if db_next_notify_id db < 1 then 1 else db_next_notify_id db);
               n = \<lparr>nt_id = ident, nt_service_added = service_added, nt_service_removed = service_removed, nt_destroy = destroy,
                 nt_user_data = user_data\<rparr>
           in (ident, db\<lparr>db_next_notify_id := ident + 1, db_notify_list := db_notify_list db @ [n]\<rparr>)))"

definition gatt_db_unregister :: "u32 \<Rightarrow> gatt_db \<Rightarrow> bool \<times> gatt_db" where
  "gatt_db_unregister ident db =
    (if ident = 0 then (False, db)
     else (case List.find (\<lambda>n. nt_id n = ident) (db_notify_list db) of
         None \<Rightarrow> (False, db)
       | Some n \<Rightarrow> (True, log_db (notify_destroy n) (db\<lparr>db_notify_list := remove1 n (db_notify_list db)\<rparr>))))"

definition gatt_db_service_set_active :: "attr_ref \<Rightarrow> bool \<Rightarrow> gatt_db \<Rightarrow> (bool \<times> gatt_db) option" where
  "gatt_db_service_set_active r active db = do {
     s \<leftarrow> db_heap db (fst r);
     if sv_active s = active then Some (True, db)
     else do { db \<leftarrow> notify_service_changed (fst r) active (put_service (fst r) (s\<lparr>sv_active := active\<rparr>) db); Some (True, db) } }"

definition gatt_db_service_get_active :: "gatt_db \<Rightarrow> attr_ref \<Rightarrow> bool option" where
  "gatt_db_service_get_active db r = do { s \<leftarrow> db_heap db (fst r); Some (sv_active s) }"

definition gatt_db_service_set_claimed :: "attr_ref \<Rightarrow> bool \<Rightarrow> gatt_db \<Rightarrow> (bool \<times> gatt_db) option" where
  "gatt_db_service_set_claimed r claimed db = do { s \<leftarrow> db_heap db (fst r); Some (True, put_service (fst r) (s\<lparr>sv_claimed := claimed\<rparr>) db) }"

definition gatt_db_service_get_claimed :: "gatt_db \<Rightarrow> attr_ref \<Rightarrow> bool option" where
  "gatt_db_service_get_claimed db r = do { s \<leftarrow> db_heap db (fst r); Some (sv_claimed s) }"

section \<open>Adding attributes to a service\<close>

definition get_attribute_index :: "gatt_db_service \<Rightarrow> nat \<Rightarrow> nat" where
  "get_attribute_index s end_offset =
    (let n = unat (sv_num_handles s) - end_offset;
         i = length (takeWhile (\<lambda>x. x \<noteq> None) (take n (sv_attributes s)))
     in if i = n then 0 else i)"

definition get_handle_at_index :: "gatt_db_service \<Rightarrow> nat \<Rightarrow> u16 option" where
  "get_handle_at_index s i = do { x \<leftarrow> attribute_at i s; x \<leftarrow> x; Some (at_handle x) }"

definition attribute_update :: "gatt_db_service \<Rightarrow> nat \<Rightarrow> gatt_db_service option" where
  "attribute_update s index = do {
     previous \<leftarrow> get_handle_at_index s (index - 1);
     x \<leftarrow> attribute_at index s;
     x \<leftarrow> x;
     Some (s\<lparr>sv_attributes := (sv_attributes s)[index := Some (x\<lparr>at_handle := previous + 1\<rparr>)]\<rparr>) }"

definition set_attribute_data :: "gatt_db_attribute \<Rightarrow> fid option \<Rightarrow> fid option \<Rightarrow> u32 \<Rightarrow> ptr \<Rightarrow> gatt_db_attribute" where
  "set_attribute_data x read_func write_func permissions user_data =
     x\<lparr>at_permissions := permissions, at_read_func := read_func, at_write_func := write_func, at_user_data := user_data\<rparr>"

text \<open>Storing a new attribute in the array.\<close>

definition set_attribute :: "nat \<Rightarrow> gatt_db_attribute option \<Rightarrow> gatt_db_service \<Rightarrow> gatt_db_service option" where
  "set_attribute i x s = (if i < length (sv_attributes s) then Some (s\<lparr>sv_attributes := (sv_attributes s)[i := x]\<rparr>) else None)"

definition service_insert_characteristic ::
    "bool \<Rightarrow> u16 \<Rightarrow> bt_uuid \<Rightarrow> u32 \<Rightarrow> u8 \<Rightarrow> fid option \<Rightarrow> fid option \<Rightarrow> ptr \<Rightarrow> gatt_db_service \<Rightarrow> (nat option \<times> gatt_db_service) option" where
  "service_insert_characteristic mem handle uuid permissions properties read_func write_func user_data s = do {
     h0 \<leftarrow> get_handle_at_index s 0;
     if handle \<noteq> 0 \<and> handle \<le> h0 then Some (None, s)
     else if handle = 0xffff then Some (None, s)
     else (let i = get_attribute_index s 1 in
       if i = 0 then Some (None, s)
       else do {
         prev \<leftarrow> get_handle_at_index s (i - 1);
         let handle = (if handle = 0 then prev + 2 else handle);
         le \<leftarrow> uuid_to_le uuid;
         let decl = new_attribute mem (handle - 1) characteristic_uuid ([properties] @ le16 handle @ le);
         s \<leftarrow> set_attribute i decl s;
         if decl = None then Some (None, s)
         else do {
           val \<leftarrow> new_attribute mem handle uuid [];
           s \<leftarrow> set_attribute (i + 1) (Some (set_attribute_data val read_func write_func permissions user_data)) s;
           Some (Some (i + 1), s) } }) }"

text \<open>An operation on the service of an attribute; the index in the answer becomes a pointer.\<close>

definition on_service :: "attr_ref \<Rightarrow> (gatt_db_service \<Rightarrow> (nat option \<times> gatt_db_service) option) \<Rightarrow> gatt_db \<Rightarrow> (attr_ref option \<times> gatt_db) option" where
  "on_service r f db = do {
     s \<leftarrow> db_heap db (fst r);
     (i, s) \<leftarrow> f s;
     Some (map_option (Pair (fst r)) i, put_service (fst r) s db) }"

definition gatt_db_service_insert_characteristic ::
    "bool \<Rightarrow> attr_ref \<Rightarrow> u16 \<Rightarrow> bt_uuid \<Rightarrow> u32 \<Rightarrow> u8 \<Rightarrow> fid option \<Rightarrow> fid option \<Rightarrow> ptr \<Rightarrow> gatt_db \<Rightarrow> (attr_ref option \<times> gatt_db) option" where
  "gatt_db_service_insert_characteristic mem r handle uuid permissions properties read_func write_func user_data db =
    (if handle = 0 then Some (None, db)
     else on_service r (service_insert_characteristic mem handle uuid permissions properties read_func write_func user_data) db)"

definition gatt_db_service_add_characteristic ::
    "bool \<Rightarrow> attr_ref \<Rightarrow> bt_uuid \<Rightarrow> u32 \<Rightarrow> u8 \<Rightarrow> fid option \<Rightarrow> fid option \<Rightarrow> ptr \<Rightarrow> gatt_db \<Rightarrow> (attr_ref option \<times> gatt_db) option" where
  "gatt_db_service_add_characteristic mem r uuid permissions properties read_func write_func user_data db =
    on_service r (service_insert_characteristic mem 0 uuid permissions properties read_func write_func user_data) db"

definition service_insert_descriptor ::
    "u16 \<Rightarrow> bt_uuid \<Rightarrow> u32 \<Rightarrow> fid option \<Rightarrow> fid option \<Rightarrow> ptr \<Rightarrow> gatt_db_service \<Rightarrow> (nat option \<times> gatt_db_service) option" where
  "service_insert_descriptor handle uuid permissions read_func write_func user_data s =
    (let i = get_attribute_index s 0 in
     if i = 0 then Some (None, s)
     else do {
       h0 \<leftarrow> get_handle_at_index s 0;
       if handle \<noteq> 0 \<and> handle \<le> h0 then Some (None, s)
       else do {
         prev \<leftarrow> get_handle_at_index s (i - 1);
         let handle = (if handle = 0 then prev + 1 else handle);
         x \<leftarrow> new_attribute True handle uuid [];
         s \<leftarrow> set_attribute i (Some (set_attribute_data x read_func write_func permissions user_data)) s;
         Some (Some i, s) } })"

definition gatt_db_service_insert_descriptor ::
    "attr_ref \<Rightarrow> u16 \<Rightarrow> bt_uuid \<Rightarrow> u32 \<Rightarrow> fid option \<Rightarrow> fid option \<Rightarrow> ptr \<Rightarrow> gatt_db \<Rightarrow> (attr_ref option \<times> gatt_db) option" where
  "gatt_db_service_insert_descriptor r handle uuid permissions read_func write_func user_data db =
    (if handle = 0 then Some (None, db)
     else on_service r (service_insert_descriptor handle uuid permissions read_func write_func user_data) db)"

definition gatt_db_service_add_descriptor ::
    "attr_ref \<Rightarrow> bt_uuid \<Rightarrow> u32 \<Rightarrow> fid option \<Rightarrow> fid option \<Rightarrow> ptr \<Rightarrow> gatt_db \<Rightarrow> (attr_ref option \<times> gatt_db) option" where
  "gatt_db_service_add_descriptor r uuid permissions read_func write_func user_data db =
    on_service r (service_insert_descriptor 0 uuid permissions read_func write_func user_data) db"

text \<open>The value of an include: the handles of the included service, and its UUID when that has 16 bits.\<close>

definition include_value :: "gatt_db_service \<Rightarrow> u8 list option" where
  "include_value included = do {
     x \<leftarrow> attribute_at 0 included;
     x \<leftarrow> x;
     let value = le16 (at_handle x) @ le16 (at_handle x + sv_num_handles included - 1);
     if at_value_len x = 2 then (if 2 \<le> length (at_value x) then Some (value @ take 2 (at_value x)) else None)
     else Some value }"

definition service_add_included :: "bool \<Rightarrow> u8 list \<Rightarrow> gatt_db_service \<Rightarrow> (nat option \<times> gatt_db_service) option" where
  "service_add_included mem value s =
    (let index = get_attribute_index s 0 in
     if index = 0 then Some (None, s)
     else do {
       let x = new_attribute mem 0 included_service_uuid value;
       s \<leftarrow> set_attribute index x s;
       case x of None \<Rightarrow> Some (None, s)
       | Some x \<Rightarrow> do {
           s \<leftarrow> set_attribute index (Some (set_attribute_data x None None 0 None)) s;
           s \<leftarrow> attribute_update s index;
           Some (Some index, s) } })"

definition gatt_db_service_add_included :: "bool \<Rightarrow> attr_ref \<Rightarrow> attr_ref \<Rightarrow> gatt_db \<Rightarrow> (attr_ref option \<times> gatt_db) option" where
  "gatt_db_service_add_included mem r inc db = do {
     included \<leftarrow> db_heap db (fst inc);
     value \<leftarrow> include_value included;
     on_service r (service_add_included mem value) db }"

section \<open>Searching\<close>

definition services :: "gatt_db \<Rightarrow> (addr \<times> gatt_db_service) list option" where
  "services db = map_opt (\<lambda>a. do { s \<leftarrow> db_heap db a; Some (a, s) }) (db_services db)"

definition first_attr :: "gatt_db_service \<Rightarrow> gatt_db_attribute option" where
  "first_attr s = do { x \<leftarrow> attribute_at 0 s; x }"

primrec group_entries :: "u16 \<Rightarrow> u16 \<Rightarrow> bt_uuid \<Rightarrow> u16 \<Rightarrow> (addr \<times> gatt_db_service) list \<Rightarrow> attr_ref list option" where
  "group_entries start stop type uuid_size [] = Some []"
| "group_entries start stop type uuid_size (e # es) = (case e of (a, s) \<Rightarrow>
     if \<not> sv_active s then group_entries start stop type uuid_size es
     else do {
       x \<leftarrow> first_attr s;
       c \<leftarrow> bt_uuid_cmp type (at_uuid x);
       let grp_start = at_handle x;
       let grp_end = grp_start + sv_num_handles s - 1;
       if c \<noteq> 0 \<or> grp_end < start \<or> stop < grp_start \<or> grp_start < start
       then group_entries start stop type uuid_size es
       else if uuid_size \<noteq> 0 \<and> uuid_size \<noteq> at_value_len x then Some []
       else do { rs \<leftarrow> group_entries start stop type (at_value_len x) es; Some ((a, 0) # rs) } })"

definition gatt_db_read_by_group_type :: "u16 \<Rightarrow> u16 \<Rightarrow> bt_uuid \<Rightarrow> gatt_db \<Rightarrow> attr_ref list option" where
  "gatt_db_read_by_group_type start stop type db = do { ss \<leftarrow> services db; group_entries start stop type 0 ss }"

text \<open>The attributes of a service with their indices; empty places are skipped.\<close>

definition filled_attributes :: "addr \<Rightarrow> gatt_db_service \<Rightarrow> (attr_ref \<times> gatt_db_attribute) list" where
  "filled_attributes a s = List.map_filter (\<lambda>i. map_option (Pair (a, i)) (sv_attributes s ! i)) [0..<unat (sv_num_handles s)]"

text \<open>\<open>memcmp\<close> of the value with the one searched for; reading behind the value is undefined.\<close>

definition value_differs :: "u8 list option \<Rightarrow> gatt_db_attribute \<Rightarrow> bool option" where
  "value_differs search x = (case search of None \<Rightarrow> Some False
     | Some v \<Rightarrow> if length (at_value x) < length v then None else Some (take (length v) (at_value x) \<noteq> v))"

primrec type_entries :: "u16 \<Rightarrow> u16 \<Rightarrow> bt_uuid \<Rightarrow> u8 list option \<Rightarrow> (attr_ref \<times> gatt_db_attribute) list \<Rightarrow> attr_ref list option" where
  "type_entries start stop type value [] = Some []"
| "type_entries start stop type value (e # es) = (case e of (r, x) \<Rightarrow>
     if at_handle x < start \<or> stop < at_handle x then type_entries start stop type value es
     else do {
       c \<leftarrow> bt_uuid_cmp type (at_uuid x);
       if c \<noteq> 0 then type_entries start stop type value es
       else do {
         d \<leftarrow> value_differs value x;
         rs \<leftarrow> type_entries start stop type value es;
         Some (if d then rs else r # rs) } })"

definition find_by_type :: "u16 \<Rightarrow> u16 \<Rightarrow> bt_uuid \<Rightarrow> u8 list option \<Rightarrow> (addr \<times> gatt_db_service) \<Rightarrow> attr_ref list option" where
  "find_by_type start stop type value e =
    (if \<not> sv_active (snd e) then Some [] else type_entries start stop type value (filled_attributes (fst e) (snd e)))"

definition over_services :: "(addr \<times> gatt_db_service \<Rightarrow> attr_ref list option) \<Rightarrow> gatt_db \<Rightarrow> attr_ref list option" where
  "over_services f db = do { ss \<leftarrow> services db; rs \<leftarrow> map_opt f ss; Some (concat rs) }"

definition gatt_db_find_by_type :: "u16 \<Rightarrow> u16 \<Rightarrow> bt_uuid \<Rightarrow> gatt_db \<Rightarrow> attr_ref list option" where
  "gatt_db_find_by_type start stop type db = over_services (find_by_type start stop type None) db"

definition gatt_db_find_by_type_value :: "u16 \<Rightarrow> u16 \<Rightarrow> bt_uuid \<Rightarrow> u8 list \<Rightarrow> gatt_db \<Rightarrow> attr_ref list option" where
  "gatt_db_find_by_type_value start stop type value db = over_services (find_by_type start stop type (Some value)) db"

primrec read_type_entries :: "u16 \<Rightarrow> u16 \<Rightarrow> bt_uuid \<Rightarrow> (attr_ref \<times> gatt_db_attribute) list \<Rightarrow> attr_ref list option" where
  "read_type_entries start stop type [] = Some []"
| "read_type_entries start stop type (e # es) = (case e of (r, x) \<Rightarrow>
     if at_handle x < start then read_type_entries start stop type es
     else if stop < at_handle x then Some []
     else do {
       c \<leftarrow> bt_uuid_cmp type (at_uuid x);
       rs \<leftarrow> read_type_entries start stop type es;
       Some (if c \<noteq> 0 then rs else r # rs) })"

definition read_by_type :: "u16 \<Rightarrow> u16 \<Rightarrow> bt_uuid \<Rightarrow> (addr \<times> gatt_db_service) \<Rightarrow> attr_ref list option" where
  "read_by_type start stop type e = (if \<not> sv_active (snd e) then Some [] else read_type_entries start stop type (filled_attributes (fst e) (snd e)))"

definition gatt_db_read_by_type :: "u16 \<Rightarrow> u16 \<Rightarrow> bt_uuid \<Rightarrow> gatt_db \<Rightarrow> attr_ref list option" where
  "gatt_db_read_by_type start stop type db = over_services (read_by_type start stop type) db"

primrec info_entries :: "u16 \<Rightarrow> u16 \<Rightarrow> (attr_ref \<times> gatt_db_attribute) list \<Rightarrow> attr_ref list" where
  "info_entries start stop [] = []"
| "info_entries start stop (e # es) = (case e of (r, x) \<Rightarrow>
     if at_handle x < start then info_entries start stop es
     else if stop < at_handle x then []
     else r # info_entries start stop es)"

definition find_information :: "u16 \<Rightarrow> u16 \<Rightarrow> (addr \<times> gatt_db_service) \<Rightarrow> attr_ref list option" where
  "find_information start stop e =
    (if \<not> sv_active (snd e) then Some []
     else do {
       x \<leftarrow> first_attr (snd e);
       if unat (at_handle x) + unat (sv_num_handles (snd e)) - 1 < unat start then Some []
       else Some (info_entries start stop (filled_attributes (fst e) (snd e))) })"

definition gatt_db_find_information :: "u16 \<Rightarrow> u16 \<Rightarrow> gatt_db \<Rightarrow> attr_ref list option" where
  "gatt_db_find_information start stop db = over_services (find_information start stop) db"

definition foreach_service_in_range :: "bt_uuid option \<Rightarrow> u16 \<Rightarrow> u16 \<Rightarrow> (addr \<times> gatt_db_service) \<Rightarrow> attr_ref list option" where
  "foreach_service_in_range uuid start stop e = do {
     svc_start \<leftarrow> get_handle_at_index (snd e) 0;
     if stop < svc_start \<or> svc_start < start then Some []
     else (case uuid of None \<Rightarrow> Some [(fst e, 0)]
       | Some u \<Rightarrow> do { v \<leftarrow> service_uuid (snd e); c \<leftarrow> cmp_uuid v u; Some (if c \<noteq> 0 then [] else [(fst e, 0)]) }) }"

definition gatt_db_foreach_service_in_range :: "bt_uuid option \<Rightarrow> u16 \<Rightarrow> u16 \<Rightarrow> gatt_db \<Rightarrow> attr_ref list option" where
  "gatt_db_foreach_service_in_range uuid start stop db =
    (if stop < start then Some [] else over_services (foreach_service_in_range uuid start stop) db)"

definition gatt_db_foreach_service :: "bt_uuid option \<Rightarrow> gatt_db \<Rightarrow> attr_ref list option" where
  "gatt_db_foreach_service uuid db = gatt_db_foreach_service_in_range uuid 0x0001 0xffff db"

text \<open>Going through the attributes of one service.\<close>

definition attrs_with_uuid :: "bt_uuid option \<Rightarrow> (attr_ref \<times> gatt_db_attribute) list \<Rightarrow> attr_ref list option" where
  "attrs_with_uuid uuid xs = (case uuid of None \<Rightarrow> Some (map fst xs)
     | Some u \<Rightarrow> do {
         cs \<leftarrow> map_opt (\<lambda>e. do { c \<leftarrow> bt_uuid_cmp u (at_uuid (snd e)); Some (fst e, c) }) xs;
         Some (map fst (filter (\<lambda>p. snd p = 0) cs)) })"

definition gatt_db_service_foreach :: "attr_ref \<Rightarrow> bt_uuid option \<Rightarrow> gatt_db \<Rightarrow> attr_ref list option" where
  "gatt_db_service_foreach r uuid db = do { s \<leftarrow> db_heap db (fst r); attrs_with_uuid uuid (filled_attributes (fst r) s) }"

definition gatt_db_service_foreach_char :: "attr_ref \<Rightarrow> gatt_db \<Rightarrow> attr_ref list option" where
  "gatt_db_service_foreach_char r db = gatt_db_service_foreach r (Some characteristic_uuid) db"

definition gatt_db_service_foreach_incl :: "attr_ref \<Rightarrow> gatt_db \<Rightarrow> attr_ref list option" where
  "gatt_db_service_foreach_incl r db = gatt_db_service_foreach r (Some included_service_uuid) db"

primrec desc_entries_from :: "(attr_ref \<times> gatt_db_attribute) list \<Rightarrow> attr_ref list option" where
  "desc_entries_from [] = Some []"
| "desc_entries_from (e # es) = do {
     c \<leftarrow> bt_uuid_cmp characteristic_uuid (at_uuid (snd e));
     i \<leftarrow> bt_uuid_cmp included_service_uuid (at_uuid (snd e));
     if c = 0 \<or> i = 0 then Some [] else do { rs \<leftarrow> desc_entries_from es; Some (fst e # rs) } }"

definition gatt_db_service_foreach_desc :: "attr_ref \<Rightarrow> gatt_db \<Rightarrow> attr_ref list option" where
  "gatt_db_service_foreach_desc r db = do {
     x \<leftarrow> get_attr db r;
     c \<leftarrow> bt_uuid_cmp characteristic_uuid (at_uuid x);
     if c \<noteq> 0 then Some []
     else do { s \<leftarrow> db_heap db (fst r); desc_entries_from (filter (\<lambda>e. unat (of_nat (snd r) + 2 :: u16) \<le> snd (fst e)) (filled_attributes (fst r) s)) } }"

primrec find_service :: "(gatt_db_service \<Rightarrow> bool option) \<Rightarrow> (addr \<times> gatt_db_service) list \<Rightarrow> (addr \<times> gatt_db_service) option option" where
  "find_service f [] = Some None"
| "find_service f (e # es) = do { b \<leftarrow> f (snd e); if b then Some (Some e) else find_service f es }"

definition find_service_for_handle :: "u16 \<Rightarrow> gatt_db_service \<Rightarrow> bool option" where
  "find_service_for_handle handle s = do { (start, stop) \<leftarrow> gatt_db_service_get_handles s; Some (start \<le> handle \<and> handle \<le> stop) }"

definition gatt_db_get_attribute :: "u16 \<Rightarrow> gatt_db \<Rightarrow> attr_ref option option" where
  "gatt_db_get_attribute handle db =
    (if handle = 0 then Some None
     else do {
       ss \<leftarrow> services db;
       found \<leftarrow> find_service (find_service_for_handle handle) ss;
       case found of None \<Rightarrow> Some None
       | Some (a, s) \<Rightarrow> Some (map_option fst (List.find (\<lambda>e. at_handle (snd e) = handle) (filled_attributes a s))) })"

definition find_service_with_uuid :: "bt_uuid \<Rightarrow> gatt_db_service \<Rightarrow> bool option" where
  "find_service_with_uuid uuid s = do { v \<leftarrow> service_uuid s;
     case v of Inl _ \<Rightarrow> None | Inr w \<Rightarrow> do { c \<leftarrow> bt_uuid_cmp uuid w; Some (c = 0) } }"

definition gatt_db_get_service_with_uuid :: "bt_uuid \<Rightarrow> gatt_db \<Rightarrow> attr_ref option option" where
  "gatt_db_get_service_with_uuid uuid db = do {
     ss \<leftarrow> services db;
     found \<leftarrow> find_service (find_service_with_uuid uuid) ss;
     Some (map_option (\<lambda>e. (fst e, 0)) found) }"

section \<open>Reading what the attributes say\<close>

definition gatt_db_attribute_get_type :: "gatt_db \<Rightarrow> attr_ref \<Rightarrow> bt_uuid option" where
  "gatt_db_attribute_get_type db r = do { x \<leftarrow> get_attr db r; Some (at_uuid x) }"

definition gatt_db_attribute_get_handle :: "gatt_db \<Rightarrow> attr_ref \<Rightarrow> u16 option" where
  "gatt_db_attribute_get_handle db r = do { x \<leftarrow> get_attr db r; Some (at_handle x) }"

definition gatt_db_attribute_get_permissions :: "gatt_db \<Rightarrow> attr_ref \<Rightarrow> u32 option" where
  "gatt_db_attribute_get_permissions db r = do { x \<leftarrow> get_attr db r; Some (at_permissions x) }"

definition gatt_db_attribute_get_service_handles :: "gatt_db \<Rightarrow> attr_ref \<Rightarrow> (u16 \<times> u16) option" where
  "gatt_db_attribute_get_service_handles db r = do { s \<leftarrow> db_heap db (fst r); gatt_db_service_get_handles s }"

text \<open>The value of an attribute, \<open>value_len\<close> bytes of it.\<close>

definition value_bytes :: "gatt_db_attribute \<Rightarrow> u8 list option" where
  "value_bytes x = (if unat (at_value_len x) \<le> length (at_value x) then Some (take (unat (at_value_len x)) (at_value x)) else None)"

text \<open>Handles, whether the service is primary, and its UUID (\<open>None\<close> when the function returns \<open>false\<close>).\<close>

definition gatt_db_attribute_get_service_data :: "gatt_db \<Rightarrow> attr_ref \<Rightarrow> ((u16 \<times> u16) \<times> bool \<times> bt_uuid option) option" where
  "gatt_db_attribute_get_service_data db r = do {
     s \<leftarrow> db_heap db (fst r);
     decl \<leftarrow> first_attr s;
     hs \<leftarrow> gatt_db_service_get_handles s;
     c \<leftarrow> bt_uuid_cmp (at_uuid decl) secondary_service_uuid;
     bs \<leftarrow> value_bytes decl;
     Some (hs, c \<noteq> 0, le_to_uuid bs) }"

text \<open>The extended properties of a characteristic are the value of a descriptor. \<open>None\<close> also where the value is not in the
  database: the descriptor's read function would be given a variable of the function that asks, to be set after it has returned.\<close>

definition ext_desc_uuid :: bt_uuid where "ext_desc_uuid = BT_UUID16 GATT_CHARAC_EXT_PROPER_UUID"
definition BT_GATT_CHRC_PROP_EXT_PROP :: u8 where "BT_GATT_CHRC_PROP_EXT_PROP = 0x80"

definition read_ext_prop_value :: "int \<Rightarrow> u8 list \<Rightarrow> u16 \<Rightarrow> u16" where
  "read_ext_prop_value err value ext_prop = (if err \<noteq> 0 \<or> length value \<noteq> 2 then ext_prop else ucast (value ! 0))"

definition read_ext_prop :: "gatt_db_attribute \<Rightarrow> u16 \<Rightarrow> u16 option" where
  "read_ext_prop x ext_prop = (if ext_prop \<noteq> 0 then Some ext_prop else do {
     c \<leftarrow> bt_uuid_cmp ext_desc_uuid (at_uuid x);
     if c \<noteq> 0 then Some ext_prop
     else (case at_read_func x of Some _ \<Rightarrow> None
       | None \<Rightarrow> do { bs \<leftarrow> value_bytes x; Some (read_ext_prop_value 0 bs ext_prop) }) })"

primrec read_ext_props :: "gatt_db \<Rightarrow> attr_ref list \<Rightarrow> u16 \<Rightarrow> u16 option" where
  "read_ext_props db [] ext_prop = Some ext_prop"
| "read_ext_props db (r # rs) ext_prop = do { x \<leftarrow> get_attr db r; ext_prop \<leftarrow> read_ext_prop x ext_prop; read_ext_props db rs ext_prop }"

definition get_char_extended_prop :: "gatt_db \<Rightarrow> attr_ref \<Rightarrow> u8 option" where
  "get_char_extended_prop db r = do {
     x \<leftarrow> get_attr db r;
     c \<leftarrow> bt_uuid_cmp characteristic_uuid (at_uuid x);
     if c \<noteq> 0 then Some 0
     else if at_value x = [] then None
     else if at_value x ! 0 AND BT_GATT_CHRC_PROP_EXT_PROP = 0 then Some 0
     else do { rs \<leftarrow> gatt_db_service_foreach_desc r db; e \<leftarrow> read_ext_props db rs 0; Some (ucast e) } }"

text \<open>Handle, value handle, properties and UUID of a characteristic declaration; \<open>Some None\<close>: the function returns \<open>false\<close>.
  Of the extended properties see \<open>get_char_extended_prop\<close>; \<open>ext\<close>: the caller asks for them.\<close>

definition gatt_db_attribute_get_char_data :: "gatt_db \<Rightarrow> attr_ref \<Rightarrow> bool \<Rightarrow> (u16 \<times> u16 \<times> u8 \<times> u16 option \<times> bt_uuid) option option" where
  "gatt_db_attribute_get_char_data db r ext = do {
     x \<leftarrow> get_attr db r;
     c \<leftarrow> bt_uuid_cmp characteristic_uuid (at_uuid x);
     if c \<noteq> 0 then Some None
     else if at_value x = [] \<or> at_value_len x \<noteq> 5 \<and> at_value_len x \<noteq> 19 then Some None
     else do {
       bs \<leftarrow> value_bytes x;
       e \<leftarrow> (if ext then do { e \<leftarrow> get_char_extended_prop db r; Some (Some (ucast e)) } else Some None);
       Some (do { u \<leftarrow> le_to_uuid (drop 3 bs); Some (at_handle x, get_le16 bs 1, bs ! 0, e, u) }) } }"

definition gatt_db_attribute_get_incl_data :: "gatt_db \<Rightarrow> attr_ref \<Rightarrow> (u16 \<times> u16 \<times> u16) option option" where
  "gatt_db_attribute_get_incl_data db r = do {
     x \<leftarrow> get_attr db r;
     c \<leftarrow> bt_uuid_cmp included_service_uuid (at_uuid x);
     if c \<noteq> 0 then Some None
     else if at_value x = [] \<or> at_value_len x < 4 \<or> 6 < at_value_len x then Some None
     else do { bs \<leftarrow> value_bytes x; Some (Some (at_handle x, get_le16 bs 0, get_le16 bs 2)) } }"

section \<open>Reading and writing values\<close>

text \<open>\<open>func\<close> is NULL, or the function that gets the result.\<close>

definition gatt_db_attribute_read :: "attr_ref \<Rightarrow> u16 \<Rightarrow> u8 \<Rightarrow> fid option \<Rightarrow> ptr \<Rightarrow> gatt_db \<Rightarrow> (bool \<times> gatt_db) option" where
  "gatt_db_attribute_read r off opcode func user_data db = do {
     x \<leftarrow> get_attr db r;
     case func of None \<Rightarrow> Some (False, db)
     | Some f \<Rightarrow> (case at_read_func x of
         Some fn \<Rightarrow> do {
           let ident = at_read_id x + 1;
           let p = \<lparr>po_id = ident, po_timeout_id = db_timer db, po_func = f, po_user_data = user_data\<rparr>;
           db \<leftarrow> put_attr r (x\<lparr>at_read_id := ident, at_pending_reads := at_pending_reads x @ [p]\<rparr>) (db\<lparr>db_timer := db_timer db + 1\<rparr>);
           Some (True, log_db [Read_Func fn r ident off opcode (at_user_data x)] db) }
       | None \<Rightarrow>
           if at_value_len x < off then Some (True, log_db [Read_Result f r BT_ATT_ERROR_INVALID_OFFSET [] user_data] db)
           else do {
             bs \<leftarrow> value_bytes x;
             Some (True, log_db [Read_Result f r 0 (drop (unat off) bs) user_data] db) }) }"

text \<open>\<open>queue_remove_if\<close> with \<open>find_pending\<close>.\<close>

definition take_pending :: "u32 \<Rightarrow> pending_op list \<Rightarrow> (pending_op \<times> pending_op list) option" where
  "take_pending ident ps = (case List.find (\<lambda>p. po_id p = ident) ps of None \<Rightarrow> None | Some p \<Rightarrow> Some (p, remove1 p ps))"

definition gatt_db_attribute_read_result :: "attr_ref \<Rightarrow> u32 \<Rightarrow> int \<Rightarrow> u8 list \<Rightarrow> gatt_db \<Rightarrow> (bool \<times> gatt_db) option" where
  "gatt_db_attribute_read_result r ident err value db = (if ident = 0 then Some (False, db) else do {
     x \<leftarrow> get_attr db r;
     case take_pending ident (at_pending_reads x) of None \<Rightarrow> Some (False, db)
     | Some (p, ps) \<Rightarrow> do {
         db \<leftarrow> put_attr r (x\<lparr>at_pending_reads := ps\<rparr>) db;
         Some (True, log_db [pending_read_result r err value p] db) } })"

text \<open>A time-out fires: the operation whose time-out it is is taken out of the queue.\<close>

definition read_timeout :: "attr_ref \<Rightarrow> nat \<Rightarrow> gatt_db \<Rightarrow> gatt_db option" where
  "read_timeout r timer db = do {
     x \<leftarrow> get_attr db r;
     case List.find (\<lambda>p. po_timeout_id p = timer) (at_pending_reads x) of None \<Rightarrow> Some db
     | Some p \<Rightarrow> do {
         db \<leftarrow> put_attr r (x\<lparr>at_pending_reads := remove1 p (at_pending_reads x)\<rparr>) db;
         Some (log_db [pending_read_result r (- ETIMEDOUT) [] p] db) } }"

definition write_timeout :: "attr_ref \<Rightarrow> nat \<Rightarrow> gatt_db \<Rightarrow> gatt_db option" where
  "write_timeout r timer db = do {
     x \<leftarrow> get_attr db r;
     case List.find (\<lambda>p. po_timeout_id p = timer) (at_pending_writes x) of None \<Rightarrow> Some db
     | Some p \<Rightarrow> do {
         db \<leftarrow> put_attr r (x\<lparr>at_pending_writes := remove1 p (at_pending_writes x)\<rparr>) db;
         Some (log_db [pending_write_result r (- ETIMEDOUT) p] db) } }"

text \<open>The value after a write: it grows to \<open>offset + len\<close> bytes, of which \<open>realloc\<close> gives those behind the old value no
  content (\<open>junk\<close>); only a first value is cleared up to the offset.\<close>

definition stored_value :: "(nat \<Rightarrow> u8) \<Rightarrow> u16 \<Rightarrow> u8 list \<Rightarrow> gatt_db_attribute \<Rightarrow> gatt_db_attribute" where
  "stored_value junk off value x =
    (let len = length value; o' = unat off in
     if at_value x = [] \<or> at_value_len x \<le> off \<or> unat (at_value_len x - off) < len
     then (let old = take (len + o') (at_value x);
               buf = old @ map junk [length old..<len + o'];
               buf = (if at_value_len x = 0 then replicate o' 0 @ drop o' buf else buf)
           in x\<lparr>at_value := take o' buf @ value, at_value_len := of_nat (len + o')\<rparr>)
     else x\<lparr>at_value := take o' (at_value x) @ value @ drop (o' + len) (at_value x)\<rparr>)"

definition gatt_db_attribute_write :: "bool \<Rightarrow> (nat \<Rightarrow> u8) \<Rightarrow> attr_ref \<Rightarrow> u16 \<Rightarrow> u8 list \<Rightarrow> u8 \<Rightarrow> fid option \<Rightarrow> ptr \<Rightarrow> gatt_db \<Rightarrow> (bool \<times> gatt_db) option" where
  "gatt_db_attribute_write mem junk r off value opcode func user_data db = do {
     x \<leftarrow> get_attr db r;
     case func of None \<Rightarrow> Some (False, db)
     | Some f \<Rightarrow> (case at_write_func x of
         Some fn \<Rightarrow> do {
           let ident = at_write_id x + 1;
           let p = \<lparr>po_id = ident, po_timeout_id = db_timer db, po_func = f, po_user_data = user_data\<rparr>;
           db \<leftarrow> put_attr r (x\<lparr>at_write_id := ident, at_pending_writes := at_pending_writes x @ [p]\<rparr>) (db\<lparr>db_timer := db_timer db + 1\<rparr>);
           Some (True, log_db [Write_Func fn r ident off value opcode (at_user_data x)] db) }
       | None \<Rightarrow>
           if value = [] then Some (True, log_db [Write_Result f r 0 user_data] db)
           else if (at_value x = [] \<or> at_value_len x \<le> off \<or> unat (at_value_len x - off) < length value) \<and> \<not> mem then Some (False, db)
           else do {
             db \<leftarrow> put_attr r (stored_value junk off value x) db;
             Some (True, log_db [Write_Result f r 0 user_data] db) }) }"

definition gatt_db_attribute_write_result :: "attr_ref \<Rightarrow> u32 \<Rightarrow> int \<Rightarrow> gatt_db \<Rightarrow> (bool \<times> gatt_db) option" where
  "gatt_db_attribute_write_result r ident err db = (if ident = 0 then Some (False, db) else do {
     x \<leftarrow> get_attr db r;
     case take_pending ident (at_pending_writes x) of None \<Rightarrow> Some (False, db)
     | Some (p, ps) \<Rightarrow> do {
         db \<leftarrow> put_attr r (x\<lparr>at_pending_writes := ps\<rparr>) db;
         Some (True, log_db [pending_write_result r err p] db) } })"

definition gatt_db_attribute_reset :: "attr_ref \<Rightarrow> gatt_db \<Rightarrow> (bool \<times> gatt_db) option" where
  "gatt_db_attribute_reset r db = do {
     x \<leftarrow> get_attr db r;
     if at_value x = [] \<or> at_value_len x = 0 then Some (True, db)
     else do { db \<leftarrow> put_attr r (x\<lparr>at_value := [], at_value_len := 0\<rparr>) db; Some (True, db) } }"

end
