(* ===== verification/Gatt_Db_Safe.thy ===== *)
theory Gatt_Db_Safe
  imports Gatt_Db
begin

text \<open>
  What keeps the attribute database of \<open>Gatt_Db\<close> in order: its invariant, the contract under which every operation keeps it
  and runs without undefined behaviour, and what looking up, searching, reading and writing give in every database that
  operations within the contract lead to. The contract names what the code does not check.
\<close>

section \<open>Well-formed services\<close>

definition uuid_given :: "bt_uuid \<Rightarrow> bool" where
  "uuid_given u \<longleftrightarrow> u \<noteq> BT_UUID_UNSPEC \<and> wf_bt_uuid u"

definition declares_service :: "gatt_db_attribute \<Rightarrow> bool" where
  "declares_service x \<longleftrightarrow> at_uuid x \<in> {primary_service_uuid, secondary_service_uuid}
     \<and> length (at_value x) = unat (at_value_len x) \<and> at_value_len x \<in> {2, 16}"

definition wf_attribute :: "gatt_db_attribute \<Rightarrow> bool" where
  "wf_attribute x \<longleftrightarrow> uuid_given (at_uuid x) \<and> length (at_value x) = unat (at_value_len x)"

text \<open>The places of the array are filled_attributes from the left; the handles ascend and stay in the range of the service.\<close>

definition service_is :: "gatt_db_service \<Rightarrow> gatt_db_attribute list \<Rightarrow> bool" where
  "service_is s xs \<longleftrightarrow> xs \<noteq> [] \<and> length xs \<le> unat (sv_num_handles s)
     \<and> sv_attributes s = map Some xs @ replicate (unat (sv_num_handles s) - length xs) None
     \<and> 0 < at_handle (hd xs) \<and> unat (at_handle (hd xs)) + unat (sv_num_handles s) \<le> 65536
     \<and> sorted_wrt (\<lambda>x y. at_handle x < at_handle y) xs
     \<and> unat (at_handle (last xs)) < unat (at_handle (hd xs)) + unat (sv_num_handles s)
     \<and> declares_service (hd xs) \<and> (\<forall>x\<in>set xs. wf_attribute x)"

definition svc_start :: "gatt_db_service \<Rightarrow> nat" where
  "svc_start s = unat (at_handle (the (sv_attributes s ! 0)))"

definition svc_end :: "gatt_db_service \<Rightarrow> nat" where
  "svc_end s = svc_start s + unat (sv_num_handles s) - 1"

definition wf_service :: "gatt_db_service \<Rightarrow> bool" where
  "wf_service s \<longleftrightarrow> (\<exists>xs. service_is s xs)"

lemma uuid_given_cmp: "uuid_given u \<Longrightarrow> uuid_given v \<Longrightarrow> \<exists>c. bt_uuid_cmp u v = Some c"
  by (cases u; cases v) (simp_all add: uuid_given_def bt_uuid_cmp_def bt_uuid16_to_uuid128_def bt_uuid32_to_uuid128_def)

lemma uuid_given_types [simp]:
  "uuid_given primary_service_uuid" "uuid_given secondary_service_uuid" "uuid_given characteristic_uuid" "uuid_given included_service_uuid"
  by (simp_all add: uuid_given_def primary_service_uuid_def secondary_service_uuid_def characteristic_uuid_def included_service_uuid_def)

lemma uuid_to_le_given:
  assumes "uuid_given u"
  obtains bs where "uuid_to_le u = Some bs" "length bs = 2 \<or> length bs = 16"
proof (cases u)
  case (BT_UUID32 v)
  then show thesis using that
    by (simp add: uuid_to_le_def bt_uuid32_to_uuid128_def memcpy_at_def bluetooth_base_uuid_def BASE_UUID32_OFFSET_def)
qed (use assms that in \<open>simp_all add: uuid_to_le_def uuid_given_def\<close>)

lemma svc_facts:
  assumes svc: "service_is s xs"
  shows "xs \<noteq> []" "length xs \<le> unat (sv_num_handles s)" "length (sv_attributes s) = unat (sv_num_handles s)"
    "0 < at_handle (hd xs)" "unat (at_handle (hd xs)) + unat (sv_num_handles s) \<le> 65536" "0 < unat (sv_num_handles s)"
    "declares_service (hd xs)"
  using svc by (cases xs; auto simp: service_is_def)+

lemma svc_first:
  assumes svc: "service_is s xs"
  shows "attribute_at 0 s = Some (Some (hd xs))" "sv_attributes s ! 0 = Some (hd xs)" "first_attr s = Some (hd xs)"
  using svc by (cases xs; auto simp: service_is_def attribute_at_def first_attr_def)+

lemma svc_start_eq:
  assumes svc: "service_is s xs"
  shows "svc_start s = unat (at_handle (hd xs))"
  by (simp add: svc_start_def svc_first(2) [OF svc])

lemma svc_end_eq:
  assumes svc: "service_is s xs"
  shows "svc_end s = unat (at_handle (hd xs)) + unat (sv_num_handles s) - 1" "svc_start s \<le> svc_end s" "svc_end s < 65536" "0 < svc_start s"
  using svc_facts [OF svc] by (auto simp: svc_end_def svc_start_eq [OF svc] word_less_nat_alt)

lemma svc_handles:
  assumes svc: "service_is s xs"
  shows "gatt_db_service_get_handles s = Some (at_handle (hd xs), at_handle (hd xs) + sv_num_handles s - 1)"
    "unat (at_handle (hd xs) + sv_num_handles s - 1) = svc_end s"
proof -
  show "gatt_db_service_get_handles s = Some (at_handle (hd xs), at_handle (hd xs) + sv_num_handles s - 1)"
    by (simp add: gatt_db_service_get_handles_def svc_first [OF svc])
  have "at_handle (hd xs) + sv_num_handles s - 1 = of_nat (svc_end s)"
    using svc_facts(6) [OF svc] by (simp add: svc_end_eq [OF svc] of_nat_diff)
  then show "unat (at_handle (hd xs) + sv_num_handles s - 1) = svc_end s" using svc_end_eq(3) [OF svc] by (simp add: unat_of_nat)
qed

lemma svc_nth:
  assumes svc: "service_is s xs"
  shows "i < length xs \<Longrightarrow> sv_attributes s ! i = Some (xs ! i)"
    "length xs \<le> i \<Longrightarrow> i < unat (sv_num_handles s) \<Longrightarrow> sv_attributes s ! i = None"
  using svc by (auto simp: service_is_def nth_append)

lemma svc_filled:
  assumes svc: "service_is s xs"
  shows "filled_attributes a s = map (\<lambda>i. ((a, i), xs ! i)) [0..<length xs]"
proof -
  have split: "[0..<unat (sv_num_handles s)] = [0..<length xs] @ [length xs..<unat (sv_num_handles s)]"
    using svc_facts(2) [OF svc] upt_add_eq_append [of 0 "length xs" "unat (sv_num_handles s) - length xs"] by simp
  have 1: "List.map_filter (\<lambda>i. map_option (Pair (a, i)) (sv_attributes s ! i)) [0..<length xs] = map (\<lambda>i. ((a, i), xs ! i)) [0..<length xs]"
    by (auto simp: map_filter_def svc_nth(1) [OF svc] intro!: map_cong filter_True)
  have 2: "List.map_filter (\<lambda>i. map_option (Pair (a, i)) (sv_attributes s ! i)) [length xs..<unat (sv_num_handles s)] = []"
    by (simp add: map_filter_def filter_empty_conv svc_nth(2) [OF svc])
  have mf: "List.map_filter f (ys @ zs) = List.map_filter f ys @ List.map_filter f zs" for f :: "nat \<Rightarrow> (attr_ref \<times> gatt_db_attribute) option" and ys zs
    by (simp add: map_filter_def)
  show ?thesis unfolding filled_attributes_def split mf 1 2 by simp
qed

lemma svc_handle_mono:
  assumes svc: "service_is s xs"
  shows "i < j \<Longrightarrow> j < length xs \<Longrightarrow> at_handle (xs ! i) < at_handle (xs ! j)"
  using svc by (auto simp: service_is_def sorted_wrt_iff_nth_less)

lemma svc_handle_range:
  assumes svc: "service_is s xs"
  shows "i < length xs \<Longrightarrow> svc_start s \<le> unat (at_handle (xs ! i)) \<and> unat (at_handle (xs ! i)) \<le> svc_end s"
proof -
  assume i: "i < length xs"
  have "at_handle (hd xs) \<le> at_handle (xs ! i)"
    using i svc_handle_mono [OF svc, of 0 i] svc_facts(1) [OF svc] by (cases "i = 0") (auto simp: hd_conv_nth)
  moreover have "at_handle (xs ! i) \<le> at_handle (last xs)"
    using i svc_handle_mono [OF svc, of i "length xs - 1"] svc_facts(1) [OF svc] by (cases "i = length xs - 1") (auto simp: last_conv_nth intro: order_less_imp_le)
  ultimately show ?thesis using svc svc_start_eq [OF svc] svc_end_eq(1) [OF svc] by (auto simp: service_is_def word_le_nat_alt)
qed

lemma svc_uuid:
  assumes svc: "service_is s xs"
  shows "\<exists>u. service_uuid s = Some (Inr u) \<and> uuid_given u"
  using svc_facts(7) [OF svc] svc_first [OF svc]
  by (auto simp: service_uuid_def declares_service_def uuid_given_def bt_uuid16_create_def bt_uuid128_create_def)

lemma svc_free_index:
  assumes svc: "service_is s xs"
  shows "get_attribute_index s 0 = (if length xs < unat (sv_num_handles s) then length xs else 0)"
    "get_attribute_index s 1 = (if length xs < unat (sv_num_handles s) - 1 then length xs else 0)"
proof -
  have tw: "length (takeWhile (\<lambda>x. x \<noteq> None) (take n (sv_attributes s))) = min n (length xs)" if "n \<le> unat (sv_num_handles s)" for n
  proof (cases "n \<le> length xs")
    case True
    then have "take n (sv_attributes s) = map Some (take n xs)" using svc by (simp add: service_is_def take_map)
    then have "takeWhile (\<lambda>x. x \<noteq> None) (take n (sv_attributes s)) = map Some (take n xs)" by (simp add: takeWhile_eq_all_conv)
    then show ?thesis using True by simp
  next
    case False
    then obtain m where m: "n = Suc (length xs + m)" using less_imp_Suc_add [of "length xs" n] by auto
    have "take n (sv_attributes s) = map Some xs @ replicate (Suc m) None"
      using svc that by (simp add: service_is_def min_def m del: replicate_Suc)
    then have "takeWhile (\<lambda>x. x \<noteq> None) (take n (sv_attributes s)) = map Some xs" by (simp add: takeWhile_append)
    then show ?thesis using False by simp
  qed
  show "get_attribute_index s 0 = (if length xs < unat (sv_num_handles s) then length xs else 0)"
    using tw [of "unat (sv_num_handles s)"] svc_facts(2) [OF svc] by (auto simp: get_attribute_index_def Let_def)
  show "get_attribute_index s 1 = (if length xs < unat (sv_num_handles s) - 1 then length xs else 0)"
    using tw [of "unat (sv_num_handles s) - 1"] by (auto simp: get_attribute_index_def Let_def)
qed

section \<open>Well-formed databases\<close>

definition notifies_ok :: "gatt_db \<Rightarrow> bool" where
  "notifies_ok db \<longleftrightarrow> (\<forall>n\<in>set (db_notify_list db). nt_service_added n \<noteq> None \<and> nt_service_removed n \<noteq> None)"

definition db_has :: "gatt_db \<Rightarrow> (addr \<times> gatt_db_service) list \<Rightarrow> bool" where
  "db_has db ss \<longleftrightarrow> map fst ss = db_services db \<and> distinct (db_services db)
     \<and> (\<forall>e\<in>set ss. db_heap db (fst e) = Some (snd e) \<and> wf_service (snd e) \<and> fst e < db_addr db)
     \<and> dom (db_heap db) = fst ` set ss
     \<and> sorted_wrt (\<lambda>e f. svc_end (snd e) < svc_start (snd f)) ss \<and> notifies_ok db"

definition wf_db :: "gatt_db \<Rightarrow> bool" where
  "wf_db db \<longleftrightarrow> (\<exists>ss. db_has db ss)"

lemma map_opt_Some: "(\<And>x. x \<in> set xs \<Longrightarrow> f x = Some (g x)) \<Longrightarrow> map_opt f xs = Some (map g xs)"
  by (induction xs) auto

lemma db_has_services: "db_has db ss \<Longrightarrow> services db = Some ss"
proof -
  assume has: "db_has db ss"
  have all: "map_opt (\<lambda>a. do { s \<leftarrow> db_heap db a; Some (a, s) }) (map fst es) = Some es" if "set es \<subseteq> set ss" for es
    using that has by (induction es) (auto simp: db_has_def)
  have "db_services db = map fst ss" using has by (simp add: db_has_def)
  then show ?thesis using all [of ss] by (simp add: services_def)
qed

lemma db_has_lookup:
  assumes has: "db_has db ss"
  shows "db_heap db a = Some s \<longleftrightarrow> (a, s) \<in> set ss"
proof
  assume s: "db_heap db a = Some s"
  then have "a \<in> fst ` set ss" using has unfolding db_has_def by blast
  then show "(a, s) \<in> set ss" using has s by (auto simp: db_has_def)
qed (use has in \<open>auto simp: db_has_def\<close>)

lemma db_has_wf:
  assumes has: "db_has db ss"
  shows "db_heap db a = Some s \<Longrightarrow> wf_service s" "db_heap db a = Some s \<Longrightarrow> a \<in> set (db_services db)"
  using has unfolding db_has_lookup [OF has] by (auto simp: db_has_def) (metis fst_conv image_eqI image_set)

lemma db_has_mem: "db_has db ss \<Longrightarrow> e \<in> set ss \<Longrightarrow> fst e \<in> set (db_services db)"
  unfolding db_has_def by (metis image_eqI set_map)

lemma db_has_log [simp]: "db_has (log_db es db) ss = db_has db ss"
  by (simp add: db_has_def log_db_def notifies_ok_def)

lemma db_has_cong:
  "db_has db ss \<Longrightarrow> db_services db' = db_services db \<Longrightarrow> db_heap db' = db_heap db \<Longrightarrow> db_addr db' = db_addr db
    \<Longrightarrow> notifies_ok db' \<Longrightarrow> db_has db' ss"
  by (simp add: db_has_def)

lemma put_service_has:
  assumes has: "db_has db (pre @ (a, s) # post)" and svc: "wf_service s'" and rng: "svc_start s' = svc_start s" "svc_end s' = svc_end s"
  shows "db_has (put_service a s' db) (pre @ (a, s') # post)"
proof -
  have "distinct (map fst (pre @ (a, s) # post))" using has unfolding db_has_def by metis
  then have "\<forall>e\<in>set pre \<union> set post. fst e \<noteq> a" by auto
  then show ?thesis using has svc rng by (auto simp: db_has_def put_service_def notifies_ok_def sorted_wrt_append)
qed

lemma db_has_update:
  assumes has: "db_has db ss" and s: "db_heap db a = Some s"
    and svc: "wf_service s'" and rng: "svc_start s' = svc_start s" "svc_end s' = svc_end s"
  shows "wf_db (put_service a s' db)"
proof -
  obtain pre post where ss: "ss = pre @ (a, s) # post" using s split_list unfolding db_has_lookup [OF has] by metis
  show ?thesis using put_service_has [OF has [unfolded ss] svc rng] by (auto simp: wf_db_def)
qed

lemma db_has_filter:
  assumes has: "db_has db ss"
  shows "db_has (db\<lparr>db_services := filter P (db_services db), db_heap := (db_heap db) |` Collect P\<rparr>) (filter (P \<circ> fst) ss)"
proof -
  have "map fst (filter (P \<circ> fst) ss) = filter P (db_services db)" using has by (simp add: db_has_def filter_map [symmetric])
  then show ?thesis using has by (auto simp: db_has_def notifies_ok_def sorted_wrt_filter)
qed

section \<open>Removing services\<close>

lemma notify_service_changed_ok:
  assumes ok: "notifies_ok db"
  shows "\<exists>es. notify_service_changed a added db = Some (log_db es db)"
proof -
  have "\<forall>n\<in>set (db_notify_list db). \<exists>e. handle_service_notify (a, 0) added n = Some e"
    using ok by (auto simp: notifies_ok_def handle_service_notify_def split: option.splits)
  then obtain g where g: "\<forall>n\<in>set (db_notify_list db). handle_service_notify (a, 0) added n = Some (g n)" by metis
  have "map_opt (handle_service_notify (a, 0) added) (db_notify_list db) = Some (map g (db_notify_list db))" using g by (simp add: map_opt_Some)
  then show ?thesis by (auto simp: notify_service_changed_def)
qed

lemma log_db_log_db: "log_db es (log_db fs db) = log_db (fs @ es) db"
  by (simp add: log_db_def)

lemma service_destroy_ok:
  assumes ok: "notifies_ok db" and s: "db_heap db a = Some s"
  shows "\<exists>es. gatt_db_service_destroy a db = Some (log_db es (db\<lparr>db_heap := (db_heap db)(a := None)\<rparr>))"
proof (cases "sv_active s")
  case True
  obtain es where "notify_service_changed a False db = Some (log_db es db)" using notify_service_changed_ok [OF ok] by blast
  then show ?thesis using True s by (auto simp: gatt_db_service_destroy_def log_db_def Let_def)
qed (use s in \<open>auto simp: gatt_db_service_destroy_def log_db_def Let_def\<close>)

lemma each_destroy_ok:
  "distinct as \<Longrightarrow> notifies_ok db \<Longrightarrow> \<forall>a\<in>set as. db_heap db a \<noteq> None
    \<Longrightarrow> \<exists>es. each gatt_db_service_destroy as db = Some (log_db es (db\<lparr>db_heap := (db_heap db) |` (- set as)\<rparr>))"
proof (induction as arbitrary: db)
  case Nil
  have "db = log_db [] db" by (simp add: log_db_def)
  then show ?case by (auto simp: restrict_map_def)
next
  case (Cons a as)
  obtain s where s: "db_heap db a = Some s" using Cons.prems(3) by auto
  obtain es where es: "gatt_db_service_destroy a db = Some (log_db es (db\<lparr>db_heap := (db_heap db)(a := None)\<rparr>))"
    using service_destroy_ok [OF Cons.prems(2) s] by blast
  let ?db = "log_db es (db\<lparr>db_heap := (db_heap db)(a := None)\<rparr>)"
  have "distinct as" "notifies_ok ?db" "\<forall>b\<in>set as. db_heap ?db b \<noteq> None"
    using Cons.prems by (simp_all add: log_db_def notifies_ok_def) auto
  from Cons.IH [OF this] obtain fs where fs: "each gatt_db_service_destroy as ?db = Some (log_db fs (?db\<lparr>db_heap := (db_heap ?db) |` (- set as)\<rparr>))" by blast
  have "(db_heap db)(a := None) |` (- set as) = (db_heap db) |` (- set (a # as))" by (auto simp: restrict_map_def)
  then have "log_db fs (?db\<lparr>db_heap := (db_heap ?db) |` (- set as)\<rparr>) = log_db (es @ fs) (db\<lparr>db_heap := (db_heap db) |` (- set (a # as))\<rparr>)"
    by (simp add: log_db_def)
  then show ?case using es fs by (auto intro!: exI [of _ "es @ fs"])
qed

lemma remove_one_ok:
  assumes has: "db_has db ss" and s: "db_heap db a = Some s"
  shows "\<exists>es. gatt_db_service_destroy a (db\<lparr>db_services := remove1 a (db_services db)\<rparr>)
      = Some (log_db es (db\<lparr>db_services := filter (\<lambda>b. b \<noteq> a) (db_services db), db_heap := (db_heap db) |` {b. b \<noteq> a}\<rparr>))"
proof -
  have "distinct (db_services db)" using has by (simp add: db_has_def)
  then have rm: "remove1 a (db_services db) = filter (\<lambda>b. b \<noteq> a) (db_services db)"
    by (simp add: distinct_remove1_removeAll removeAll_filter_not_eq) (metis (no_types, lifting))
  have "notifies_ok (db\<lparr>db_services := remove1 a (db_services db)\<rparr>)" using has by (simp add: db_has_def notifies_ok_def)
  from service_destroy_ok [OF this, of a s] s obtain es where
    "gatt_db_service_destroy a (db\<lparr>db_services := remove1 a (db_services db)\<rparr>)
      = Some (log_db es (db\<lparr>db_services := remove1 a (db_services db), db_heap := (db_heap db)(a := None)\<rparr>))" by auto
  moreover have "(db_heap db)(a := None) = (db_heap db) |` {b. b \<noteq> a}" by (auto simp: restrict_map_def)
  ultimately show ?thesis by (auto simp: rm)
qed

lemma remove_one_has:
  assumes has: "db_has db ss" and s: "db_heap db a = Some s"
  shows "\<exists>db'. gatt_db_service_destroy a (db\<lparr>db_services := remove1 a (db_services db)\<rparr>) = Some db'
      \<and> db_has db' (filter (\<lambda>e. fst e \<noteq> a) ss) \<and> db_services db' = filter (\<lambda>b. b \<noteq> a) (db_services db)"
proof -
  obtain es where es: "gatt_db_service_destroy a (db\<lparr>db_services := remove1 a (db_services db)\<rparr>)
      = Some (log_db es (db\<lparr>db_services := filter (\<lambda>b. b \<noteq> a) (db_services db), db_heap := (db_heap db) |` {b. b \<noteq> a}\<rparr>))"
    using remove_one_ok [OF has s] by blast
  have "db_has (db\<lparr>db_services := filter (\<lambda>b. b \<noteq> a) (db_services db), db_heap := (db_heap db) |` {b. b \<noteq> a}\<rparr>) (filter (\<lambda>e. fst e \<noteq> a) ss)"
    using db_has_filter [OF has, of "\<lambda>b. b \<noteq> a"] by (simp add: comp_def)
  then show ?thesis unfolding es by (intro exI [of _ "log_db es (db\<lparr>db_services := filter (\<lambda>b. b \<noteq> a) (db_services db), db_heap := (db_heap db) |` {b. b \<noteq> a}\<rparr>)"])
      (simp, simp add: log_db_def)
qed

lemma remove_service_wf:
  assumes has: "db_has db ss" and r: "get_attr db r = Some x"
  shows "\<exists>db'. gatt_db_remove_service r db = Some db' \<and> db_has db' (filter (\<lambda>e. fst e \<noteq> fst r) ss)"
proof -
  obtain s where s: "db_heap db (fst r) = Some s" using r by (cases "db_heap db (fst r)") (auto simp: get_attr_def)
  show ?thesis using remove_one_has [OF has s] r by (auto simp: gatt_db_remove_service_def)
qed

lemma clear_wf:
  assumes has: "db_has db ss"
  shows "\<exists>db'. gatt_db_clear db = Some db' \<and> db_has db' []"
proof -
  let ?db = "db\<lparr>db_services := []\<rparr>"
  have facts: "distinct (db_services db)" "notifies_ok ?db" "\<forall>a\<in>set (db_services db). db_heap ?db a \<noteq> None" "dom (db_heap db) = set (db_services db)"
    using has by (auto simp: db_has_def notifies_ok_def simp flip: set_map)
  obtain es where es: "each gatt_db_service_destroy (db_services db) ?db = Some (log_db es (?db\<lparr>db_heap := (db_heap ?db) |` (- set (db_services db))\<rparr>))"
    using each_destroy_ok [OF facts(1-3)] by blast
  have "(db_heap db) |` (- set (db_services db)) = Map.empty" using facts(4) by (auto simp: restrict_map_def fun_eq_iff dom_def)
  then show ?thesis using es facts(2) by (auto simp: gatt_db_clear_def db_has_def notifies_ok_def log_db_def)
qed

definition hit :: "u16 \<Rightarrow> u16 \<Rightarrow> gatt_db_service \<Rightarrow> bool" where
  "hit start stop s \<longleftrightarrow> svc_start s \<le> unat stop \<and> unat start \<le> svc_end s"

lemma match_range_wf: "wf_service s \<Longrightarrow> match_range start stop s = Some (hit start stop s)"
  by (auto simp: wf_service_def match_range_def svc_handles hit_def word_le_nat_alt svc_start_eq)

lemma remove_in_range_has:
  "db_has db ss \<Longrightarrow> distinct as \<Longrightarrow> set as \<subseteq> set (db_services db)
    \<Longrightarrow> \<exists>db'. remove_in_range start stop as db = Some db' \<and> db_has db' (filter (\<lambda>e. \<not> (fst e \<in> set as \<and> hit start stop (snd e))) ss)"
proof (induction as arbitrary: db ss)
  case (Cons a as)
  have "a \<in> fst ` set ss" using Cons.prems(1,3) by (auto simp: db_has_def simp flip: set_map)
  then obtain s where s: "(a, s) \<in> set ss" by auto
  then have heap: "db_heap db a = Some s" using db_has_lookup [OF Cons.prems(1)] by simp
  have uniq: "e \<in> set ss \<Longrightarrow> fst e = a \<Longrightarrow> snd e = s" for e using heap Cons.prems(1) by (auto simp: db_has_def)
  note m = match_range_wf [OF db_has_wf(1) [OF Cons.prems(1) heap], of start stop]
  show ?case
  proof (cases "hit start stop s")
    case True
    let ?ss = "filter (\<lambda>e. fst e \<noteq> a) ss"
    obtain db1 where db1: "gatt_db_service_destroy a (db\<lparr>db_services := remove1 a (db_services db)\<rparr>) = Some db1" "db_has db1 ?ss"
      "db_services db1 = filter (\<lambda>b. b \<noteq> a) (db_services db)"
      using remove_one_has [OF Cons.prems(1) heap] by blast
    have "distinct as" "set as \<subseteq> set (db_services db1)" using Cons.prems(2,3) by (auto simp: db1(3))
    from Cons.IH [OF db1(2) this] obtain db2 where db2: "remove_in_range start stop as db1 = Some db2"
      "db_has db2 (filter (\<lambda>e. \<not> (fst e \<in> set as \<and> hit start stop (snd e))) ?ss)" by blast
    have "filter (\<lambda>e. \<not> (fst e \<in> set as \<and> hit start stop (snd e))) ?ss = filter (\<lambda>e. \<not> (fst e \<in> set (a # as) \<and> hit start stop (snd e))) ss"
      using uniq True by (auto intro!: filter_cong)
    with db2 db1(1) True m heap show ?thesis by simp
  next
    case False
    have "filter (\<lambda>e. \<not> (fst e \<in> set as \<and> hit start stop (snd e))) ss = filter (\<lambda>e. \<not> (fst e \<in> set (a # as) \<and> hit start stop (snd e))) ss"
      using uniq False by (auto intro!: filter_cong)
    with Cons.IH [OF Cons.prems(1)] Cons.prems(2,3) False m heap show ?thesis by auto
  qed
qed simp

lemma clear_range_has:
  assumes has: "db_has db ss" and range: "start \<le> stop"
  shows "\<exists>db'. gatt_db_clear_range start stop db = Some (True, db') \<and> db_has db' (filter (\<lambda>e. \<not> hit start stop (snd e)) ss)"
proof -
  have "distinct (db_services db)" "set (db_services db) \<subseteq> set (db_services db)" using has by (simp_all add: db_has_def)
  from remove_in_range_has [OF has this, of start stop] obtain db' where db': "remove_in_range start stop (db_services db) db = Some db'"
    "db_has db' (filter (\<lambda>e. \<not> (fst e \<in> set (db_services db) \<and> hit start stop (snd e))) ss)" by blast
  have "filter (\<lambda>e. \<not> (fst e \<in> set (db_services db) \<and> hit start stop (snd e))) ss = filter (\<lambda>e. \<not> hit start stop (snd e)) ss"
    using db_has_mem [OF has] by (intro filter_cong refl) blast
  with db' range show ?thesis by (auto simp: gatt_db_clear_range_def)
qed

section \<open>Inserting services\<close>

text \<open>The range asked for does not enclose a service; \<open>find_insert_loc\<close> does not look for that.\<close>

definition encloses :: "nat \<Rightarrow> nat \<Rightarrow> gatt_db_service \<Rightarrow> bool" where
  "encloses start stop s \<longleftrightarrow> start < svc_start s \<and> svc_end s < stop"

definition last_of :: "(addr \<times> gatt_db_service) list \<Rightarrow> ptr" where
  "last_of es = (if es = [] then None else Some (fst (last es)))"

lemma find_insert_loc_has:
  "db_has db ss \<Longrightarrow> ss = pre @ rest \<Longrightarrow> start \<le> stop \<Longrightarrow> \<forall>e\<in>set ss. \<not> encloses (unat start) (unat stop) (snd e)
    \<Longrightarrow> \<forall>e\<in>set pre. svc_end (snd e) < unat start
    \<Longrightarrow> (\<exists>a s after. find_insert_loc db start stop (map fst rest) (last_of pre) = Some (Some a, after) \<and> db_heap db a = Some s
          \<and> svc_start s \<le> unat stop \<and> unat start \<le> svc_end s)
      \<or> (\<exists>pre' post. ss = pre' @ post \<and> find_insert_loc db start stop (map fst rest) (last_of pre) = Some (None, last_of pre')
          \<and> (\<forall>e\<in>set pre'. svc_end (snd e) < unat start) \<and> (\<forall>e\<in>set post. unat stop < svc_start (snd e)))"
proof (induction rest arbitrary: pre)
  case (Cons e rest)
  obtain a s where e: "e = (a, s)" by (cases e)
  have heap: "db_heap db a = Some s" using Cons.prems(1,2) by (simp add: db_has_lookup e)
  obtain xs where svc: "service_is s xs" using db_has_wf(1) [OF Cons.prems(1) heap] by (auto simp: wf_service_def)
  define c where "c = at_handle (hd xs) + sv_num_handles s - 1"
  note hs = svc_handles(1) [OF svc, folded c_def]
  have st: "unat (at_handle (hd xs)) = svc_start s" "unat c = svc_end s" "svc_start s \<le> svc_end s"
    using svc_start_eq [OF svc] svc_handles(2) [OF svc] svc_end_eq(2) [OF svc] by (simp_all add: c_def)
  have le: "unat start \<le> unat stop" using Cons.prems(3) by (simp add: word_le_nat_alt)
  have enc: "\<not> encloses (unat start) (unat stop) s" using Cons.prems(2,4) by (simp add: e)
  consider "svc_start s \<le> unat stop \<and> unat start \<le> svc_end s" | "unat stop < svc_start s" | "svc_end s < unat start" using st(3) by linarith
  then show ?case
  proof cases
    case 1
    then have "svc_start s \<le> unat start \<and> unat start \<le> svc_end s \<or> svc_start s \<le> unat stop \<and> unat stop \<le> svc_end s"
      using enc by (auto simp: encloses_def)
    then show ?thesis using 1 heap hs st by (auto simp: e word_le_nat_alt)
  next
    case 2
    have "\<forall>f\<in>set (e # rest). unat stop < svc_start (snd f)"
      using 2 Cons.prems(1,2) st(3) by (auto simp: e db_has_def sorted_wrt_append)
    moreover have "find_insert_loc db start stop (map fst (e # rest)) (last_of pre) = Some (None, last_of pre)"
      using 2 heap hs st le by (auto simp: e word_le_nat_alt word_less_nat_alt)
    ultimately show ?thesis using Cons.prems(2,5) by blast
  next
    case 3
    have "find_insert_loc db start stop (map fst (e # rest)) (last_of pre) = find_insert_loc db start stop (map fst rest) (last_of (pre @ [e]))"
      using 3 heap hs st le by (auto simp: e word_le_nat_alt word_less_nat_alt last_of_def)
    then show ?thesis using Cons.IH [of "pre @ [e]"] Cons.prems 3 by (simp add: e)
  qed
next
  case Nil
  then show ?case by (intro disjI2 exI [of _ pre] exI [of _ "[]"]) simp
qed

definition range_free :: "gatt_db \<Rightarrow> u16 \<Rightarrow> u16 \<Rightarrow> bool" where
  "range_free db handle n \<longleftrightarrow> (\<forall>a\<in>set (db_services db). case db_heap db a of None \<Rightarrow> True
     | Some s \<Rightarrow> \<not> encloses (unat handle) (unat handle + unat n - 1) s)"

lemma service_create_ok:
  assumes u: "uuid_given uuid" and n: "1 \<le> n"
  shows "gatt_db_service_create mem uuid handle primary n = Some None
    \<or> (\<exists>x. gatt_db_service_create mem uuid handle primary n = Some (Some \<lparr>sv_active = False, sv_claimed = False, sv_num_handles = 0,
           sv_attributes = (replicate (unat n) None)[0 := Some x]\<rparr>) \<and> declares_service x \<and> wf_attribute x)"
proof -
  obtain bs where bs: "uuid_to_le uuid = Some bs" "length bs = 2 \<or> length bs = 16" by (rule uuid_to_le_given [OF u])
  have "declares_service x \<and> wf_attribute x" if "new_attribute mem handle (service_type primary) bs = Some x" for x
    using that bs(2) by (auto simp: new_attribute_def declares_service_def wf_attribute_def service_type_def split: if_splits)
  then show ?thesis using n bs(1) by (cases "new_attribute mem handle (service_type primary) bs") (auto simp: gatt_db_service_create_def)
qed

lemma single_service:
  assumes "declares_service x" "wf_attribute x" "0 < handle" "0 < n" "unat handle + unat n \<le> 65536"
  shows "service_is (s\<lparr>sv_attributes := (replicate (unat n) None)[0 := Some (x\<lparr>at_handle := handle\<rparr>)], sv_num_handles := n\<rparr>) [x\<lparr>at_handle := handle\<rparr>]"
proof -
  obtain m where m: "unat n = Suc m" using assms(4) by (cases "unat n") (auto simp: word_less_nat_alt)
  show ?thesis using assms m by (auto simp: service_is_def declares_service_def wf_attribute_def)
qed

lemma service_matches_ok:
  assumes svc: "wf_service s" and u: "uuid_given uuid"
  shows "\<exists>b. service_matches s handle uuid primary n = Some b \<and> (b \<longrightarrow> svc_start s = unat handle \<and> sv_num_handles s = n)"
proof -
  obtain xs where xs: "service_is s xs" using svc by (auto simp: wf_service_def)
  obtain v where v: "service_uuid s = Some (Inr v)" "uuid_given v" using svc_uuid [OF xs] by blast
  obtain c where c: "bt_uuid_cmp v uuid = Some c" using uuid_given_cmp [OF v(2) u] by blast
  have "uuid_given (at_uuid (hd xs))" "uuid_given (service_type primary)" using svc_facts(7) [OF xs] by (auto simp: declares_service_def service_type_def)
  then obtain d where d: "bt_uuid_cmp (at_uuid (hd xs)) (service_type primary) = Some d" using uuid_given_cmp by blast
  show ?thesis using c d v(1) svc_first(1) [OF xs] svc_start_eq [OF xs] by (auto simp: service_matches_def cmp_uuid_def)
qed

lemma insert_entry_after_last:
  assumes "distinct (map fst (pre @ post))" "pre \<noteq> []"
  shows "insert_entry_after (fst (last pre)) a (map fst (pre @ post)) = map fst pre @ a # map fst post"
proof -
  obtain pre' e where pre: "pre = pre' @ [e]" using assms(2) by (cases pre rule: rev_cases) auto
  have "\<forall>x\<in>set (map fst pre'). x \<noteq> fst e" using assms(1) by (auto simp: pre image_iff)
  then have "takeWhile (\<lambda>y. y \<noteq> fst e) (map fst (pre @ post)) = map fst pre'" "dropWhile (\<lambda>y. y \<noteq> fst e) (map fst (pre @ post)) = fst e # map fst post"
    by (auto simp: pre takeWhile_append dropWhile_append)
  then show ?thesis by (simp add: insert_entry_after_def pre)
qed

lemma insert_queue:
  assumes has: "db_has db (pre @ post)"
  shows "(case last_of pre of Some p \<Rightarrow> insert_entry_after p a (db_services db) | None \<Rightarrow> a # db_services db) = map fst pre @ a # map fst post"
proof -
  have eq: "db_services db = map fst (pre @ post)" "distinct (map fst (pre @ post))" using has unfolding db_has_def by metis+
  show ?thesis using insert_entry_after_last [OF eq(2)] by (auto simp: last_of_def eq(1) simp del: map_append)
qed

lemma insert_has:
  assumes has: "db_has db (pre @ post)" and svc: "wf_service s"
    and pre: "\<forall>e\<in>set pre. svc_end (snd e) < svc_start s" and post: "\<forall>e\<in>set post. svc_end s < svc_start (snd e)"
  shows "db_has ((put_service (db_addr db) s db)\<lparr>db_services := map fst pre @ db_addr db # map fst post, db_addr := db_addr db + 1, db_next_handle := h\<rparr>)
      (pre @ (db_addr db, s) # post)"
proof -
  have d: "distinct (map fst (pre @ post))" using has unfolding db_has_def by metis
  have fresh: "\<forall>e\<in>set pre \<union> set post. fst e < db_addr db" using has by (auto simp: db_has_def)
  have new: "\<forall>a\<in>set (map fst pre) \<union> set (map fst post). a < db_addr db" using fresh by auto
  have "distinct (map fst pre @ db_addr db # map fst post)" using d new by (auto simp: less_le)
  moreover have "svc_end (snd e) < svc_start (snd f)" if "e \<in> set pre" "f \<in> set post" for e f
    using that has by (auto simp: db_has_def sorted_wrt_append)
  moreover have "(db_heap (put_service (db_addr db) s db)) (fst e) = Some (snd e) \<and> wf_service (snd e) \<and> fst e < db_addr db + 1"
    if "e \<in> set (pre @ (db_addr db, s) # post)" for e
  proof (cases "e = (db_addr db, s)")
    case False
    then have "e \<in> set pre \<union> set post" using that by auto
    then have "db_heap db (fst e) = Some (snd e)" "wf_service (snd e)" "fst e < db_addr db" using has by (auto simp: db_has_def)
    then show ?thesis by (simp add: put_service_def)
  qed (simp add: put_service_def svc)
  moreover have "sorted_wrt (\<lambda>e f. svc_end (snd e) < svc_start (snd f)) (pre @ (db_addr db, s) # post)"
    using has pre post by (auto simp: db_has_def sorted_wrt_append)
  moreover have "dom ((db_heap db)(db_addr db \<mapsto> s)) = fst ` set (pre @ (db_addr db, s) # post)" using has by (auto simp: db_has_def)
  ultimately show ?thesis using has by (simp add: db_has_def put_service_def notifies_ok_def)
qed

lemma insert_service_has:
  assumes has: "db_has db ss" and u: "uuid_given uuid" and free: "range_free db handle n"
  shows "\<exists>r db'. gatt_db_insert_service mem handle uuid primary n db = Some (r, db') \<and>
     (db' = db \<and> (\<forall>q. r = Some q \<longrightarrow> (\<exists>s. (fst q, s) \<in> set ss \<and> snd q = 0 \<and> svc_start s = unat handle \<and> sv_num_handles s = n))
      \<or> (\<exists>pre post s. r = Some (db_addr db, 0) \<and> ss = pre @ post \<and> db_has db' (pre @ (db_addr db, s) # post)
          \<and> svc_start s = unat handle \<and> sv_num_handles s = n))"
proof (cases "handle < 1 \<or> n < 1 \<or> 0xffff < unat handle + unat n - 1")
  case True
  then show ?thesis by (auto simp: gatt_db_insert_service_def)
next
  case False
  then have ok: "\<not> handle < 1" "\<not> (n < 1 \<or> 0xffff < unat handle + unat n - 1)" by simp_all
  define stop where "stop = handle + n - 1"
  have pos: "0 < unat handle" "0 < unat n" using ok by (auto simp: word_less_nat_alt)
  have "stop = of_nat (unat handle + unat n - 1)" using pos by (simp add: stop_def of_nat_diff)
  then have stop: "unat stop = unat handle + unat n - 1" using ok(2) by (simp add: unat_of_nat)
  have le: "handle \<le> stop" using stop pos by (simp add: word_le_nat_alt)
  have enc: "\<forall>e\<in>set ss. \<not> encloses (unat handle) (unat stop) (snd e)"
  proof
    fix e assume e: "e \<in> set ss"
    then have "fst e \<in> set (db_services db)" "db_heap db (fst e) = Some (snd e)" using db_has_mem [OF has] has by (auto simp: db_has_def)
    then show "\<not> encloses (unat handle) (unat stop) (snd e)" using free by (auto simp: range_free_def stop)
  qed
  have eq: "db_services db = map fst ss" using has by (simp add: db_has_def)
  have "ss = [] @ ss" by simp
  from find_insert_loc_has [OF has this le enc] consider
      (busy) a s after where "find_insert_loc db handle stop (db_services db) None = Some (Some a, after)" "db_heap db a = Some s"
    | (free) pre post where "ss = pre @ post" "find_insert_loc db handle stop (db_services db) None = Some (None, last_of pre)"
        "\<forall>e\<in>set pre. svc_end (snd e) < unat handle" "\<forall>e\<in>set post. unat stop < svc_start (snd e)"
    by (auto simp: eq last_of_def)
  then show ?thesis
  proof cases
    case busy
    obtain b where "service_matches s handle uuid primary n = Some b" "b \<longrightarrow> svc_start s = unat handle \<and> sv_num_handles s = n"
      using service_matches_ok [OF db_has_wf(1) [OF has busy(2)] u] by blast
    moreover have "(a, s) \<in> set ss" using busy(2) by (simp add: db_has_lookup [OF has])
    ultimately show ?thesis using busy ok by (auto simp: gatt_db_insert_service_def stop_def [symmetric])
  next
    case free
    have n: "1 \<le> n" using pos(2) by (simp add: word_le_nat_alt)
    from service_create_ok [OF u n, where mem = mem and handle = handle and primary = primary] show ?thesis
    proof (elim disjE exE conjE)
      assume "gatt_db_service_create mem uuid handle primary n = Some None"
      then show ?thesis using free ok by (auto simp: gatt_db_insert_service_def stop_def [symmetric])
    next
      fix x assume x: "gatt_db_service_create mem uuid handle primary n = Some (Some \<lparr>sv_active = False, sv_claimed = False, sv_num_handles = 0,
           sv_attributes = (replicate (unat n) None)[0 := Some x]\<rparr>)" "declares_service x" "wf_attribute x"
      define s where "s = \<lparr>sv_active = False, sv_claimed = False, sv_num_handles = n, sv_attributes = (replicate (unat n) None)[0 := Some (x\<lparr>at_handle := handle\<rparr>)]\<rparr>"
      have svc: "service_is s [x\<lparr>at_handle := handle\<rparr>]"
        using single_service [OF x(2,3), where handle = handle and n = n and s = s] pos ok(2) by (simp add: s_def word_less_nat_alt)
      have st: "svc_start s = unat handle" "svc_end s = unat stop" using svc_start_eq [OF svc] by (simp_all add: svc_end_def stop s_def)
      have run: "gatt_db_insert_service mem handle uuid primary n db = Some (Some (db_addr db, 0), (put_service (db_addr db) s db)
          \<lparr>db_services := map fst pre @ db_addr db # map fst post, db_addr := db_addr db + 1,
            db_next_handle := of_nat (max (unat handle + unat n) (unat (db_next_handle db)))\<rparr>)"
        using free(2) ok pos x(1) insert_queue [OF has [unfolded free(1)], of "db_addr db"]
        by (simp add: gatt_db_insert_service_def stop_def [symmetric] attribute_at_def s_def Let_def)
      have "wf_service s" using svc by (auto simp: wf_service_def)
      moreover have "\<forall>e\<in>set pre. svc_end (snd e) < svc_start s" "\<forall>e\<in>set post. svc_end s < svc_start (snd e)"
        using free(3,4) st by simp_all
      ultimately have has': "db_has ((put_service (db_addr db) s db)\<lparr>db_services := map fst pre @ db_addr db # map fst post, db_addr := db_addr db + 1,
            db_next_handle := of_nat (max (unat handle + unat n) (unat (db_next_handle db)))\<rparr>) (pre @ (db_addr db, s) # post)"
        by (rule insert_has [OF has [unfolded free(1)]])
      have num: "sv_num_handles s = n" by (simp add: s_def)
      show ?thesis
        by (rule exI, rule exI, rule conjI, rule run, rule disjI2, rule exI [of _ pre], rule exI [of _ post], rule exI [of _ s])
          (simp add: has' [simplified] st num free(1))
    qed
  qed
qed

section \<open>Filling services\<close>

definition used :: "gatt_db_service \<Rightarrow> nat" where
  "used s = length (filter (\<lambda>x. x \<noteq> None) (sv_attributes s))"

definition last_handle :: "gatt_db_service \<Rightarrow> nat" where
  "last_handle s = unat (at_handle (the (last (filter (\<lambda>x. x \<noteq> None) (sv_attributes s)))))"

text \<open>The handles that a characteristic with the value handle \<open>h\<close>, or a descriptor or an include at \<open>h\<close>, takes fit into the
  service behind what it has; a call that finds no room in the array, or whose handle is not behind the declaration, is refused.\<close>

definition char_fits :: "gatt_db_service \<Rightarrow> nat \<Rightarrow> bool" where
  "char_fits s h \<longleftrightarrow> unat (sv_num_handles s) \<le> used s + 1 \<or> last_handle s + 2 \<le> h \<and> h \<le> svc_end s"

definition attr_fits :: "gatt_db_service \<Rightarrow> nat \<Rightarrow> bool" where
  "attr_fits s h \<longleftrightarrow> unat (sv_num_handles s) \<le> used s \<or> last_handle s + 1 \<le> h \<and> h \<le> svc_end s"

lemma svc_used:
  assumes svc: "service_is s xs"
  shows "used s = length xs" "last_handle s = unat (at_handle (last xs))"
proof -
  have "filter (\<lambda>x. x \<noteq> None) (sv_attributes s) = map Some xs" using svc by (simp add: service_is_def filter_map comp_def)
  then show "used s = length xs" "last_handle s = unat (at_handle (last xs))" using svc_facts(1) [OF svc] by (simp_all add: used_def last_handle_def last_map)
qed

lemma svc_get_handle:
  assumes svc: "service_is s xs" and i: "i < length xs"
  shows "get_handle_at_index s i = Some (at_handle (xs ! i))"
  using svc_nth(1) [OF svc i] i svc_facts(2,3) [OF svc] by (simp add: get_handle_at_index_def attribute_at_def)

lemma svc_extend:
  assumes svc: "service_is s xs" and room: "length xs + length ys \<le> unat (sv_num_handles s)"
    and ys: "\<forall>y\<in>set ys. wf_attribute y \<and> last_handle s < unat (at_handle y) \<and> unat (at_handle y) \<le> svc_end s"
      "sorted_wrt (\<lambda>x y. at_handle x < at_handle y) ys"
  shows "service_is (s\<lparr>sv_attributes := map Some (xs @ ys) @ replicate (unat (sv_num_handles s) - length xs - length ys) None\<rparr>) (xs @ ys)"
proof -
  have le: "at_handle x \<le> at_handle (last xs)" if x: "x \<in> set xs" for x
  proof -
    obtain i where "i < length xs" "x = xs ! i" using x by (auto simp: in_set_conv_nth)
    then show ?thesis using svc_handle_mono [OF svc, of i "length xs - 1"] svc_facts(1) [OF svc]
      by (cases "i = length xs - 1") (auto simp: last_conv_nth intro: order_less_imp_le)
  qed
  have "\<forall>x\<in>set xs. \<forall>y\<in>set ys. at_handle x < at_handle y"
    using ys(1) le by (auto simp: svc_used [OF svc] word_less_nat_alt word_le_nat_alt intro: le_less_trans)
  moreover have "unat (at_handle (last (xs @ ys))) < unat (at_handle (hd xs)) + unat (sv_num_handles s)"
  proof (cases "ys = []")
    case False
    then have "unat (at_handle (last ys)) \<le> svc_end s" using ys(1) by simp
    then show ?thesis using False svc_facts [OF svc] svc_end_eq(1) [OF svc] by (simp add: word_less_nat_alt)
  qed (use svc in \<open>simp add: service_is_def\<close>)
  ultimately show ?thesis using svc room ys by (auto simp: service_is_def sorted_wrt_append hd_append)
qed

text \<open>The operations keep the range of the service: what is in place of the old service has the same handles.\<close>

definition same_range :: "gatt_db_service \<Rightarrow> gatt_db_service \<Rightarrow> bool" where
  "same_range s' s \<longleftrightarrow> wf_service s' \<and> svc_start s' = svc_start s \<and> svc_end s' = svc_end s"

lemma same_rangeI:
  assumes svc: "service_is s xs" and svc': "service_is s' xs'" and eq: "at_handle (hd xs') = at_handle (hd xs)" "sv_num_handles s' = sv_num_handles s"
  shows "same_range s' s"
  using svc' eq svc_start_eq [OF svc] svc_start_eq [OF svc'] by (auto simp: same_range_def wf_service_def svc_end_def)

lemma same_range_refl: "wf_service s \<Longrightarrow> same_range s s"
  by (simp add: same_range_def)

lemma svc_extend_same:
  assumes svc: "service_is s xs" and room: "length xs + length ys \<le> unat (sv_num_handles s)"
    and ys: "\<forall>y\<in>set ys. wf_attribute y \<and> last_handle s < unat (at_handle y) \<and> unat (at_handle y) \<le> svc_end s"
      "sorted_wrt (\<lambda>x y. at_handle x < at_handle y) ys"
  shows "same_range (s\<lparr>sv_attributes := map Some (xs @ ys) @ replicate (unat (sv_num_handles s) - length xs - length ys) None\<rparr>) s"
  by (rule same_rangeI [OF svc svc_extend [OF svc room ys]]) (use svc_facts(1) [OF svc] in simp_all)

lemma replicate_update: "0 < k \<Longrightarrow> (map Some xs @ replicate k None)[length xs := Some y] = map Some (xs @ [y]) @ replicate (k - 1) None"
  by (cases k) (simp_all add: list_update_append)

lemma set_free_attribute:
  assumes svc: "service_is s xs" and room: "length xs < unat (sv_num_handles s)"
  shows "set_attribute (length xs) None s = Some s"
    "set_attribute (length xs) (Some y) s = Some (s\<lparr>sv_attributes := map Some (xs @ [y]) @ replicate (unat (sv_num_handles s) - length xs - 1) None\<rparr>)"
proof -
  have att: "sv_attributes s = map Some xs @ replicate (unat (sv_num_handles s) - length xs) None" using svc by (simp add: service_is_def)
  have len: "length xs < length (sv_attributes s)" using room svc_facts(3) [OF svc] by simp
  have "sv_attributes s ! length xs = None" using svc_nth(2) [OF svc] room by simp
  then have "(sv_attributes s)[length xs := None] = sv_attributes s" by (metis list_update_id)
  then show "set_attribute (length xs) None s = Some s" using len by (simp add: set_attribute_def)
  show "set_attribute (length xs) (Some y) s = Some (s\<lparr>sv_attributes := map Some (xs @ [y]) @ replicate (unat (sv_num_handles s) - length xs - 1) None\<rparr>)"
    using len room replicate_update [where xs = xs and y = y and k = "unat (sv_num_handles s) - length xs"] by (simp add: set_attribute_def att)
qed

lemma word_of_sum: "unat (h :: u16) + k < 65536 \<Longrightarrow> unat (h + of_nat k) = unat h + k"
  by (simp add: unat_word_ariths unat_of_nat)

lemma new_attribute_wf:
  "new_attribute mem h u val = Some x \<Longrightarrow> uuid_given u \<Longrightarrow> length val < 65536 \<Longrightarrow> wf_attribute (set_attribute_data x rf wr p d) \<and> wf_attribute x \<and> at_handle x = h"
  by (auto simp: new_attribute_def wf_attribute_def set_attribute_data_def unat_of_nat split: if_splits)

lemma set_attribute_data_fields [simp]:
  "at_handle (set_attribute_data x rf wr p d) = at_handle x" "at_uuid (set_attribute_data x rf wr p d) = at_uuid x"
  "at_value (set_attribute_data x rf wr p d) = at_value x" "at_value_len (set_attribute_data x rf wr p d) = at_value_len x"
  by (simp_all add: set_attribute_data_def)

lemma insert_characteristic_ok:
  assumes svc: "service_is s xs" and u: "uuid_given uuid"
    and fits: "if handle = 0 then char_fits s (last_handle s + 2) else unat handle \<le> svc_start s \<or> char_fits s (unat handle)"
  shows "service_insert_characteristic mem handle uuid permissions properties rf wr ud s = Some (None, s)
    \<or> (\<exists>s' decl val le h. service_insert_characteristic mem handle uuid permissions properties rf wr ud s = Some (Some (length xs + 1), s')
        \<and> same_range s' s \<and> service_is s' (xs @ [decl, val]) \<and> uuid_to_le uuid = Some le \<and> new_attribute mem (h - 1) characteristic_uuid ([properties] @ le16 h @ le) = Some decl
        \<and> at_handle val = h \<and> unat h = (if handle = 0 then last_handle s + 2 else unat handle))"
proof (cases "handle \<noteq> 0 \<and> handle \<le> at_handle (hd xs) \<or> handle = 0xffff \<or> unat (sv_num_handles s) - 1 \<le> length xs")
  case True
  have "get_handle_at_index s 0 = Some (at_handle (hd xs))" using svc_first [OF svc] by (simp add: get_handle_at_index_def)
  then show ?thesis using True svc_free_index(2) [OF svc] by (auto simp: service_insert_characteristic_def)
next
  case False
  define h where "h = (if handle = 0 then at_handle (last xs) + 2 else handle)"
  have room: "length xs + 1 < unat (sv_num_handles s)" using False by auto
  have h0: "get_handle_at_index s 0 = Some (at_handle (hd xs))" using svc_first [OF svc] by (simp add: get_handle_at_index_def)
  have prev: "get_handle_at_index s (length xs - 1) = Some (at_handle (last xs))"
    using svc_get_handle [OF svc, of "length xs - 1"] svc_facts(1) [OF svc] by (simp add: last_conv_nth)
  have idx: "get_attribute_index s 1 = length xs" "length xs \<noteq> 0" using svc_free_index(2) [OF svc] False svc_facts(1) [OF svc] by auto
  have rng: "last_handle s + 2 \<le> (if handle = 0 then last_handle s + 2 else unat handle)" "(if handle = 0 then last_handle s + 2 else unat handle) \<le> svc_end s"
    using fits False room by (auto simp: char_fits_def svc_used [OF svc] svc_start_eq [OF svc] word_le_nat_alt)
  have h: "unat h = (if handle = 0 then last_handle s + 2 else unat handle)"
    using rng(2) svc_end_eq(3) [OF svc] word_of_sum [of "at_handle (last xs)" 2] by (auto simp: h_def svc_used [OF svc])
  have h1: "unat (h - 1) = unat h - 1" using rng(1) h by (intro unat_minus_one) auto
  obtain le where le: "uuid_to_le uuid = Some le" "length le = 2 \<or> length le = 16" by (rule uuid_to_le_given [OF u])
  let ?decl = "new_attribute mem (h - 1) characteristic_uuid ([properties] @ le16 h @ le)"
  obtain v where v: "new_attribute mem h uuid [] = Some v" by (simp add: new_attribute_def)
  let ?val = "set_attribute_data v rf wr permissions ud"
  note start = service_insert_characteristic_def h0 idx idx(1) [simplified] prev prev [simplified] le(1) svc_facts(1) [OF svc] Let_def h_def [symmetric]
  show ?thesis
  proof (cases ?decl)
    case None
    then have "service_insert_characteristic mem handle uuid permissions properties rf wr ud s = Some (None, s)"
      using False set_free_attribute(1) [OF svc] room by (simp add: start)
    then show ?thesis by simp
  next
    case (Some decl)
    have wfs: "wf_attribute decl" "at_handle decl = h - 1" "wf_attribute ?val" "at_handle ?val = h"
      using new_attribute_wf [OF Some] new_attribute_wf [OF v u] le(2) by auto
    let ?s1 = "s\<lparr>sv_attributes := map Some (xs @ [decl]) @ replicate (unat (sv_num_handles s) - length xs - 1) None\<rparr>"
    let ?s2 = "s\<lparr>sv_attributes := map Some (xs @ [decl, ?val]) @ replicate (unat (sv_num_handles s) - length xs - length [decl, ?val]) None\<rparr>"
    have s1: "set_attribute (length xs) (Some decl) s = Some ?s1" using set_free_attribute(2) [OF svc] room by simp
    have "(map Some (xs @ [decl]) @ replicate (unat (sv_num_handles s) - length xs - 1) None)[length (xs @ [decl]) := Some ?val]
        = map Some ((xs @ [decl]) @ [?val]) @ replicate (unat (sv_num_handles s) - length xs - 1 - 1) None"
      by (rule replicate_update) (use room in simp)
    then have s2: "set_attribute (length xs + 1) (Some ?val) ?s1 = Some ?s2" using room by (simp add: set_attribute_def)
    have run: "service_insert_characteristic mem handle uuid permissions properties rf wr ud s = Some (Some (length xs + 1), ?s2)"
      using False s1 s2 Some v by (simp add: start)
    have ys: "\<forall>y\<in>set [decl, ?val]. wf_attribute y \<and> last_handle s < unat (at_handle y) \<and> unat (at_handle y) \<le> svc_end s"
      "sorted_wrt (\<lambda>x y. at_handle x < at_handle y) [decl, ?val]"
      using wfs rng h h1 by (auto simp: word_less_nat_alt)
    have "length xs + length [decl, ?val] \<le> unat (sv_num_handles s)" using room by simp
    note ext = svc_extend [OF svc this ys] svc_extend_same [OF svc this ys]
    show ?thesis
      by (rule disjI2, rule exI [of _ ?s2], rule exI [of _ decl], rule exI [of _ ?val], rule exI [of _ le], rule exI [of _ h])
        (use run ext le(1) Some wfs(4) h in blast)
  qed
qed

lemma insert_descriptor_ok:
  assumes svc: "service_is s xs" and u: "uuid_given uuid"
    and fits: "if handle = 0 then attr_fits s (last_handle s + 1) else unat handle \<le> svc_start s \<or> attr_fits s (unat handle)"
  shows "\<exists>r s'. service_insert_descriptor handle uuid permissions rf wr ud s = Some (r, s') \<and> same_range s' s"
proof (cases "handle \<noteq> 0 \<and> handle \<le> at_handle (hd xs) \<or> unat (sv_num_handles s) \<le> length xs")
  case True
  have "get_handle_at_index s 0 = Some (at_handle (hd xs))" using svc_first [OF svc] by (simp add: get_handle_at_index_def)
  moreover have "wf_service s" using svc by (auto simp: wf_service_def)
  ultimately show ?thesis using True svc_free_index(1) [OF svc] by (auto simp: service_insert_descriptor_def Let_def same_range_refl)
next
  case False
  define h where "h = (if handle = 0 then at_handle (last xs) + 1 else handle)"
  have room: "length xs < unat (sv_num_handles s)" using False by auto
  have h0: "get_handle_at_index s 0 = Some (at_handle (hd xs))" using svc_first [OF svc] by (simp add: get_handle_at_index_def)
  have prev: "get_handle_at_index s (length xs - 1) = Some (at_handle (last xs))"
    using svc_get_handle [OF svc, of "length xs - 1"] svc_facts(1) [OF svc] by (simp add: last_conv_nth)
  have idx: "get_attribute_index s 0 = length xs" "length xs \<noteq> 0" using svc_free_index(1) [OF svc] False svc_facts(1) [OF svc] by auto
  have rng: "last_handle s + 1 \<le> (if handle = 0 then last_handle s + 1 else unat handle)" "(if handle = 0 then last_handle s + 1 else unat handle) \<le> svc_end s"
    using fits False room by (auto simp: attr_fits_def svc_used [OF svc] svc_start_eq [OF svc] word_le_nat_alt)
  have h: "unat h = (if handle = 0 then last_handle s + 1 else unat handle)"
    using rng(2) svc_end_eq(3) [OF svc] word_of_sum [of "at_handle (last xs)" 1] by (auto simp: h_def svc_used [OF svc])
  obtain v where v: "new_attribute True h uuid [] = Some v" by (simp add: new_attribute_def)
  let ?val = "set_attribute_data v rf wr permissions ud"
  let ?s1 = "s\<lparr>sv_attributes := map Some (xs @ [?val]) @ replicate (unat (sv_num_handles s) - length xs - length [?val]) None\<rparr>"
  have "set_attribute (length xs) (Some ?val) s = Some ?s1" using set_free_attribute(2) [OF svc room] by simp
  then have run: "service_insert_descriptor handle uuid permissions rf wr ud s = Some (Some (length xs), ?s1)"
    using False v by (simp add: service_insert_descriptor_def h0 idx(1) prev [simplified] svc_facts(1) [OF svc] Let_def h_def [symmetric])
  have ys: "\<forall>y\<in>set [?val]. wf_attribute y \<and> last_handle s < unat (at_handle y) \<and> unat (at_handle y) \<le> svc_end s"
    "sorted_wrt (\<lambda>x y. at_handle x < at_handle y) [?val]"
    using new_attribute_wf [OF v u, where rf = rf and wr = wr and p = permissions and d = ud] rng h by auto
  have "length xs + length [?val] \<le> unat (sv_num_handles s)" using room by simp
  from svc_extend_same [OF svc this ys] run show ?thesis by blast
qed

lemma include_value_ok:
  assumes svc: "wf_service s"
  shows "\<exists>v. include_value s = Some v \<and> (length v = 4 \<or> length v = 6) \<and> take 4 v = le16 (of_nat (svc_start s)) @ le16 (of_nat (svc_end s))"
proof -
  obtain xs where xs: "service_is s xs" using svc by (auto simp: wf_service_def)
  have fin: "at_handle (hd xs) + sv_num_handles s - 1 = of_nat (svc_end s)" by (simp add: word_unat_eq_iff svc_handles(2) [OF xs] unat_of_nat svc_end_eq(3) [OF xs])
  show ?thesis using svc_facts(7) [OF xs] by (auto simp: include_value_def svc_first(1) [OF xs] fin svc_start_eq [OF xs] declares_service_def)
qed

lemma add_included_ok:
  assumes svc: "service_is s xs" and fits: "attr_fits s (last_handle s + 1)" and v: "length value < 65536"
  shows "\<exists>r s'. service_add_included mem value s = Some (r, s') \<and> same_range s' s"
proof (cases "length xs < unat (sv_num_handles s)")
  case False
  moreover have "wf_service s" using svc by (auto simp: wf_service_def)
  ultimately show ?thesis using svc_free_index(1) [OF svc] by (auto simp: service_add_included_def Let_def same_range_refl)
next
  case room: True
  have idx: "get_attribute_index s 0 = length xs" "length xs \<noteq> 0" using svc_free_index(1) [OF svc] room svc_facts(1) [OF svc] by auto
  show ?thesis
  proof (cases "new_attribute mem 0 included_service_uuid value")
    case None
    moreover have "wf_service s" using svc by (auto simp: wf_service_def)
    ultimately show ?thesis using set_free_attribute(1) [OF svc room] by (auto simp: service_add_included_def idx Let_def same_range_refl)
  next
    case (Some x)
    let ?x = "set_attribute_data x None None 0 None"
    let ?y = "?x\<lparr>at_handle := at_handle (last xs) + 1\<rparr>"
    let ?s = "\<lambda>y. s\<lparr>sv_attributes := map Some (xs @ [y]) @ replicate (unat (sv_num_handles s) - length xs - length [y]) None\<rparr>"
    have wfx: "wf_attribute ?x" using new_attribute_wf [OF Some _ v] by simp
    have len: "length xs < length (sv_attributes (?s y))" for y using room by simp
    have again: "set_attribute (length xs) (Some z) (?s y) = Some (?s z)" for y z by (simp add: set_attribute_def list_update_append)
    have prev: "get_handle_at_index (?s y) (length xs - 1) = Some (at_handle (last xs))" for y
      using idx(2) by (simp add: get_handle_at_index_def attribute_at_def nth_append last_conv_nth)
    have "attribute_at (length xs) (?s ?x) = Some (Some ?x)" by (simp add: attribute_at_def nth_append)
    then have upd: "attribute_update (?s ?x) (length xs) = Some (?s ?y)" by (simp add: attribute_update_def prev [simplified] list_update_append)
    have run: "service_add_included mem value s = Some (Some (length xs), ?s ?y)"
      using set_free_attribute(2) [OF svc room] Some by (simp add: service_add_included_def idx(1) svc_facts(1) [OF svc] Let_def again [simplified] upd [simplified])
    have rng: "last_handle s + 1 \<le> svc_end s" using fits room by (auto simp: attr_fits_def svc_used [OF svc])
    then have "unat (at_handle (last xs) + 1) = last_handle s + 1"
      using svc_end_eq(3) [OF svc] word_of_sum [of "at_handle (last xs)" 1] by (simp add: svc_used [OF svc])
    then have ys: "\<forall>y\<in>set [?y]. wf_attribute y \<and> last_handle s < unat (at_handle y) \<and> unat (at_handle y) \<le> svc_end s"
      "sorted_wrt (\<lambda>x y. at_handle x < at_handle y) [?y]"
      using wfx rng by (auto simp: wf_attribute_def)
    have "length xs + length [?y] \<le> unat (sv_num_handles s)" using room by simp
    from svc_extend_same [OF svc this ys] run show ?thesis by blast
  qed
qed

section \<open>Changing attributes\<close>

lemma log_db_heap [simp]: "db_heap (log_db es db) = db_heap db"
  by (simp add: log_db_def)

lemma put_service_heap [simp]: "db_heap (put_service a s db) = (db_heap db)(a \<mapsto> s)"
  by (simp add: put_service_def)

lemma wf_db_log [simp]: "wf_db (log_db es db) = wf_db db"
  by (simp add: wf_db_def)

lemma wf_db_timer [simp]: "wf_db (db\<lparr>db_timer := t\<rparr>) = wf_db db"
  by (simp add: wf_db_def db_has_def notifies_ok_def)

lemma get_attr_cases:
  assumes wf: "wf_db db" and x: "get_attr db r = Some x"
  obtains s xs where "db_heap db (fst r) = Some s" "service_is s xs" "snd r < length xs" "xs ! snd r = x" "wf_attribute x"
    "snd r < length (sv_attributes s)"
proof -
  obtain s where s: "db_heap db (fst r) = Some s" "attribute_at (snd r) s = Some (Some x)"
    using x by (auto simp: get_attr_def split: bind_splits)
  obtain ss where "db_has db ss" using wf by (auto simp: wf_db_def)
  then obtain xs where xs: "service_is s xs" using db_has_wf(1) [OF _ s(1)] by (auto simp: wf_service_def)
  have at: "snd r < length (sv_attributes s)" "sv_attributes s ! snd r = Some x" using s(2) by (auto simp: attribute_at_def split: if_splits)
  have i: "snd r < length xs"
  proof (rule ccontr)
    assume "\<not> snd r < length xs"
    then show False using svc_nth(2) [OF xs, of "snd r"] at svc_facts(3) [OF xs] by simp
  qed
  then have "xs ! snd r = x" using svc_nth(1) [OF xs i] at by simp
  moreover from this have "wf_attribute x" using xs i by (auto simp: service_is_def)
  ultimately show thesis using that s(1) xs i at(1) by blast
qed

lemma service_put_attribute:
  assumes svc: "service_is s xs" and i: "i < length xs" and x: "wf_attribute x" "at_handle x = at_handle (xs ! i)"
    and decl: "i = 0 \<Longrightarrow> declares_service x"
  shows "service_is (s\<lparr>sv_attributes := (sv_attributes s)[i := Some x]\<rparr>) (xs[i := x])"
    "same_range (s\<lparr>sv_attributes := (sv_attributes s)[i := Some x]\<rparr>) s"
proof -
  have hs: "map at_handle (xs[i := x]) = map at_handle xs" by (metis list_update_id map_update x(2))
  have ne: "xs \<noteq> []" using i by auto
  have hd: "at_handle (hd (xs[i := x])) = at_handle (hd xs)" using hs ne by (metis hd_map list_update_nonempty)
  have last: "at_handle (last (xs[i := x])) = at_handle (last xs)" using hs ne by (metis last_map list_update_nonempty)
  have sorted: "sorted_wrt (\<lambda>x y. at_handle x < at_handle y) (xs[i := x])"
    using svc unfolding service_is_def sorted_wrt_map [of "(<)" at_handle, symmetric] hs by blast
  have d: "declares_service (hd (xs[i := x]))" using svc_facts(7) [OF svc] decl ne by (cases xs; cases i) auto
  have att: "(sv_attributes s)[i := Some x] = map Some (xs[i := x]) @ replicate (unat (sv_num_handles s) - length xs) None"
    using svc i by (simp add: service_is_def list_update_append map_update)
  have "\<forall>y\<in>set (xs[i := x]). wf_attribute y" using svc x(1) set_update_subset_insert [of xs i x] by (auto simp: service_is_def)
  then show svc': "service_is (s\<lparr>sv_attributes := (sv_attributes s)[i := Some x]\<rparr>) (xs[i := x])"
    unfolding att using svc by (simp add: service_is_def hd last sorted d)
  show "same_range (s\<lparr>sv_attributes := (sv_attributes s)[i := Some x]\<rparr>) s"
    by (rule same_rangeI [OF svc svc']) (simp_all add: hd)
qed

lemma put_attr_wf:
  assumes wf: "wf_db db" and x: "get_attr db r = Some x" and x': "wf_attribute x'" "at_handle x' = at_handle x"
    and decl: "snd r = 0 \<Longrightarrow> at_uuid x' = at_uuid x \<and> at_value_len x' = at_value_len x"
  shows "\<exists>db'. put_attr r x' db = Some db' \<and> wf_db db' \<and> get_attr db' r = Some x'"
proof -
  obtain s xs where s: "db_heap db (fst r) = Some s" "service_is s xs" "snd r < length xs" "xs ! snd r = x" "snd r < length (sv_attributes s)"
    using get_attr_cases [OF wf x] by metis
  have "declares_service x'" if "snd r = 0"
    using svc_facts(1,7) [OF s(2)] decl [OF that] s(4) that x'(1) by (auto simp: declares_service_def wf_attribute_def hd_conv_nth)
  from service_put_attribute(2) [OF s(2,3) x'(1) _ this] have same: "same_range (s\<lparr>sv_attributes := (sv_attributes s)[snd r := Some x']\<rparr>) s"
    using x'(2) s(4) by simp
  obtain ss where has: "db_has db ss" using wf by (auto simp: wf_db_def)
  have "wf_db (put_service (fst r) (s\<lparr>sv_attributes := (sv_attributes s)[snd r := Some x']\<rparr>) db)"
    by (rule db_has_update [OF has s(1)]) (use same in \<open>simp_all add: same_range_def\<close>)
  then show ?thesis using s(1,5) by (auto simp: put_attr_def get_attr_def put_service_def attribute_at_def)
qed

lemma value_bytes_wf: "wf_attribute x \<Longrightarrow> value_bytes x = Some (at_value x)"
  by (simp add: value_bytes_def wf_attribute_def)

lemma stored_value_wf:
  assumes x: "wf_attribute x" and fits: "unat off + length value < 65536"
  shows "wf_attribute (stored_value junk off value x)" "at_handle (stored_value junk off value x) = at_handle x"
proof -
  show "at_handle (stored_value junk off value x) = at_handle x" by (simp add: stored_value_def Let_def)
  have len: "length (at_value x) = unat (at_value_len x)" using x by (simp add: wf_attribute_def)
  have sum: "unat (of_nat (length value) + off) = length value + unat off" using fits by (simp add: unat_word_ariths unat_of_nat)
  show "wf_attribute (stored_value junk off value x)"
  proof (cases "at_value x = [] \<or> at_value_len x \<le> off \<or> unat (at_value_len x - off) < length value")
    case True
    then show ?thesis using x fits by (auto simp: stored_value_def Let_def wf_attribute_def sum min_def)
  next
    case False
    then have "off \<le> at_value_len x" using linear by blast
    then have "unat (at_value_len x - off) = unat (at_value_len x) - unat off" by (rule unat_sub)
    then have "unat off + length value \<le> unat (at_value_len x)" using False by (simp add: word_le_nat_alt) linarith
    then show ?thesis using x False len by (auto simp: stored_value_def Let_def wf_attribute_def)
  qed
qed

section \<open>Runs of operations\<close>

text \<open>The operations that change a database, and what a caller owes to each of them: attributes that are in the database,
  UUIDs that are set, both notification functions or none, and handles that the code does not check.\<close>

datatype db_op =
    Op_Insert_Service bool u16 bt_uuid bool u16
  | Op_Add_Service bool bt_uuid bool u16
  | Op_Remove_Service attr_ref
  | Op_Clear
  | Op_Clear_Range u16 u16
  | Op_Register "fid option" "fid option" ptr "fid option"
  | Op_Unregister u32
  | Op_Set_Active attr_ref bool
  | Op_Set_Claimed attr_ref bool
  | Op_Insert_Char bool attr_ref u16 bt_uuid u32 u8 "fid option" "fid option" ptr
  | Op_Add_Char bool attr_ref bt_uuid u32 u8 "fid option" "fid option" ptr
  | Op_Insert_Desc attr_ref u16 bt_uuid u32 "fid option" "fid option" ptr
  | Op_Add_Desc attr_ref bt_uuid u32 "fid option" "fid option" ptr
  | Op_Add_Included bool attr_ref attr_ref
  | Op_Read attr_ref u16 u8 "fid option" ptr
  | Op_Read_Result attr_ref u32 int "u8 list"
  | Op_Read_Timeout attr_ref nat
  | Op_Write bool "nat \<Rightarrow> u8" attr_ref u16 "u8 list" u8 "fid option" ptr
  | Op_Write_Result attr_ref u32 int
  | Op_Write_Timeout attr_ref nat
  | Op_Reset attr_ref

fun run_op :: "db_op \<Rightarrow> gatt_db \<Rightarrow> gatt_db option" where
  "run_op (Op_Insert_Service mem h u p n) db = map_option snd (gatt_db_insert_service mem h u p n db)"
| "run_op (Op_Add_Service mem u p n) db = map_option snd (gatt_db_add_service mem u p n db)"
| "run_op (Op_Remove_Service r) db = gatt_db_remove_service r db"
| "run_op Op_Clear db = gatt_db_clear db"
| "run_op (Op_Clear_Range start stop) db = map_option snd (gatt_db_clear_range start stop db)"
| "run_op (Op_Register added removed ud destroy) db = Some (snd (gatt_db_register added removed ud destroy db))"
| "run_op (Op_Unregister ident) db = Some (snd (gatt_db_unregister ident db))"
| "run_op (Op_Set_Active r b) db = map_option snd (gatt_db_service_set_active r b db)"
| "run_op (Op_Set_Claimed r b) db = map_option snd (gatt_db_service_set_claimed r b db)"
| "run_op (Op_Insert_Char mem r h u p props rf wr ud) db = map_option snd (gatt_db_service_insert_characteristic mem r h u p props rf wr ud db)"
| "run_op (Op_Add_Char mem r u p props rf wr ud) db = map_option snd (gatt_db_service_add_characteristic mem r u p props rf wr ud db)"
| "run_op (Op_Insert_Desc r h u p rf wr ud) db = map_option snd (gatt_db_service_insert_descriptor r h u p rf wr ud db)"
| "run_op (Op_Add_Desc r u p rf wr ud) db = map_option snd (gatt_db_service_add_descriptor r u p rf wr ud db)"
| "run_op (Op_Add_Included mem r inc) db = map_option snd (gatt_db_service_add_included mem r inc db)"
| "run_op (Op_Read r off opcode f ud) db = map_option snd (gatt_db_attribute_read r off opcode f ud db)"
| "run_op (Op_Read_Result r ident err v) db = map_option snd (gatt_db_attribute_read_result r ident err v db)"
| "run_op (Op_Read_Timeout r timer) db = read_timeout r timer db"
| "run_op (Op_Write mem junk r off v opcode f ud) db = map_option snd (gatt_db_attribute_write mem junk r off v opcode f ud db)"
| "run_op (Op_Write_Result r ident err) db = map_option snd (gatt_db_attribute_write_result r ident err db)"
| "run_op (Op_Write_Timeout r timer) db = write_timeout r timer db"
| "run_op (Op_Reset r) db = map_option snd (gatt_db_attribute_reset r db)"

definition in_service :: "gatt_db \<Rightarrow> attr_ref \<Rightarrow> (gatt_db_service \<Rightarrow> bool) \<Rightarrow> bool" where
  "in_service db r P \<longleftrightarrow> get_attr db r \<noteq> None \<and> (case db_heap db (fst r) of None \<Rightarrow> False | Some s \<Rightarrow> P s)"

fun lawful_op :: "gatt_db \<Rightarrow> db_op \<Rightarrow> bool" where
  "lawful_op db (Op_Insert_Service mem h u p n) \<longleftrightarrow> uuid_given u \<and> range_free db h n"
| "lawful_op db (Op_Add_Service mem u p n) \<longleftrightarrow> uuid_given u \<and> range_free db (db_next_handle db) n"
| "lawful_op db (Op_Remove_Service r) \<longleftrightarrow> get_attr db r \<noteq> None"
| "lawful_op db Op_Clear \<longleftrightarrow> True"
| "lawful_op db (Op_Clear_Range start stop) \<longleftrightarrow> True"
| "lawful_op db (Op_Register added removed ud destroy) \<longleftrightarrow> (added = None \<longleftrightarrow> removed = None)"
| "lawful_op db (Op_Unregister ident) \<longleftrightarrow> True"
| "lawful_op db (Op_Set_Active r b) \<longleftrightarrow> get_attr db r \<noteq> None"
| "lawful_op db (Op_Set_Claimed r b) \<longleftrightarrow> get_attr db r \<noteq> None"
| "lawful_op db (Op_Insert_Char mem r h u p props rf wr ud) \<longleftrightarrow>
     uuid_given u \<and> in_service db r (\<lambda>s. unat h \<le> svc_start s \<or> char_fits s (unat h))"
| "lawful_op db (Op_Add_Char mem r u p props rf wr ud) \<longleftrightarrow> uuid_given u \<and> in_service db r (\<lambda>s. char_fits s (last_handle s + 2))"
| "lawful_op db (Op_Insert_Desc r h u p rf wr ud) \<longleftrightarrow>
     uuid_given u \<and> in_service db r (\<lambda>s. unat h \<le> svc_start s \<or> attr_fits s (unat h))"
| "lawful_op db (Op_Add_Desc r u p rf wr ud) \<longleftrightarrow> uuid_given u \<and> in_service db r (\<lambda>s. attr_fits s (last_handle s + 1))"
| "lawful_op db (Op_Add_Included mem r inc) \<longleftrightarrow> get_attr db inc \<noteq> None \<and> in_service db r (\<lambda>s. attr_fits s (last_handle s + 1))"
| "lawful_op db (Op_Read r off opcode f ud) \<longleftrightarrow> get_attr db r \<noteq> None"
| "lawful_op db (Op_Read_Result r ident err v) \<longleftrightarrow> get_attr db r \<noteq> None"
| "lawful_op db (Op_Read_Timeout r timer) \<longleftrightarrow> get_attr db r \<noteq> None"
| "lawful_op db (Op_Write mem junk r off v opcode f ud) \<longleftrightarrow> get_attr db r \<noteq> None \<and> snd r \<noteq> 0 \<and> unat off + length v < 65536"
| "lawful_op db (Op_Write_Result r ident err) \<longleftrightarrow> get_attr db r \<noteq> None"
| "lawful_op db (Op_Write_Timeout r timer) \<longleftrightarrow> get_attr db r \<noteq> None"
| "lawful_op db (Op_Reset r) \<longleftrightarrow> get_attr db r \<noteq> None \<and> snd r \<noteq> 0"

lemma insert_service_wf:
  assumes wf: "wf_db db" and "uuid_given u" "range_free db h n"
  shows "\<exists>r db'. gatt_db_insert_service mem h u p n db = Some (r, db') \<and> wf_db db'"
proof -
  obtain ss where has: "db_has db ss" using wf by (auto simp: wf_db_def)
  show ?thesis using insert_service_has [OF has assms(2,3), where mem = mem and primary = p] wf by (auto simp: wf_db_def)
qed

lemma heap_service:
  assumes wf: "wf_db db" and s: "db_heap db a = Some s"
  obtains xs where "service_is s xs"
  using wf db_has_wf(1) [OF _ s] by (auto simp: wf_db_def wf_service_def)

lemma on_service_wf:
  assumes wf: "wf_db db" and s: "db_heap db (fst r) = Some s" and f: "\<exists>i s'. f s = Some (i, s') \<and> same_range s' s"
  shows "\<exists>q db'. on_service r f db = Some (q, db') \<and> wf_db db'"
proof -
  obtain ss where has: "db_has db ss" using wf by (auto simp: wf_db_def)
  obtain i s' where fs: "f s = Some (i, s')" "same_range s' s" using f by blast
  have "wf_db (put_service (fst r) s' db)" by (rule db_has_update [OF has s]) (use fs(2) in \<open>simp_all add: same_range_def\<close>)
  then show ?thesis using s fs(1) by (auto simp: on_service_def)
qed

lemma insert_char_wf:
  assumes wf: "wf_db db" and u: "uuid_given u" and s: "db_heap db (fst r) = Some s"
    and fits: "if h = 0 then char_fits s (last_handle s + 2) else unat h \<le> svc_start s \<or> char_fits s (unat h)"
  shows "\<exists>q db'. on_service r (service_insert_characteristic mem h u p props rf wr ud) db = Some (q, db') \<and> wf_db db'"
proof -
  obtain xs where xs: "service_is s xs" by (rule heap_service [OF wf s])
  then have "wf_service s" by (auto simp: wf_service_def)
  then have "\<exists>i s'. service_insert_characteristic mem h u p props rf wr ud s = Some (i, s') \<and> same_range s' s"
    using insert_characteristic_ok [OF xs u fits, where mem = mem and properties = props and permissions = p and rf = rf and wr = wr and ud = ud]
    by (auto simp: same_range_refl)
  then show ?thesis by (rule on_service_wf [OF wf s])
qed

lemma set_active_wf:
  assumes wf: "wf_db db" and r: "get_attr db r = Some x"
  shows "\<exists>db'. gatt_db_service_set_active r b db = Some (True, db') \<and> wf_db db' \<and> gatt_db_service_get_active db' r = Some b"
proof -
  obtain s xs where s: "db_heap db (fst r) = Some s" "service_is s xs" using get_attr_cases [OF wf r] by metis
  let ?db = "put_service (fst r) (s\<lparr>sv_active := b\<rparr>) db"
  obtain ss where has: "db_has db ss" using wf by (auto simp: wf_db_def)
  have svc: "service_is (s\<lparr>sv_active := b\<rparr>) xs" using s(2) by (simp add: service_is_def)
  then have "wf_service (s\<lparr>sv_active := b\<rparr>)" by (auto simp: wf_service_def)
  then have wf': "wf_db ?db" by (rule db_has_update [OF has s(1)]) (simp_all add: svc_start_def svc_end_def)
  then have "notifies_ok ?db" by (auto simp: wf_db_def db_has_def)
  then obtain es where "notify_service_changed (fst r) b ?db = Some (log_db es ?db)" using notify_service_changed_ok by blast
  then show ?thesis using s(1) wf wf' by (auto simp: gatt_db_service_set_active_def gatt_db_service_get_active_def)
qed

lemma set_claimed_wf:
  assumes wf: "wf_db db" and r: "get_attr db r = Some x"
  shows "\<exists>db'. gatt_db_service_set_claimed r b db = Some (True, db') \<and> wf_db db'"
proof -
  obtain s xs where s: "db_heap db (fst r) = Some s" "service_is s xs" using get_attr_cases [OF wf r] by metis
  obtain ss where has: "db_has db ss" using wf by (auto simp: wf_db_def)
  have "service_is (s\<lparr>sv_claimed := b\<rparr>) xs" using s(2) by (simp add: service_is_def)
  then have "wf_service (s\<lparr>sv_claimed := b\<rparr>)" by (auto simp: wf_service_def)
  then have "wf_db (put_service (fst r) (s\<lparr>sv_claimed := b\<rparr>) db)" by (rule db_has_update [OF has s(1)]) (simp_all add: svc_start_def svc_end_def)
  then show ?thesis using s(1) by (simp add: gatt_db_service_set_claimed_def)
qed

lemma register_wf:
  assumes wf: "wf_db db" and both: "added = None \<longleftrightarrow> removed = None"
  shows "wf_db (snd (gatt_db_register added removed ud destroy db))" "wf_db (snd (gatt_db_unregister ident db))"
proof -
  obtain ss where has: "db_has db ss" using wf by (auto simp: wf_db_def)
  have ok: "notifies_ok db" using has by (simp add: db_has_def)
  show "wf_db (snd (gatt_db_register added removed ud destroy db))"
  proof (cases "added = None \<and> removed = None")
    case False
    let ?db = "snd (gatt_db_register added removed ud destroy db)"
    have "notifies_ok ?db" using ok False both by (auto simp: gatt_db_register_def Let_def notifies_ok_def)
    then have "db_has ?db ss" by (intro db_has_cong [OF has]) (auto simp: gatt_db_register_def Let_def)
    then show ?thesis by (auto simp: wf_db_def)
  qed (use wf in \<open>simp add: gatt_db_register_def\<close>)
  let ?db = "snd (gatt_db_unregister ident db)"
  have "set (db_notify_list ?db) \<subseteq> set (db_notify_list db)"
    by (auto simp: gatt_db_unregister_def log_db_def split: option.splits dest: subsetD [OF set_remove1_subset])
  then have "notifies_ok ?db" using ok by (auto simp: notifies_ok_def)
  then have "db_has ?db ss" by (intro db_has_cong [OF has]) (auto simp: gatt_db_unregister_def log_db_def split: option.splits)
  then show "wf_db ?db" by (auto simp: wf_db_def)
qed

lemma get_attr_timer [simp]: "get_attr (db\<lparr>db_timer := t\<rparr>) r = get_attr db r"
  by (simp add: get_attr_def)

lemma wf_attribute_pending [simp]:
  "wf_attribute (x\<lparr>at_read_id := i\<rparr>) = wf_attribute x" "wf_attribute (x\<lparr>at_pending_reads := ps\<rparr>) = wf_attribute x"
  "wf_attribute (x\<lparr>at_write_id := i\<rparr>) = wf_attribute x" "wf_attribute (x\<lparr>at_pending_writes := ps\<rparr>) = wf_attribute x"
  by (simp_all add: wf_attribute_def)

text \<open>Storing an attribute that keeps handle, type and value is always possible.\<close>

lemma put_attr_pending:
  assumes wf: "wf_db db" and x: "get_attr db r = Some x"
  shows "\<exists>db'. put_attr r (x\<lparr>at_read_id := i, at_pending_reads := ps\<rparr>) (db\<lparr>db_timer := t\<rparr>) = Some db' \<and> wf_db db'"
    "\<exists>db'. put_attr r (x\<lparr>at_pending_reads := ps\<rparr>) db = Some db' \<and> wf_db db'"
    "\<exists>db'. put_attr r (x\<lparr>at_write_id := i, at_pending_writes := ps\<rparr>) (db\<lparr>db_timer := t\<rparr>) = Some db' \<and> wf_db db'"
    "\<exists>db'. put_attr r (x\<lparr>at_pending_writes := ps\<rparr>) db = Some db' \<and> wf_db db'"
proof -
  have wfx: "wf_attribute x" using get_attr_cases [OF wf x] by metis
  have wft: "wf_db (db\<lparr>db_timer := t\<rparr>)" "get_attr (db\<lparr>db_timer := t\<rparr>) r = Some x" using wf x by simp_all
  show "\<exists>db'. put_attr r (x\<lparr>at_read_id := i, at_pending_reads := ps\<rparr>) (db\<lparr>db_timer := t\<rparr>) = Some db' \<and> wf_db db'"
    using put_attr_wf [OF wft, where x' = "x\<lparr>at_read_id := i, at_pending_reads := ps\<rparr>"] wfx by auto
  show "\<exists>db'. put_attr r (x\<lparr>at_pending_reads := ps\<rparr>) db = Some db' \<and> wf_db db'"
    using put_attr_wf [OF wf x, where x' = "x\<lparr>at_pending_reads := ps\<rparr>"] wfx by auto
  show "\<exists>db'. put_attr r (x\<lparr>at_write_id := i, at_pending_writes := ps\<rparr>) (db\<lparr>db_timer := t\<rparr>) = Some db' \<and> wf_db db'"
    using put_attr_wf [OF wft, where x' = "x\<lparr>at_write_id := i, at_pending_writes := ps\<rparr>"] wfx by auto
  show "\<exists>db'. put_attr r (x\<lparr>at_pending_writes := ps\<rparr>) db = Some db' \<and> wf_db db'"
    using put_attr_wf [OF wf x, where x' = "x\<lparr>at_pending_writes := ps\<rparr>"] wfx by auto
qed

lemma pending_ops_wf:
  assumes wf: "wf_db db" and x: "get_attr db r = Some x"
  shows "\<exists>b db'. gatt_db_attribute_read r off opcode f ud db = Some (b, db') \<and> wf_db db'"
    "\<exists>b db'. gatt_db_attribute_read_result r ident err v db = Some (b, db') \<and> wf_db db'"
    "\<exists>db'. read_timeout r timer db = Some db' \<and> wf_db db'"
    "\<exists>b db'. gatt_db_attribute_write_result r ident err db = Some (b, db') \<and> wf_db db'"
    "\<exists>db'. write_timeout r timer db = Some db' \<and> wf_db db'"
proof -
  note put = put_attr_pending [OF wf x]
  have vb: "value_bytes x = Some (at_value x)" using get_attr_cases [OF wf x] value_bytes_wf by metis
  show "\<exists>b db'. gatt_db_attribute_read r off opcode f ud db = Some (b, db') \<and> wf_db db'"
  proof (cases "f = None \<or> at_read_func x = None")
    case True
    then show ?thesis using wf vb by (auto simp: gatt_db_attribute_read_def x split: option.splits)
  next
    case False
    then obtain g fn where "f = Some g" "at_read_func x = Some fn" by auto
    then show ?thesis using put(1) [where i = "at_read_id x + 1" and ps = "at_pending_reads x @ [\<lparr>po_id = at_read_id x + 1, po_timeout_id = db_timer db, po_func = g, po_user_data = ud\<rparr>]" and t = "db_timer db + 1"]
      by (auto simp: gatt_db_attribute_read_def x Let_def)
  qed
  show "\<exists>b db'. gatt_db_attribute_read_result r ident err v db = Some (b, db') \<and> wf_db db'"
  proof (cases "take_pending ident (at_pending_reads x)")
    case (Some p)
    then show ?thesis using put(2) [where ps = "snd p"] wf by (cases p) (auto simp: gatt_db_attribute_read_result_def x)
  qed (use wf x in \<open>auto simp: gatt_db_attribute_read_result_def\<close>)
  show "\<exists>db'. read_timeout r timer db = Some db' \<and> wf_db db'"
  proof (cases "List.find (\<lambda>p. po_timeout_id p = timer) (at_pending_reads x)")
    case (Some p)
    then show ?thesis using put(2) [where ps = "remove1 p (at_pending_reads x)"] by (auto simp: read_timeout_def x)
  qed (use wf x in \<open>simp add: read_timeout_def\<close>)
  show "\<exists>b db'. gatt_db_attribute_write_result r ident err db = Some (b, db') \<and> wf_db db'"
  proof (cases "take_pending ident (at_pending_writes x)")
    case (Some p)
    then show ?thesis using put(4) [where ps = "snd p"] wf by (cases p) (auto simp: gatt_db_attribute_write_result_def x)
  qed (use wf x in \<open>auto simp: gatt_db_attribute_write_result_def\<close>)
  show "\<exists>db'. write_timeout r timer db = Some db' \<and> wf_db db'"
  proof (cases "List.find (\<lambda>p. po_timeout_id p = timer) (at_pending_writes x)")
    case (Some p)
    then show ?thesis using put(4) [where ps = "remove1 p (at_pending_writes x)"] by (auto simp: write_timeout_def x)
  qed (use wf x in \<open>simp add: write_timeout_def\<close>)
qed

lemma put_attr_value:
  assumes wf: "wf_db db" and x: "get_attr db r = Some x" and x': "wf_attribute x'" "at_handle x' = at_handle x" and r: "snd r \<noteq> 0"
  obtains db' where "put_attr r x' db = Some db'" "wf_db db'"
  using put_attr_wf [OF wf x x'] r by blast

lemma write_wf:
  assumes wf: "wf_db db" and x: "get_attr db r = Some x" and r: "snd r \<noteq> 0" "unat off + length v < 65536"
  shows "\<exists>b db'. gatt_db_attribute_write mem junk r off v opcode f ud db = Some (b, db') \<and> wf_db db'"
proof -
  have wfx: "wf_attribute x" using get_attr_cases [OF wf x] by metis
  show ?thesis
  proof (cases "f = None \<or> at_write_func x = None")
    case True
    obtain db' where "put_attr r (stored_value junk off v x) db = Some db'" "wf_db db'"
      by (rule put_attr_value [OF wf x stored_value_wf [OF wfx r(2)] r(1)])
    then show ?thesis using True wf by (auto simp: gatt_db_attribute_write_def x split: option.splits)
  next
    case False
    then obtain g fn where "f = Some g" "at_write_func x = Some fn" by auto
    then show ?thesis using put_attr_pending(3) [OF wf x, where i = "at_write_id x + 1" and t = "db_timer db + 1"
        and ps = "at_pending_writes x @ [\<lparr>po_id = at_write_id x + 1, po_timeout_id = db_timer db, po_func = g, po_user_data = ud\<rparr>]"]
      by (auto simp: gatt_db_attribute_write_def x Let_def)
  qed
qed

lemma reset_wf:
  assumes wf: "wf_db db" and x: "get_attr db r = Some x" and r: "snd r \<noteq> 0"
  shows "\<exists>b db'. gatt_db_attribute_reset r db = Some (b, db') \<and> wf_db db'"
proof -
  have "wf_attribute x" using get_attr_cases [OF wf x] by metis
  then have "wf_attribute (x\<lparr>at_value := [], at_value_len := 0\<rparr>)" by (simp add: wf_attribute_def)
  then obtain db' where "put_attr r (x\<lparr>at_value := [], at_value_len := 0\<rparr>) db = Some db'" "wf_db db'"
    by (rule put_attr_value [OF wf x _ _ r]) simp
  then show ?thesis using wf by (auto simp: gatt_db_attribute_reset_def x)
qed

lemma in_serviceD:
  "in_service db r P \<Longrightarrow> \<exists>s x. get_attr db r = Some x \<and> db_heap db (fst r) = Some s \<and> P s"
  by (auto simp: in_service_def split: option.splits)

lemma insert_desc_wf:
  assumes wf: "wf_db db" and u: "uuid_given u" and s: "db_heap db (fst r) = Some s"
    and fits: "if h = 0 then attr_fits s (last_handle s + 1) else unat h \<le> svc_start s \<or> attr_fits s (unat h)"
  shows "\<exists>q db'. on_service r (service_insert_descriptor h u p rf wr ud) db = Some (q, db') \<and> wf_db db'"
proof -
  obtain xs where xs: "service_is s xs" by (rule heap_service [OF wf s])
  have "\<exists>i s'. service_insert_descriptor h u p rf wr ud s = Some (i, s') \<and> same_range s' s" by (rule insert_descriptor_ok [OF xs u fits])
  then show ?thesis by (rule on_service_wf [OF wf s])
qed

lemma add_included_wf:
  assumes wf: "wf_db db" and s: "db_heap db (fst r) = Some s" "attr_fits s (last_handle s + 1)" and inc: "get_attr db inc = Some y"
  shows "\<exists>q db'. gatt_db_service_add_included mem r inc db = Some (q, db') \<and> wf_db db'"
proof -
  obtain xs where xs: "service_is s xs" by (rule heap_service [OF wf s(1)])
  obtain t ys where t: "db_heap db (fst inc) = Some t" "service_is t ys" using get_attr_cases [OF wf inc] by metis
  then have "wf_service t" by (auto simp: wf_service_def)
  then obtain v where v: "include_value t = Some v" "length v = 4 \<or> length v = 6" using include_value_ok by blast
  have "\<exists>i s'. service_add_included mem v s = Some (i, s') \<and> same_range s' s"
    by (rule add_included_ok [OF xs s(2)]) (use v(2) in auto)
  then have "\<exists>q db'. on_service r (service_add_included mem v) db = Some (q, db') \<and> wf_db db'" by (rule on_service_wf [OF wf s(1)])
  then show ?thesis using t(1) v(1) by (simp add: gatt_db_service_add_included_def)
qed

lemma services_wf:
  assumes wf: "wf_db db"
  shows "get_attr db r = Some x \<Longrightarrow> \<exists>db'. gatt_db_remove_service r db = Some db' \<and> wf_db db'"
    "\<exists>db'. gatt_db_clear db = Some db' \<and> wf_db db'"
    "\<exists>b db'. gatt_db_clear_range start stop db = Some (b, db') \<and> wf_db db'"
proof -
  obtain ss where has: "db_has db ss" using wf by (auto simp: wf_db_def)
  show "\<exists>db'. gatt_db_remove_service r db = Some db' \<and> wf_db db'" if x: "get_attr db r = Some x"
    using remove_service_wf [OF has x] unfolding wf_db_def by blast
  show "\<exists>db'. gatt_db_clear db = Some db' \<and> wf_db db'" using clear_wf [OF has] unfolding wf_db_def by blast
  show "\<exists>b db'. gatt_db_clear_range start stop db = Some (b, db') \<and> wf_db db'"
    using clear_range_has [OF has, of start stop] has by (cases "start \<le> stop") (auto simp: wf_db_def gatt_db_clear_range_def)
qed

theorem run_op_wf:
  assumes wf: "wf_db db" and lawful: "lawful_op db op"
  shows "\<exists>db'. run_op op db = Some db' \<and> wf_db db'"
proof (cases op)
  case (Op_Insert_Service mem h u p n)
  then show ?thesis using lawful insert_service_wf [OF wf, of u h n mem p] by auto
next
  case (Op_Add_Service mem u p n)
  then show ?thesis using lawful insert_service_wf [OF wf, of u "db_next_handle db" n mem p] by (auto simp: gatt_db_add_service_def)
next
  case (Op_Remove_Service r)
  then show ?thesis using lawful services_wf(1) [OF wf, of r] by auto
next
  case Op_Clear
  then show ?thesis using services_wf(2) [OF wf] by simp
next
  case (Op_Clear_Range start stop)
  then show ?thesis using services_wf(3) [OF wf, of start stop] by auto
next
  case (Op_Register added removed ud destroy)
  then show ?thesis using lawful register_wf(1) [OF wf, of added removed ud destroy] by simp
next
  case (Op_Unregister ident)
  then show ?thesis using register_wf(2) [OF wf, of None None] by simp
next
  case (Op_Set_Active r b)
  then show ?thesis using lawful set_active_wf [OF wf, of r] by fastforce
next
  case (Op_Set_Claimed r b)
  then show ?thesis using lawful set_claimed_wf [OF wf, of r] by fastforce
next
  case (Op_Insert_Char mem r h u p props rf wr ud)
  then have "uuid_given u" "in_service db r (\<lambda>s. unat h \<le> svc_start s \<or> char_fits s (unat h))" using lawful by simp_all
  then obtain s where s: "uuid_given u" "db_heap db (fst r) = Some s" "unat h \<le> svc_start s \<or> char_fits s (unat h)"
    using in_serviceD by blast
  then show ?thesis using insert_char_wf [OF wf s(1,2), of h mem p props rf wr ud] wf
    by (cases "h = 0") (auto simp: Op_Insert_Char gatt_db_service_insert_characteristic_def)
next
  case (Op_Add_Char mem r u p props rf wr ud)
  then have "uuid_given u" "in_service db r (\<lambda>s. char_fits s (last_handle s + 2))" using lawful by simp_all
  then obtain s where s: "uuid_given u" "db_heap db (fst r) = Some s" "char_fits s (last_handle s + 2)"
    using in_serviceD by blast
  then show ?thesis using insert_char_wf [OF wf s(1,2), of 0 mem p props rf wr ud]
    by (auto simp: Op_Add_Char gatt_db_service_add_characteristic_def)
next
  case (Op_Insert_Desc r h u p rf wr ud)
  then have "uuid_given u" "in_service db r (\<lambda>s. unat h \<le> svc_start s \<or> attr_fits s (unat h))" using lawful by simp_all
  then obtain s where s: "uuid_given u" "db_heap db (fst r) = Some s" "unat h \<le> svc_start s \<or> attr_fits s (unat h)" using in_serviceD by blast
  then show ?thesis using insert_desc_wf [OF wf s(1,2), of h p rf wr ud] wf
    by (cases "h = 0") (auto simp: Op_Insert_Desc gatt_db_service_insert_descriptor_def)
next
  case (Op_Add_Desc r u p rf wr ud)
  then have "uuid_given u" "in_service db r (\<lambda>s. attr_fits s (last_handle s + 1))" using lawful by simp_all
  then obtain s where s: "uuid_given u" "db_heap db (fst r) = Some s" "attr_fits s (last_handle s + 1)" using in_serviceD by blast
  then show ?thesis using insert_desc_wf [OF wf s(1,2), of 0 p rf wr ud] by (auto simp: Op_Add_Desc gatt_db_service_add_descriptor_def)
next
  case (Op_Add_Included mem r inc)
  then have "in_service db r (\<lambda>s. attr_fits s (last_handle s + 1))" "get_attr db inc \<noteq> None" using lawful by simp_all
  then obtain s y where "db_heap db (fst r) = Some s" "attr_fits s (last_handle s + 1)" "get_attr db inc = Some y" using in_serviceD by blast
  then show ?thesis using add_included_wf [OF wf, of r s inc y mem] by (auto simp: Op_Add_Included)
next
  case (Op_Read r off opcode f ud)
  then show ?thesis using lawful pending_ops_wf(1) [OF wf, of r] by fastforce
next
  case (Op_Read_Result r ident err v)
  then show ?thesis using lawful pending_ops_wf(2) [OF wf, of r] by fastforce
next
  case (Op_Read_Timeout r timer)
  then show ?thesis using lawful pending_ops_wf(3) [OF wf, of r] by auto
next
  case (Op_Write mem junk r off v opcode f ud)
  then show ?thesis using lawful write_wf [OF wf, of r] by fastforce
next
  case (Op_Write_Result r ident err)
  then show ?thesis using lawful pending_ops_wf(4) [OF wf, of r] by fastforce
next
  case (Op_Write_Timeout r timer)
  then show ?thesis using lawful pending_ops_wf(5) [OF wf, of r] by auto
next
  case (Op_Reset r)
  then show ?thesis using lawful reset_wf [OF wf, of r] by fastforce
qed

inductive db_reachable :: "gatt_db \<Rightarrow> bool" where
  new: "db_reachable gatt_db_new"
| step: "db_reachable db \<Longrightarrow> lawful_op db op \<Longrightarrow> run_op op db = Some db' \<Longrightarrow> db_reachable db'"

lemma db_has_new: "db_has gatt_db_new []"
  by (simp add: gatt_db_new_def gatt_db_ref_def db_has_def notifies_ok_def)

lemma db_reachable_wf: "db_reachable db \<Longrightarrow> wf_db db"
proof (induction rule: db_reachable.induct)
  case new
  then show ?case using db_has_new by (auto simp: wf_db_def)
next
  case (step db op db')
  then show ?case using run_op_wf by fastforce
qed

text \<open>C21: Type safety of the attribute database. In every database that operations within their contract lead to from a new
  one, the services are allocated, distinct, sorted by their handles and disjoint, and within each service the attributes fill
  the array from the left with ascending handles inside the range of the service. Every further operation within its contract
  runs to its end without undefined behaviour and leads to such a database again.\<close>

theorem gatt_db_type_safe:
  assumes "db_reachable db"
  shows "wf_db db \<and> (\<forall>op. lawful_op db op \<longrightarrow> (\<exists>db'. run_op op db = Some db' \<and> db_reachable db'))"
  using db_reachable_wf [OF assms] run_op_wf db_reachable.step [OF assms] by blast

section \<open>Searches\<close>

lemma find_service_total:
  "(\<And>e. e \<in> set es \<Longrightarrow> f (snd e) = Some (P e)) \<Longrightarrow> find_service f es = Some (List.find P es)"
  by (induction es) auto

lemma find_Some_first: "List.find P es = Some e \<Longrightarrow> e \<in> set es \<and> P e"
  by (induction es) (auto split: if_splits)

lemma find_service_for_handle_wf:
  "wf_service s \<Longrightarrow> find_service_for_handle h s = Some (svc_start s \<le> unat h \<and> unat h \<le> svc_end s)"
  by (auto simp: wf_service_def find_service_for_handle_def svc_handles word_le_nat_alt svc_start_eq)

lemma get_attr_in_range:
  assumes wf: "wf_db db" and x: "get_attr db r = Some x"
  obtains s where "db_heap db (fst r) = Some s" "svc_start s \<le> unat (at_handle x)" "unat (at_handle x) \<le> svc_end s" "0 < at_handle x"
proof -
  obtain s xs where s: "db_heap db (fst r) = Some s" "service_is s xs" "snd r < length xs" "xs ! snd r = x" using get_attr_cases [OF wf x] by metis
  from svc_handle_range [OF s(2,3)] s(4) have "svc_start s \<le> unat (at_handle x)" "unat (at_handle x) \<le> svc_end s" by simp_all
  moreover from this(1) svc_end_eq(4) [OF s(2)] have "0 < at_handle x" by (simp add: word_less_nat_alt)
  ultimately show thesis using that s(1) by blast
qed

lemma db_has_disjoint:
  assumes has: "db_has db ss" and e: "e \<in> set ss" and f: "f \<in> set ss"
    and h: "svc_start (snd e) \<le> k" "k \<le> svc_end (snd e)" "svc_start (snd f) \<le> k" "k \<le> svc_end (snd f)"
  shows "e = f"
proof -
  obtain i j where ij: "i < length ss" "ss ! i = e" "j < length ss" "ss ! j = f" using e f by (auto simp: in_set_conv_nth)
  have less: "svc_end (snd (ss ! i)) < svc_start (snd (ss ! j))" if "i < j" "j < length ss" for i j
    using that has by (auto simp: db_has_def sorted_wrt_iff_nth_less)
  have "i = j" using less [of i j] less [of j i] ij h by (cases i j rule: linorder_cases) auto
  then show ?thesis using ij by simp
qed

lemma filled_mem:
  assumes svc: "service_is s xs"
  shows "(r, x) \<in> set (filled_attributes a s) \<longleftrightarrow> fst r = a \<and> snd r < length xs \<and> xs ! snd r = x"
proof -
  have "set (filled_attributes a s) = (\<lambda>i. ((a, i), xs ! i)) ` {0..<length xs}" by (simp add: svc_filled [OF svc])
  then show ?thesis by (cases r) (simp add: image_iff, blast)
qed

lemma filled_get_attr:
  assumes svc: "service_is s xs" and s: "db_heap db a = Some s"
  shows "(r, x) \<in> set (filled_attributes a s) \<longleftrightarrow> fst r = a \<and> get_attr db r = Some x"
proof -
  have at: "attribute_at i s = (if i < length xs then Some (Some (xs ! i)) else if i < unat (sv_num_handles s) then Some None else None)" for i
    using svc_facts(2) [OF svc] by (simp add: attribute_at_def svc_nth [OF svc] svc_facts(3) [OF svc])
  have "get_attr db (a, i) = Some x \<longleftrightarrow> i < length xs \<and> xs ! i = x" for i by (simp add: get_attr_def s at)
  then show ?thesis unfolding filled_mem [OF svc] by (cases r) (simp, blast)
qed

text \<open>C22: Looking an attribute up by its handle. In every database that lawful operations lead to, \<open>gatt_db_get_attribute\<close> is
  defined and finds the attribute with the handle, whatever service it is in: it returns an attribute exactly when that
  attribute is in the database and has the handle, and NULL when there is none.\<close>

theorem get_attribute_correct:
  assumes "db_reachable db"
  shows "\<exists>q. gatt_db_get_attribute h db = Some q \<and> (\<forall>r. q = Some r \<longleftrightarrow> (\<exists>x. get_attr db r = Some x \<and> at_handle x = h))"
proof (cases "h = 0")
  case True
  then show ?thesis using get_attr_in_range [OF db_reachable_wf [OF assms]] by (fastforce simp: gatt_db_get_attribute_def)
next
  case False
  have wf: "wf_db db" by (rule db_reachable_wf [OF assms])
  then obtain ss where has: "db_has db ss" by (auto simp: wf_db_def)
  let ?P = "\<lambda>e. svc_start (snd e) \<le> unat h \<and> unat h \<le> svc_end (snd e)"
  have "find_service (find_service_for_handle h) ss = Some (List.find ?P ss)"
    by (rule find_service_total) (use has in \<open>auto simp: db_has_def intro: find_service_for_handle_wf\<close>)
  then have run: "gatt_db_get_attribute h db = Some (case List.find ?P ss of None \<Rightarrow> None
      | Some e \<Rightarrow> map_option fst (List.find (\<lambda>e. at_handle (snd e) = h) (filled_attributes (fst e) (snd e))))"
    using False by (auto simp: gatt_db_get_attribute_def db_has_services [OF has] split: option.splits prod.splits)
  have inside: "\<exists>s. (fst r, s) \<in> set ss \<and> db_heap db (fst r) = Some s \<and> ?P (fst r, s)" if x: "get_attr db r = Some x" "at_handle x = h" for r x
    using get_attr_in_range [OF wf x(1)] x(2) by (metis db_has_lookup [OF has] snd_conv)
  show ?thesis
  proof (cases "List.find ?P ss")
    case None
    then have "\<nexists>e. e \<in> set ss \<and> ?P e" by (simp only: find_None_iff) blast
    then show ?thesis using inside unfolding run None option.case by blast
  next
    case (Some e)
    then have e: "e \<in> set ss" "?P e" by (auto simp: find_Some_iff)
    then have heap: "db_heap db (fst e) = Some (snd e)" using db_has_lookup [OF has] by simp
    obtain xs where xs: "service_is (snd e) xs" by (rule heap_service [OF wf heap])
    have same: "fst r = fst e" if "get_attr db r = Some x" "at_handle x = h" for r x
      using inside [OF that] db_has_disjoint [OF has _ e(1), where k = "unat h"] e(2) by (metis fst_conv)
    let ?q = "List.find (\<lambda>e. at_handle (snd e) = h) (filled_attributes (fst e) (snd e))"
    have uniq: "r = r'" if r: "get_attr db r = Some x" "get_attr db r' = Some x'" "at_handle x = h" "at_handle x' = h" for r r' x x'
    proof -
      have "fst r = fst e" "fst r' = fst e" using same r by blast+
      moreover have "snd r < length xs \<and> xs ! snd r = x" "snd r' < length xs \<and> xs ! snd r' = x'"
        using r calculation filled_get_attr [OF xs heap] filled_mem [OF xs] by blast+
      moreover from this r(3,4) have "snd r = snd r'"
        using svc_handle_mono [OF xs, of "snd r" "snd r'"] svc_handle_mono [OF xs, of "snd r'" "snd r"] by (cases "snd r" "snd r'" rule: linorder_cases) auto
      ultimately show ?thesis by (simp add: prod_eq_iff)
    qed
    have "map_option fst ?q = Some r \<longleftrightarrow> (\<exists>x. get_attr db r = Some x \<and> at_handle x = h)" for r
    proof
      assume "map_option fst ?q = Some r"
      then obtain x where "?q = Some (r, x)" by auto
      then have "(r, x) \<in> set (filled_attributes (fst e) (snd e))" "at_handle x = h" using find_Some_first by fastforce+
      then show "\<exists>x. get_attr db r = Some x \<and> at_handle x = h" using filled_get_attr [OF xs heap] by auto
    next
      assume "\<exists>x. get_attr db r = Some x \<and> at_handle x = h"
      then obtain x where x: "get_attr db r = Some x" "at_handle x = h" by blast
      then have mem: "(r, x) \<in> set (filled_attributes (fst e) (snd e))" using same filled_get_attr [OF xs heap] by blast
      then have "?q \<noteq> None" using x(2) unfolding find_None_iff by (metis snd_conv)
      then obtain y where y: "?q = Some y" by blast
      then have "y \<in> set (filled_attributes (fst e) (snd e))" "at_handle (snd y) = h" using find_Some_first by fastforce+
      then have "fst y = r" using uniq x filled_get_attr [OF xs heap] by (metis prod.collapse)
      then show "map_option fst ?q = Some r" using y by simp
    qed
    then show ?thesis unfolding run Some option.case by blast
  qed
qed

text \<open>The attributes of the active services, in the order of their handles; searching is filtering this list.\<close>

definition active_attributes :: "gatt_db \<Rightarrow> (attr_ref \<times> gatt_db_attribute) list" where
  "active_attributes db = (case services db of None \<Rightarrow> []
     | Some ss \<Rightarrow> concat (map (\<lambda>e. filled_attributes (fst e) (snd e)) (filter (\<lambda>e. sv_active (snd e)) ss)))"

definition in_range :: "u16 \<Rightarrow> u16 \<Rightarrow> gatt_db_attribute \<Rightarrow> bool" where
  "in_range start stop x \<longleftrightarrow> start \<le> at_handle x \<and> at_handle x \<le> stop"

definition ascending :: "(attr_ref \<times> gatt_db_attribute) list \<Rightarrow> bool" where
  "ascending xs \<longleftrightarrow> sorted_wrt (\<lambda>e f. at_handle (snd e) < at_handle (snd f)) xs"

lemma ascending_Cons: "ascending (e # es) \<longleftrightarrow> (\<forall>f\<in>set es. at_handle (snd e) < at_handle (snd f)) \<and> ascending es"
  by (simp add: ascending_def)

lemma svc_ascending:
  assumes svc: "service_is s xs"
  shows "ascending (filled_attributes a s)" "(r, x) \<in> set (filled_attributes a s) \<Longrightarrow> wf_attribute x"
proof -
  show "ascending (filled_attributes a s)"
    using svc_handle_mono [OF svc] by (simp add: svc_filled [OF svc] ascending_def sorted_wrt_map sorted_wrt_iff_nth_less)
  show "wf_attribute x" if "(r, x) \<in> set (filled_attributes a s)"
    using that svc unfolding filled_mem [OF svc] by (auto simp: service_is_def)
qed

lemma info_entries_filter: "ascending es \<Longrightarrow> info_entries start stop es = map fst (filter (\<lambda>e. in_range start stop (snd e)) es)"
proof (induction es)
  case (Cons e es)
  show ?case
  proof (cases "stop < at_handle (snd e)")
    case True
    then have "\<forall>f\<in>set es. \<not> in_range start stop (snd f)" using Cons.prems by (force simp: ascending_Cons in_range_def)
    then have "filter (\<lambda>e. in_range start stop (snd e)) (e # es) = []" using True by (auto simp: in_range_def filter_empty_conv)
    moreover have "info_entries start stop (e # es) = []" using True Cons by (cases e) (auto simp: ascending_Cons in_range_def filter_empty_conv)
    ultimately show ?thesis by (simp only: list.map)
  qed (use Cons in \<open>cases e; auto simp: ascending_Cons in_range_def\<close>)
qed simp

definition has_type :: "bt_uuid \<Rightarrow> gatt_db_attribute \<Rightarrow> bool" where
  "has_type u x \<longleftrightarrow> bt_uuid_cmp u (at_uuid x) = Some 0"

lemma uuid_cmp_defined:
  assumes "uuid_given u" "wf_attribute x"
  obtains c where "bt_uuid_cmp u (at_uuid x) = Some c" "has_type u x \<longleftrightarrow> c = 0"
  using uuid_given_cmp [OF assms(1), of "at_uuid x"] assms(2) that by (auto simp: wf_attribute_def has_type_def)

lemma read_type_entries_filter:
  "ascending es \<Longrightarrow> uuid_given u \<Longrightarrow> \<forall>e\<in>set es. wf_attribute (snd e)
    \<Longrightarrow> read_type_entries start stop u es = Some (map fst (filter (\<lambda>e. in_range start stop (snd e) \<and> has_type u (snd e)) es))"
proof (induction es)
  case (Cons e es)
  obtain r x where e: "e = (r, x)" by (cases e)
  obtain c where c: "bt_uuid_cmp u (at_uuid x) = Some c" "has_type u x \<longleftrightarrow> c = 0" using uuid_cmp_defined [OF Cons.prems(2), of x] Cons.prems(3) by (auto simp: e)
  show ?case
  proof (cases "stop < at_handle x")
    case True
    then have "\<forall>f\<in>set (e # es). \<not> (in_range start stop (snd f) \<and> has_type u (snd f))" using Cons.prems(1) by (force simp: ascending_Cons in_range_def e)
    then have none: "filter (\<lambda>e. in_range start stop (snd e) \<and> has_type u (snd e)) (e # es) = []" "filter (\<lambda>e. in_range start stop (snd e) \<and> has_type u (snd e)) es = []"
      by (auto simp: filter_empty_conv)
    have "read_type_entries start stop u (e # es) = Some []" using True Cons none(2) by (auto simp: e ascending_Cons)
    then show ?thesis by (simp only: none(1) list.map)
  qed (use Cons c in \<open>auto simp: e ascending_Cons in_range_def\<close>)
qed simp

lemma map_opt_services:
  assumes has: "db_has db ss" and f: "\<And>e xs. e \<in> set ss \<Longrightarrow> service_is (snd e) xs
    \<Longrightarrow> f e = Some (if sv_active (snd e) then map fst (filter (\<lambda>e. P (snd e)) (filled_attributes (fst e) (snd e))) else [])"
  shows "over_services f db = Some (map fst (filter (\<lambda>e. P (snd e)) (active_attributes db)))"
proof -
  have f': "f e = Some (if sv_active (snd e) then map fst (filter (\<lambda>e. P (snd e)) (filled_attributes (fst e) (snd e))) else [])" if e: "e \<in> set ss" for e
  proof -
    have "wf_service (snd e)" using has e by (auto simp: db_has_def)
    then show ?thesis using f [OF e] by (auto simp: wf_service_def)
  qed
  have "map_opt f ss = Some (map (\<lambda>e. if sv_active (snd e) then map fst (filter (\<lambda>e. P (snd e)) (filled_attributes (fst e) (snd e))) else []) ss)"
    by (rule map_opt_Some) (rule f')
  moreover have "concat (map (\<lambda>e. if sv_active (snd e) then map fst (filter (\<lambda>e. P (snd e)) (filled_attributes (fst e) (snd e))) else []) es)
      = map fst (filter (\<lambda>e. P (snd e)) (concat (map (\<lambda>e. filled_attributes (fst e) (snd e)) (filter (\<lambda>e. sv_active (snd e)) es))))" for es
    by (induction es) auto
  ultimately show ?thesis by (simp add: over_services_def db_has_services [OF has] active_attributes_def)
qed

lemma active_ascending:
  assumes has: "db_has db ss"
  shows "ascending (active_attributes db)"
proof -
  have rng: "svc_start (snd e) \<le> unat (at_handle x) \<and> unat (at_handle x) \<le> svc_end (snd e)" if e: "e \<in> set ss" "(r, x) \<in> set (filled_attributes (fst e) (snd e))" for e r x
  proof -
    obtain xs where xs: "service_is (snd e) xs" using has e(1) by (auto simp: db_has_def wf_service_def)
    then show ?thesis using e(2) svc_handle_range [OF xs, of "snd r"] unfolding filled_mem [OF xs] by auto
  qed
  have "ascending (concat (map (\<lambda>e. filled_attributes (fst e) (snd e)) es))"
    if "set es \<subseteq> set ss" "sorted_wrt (\<lambda>e f. svc_end (snd e) < svc_start (snd f)) es" for es
    using that
  proof (induction es)
    case (Cons e es)
    obtain xs where xs: "service_is (snd e) xs" using has Cons.prems(1) by (auto simp: db_has_def wf_service_def)
    have "at_handle x < at_handle y" if x: "(r, x) \<in> set (filled_attributes (fst e) (snd e))" and f: "f \<in> set es" and y: "(q, y) \<in> set (filled_attributes (fst f) (snd f))" for r x f q y
    proof -
      have "svc_end (snd e) < svc_start (snd f)" using Cons.prems(2) f by simp
      moreover have "unat (at_handle x) \<le> svc_end (snd e)" "svc_start (snd f) \<le> unat (at_handle y)" using rng [of e r x] rng [of f q y] x f y Cons.prems(1) by auto
      ultimately show ?thesis by (simp add: word_less_nat_alt)
    qed
    then show ?case using Cons svc_ascending(1) [OF xs, of "fst e"] by (fastforce simp: ascending_def sorted_wrt_append)
  qed (simp add: ascending_def)
  from this [of "filter (\<lambda>e. sv_active (snd e)) ss"] show ?thesis
    using has by (auto simp: active_attributes_def db_has_services [OF has] db_has_def sorted_wrt_filter)
qed

text \<open>C23: Searching by handle range and type. In every database that lawful operations lead to, the search of
  \<open>gatt_db_find_information\<close> gives the attributes of the active services whose handle is in the range, that of
  \<open>gatt_db_read_by_type\<close> those which have the type as well, both in ascending order of the handles: the early returns of
  the loops at the end of the range lose nothing.\<close>

theorem searches_are_filters:
  assumes "db_reachable db" "uuid_given u"
  shows "gatt_db_find_information start stop db = Some (map fst (filter (\<lambda>e. in_range start stop (snd e)) (active_attributes db)))
    \<and> gatt_db_read_by_type start stop u db = Some (map fst (filter (\<lambda>e. in_range start stop (snd e) \<and> has_type u (snd e)) (active_attributes db)))
    \<and> ascending (active_attributes db)"
proof -
  obtain ss where has: "db_has db ss" using db_reachable_wf [OF assms(1)] by (auto simp: wf_db_def)
  have info: "find_information start stop e = Some (if sv_active (snd e) then map fst (filter (\<lambda>e. in_range start stop (snd e)) (filled_attributes (fst e) (snd e))) else [])"
    if xs: "service_is (snd e) xs" for e xs
  proof (cases "unat (at_handle (hd xs)) + unat (sv_num_handles (snd e)) - 1 < unat start")
    case True
    have "\<not> in_range start stop x" if "(r, x) \<in> set (filled_attributes (fst e) (snd e))" for r x
      using that True svc_handle_range [OF xs, of "snd r"] svc_end_eq(1) [OF xs] unfolding filled_mem [OF xs] by (auto simp: in_range_def word_le_nat_alt)
    then have "filter (\<lambda>e. in_range start stop (snd e)) (filled_attributes (fst e) (snd e)) = []" by (auto simp: filter_empty_conv)
    then show ?thesis using True by (simp add: find_information_def svc_first [OF xs])
  qed (simp add: find_information_def svc_first [OF xs] info_entries_filter [OF svc_ascending(1) [OF xs]])
  have type: "read_by_type start stop u e = Some (if sv_active (snd e)
        then map fst (filter (\<lambda>e. in_range start stop (snd e) \<and> has_type u (snd e)) (filled_attributes (fst e) (snd e))) else [])"
    if xs: "service_is (snd e) xs" for e xs
  proof -
    have "\<forall>d\<in>set (filled_attributes (fst e) (snd e)). wf_attribute (snd d)" using svc_ascending(2) [OF xs] by (metis prod.collapse)
    then show ?thesis using read_type_entries_filter [OF svc_ascending(1) [OF xs] assms(2)] by (simp add: read_by_type_def)
  qed
  have "over_services (find_information start stop) db = Some (map fst (filter (\<lambda>e. in_range start stop (snd e)) (active_attributes db)))"
    by (rule map_opt_services [OF has]) (rule info)
  moreover have "over_services (read_by_type start stop u) db
      = Some (map fst (filter (\<lambda>e. in_range start stop (snd e) \<and> has_type u (snd e)) (active_attributes db)))"
    by (rule map_opt_services [OF has, where P = "\<lambda>x. in_range start stop x \<and> has_type u x"]) (rule type)
  ultimately show ?thesis using active_ascending [OF has] by (simp add: gatt_db_find_information_def gatt_db_read_by_type_def)
qed

section \<open>Values\<close>

lemma memcmp_same [simp]: "bt_uuid128_cmp u u = 0"
  by (simp add: bt_uuid128_cmp_def)

lemma le_uuid_round_trip:
  assumes u: "uuid_given u" and le: "uuid_to_le u = Some bs"
  shows "\<exists>w. le_to_uuid bs = Some w \<and> bt_uuid_cmp w u = Some 0"
proof (cases u)
  case (BT_UUID16 v)
  then have "bs = le16 v" using le by (simp add: uuid_to_le_def)
  then have "le_to_uuid bs = Some (BT_UUID16 v)" using get_le16_le16 [of v "[]"] by (simp add: le_to_uuid_def bt_uuid16_create_def)
  then show ?thesis by (simp add: BT_UUID16 bt_uuid_cmp_def)
qed (use assms in \<open>auto simp: uuid_to_le_def uuid_given_def le_to_uuid_def bt_uuid128_create_def bt_uuid_cmp_def
    bt_uuid32_to_uuid128_def memcpy_at_def bluetooth_base_uuid_def BASE_UUID32_OFFSET_def\<close>)

text \<open>C24: What a characteristic says of itself. In every database that lawful operations lead to, an added characteristic has its
  declaration directly before its value attribute, and \<open>gatt_db_attribute_get_char_data\<close> on the declaration gives back what was
  added: the handle of the declaration, the handle of the value, the properties and the UUID.\<close>

theorem characteristic_round_trip:
  assumes "db_reachable db" "lawful_op db (Op_Add_Char mem r u p props rf wr ud)"
    and run: "gatt_db_service_add_characteristic mem r u p props rf wr ud db = Some (Some q, db')"
  shows "\<exists>h w. gatt_db_attribute_get_handle db' q = Some h \<and> 1 < h
    \<and> gatt_db_attribute_get_char_data db' (fst q, snd q - 1) False = Some (Some (h - 1, h, props, None, w)) \<and> bt_uuid_cmp w u = Some 0"
proof -
  have wf: "wf_db db" by (rule db_reachable_wf [OF assms(1)])
  have "uuid_given u" "in_service db r (\<lambda>s. char_fits s (last_handle s + 2))" using assms(2) by simp_all
  then obtain s where s: "uuid_given u" "db_heap db (fst r) = Some s" "char_fits s (last_handle s + 2)" using in_serviceD by blast
  obtain xs where xs: "service_is s xs" by (rule heap_service [OF wf s(2)])
  have fits: "if (0::u16) = 0 then char_fits s (last_handle s + 2) else unat (0::u16) \<le> svc_start s \<or> char_fits s (unat (0::u16))" using s(3) by simp
  have ran: "service_insert_characteristic mem 0 u p props rf wr ud s = Some (Some (snd q), the (db_heap db' (fst r)))"
    "db' = put_service (fst r) (the (db_heap db' (fst r))) db" "fst q = fst r"
    using run s(2) by (auto simp: gatt_db_service_add_characteristic_def on_service_def split: bind_splits)
  from insert_characteristic_ok [OF xs s(1) fits, where mem = mem and properties = props and permissions = p and rf = rf and wr = wr and ud = ud]
  obtain s' decl val le h where r': "service_insert_characteristic mem 0 u p props rf wr ud s = Some (Some (length xs + 1), s')"
    "service_is s' (xs @ [decl, val])" "uuid_to_le u = Some le"
    "new_attribute mem (h - 1) characteristic_uuid ([props] @ le16 h @ le) = Some decl" "at_handle val = h" "unat h = last_handle s + 2"
    unfolding ran(1) by auto
  have q: "snd q = length xs + 1" "the (db_heap db' (fst r)) = s'" using r'(1) ran(1) by simp_all
  have heap: "db_heap db' (fst q) = Some s'" using ran(2,3) q(2) by (metis fun_upd_same put_service_heap)
  have attr: "get_attr db' (fst q, i) = Some ((xs @ [decl, val]) ! i)" if "i < length xs + 2" for i
    using that svc_nth(1) [OF r'(2), of i] svc_facts(2,3) [OF r'(2)] heap by (simp add: get_attr_def attribute_at_def)
  have v: "get_attr db' q = Some val" using attr [of "length xs + 1"] q(1) by (cases q) (simp add: nth_append)
  have d: "get_attr db' (fst q, snd q - 1) = Some decl" using attr [of "length xs"] q(1) by (simp add: nth_append)
  obtain bs where bs: "uuid_to_le u = Some bs" "length bs = 2 \<or> length bs = 16" by (rule uuid_to_le_given [OF s(1)])
  then have len: "length le = 2 \<or> length le = 16" using r'(3) by simp
  have fields: "at_handle decl = h - 1" "at_uuid decl = characteristic_uuid" "at_value decl = props # le16 h @ le"
    "at_value_len decl = of_nat (length le + 3)"
    using r'(4) by (auto simp: new_attribute_def add.commute split: if_splits)
  have "value_bytes decl = Some (props # le16 h @ le)" using len by (auto simp: value_bytes_def fields)
  moreover have "bt_uuid_cmp characteristic_uuid characteristic_uuid = Some 0" by (simp add: characteristic_uuid_def bt_uuid_cmp_def)
  moreover have "get_le16 (props # le16 h @ le) 1 = h" using get_le16_le16 [of h le] by (simp add: get_le16_def)
  moreover have "at_value_len decl = 5 \<or> at_value_len decl = 19" using len by (auto simp: fields(4))
  moreover have "drop 3 (props # le16 h @ le) = le" by (simp add: le16_def be16_def)
  moreover obtain w where "le_to_uuid le = Some w" "bt_uuid_cmp w u = Some 0" using le_uuid_round_trip [OF s(1) r'(3)] by blast
  ultimately have "gatt_db_attribute_get_char_data db' (fst q, snd q - 1) False = Some (Some (h - 1, h, props, None, w)) \<and> bt_uuid_cmp w u = Some 0"
    by (auto simp: gatt_db_attribute_get_char_data_def d [simplified] fields(1-3))
  moreover have "1 < h" using r'(6) by (simp add: word_less_nat_alt)
  ultimately show ?thesis using v r'(5) by (auto simp: gatt_db_attribute_get_handle_def)
qed

definition spliced :: "u8 list \<Rightarrow> nat \<Rightarrow> u8 list \<Rightarrow> u8 list" where
  "spliced old off v = take off old @ v @ drop (off + length v) old"

lemma stored_value_spliced:
  assumes x: "wf_attribute x" and off: "unat off \<le> length (at_value x)" and v: "v \<noteq> []" and fits: "unat off + length v < 65536"
  shows "at_value (stored_value junk off v x) = spliced (at_value x) (unat off) v"
proof (cases "at_value x = [] \<or> at_value_len x \<le> off \<or> unat (at_value_len x - off) < length v")
  case True
  have len: "length (at_value x) = unat (at_value_len x)" using x by (simp add: wf_attribute_def)
  have "length (at_value x) \<le> unat off + length v"
  proof (cases "at_value x = [] \<or> at_value_len x \<le> off")
    case False
    then have "off \<le> at_value_len x" using linear by blast
    then have "unat (at_value_len x - off) = unat (at_value_len x) - unat off" by (rule unat_sub)
    then show ?thesis using True False len by auto
  qed (use len in \<open>auto simp: word_le_nat_alt\<close>)
  moreover have "at_value_len x = 0 \<Longrightarrow> unat off = 0" using off len by simp
  ultimately show ?thesis using True off by (auto simp: stored_value_def spliced_def Let_def min_def)
next
  case False
  then show ?thesis by (simp add: stored_value_def spliced_def Let_def)
qed

text \<open>C25: Reading a stored value back. In every database that lawful operations lead to, a write at an offset inside or right
  behind a value that is stored in the database replaces the bytes from the offset on and lengthens the value where needed. A read
  of it at any offset then answers with the rest of the new value, or with an invalid offset behind its end.\<close>

theorem write_then_read:
  assumes "db_reachable db" and x: "get_attr db r = Some x" and stored: "at_read_func x = None" "at_write_func x = None"
    and v: "v \<noteq> []" "unat off \<le> length (at_value x)" "unat off + length v < 65536"
  shows "\<exists>db' db''. gatt_db_attribute_write True junk r off v op (Some f) ud db = Some (True, db')
    \<and> gatt_db_attribute_read r off' op' (Some g) ud' db' = Some (True, db'')
    \<and> db_events db'' = db_events db @ [Write_Result f r 0 ud,
        if length (spliced (at_value x) (unat off) v) < unat off' then Read_Result g r BT_ATT_ERROR_INVALID_OFFSET [] ud'
        else Read_Result g r 0 (drop (unat off') (spliced (at_value x) (unat off) v)) ud']"
proof -
  have wf: "wf_db db" by (rule db_reachable_wf [OF assms(1)])
  obtain s xs where s: "db_heap db (fst r) = Some s" "snd r < length (sv_attributes s)" "wf_attribute x" using get_attr_cases [OF wf x] by metis
  let ?y = "stored_value junk off v x"
  let ?db = "put_service (fst r) (s\<lparr>sv_attributes := (sv_attributes s)[snd r := Some ?y]\<rparr>) db"
  have put: "put_attr r ?y db = Some ?db" using s by (simp add: put_attr_def)
  have y: "get_attr ?db r = Some ?y" using s(2) by (simp add: get_attr_def attribute_at_def)
  have val: "at_value ?y = spliced (at_value x) (unat off) v" "value_bytes ?y = Some (at_value ?y)" "at_read_func ?y = None"
    "length (at_value ?y) = unat (at_value_len ?y)"
    using stored_value_spliced [OF s(3) v(2,1,3)] value_bytes_wf [OF stored_value_wf(1) [OF s(3) v(3)]] stored_value_wf(1) [OF s(3) v(3)] stored
    by (simp_all add: stored_value_def Let_def wf_attribute_def)
  let ?db' = "log_db [Write_Result f r 0 ud] ?db"
  have "gatt_db_attribute_write True junk r off v op (Some f) ud db = Some (True, ?db')"
    using v(1) stored put by (simp add: gatt_db_attribute_write_def x)
  moreover have "get_attr ?db' r = Some ?y" using y by (simp add: get_attr_def)
  then have "\<exists>db''. gatt_db_attribute_read r off' op' (Some g) ud' ?db' = Some (True, db'')
    \<and> db_events db'' = db_events ?db' @ [if length (at_value ?y) < unat off' then Read_Result g r BT_ATT_ERROR_INVALID_OFFSET [] ud'
        else Read_Result g r 0 (drop (unat off') (at_value ?y)) ud']"
    using val(2,3,4) by (simp add: gatt_db_attribute_read_def log_db_def word_less_nat_alt)
  ultimately show ?thesis unfolding val(1) by (fastforce simp: log_db_def put_service_def)
qed

text \<open>\<open>gatt_db_clear\<close> sets \<open>next_handle\<close> to 0, with which no service can be added.\<close>

theorem clear_stops_adding:
  assumes "db_reachable db"
  shows "\<exists>db'. gatt_db_clear db = Some db' \<and> (\<forall>mem u p n. gatt_db_add_service mem u p n db' = Some (None, db'))"
proof -
  obtain ss where has: "db_has db ss" using db_reachable_wf [OF assms] by (auto simp: wf_db_def)
  obtain db' where "gatt_db_clear db = Some db'" using clear_wf [OF has] by blast
  moreover from this have "db_next_handle db' = 0" by (auto simp: gatt_db_clear_def split: bind_splits)
  ultimately show ?thesis by (simp add: gatt_db_add_service_def gatt_db_insert_service_def)
qed

section \<open>A database with one service\<close>

definition sample_service :: gatt_db_service where
  "sample_service = \<lparr>sv_active = False, sv_claimed = False, sv_num_handles = 4,
     sv_attributes = [Some \<lparr>at_handle = 5, at_uuid = primary_service_uuid, at_permissions = 0, at_value = [0x0F, 0x18], at_value_len = 2,
       at_read_func = None, at_write_func = None, at_user_data = None, at_read_id = 0, at_pending_reads = [], at_write_id = 0, at_pending_writes = []\<rparr>,
       None, None, None]\<rparr>"

definition sample_db :: gatt_db where
  "sample_db = gatt_db_new\<lparr>db_next_handle := 9, db_services := [0], db_heap := [0 \<mapsto> sample_service], db_addr := 1\<rparr>"

lemma replicate_four: "replicate 4 x = [x, x, x, x]"
  by (simp add: eval_nat_numeral)

lemma le16_battery: "le16 0x180F = [0x0F, 0x18]"
  by (simp add: le16_def be16_def)

lemmas insert_run = gatt_db_insert_service_def gatt_db_service_create_def uuid_to_le_def new_attribute_def attribute_at_def
  put_service_def service_type_def le16_battery replicate_four word_le_nat_alt word_less_nat_alt

lemma sample_insert: "gatt_db_insert_service True 5 (BT_UUID16 0x180F) True 4 gatt_db_new = Some (Some (0, 0), sample_db)"
  by (simp add: insert_run gatt_db_new_def gatt_db_ref_def sample_db_def sample_service_def)

lemma sample_reachable: "db_reachable sample_db"
proof (rule db_reachable.step [OF db_reachable.new, where op = "Op_Insert_Service True 5 (BT_UUID16 0x180F) True 4"])
  show "lawful_op gatt_db_new (Op_Insert_Service True 5 (BT_UUID16 0x180F) True 4)"
    by (simp add: uuid_given_def range_free_def gatt_db_new_def gatt_db_ref_def)
qed (simp add: sample_insert)

lemma sample_heap: "db_heap sample_db 0 = Some sample_service" "db_services sample_db = [0]"
  by (simp_all add: sample_db_def gatt_db_new_def gatt_db_ref_def)

lemma sample_attr: "get_attr sample_db (0, 0) = Some (the (sv_attributes sample_service ! 0))"
  by (simp add: get_attr_def sample_heap attribute_at_def sample_service_def)

lemma sample_lawful: "lawful_op sample_db (Op_Add_Char True (0, 0) (BT_UUID16 0x2A19) 0 0x02 None None None)"
  by (simp add: in_service_def sample_attr sample_heap uuid_given_def char_fits_def last_handle_def used_def svc_end_def svc_start_def)
    (simp add: sample_service_def)

lemma sample_indices: "get_attribute_index sample_service 1 = 1" "get_handle_at_index sample_service 0 = Some 5"
  "length (sv_attributes sample_service) = 4" "sv_active sample_service = False"
  by (simp_all add: get_attribute_index_def get_handle_at_index_def attribute_at_def sample_service_def)

lemma sample_add_char:
  "\<exists>db. gatt_db_service_add_characteristic True (0, 0) (BT_UUID16 0x2A19) 0 0x02 None None None sample_db = Some (Some (0, 2), db)"
  by (simp add: gatt_db_service_add_characteristic_def on_service_def service_insert_characteristic_def sample_heap sample_indices [simplified]
    uuid_to_le_def new_attribute_def set_attribute_def Let_def)

lemma gatt_db_type_safe_witness:
  "wf_db sample_db \<and> (\<exists>db'. run_op (Op_Add_Char True (0, 0) (BT_UUID16 0x2A19) 0 0x02 None None None) sample_db = Some db' \<and> db_reachable db')"
  using gatt_db_type_safe [OF sample_reachable] sample_lawful by blast

lemma get_attribute_correct_witness: "gatt_db_get_attribute 5 sample_db = Some (Some (0, 0))"
  using get_attribute_correct [OF sample_reachable, of 5] sample_attr by (auto simp: sample_service_def)

definition sample_active :: gatt_db where
  "sample_active = put_service 0 (sample_service\<lparr>sv_active := True\<rparr>) sample_db"

lemma sample_active_reachable: "db_reachable sample_active"
proof (rule db_reachable.step [OF sample_reachable, where op = "Op_Set_Active (0, 0) True"])
  have "db_notify_list sample_active = []" by (simp add: sample_active_def put_service_def sample_db_def gatt_db_new_def gatt_db_ref_def)
  then have "notify_service_changed 0 True sample_active = Some sample_active" by (simp add: notify_service_changed_def log_db_def)
  then show "run_op (Op_Set_Active (0, 0) True) sample_db = Some sample_active"
    by (simp add: gatt_db_service_set_active_def sample_heap sample_indices flip: sample_active_def)
qed (simp add: sample_attr)

lemma sample_active_attributes: "active_attributes sample_active = [((0, 0), the (sv_attributes sample_service ! 0))]"
  by (simp add: active_attributes_def services_def sample_active_def put_service_def sample_heap filled_attributes_def map_filter_def)
    (simp add: sample_service_def upt_rec)

lemma searches_are_filters_witness:
  "gatt_db_find_information 1 0xffff sample_active = Some [(0, 0)] \<and> gatt_db_read_by_type 1 0xffff primary_service_uuid sample_active = Some [(0, 0)]"
proof -
  have "in_range 1 0xffff (the (sv_attributes sample_service ! 0))" "has_type primary_service_uuid (the (sv_attributes sample_service ! 0))"
    by (simp_all add: sample_service_def in_range_def has_type_def bt_uuid_cmp_def primary_service_uuid_def word_le_nat_alt)
  then show ?thesis using searches_are_filters [OF sample_active_reachable uuid_given_types(1), of 1 "0xffff"] by (simp add: sample_active_attributes)
qed

lemma characteristic_round_trip_witness:
  "\<exists>db h w. gatt_db_service_add_characteristic True (0, 0) (BT_UUID16 0x2A19) 0 0x02 None None None sample_db = Some (Some (0, 2), db)
    \<and> gatt_db_attribute_get_char_data db (0, 1) False = Some (Some (h - 1, h, 0x02, None, w)) \<and> bt_uuid_cmp w (BT_UUID16 0x2A19) = Some 0"
proof -
  obtain db where run: "gatt_db_service_add_characteristic True (0, 0) (BT_UUID16 0x2A19) 0 0x02 None None None sample_db = Some (Some (0, 2), db)"
    using sample_add_char by blast
  show ?thesis using run characteristic_round_trip [OF sample_reachable sample_lawful run] by auto
qed

lemma write_then_read_witness:
  "\<exists>db' db''. gatt_db_attribute_write True (\<lambda>_. 0) (0, 0) 1 [1, 2] 0x12 (Some 7) None sample_db = Some (True, db')
    \<and> gatt_db_attribute_read (0, 0) 0 0x0A (Some 8) None db' = Some (True, db'')
    \<and> db_events db'' = [Write_Result 7 (0, 0) 0 None, Read_Result 8 (0, 0) 0 [0x0F, 1, 2] None]"
  using write_then_read [OF sample_reachable sample_attr, where junk = "\<lambda>_. 0" and off = 1 and v = "[1, 2]" and op = "0x12" and f = 7 and ud = None
    and off' = 0 and op' = "0x0A" and g = 8 and ud' = None]
  by (simp add: sample_service_def spliced_def sample_db_def gatt_db_new_def gatt_db_ref_def)

text \<open>A range that encloses a service is accepted: the services 5 to 8 and 1 to 10 are both in the database.\<close>

theorem enclosing_range_accepted:
  "\<exists>db. gatt_db_insert_service True 1 (BT_UUID16 0x180F) True 10 sample_db = Some (Some (1, 0), db)
    \<and> (do { ss \<leftarrow> services db; map_opt (\<lambda>e. gatt_db_service_get_handles (snd e)) ss }) = Some [(5, 8), (1, 10)]"
  by (simp add: insert_run gatt_db_new_def gatt_db_ref_def sample_db_def sample_service_def services_def gatt_db_service_get_handles_def insert_entry_after_def)

end
