(* ===== verification/Spec2Isabelle.thy ===== *)
theory Spec2Isabelle
  imports Advertisement Gatt_Char Protocol Gattrib Socket Ringbuf Gatt_Db_Safe
begin

text \<open>
  A model of gattlib, a C library to access the GATT services of Bluetooth Low Energy devices on Linux,
  and of the parts of BlueZ that it is built with.

  \<^bold>\<open>The program.\<close> An application opens an \<^emph>\<open>adapter\<close>, scans for devices, connects to one, discovers its
  services and characteristics, reads and writes them and subscribes to notifications. The library keeps a
  global list of adapters, each with the devices it has seen; a device holds its state (disconnected,
  connecting, connected, disconnecting) and its connection, with the application's callbacks. BlueZ does the
  radio work: the D-Bus back end (\<open>dbus/\<close>) calls it through proxies, and its signals (object added, properties
  changed, value changed) call the library back from the main loop. The library hands each callback of the
  application to a thread of its own. A recursive mutex guards the registry; reference counters keep an adapter
  or a device allocated while a callback runs.

  \<^bold>\<open>The theories.\<close>
  \<^item> \<open>Prelude\<close>, \<open>Cstring\<close>: machine integers, byte order, and the C library's string functions that the code calls.
  \<^item> \<open>Bt_Uuid\<close>: \<open>dbus/bluez5/lib/uuid.c\<close>. \<open>Gattlib_Uuid\<close>: the UUID functions of \<open>common/gattlib_common.c\<close>; round
    trip through strings, and what the comparison decides. Locale \<open>uuid_comparison\<close>: what the look-ups rely on.
  \<^item> \<open>State\<close>: return codes, structures, heap. Adapters, devices and D-Bus object lists are heap objects; \<open>None\<close>
    as the result of an operation is undefined behaviour (a pointer that is not allocated, a null function pointer, a
    write outside an array). \<open>events\<close> records the calls that leave the library and the callbacks it makes.
  \<^item> \<open>Registry\<close>: \<open>common/gattlib_common_adapter.c\<close>, \<open>common/gattlib_device_state_management.c\<close> and the reference
    counters: the invariant \<open>wf_gstate\<close>, the validity checks, and the device state machine, which refines a
    transition table over device identifiers. Locale \<open>device_registry\<close>: any run of state changes.
  \<^item> \<open>Callbacks\<close>: registration, dispatch, and the callback threads, split where they release the mutex.
  \<^item> \<open>Adapter\<close>: \<open>dbus/gattlib_adapter.c\<close>, the Eddystone scan and the main loop: opening, closing, scanning, and the
    signals of BlueZ's object manager.
  \<^item> \<open>Protocol\<close>: the critical sections of the previous theories as the steps of one transition system over all
    threads; the invariant that every reference counter counts the holders, and what can fault.
  \<^item> \<open>Connection\<close>: \<open>dbus/gattlib.c\<close> but for discovery: connecting, the signals of a device, disconnecting, RSSI.
  \<^item> \<open>Discover\<close>: services and characteristics from BlueZ's object tree. \<open>Gatt_Char\<close>: \<open>dbus/gattlib_char.c\<close>,
    \<open>gattlib_stream.c\<close>, \<open>gattlib_notification.c\<close>. \<open>Advertisement\<close>: \<open>dbus/gattlib_advertisement.c\<close>.
  \<^item> \<open>Att\<close>: the PDU codec \<open>bluez/bluez5/attrib/att.c\<close> of the socket back end; locale \<open>pdu_codec\<close>: an encoder and its
    decoder. \<open>Gatt\<close>: the procedures of \<open>bluez/bluez5/attrib/gatt.c\<close> over that codec, run against any server;
    locales \<open>advancing\<close>, \<open>bounded_procedure\<close> (why a conversation ends and stays in bounds) and
    \<open>table_discovery\<close> (why a discovery reports exactly the server's table).
  \<^item> \<open>Queue\<close>: \<open>bluez/bluez5/src/shared/queue.c\<close> on a heap of entries; it refines lists. Locales \<open>operation_refinement\<close>
    (of \<open>Prelude\<close>: runs of operations against a specification), \<open>entry_visitor\<close>, \<open>destroyer\<close> and \<open>quiet_destroyer\<close> (functions that a queue calls and that
    use the queue).
  \<^item> \<open>Bt_Att\<close>: \<open>bluez/bluez5/src/shared/att.c\<close>, the transport of the protocol: queues of operations, flow control,
    matching of responses, time-outs, disconnection, with functions of the application that call back. Locale
    \<open>att_client\<close>: the contract of those functions, under which every operation keeps the invariant \<open>wf_att\<close>.
    \<open>Att_App\<close>: applications that meet it (\<open>calm_client\<close>, \<open>scripted\<close>), every sequence of their actions and of the main
    loop's events, and \<open>alert_client\<close>: the write handler is installed whenever something may be sent.
  \<^item> \<open>Gattrib\<close>: \<open>bluez/bluez5/attrib/gattrib.c\<close>, the interface between the procedures and the transport; its state extends that
    of \<open>Bt_Att\<close>, and its functions are among those that the transport calls back. A request, its answer or its
    cancellation, and the dispatch of notifications, through both layers.
  \<^item> \<open>Ringbuf\<close>: \<open>bluez/bluez5/src/shared/ringbuf.c\<close>, positions in the arithmetic of \<open>size_t\<close>; it refines a bounded queue of bytes.
  \<^item> \<open>Gatt_Db\<close>: \<open>bluez/bluez5/src/shared/gatt-db.c\<close>, the database of services and attributes of a GATT peer: its functions over a
    heap of services, each an array of attributes. \<open>Gatt_Db_Safe\<close>: the contract of each operation (\<open>lawful_op\<close>), the invariant
    \<open>wf_db\<close> (disjoint services in order, ascending handles inside each) that every lawful operation keeps without undefined
    behaviour, and what look-up, search, added characteristics and stored values give in every database reached so.
  \<^item> \<open>Socket\<close>: the socket back end, \<open>bluez/gattlib_discover.c\<close>, \<open>gattlib_read_write.c\<close>, \<open>gattlib_connect.c\<close> and
    \<open>gattlib_adapter.c\<close>, over \<open>Gatt\<close>: what reaches the server and what the application gets back. \<open>Bdaddr\<close>: the
    addresses of \<open>bluez/bluez5/lib/bluetooth.c\<close> and their strings.

  \<^bold>\<open>Conventions.\<close> An operation of the library has type \<open>gstate \<Rightarrow> ('a \<times> gstate) option\<close>. One that holds the mutex
  from start to end is one definition; one that releases it midway is one definition per critical section
  (\<open>_enter\<close>, \<open>_leave\<close>), and the properties about other threads take the state between two sections as given.
  What BlueZ, GLib, \<open>calloc\<close> and thread creation answer are arguments (\<open>scan_env\<close>, \<open>connect_env\<close>, \<open>bus\<close>, ...). Loops
  are structural recursions over the lists that the code walks, so they end; the waits on condition variables
  are not loops of the model but the gaps between sections, except \<open>gattlib_disconnect_wait\<close>, which takes the list
  of the wake-ups. Integers have their width in C; \<open>size_t\<close> is a natural number where no operation on it can wrap.

  \<^bold>\<open>The properties\<close> say what each operation does on every outcome of the calls it makes, that the registry stays
  well formed and no freed object is read, that discovery and decoding stay within their arrays, and that
  what is printed, encoded or subscribed is parsed, decoded or unsubscribed. Some show what the code does where it
  departs from its purpose: the race of two opens, the scan whose time-out leaves BlueZ discovering, the wait for
  a disconnection that does not wait, the double release of an object list.

  \<^bold>\<open>Not modelled.\<close> The code for BlueZ before 5.38 (alternatives under \<open>#if\<close>), the other vendored
  BlueZ sources (of the socket back end: BlueZ's socket options and HCI commands, \<open>gatt-client.c\<close> and the servers, SDP), the C++ and Python bindings, logging, the examples and tests. The
  Python variants of the callbacks are built only \<open>WITH_PYTHON\<close>.
\<close>

end
